(* ===== verification/Prelude.thy ===== *)
theory Prelude
  imports Main "HOL-Library.Multiset" "HOL-Library.Char_ord" "HOL-Library.List_Lexorder"
    "HOL-Library.Product_Lexorder"
begin

text \<open>
  Shared vocabulary of the development.

  \<^item> Python \<open>str\<close> and \<open>bytes\<close> values are both \<open>string\<close> (a list of 256-valued
    \<open>char\<close>s). A \<open>str\<close> is represented by its UTF-8 encoding, so \<open>encode\<close> is the identity,
    \<open>len(s.encode())\<close> is \<open>length\<close>, and Python's code-point order on \<open>str\<close> is the
    lexicographic byte order of the encodings. A \<open>str\<close> with a lone surrogate has no UTF-8
    encoding (Python raises) and is not a value of the model.
  \<^item> Exceptions of the analysis package are values of \<open>py_error\<close>; a computation that may
    raise returns \<open>py_error + 'a\<close>.
  \<^item> A computation with mutable state returns the error or value together with the state at
    that point, so that state changes made before a raise survive it, as in Python.
  \<^item> Python's \<open>dict\<close> is an association list where its iteration order is observed.
\<close>

section \<open>Types of the analysis package\<close>

type_synonym bytes = string
type_synonym node_id = int

datatype py_error =
    ValueError string
  | AssertionError
  | BudgetExhausted
  | CanonicalizationDeadlineExceeded
  | NonDistributiveSpec string
  | EmptyWitness
  | WitnessNotInCPG node_id
  | NodeIdCollision string node_id
  | EnvDigestMismatch string string
  | OverflowError
  | TypeError
  | BoundRuleError string
  | RawExportError string
  | RawExportFailedError string
  | ObservedGraphError string
  | KeyError string
  | JSONDecodeError
  | DSLError string nat nat
  | ProvenanceError string
  | RepartitionWithoutParent string
  | InvariantViolation string
  | OutOfFuel

text \<open>
  \<open>OutOfFuel\<close> is raised by no line of the code: it is the value of a loop that would exceed
  its bound. Each loop that carries a bound comes with a lemma that the bound is enough.
\<close>

type_synonym 'a res = "py_error + 'a"

section \<open>Computations that may raise\<close>

definition r_bind :: "'a res \<Rightarrow> ('a \<Rightarrow> 'b res) \<Rightarrow> 'b res" where
  "r_bind r f = (case r of Inl e \<Rightarrow> Inl e | Inr x \<Rightarrow> f x)"

lemma r_bind_simps [simp]:
  "r_bind (Inl e) f = Inl e"
  "r_bind (Inr x) f = f x"
  by (simp_all add: r_bind_def)

lemma r_bind_Inr_iff: "r_bind r f = Inr y \<longleftrightarrow> (\<exists>x. r = Inr x \<and> f x = Inr y)"
  by (cases r) auto

lemma r_bind_cong [fundef_cong]:
  "r = r' \<Longrightarrow> (\<And>x. r' = Inr x \<Longrightarrow> f x = g x) \<Longrightarrow> r_bind r f = r_bind r' g"
  by (cases r') auto

text \<open>A loop or comprehension over a list that stops at the first raise.\<close>

fun r_map :: "('a \<Rightarrow> 'b res) \<Rightarrow> 'a list \<Rightarrow> 'b list res" where
  "r_map f [] = Inr []"
| "r_map f (x # xs) = r_bind (f x) (\<lambda>y. r_bind (r_map f xs) (\<lambda>ys. Inr (y # ys)))"

lemma r_map_cong [fundef_cong]:
  "xs = ys \<Longrightarrow> (\<And>x. x \<in> set ys \<Longrightarrow> f x = g x) \<Longrightarrow> r_map f xs = r_map g ys"
  by (induction ys arbitrary: xs) auto

lemma r_map_Inr_iff: "r_map f xs = Inr ys \<longleftrightarrow> list_all2 (\<lambda>x y. f x = Inr y) xs ys"
  by (induction xs arbitrary: ys) (auto simp: r_bind_Inr_iff list_all2_Cons1)

lemma r_map_Inr_all: "r_map f xs = Inr ys \<Longrightarrow> x \<in> set xs \<Longrightarrow> \<exists>y \<in> set ys. f x = Inr y"
  by (induction xs arbitrary: ys) (auto simp: r_bind_Inr_iff)

lemma r_map_Inr_map: "r_map f xs = Inr ys \<Longrightarrow> (\<And>x. x \<in> set xs \<Longrightarrow> f x = Inr (g x)) \<Longrightarrow> ys = map g xs"
  by (induction xs arbitrary: ys) (auto simp: r_bind_Inr_iff)

lemma r_map_total: "(\<And>x. x \<in> set xs \<Longrightarrow> f x = Inr (g x)) \<Longrightarrow> r_map f xs = Inr (map g xs)"
  by (induction xs) auto

lemma r_map_map: "r_map f (map h xs) = r_map (\<lambda>x. f (h x)) xs"
  by (induction xs) auto

lemma r_map_length: "r_map f xs = Inr ys \<Longrightarrow> length ys = length xs"
  by (induction xs arbitrary: ys) (auto simp: r_bind_Inr_iff)

text \<open>Validation code: \<open>if not b: raise ValueError(msg)\<close>, statements in sequence, and a loop of checks.\<close>

definition r_check :: "string \<Rightarrow> bool \<Rightarrow> unit res" where
  "r_check msg b = (if b then Inr () else Inl (ValueError msg))"

definition r_then :: "unit res \<Rightarrow> 'a res \<Rightarrow> 'a res" where
  "r_then r q = r_bind r (\<lambda>_. q)"

fun r_each :: "('a \<Rightarrow> unit res) \<Rightarrow> 'a list \<Rightarrow> unit res" where
  "r_each f [] = Inr ()"
| "r_each f (x # xs) = r_then (f x) (r_each f xs)"

text \<open>A property of the value of an optional field, when there is one.\<close>

fun opt_all :: "('a \<Rightarrow> bool) \<Rightarrow> 'a option \<Rightarrow> bool" where
  "opt_all P None = True"
| "opt_all P (Some x) = P x"

lemma r_check_ok [simp]: "r_check msg b = Inr u \<longleftrightarrow> b"
  by (simp add: r_check_def)

lemma r_then_ok [simp]: "r_then r q = Inr y \<longleftrightarrow> r = Inr () \<and> q = Inr y"
  by (simp add: r_then_def r_bind_Inr_iff)

lemma r_each_ok [simp]: "r_each f xs = Inr u \<longleftrightarrow> (\<forall>x \<in> set xs. f x = Inr ())"
  by (induction xs) auto

lemma r_check_error: "r_check msg b = Inl e \<longleftrightarrow> \<not> b \<and> e = ValueError msg"
  by (auto simp: r_check_def)

lemma r_then_error: "r_then r q = Inl e \<longleftrightarrow> r = Inl e \<or> (r = Inr () \<and> q = Inl e)"
  by (cases r) (auto simp: r_then_def)

text \<open>A loop over a list with an accumulator that stops at the first raise.\<close>

fun r_fold :: "('x \<Rightarrow> 'a \<Rightarrow> 'a res) \<Rightarrow> 'x list \<Rightarrow> 'a \<Rightarrow> 'a res" where
  "r_fold f [] a = Inr a"
| "r_fold f (x # xs) a = r_bind (f x a) (r_fold f xs)"

lemma r_map_exists: "(\<And>x. x \<in> set xs \<Longrightarrow> \<exists>y. f x = Inr y) \<Longrightarrow> \<exists>ys. r_map f xs = Inr ys"
  by (induction xs) force+

lemma r_fold_Inr_each: "r_fold f xs a = Inr b \<Longrightarrow> x \<in> set xs \<Longrightarrow> \<exists>c d. f x c = Inr d"
  by (induction xs arbitrary: a) (auto simp: r_bind_Inr_iff)

text \<open>A computation that raises nothing but errors of a given class.\<close>

definition raises_only :: "(py_error \<Rightarrow> bool) \<Rightarrow> 'a res \<Rightarrow> bool" where
  "raises_only P x \<longleftrightarrow> (\<forall>e. x = Inl e \<longrightarrow> P e)"

named_theorems raises_intro

lemma raises_only_simps [simp]: "raises_only P (Inr x)" "raises_only P (Inl e) \<longleftrightarrow> P e"
  by (simp_all add: raises_only_def)

lemma raises_only_bind [raises_intro]:
  "raises_only P x \<Longrightarrow> (\<And>y. x = Inr y \<Longrightarrow> raises_only P (f y)) \<Longrightarrow> raises_only P (r_bind x f)"
  by (cases x) simp_all

lemma raises_only_then_ok: "raises_only P x \<Longrightarrow> (x = Inr () \<Longrightarrow> raises_only P y) \<Longrightarrow> raises_only P (r_then x y)"
  unfolding r_then_def by (rule raises_only_bind) simp_all

lemma raises_only_then [raises_intro]: "raises_only P x \<Longrightarrow> raises_only P y \<Longrightarrow> raises_only P (r_then x y)"
  by (rule raises_only_then_ok)

lemma raises_only_if: "(b \<Longrightarrow> raises_only P x) \<Longrightarrow> (\<not> b \<Longrightarrow> raises_only P y) \<Longrightarrow> raises_only P (if b then x else y)"
  by simp

lemma raises_only_each [raises_intro]: "(\<And>x. x \<in> set xs \<Longrightarrow> raises_only P (f x)) \<Longrightarrow> raises_only P (r_each f xs)"
  by (induction xs) (auto intro: raises_only_then)

lemma raises_only_map [raises_intro]: "(\<And>x. x \<in> set xs \<Longrightarrow> raises_only P (f x)) \<Longrightarrow> raises_only P (r_map f xs)"
  by (induction xs) (auto intro!: raises_only_bind)

lemma raises_only_fold [raises_intro]: "(\<And>x a. x \<in> set xs \<Longrightarrow> raises_only P (f x a)) \<Longrightarrow> raises_only P (r_fold f xs a)"
  by (induction xs arbitrary: a) (auto intro!: raises_only_bind)

section \<open>Computations with state that may raise\<close>

type_synonym ('s, 'a) m = "'s \<Rightarrow> 'a res \<times> 's"

definition m_return :: "'a \<Rightarrow> ('s, 'a) m" where
  "m_return x = (\<lambda>s. (Inr x, s))"

definition m_lift :: "'a res \<Rightarrow> ('s, 'a) m" where
  "m_lift r = (\<lambda>s. (r, s))"

definition m_bind :: "('s, 'a) m \<Rightarrow> ('a \<Rightarrow> ('s, 'b) m) \<Rightarrow> ('s, 'b) m" where
  "m_bind c f = (\<lambda>s. case c s of (Inl e, s') \<Rightarrow> (Inl e, s') | (Inr x, s') \<Rightarrow> f x s')"

text \<open>A \<open>for\<close> loop: the accumulator is what the body assigns.\<close>

fun m_fold :: "('x \<Rightarrow> 'a \<Rightarrow> ('s, 'a) m) \<Rightarrow> 'x list \<Rightarrow> 'a \<Rightarrow> ('s, 'a) m" where
  "m_fold f [] a = m_return a"
| "m_fold f (x # xs) a = m_bind (f x a) (m_fold f xs)"

lemma m_return_run [simp]: "m_return x s = (Inr x, s)"
  by (simp add: m_return_def)

lemma m_lift_run [simp]: "m_lift r s = (r, s)"
  by (simp add: m_lift_def)

lemma m_bind_run:
  "m_bind c f s = (case c s of (Inl e, s') \<Rightarrow> (Inl e, s') | (Inr x, s') \<Rightarrow> f x s')"
  by (simp add: m_bind_def)

lemma m_bind_Inr_iff:
  "m_bind c f s = (Inr y, t) \<longleftrightarrow> (\<exists>x u. c s = (Inr x, u) \<and> f x u = (Inr y, t))"
  by (auto simp: m_bind_run split: prod.splits sum.splits)

lemma m_bind_Inl_iff:
  "m_bind c f s = (Inl e, t) \<longleftrightarrow>
     c s = (Inl e, t) \<or> (\<exists>x u. c s = (Inr x, u) \<and> f x u = (Inl e, t))"
  by (auto simp: m_bind_run split: prod.splits sum.splits)

lemma m_return_Inr_iff: "m_return x s = (Inr y, t) \<longleftrightarrow> y = x \<and> t = s"
  by (auto simp: m_return_def)

lemma m_lift_Inr_iff: "m_lift r s = (Inr y, t) \<longleftrightarrow> r = Inr y \<and> t = s"
  by (auto simp: m_lift_def)

lemmas m_Inr = m_bind_Inr_iff m_return_Inr_iff m_lift_Inr_iff

section \<open>Big-endian words\<close>

text \<open>\<open>value.to_bytes(8, "big")\<close>\<close>

definition be8 :: "nat \<Rightarrow> bytes" where
  "be8 n = map (\<lambda>i. char_of (int n div 256 ^ i)) [7, 6, 5, 4, 3, 2, 1, 0]"

lemma length_be8 [simp]: "length (be8 n) = 8"
  by (simp add: be8_def)

lemma char_of_int: "char_of (int n) = char_of n"
  by (simp add: char_of_def bit_of_nat_iff)

lemma be8_nat: "be8 n = map (\<lambda>i. char_of (n div 256 ^ i)) [7, 6, 5, 4, 3, 2, 1, 0]"
proof -
  have "char_of (int n div 256 ^ i) = char_of (n div 256 ^ i)" for i
    by (metis char_of_int of_nat_div of_nat_numeral of_nat_power)
  then show ?thesis unfolding be8_def by presburger
qed

lemma char_of_eq_iff: "char_of (m :: nat) = char_of n \<longleftrightarrow> m mod 256 = n mod 256"
  by (metis of_char_of char_of_mod_256)

lemma div_mod_eq_step:
  fixes m n :: nat
  assumes "m div b = n div b" and "m mod b = n mod b"
  shows "m = n"
  using assms by (metis div_mult_mod_eq)

lemma be8_inj:
  assumes "be8 m = be8 n" and "m < 2 ^ 64" and "n < 2 ^ 64"
  shows "m = n"
proof -
  have step: "m div 256 ^ i = n div 256 ^ i"
    if "m div 256 ^ Suc i = n div 256 ^ Suc i" and "m div 256 ^ i mod 256 = n div 256 ^ i mod 256" for i
    by (rule div_mod_eq_step [of _ 256])
      (use that in \<open>simp_all add: div_mult2_eq [symmetric] mult.commute\<close>)
  have d: "m div 256 ^ i mod 256 = n div 256 ^ i mod 256" if "i < 8" for i
  proof -
    have "\<forall>i \<in> set [7, 6, 5, 4, 3, 2, 1, 0]. m div 256 ^ i mod 256 = n div 256 ^ i mod 256"
      using assms(1) by (simp add: be8_nat char_of_eq_iff del: power_numeral)
    moreover have "i \<in> set [7, 6, 5, 4, 3, 2, 1, 0]" using that by auto
    ultimately show ?thesis by blast
  qed
  have "m div 256 ^ 8 = 0" "n div 256 ^ 8 = 0" using assms(2,3) by simp_all
  then have "m div 256 ^ (8 - k) = n div 256 ^ (8 - k)" if "k \<le> 8" for k
    using that
  proof (induction k)
    case (Suc k)
    then have k: "Suc (8 - Suc k) = 8 - k" by simp
    show ?case
      by (rule step, unfold k) (use Suc d [of "8 - Suc k"] in simp_all)
  qed simp
  from this [of 8] show ?thesis by simp
qed

text \<open>\<open>int(v).to_bytes(8, "big", signed=False)\<close>\<close>

definition to_bytes8 :: "int \<Rightarrow> bytes res" where
  "to_bytes8 v = (if 0 \<le> v \<and> v < 2 ^ 64 then Inr (be8 (nat v)) else Inl OverflowError)"

section \<open>Hexadecimal digits\<close>

text \<open>\<open>bytes.hex()\<close> and \<open>hexdigest()\<close>: two lower-case digits per byte.\<close>

definition hex_digit :: "nat \<Rightarrow> char" where
  "hex_digit n = (if n < 10 then char_of (48 + n) else char_of (87 + n))"

definition hex :: "bytes \<Rightarrow> string" where
  "hex bs = concat (map (\<lambda>c. [hex_digit (of_char c div 16), hex_digit (of_char c mod 16)]) bs)"

definition is_hex :: "char \<Rightarrow> bool" where
  "is_hex c = (let n = of_char c :: nat in 48 \<le> n \<and> n \<le> 57 \<or> 97 \<le> n \<and> n \<le> 102)"

lemma length_hex [simp]: "length (hex bs) = 2 * length bs"
  by (induction bs) (simp_all add: hex_def)

lemma nibble_less [simp]: "of_char c div 16 < (16 :: nat)"
  using nat_of_char_less_256 [of c] by (simp add: less_mult_imp_div_less)

lemma hex_digit_code: "n < 16 \<Longrightarrow> of_char (hex_digit n) = (if n < 10 then 48 + n else 87 + n)"
  by (simp add: hex_digit_def)

lemma is_hex_digit: "n < 16 \<Longrightarrow> is_hex (hex_digit n)"
  by (auto simp: is_hex_def hex_digit_code)

lemma is_hex_hex: "c \<in> set (hex bs) \<Longrightarrow> is_hex c"
  by (auto simp: hex_def intro!: is_hex_digit)

lemma hex_digit_inj: "hex_digit m = hex_digit n \<Longrightarrow> m < 16 \<Longrightarrow> n < 16 \<Longrightarrow> m = n"
  by (drule arg_cong [where f = "of_char :: char \<Rightarrow> nat"]) (auto simp: hex_digit_code split: if_splits)

lemma hex_inj: "hex xs = hex ys \<Longrightarrow> xs = ys"
proof (induction xs arbitrary: ys)
  case Nil
  then show ?case by (cases ys) (simp_all add: hex_def)
next
  case (Cons x xs)
  then obtain y ys' where ys: "ys = y # ys'" by (cases ys) (simp_all add: hex_def)
  have "of_char x div 16 = (of_char y div 16 :: nat)" and "of_char x mod 16 = (of_char y mod 16 :: nat)"
    using Cons.prems by (auto simp: ys hex_def dest!: hex_digit_inj)
  then have "of_char x = (of_char y :: nat)" by (rule div_mod_eq_step)
  moreover have "xs = ys'" using Cons by (simp add: ys hex_def)
  ultimately show ?case by (simp add: ys of_char_eq_iff)
qed

section \<open>Decimal numerals\<close>

text \<open>\<open>str(n)\<close> of a natural number and of an integer; \<open>int(s)\<close> of a numeral with an optional sign.\<close>

fun decimal :: "nat \<Rightarrow> string" where
  "decimal n = (if n < 10 then [char_of (48 + n)] else decimal (n div 10) @ [char_of (48 + n mod 10)])"

declare decimal.simps [simp del]

definition int_text :: "int \<Rightarrow> string" where
  "int_text i = (if i < 0 then CHR ''-'' # decimal (nat (- i)) else decimal (nat i))"

definition is_digit :: "char \<Rightarrow> bool" where
  "is_digit c = (let n = of_char c :: nat in 48 \<le> n \<and> n \<le> 57)"

definition digits_value :: "string \<Rightarrow> nat" where
  "digits_value s = fold (\<lambda>c n. 10 * n + (of_char c - 48)) s 0"

definition int_value :: "string \<Rightarrow> int" where
  "int_value s =
     (case s of [] \<Rightarrow> 0 | c # cs \<Rightarrow> if c = CHR ''-'' then - int (digits_value cs) else int (digits_value s))"

lemma digit_char: "n < 10 \<Longrightarrow> of_char (char_of (48 + n)) = 48 + (n :: nat)"
  by simp

lemma is_digit_char [simp]: "n < 10 \<Longrightarrow> is_digit (char_of (48 + (n :: nat)))"
  by (simp add: is_digit_def digit_char Let_def)

lemma decimal_nonempty [simp]: "decimal n \<noteq> []"
  by (subst decimal.simps) simp

lemma decimal_digits: "c \<in> set (decimal n) \<Longrightarrow> is_digit c"
proof (induction n rule: decimal.induct)
  case (1 n)
  show ?case
    using 1 decimal.simps [of n] by (cases "n < 10") auto
qed

lemma digits_value_decimal [simp]: "digits_value (decimal n) = n"
proof (induction n rule: decimal.induct)
  case (1 n)
  then show ?case by (subst decimal.simps) (simp add: digits_value_def digit_char)
qed

lemma decimal_head: "hd (decimal n) = CHR ''0'' \<Longrightarrow> decimal n = ''0''"
proof (induction n rule: decimal.induct)
  case (1 n)
  show ?case
  proof (cases "n < 10")
    case True
    with 1(2) show ?thesis by (subst decimal.simps, subst (asm) decimal.simps) simp
  next
    case False
    then have "hd (decimal n) = hd (decimal (n div 10))"
      by (subst decimal.simps) simp
    with 1 False have "decimal (n div 10) = ''0''" by simp
    then have "n div 10 = 0" using digits_value_decimal [of "n div 10"] by (simp add: digits_value_def)
    with False show ?thesis by simp
  qed
qed

lemma decimal_length: "k < 10 ^ Suc d \<Longrightarrow> length (decimal k) \<le> Suc d"
proof (induction d arbitrary: k)
  case (Suc d)
  have "k div 10 < 10 ^ Suc d" using Suc.prems by (simp add: less_mult_imp_div_less)
  from Suc.IH [OF this] show ?case by (subst decimal.simps) simp
qed (subst decimal.simps, simp)

lemma not_digit_minus [simp]: "\<not> is_digit (CHR ''-'')"
  by (simp add: is_digit_def)

lemma int_value_text [simp]: "int_value (int_text i) = i"
proof (cases "i < 0")
  case False
  obtain c cs where d: "decimal (nat i) = c # cs" by (cases "decimal (nat i)") simp_all
  then have "is_digit c" using decimal_digits [of c "nat i"] by simp
  then have "c \<noteq> CHR ''-''" by auto
  moreover have "digits_value (c # cs) = nat i" using d digits_value_decimal [of "nat i"] by simp
  ultimately show ?thesis using False d by (simp add: int_text_def int_value_def)
qed (simp add: int_text_def int_value_def)

lemma int_text_inj: "int_text i = int_text j \<Longrightarrow> i = j"
  by (metis int_value_text)

section \<open>Lists as dictionaries and rankings\<close>

text \<open>\<open>d[k]\<close> on a dictionary that holds \<open>k\<close>.\<close>

definition dget :: "('k \<times> 'v) list \<Rightarrow> 'k \<Rightarrow> 'v" where
  "dget d k = the (map_of d k)"

lemma dget_map: "k \<in> set ks \<Longrightarrow> dget (map (\<lambda>k. (k, f k)) ks) k = f k"
  by (simp add: dget_def map_of_map_restrict)

text \<open>The position of the first occurrence: \<open>{x: i for i, x in enumerate(xs)}[x]\<close> on distinct \<open>xs\<close>.\<close>

fun index_of :: "'a list \<Rightarrow> 'a \<Rightarrow> nat" where
  "index_of [] x = 0"
| "index_of (y # ys) x = (if x = y then 0 else Suc (index_of ys x))"

lemma index_of_less: "x \<in> set xs \<Longrightarrow> index_of xs x < length xs"
  by (induction xs) auto

lemma nth_index_of [simp]: "x \<in> set xs \<Longrightarrow> xs ! index_of xs x = x"
  by (induction xs) auto

lemma index_of_inj: "x \<in> set xs \<Longrightarrow> y \<in> set xs \<Longrightarrow> index_of xs x = index_of xs y \<longleftrightarrow> x = y"
  by (metis nth_index_of)

lemma index_of_nth: "distinct xs \<Longrightarrow> i < length xs \<Longrightarrow> index_of xs (xs ! i) = i"
  by (metis nth_index_of index_of_less nth_eq_iff_index_eq nth_mem)

lemma index_of_map_inj:
  "inj_on f (insert x (set xs)) \<Longrightarrow> index_of (map f xs) (f x) = index_of xs x"
proof (induction xs)
  case (Cons y ys)
  then have "inj_on f (insert x (set ys))" by (auto simp: inj_on_def)
  with Cons show ?case by (auto simp: inj_on_def)
qed simp

lemma sort_eq_of_mset: "mset xs = mset ys \<Longrightarrow> sort xs = sort (ys :: 'a::linorder list)"
  by (metis sorted_list_of_multiset_mset)

end
