(* ===== verification/Budget.thy ===== *)
theory Budget
  imports Prelude Complex_Main
begin

text \<open>
  \<open>CanonicalizationBudget\<close> of \<open>analysis/ordering.py\<close>: the shared counter of entered search
  states and the wall-clock deadline. The monotonic clock is the environment's: \<open>clock b k\<close>
  is the value its \<open>k\<close>-th reading returns and \<open>ticks b\<close> counts the readings made so far.
\<close>

record budget =
  state_limit :: nat
  duration :: real
  clock :: "nat \<Rightarrow> real"
  started_at :: real
  search_states :: nat
  ticks :: nat

type_synonym 'a bm = "(budget, 'a) m"

text \<open>\<open>_duration_seconds\<close>: a real is finite, so only the sign is left to check.\<close>

definition duration_seconds :: "real \<Rightarrow> real res" where
  "duration_seconds t =
     (if t \<le> 0 then Inl (ValueError ''T must be a finite positive duration in seconds'')
      else Inr t)"

definition budget_start :: "int \<Rightarrow> real \<Rightarrow> (nat \<Rightarrow> real) \<Rightarrow> budget res" where
  "budget_start B T clk =
     (if B \<le> 0 then Inl (ValueError ''B must be a positive integer search-state limit'')
      else r_bind (duration_seconds T) (\<lambda>d.
        Inr \<lparr>state_limit = nat B, duration = d, clock = clk, started_at = clk 0,
              search_states = 0, ticks = 1\<rparr>))"

definition read_clock :: "real bm" where
  "read_clock b = (Inr (clock b (ticks b)), b\<lparr>ticks := Suc (ticks b)\<rparr>)"

definition budget_check :: "unit bm" where
  "budget_check = m_bind read_clock (\<lambda>now b.
     (if now - started_at b \<ge> duration b then Inl CanonicalizationDeadlineExceeded else Inr (), b))"

definition enter_state :: "unit bm" where
  "enter_state = m_bind budget_check (\<lambda>_ b.
     if search_states b = state_limit b then (Inl BudgetExhausted, b)
     else (Inr (), b\<lparr>search_states := Suc (search_states b)\<rparr>))"

definition elapsed_ms :: "real bm" where
  "elapsed_ms = m_bind read_clock (\<lambda>now b. (Inr ((now - started_at b) * 1000), b))"

section \<open>What the operations keep and change\<close>

text \<open>
  Two budgets are alike when they differ only in the number of clock readings: what every
  operation but \<open>enter_state\<close> leaves of a budget.
\<close>

definition same_budget :: "budget \<Rightarrow> budget \<Rightarrow> bool" where
  "same_budget b b' \<longleftrightarrow> state_limit b' = state_limit b \<and> duration b' = duration b \<and>
     clock b' = clock b \<and> started_at b' = started_at b \<and>
     search_states b' = search_states b \<and> ticks b \<le> ticks b'"

lemma same_budget_refl [simp]: "same_budget b b"
  by (simp add: same_budget_def)

lemma same_budget_trans: "same_budget a b \<Longrightarrow> same_budget b c \<Longrightarrow> same_budget a c"
  by (auto simp: same_budget_def)

text \<open>
  A computation is quiet when it can raise but changes at most the clock counter, and when
  the deadline is the only error the budget can add: run from a budget whose deadline never
  passes, it returns \<open>r\<close>; otherwise \<open>r\<close> or the deadline error.
\<close>

definition quiet :: "'a bm \<Rightarrow> 'a res \<Rightarrow> bool" where
  "quiet c r \<longleftrightarrow> (\<forall>b. same_budget b (snd (c b)) \<and>
     (fst (c b) = r \<or> fst (c b) = Inl CanonicalizationDeadlineExceeded))"

definition never_expires :: "budget \<Rightarrow> bool" where
  "never_expires b \<longleftrightarrow> (\<forall>k. clock b k - started_at b < duration b)"

definition prompt :: "'a bm \<Rightarrow> 'a res \<Rightarrow> bool" where
  "prompt c r \<longleftrightarrow> quiet c r \<and> (\<forall>b. never_expires b \<longrightarrow> fst (c b) = r)"

lemma never_expires_same: "same_budget b b' \<Longrightarrow> never_expires b' = never_expires b"
  by (simp add: same_budget_def never_expires_def)

named_theorems prompt_intro

lemma prompt_check [prompt_intro]: "prompt budget_check (Inr ())"
  by (auto simp: prompt_def quiet_def budget_check_def read_clock_def m_bind_run same_budget_def
      never_expires_def not_le [symmetric])

lemma prompt_return [prompt_intro]: "prompt (m_return x) (Inr x)"
  by (simp add: prompt_def quiet_def)

lemma prompt_lift [prompt_intro]: "prompt (m_lift r) r"
  by (simp add: prompt_def quiet_def)

lemma prompt_bind [prompt_intro]:
  assumes "prompt c r" and "\<And>x. r = Inr x \<Longrightarrow> prompt (f x) (g x)"
  shows "prompt (m_bind c f) (r_bind r g)"
proof -
  have step: "same_budget b (snd (m_bind c f b)) \<and>
      (fst (m_bind c f b) = r_bind r g \<or>
       fst (m_bind c f b) = Inl CanonicalizationDeadlineExceeded) \<and>
      (never_expires b \<longrightarrow> fst (m_bind c f b) = r_bind r g)" for b
  proof (cases "c b")
    case (Pair v b')
    have b': "same_budget b b'" "v = r \<or> v = Inl CanonicalizationDeadlineExceeded"
      "never_expires b \<Longrightarrow> v = r"
      using assms(1) Pair by (auto simp: prompt_def quiet_def) (metis fst_conv snd_conv)+
    show ?thesis
    proof (cases "v = r")
      case True
      show ?thesis
      proof (cases r)
        case (Inl e)
        with True Pair b' show ?thesis by (simp add: m_bind_run)
      next
        case (Inr x)
        with True Pair b' assms(2) [OF Inr] show ?thesis
          by (auto simp: m_bind_run prompt_def quiet_def never_expires_same
              intro: same_budget_trans)
      qed
    next
      case False
      with b' Pair show ?thesis by (auto simp: m_bind_run)
    qed
  qed
  then show ?thesis by (simp add: prompt_def quiet_def)
qed

lemma prompt_Inr: "prompt c r \<Longrightarrow> c b = (Inr x, b') \<Longrightarrow> r = Inr x \<and> same_budget b b'"
  by (auto simp: prompt_def quiet_def) (metis Inl_Inr_False fst_conv snd_conv)+

lemma prompt_Inl:
  "prompt c r \<Longrightarrow> c b = (Inl e, b') \<Longrightarrow>
     (r = Inl e \<or> e = CanonicalizationDeadlineExceeded) \<and> same_budget b b'"
  by (auto simp: prompt_def quiet_def) (metis Inl_inject fst_conv snd_conv)+

lemma prompt_run: "prompt c r \<Longrightarrow> never_expires b \<Longrightarrow> \<exists>b'. c b = (r, b') \<and> same_budget b b'"
  by (auto simp: prompt_def quiet_def) (metis prod.collapse)

lemma prompt_eq: "prompt c r \<Longrightarrow> r = r' \<Longrightarrow> prompt c r'"
  by simp

text \<open>The raise-only reading of a loop.\<close>

lemma r_fold_cong:
  "(\<And>x a. x \<in> set xs \<Longrightarrow> f x a = g x a) \<Longrightarrow> r_fold f xs a = r_fold g xs a"
proof (induction xs arbitrary: a)
  case (Cons x xs)
  then show ?case by (cases "g x a") auto
qed simp

lemma prompt_fold [prompt_intro]:
  "(\<And>x a. x \<in> set xs \<Longrightarrow> prompt (f x a) (g x a)) \<Longrightarrow> prompt (m_fold f xs a) (r_fold g xs a)"
proof (induction xs arbitrary: a)
  case Nil
  show ?case unfolding m_fold.simps r_fold.simps by (rule prompt_return)
next
  case (Cons x xs)
  show ?case
    unfolding m_fold.simps r_fold.simps
    by (rule prompt_bind) (use Cons in auto)
qed

lemma enter_state_Inr:
  "enter_state b = (Inr u, b') \<longleftrightarrow>
     search_states b \<noteq> state_limit b \<and>
     clock b (ticks b) - started_at b < duration b \<and>
     b' = b\<lparr>ticks := Suc (ticks b), search_states := Suc (search_states b)\<rparr>"
  by (auto simp: enter_state_def budget_check_def read_clock_def m_bind_run not_le)

lemma enter_state_Inl:
  "enter_state b = (Inl e, b') \<Longrightarrow>
     e = CanonicalizationDeadlineExceeded \<or> e = BudgetExhausted \<and> search_states b = state_limit b"
  by (auto simp: enter_state_def budget_check_def read_clock_def m_bind_run split: if_splits)

end
