(* ===== verification/Cpg.thy ===== *)
theory Cpg
  imports Budget
begin

text \<open>
  The code property graph and its content encoding (\<open>analysis/ordering.py\<close>): nodes, edges,
  \<open>CPG.add_node\<close>, \<open>add_edge\<close>, the framed byte encodings \<open>_u64\<close>, \<open>_text\<close>, \<open>_label\<close>,
  \<open>validate_cpg\<close> and \<open>encode_graph\<close>. The model's records have exactly the supported fields,
  so the \<open>vars(...)\<close> checks of \<open>validate_cpg\<close> against extra fields always pass. Every caller
  inside the program supplies the budget; the \<open>budget=None\<close> default is not modelled.
\<close>

section \<open>Data model\<close>

record cpg_node =
  node_id :: node_id
  kind :: string
  operator_or_literal :: string
  resolved_fqn :: string
  enclosing_decl_fqn :: string
  structural_path :: string

record cpg_edge =
  src :: node_id
  dst :: node_id
  ekind :: string

record cpg =
  nodes :: "cpg_node list"
  edges :: "cpg_edge list"

definition empty_cpg :: cpg where
  "empty_cpg = \<lparr>nodes = [], edges = []\<rparr>"

definition add_node ::
  "string \<Rightarrow> string \<Rightarrow> string \<Rightarrow> string \<Rightarrow> string \<Rightarrow> cpg \<Rightarrow> node_id \<times> cpg" where
  "add_node k op fqn decl path g =
     (let nid = int (length (nodes g))
      in (nid, g\<lparr>nodes := nodes g @ [\<lparr>node_id = nid, kind = k, operator_or_literal = op,
                 resolved_fqn = fqn, enclosing_decl_fqn = decl, structural_path = path\<rparr>]\<rparr>))"

definition add_edge :: "node_id \<Rightarrow> node_id \<Rightarrow> string \<Rightarrow> cpg \<Rightarrow> cpg" where
  "add_edge s d k g = g\<lparr>edges := edges g @ [\<lparr>src = s, dst = d, ekind = k\<rparr>]\<rparr>"

definition ids :: "cpg \<Rightarrow> node_id list" where
  "ids g = map node_id (nodes g)"

section \<open>Framed encodings\<close>

definition u64 :: "int \<Rightarrow> bytes res" where
  "u64 v = (if 0 \<le> v \<and> v < 2 ^ 64 then Inr (be8 (nat v))
            else Inl (ValueError ''graph integer must be unsigned 64-bit''))"

definition text_bytes :: "string \<Rightarrow> bytes res" where
  "text_bytes s = r_bind (u64 (int (length s))) (\<lambda>l. Inr (l @ s))"

definition label :: "cpg_node \<Rightarrow> bytes res" where
  "label n = r_bind (r_map text_bytes [kind n, operator_or_literal n, resolved_fqn n, enclosing_decl_fqn n])
     (\<lambda>ps. Inr (concat ps))"

section \<open>Validation\<close>

definition validate_node :: "cpg_node \<Rightarrow> node_id list \<Rightarrow> node_id list bm" where
  "validate_node n seen = m_bind budget_check (\<lambda>_. m_lift (
     r_bind (u64 (node_id n)) (\<lambda>_.
       if node_id n \<in> set seen then Inl (ValueError ''duplicate CPG node ID'')
       else r_bind (label n) (\<lambda>_. r_bind (text_bytes (structural_path n)) (\<lambda>_.
         Inr (node_id n # seen))))))"

definition validate_edge :: "node_id list \<Rightarrow> cpg_edge \<Rightarrow> unit \<Rightarrow> unit bm" where
  "validate_edge seen e u = m_bind budget_check (\<lambda>_. m_lift (
     r_bind (u64 (src e)) (\<lambda>_. r_bind (u64 (dst e)) (\<lambda>_.
       if src e \<notin> set seen \<or> dst e \<notin> set seen
       then Inl (ValueError ''CPG edge references a missing node'')
       else if ekind e = [] then Inl (ValueError ''CPG edge kind must be nonempty'')
       else r_bind (text_bytes (ekind e)) (\<lambda>_. Inr ())))))"

definition validate_cpg :: "cpg \<Rightarrow> unit bm" where
  "validate_cpg g = m_bind (m_fold validate_node (nodes g) []) (\<lambda>seen.
     m_fold (validate_edge seen) (edges g) ())"

section \<open>Graph encoding\<close>

definition node_by_id :: "cpg \<Rightarrow> node_id \<Rightarrow> cpg_node" where
  "node_by_id g = dget (map (\<lambda>n. (node_id n, n)) (nodes g))"

definition ranked_edges :: "cpg \<Rightarrow> node_id list \<Rightarrow> (bytes \<times> nat \<times> nat) list" where
  "ranked_edges g order =
     sort (map (\<lambda>e. (ekind e, index_of order (src e), index_of order (dst e))) (edges g))"

definition edge_part :: "bytes \<times> nat \<times> nat \<Rightarrow> bytes res" where
  "edge_part x = (case x of (k, s, d) \<Rightarrow>
     r_bind (u64 (int (length k))) (\<lambda>l. r_bind (u64 (int s)) (\<lambda>a. r_bind (u64 (int d)) (\<lambda>b.
       Inr (l @ k @ a @ b)))))"

definition graph_header :: bytes where
  "graph_header = ''SCANIPY-CANONICAL-GRAPH/2'' @ [CHR 0x0A]"

definition encode_graph :: "cpg \<Rightarrow> node_id list \<Rightarrow> bytes bm" where
  "encode_graph g order =
     m_bind (validate_cpg g) (\<lambda>_.
     if length order \<noteq> length (ids g) \<or> set order \<noteq> set (ids g)
     then m_lift (Inl (ValueError ''graph encoding requires a complete node permutation''))
     else m_bind (m_lift (u64 (int (length order)))) (\<lambda>n.
       m_bind (m_fold (\<lambda>v acc. m_bind budget_check (\<lambda>_.
                 m_lift (r_bind (label (node_by_id g v)) (\<lambda>l. Inr (acc @ l)))))
               order (graph_header @ n)) (\<lambda>acc.
       m_bind (m_lift (u64 (int (length (ranked_edges g order))))) (\<lambda>ne.
       m_bind (m_fold (\<lambda>x acc. m_bind budget_check (\<lambda>_.
                 m_lift (r_bind (edge_part x) (\<lambda>p. Inr (acc @ p)))))
               (ranked_edges g order) (acc @ ne)) (\<lambda>result.
       m_bind budget_check (\<lambda>_. m_return result))))))"

end
