(* ===== verification/Framing.thy ===== *)
theory Framing
  imports Cpg
begin

text \<open>
  The contract that makes the content encodings of \<open>analysis/ordering.py\<close> readable back:
  an encoding is a framing when the first frame of a byte string determines the value and the
  rest. Fixed-width integers, length-prefixed strings, node labels and edge records are
  framings, and so is a run of equally many frames.
\<close>

section \<open>The interface\<close>

locale framing =
  fixes enc :: "'a \<Rightarrow> bytes" and ok :: "'a \<Rightarrow> bool"
  assumes frame: "ok a \<Longrightarrow> ok b \<Longrightarrow> enc a @ x = enc b @ y \<Longrightarrow> a = b \<and> x = y"
begin

lemma enc_inj: "ok a \<Longrightarrow> ok b \<Longrightarrow> enc a = enc b \<Longrightarrow> a = b"
  using frame [of a b "[]" "[]"] by simp

lemma frames:
  assumes "length as = length bs" and "\<forall>a \<in> set as. ok a" and "\<forall>b \<in> set bs. ok b"
    and "concat (map enc as) @ x = concat (map enc bs) @ y"
  shows "as = bs \<and> x = y"
  using assms
proof (induction as bs rule: list_induct2)
  case Nil
  then show ?case by simp
next
  case (Cons a as b bs)
  from Cons.prems have "enc a @ (concat (map enc as) @ x) = enc b @ (concat (map enc bs) @ y)"
    by simp
  then have "a = b \<and> concat (map enc as) @ x = concat (map enc bs) @ y"
    by (rule frame [rotated 2]) (use Cons.prems in simp_all)
  moreover from this have "as = bs \<and> x = y"
    using Cons.IH Cons.prems(1,2) by simp
  ultimately show ?case by simp
qed

end

section \<open>The encodings of the code\<close>

text \<open>The total forms the partial encoders take on values in range.\<close>

definition txt_of :: "string \<Rightarrow> bytes" where
  "txt_of s = be8 (length s) @ s"

definition short :: "string \<Rightarrow> bool" where
  "short s \<longleftrightarrow> length s < 2 ^ 64"

type_synonym fields = "string \<times> string \<times> string \<times> string"

definition label_fields :: "cpg_node \<Rightarrow> fields" where
  "label_fields n = (kind n, operator_or_literal n, resolved_fqn n, enclosing_decl_fqn n)"

fun fields_of :: "fields \<Rightarrow> bytes" where
  "fields_of (a, b, c, d) = txt_of a @ txt_of b @ txt_of c @ txt_of d"

fun fields_short :: "fields \<Rightarrow> bool" where
  "fields_short (a, b, c, d) \<longleftrightarrow> short a \<and> short b \<and> short c \<and> short d"

fun edge_of :: "bytes \<times> nat \<times> nat \<Rightarrow> bytes" where
  "edge_of (k, s, d) = txt_of k @ be8 s @ be8 d"

fun edge_short :: "bytes \<times> nat \<times> nat \<Rightarrow> bool" where
  "edge_short (k, s, d) \<longleftrightarrow> short k \<and> s < 2 ^ 64 \<and> d < 2 ^ 64"

lemma u64_nat: "u64 (int n) = Inr b \<longleftrightarrow> n < 2 ^ 64 \<and> b = be8 n"
  by (auto simp: u64_def)

lemma u64_Inr: "n < 2 ^ 64 \<Longrightarrow> u64 (int n) = Inr (be8 n)"
  by (simp add: u64_nat)

lemma u64_cases: "u64 v = Inr (be8 (nat v)) \<or> (\<exists>m. u64 v = Inl (ValueError m))"
  by (simp add: u64_def)

lemma text_bytes_Inr: "text_bytes s = Inr b \<longleftrightarrow> short s \<and> b = txt_of s"
  by (auto simp: text_bytes_def r_bind_Inr_iff u64_nat short_def txt_of_def)

lemma label_Inr: "label n = Inr b \<longleftrightarrow> fields_short (label_fields n) \<and> b = fields_of (label_fields n)"
  by (auto simp: label_def label_fields_def r_bind_Inr_iff text_bytes_Inr)

lemma edge_part_Inr: "edge_part x = Inr b \<longleftrightarrow> edge_short x \<and> b = edge_of x"
  by (cases x) (auto simp: edge_part_def r_bind_Inr_iff u64_nat txt_of_def short_def)

section \<open>Interpretations\<close>

interpretation word_frame: framing be8 "\<lambda>n. n < 2 ^ 64"
proof
  fix a b :: nat and x y :: bytes
  assume "a < 2 ^ 64" "b < 2 ^ 64" and "be8 a @ x = be8 b @ y"
  then show "a = b \<and> x = y" by (auto dest: be8_inj)
qed

interpretation text_frame: framing txt_of short
proof
  fix a b x y :: bytes
  assume ok: "short a" "short b" and eq: "txt_of a @ x = txt_of b @ y"
  then have "length a = length b \<and> a @ x = b @ y"
    by (intro word_frame.frame) (simp_all add: short_def txt_of_def)
  then show "a = b \<and> x = y" by auto
qed

interpretation label_frame: framing fields_of fields_short
proof
  fix a b :: fields and x y :: bytes
  assume "fields_short a" "fields_short b" and "fields_of a @ x = fields_of b @ y"
  moreover obtain p q r s p' q' r' s' where "a = (p, q, r, s)" "b = (p', q', r', s')"
    by (cases a; cases b)
  ultimately show "a = b \<and> x = y"
    using text_frame.frame [of p p' "txt_of q @ txt_of r @ txt_of s @ x" "txt_of q' @ txt_of r' @ txt_of s' @ y"]
      text_frame.frame [of q q' "txt_of r @ txt_of s @ x" "txt_of r' @ txt_of s' @ y"]
      text_frame.frame [of r r' "txt_of s @ x" "txt_of s' @ y"]
      text_frame.frame [of s s' x y]
    by simp
qed

interpretation edge_frame: framing edge_of edge_short
proof
  fix a b :: "bytes \<times> nat \<times> nat" and x y :: bytes
  assume ok: "edge_short a" "edge_short b" and eq: "edge_of a @ x = edge_of b @ y"
  obtain k s d k' s' d' where ab: "a = (k, s, d)" "b = (k', s', d')" by (cases a; cases b)
  from ok ab have lim: "short k" "short k'" "s < 2 ^ 64" "s' < 2 ^ 64" "d < 2 ^ 64" "d' < 2 ^ 64"
    by simp_all
  from eq ab have "txt_of k @ (be8 s @ be8 d @ x) = txt_of k' @ (be8 s' @ be8 d' @ y)" by simp
  then have 1: "k = k' \<and> be8 s @ (be8 d @ x) = be8 s' @ (be8 d' @ y)"
    by (rule text_frame.frame [OF lim(1,2)])
  then have 2: "s = s' \<and> be8 d @ x = be8 d' @ y"
    by (intro word_frame.frame [OF lim(3,4)]) blast
  then have "d = d' \<and> x = y"
    by (intro word_frame.frame [OF lim(5,6)]) blast
  with 1 2 ab show "a = b \<and> x = y" by blast
qed

end
