(* ===== verification/Graph_Encoding.thy ===== *)
theory Graph_Encoding
  imports Framing
begin

text \<open>
  Correctness of \<open>validate_cpg\<close> and \<open>encode_graph\<close>: which graphs are accepted, that the
  encoding is blind to node numbers and list orders (isomorphic graphs listed in corresponding
  orders have the same bytes), and that it loses nothing else (equal bytes come from
  isomorphic graphs).
\<close>

section \<open>Well-formed graphs\<close>

definition node_ok :: "cpg_node \<Rightarrow> bool" where
  "node_ok n \<longleftrightarrow> 0 \<le> node_id n \<and> node_id n < 2 ^ 64 \<and> fields_short (label_fields n) \<and>
     short (structural_path n)"

definition edge_ok :: "node_id set \<Rightarrow> cpg_edge \<Rightarrow> bool" where
  "edge_ok V e \<longleftrightarrow> src e \<in> V \<and> dst e \<in> V \<and> ekind e \<noteq> [] \<and> short (ekind e)"

definition valid_cpg :: "cpg \<Rightarrow> bool" where
  "valid_cpg g \<longleftrightarrow> distinct (ids g) \<and> (\<forall>n \<in> set (nodes g). node_ok n) \<and>
     (\<forall>e \<in> set (edges g). edge_ok (set (ids g)) e)"

text \<open>The raise-only readings of the validation loops.\<close>

definition check_node :: "cpg_node \<Rightarrow> node_id list \<Rightarrow> node_id list res" where
  "check_node n seen = r_bind (u64 (node_id n)) (\<lambda>_.
       if node_id n \<in> set seen then Inl (ValueError ''duplicate CPG node ID'')
       else r_bind (label n) (\<lambda>_. r_bind (text_bytes (structural_path n)) (\<lambda>_.
         Inr (node_id n # seen))))"

definition check_edge :: "node_id list \<Rightarrow> cpg_edge \<Rightarrow> unit \<Rightarrow> unit res" where
  "check_edge seen e u = r_bind (u64 (src e)) (\<lambda>_. r_bind (u64 (dst e)) (\<lambda>_.
       if src e \<notin> set seen \<or> dst e \<notin> set seen
       then Inl (ValueError ''CPG edge references a missing node'')
       else if ekind e = [] then Inl (ValueError ''CPG edge kind must be nonempty'')
       else r_bind (text_bytes (ekind e)) (\<lambda>_. Inr ())))"

definition check_cpg :: "cpg \<Rightarrow> unit res" where
  "check_cpg g = r_bind (r_fold check_node (nodes g) []) (\<lambda>seen. r_fold (check_edge seen) (edges g) ())"

lemma prompt_validate_node: "prompt (validate_node n seen) (check_node n seen)"
proof -
  have "prompt (validate_node n seen) (r_bind (Inr ()) (\<lambda>_. check_node n seen))"
    unfolding validate_node_def check_node_def by (intro prompt_intro)
  then show ?thesis by simp
qed

lemma prompt_validate_edge: "prompt (validate_edge seen e u) (check_edge seen e u)"
proof -
  have "prompt (validate_edge seen e u) (r_bind (Inr ()) (\<lambda>_. check_edge seen e u))"
    unfolding validate_edge_def check_edge_def by (intro prompt_intro)
  then show ?thesis by simp
qed

lemma prompt_validate [prompt_intro]: "prompt (validate_cpg g) (check_cpg g)"
  unfolding validate_cpg_def check_cpg_def
  by (intro prompt_bind prompt_fold prompt_validate_node prompt_validate_edge)

lemma u64_Inr_iff: "u64 v = Inr b \<longleftrightarrow> 0 \<le> v \<and> v < 2 ^ 64 \<and> b = be8 (nat v)"
  by (auto simp: u64_def)

lemma check_node_Inr:
  "check_node n seen = Inr s \<longleftrightarrow> node_ok n \<and> node_id n \<notin> set seen \<and> s = node_id n # seen"
  by (auto simp: check_node_def node_ok_def r_bind_Inr_iff u64_Inr_iff label_Inr text_bytes_Inr)

lemma check_nodes_Inr:
  "r_fold check_node ns seen = Inr s \<longleftrightarrow>
     (\<forall>n \<in> set ns. node_ok n) \<and> distinct (map node_id ns) \<and>
     set (map node_id ns) \<inter> set seen = {} \<and> s = rev (map node_id ns) @ seen"
proof (induction ns arbitrary: seen)
  case (Cons n ns)
  have "r_fold check_node (n # ns) seen = Inr s \<longleftrightarrow>
      node_ok n \<and> node_id n \<notin> set seen \<and> r_fold check_node ns (node_id n # seen) = Inr s"
    by (auto simp: r_bind_Inr_iff check_node_Inr)
  then show ?case by (auto simp: Cons.IH)
qed auto

lemma check_edge_Inr:
  assumes "\<forall>v \<in> set seen. 0 \<le> v \<and> v < 2 ^ 64"
  shows "check_edge seen e u = Inr x \<longleftrightarrow> edge_ok (set seen) e"
  using assms
  by (auto simp: check_edge_def edge_ok_def r_bind_Inr_iff u64_Inr_iff text_bytes_Inr)

lemma check_edges_Inr:
  assumes "\<forall>v \<in> set seen. 0 \<le> v \<and> v < 2 ^ 64"
  shows "r_fold (check_edge seen) es u = Inr x \<longleftrightarrow> (\<forall>e \<in> set es. edge_ok (set seen) e)"
proof (induction es arbitrary: u)
  case (Cons e es)
  then show ?case using check_edge_Inr [OF assms] by (auto simp: r_bind_Inr_iff)
qed simp

lemma check_cpg_Inr: "check_cpg g = Inr u \<longleftrightarrow> valid_cpg g"
proof -
  have "check_cpg g = Inr u \<longleftrightarrow>
      (\<forall>n \<in> set (nodes g). node_ok n) \<and> distinct (ids g) \<and>
      r_fold (check_edge (rev (ids g))) (edges g) () = Inr ()"
    by (auto simp: check_cpg_def r_bind_Inr_iff check_nodes_Inr ids_def)
  also have "\<dots> \<longleftrightarrow> valid_cpg g"
  proof (cases "\<forall>n \<in> set (nodes g). node_ok n")
    case True
    then have "\<forall>v \<in> set (rev (ids g)). 0 \<le> v \<and> v < 2 ^ 64" by (auto simp: ids_def node_ok_def)
    from check_edges_Inr [OF this] show ?thesis by (auto simp: valid_cpg_def)
  qed (auto simp: valid_cpg_def)
  finally show ?thesis .
qed

text \<open>A rejected graph is rejected with \<open>ValueError\<close>.\<close>

definition value_error_only :: "'a res \<Rightarrow> bool" where
  "value_error_only r \<longleftrightarrow> (\<forall>e. r = Inl e \<longrightarrow> (\<exists>m. e = ValueError m))"

named_theorems verr

lemma verr_simps [verr]:
  "value_error_only (Inr x)" "value_error_only (Inl (ValueError m))"
  by (simp_all add: value_error_only_def)

lemma verr_bind [verr]:
  "value_error_only r \<Longrightarrow> (\<And>x. value_error_only (f x)) \<Longrightarrow> value_error_only (r_bind r f)"
  by (cases r) (auto simp: value_error_only_def)

lemma verr_if [verr]:
  "value_error_only r \<Longrightarrow> value_error_only s \<Longrightarrow> value_error_only (if c then r else s)"
  by simp

lemma verr_u64 [verr]: "value_error_only (u64 v)"
  by (simp add: u64_def verr)

lemma verr_map [verr]: "(\<And>x. value_error_only (f x)) \<Longrightarrow> value_error_only (r_map f xs)"
  by (induction xs) (auto intro!: verr)

lemma verr_fold [verr]: "(\<And>x a. value_error_only (f x a)) \<Longrightarrow> value_error_only (r_fold f xs a)"
  by (induction xs arbitrary: a) (auto intro!: verr)

lemma verr_text [verr]: "value_error_only (text_bytes s)"
  unfolding text_bytes_def by (intro verr)

lemma verr_label [verr]: "value_error_only (label n)"
  unfolding label_def by (intro verr)

lemma verr_edge_part [verr]: "value_error_only (edge_part x)"
  unfolding edge_part_def by (cases x) (auto intro!: verr)

lemma verr_check_node [verr]: "value_error_only (check_node n s)"
  unfolding check_node_def by (intro verr)

lemma verr_check_edge [verr]: "value_error_only (check_edge s e u)"
  unfolding check_edge_def by (intro verr)

lemma verr_check_cpg [verr]: "value_error_only (check_cpg g)"
  unfolding check_cpg_def by (intro verr)

section \<open>The encoding without the budget\<close>

definition complete_order :: "cpg \<Rightarrow> node_id list \<Rightarrow> bool" where
  "complete_order g order \<longleftrightarrow> length order = length (ids g) \<and> set order = set (ids g)"

definition encode_res :: "cpg \<Rightarrow> node_id list \<Rightarrow> bytes res" where
  "encode_res g order =
     r_bind (check_cpg g) (\<lambda>_.
     if length order \<noteq> length (ids g) \<or> set order \<noteq> set (ids g)
     then Inl (ValueError ''graph encoding requires a complete node permutation'')
     else r_bind (u64 (int (length order))) (\<lambda>n.
       r_bind (r_fold (\<lambda>v acc. r_bind (label (node_by_id g v)) (\<lambda>l. Inr (acc @ l)))
               order (graph_header @ n)) (\<lambda>acc.
       r_bind (u64 (int (length (ranked_edges g order)))) (\<lambda>ne.
       r_fold (\<lambda>x acc. r_bind (edge_part x) (\<lambda>p. Inr (acc @ p)))
               (ranked_edges g order) (acc @ ne)))))"

lemma prompt_if [prompt_intro]:
  "prompt c r \<Longrightarrow> prompt d s \<Longrightarrow> prompt (if p then c else d) (if p then r else s)"
  by simp

lemma prompt_check_then:
  assumes "prompt c r"
  shows "prompt (m_bind budget_check (\<lambda>_. c)) r"
  using prompt_bind [OF prompt_check, of "\<lambda>_. c" "\<lambda>_. r"] assms by simp

lemma prompt_then_check:
  assumes "prompt c r"
  shows "prompt (m_bind c (\<lambda>x. m_bind budget_check (\<lambda>_. m_return x))) r"
proof -
  have "prompt (m_bind c (\<lambda>x. m_bind budget_check (\<lambda>_. m_return x))) (r_bind r Inr)"
    by (intro prompt_bind assms prompt_check_then prompt_return)
  then show ?thesis by (cases r) simp_all
qed

lemma prompt_encode [prompt_intro]: "prompt (encode_graph g order) (encode_res g order)"
  unfolding encode_graph_def encode_res_def
  by (intro prompt_bind prompt_if prompt_validate prompt_lift prompt_then_check prompt_fold
      prompt_check_then)

lemma verr_encode [verr]: "value_error_only (encode_res g order)"
  unfolding encode_res_def by (intro verr)

text \<open>The bytes of an accepted graph, listed in \<open>order\<close>.\<close>

definition encoding :: "cpg \<Rightarrow> node_id list \<Rightarrow> bytes" where
  "encoding g order = graph_header @ be8 (length order) @
     concat (map (\<lambda>v. fields_of (label_fields (node_by_id g v))) order) @
     be8 (length (ranked_edges g order)) @ concat (map edge_of (ranked_edges g order))"

lemma append_loop_Inr:
  assumes "\<And>x b. f x = Inr b \<longleftrightarrow> P x \<and> b = h x"
  shows "r_fold (\<lambda>x acc. r_bind (f x) (\<lambda>p. Inr (acc @ p))) xs acc = Inr r \<longleftrightarrow>
    (\<forall>x \<in> set xs. P x) \<and> r = acc @ concat (map h xs)"
  by (induction xs arbitrary: acc) (auto simp: r_bind_Inr_iff assms)

lemma node_by_id_in: "v \<in> set (ids g) \<Longrightarrow> node_by_id g v \<in> set (nodes g) \<and> node_id (node_by_id g v) = v"
proof -
  assume "v \<in> set (ids g)"
  then obtain n where "map_of (map (\<lambda>n. (node_id n, n)) (nodes g)) v = Some n"
    by (cases "map_of (map (\<lambda>n. (node_id n, n)) (nodes g)) v")
      (auto simp: ids_def map_of_eq_None_iff image_image)
  moreover from map_of_SomeD [OF this] have "n \<in> set (nodes g)" "node_id n = v" by auto
  ultimately show ?thesis by (simp add: node_by_id_def dget_def)
qed

lemma ranked_edges_short:
  assumes "valid_cpg g" and "complete_order g order" and "length order < 2 ^ 64"
    and "x \<in> set (ranked_edges g order)"
  shows "edge_short x"
proof -
  from assms(4) obtain e where e: "e \<in> set (edges g)"
    and x: "x = (ekind e, index_of order (src e), index_of order (dst e))"
    by (auto simp: ranked_edges_def)
  from e assms(1,2) have "src e \<in> set order" "dst e \<in> set order" "short (ekind e)"
    by (auto simp: valid_cpg_def edge_ok_def complete_order_def)
  with assms(3) index_of_less [of "src e" order] index_of_less [of "dst e" order] x
  show ?thesis by (auto intro: order.strict_trans)
qed

lemma encode_res_Inr:
  "encode_res g order = Inr b \<longleftrightarrow>
     valid_cpg g \<and> complete_order g order \<and> length order < 2 ^ 64 \<and>
     length (edges g) < 2 ^ 64 \<and> b = encoding g order"
proof -
  have labels: "fields_short (label_fields (node_by_id g v))"
    if "valid_cpg g" "complete_order g order" "v \<in> set order" for v
    using that node_by_id_in [of v g] by (auto simp: valid_cpg_def node_ok_def complete_order_def)
  have len: "length (ranked_edges g order) = length (edges g)" by (simp add: ranked_edges_def)
  have nodes_loop: "r_fold (\<lambda>v acc. r_bind (label (node_by_id g v)) (\<lambda>l. Inr (acc @ l))) order a = Inr r \<longleftrightarrow>
      (\<forall>v \<in> set order. fields_short (label_fields (node_by_id g v))) \<and>
      r = a @ concat (map (\<lambda>v. fields_of (label_fields (node_by_id g v))) order)" for a r
    by (rule append_loop_Inr) (rule label_Inr)
  have edges_loop: "r_fold (\<lambda>x acc. r_bind (edge_part x) (\<lambda>p. Inr (acc @ p))) xs a = Inr r \<longleftrightarrow>
      (\<forall>x \<in> set xs. edge_short x) \<and> r = a @ concat (map edge_of xs)" for a r xs
    by (rule append_loop_Inr) (rule edge_part_Inr)
  have "encode_res g order = Inr b \<longleftrightarrow>
     valid_cpg g \<and> complete_order g order \<and> length order < 2 ^ 64 \<and>
     (\<forall>v \<in> set order. fields_short (label_fields (node_by_id g v))) \<and>
     length (ranked_edges g order) < 2 ^ 64 \<and>
     (\<forall>x \<in> set (ranked_edges g order). edge_short x) \<and> b = encoding g order"
  proof (cases "valid_cpg g \<and> complete_order g order")
    case True
    then have "check_cpg g = Inr ()" by (simp add: check_cpg_Inr)
    with True show ?thesis
      unfolding encode_res_def
      by (simp add: r_bind_Inr_iff complete_order_def u64_nat encoding_def nodes_loop edges_loop
          del: power_numeral)
  next
    case False
    then show ?thesis
      unfolding encode_res_def by (auto simp: r_bind_Inr_iff check_cpg_Inr complete_order_def)
  qed
  moreover have "\<forall>v \<in> set order. fields_short (label_fields (node_by_id g v))"
    if "valid_cpg g" "complete_order g order" using labels that by blast
  moreover have "\<forall>x \<in> set (ranked_edges g order). edge_short x"
    if "valid_cpg g" "complete_order g order" "length order < 2 ^ 64"
    using ranked_edges_short that by blast
  ultimately show ?thesis unfolding len by blast
qed

section \<open>Isomorphic graphs\<close>

definition edge_triples :: "cpg \<Rightarrow> (string \<times> node_id \<times> node_id) multiset" where
  "edge_triples g = mset (map (\<lambda>e. (ekind e, src e, dst e)) (edges g))"

text \<open>
  \<open>graph_iso f g h\<close>: renumbering the nodes of \<open>g\<close> by \<open>f\<close> gives \<open>h\<close>, up to the order of the
  two lists and the structural paths, which are positions of the parse and no content.
\<close>

definition graph_iso :: "(node_id \<Rightarrow> node_id) \<Rightarrow> cpg \<Rightarrow> cpg \<Rightarrow> bool" where
  "graph_iso f g h \<longleftrightarrow> bij_betw f (set (ids g)) (set (ids h)) \<and>
     (\<forall>v \<in> set (ids g). label_fields (node_by_id h (f v)) = label_fields (node_by_id g v)) \<and>
     image_mset (\<lambda>(k, s, d). (k, f s, f d)) (edge_triples g) = edge_triples h"

lemma graph_iso_bij: "graph_iso f g h \<Longrightarrow> bij_betw f (set (ids g)) (set (ids h))"
  by (simp add: graph_iso_def)

lemma graph_iso_inj: "graph_iso f g h \<Longrightarrow> inj_on f (set (ids g))"
  by (simp add: graph_iso_def bij_betw_def)

lemma ranked_edges_mset:
  "mset (ranked_edges g order) =
     image_mset (\<lambda>(k, s, d). (k, index_of order s, index_of order d)) (edge_triples g)"
  by (simp add: ranked_edges_def edge_triples_def image_mset.compositionality o_def)

lemma edge_triples_ends:
  "valid_cpg g \<Longrightarrow> (k, s, d) \<in># edge_triples g \<Longrightarrow> s \<in> set (ids g) \<and> d \<in> set (ids g)"
  by (auto simp: edge_triples_def valid_cpg_def edge_ok_def)

lemma ranked_edges_iso:
  assumes iso: "graph_iso f g h" and val: "valid_cpg g" and ord: "set order = set (ids g)"
  shows "ranked_edges h (map f order) = ranked_edges g order"
proof -
  have idx: "index_of (map f order) (f v) = index_of order v" if "v \<in> set (ids g)" for v
    using that ord graph_iso_inj [OF iso] by (intro index_of_map_inj) (auto simp: insert_absorb)
  have h: "edge_triples h = image_mset (\<lambda>(k, s, d). (k, f s, f d)) (edge_triples g)"
    using iso by (simp add: graph_iso_def)
  have "mset (ranked_edges h (map f order)) = image_mset
      (\<lambda>(k, s, d). (k, index_of (map f order) (f s), index_of (map f order) (f d))) (edge_triples g)"
    unfolding ranked_edges_mset h multiset.map_comp by (simp add: o_def case_prod_unfold)
  also have "\<dots> = mset (ranked_edges g order)"
    unfolding ranked_edges_mset
    by (rule image_mset_cong) (auto dest!: edge_triples_ends [OF val] simp: idx)
  finally have "sort (ranked_edges h (map f order)) = sort (ranked_edges g order)"
    by (rule sort_eq_of_mset)
  then show ?thesis by (simp add: ranked_edges_def sorted_sort_id)
qed

lemma graph_iso_sym:
  assumes iso: "graph_iso f g h" and "valid_cpg g"
  shows "graph_iso (inv_into (set (ids g)) f) h g"
proof -
  let ?V = "set (ids g)" and ?f' = "inv_into (set (ids g)) f"
  have bij: "bij_betw f ?V (set (ids h))" by (rule graph_iso_bij [OF iso])
  have bij': "bij_betw ?f' (set (ids h)) ?V" by (rule bij_betw_inv_into [OF bij])
  have inv: "?f' (f v) = v" if "v \<in> ?V" for v
    using that bij by (simp add: bij_betw_def inv_into_f_f)
  have "label_fields (node_by_id g (?f' w)) = label_fields (node_by_id h w)" if "w \<in> set (ids h)" for w
  proof -
    from that bij obtain v where "v \<in> ?V" "w = f v" by (auto simp: bij_betw_def)
    with iso inv show ?thesis by (simp add: graph_iso_def)
  qed
  moreover have "image_mset (\<lambda>(k, s, d). (k, ?f' s, ?f' d)) (edge_triples h) = edge_triples g"
  proof -
    have "edge_triples h = image_mset (\<lambda>(k, s, d). (k, f s, f d)) (edge_triples g)"
      using iso by (simp add: graph_iso_def)
    moreover have "image_mset (\<lambda>(k, s, d). (k, ?f' s, ?f' d))
        (image_mset (\<lambda>(k, s, d). (k, f s, f d)) (edge_triples g)) = edge_triples g"
      unfolding multiset.map_comp
      by (rule multiset.map_ident_strong) (use edge_triples_ends [OF assms(2)] inv in auto)
    ultimately show ?thesis by simp
  qed
  ultimately show ?thesis using bij' by (simp add: graph_iso_def)
qed

lemma encoding_iso:
  assumes iso: "graph_iso f g h" and val: "valid_cpg g" and ord: "set order = set (ids g)"
  shows "encoding h (map f order) = encoding g order"
proof -
  have "map (\<lambda>v. fields_of (label_fields (node_by_id h v))) (map f order) =
      map (\<lambda>v. fields_of (label_fields (node_by_id g v))) order"
    using iso ord by (simp add: graph_iso_def)
  then show ?thesis
    unfolding encoding_def ranked_edges_iso [OF iso val ord] length_map by (rule arg_cong)
qed

lemma complete_order_iso:
  assumes iso: "graph_iso f g h" and "distinct (ids g)" and "distinct (ids h)" and "complete_order g order"
  shows "complete_order h (map f order)"
proof -
  have "set (map f order) = set (ids h)"
    using assms by (simp add: complete_order_def graph_iso_def bij_betw_def)
  moreover have "length order = length (ids h)"
    using assms bij_betw_same_card [OF graph_iso_bij [OF iso]]
    by (simp add: complete_order_def distinct_card)
  ultimately show ?thesis by (simp add: complete_order_def)
qed

lemma encode_res_iso:
  assumes iso: "graph_iso f g h" and "valid_cpg g" and "valid_cpg h" and "complete_order g order"
    and "encode_res g order = Inr b"
  shows "encode_res h (map f order) = Inr b"
proof -
  have "edge_triples h = image_mset (\<lambda>(k, s, d). (k, f s, f d)) (edge_triples g)"
    using iso by (simp add: graph_iso_def)
  then have "size (edge_triples h) = size (edge_triples g)" by simp
  then have "length (edges h) = length (edges g)" by (simp add: edge_triples_def)
  moreover have "complete_order h (map f order)"
    using complete_order_iso [OF iso] assms(2-4) by (simp add: valid_cpg_def)
  moreover have "encoding h (map f order) = encoding g order"
    using encoding_iso [OF iso assms(2)] assms(4) by (simp add: complete_order_def)
  ultimately show ?thesis
    using assms(3,5) unfolding encode_res_Inr by simp
qed

section \<open>Equal bytes come from isomorphic graphs\<close>

lemma complete_order_distinct: "distinct (ids g) \<Longrightarrow> complete_order g order \<Longrightarrow> distinct order"
  by (metis card_distinct complete_order_def distinct_card)

lemma encoding_parts:
  assumes "encode_res g order = Inr b" and "encode_res h order' = Inr b"
  shows "length order = length order' \<and>
    map (\<lambda>v. label_fields (node_by_id g v)) order = map (\<lambda>v. label_fields (node_by_id h v)) order' \<and>
    ranked_edges g order = ranked_edges h order'"
proof -
  let ?L = "\<lambda>g order. map (\<lambda>v. label_fields (node_by_id g v)) order"
  let ?R = "\<lambda>g order. be8 (length (ranked_edges g order)) @ concat (map edge_of (ranked_edges g order))"
  have okL: "\<forall>l \<in> set (?L g order). fields_short l"
    if "valid_cpg g" "complete_order g order" for g order
    using that node_by_id_in [of _ g] by (auto simp: valid_cpg_def node_ok_def complete_order_def)
  have okE: "\<forall>x \<in> set (ranked_edges g order). edge_short x"
    if "valid_cpg g" "complete_order g order" "length order < 2 ^ 64" for g order
    using ranked_edges_short that by blast
  note a = assms [unfolded encode_res_Inr]
  have "be8 (length order) @ concat (map fields_of (?L g order)) @ ?R g order =
      be8 (length order') @ concat (map fields_of (?L h order')) @ ?R h order'"
    using a by (simp add: encoding_def o_def)
  then have 1: "length order = length order' \<and> concat (map fields_of (?L g order)) @ ?R g order =
      concat (map fields_of (?L h order')) @ ?R h order'"
    by (rule word_frame.frame [rotated 2]) (use a in blast)+
  have 2: "?L g order = ?L h order' \<and> ?R g order = ?R h order'"
    by (rule label_frame.frames) (use a 1 okL in auto)
  then have 3: "length (ranked_edges g order) = length (ranked_edges h order') \<and>
      concat (map edge_of (ranked_edges g order)) = concat (map edge_of (ranked_edges h order'))"
    by (intro word_frame.frame) (use a in \<open>auto simp: ranked_edges_def\<close>)
  have "ranked_edges g order = ranked_edges h order' \<and> ([] :: bytes) = []"
    by (rule edge_frame.frames) (use 3 okE a in auto)
  with 1 2 show ?thesis by blast
qed

theorem equal_encodings_isomorphic:
  assumes "encode_res g order = Inr b" and "encode_res h order' = Inr b"
  shows "graph_iso (\<lambda>v. order' ! index_of order v) g h"
proof -
  let ?f = "\<lambda>v. order' ! index_of order v"
  note a = assms [unfolded encode_res_Inr]
  have dist: "distinct order" "distinct order'"
    using a by (auto simp: valid_cpg_def intro: complete_order_distinct)
  have sets: "set order = set (ids g)" "set order' = set (ids h)"
    using a by (simp_all add: complete_order_def)
  note p = encoding_parts [OF assms]
  have len: "length order = length order'" using p by simp
  have map_f: "map ?f order = order'"
    by (rule nth_equalityI) (simp_all add: len index_of_nth dist)
  have inj: "inj_on ?f (set order)"
    using map_f dist by (metis distinct_map)
  have bij: "bij_betw ?f (set (ids g)) (set (ids h))"
    using inj map_f sets by (metis bij_betw_def set_map)
  have lab: "label_fields (node_by_id h (?f v)) = label_fields (node_by_id g v)"
    if "v \<in> set (ids g)" for v
  proof -
    from that sets have i: "index_of order v < length order" "order ! index_of order v = v"
      by (simp_all add: index_of_less)
    have "map (\<lambda>v. label_fields (node_by_id g v)) order ! index_of order v =
        map (\<lambda>v. label_fields (node_by_id h v)) order' ! index_of order v" using p by simp
    with i len show ?thesis by simp
  qed
  let ?ix = "\<lambda>order (k, s, d). (k, index_of order s, index_of order d)"
  have inv: "image_mset (\<lambda>(k, i, j). (k, order' ! i, order' ! j)) (image_mset (?ix order') (edge_triples h)) =
      edge_triples h"
    unfolding multiset.map_comp
    by (rule multiset.map_ident_strong)
      (use edge_triples_ends [of h] a sets in \<open>auto simp: o_def\<close>)
  have "image_mset (\<lambda>(k, s, d). (k, ?f s, ?f d)) (edge_triples g) =
      image_mset (\<lambda>(k, i, j). (k, order' ! i, order' ! j)) (image_mset (?ix order) (edge_triples g))"
    unfolding multiset.map_comp by (simp add: o_def case_prod_unfold)
  also have "image_mset (?ix order) (edge_triples g) = image_mset (?ix order') (edge_triples h)"
    using p by (simp add: ranked_edges_mset [symmetric])
  finally have "image_mset (\<lambda>(k, s, d). (k, ?f s, ?f d)) (edge_triples g) = edge_triples h"
    using inv by simp
  with bij lab show ?thesis by (simp add: graph_iso_def)
qed

end
