(* ===== verification/Worklist.thy ===== *)
theory Worklist
  imports Prelude
begin

text \<open>
  Loops over a shrinking and growing worklist. Four parts of the program have the same
  shape: take a pending item, mark its unmarked successors and make them pending, until nothing
  is pending. The locale states what one round does; the loop then ends, and the marked items
  are the ones reachable from what was pending at the start.
\<close>

section \<open>Bounded iteration\<close>

text \<open>
  \<open>while\<close> loops: \<open>f s = None\<close> is the exit test. The value \<open>None\<close> of \<open>iterate\<close> means that the
  bound was too small.
\<close>

fun iterate :: "nat \<Rightarrow> ('s \<Rightarrow> 's option) \<Rightarrow> 's \<Rightarrow> 's option" where
  "iterate 0 f s = None"
| "iterate (Suc n) f s = (case f s of None \<Rightarrow> Some s | Some s' \<Rightarrow> iterate n f s')"

lemma iterate_mono: "iterate n f s = Some t \<Longrightarrow> n \<le> m \<Longrightarrow> iterate m f s = Some t"
proof (induction n arbitrary: m s)
  case (Suc n)
  then obtain k where "m = Suc k" "n \<le> k" by (cases m) auto
  with Suc show ?case by (auto split: option.splits)
qed simp

lemma iterate_invariant:
  "iterate n f s = Some t \<Longrightarrow> P s \<Longrightarrow> (\<And>s s'. P s \<Longrightarrow> f s = Some s' \<Longrightarrow> P s') \<Longrightarrow> P t \<and> f t = None"
  by (induction n arbitrary: s) (auto split: option.splits)

text \<open>A loop whose state has a measure that every round lowers ends within that many rounds.\<close>

lemma iterate_ends:
  assumes "\<And>s s'. P s \<Longrightarrow> f s = Some s' \<Longrightarrow> P s' \<and> \<mu> s' < (\<mu> s :: nat)"
  shows "P s \<Longrightarrow> \<mu> s < n \<Longrightarrow> \<exists>t. iterate n f s = Some t"
proof (induction n arbitrary: s)
  case (Suc n)
  show ?case
  proof (cases "f s")
    case (Some s')
    with assms [OF Suc.prems(1) Some] Suc show ?thesis by auto
  qed simp
qed simp

section \<open>The interface\<close>

definition step_rel :: "('a \<Rightarrow> 'a set) \<Rightarrow> ('a \<times> 'a) set" where
  "step_rel succs = {(x, y). y \<in> succs x}"

locale worklist =
  fixes succs :: "'a \<Rightarrow> 'a set"
    and seen :: "'s \<Rightarrow> 'a set"
    and pending :: "'s \<Rightarrow> 'a multiset"
    and next_state :: "'s \<Rightarrow> 's option"
  assumes finished: "next_state s = None \<longleftrightarrow> pending s = {#}"
    and finite_succs: "finite (succs x)"
    and round: "next_state s = Some s' \<Longrightarrow>
      \<exists>x \<in># pending s. seen s' = seen s \<union> succs x \<and>
        pending s' = pending s - {#x#} + mset_set (succs x - seen s)"
begin

text \<open>
  What holds between rounds: every marked item is accounted for, every start or marked item
  that is no longer pending has its successors marked.
\<close>

definition explored :: "'a set \<Rightarrow> 'a set \<Rightarrow> 's \<Rightarrow> bool" where
  "explored A S s \<longleftrightarrow> A \<subseteq> seen s \<and> seen s \<subseteq> A \<union> (step_rel succs)\<^sup>+ `` S \<and>
     set_mset (pending s) \<subseteq> S \<union> seen s \<and>
     (\<forall>x \<in> S \<union> seen s. x \<notin># pending s \<longrightarrow> succs x \<subseteq> seen s)"

lemma explored_round:
  assumes "explored A S s" and "A \<subseteq> S" and "next_state s = Some s'"
  shows "explored A S s'"
proof -
  from round [OF assms(3)] obtain x where x: "x \<in># pending s"
    and s': "seen s' = seen s \<union> succs x" "pending s' = pending s - {#x#} + mset_set (succs x - seen s)"
    by blast
  have xin: "x \<in> S \<union> (step_rel succs)\<^sup>+ `` S"
    using x assms(1,2) unfolding explored_def by blast
  have new: "succs x \<subseteq> (step_rel succs)\<^sup>+ `` S"
  proof
    fix y assume "y \<in> succs x"
    then have "(x, y) \<in> step_rel succs" by (simp add: step_rel_def)
    with xin show "y \<in> (step_rel succs)\<^sup>+ `` S" by (auto intro: trancl_into_trancl)
  qed
  have pend: "set_mset (pending s') \<subseteq> set_mset (pending s) \<union> succs x"
    unfolding s' by (auto dest: in_diffD simp: finite_succs)
  have "succs y \<subseteq> seen s'" if "y \<in> S \<union> seen s'" "y \<notin># pending s'" for y
  proof (cases "y = x")
    case False
    have "y \<notin># pending s" using that(2) False unfolding s' by (simp add: count_diff in_diff_count)
    moreover have "y \<in> S \<union> seen s" using that False finite_succs unfolding s' by auto
    ultimately show ?thesis using assms(1) unfolding explored_def s' by blast
  qed (simp add: s')
  with assms(1) new pend show ?thesis unfolding explored_def s'(1) by blast
qed

lemma explored_end:
  assumes "explored A S s" and "A \<subseteq> S" and "next_state s = None"
  shows "seen s = A \<union> (step_rel succs)\<^sup>+ `` S"
proof -
  have p: "pending s = {#}" using assms(3) finished by simp
  have closed: "succs x \<subseteq> seen s" if "x \<in> S \<union> seen s" for x
    using assms(1) that p unfolding explored_def by simp
  have "y \<in> seen s" if "(x, y) \<in> (step_rel succs)\<^sup>+" "x \<in> S" for x y
    using that by (induction rule: trancl_induct) (use closed in \<open>auto simp: step_rel_def\<close>)
  then show ?thesis using assms(1) unfolding explored_def by blast
qed

text \<open>A round either uses up a pending item or marks new ones, of which there are finitely many.\<close>

lemma loop_ends:
  assumes "finite U" and "\<And>x. x \<in> U \<union> S \<Longrightarrow> succs x \<subseteq> U"
  shows "set_mset (pending s) \<subseteq> U \<union> S \<Longrightarrow> seen s \<subseteq> U \<Longrightarrow>
    size (pending s) + card (U - seen s) < fuel \<Longrightarrow> \<exists>t. iterate fuel next_state s = Some t"
proof (induction fuel arbitrary: s)
  case (Suc fuel)
  show ?case
  proof (cases "next_state s")
    case (Some s')
    from round [OF Some] obtain x where x: "x \<in># pending s"
      and s': "seen s' = seen s \<union> succs x" "pending s' = pending s - {#x#} + mset_set (succs x - seen s)"
      by blast
    have xU: "succs x \<subseteq> U" using x Suc.prems(1) assms(2) by blast
    have "card (U - seen s) = card (U - seen s') + card (succs x - seen s)"
    proof -
      have "U - seen s = (U - seen s') \<union> (succs x - seen s)" using xU s'(1) by auto
      moreover have "(U - seen s') \<inter> (succs x - seen s) = {}" using s'(1) by auto
      ultimately show ?thesis using assms(1) finite_succs by (simp add: card_Un_disjoint)
    qed
    moreover have "size (pending s') + 1 = size (pending s) + card (succs x - seen s)"
      unfolding s' using x by (auto dest!: multi_member_split)
    ultimately have "size (pending s') + card (U - seen s') < fuel" using Suc.prems(3) by simp
    moreover have "set_mset (pending s') \<subseteq> U \<union> S" "seen s' \<subseteq> U"
      using Suc.prems(1,2) xU unfolding s' by (auto dest: in_diffD simp: finite_succs)
    ultimately show ?thesis using Suc.IH [of s'] Some by simp
  qed simp
qed simp

theorem loop_result:
  assumes "finite U" and "\<And>x. x \<in> U \<union> set_mset (pending s) \<Longrightarrow> succs x \<subseteq> U"
    and "seen s \<subseteq> U" and "seen s \<subseteq> set_mset (pending s)"
    and "size (pending s) + card (U - seen s) < fuel"
  shows "\<exists>t. iterate fuel next_state s = Some t \<and>
    seen t = seen s \<union> (step_rel succs)\<^sup>+ `` set_mset (pending s)"
proof -
  from assms obtain t where t: "iterate fuel next_state s = Some t"
    using loop_ends [OF assms(1,2) _ assms(3,5)] by blast
  have "explored (seen s) (set_mset (pending s)) s" using assms(4) unfolding explored_def by blast
  with iterate_invariant [OF t, of "explored (seen s) (set_mset (pending s))"] explored_round [OF _ assms(4)]
  have "explored (seen s) (set_mset (pending s)) t" "next_state t = None" by blast+
  from explored_end [OF this(1) assms(4) this(2)] t show ?thesis by blast
qed

end

section \<open>Marking on a stack\<close>

text \<open>
  \<open>if x not in seen: seen.add(x); stack.append(x)\<close>. The stack has its top first.
\<close>

definition push_new :: "'a \<Rightarrow> 'a set \<times> 'a list \<Rightarrow> 'a set \<times> 'a list" where
  "push_new x st = (case st of (seen, stack) \<Rightarrow>
     if x \<notin> seen then (insert x seen, x # stack) else (seen, stack))"

lemma push_new_fold:
  "fst (fold push_new xs (seen, st)) = seen \<union> set xs"
  "mset (snd (fold push_new xs (seen, st))) = mset st + mset_set (set xs - seen)"
proof (induction xs arbitrary: seen st)
  case (Cons x xs)
  {
    case 1
    show ?case using Cons.IH(1) by (auto simp: push_new_def)
  next
    case 2
    show ?case
    proof (cases "x \<in> seen")
      case True
      then show ?thesis using Cons.IH(2) [of seen st] by (simp add: push_new_def insert_Diff_if)
    next
      case False
      then have "set (x # xs) - seen = insert x (set xs - insert x seen)" by auto
      with False show ?thesis using Cons.IH(2) [of "insert x seen" "x # st"]
        by (simp add: push_new_def)
    qed
  }
qed simp_all

text \<open>One round of such a loop over a successor function.\<close>

definition stack_step :: "('a \<Rightarrow> 'a list) \<Rightarrow> 'a set \<times> 'a list \<Rightarrow> ('a set \<times> 'a list) option" where
  "stack_step nexts st = (case st of (seen, stack) \<Rightarrow>
     case stack of [] \<Rightarrow> None | x # rest \<Rightarrow> Some (fold push_new (nexts x) (seen, rest)))"

interpretation stack_loop: worklist "\<lambda>x. set (nexts x)" fst "\<lambda>st. mset (snd st)" "stack_step nexts" for nexts
proof
  fix st :: "'a set \<times> 'a list"
  show "stack_step nexts st = None \<longleftrightarrow> mset (snd st) = {#}"
    by (auto simp: stack_step_def split: prod.splits list.splits)
next
  fix st st' assume "stack_step nexts st = Some st'"
  then obtain seen x rest where st: "st = (seen, x # rest)" and st': "st' = fold push_new (nexts x) (seen, rest)"
    by (auto simp: stack_step_def split: prod.splits list.splits)
  show "\<exists>x \<in># mset (snd st). fst st' = fst st \<union> set (nexts x) \<and>
    mset (snd st') = mset (snd st) - {#x#} + mset_set (set (nexts x) - fst st)"
    by (rule bexI [of _ x]) (simp_all add: st st' push_new_fold)
qed simp

end
