(* ===== verification/Supergraph.thy ===== *)
theory Supergraph
  imports Graph_Encoding Worklist
begin

text \<open>
  The interprocedural skeleton of \<open>analysis/ifds/supergraph.py\<close>: procedures, control-flow
  and call successors and the static call graph, built from a code property graph, and the
  closure \<open>transitive_callers\<close>. \<open>build_supergraph\<close> is only called on graphs that
  \<open>canonical_order\<close> has accepted, so every edge end is a node and the adjacency dictionaries,
  which hold a list for every node, are total functions.
\<close>

section \<open>Data\<close>

type_synonym proc_id = int

definition CALL_EDGE :: string where "CALL_EDGE = ''CALL''"
definition RETURN_EDGE :: string where "RETURN_EDGE = ''RETURN''"
definition CFG_EDGE :: string where "CFG_EDGE = ''CFG''"

record procedure =
  proc_id :: proc_id
  entry :: node_id
  fqn :: string
  body_nodes :: "node_id list"

record supergraph =
  sg_cpg :: cpg
  procs :: "proc_id \<rightharpoonup> procedure"
  proc_of_node :: "node_id \<rightharpoonup> proc_id"
  cfg_succ :: "node_id \<Rightarrow> node_id list"
  call_succ :: "node_id \<Rightarrow> proc_id list"
  callees :: "proc_id \<Rightarrow> proc_id set"
  callers :: "proc_id \<Rightarrow> proc_id set"

section \<open>Construction\<close>

definition okey :: "node_id list \<Rightarrow> node_id \<Rightarrow> int" where
  "okey order v = (if v \<in> set order then int (index_of order v) else int (length order) + v)"

definition is_method :: "cpg_node \<Rightarrow> bool" where
  "is_method n \<longleftrightarrow> kind n = ''METHOD''"

definition method_fqn :: "cpg_node \<Rightarrow> string" where
  "method_fqn n = (if resolved_fqn n \<noteq> [] then resolved_fqn n else enclosing_decl_fqn n)"

text \<open>\<open>node_by_id.get(v)\<close>\<close>

definition find_node :: "cpg \<Rightarrow> node_id \<Rightarrow> cpg_node option" where
  "find_node g v = map_of (map (\<lambda>n. (node_id n, n)) (nodes g)) v"

definition add_method ::
  "cpg_node \<Rightarrow> supergraph \<times> (string \<rightharpoonup> proc_id) \<Rightarrow> supergraph \<times> (string \<rightharpoonup> proc_id)" where
  "add_method n x = (case x of (sg, fqn_to_proc) \<Rightarrow>
     let pid = node_id n; f = method_fqn n
     in (sg\<lparr>procs := (procs sg)(pid \<mapsto> \<lparr>proc_id = pid, entry = pid, fqn = f, body_nodes = []\<rparr>),
            callees := (callees sg)(pid := {}), callers := (callers sg)(pid := {})\<rparr>,
         if f \<noteq> [] then fqn_to_proc(f \<mapsto> pid) else fqn_to_proc))"

definition node_proc :: "(string \<rightharpoonup> proc_id) \<Rightarrow> cpg_node \<Rightarrow> proc_id" where
  "node_proc fqn_to_proc n = (if is_method n then node_id n
     else case fqn_to_proc (enclosing_decl_fqn n) of None \<Rightarrow> -1 | Some p \<Rightarrow> p)"

definition assign_node ::
  "(string \<rightharpoonup> proc_id) \<Rightarrow> cpg_node \<Rightarrow> supergraph \<times> (proc_id \<Rightarrow> node_id list) \<Rightarrow>
   supergraph \<times> (proc_id \<Rightarrow> node_id list)" where
  "assign_node fqn_to_proc n x = (case x of (sg, body) \<Rightarrow>
     let pid = node_proc fqn_to_proc n
     in if pid \<noteq> -1
        then (sg\<lparr>proc_of_node := (proc_of_node sg)(node_id n \<mapsto> pid)\<rparr>,
              if is_method n then body else body(pid := body pid @ [node_id n]))
        else (sg, body))"

definition set_bodies ::
  "node_id list \<Rightarrow> (proc_id \<Rightarrow> node_id list) \<Rightarrow> supergraph \<Rightarrow> supergraph" where
  "set_bodies order body sg = sg\<lparr>procs := (\<lambda>pid.
     map_option (\<lambda>p. p\<lparr>body_nodes := sort_key (okey order) (body pid)\<rparr>) (procs sg pid))\<rparr>"

definition add_call :: "node_id \<Rightarrow> proc_id \<Rightarrow> supergraph \<Rightarrow> supergraph" where
  "add_call s callee_pid sg =
     (let sg' = sg\<lparr>call_succ := (call_succ sg)(s := call_succ sg s @ [callee_pid])\<rparr>
      in case proc_of_node sg' s of None \<Rightarrow> sg'
         | Some caller_pid \<Rightarrow>
             sg'\<lparr>callees := (callees sg')(caller_pid := insert callee_pid (callees sg' caller_pid)),
                callers := (callers sg')(callee_pid := insert caller_pid (callers sg' callee_pid))\<rparr>)"

definition link_edge :: "cpg \<Rightarrow> cpg_edge \<Rightarrow> supergraph \<Rightarrow> supergraph" where
  "link_edge g e sg =
     (if ekind e = CFG_EDGE
      then sg\<lparr>cfg_succ := (cfg_succ sg)(src e := cfg_succ sg (src e) @ [dst e])\<rparr>
      else if ekind e = CALL_EDGE then
        (case find_node g (dst e) of None \<Rightarrow> sg
         | Some callee \<Rightarrow> if is_method callee then add_call (src e) (node_id callee) sg else sg)
      else sg)"

definition sort_successors :: "node_id list \<Rightarrow> supergraph \<Rightarrow> supergraph" where
  "sort_successors order sg = sg\<lparr>cfg_succ := (\<lambda>v. sort_key (okey order) (cfg_succ sg v)),
     call_succ := (\<lambda>v. sort_key (okey order) (call_succ sg v))\<rparr>"

definition method_nodes :: "cpg \<Rightarrow> node_id list \<Rightarrow> cpg_node list" where
  "method_nodes g order = sort_key (\<lambda>n. okey order (node_id n)) (filter is_method (nodes g))"

definition empty_supergraph :: "cpg \<Rightarrow> supergraph" where
  "empty_supergraph g = \<lparr>sg_cpg = g, procs = Map.empty, proc_of_node = Map.empty,
     cfg_succ = (\<lambda>_. []), call_succ = (\<lambda>_. []), callees = (\<lambda>_. {}), callers = (\<lambda>_. {})\<rparr>"

definition build_supergraph :: "cpg \<Rightarrow> node_id list \<Rightarrow> supergraph" where
  "build_supergraph g order =
     (let (sg1, fqn_to_proc) = fold add_method (method_nodes g order) (empty_supergraph g, Map.empty);
          (sg2, body) = fold (assign_node fqn_to_proc) (nodes g) (sg1, \<lambda>_. []);
          sg3 = set_bodies order body sg2;
          sg4 = fold (link_edge g) (edges g) sg3
      in sort_successors order sg4)"

section \<open>Transitive callers\<close>

text \<open>
  The stack has its top first. A Python set is iterated in an unspecified order; the model
  takes the ascending one, and the result is characterised as a set.
\<close>

definition callers_step ::
  "supergraph \<Rightarrow> proc_id set \<times> proc_id list \<Rightarrow> (proc_id set \<times> proc_id list) option" where
  "callers_step sg = stack_step (\<lambda>p. sorted_list_of_set (callers sg p))"

definition transitive_callers :: "supergraph \<Rightarrow> proc_id set \<Rightarrow> proc_id set option" where
  "transitive_callers sg seed =
     map_option fst (iterate (Suc (card seed + length (nodes (sg_cpg sg)))) (callers_step sg)
       ({}, sorted_list_of_set seed))"

section \<open>What the construction yields\<close>

definition method_at :: "cpg \<Rightarrow> node_id \<Rightarrow> bool" where
  "method_at g v = (case find_node g v of None \<Rightarrow> False | Some n \<Rightarrow> is_method n)"

lemma find_node_id: "find_node g v = Some n \<Longrightarrow> node_id n = v \<and> n \<in> set (nodes g)"
  unfolding find_node_def by (drule map_of_SomeD) auto

lemma find_node_None: "find_node g v = None \<longleftrightarrow> v \<notin> set (ids g)"
  unfolding find_node_def ids_def map_of_eq_None_iff by force

lemma find_node_in:
  assumes "distinct (ids g)" and "n \<in> set (nodes g)"
  shows "find_node g (node_id n) = Some n"
  unfolding find_node_def
  by (rule map_of_is_SomeI) (use assms in \<open>auto simp: ids_def o_def\<close>)

lemma method_at_node: "distinct (ids g) \<Longrightarrow> n \<in> set (nodes g) \<Longrightarrow> method_at g (node_id n) = is_method n"
  by (simp add: method_at_def find_node_in)

lemma methods_fold:
  assumes "fold add_method ms (sg, f) = (sg', f')"
    and "\<forall>p pr. procs sg p = Some pr \<longrightarrow> entry pr = p" and "ran f \<subseteq> dom (procs sg)"
    and "callees sg = (\<lambda>_. {})" and "callers sg = (\<lambda>_. {})"
  shows "dom (procs sg') = dom (procs sg) \<union> node_id ` set ms \<and>
    (\<forall>p pr. procs sg' p = Some pr \<longrightarrow> entry pr = p) \<and> ran f' \<subseteq> dom (procs sg') \<and>
    callees sg' = (\<lambda>_. {}) \<and> callers sg' = (\<lambda>_. {}) \<and> sg_cpg sg' = sg_cpg sg \<and>
    proc_of_node sg' = proc_of_node sg \<and> cfg_succ sg' = cfg_succ sg \<and> call_succ sg' = call_succ sg"
  using assms
proof (induction ms arbitrary: sg f)
  case (Cons n ms)
  let ?x = "add_method n (sg, f)"
  have "fold add_method ms (fst ?x, snd ?x) = (sg', f')" using Cons.prems(1) by simp
  moreover have "ran (snd ?x) \<subseteq> dom (procs (fst ?x))"
    using Cons.prems(3) by (auto simp: add_method_def Let_def ran_def split: if_splits)
  moreover have "\<forall>p pr. procs (fst ?x) p = Some pr \<longrightarrow> entry pr = p"
    using Cons.prems(2) by (auto simp: add_method_def Let_def)
  moreover have "callees (fst ?x) = (\<lambda>_. {})" "callers (fst ?x) = (\<lambda>_. {})"
    using Cons.prems(4,5) by (auto simp: add_method_def Let_def)
  ultimately have "dom (procs sg') = dom (procs (fst ?x)) \<union> node_id ` set ms \<and>
    (\<forall>p pr. procs sg' p = Some pr \<longrightarrow> entry pr = p) \<and> ran f' \<subseteq> dom (procs sg') \<and>
    callees sg' = (\<lambda>_. {}) \<and> callers sg' = (\<lambda>_. {}) \<and> sg_cpg sg' = sg_cpg (fst ?x) \<and>
    proc_of_node sg' = proc_of_node (fst ?x) \<and> cfg_succ sg' = cfg_succ (fst ?x) \<and>
    call_succ sg' = call_succ (fst ?x)"
    by (intro Cons.IH [of "fst ?x" "snd ?x"])
  then show ?case by (auto simp: add_method_def Let_def)
qed auto

lemma methods_names:
  "dom (snd (fold add_method ms (sg, f))) = dom f \<union> {method_fqn n | n. n \<in> set ms \<and> method_fqn n \<noteq> []}"
proof (induction ms arbitrary: sg f)
  case (Cons n ms)
  obtain sg' f' where x: "add_method n (sg, f) = (sg', f')" by fastforce
  then have "dom f' = dom f \<union> (if method_fqn n \<noteq> [] then {method_fqn n} else {})"
    by (auto simp: add_method_def Let_def)
  with Cons.IH [of sg' f'] show ?case by (auto simp: x)
qed simp

text \<open>A node has a procedure when it is a method or its enclosing declaration names one.\<close>

definition owned :: "cpg \<Rightarrow> cpg_node \<Rightarrow> bool" where
  "owned g n \<longleftrightarrow> is_method n \<or> (\<exists>m \<in> set (nodes g). is_method m \<and> method_fqn m \<noteq> [] \<and>
     method_fqn m = enclosing_decl_fqn n)"

definition owner :: "(string \<rightharpoonup> proc_id) \<Rightarrow> cpg_node \<Rightarrow> proc_id option" where
  "owner f n = (if node_proc f n = -1 then None else Some (node_proc f n))"

lemma assign_fold:
  assumes "fold (assign_node f) ns (sg, b) = (sg', b')" and "distinct (map node_id ns)"
    and "\<forall>n \<in> set ns. proc_of_node sg (node_id n) = None"
  shows "(\<forall>n \<in> set ns. proc_of_node sg' (node_id n) = owner f n) \<and>
    (\<forall>v. v \<notin> node_id ` set ns \<longrightarrow> proc_of_node sg' v = proc_of_node sg v) \<and>
    procs sg' = procs sg \<and> callees sg' = callees sg \<and> callers sg' = callers sg \<and>
    sg_cpg sg' = sg_cpg sg \<and> cfg_succ sg' = cfg_succ sg \<and> call_succ sg' = call_succ sg"
  using assms
proof (induction ns arbitrary: sg b)
  case (Cons n ns)
  let ?x = "assign_node f n (sg, b)"
  have x: "procs (fst ?x) = procs sg" "callees (fst ?x) = callees sg" "callers (fst ?x) = callers sg"
    "sg_cpg (fst ?x) = sg_cpg sg" "cfg_succ (fst ?x) = cfg_succ sg" "call_succ (fst ?x) = call_succ sg"
    "proc_of_node (fst ?x) (node_id n) = owner f n"
    "v \<noteq> node_id n \<Longrightarrow> proc_of_node (fst ?x) v = proc_of_node sg v" for v
    using Cons.prems(3) by (auto simp: assign_node_def Let_def owner_def)
  have "fold (assign_node f) ns (fst ?x, snd ?x) = (sg', b')" using Cons.prems(1) by simp
  moreover have "\<forall>m \<in> set ns. proc_of_node (fst ?x) (node_id m) = None"
    using Cons.prems(2,3) x(8) by (metis image_eqI list.set_intros(2) list.simps(9) set_map distinct.simps(2))
  ultimately have "(\<forall>n \<in> set ns. proc_of_node sg' (node_id n) = owner f n) \<and>
    (\<forall>v. v \<notin> node_id ` set ns \<longrightarrow> proc_of_node sg' v = proc_of_node (fst ?x) v) \<and>
    procs sg' = procs (fst ?x) \<and> callees sg' = callees (fst ?x) \<and> callers sg' = callers (fst ?x) \<and>
    sg_cpg sg' = sg_cpg (fst ?x) \<and> cfg_succ sg' = cfg_succ (fst ?x) \<and> call_succ sg' = call_succ (fst ?x)"
    using Cons.prems(2) by (intro Cons.IH [of "fst ?x" "snd ?x"]) simp_all
  with x Cons.prems(2) show ?case by auto
qed auto

definition cfg_edge :: "cpg \<Rightarrow> node_id \<Rightarrow> node_id \<Rightarrow> bool" where
  "cfg_edge g u v \<longleftrightarrow> (\<exists>e \<in> set (edges g). ekind e = CFG_EDGE \<and> src e = u \<and> dst e = v)"

definition call_edge :: "cpg \<Rightarrow> node_id \<Rightarrow> node_id \<Rightarrow> bool" where
  "call_edge g u v \<longleftrightarrow> (\<exists>e \<in> set (edges g). ekind e = CALL_EDGE \<and> src e = u \<and> dst e = v) \<and> method_at g v"

lemma edge_kinds: "CFG_EDGE \<noteq> CALL_EDGE"
  by (simp add: CFG_EDGE_def CALL_EDGE_def)

lemma link_edge_fields:
  "procs (link_edge g e sg) = procs sg" "proc_of_node (link_edge g e sg) = proc_of_node sg"
  "sg_cpg (link_edge g e sg) = sg_cpg sg"
  "set (cfg_succ (link_edge g e sg) v) = set (cfg_succ sg v) \<union>
     (if ekind e = CFG_EDGE \<and> src e = v then {dst e} else {})"
  "set (call_succ (link_edge g e sg) v) = set (call_succ sg v) \<union>
     (if ekind e = CALL_EDGE \<and> src e = v \<and> method_at g (dst e) then {dst e} else {})"
  "callers (link_edge g e sg) p = callers sg p \<union>
     (if ekind e = CALL_EDGE \<and> dst e = p \<and> method_at g p then {c. proc_of_node sg (src e) = Some c} else {})"
  using edge_kinds find_node_id [of g "dst e"]
  by (auto simp: link_edge_def add_call_def method_at_def Let_def split: option.splits)

lemma links_fold:
  "procs (fold (link_edge g) es sg) = procs sg \<and> proc_of_node (fold (link_edge g) es sg) = proc_of_node sg \<and>
   sg_cpg (fold (link_edge g) es sg) = sg_cpg sg \<and>
   (\<forall>v. set (cfg_succ (fold (link_edge g) es sg) v) = set (cfg_succ sg v) \<union>
      {dst e | e. e \<in> set es \<and> ekind e = CFG_EDGE \<and> src e = v}) \<and>
   (\<forall>v. set (call_succ (fold (link_edge g) es sg) v) = set (call_succ sg v) \<union>
      {dst e | e. e \<in> set es \<and> ekind e = CALL_EDGE \<and> src e = v \<and> method_at g (dst e)}) \<and>
   (\<forall>p. callers (fold (link_edge g) es sg) p = callers sg p \<union>
      {c. \<exists>e \<in> set es. ekind e = CALL_EDGE \<and> dst e = p \<and> method_at g p \<and> proc_of_node sg (src e) = Some c})"
proof (induction es arbitrary: sg)
  case (Cons e es)
  show ?case
    using Cons.IH [of "link_edge g e sg"] by (simp only: fold_Cons o_apply link_edge_fields) (auto split: if_splits)
qed simp

text \<open>The skeleton of a valid graph, in terms of the graph's own nodes and edges.\<close>

lemma build_supergraph_facts:
  fixes order :: "node_id list"
  assumes val: "valid_cpg g"
  defines "sg \<equiv> build_supergraph g order"
  shows "sg_cpg sg = g"
    and "set (cfg_succ sg u) = {v. cfg_edge g u v}"
    and "set (call_succ sg u) = {v. call_edge g u v}"
    and "callers sg p = {c. \<exists>u. call_edge g u p \<and> proc_of_node sg u = Some c}"
    and "procs sg p = None \<longleftrightarrow> \<not> method_at g p"
    and "procs sg p = Some pr \<Longrightarrow> entry pr = p"
    and "proc_of_node sg u = Some p \<Longrightarrow> u \<in> set (ids g) \<and> method_at g p"
    and "method_at g p \<Longrightarrow> proc_of_node sg p = Some p"
    and "n \<in> set (nodes g) \<Longrightarrow> proc_of_node sg (node_id n) \<noteq> None \<longleftrightarrow> owned g n"
proof -
  have dist: "distinct (ids g)" using val by (simp add: valid_cpg_def)
  let ?ms = "method_nodes g order"
  have ms: "set ?ms = {n \<in> set (nodes g). is_method n}" by (auto simp: method_nodes_def)
  obtain sg1 f where 1: "fold add_method ?ms (empty_supergraph g, Map.empty) = (sg1, f)" by fastforce
  obtain sg2 b where 2: "fold (assign_node f) (nodes g) (sg1, \<lambda>_. []) = (sg2, b)" by fastforce
  let ?sg3 = "set_bodies order b sg2"
  let ?sg4 = "fold (link_edge g) (edges g) ?sg3"
  have sg: "sg = sort_successors order ?sg4"
    by (simp add: sg_def build_supergraph_def 1 2 Let_def)
  have f1: "dom (procs sg1) = node_id ` set ?ms" "\<forall>p pr. procs sg1 p = Some pr \<longrightarrow> entry pr = p"
    "ran f \<subseteq> dom (procs sg1)" "callers sg1 = (\<lambda>_. {})" "sg_cpg sg1 = g" "proc_of_node sg1 = Map.empty"
    "cfg_succ sg1 = (\<lambda>_. [])" "call_succ sg1 = (\<lambda>_. [])"
    using methods_fold [OF 1] by (auto simp: empty_supergraph_def)
  have f2: "\<forall>n \<in> set (nodes g). proc_of_node sg2 (node_id n) = owner f n"
    "\<forall>v. v \<notin> node_id ` set (nodes g) \<longrightarrow> proc_of_node sg2 v = None"
    "procs sg2 = procs sg1" "callers sg2 = callers sg1" "sg_cpg sg2 = g"
    "cfg_succ sg2 = cfg_succ sg1" "call_succ sg2 = call_succ sg1"
    using assign_fold [OF 2] dist f1(5,6) by (simp_all add: ids_def)
  have pon: "proc_of_node sg = proc_of_node sg2"
    using links_fold [of g "edges g" ?sg3] by (simp add: sg sort_successors_def set_bodies_def)
  note f4 = links_fold [of g "edges g" ?sg3]
  show "sg_cpg sg = g" using f4 f2(5) by (simp add: sg sort_successors_def set_bodies_def)
  show "set (cfg_succ sg u) = {v. cfg_edge g u v}"
    using f4 f2(6) f1(7) by (auto simp: sg sort_successors_def set_bodies_def cfg_edge_def)
  show "set (call_succ sg u) = {v. call_edge g u v}"
    using f4 f2(7) f1(8) by (auto simp: sg sort_successors_def set_bodies_def call_edge_def)
  show "callers sg p = {c. \<exists>u. call_edge g u p \<and> proc_of_node sg u = Some c}"
    unfolding pon using f4 f2(4) f1(4) by (auto simp: sg sort_successors_def set_bodies_def call_edge_def)
  have methods: "p \<in> dom (procs sg1) \<longleftrightarrow> method_at g p" for p
  proof
    assume "p \<in> dom (procs sg1)"
    then show "method_at g p" unfolding f1(1) ms using method_at_node [OF dist] by blast
  next
    assume "method_at g p"
    then obtain n where "find_node g p = Some n" "is_method n"
      by (auto simp: method_at_def split: option.splits)
    with find_node_id show "p \<in> dom (procs sg1)" unfolding f1(1) ms by blast
  qed
  have procs: "procs sg p = map_option (\<lambda>pr. pr\<lparr>body_nodes := sort_key (okey order) (b p)\<rparr>) (procs sg1 p)" for p
    using f4 f2(3) by (simp add: sg sort_successors_def set_bodies_def)
  show "procs sg p = None \<longleftrightarrow> \<not> method_at g p" using methods [of p] procs by auto
  show "procs sg p = Some pr \<Longrightarrow> entry pr = p" using f1(2) procs by auto
  have nonneg: "node_id n \<noteq> -1" if "n \<in> set (nodes g)" for n
    using val that unfolding valid_cpg_def node_ok_def by force
  show "u \<in> set (ids g) \<and> method_at g p" if "proc_of_node sg u = Some p"
  proof -
    from that have u: "u \<in> node_id ` set (nodes g)" using f2(2) unfolding pon by (metis option.distinct(1))
    then obtain n where n: "n \<in> set (nodes g)" "u = node_id n" by blast
    then have "owner f n = Some p" using f2(1) that unfolding pon by simp
    then have "is_method n \<and> p = node_id n \<or> f (enclosing_decl_fqn n) = Some p"
      by (auto simp: owner_def node_proc_def split: if_splits option.splits)
    then have "method_at g p"
      using method_at_node [OF dist n(1)] f1(3) methods [of p] by (auto simp: ran_def)
    with u show ?thesis by (auto simp: ids_def)
  qed
  show "proc_of_node sg p = Some p" if m: "method_at g p"
  proof -
    from m obtain n where n: "find_node g p = Some n" "is_method n"
      by (auto simp: method_at_def split: option.splits)
    with find_node_id [OF n(1)] f2(1) nonneg [of n] show ?thesis
      unfolding pon by (auto simp: owner_def node_proc_def)
  qed
  show "proc_of_node sg (node_id n) \<noteq> None \<longleftrightarrow> owned g n" if n: "n \<in> set (nodes g)"
  proof -
    have dom: "dom f = {method_fqn m | m. m \<in> set (nodes g) \<and> is_method m \<and> method_fqn m \<noteq> []}"
      using methods_names [of ?ms "empty_supergraph g" Map.empty] 1 ms by auto
    have "p \<noteq> -1" if "f s = Some p" for s p
    proof -
      have "p \<in> node_id ` set ?ms" using that f1(1,3) by (auto simp: ran_def)
      then show ?thesis using nonneg ms by auto
    qed
    then have "owner f n \<noteq> None \<longleftrightarrow> is_method n \<or> enclosing_decl_fqn n \<in> dom f"
      using nonneg [OF n] by (auto simp: owner_def node_proc_def split: option.splits)
    moreover have "enclosing_decl_fqn n \<in> dom f \<longleftrightarrow> (\<exists>m \<in> set (nodes g). is_method m \<and> method_fqn m \<noteq> [] \<and>
        method_fqn m = enclosing_decl_fqn n)" unfolding dom by force
    ultimately show ?thesis using f2(1) n unfolding pon owned_def by simp
  qed
qed

section \<open>The caller closure\<close>

lemma method_at_ids: "method_at g p \<Longrightarrow> p \<in> set (ids g)"
  using find_node_None [of g p] by (auto simp: method_at_def split: option.splits)

text \<open>The static call graph: \<open>calls p q\<close> when some node of \<open>p\<close> has a call edge to the entry of \<open>q\<close>.\<close>

definition calls :: "supergraph \<Rightarrow> (proc_id \<times> proc_id) set" where
  "calls sg = {(p, q). p \<in> callers sg q}"

lemma step_rel_callers: "(\<And>p. finite (callers sg p)) \<Longrightarrow>
    step_rel (\<lambda>p. set (sorted_list_of_set (callers sg p))) = (calls sg)\<inverse>"
  by (auto simp: step_rel_def calls_def)

lemma transitive_callers_runs:
  assumes callers: "\<And>p. callers sg p \<subseteq> set (ids (sg_cpg sg))" and seed: "finite seed"
  shows "transitive_callers sg seed = Some {p. \<exists>q \<in> seed. (p, q) \<in> (calls sg)\<^sup>+}"
proof -
  let ?s = "({}, sorted_list_of_set seed) :: proc_id set \<times> proc_id list"
  let ?n = "length (nodes (sg_cpg sg))"
  have finc: "finite (callers sg p)" for p using callers finite_subset by blast
  have "card (set (ids (sg_cpg sg))) \<le> ?n"
    using card_length [of "ids (sg_cpg sg)"] by (simp add: ids_def)
  then have "\<exists>t. iterate (Suc (card seed + ?n)) (callers_step sg) ?s = Some t \<and>
      fst t = fst ?s \<union> (step_rel (\<lambda>p. set (sorted_list_of_set (callers sg p))))\<^sup>+ `` set_mset (mset (snd ?s))"
    unfolding callers_step_def
    by (intro stack_loop.loop_result [of "set (ids (sg_cpg sg))"]) (use callers finc seed in simp_all)
  then show ?thesis
    using seed by (auto simp: transitive_callers_def step_rel_callers [OF finc] trancl_converse)
qed

end
