(* ===== verification/Dsl_Spec.thy ===== *)
theory Dsl_Spec
  imports Prelude
begin

text \<open>
  The parsed form of a detector specification (\<open>analysis/ifds/dsl/primitives.py\<close> and
  \<open>analysis/ifds/dsl/spec.py\<close>): the four clause heads and the specification they make up.
\<close>

datatype clause =
    is_Source: Source (pattern: string)
  | is_Sink: Sink (pattern: string)
  | is_Sanitize: Sanitize (pattern: string)
  | is_Propagate: Propagate (prop_source: string) (prop_target: string)

definition PRIMITIVE_HEADS :: "string list" where
  "PRIMITIVE_HEADS = [''source'', ''sink'', ''sanitize'', ''propagate'']"

definition PROPAGATE_FORMS :: "string list" where
  "PROPAGATE_FORMS = [''arg_ret'', ''arg_field'', ''field_ret'', ''field_field'']"

definition CLASS_NAMES :: "string list" where
  "CLASS_NAMES = [''injection'', ''path-traversal'', ''ssrf'', ''deserialization'', ''xss'',
     ''crypto-misuse'', ''authn-authz'', ''secrets'', ''dep-cve'', ''memory-safety'']"

definition LANGUAGES :: "string list" where
  "LANGUAGES = [''java'', ''python'', ''javascript'', ''typescript'', ''go'', ''ruby'', ''php'']"

definition DSL_ENGINES :: "string list" where
  "DSL_ENGINES = [''ifds'', ''ide'']"

record spec =
  spec_id :: string
  spec_class :: string
  spec_languages :: "string list"
  engine :: string
  clauses :: "clause list"

end
