(* ===== verification/Tabulation.thy ===== *)
theory Tabulation
  imports Supergraph Dsl_Spec
begin

text \<open>
  The tabulation core of \<open>analysis/ifds/solver.py\<close>: seeding, the sanitizer and sink tests,
  the worklist loop \<open>_tabulate\<close> with its summary splice, and witness reconstruction.

  A fact is a natural number. The predecessor dictionary is an association list with the
  latest entry first; the order of the canonical labelling stands for \<open>canon_index\<close>.
\<close>

section \<open>Matching and seeding\<close>

type_synonym fact = nat
type_synonym item = "node_id \<times> fact"

definition pattern_matches :: "string \<Rightarrow> cpg_node \<Rightarrow> bool" where
  "pattern_matches pat n \<longleftrightarrow> pat = operator_or_literal n \<and> operator_or_literal n \<noteq> []"

record seeding =
  next_fact :: fact
  seeded :: "(node_id \<times> fact list) list"
  fact_pattern :: "(fact \<times> string) list"

text \<open>\<open>seeded.setdefault(v, set()).add(fact)\<close>\<close>

fun seed_add :: "node_id \<Rightarrow> fact \<Rightarrow> (node_id \<times> fact list) list \<Rightarrow> (node_id \<times> fact list) list" where
  "seed_add v f [] = [(v, [f])]"
| "seed_add v f ((u, fs) # d) = (if u = v then (u, fs @ [f]) # d else (u, fs) # seed_add v f d)"

definition seed_clause :: "cpg_node \<Rightarrow> clause \<Rightarrow> seeding \<Rightarrow> seeding" where
  "seed_clause n c st =
     (if pattern_matches (pattern c) n
      then st\<lparr>next_fact := Suc (next_fact st),
              seeded := seed_add (node_id n) (next_fact st) (seeded st),
              fact_pattern := (next_fact st, pattern c) # fact_pattern st\<rparr>
      else st)"

definition seed_sources :: "supergraph \<Rightarrow> spec \<Rightarrow> seeding" where
  "seed_sources sg spec =
     fold (\<lambda>v. fold (seed_clause (node_by_id (sg_cpg sg) v)) (filter is_Source (clauses spec)))
       (sort (remdups (ids (sg_cpg sg)))) \<lparr>next_fact = 0, seeded = [], fact_pattern = []\<rparr>"

definition sanitized_at :: "spec \<Rightarrow> cpg_node \<Rightarrow> bool" where
  "sanitized_at spec n = list_ex (\<lambda>c. is_Sanitize c \<and> pattern_matches (pattern c) n) (clauses spec)"

definition is_sink_node :: "spec \<Rightarrow> cpg_node \<Rightarrow> bool" where
  "is_sink_node spec n = list_ex (\<lambda>c. is_Sink c \<and> pattern_matches (pattern c) n) (clauses spec)"

section \<open>Summary cache\<close>

record summary_cache =
  header :: "string \<times> bytes"
  summaries :: "proc_id \<rightharpoonup> (fact \<rightharpoonup> fact set)"
  cache_visited :: "proc_id set"

definition cache_copy :: "summary_cache \<Rightarrow> summary_cache" where
  "cache_copy c = \<lparr>header = header c, summaries = summaries c, cache_visited = cache_visited c\<rparr>"

definition invalidate :: "proc_id set \<Rightarrow> summary_cache \<Rightarrow> summary_cache" where
  "invalidate ps c = c\<lparr>summaries := (\<lambda>p. if p \<in> ps then None else summaries c p),
     cache_visited := cache_visited c - ps\<rparr>"

section \<open>The worklist loop\<close>

record tab =
  facts_at :: "node_id \<Rightarrow> fact set"
  pred :: "(item \<times> item option) list"
  pending :: "item list"
  visited :: "proc_id set"

definition add_fact :: "supergraph \<Rightarrow> item option \<Rightarrow> item \<Rightarrow> tab \<Rightarrow> tab" where
  "add_fact sg pk x t = (case x of (v, f) \<Rightarrow>
     if f \<in> facts_at t v then t
     else t\<lparr>facts_at := (facts_at t)(v := insert f (facts_at t v)),
            pred := ((v, f), pk) # pred t,
            pending := pending t @ [(v, f)],
            visited := (case proc_of_node sg v of None \<Rightarrow> visited t | Some p \<Rightarrow> insert p (visited t))\<rparr>)"

definition proc_in_scope :: "proc_id set option \<Rightarrow> proc_id option \<Rightarrow> bool" where
  "proc_in_scope restrict_to pid = (case pid of None \<Rightarrow> False
     | Some p \<Rightarrow> case restrict_to of None \<Rightarrow> True | Some R \<Rightarrow> p \<in> R)"

definition seed_node :: "supergraph \<Rightarrow> proc_id set option \<Rightarrow> node_id \<times> fact list \<Rightarrow> tab \<Rightarrow> tab" where
  "seed_node sg restrict_to x t = (case x of (v, fs) \<Rightarrow>
     if proc_in_scope restrict_to (proc_of_node sg v)
     then fold (\<lambda>f. add_fact sg None (v, f)) (sort fs) t else t)"

definition canon_pos :: "node_id list \<Rightarrow> node_id \<Rightarrow> int" where
  "canon_pos order v = (if v \<in> set order then int (index_of order v) else 2 ^ 30)"

definition item_key :: "node_id list \<Rightarrow> item \<Rightarrow> int \<times> int" where
  "item_key order x = (canon_pos order (fst x), int (snd x))"

definition exit_facts :: "summary_cache \<Rightarrow> proc_id \<Rightarrow> fact \<Rightarrow> fact set" where
  "exit_facts cache p f = (case summaries cache p of None \<Rightarrow> {}
     | Some s \<Rightarrow> case s f of None \<Rightarrow> {} | Some ex \<Rightarrow> ex)"

definition call_into ::
  "supergraph \<Rightarrow> proc_id set option \<Rightarrow> summary_cache \<Rightarrow> item \<Rightarrow> proc_id \<Rightarrow> tab \<Rightarrow> tab" where
  "call_into sg restrict_to cache x callee t = (case x of (v, f) \<Rightarrow>
     if \<not> proc_in_scope restrict_to (Some callee) then t
     else fold (\<lambda>ef. fold (\<lambda>ret. add_fact sg (Some x) (ret, ef)) (cfg_succ sg v))
            (sorted_list_of_set (exit_facts cache callee f))
            (add_fact sg (Some x) (entry (the (procs sg callee)), f) t))"

definition tab_step ::
  "supergraph \<Rightarrow> spec \<Rightarrow> proc_id set option \<Rightarrow> summary_cache \<Rightarrow> node_id list \<Rightarrow> tab \<Rightarrow> tab option" where
  "tab_step sg spec restrict_to cache order t =
     (case sort_key (item_key order) (pending t) of [] \<Rightarrow> None
      | (v, f) # rest \<Rightarrow>
          let t0 = t\<lparr>pending := rest\<rparr>
          in Some (if sanitized_at spec (node_by_id (sg_cpg sg) v) then t0
             else fold (call_into sg restrict_to cache (v, f)) (call_succ sg v)
                    (fold (\<lambda>s. add_fact sg (Some (v, f)) (s, f)) (cfg_succ sg v) t0)))"

text \<open>The summaries recorded after the loop.\<close>

definition record_summaries :: "supergraph \<Rightarrow> tab \<Rightarrow> summary_cache \<Rightarrow> summary_cache" where
  "record_summaries sg t cache = cache\<lparr>
     summaries := (\<lambda>p. if p \<in> visited t then
       (let proc = the (procs sg p)
        in Some (\<lambda>ef. if ef \<in> facts_at t (entry proc)
                      then Some (\<Union>bn \<in> set (entry proc # body_nodes proc). facts_at t bn) else None))
       else summaries cache p),
     cache_visited := cache_visited cache \<union> visited t\<rparr>"

definition empty_tab :: tab where
  "empty_tab = \<lparr>facts_at = (\<lambda>_. {}), pred = [], pending = [], visited = {}\<rparr>"

definition seed_tab :: "supergraph \<Rightarrow> proc_id set option \<Rightarrow> (node_id \<times> fact list) list \<Rightarrow> tab" where
  "seed_tab sg restrict_to sd = fold (seed_node sg restrict_to) sd empty_tab"

text \<open>Every (node, fact) pair is made pending at most once, which bounds the rounds.\<close>

definition tabulate ::
  "supergraph \<Rightarrow> spec \<Rightarrow> (node_id \<times> fact list) list \<Rightarrow> proc_id set option \<Rightarrow> summary_cache \<Rightarrow>
   node_id list \<Rightarrow> (tab \<times> summary_cache) res" where
  "tabulate sg spec sd restrict_to cache order =
     (case iterate (Suc (length (nodes (sg_cpg sg)) * length (concat (map snd sd))))
             (tab_step sg spec restrict_to cache order) (seed_tab sg restrict_to sd) of
        None \<Rightarrow> Inl OutOfFuel
      | Some t \<Rightarrow> Inr (t, record_summaries sg t cache))"

section \<open>Witness reconstruction\<close>

text \<open>Each turn of the loop visits a new key of \<open>pred\<close> or is the last one.\<close>

fun backtrack ::
  "nat \<Rightarrow> (item \<times> item option) list \<Rightarrow> item option \<Rightarrow> item list \<Rightarrow> node_id list \<Rightarrow> node_id list res" where
  "backtrack fuel ps None seen path = Inr (rev path)"
| "backtrack fuel ps (Some cur) seen path =
     (if cur \<in> set seen then Inr (rev path)
      else case fuel of 0 \<Rightarrow> Inl OutOfFuel
           | Suc n \<Rightarrow> backtrack n ps (case map_of ps cur of None \<Rightarrow> None | Some p \<Rightarrow> p)
                       (cur # seen) (path @ [fst cur]))"

definition witness :: "(item \<times> item option) list \<Rightarrow> node_id \<Rightarrow> fact \<Rightarrow> node_id list res" where
  "witness ps sink f = backtrack (Suc (length ps)) ps (Some (sink, f)) [] []"

end
