(* ===== verification/Tabulation_Correct.thy ===== *)
theory Tabulation_Correct
  imports Tabulation
begin

text \<open>
  Correctness of the tabulation: the loop ends, the facts it computes are exactly the facts
  that flow from an in-scope seed along control-flow and call edges that no sanitizer cuts, and
  the predecessor table reads back a real path.
\<close>

section \<open>One round as a list of additions\<close>

definition marked :: "tab \<Rightarrow> item set" where
  "marked t = {x. snd x \<in> facts_at t (fst x)}"

definition call_targets ::
  "supergraph \<Rightarrow> proc_id set option \<Rightarrow> summary_cache \<Rightarrow> item \<Rightarrow> proc_id \<Rightarrow> item list" where
  "call_targets sg restrict_to cache x p =
     (if \<not> proc_in_scope restrict_to (Some p) then []
      else (entry (the (procs sg p)), snd x) #
        concat (map (\<lambda>ef. map (\<lambda>r. (r, ef)) (cfg_succ sg (fst x)))
          (sorted_list_of_set (exit_facts cache p (snd x)))))"

definition targets ::
  "supergraph \<Rightarrow> spec \<Rightarrow> proc_id set option \<Rightarrow> summary_cache \<Rightarrow> item \<Rightarrow> item list" where
  "targets sg spec restrict_to cache x =
     (if sanitized_at spec (node_by_id (sg_cpg sg) (fst x)) then []
      else map (\<lambda>s. (s, snd x)) (cfg_succ sg (fst x)) @
        concat (map (call_targets sg restrict_to cache x) (call_succ sg (fst x))))"

lemma fold_concat: "fold f (concat xss) = fold (\<lambda>xs. fold f xs) xss"
  by (induction xss) (auto simp: fun_eq_iff)

lemma fold_map_fun: "fold f (map g xs) = fold (\<lambda>x. f (g x)) xs"
  by (induction xs) (auto simp: fun_eq_iff)

lemma call_into_fold:
  "call_into sg restrict_to cache x p t = fold (add_fact sg (Some x)) (call_targets sg restrict_to cache x p) t"
  by (cases x) (simp add: call_into_def call_targets_def fold_concat fold_map_fun)

lemma tab_step_alt:
  "tab_step sg spec restrict_to cache order t =
     (case sort_key (item_key order) (pending t) of [] \<Rightarrow> None
      | x # rest \<Rightarrow> Some (fold (add_fact sg (Some x)) (targets sg spec restrict_to cache x) (t\<lparr>pending := rest\<rparr>)))"
  by (auto simp: tab_step_def targets_def fold_concat fold_map_fun call_into_fold [abs_def] Let_def
      split: list.splits)

lemma marked_add: "marked (add_fact sg pk x t) = insert x (marked t)"
  by (cases x) (auto simp: add_fact_def marked_def)

lemma marked_adds: "marked (fold (add_fact sg pk) xs t) = marked t \<union> set xs"
  by (induction xs arbitrary: t) (auto simp: marked_add)

lemma add_fact_alt:
  "add_fact sg pk x t = (if x \<in> marked t then t
     else t\<lparr>facts_at := (facts_at t)(fst x := insert (snd x) (facts_at t (fst x))),
            pred := (x, pk) # pred t, pending := pending t @ [x],
            visited := (case proc_of_node sg (fst x) of None \<Rightarrow> visited t | Some p \<Rightarrow> insert p (visited t))\<rparr>)"
  by (cases x) (simp add: add_fact_def marked_def)

lemma pending_adds:
  "mset (pending (fold (add_fact sg pk) xs t)) = mset (pending t) + mset_set (set xs - marked t)"
proof (induction xs arbitrary: t)
  case (Cons x xs)
  show ?case
  proof (cases "x \<in> marked t")
    case True
    then show ?thesis using Cons.IH [of t] by (simp add: add_fact_alt insert_Diff_if)
  next
    case False
    then have "set (x # xs) - marked t = insert x (set xs - insert x (marked t))" by auto
    with False Cons.IH [of "add_fact sg pk x t"] show ?thesis
      by (simp add: marked_add) (simp add: add_fact_alt)
  qed
qed simp

lemma marked_pending [simp]: "marked (t\<lparr>pending := ps\<rparr>) = marked t"
  by (simp add: marked_def)

interpretation tabulation: worklist "\<lambda>x. set (targets sg spec restrict_to cache x)" marked
    "\<lambda>t. mset (pending t)" "tab_step sg spec restrict_to cache order"
  for sg spec restrict_to cache order
proof
  fix t :: tab
  have "sort_key (item_key order) (pending t) = [] \<longleftrightarrow> pending t = []"
    by (metis length_0_conv length_sort)
  then show "tab_step sg spec restrict_to cache order t = None \<longleftrightarrow> mset (pending t) = {#}"
    by (auto simp: tab_step_alt split: list.splits)
next
  fix t t' assume "tab_step sg spec restrict_to cache order t = Some t'"
  then obtain x rest where s: "sort_key (item_key order) (pending t) = x # rest"
    and t': "t' = fold (add_fact sg (Some x)) (targets sg spec restrict_to cache x) (t\<lparr>pending := rest\<rparr>)"
    by (auto simp: tab_step_alt split: list.splits)
  have "mset (pending t) = add_mset x (mset rest)" using arg_cong [OF s, of mset] by simp
  then show "\<exists>x \<in># mset (pending t). marked t' = marked t \<union> set (targets sg spec restrict_to cache x) \<and>
    mset (pending t') = mset (pending t) - {#x#} + mset_set (set (targets sg spec restrict_to cache x) - marked t)"
    by (intro bexI [of _ x]) (simp_all add: t' marked_adds pending_adds)
qed simp

section \<open>Seeds\<close>

definition seed_items :: "supergraph \<Rightarrow> proc_id set option \<Rightarrow> (node_id \<times> fact list) list \<Rightarrow> item list" where
  "seed_items sg restrict_to sd = concat (map (\<lambda>(v, fs).
     if proc_in_scope restrict_to (proc_of_node sg v) then map (\<lambda>f. (v, f)) (sort fs) else []) sd)"

lemma seed_tab_alt: "seed_tab sg restrict_to sd = fold (add_fact sg None) (seed_items sg restrict_to sd) empty_tab"
proof -
  have "seed_node sg restrict_to = (\<lambda>x. fold (add_fact sg None) (case x of (v, fs) \<Rightarrow>
      if proc_in_scope restrict_to (proc_of_node sg v) then map (\<lambda>f. (v, f)) (sort fs) else []))"
    by (auto simp: seed_node_def fold_map_fun fun_eq_iff split: prod.splits)
  then show ?thesis by (simp add: seed_tab_def seed_items_def fold_concat fold_map_fun)
qed

lemma marked_empty [simp]: "marked empty_tab = {}"
  by (simp add: marked_def empty_tab_def)

lemma seed_tab_start:
  "marked (seed_tab sg restrict_to sd) = set (seed_items sg restrict_to sd)"
  "mset (pending (seed_tab sg restrict_to sd)) = mset_set (set (seed_items sg restrict_to sd))"
  unfolding seed_tab_alt marked_adds pending_adds marked_empty by (simp_all add: empty_tab_def)

lemma set_seed_items:
  "set (seed_items sg restrict_to sd) =
     {(v, f). \<exists>fs. (v, fs) \<in> set sd \<and> f \<in> set fs \<and> proc_in_scope restrict_to (proc_of_node sg v)}"
  by (auto simp: seed_items_def)

section \<open>The predecessor table\<close>

text \<open>
  Every entry is a seed without predecessor, or was reached in one step from an older entry.
\<close>

fun linked :: "item set \<Rightarrow> (item \<Rightarrow> item set) \<Rightarrow> (item \<times> item option) list \<Rightarrow> bool" where
  "linked R S [] \<longleftrightarrow> True"
| "linked R S ((x, p) # ps) \<longleftrightarrow> linked R S ps \<and> x \<notin> fst ` set ps \<and>
     (case p of None \<Rightarrow> x \<in> R | Some y \<Rightarrow> y \<in> fst ` set ps \<and> x \<in> S y)"

definition tab_inv :: "supergraph \<Rightarrow> item set \<Rightarrow> (item \<Rightarrow> item set) \<Rightarrow> tab \<Rightarrow> bool" where
  "tab_inv sg R S t \<longleftrightarrow> fst ` set (pred t) = marked t \<and> linked R S (pred t) \<and>
     set (pending t) \<subseteq> marked t \<and> visited t = {p. \<exists>x \<in> marked t. proc_of_node sg (fst x) = Some p}"

lemma tab_inv_add:
  assumes "tab_inv sg R S t" and "case pk of None \<Rightarrow> x \<in> R | Some y \<Rightarrow> y \<in> marked t \<and> x \<in> S y"
  shows "tab_inv sg R S (add_fact sg pk x t)"
proof (cases "x \<in> marked t")
  case False
  have "visited (add_fact sg pk x t) = {p. \<exists>y \<in> insert x (marked t). proc_of_node sg (fst y) = Some p}"
    using False assms(1) by (auto simp: add_fact_alt tab_inv_def split: option.splits)
  moreover have "fst ` set (pred (add_fact sg pk x t)) = insert x (marked t)"
    "set (pending (add_fact sg pk x t)) \<subseteq> insert x (marked t)" "linked R S (pred (add_fact sg pk x t))"
    using False assms by (auto simp: add_fact_alt tab_inv_def split: option.splits)
  ultimately show ?thesis unfolding tab_inv_def marked_add by blast
qed (use assms in \<open>simp add: add_fact_alt\<close>)

lemma tab_inv_adds:
  assumes "tab_inv sg R S t" and "\<forall>x \<in> set xs. case pk of None \<Rightarrow> x \<in> R | Some y \<Rightarrow> y \<in> marked t \<and> x \<in> S y"
  shows "tab_inv sg R S (fold (add_fact sg pk) xs t)"
  using assms
proof (induction xs arbitrary: t)
  case (Cons x xs)
  have "tab_inv sg R S (add_fact sg pk x t)" using Cons.prems by (intro tab_inv_add) simp_all
  moreover have "\<forall>y \<in> set xs. case pk of None \<Rightarrow> y \<in> R | Some z \<Rightarrow> z \<in> marked (add_fact sg pk x t) \<and> y \<in> S z"
    using Cons.prems(2) by (auto simp: marked_add split: option.splits)
  ultimately show ?case using Cons.IH by simp
qed simp

lemma tab_inv_seed: "tab_inv sg (set (seed_items sg restrict_to sd)) S (seed_tab sg restrict_to sd)"
  unfolding seed_tab_alt by (rule tab_inv_adds) (auto simp: tab_inv_def empty_tab_def marked_def)

lemma tab_inv_step:
  assumes "tab_inv sg R (\<lambda>x. set (targets sg spec restrict_to cache x)) t"
    and "tab_step sg spec restrict_to cache order t = Some t'"
  shows "tab_inv sg R (\<lambda>x. set (targets sg spec restrict_to cache x)) t'"
proof -
  from assms(2) obtain x rest where s: "sort_key (item_key order) (pending t) = x # rest"
    and t': "t' = fold (add_fact sg (Some x)) (targets sg spec restrict_to cache x) (t\<lparr>pending := rest\<rparr>)"
    by (auto simp: tab_step_alt split: list.splits)
  have "set (pending t) = insert x (set rest)" using arg_cong [OF s, of set] by simp
  with assms(1) have "x \<in> marked t" "tab_inv sg R (\<lambda>x. set (targets sg spec restrict_to cache x)) (t\<lparr>pending := rest\<rparr>)"
    by (auto simp: tab_inv_def)
  then show ?thesis unfolding t' by (intro tab_inv_adds) simp_all
qed

section \<open>Witnesses\<close>

definition item_path :: "item set \<Rightarrow> (item \<Rightarrow> item set) \<Rightarrow> item list \<Rightarrow> bool" where
  "item_path R S xs \<longleftrightarrow> xs \<noteq> [] \<and> hd xs \<in> R \<and> successively (\<lambda>x y. y \<in> S x) xs \<and> distinct xs"

lemma item_path_snoc:
  "item_path R S xs \<Longrightarrow> y \<in> S (last xs) \<Longrightarrow> y \<notin> set xs \<Longrightarrow> item_path R S (xs @ [y])"
  by (auto simp: item_path_def successively_append_iff)

lemma backtrack_step:
  "cur \<notin> set seen \<Longrightarrow> backtrack (Suc n) ps (Some cur) seen path =
     backtrack n ps (case map_of ps cur of None \<Rightarrow> None | Some p \<Rightarrow> p) (cur # seen) (path @ [fst cur])"
  by simp

lemma map_of_append_key:
  "x \<notin> fst ` set qs \<Longrightarrow> (m ++ map_of qs) x = m x"
  by (simp add: map_add_dom_app_simps(3) dom_map_of_conv_image_fst)

lemma backtrack_path:
  assumes "linked R S ps" and "x \<in> fst ` set ps"
  shows "\<exists>xs. item_path R S xs \<and> last xs = x \<and> set xs \<subseteq> fst ` set ps \<and>
    (\<forall>qs seen path fuel. fst ` set qs \<inter> fst ` set ps = {} \<longrightarrow> set seen \<inter> fst ` set ps = {} \<longrightarrow>
       length xs \<le> fuel \<longrightarrow>
       backtrack fuel (qs @ ps) (Some x) seen path = Inr (map fst xs @ rev path))"
  using assms
proof (induction ps arbitrary: x)
  case (Cons e ps)
  obtain y p where e: "e = (y, p)" by (cases e)
  from Cons.prems(1) have l: "linked R S ps" and y: "y \<notin> fst ` set ps" by (auto simp: e)
  show ?case
  proof (cases "x = y")
    case False
    then have "x \<in> fst ` set ps" using Cons.prems(2) by (simp add: e)
    from Cons.IH [OF l this] obtain xs where xs: "item_path R S xs" "last xs = x" "set xs \<subseteq> fst ` set ps"
      and b: "\<And>qs seen path fuel. fst ` set qs \<inter> fst ` set ps = {} \<Longrightarrow> set seen \<inter> fst ` set ps = {} \<Longrightarrow>
       length xs \<le> fuel \<Longrightarrow> backtrack fuel (qs @ ps) (Some x) seen path = Inr (map fst xs @ rev path)"
      by blast
    have "backtrack fuel (qs @ e # ps) (Some x) seen path = Inr (map fst xs @ rev path)"
      if "fst ` set qs \<inter> fst ` set (e # ps) = {}" "set seen \<inter> fst ` set (e # ps) = {}" "length xs \<le> fuel"
      for qs seen path fuel
      using b [of "qs @ [e]" seen fuel path] that y by (auto simp: e)
    with xs show ?thesis by (intro exI [of _ xs]) auto
  next
    case True
    show ?thesis
    proof (cases p)
      case None
      have "backtrack fuel (qs @ e # ps) (Some x) seen path = Inr (map fst [x] @ rev path)"
        if "fst ` set qs \<inter> fst ` set (e # ps) = {}" "set seen \<inter> fst ` set (e # ps) = {}" "length [x] \<le> fuel"
        for qs seen path fuel
      proof -
        have "x \<notin> fst ` set qs" "x \<notin> set seen" using that(1,2) by (auto simp: e True)
        with that(3) show ?thesis
          by (cases fuel) (auto simp: map_of_append_key e True None)
      qed
      moreover have "item_path R S [x]" using Cons.prems(1) by (simp add: item_path_def e None True)
      ultimately show ?thesis by (intro exI [of _ "[x]"]) (auto simp: e True)
    next
      case (Some z)
      from Cons.prems(1) have z: "z \<in> fst ` set ps" "x \<in> S z" by (auto simp: e Some True)
      from Cons.IH [OF l z(1)] obtain xs where xs: "item_path R S xs" "last xs = z" "set xs \<subseteq> fst ` set ps"
        and b: "\<And>qs seen path fuel. fst ` set qs \<inter> fst ` set ps = {} \<Longrightarrow> set seen \<inter> fst ` set ps = {} \<Longrightarrow>
         length xs \<le> fuel \<Longrightarrow> backtrack fuel (qs @ ps) (Some z) seen path = Inr (map fst xs @ rev path)"
        by blast
      have "x \<notin> set xs" using xs(3) y True by blast
      then have "item_path R S (xs @ [x])" using item_path_snoc [OF xs(1)] xs(2) z(2) by simp
      moreover have "backtrack fuel (qs @ e # ps) (Some x) seen path = Inr (map fst (xs @ [x]) @ rev path)"
        if lim: "fst ` set qs \<inter> fst ` set (e # ps) = {}" "set seen \<inter> fst ` set (e # ps) = {}"
          "length (xs @ [x]) \<le> fuel" for qs seen path fuel
      proof -
        have "x \<notin> fst ` set qs" "x \<notin> set seen" using lim(1,2) by (auto simp: e True)
        moreover obtain n where "fuel = Suc n" "length xs \<le> n" using lim(3) by (cases fuel) auto
        moreover have "map_of (qs @ e # ps) x = Some (Some z)"
          using calculation(1) by (simp add: map_of_append_key e True Some)
        moreover have "backtrack n ((qs @ [e]) @ ps) (Some z) (x # seen) (path @ [fst x]) =
            Inr (map fst xs @ rev (path @ [fst x]))"
          by (rule b) (use lim(1,2) y True calculation in \<open>auto simp: e\<close>)
        ultimately show ?thesis by (simp add: backtrack_step del: backtrack.simps)
      qed
      ultimately show ?thesis using xs(3) by (intro exI [of _ "xs @ [x]"]) (auto simp: e True)
    qed
  qed
qed simp

lemma witness_path:
  assumes "linked R S ps" and "(v, f) \<in> fst ` set ps"
  shows "\<exists>xs. witness ps v f = Inr (map fst xs) \<and> item_path R S xs \<and> last xs = (v, f)"
proof -
  from backtrack_path [OF assms] obtain xs where xs: "item_path R S xs" "last xs = (v, f)" "set xs \<subseteq> fst ` set ps"
    and b: "\<And>qs seen path fuel. fst ` set qs \<inter> fst ` set ps = {} \<Longrightarrow> set seen \<inter> fst ` set ps = {} \<Longrightarrow>
       length xs \<le> fuel \<Longrightarrow> backtrack fuel (qs @ ps) (Some (v, f)) seen path = Inr (map fst xs @ rev path)"
    by blast
  have "length xs \<le> length ps"
    using xs(1,3) card_mono [of "fst ` set ps" "set xs"] card_image_le [of "set ps" fst] card_length [of ps]
    by (simp add: item_path_def distinct_card)
  with b [of "[]" "[]" "Suc (length ps)" "[]"] xs show ?thesis by (auto simp: witness_def)
qed

section \<open>The fixpoint\<close>

text \<open>One propagation step in terms of the graph, when no summary is spliced.\<close>

definition flow_step :: "cpg \<Rightarrow> spec \<Rightarrow> proc_id set option \<Rightarrow> item \<Rightarrow> item \<Rightarrow> bool" where
  "flow_step g spec restrict_to x y \<longleftrightarrow> snd y = snd x \<and> \<not> sanitized_at spec (node_by_id g (fst x)) \<and>
     (cfg_edge g (fst x) (fst y) \<or>
      call_edge g (fst x) (fst y) \<and> proc_in_scope restrict_to (Some (fst y)))"

definition no_splice :: "proc_id set option \<Rightarrow> summary_cache \<Rightarrow> bool" where
  "no_splice restrict_to cache \<longleftrightarrow>
     (\<forall>p. proc_in_scope restrict_to (Some p) \<longrightarrow> summaries cache p = None)"

lemma set_targets:
  assumes val: "valid_cpg g" and ns: "no_splice restrict_to cache"
  shows "set (targets (build_supergraph g order) spec restrict_to cache x) =
    {y. flow_step g spec restrict_to x y}"
proof -
  note sg = build_supergraph_facts [OF val]
  have ent: "entry (the (procs (build_supergraph g order) p)) = p" if "call_edge g u p" for u p
    using that sg(5) [of order p] sg(6) [of order p] unfolding call_edge_def by (cases "procs (build_supergraph g order) p") auto
  have ex: "exit_facts cache p f = {}" if "proc_in_scope restrict_to (Some p)" for p f
    using ns that by (simp add: no_splice_def exit_facts_def)
  have ct: "set (call_targets (build_supergraph g order) restrict_to cache x p) =
      (if proc_in_scope restrict_to (Some p) then {(p, snd x)} else {})" if "call_edge g (fst x) p" for p
    using ent [OF that] ex by (simp add: call_targets_def)
  show ?thesis
    unfolding targets_def flow_step_def
    using ct by (auto simp: build_supergraph_facts [OF val])
qed

text \<open>Flow from a set of seeds, in any number of steps.\<close>

definition flows :: "cpg \<Rightarrow> spec \<Rightarrow> proc_id set option \<Rightarrow> item \<Rightarrow> item \<Rightarrow> bool" where
  "flows g spec restrict_to = (flow_step g spec restrict_to)\<^sup>*\<^sup>*"

lemma edges_in: "valid_cpg g \<Longrightarrow> cfg_edge g u v \<Longrightarrow> v \<in> set (ids g)"
  by (auto simp: valid_cpg_def cfg_edge_def edge_ok_def)

lemma flow_step_in: "valid_cpg g \<Longrightarrow> flow_step g spec restrict_to x y \<Longrightarrow> fst y \<in> set (ids g)"
  using edges_in method_at_ids by (auto simp: flow_step_def call_edge_def)

lemma tabulate_result:
  fixes order :: "node_id list"
  assumes val: "valid_cpg g" and ns: "no_splice restrict_to cache" and sd: "fst ` set sd \<subseteq> set (ids g)"
  defines "sg \<equiv> build_supergraph g order"
  shows "\<exists>t. tabulate sg spec sd restrict_to cache order' = Inr (t, record_summaries sg t cache) \<and>
    marked t = {y. \<exists>x \<in> set (seed_items sg restrict_to sd). flows g spec restrict_to x y} \<and>
    tab_inv sg (set (seed_items sg restrict_to sd)) (\<lambda>x. {y. flow_step g spec restrict_to x y}) t"
proof -
  let ?S = "set (seed_items sg restrict_to sd)" and ?F = "set (concat (map snd sd))"
  let ?U = "set (ids g) \<times> ?F" and ?n = "length (nodes g) * length (concat (map snd sd))"
  let ?t0 = "seed_tab sg restrict_to sd"
  have tg: "set (targets sg spec restrict_to cache x) = {y. flow_step g spec restrict_to x y}" for x
    unfolding sg_def by (rule set_targets [OF val ns])
  have SU: "?S \<subseteq> ?U" using sd by (force simp: set_seed_items)
  have cl: "set (targets sg spec restrict_to cache x) \<subseteq> ?U" if "x \<in> ?U" for x
    using that flow_step_in [OF val] unfolding tg by (auto simp: flow_step_def)
  have "card ?U \<le> ?n"
    using card_length [of "ids g"] card_length [of "concat (map snd sd)"]
    by (simp add: card_cartesian_product ids_def mult_le_mono)
  moreover have "card ?S + card (?U - ?S) = card ?U"
    using SU by (metis card_Diff_subset card_mono finite_SigmaI finite_set le_add_diff_inverse)
  ultimately have fuel: "size (mset (pending ?t0)) + card (?U - marked ?t0) < Suc ?n"
    unfolding seed_tab_start by simp
  have g: "sg_cpg sg = g" unfolding sg_def by (rule build_supergraph_facts(1) [OF val])
  have "\<exists>t. iterate (Suc ?n) (tab_step sg spec restrict_to cache order') ?t0 = Some t \<and>
     marked t = marked ?t0 \<union> (step_rel (\<lambda>x. set (targets sg spec restrict_to cache x)))\<^sup>+ `` set_mset (mset (pending ?t0))"
  proof (rule tabulation.loop_result [of ?U])
    show "set (targets sg spec restrict_to cache x) \<subseteq> ?U" if "x \<in> ?U \<union> set_mset (mset (pending ?t0))" for x
      using that SU by (intro cl) (auto simp: seed_tab_start)
  qed (use SU fuel in \<open>simp_all add: seed_tab_start\<close>)
  then obtain t where t: "iterate (Suc ?n) (tab_step sg spec restrict_to cache order') ?t0 = Some t"
    and m: "marked t = ?S \<union> (step_rel (\<lambda>x. set (targets sg spec restrict_to cache x)))\<^sup>+ `` ?S"
    by (auto simp: seed_tab_start)
  have "step_rel (\<lambda>x. set (targets sg spec restrict_to cache x)) = {(x, y). flow_step g spec restrict_to x y}"
    by (simp add: step_rel_def tg)
  then have "marked t = {y. \<exists>x \<in> ?S. flows g spec restrict_to x y}"
    unfolding m flows_def
    by (auto simp: rtranclp_rtrancl_eq rtrancl_eq_or_trancl)
  moreover have "tab_inv sg ?S (\<lambda>x. set (targets sg spec restrict_to cache x)) t"
    using iterate_invariant [OF t, of "tab_inv sg ?S (\<lambda>x. set (targets sg spec restrict_to cache x))"]
      tab_inv_seed tab_inv_step by blast
  then have "tab_inv sg ?S (\<lambda>x. {y. flow_step g spec restrict_to x y}) t" unfolding tg .
  moreover have "tabulate sg spec sd restrict_to cache order' = Inr (t, record_summaries sg t cache)"
    using t by (simp add: tabulate_def g)
  ultimately show ?thesis by blast
qed

section \<open>What is seeded\<close>

definition seeds_of :: "(node_id \<times> fact list) list \<Rightarrow> item set" where
  "seeds_of sd = {(v, f). \<exists>fs. (v, fs) \<in> set sd \<and> f \<in> set fs}"

lemma seed_add_facts:
  "seeds_of (seed_add v f d) = insert (v, f) (seeds_of d)"
  "fst ` set (seed_add v f d) = insert v (fst ` set d)"
proof (induction d)
  case (Cons x d)
  obtain u fs where x: "x = (u, fs)" by (cases x)
  have cons: "seeds_of ((u, fs) # d) = {u} \<times> set fs \<union> seeds_of d" for u fs d by (auto simp: seeds_of_def)
  {
    case 1
    show ?case using Cons.IH(1) by (auto simp: x cons)
  next
    case 2
    show ?case using Cons.IH(2) by (auto simp: x)
  }
qed (auto simp: seeds_of_def)

definition source_node :: "spec \<Rightarrow> cpg_node \<Rightarrow> bool" where
  "source_node spec n \<longleftrightarrow> (\<exists>c \<in> set (clauses spec). is_Source c \<and> pattern_matches (pattern c) n)"

definition seeding_inv :: "node_id set \<Rightarrow> seeding \<Rightarrow> bool" where
  "seeding_inv V st \<longleftrightarrow> fst ` seeds_of (seeded st) = V \<and> fst ` set (seeded st) = V \<and>
     (\<forall>x \<in> seeds_of (seeded st). snd x < next_fact st) \<and> inj_on snd (seeds_of (seeded st))"

lemma seed_clause_inv:
  assumes "seeding_inv V st" and "node_id n = v"
  shows "seeding_inv (if pattern_matches (pattern c) n then insert v V else V) (seed_clause n c st)"
proof (cases "pattern_matches (pattern c) n")
  case True
  have "inj_on snd (insert (v, next_fact st) (seeds_of (seeded st)))"
    using assms(1) unfolding seeding_inv_def inj_on_def by fastforce
  with True assms show ?thesis
    by (auto simp: seeding_inv_def seed_clause_def seed_add_facts less_Suc_eq)
qed (use assms in \<open>simp add: seed_clause_def\<close>)

lemma seed_clauses_inv:
  "seeding_inv V st \<Longrightarrow> node_id n = v \<Longrightarrow>
   seeding_inv (if \<exists>c \<in> set cs. pattern_matches (pattern c) n then insert v V else V) (fold (seed_clause n) cs st)"
proof (induction cs arbitrary: V st)
  case (Cons c cs)
  from Cons.IH [OF seed_clause_inv [OF Cons.prems, of c] Cons.prems(2)] show ?case
    by (auto split: if_splits simp: insert_absorb)
qed simp

lemma seed_nodes_inv:
  assumes "set vs \<subseteq> set (ids g)"
  shows "seeding_inv V st \<Longrightarrow>
    seeding_inv (V \<union> {v \<in> set vs. \<exists>c \<in> set cs. pattern_matches (pattern c) (node_by_id g v)})
      (fold (\<lambda>v. fold (seed_clause (node_by_id g v)) cs) vs st)"
  using assms
proof (induction vs arbitrary: V st)
  case (Cons v vs)
  have "node_id (node_by_id g v) = v" using node_by_id_in [of v g] Cons.prems(2) by simp
  from Cons.IH [OF seed_clauses_inv [OF Cons.prems(1) this, of cs]] Cons.prems(2) show ?case
    by (auto split: if_splits elim!: back_subst [of "\<lambda>V. seeding_inv V _"])
qed simp

lemma seed_sources_facts:
  assumes "sg_cpg sg = g"
  shows "fst ` seeds_of (seeded (seed_sources sg spec)) = {v \<in> set (ids g). source_node spec (node_by_id g v)}"
    and "fst ` set (seeded (seed_sources sg spec)) \<subseteq> set (ids g)"
    and "inj_on snd (seeds_of (seeded (seed_sources sg spec)))"
proof -
  have "seeding_inv {} \<lparr>next_fact = 0, seeded = [], fact_pattern = []\<rparr>"
    by (simp add: seeding_inv_def seeds_of_def)
  from seed_nodes_inv [OF _ this, of "sort (remdups (ids g))" g "filter is_Source (clauses spec)"]
  have "seeding_inv {v \<in> set (ids g). source_node spec (node_by_id g v)} (seed_sources sg spec)"
    by (auto simp: seed_sources_def assms source_node_def elim!: back_subst [of "\<lambda>V. seeding_inv V _"])
  then show "fst ` seeds_of (seeded (seed_sources sg spec)) = {v \<in> set (ids g). source_node spec (node_by_id g v)}"
    and "fst ` set (seeded (seed_sources sg spec)) \<subseteq> set (ids g)"
    and "inj_on snd (seeds_of (seeded (seed_sources sg spec)))"
    unfolding seeding_inv_def by auto
qed

end
