(* ===== verification/Ordering.thy ===== *)
theory Ordering
  imports Graph_Encoding
begin

text \<open>
  The canonical-labelling algorithm of \<open>analysis/ordering.py\<close>: colour refinement
  (\<open>_intern\<close>, \<open>_GraphIndex\<close>), the swap certificate, the individualisation search
  \<open>_canonical_search\<close>, the fallback order and \<open>canonical_order\<close> with its provenance fields.
  SHA-256 is a parameter \<open>H\<close> of the definitions that hash.
\<close>

section \<open>Graph index\<close>

record graph_index =
  labels :: "(node_id \<times> bytes) list"
  incoming :: "node_id \<Rightarrow> (bytes \<times> node_id) list"
  outgoing :: "node_id \<Rightarrow> (bytes \<times> node_id) list"
  pairs :: "node_id \<times> node_id \<Rightarrow> bytes list"

type_synonym colours = "(node_id \<times> nat) list"

text \<open>\<open>_intern\<close>: the rank of each signature among the distinct signatures.\<close>

definition intern :: "(node_id \<times> bytes) list \<Rightarrow> colours" where
  "intern sigs = (let ss = remdups (sort (map snd sigs))
                  in map (\<lambda>(v, s). (v, index_of ss s)) sigs)"

text \<open>
  \<open>_GraphIndex.build\<close>. The dictionaries keyed by node start with an empty list at every node
  and \<open>pairs.get(p, ())\<close> reads an absent pair as empty, so all three are total functions.
\<close>

definition index_edge :: "cpg_edge \<Rightarrow> graph_index \<Rightarrow> graph_index bm" where
  "index_edge e ix = m_bind budget_check (\<lambda>_. m_return (
     ix\<lparr>incoming := (incoming ix)(dst e := incoming ix (dst e) @ [(ekind e, src e)]),
        outgoing := (outgoing ix)(src e := outgoing ix (src e) @ [(ekind e, dst e)]),
        pairs := (pairs ix)((src e, dst e) := pairs ix (src e, dst e) @ [ekind e])\<rparr>))"

definition build_index :: "cpg \<Rightarrow> graph_index bm" where
  "build_index g = m_bind (validate_cpg g) (\<lambda>_.
     m_bind (m_lift (r_map (\<lambda>n. r_bind (label n) (\<lambda>l. Inr (node_id n, l))) (nodes g))) (\<lambda>ls.
     m_bind (m_fold index_edge (edges g)
              \<lparr>labels = ls, incoming = (\<lambda>_. []), outgoing = (\<lambda>_. []), pairs = (\<lambda>_. [])\<rparr>) (\<lambda>ix.
     m_return (ix\<lparr>pairs := (\<lambda>p. sort (pairs ix p))\<rparr>))))"

section \<open>Colour refinement\<close>

definition initial_sigs :: "graph_index \<Rightarrow> colours \<Rightarrow> (node_id \<times> bytes) list res" where
  "initial_sigs ix markers = r_map (\<lambda>(v, l).
     r_bind (u64 (int (case map_of markers v of None \<Rightarrow> 0 | Some k \<Rightarrow> k))) (\<lambda>m. Inr (v, l @ m)))
     (labels ix)"

definition neighbour_part :: "bytes \<times> nat \<Rightarrow> bytes res" where
  "neighbour_part x = (case x of (k, c) \<Rightarrow>
     r_bind (u64 (int (length k))) (\<lambda>l. r_bind (u64 (int c)) (\<lambda>cb. Inr (l @ k @ cb))))"

definition adjacency_part :: "colours \<Rightarrow> (bytes \<times> node_id) list \<Rightarrow> bytes res" where
  "adjacency_part colours adj =
     (let neighbours = sort (map (\<lambda>(k, v). (k, dget colours v)) adj)
      in r_bind (u64 (int (length neighbours))) (\<lambda>n.
           r_bind (r_map neighbour_part neighbours) (\<lambda>ps. Inr (n @ concat ps))))"

definition signature :: "graph_index \<Rightarrow> colours \<Rightarrow> node_id \<Rightarrow> bytes res" where
  "signature ix colours v =
     r_bind (u64 (int (dget colours v))) (\<lambda>c.
     r_bind (adjacency_part colours (incoming ix v)) (\<lambda>i.
     r_bind (adjacency_part colours (outgoing ix v)) (\<lambda>j. Inr (c @ i @ j))))"

definition signatures :: "graph_index \<Rightarrow> colours \<Rightarrow> (node_id \<times> bytes) list bm" where
  "signatures ix colours = m_fold (\<lambda>vc acc. m_bind budget_check (\<lambda>_.
     m_lift (r_bind (signature ix colours (fst vc)) (\<lambda>s. Inr (acc @ [(fst vc, s)]))))) colours []"

definition n_colours :: "colours \<Rightarrow> nat" where
  "n_colours cs = card (set (map snd cs))"

fun refine_loop :: "nat \<Rightarrow> graph_index \<Rightarrow> colours \<Rightarrow> colours bm" where
  "refine_loop 0 ix colours = m_lift (Inl OutOfFuel)"
| "refine_loop (Suc fuel) ix colours =
     (if colours = [] then m_return colours
      else m_bind (signatures ix colours) (\<lambda>sigs.
        let refined = intern sigs
        in if n_colours refined = n_colours colours then m_return refined
           else refine_loop fuel ix refined))"

text \<open>Every further round has more colours, of which there are at most as many as nodes.\<close>

definition refine :: "graph_index \<Rightarrow> colours \<Rightarrow> colours bm" where
  "refine ix markers = m_bind (m_lift (initial_sigs ix markers)) (\<lambda>sigs.
     refine_loop (Suc (length (labels ix))) ix (intern sigs))"

section \<open>The swap certificate\<close>

fun swap_others :: "graph_index \<Rightarrow> node_id \<Rightarrow> node_id \<Rightarrow> node_id list \<Rightarrow> bool bm" where
  "swap_others ix a b [] = m_return True"
| "swap_others ix a b (v # vs) = m_bind budget_check (\<lambda>_.
     if v \<noteq> a \<and> v \<noteq> b \<and> (pairs ix (a, v) \<noteq> pairs ix (b, v) \<or> pairs ix (v, a) \<noteq> pairs ix (v, b))
     then m_return False else swap_others ix a b vs)"

definition swap_is_automorphism :: "graph_index \<Rightarrow> node_id \<Rightarrow> node_id \<Rightarrow> bool bm" where
  "swap_is_automorphism ix a b =
     (if dget (labels ix) a \<noteq> dget (labels ix) b then m_return False
      else if pairs ix (a, a) \<noteq> pairs ix (b, b) then m_return False
      else if pairs ix (a, b) \<noteq> pairs ix (b, a) then m_return False
      else swap_others ix a b (map fst (labels ix)))"

section \<open>The search\<close>

definition cell :: "colours \<Rightarrow> nat \<Rightarrow> node_id list" where
  "cell colours c = map fst (filter (\<lambda>vc. snd vc = c) colours)"

definition ambiguous :: "colours \<Rightarrow> (nat \<times> nat) list" where
  "ambiguous colours =
     filter (\<lambda>(n, c). n > 1) (map (\<lambda>c. (length (cell colours c), c)) (remdups (map snd colours)))"

definition order_of :: "colours \<Rightarrow> node_id list" where
  "order_of colours = sort_key (dget colours) (map fst colours)"

text \<open>\<open>any(index.swap_is_automorphism(node, other) for other in representatives)\<close>\<close>

fun any_swap :: "graph_index \<Rightarrow> node_id \<Rightarrow> node_id list \<Rightarrow> bool bm" where
  "any_swap ix v [] = m_return False"
| "any_swap ix v (r # rs) = m_bind (swap_is_automorphism ix v r) (\<lambda>s.
     if s then m_return True else any_swap ix v rs)"

definition representatives :: "graph_index \<Rightarrow> node_id list \<Rightarrow> node_id list bm" where
  "representatives ix vs = m_fold (\<lambda>v reps. m_bind (any_swap ix v reps) (\<lambda>s.
     m_return (if s then reps else reps @ [v]))) (sort vs) []"

text \<open>
  The stack \<open>pending\<close> has its top first: pushing the reversed representatives and popping from
  the end visits them in their own order. \<open>best\<close> compares (encoding, order) pairs.
\<close>

definition push_reps ::
  "node_id list \<Rightarrow> colours \<Rightarrow> colours list \<Rightarrow> colours list bm" where
  "push_reps reps markers pending =
     m_fold (\<lambda>v ps. m_bind budget_check (\<lambda>_. m_return ((markers @ [(v, length markers + 1)]) # ps)))
       (rev reps) pending"

fun search_loop ::
  "nat \<Rightarrow> cpg \<Rightarrow> graph_index \<Rightarrow> colours list \<Rightarrow> (bytes \<times> node_id list) option \<Rightarrow>
   (bytes \<times> node_id list) option bm" where
  "search_loop fuel g ix [] best = m_return best"
| "search_loop 0 g ix (markers # pending) best = m_lift (Inl OutOfFuel)"
| "search_loop (Suc fuel) g ix (markers # pending) best =
     m_bind enter_state (\<lambda>_.
     m_bind (refine ix markers) (\<lambda>colours.
     if ambiguous colours = [] then
       let order = order_of colours
       in m_bind (encode_graph g order) (\<lambda>enc.
            search_loop fuel g ix pending
              (case best of None \<Rightarrow> Some (enc, order)
               | Some bst \<Rightarrow> if (enc, order) < bst then Some (enc, order) else best))
     else
       let target = snd (Min (set (ambiguous colours)))
       in m_bind (representatives ix (cell colours target)) (\<lambda>reps.
          m_bind (push_reps reps markers pending) (\<lambda>pending'.
            search_loop fuel g ix pending' best))))"

text \<open>Each round enters a state, and at most \<open>state_limit\<close> states can be entered.\<close>

definition canonical_search :: "cpg \<Rightarrow> graph_index \<Rightarrow> (node_id list \<times> bytes) bm" where
  "canonical_search g ix b =
     m_bind (search_loop (Suc (state_limit b - search_states b)) g ix [[]] None) (\<lambda>best.
       m_lift (case best of Some (enc, order) \<Rightarrow> Inr (order, enc) | None \<Rightarrow> Inl AssertionError)) b"

section \<open>Fallback and entry point\<close>

definition incident :: "cpg \<Rightarrow> node_id \<Rightarrow> string list" where
  "incident g v = concat (map (\<lambda>e.
     (if src e = v then [ekind e] else []) @ (if dst e = v then [ekind e] else [])) (edges g))"

definition stable_order_fallback :: "(bytes \<Rightarrow> bytes) \<Rightarrow> cpg \<Rightarrow> node_id list res" where
  "stable_order_fallback H g =
     r_bind (r_map (\<lambda>n. r_bind (label n) (\<lambda>l.
       Inr ((H (enclosing_decl_fqn n), structural_path n, sort (incident g (node_id n)), l, node_id n), n)))
       (nodes g)) (\<lambda>ks.
     Inr (map (\<lambda>kn. node_id (snd kn)) (sort_key fst ks)))"

datatype fingerprint_class = Strong | Weak

record canonical_order_result =
  canonical_order_of :: "node_id list"
  cpg_order_hash :: bytes
  fingerprint_class_of :: fingerprint_class
  annotation :: string
  budget_exhausted :: bool
  elapsed :: real
  identity_namespace :: string
  budget_policy :: string
  states_entered :: nat

definition CPG_ORDER_HASH_ANNOTATION :: string where
  "CPG_ORDER_HASH_ANNOTATION = ''canonical iff fingerprint_class = strong''"
definition GRAPH_IDENTITY_NAMESPACE :: string where
  "GRAPH_IDENTITY_NAMESPACE = ''scanipy-canonical-graph/2''"
definition BUDGET_POLICY :: string where
  "BUDGET_POLICY = ''scanipy-budget-policy/2''"
definition DEFAULT_B :: int where
  "DEFAULT_B = 2 ^ 16"
definition DEFAULT_T :: real where
  "DEFAULT_T = 1 / 5"

definition order_domain :: "fingerprint_class \<Rightarrow> bytes" where
  "order_domain k = (case k of Strong \<Rightarrow> ''SCANIPY-CPG-STRONG/2'' | Weak \<Rightarrow> ''SCANIPY-CPG-WEAK/2'')
     @ [CHR 0x0A]"

text \<open>The \<open>try\<close> block of \<open>canonical_order\<close>: only \<open>BudgetExhausted\<close> is caught.\<close>

definition order_attempt ::
  "(bytes \<Rightarrow> bytes) \<Rightarrow> cpg \<Rightarrow> graph_index \<Rightarrow> (fingerprint_class \<times> node_id list \<times> bytes) bm" where
  "order_attempt H g ix b =
     (case canonical_search g ix b of
        (Inr (order, enc), b') \<Rightarrow> (Inr (Strong, order, enc), b')
      | (Inl e, b') \<Rightarrow>
          if e = BudgetExhausted then
            m_bind budget_check (\<lambda>_.
            m_bind (m_lift (stable_order_fallback H g)) (\<lambda>order.
            m_bind (encode_graph g order) (\<lambda>enc. m_return (Weak, order, enc)))) b'
          else (Inl e, b'))"

definition canonical_order_run :: "(bytes \<Rightarrow> bytes) \<Rightarrow> cpg \<Rightarrow> canonical_order_result bm" where
  "canonical_order_run H g =
     m_bind (build_index g) (\<lambda>ix.
     m_bind (order_attempt H g ix) (\<lambda>(klass, order, enc).
     m_bind elapsed_ms (\<lambda>ms.
     m_bind budget_check (\<lambda>_ b.
       (Inr \<lparr>canonical_order_of = order, cpg_order_hash = H (order_domain klass @ enc),
             fingerprint_class_of = klass, annotation = CPG_ORDER_HASH_ANNOTATION,
             budget_exhausted = (klass = Weak), elapsed = ms,
             identity_namespace = GRAPH_IDENTITY_NAMESPACE, budget_policy = BUDGET_POLICY,
             states_entered = search_states b\<rparr>, b)))))"

definition canonical_order ::
  "(bytes \<Rightarrow> bytes) \<Rightarrow> (nat \<Rightarrow> real) \<Rightarrow> int \<Rightarrow> real \<Rightarrow> cpg \<Rightarrow> canonical_order_result res" where
  "canonical_order H clk B T g =
     r_bind (budget_start B T clk) (\<lambda>b. fst (canonical_order_run H g b))"

section \<open>Provenance fields\<close>

definition class_name :: "fingerprint_class \<Rightarrow> string" where
  "class_name k = (case k of Strong \<Rightarrow> ''strong'' | Weak \<Rightarrow> ''weak'')"

definition to_provenance_fields :: "canonical_order_result \<Rightarrow> (string \<times> string) list" where
  "to_provenance_fields r =
     [(''cpg_order_hash'', hex (cpg_order_hash r)),
      (''cpg_order_hash_annotation'', CPG_ORDER_HASH_ANNOTATION),
      (''fingerprint_class'', class_name (fingerprint_class_of r)),
      (''cpg_order_namespace'', identity_namespace r),
      (''canonicalization_budget_policy'', budget_policy r)]"

definition to_sarif_properties :: "canonical_order_result \<Rightarrow> (string \<times> string) list" where
  "to_sarif_properties r = to_provenance_fields r"

definition to_auditor_export_fields :: "canonical_order_result \<Rightarrow> (string \<times> string) list" where
  "to_auditor_export_fields r = to_provenance_fields r"

end
