(* ===== verification/Tables.thy ===== *)
theory Tables
  imports Ordering
begin

text \<open>
  Dictionaries keyed by the nodes of a graph and what they are up to a renumbering of the
  nodes: the vocabulary of the invariance proofs about \<open>analysis/ordering.py\<close>.
\<close>

definition on_keys :: "'k set \<Rightarrow> ('k \<times> 'v) list \<Rightarrow> bool" where
  "on_keys V d \<longleftrightarrow> distinct (map fst d) \<and> set (map fst d) = V"

text \<open>Two tables say the same, up to the renumbering \<open>f\<close> of the keys.\<close>

definition same_table :: "('k \<Rightarrow> 'l) \<Rightarrow> 'k set \<Rightarrow> ('k \<times> 'v) list \<Rightarrow> ('l \<times> 'v) list \<Rightarrow> bool" where
  "same_table f V d d' \<longleftrightarrow> on_keys V d \<and> on_keys (f ` V) d' \<and> (\<forall>v \<in> V. dget d' (f v) = dget d v)"

lemma on_keys_dget: "on_keys V d \<Longrightarrow> (v, x) \<in> set d \<Longrightarrow> v \<in> V \<and> dget d v = x"
  by (auto simp: on_keys_def dget_def image_iff) force

lemma on_keys_mem: "on_keys V d \<Longrightarrow> v \<in> V \<Longrightarrow> (v, dget d v) \<in> set d"
proof -
  assume "on_keys V d" "v \<in> V"
  then obtain x where "(v, x) \<in> set d" by (auto simp: on_keys_def)
  with on_keys_dget [OF \<open>on_keys V d\<close>] show ?thesis by auto
qed

lemma on_keys_values: "on_keys V d \<Longrightarrow> set (map snd d) = dget d ` V"
  by (auto simp: image_iff dest: on_keys_dget on_keys_mem) (metis on_keys_dget on_keys_mem snd_conv)+

lemma on_keys_finite: "on_keys V d \<Longrightarrow> finite V \<and> card V = length d"
  by (metis distinct_card length_map finite_set on_keys_def)

lemma same_table_values:
  assumes "same_table f V d d'"
  shows "set (map snd d') = set (map snd d)"
proof -
  have "set (map snd d') = dget d' ` f ` V" and "set (map snd d) = dget d ` V"
    using assms on_keys_values unfolding same_table_def by blast+
  with assms show ?thesis by (simp add: image_image same_table_def del: set_map)
qed

lemma on_keys_map_fst: "map fst d = map fst e \<Longrightarrow> on_keys V d = on_keys V e"
  by (simp add: on_keys_def)

section \<open>Interning\<close>

lemma remdups_sort_set: "set xs = set ys \<Longrightarrow> remdups (sort xs) = remdups (sort (ys :: 'a::linorder list))"
proof (rule sorted_distinct_set_unique)
  show "sorted (remdups (sort xs))" "sorted (remdups (sort ys))"
    by (simp_all add: sorted_remdups)
qed simp_all

lemma intern_keys: "map fst (intern s) = map fst s"
  by (auto simp: intern_def Let_def case_prod_unfold)

lemma intern_on_keys: "on_keys V (intern s) \<longleftrightarrow> on_keys V s"
  by (rule on_keys_map_fst) (rule intern_keys)

lemma intern_dget:
  assumes "on_keys V s" and "v \<in> V"
  shows "dget (intern s) v = index_of (remdups (sort (map snd s))) (dget s v)"
proof -
  from assms have "(v, dget s v) \<in> set s" by (rule on_keys_mem)
  then have "(v, index_of (remdups (sort (map snd s))) (dget s v)) \<in> set (intern s)"
    by (force simp: intern_def Let_def)
  with on_keys_dget [of V "intern s"] assms(1) show ?thesis by (auto simp: intern_on_keys)
qed

lemma intern_eq_iff:
  assumes "on_keys V s" and "u \<in> V" and "v \<in> V"
  shows "dget (intern s) u = dget (intern s) v \<longleftrightarrow> dget s u = dget s v"
proof -
  have "dget s w \<in> set (remdups (sort (map snd s)))" if "w \<in> V" for w
    using on_keys_mem [OF assms(1) that] by force
  with assms show ?thesis by (simp add: intern_dget index_of_inj)
qed

lemma intern_same_table: "same_table f V s s' \<Longrightarrow> same_table f V (intern s) (intern s')"
proof -
  assume st: "same_table f V s s'"
  have "remdups (sort (map snd s')) = remdups (sort (map snd s))"
    by (rule remdups_sort_set) (rule same_table_values [OF st])
  with st show ?thesis
    by (auto simp: same_table_def intern_on_keys intern_dget)
qed

lemma n_colours_same_table: "same_table f V c c' \<Longrightarrow> n_colours c' = n_colours c"
  by (simp add: n_colours_def same_table_values del: set_map)

section \<open>Tables filled by a loop over the keys\<close>

definition tabulated :: "('k \<Rightarrow> 'v res) \<Rightarrow> 'k list \<Rightarrow> ('k \<times> 'v) list res" where
  "tabulated F vs = r_map (\<lambda>v. r_bind (F v) (\<lambda>x. Inr (v, x))) vs"

lemma tabulated_Inr:
  assumes "distinct vs"
  shows "tabulated F vs = Inr t \<longleftrightarrow> on_keys (set vs) t \<and> map fst t = vs \<and> (\<forall>v \<in> set vs. F v = Inr (dget t v))"
  using assms
proof (induction vs arbitrary: t)
  case Nil
  then show ?case by (auto simp: tabulated_def on_keys_def)
next
  case (Cons v vs)
  have "tabulated F (v # vs) = Inr t \<longleftrightarrow>
      (\<exists>x t'. t = (v, x) # t' \<and> F v = Inr x \<and> tabulated F vs = Inr t')"
    by (auto simp: tabulated_def r_bind_Inr_iff)
  also have "\<dots> \<longleftrightarrow> (\<exists>x t'. t = (v, x) # t' \<and> F v = Inr x \<and> map fst t' = vs \<and>
      (\<forall>u \<in> set vs. F u = Inr (dget t' u)))"
    using Cons.IH Cons.prems by (auto simp: on_keys_def)
  also have "\<dots> \<longleftrightarrow> map fst t = v # vs \<and> (\<forall>u \<in> set (v # vs). F u = Inr (dget t u))"
    using Cons.prems by (auto simp: dget_def Cons_eq_map_conv map_eq_Cons_conv)
  also have "\<dots> \<longleftrightarrow> on_keys (set (v # vs)) t \<and> map fst t = v # vs \<and> (\<forall>u \<in> set (v # vs). F u = Inr (dget t u))"
    using Cons.prems by (metis on_keys_def)
  finally show ?case .
qed

lemma tabulated_total: "(\<And>v. v \<in> set vs \<Longrightarrow> \<exists>x. F v = Inr x) \<Longrightarrow> \<exists>t. tabulated F vs = Inr t"
  by (induction vs) (auto simp: tabulated_def, fastforce)

lemma tabulated_same_table:
  assumes "tabulated F vs = Inr t" and "distinct vs" and "distinct vs'" and "set vs' = f ` set vs"
    and "\<And>v. v \<in> set vs \<Longrightarrow> F' (f v) = F v"
  shows "\<exists>t'. tabulated F' vs' = Inr t' \<and> same_table f (set vs) t t'"
proof -
  note t = assms(1) [unfolded tabulated_Inr [OF assms(2)]]
  have "\<exists>x. F' w = Inr x" if "w \<in> set vs'" for w
    using that assms(4,5) t by auto
  then obtain t' where t': "tabulated F' vs' = Inr t'" using tabulated_total by metis
  note t'' = t' [unfolded tabulated_Inr [OF assms(3)]]
  have "dget t' (f v) = dget t v" if "v \<in> set vs" for v
  proof -
    have "F' (f v) = Inr (dget t' (f v))" using t'' that assms(4) by blast
    with t that assms(5) show ?thesis by force
  qed
  with t t' t'' assms(4) show ?thesis by (auto simp: same_table_def)
qed

end
