(* ===== verification/Refinement.thy ===== *)
theory Refinement
  imports Tables
begin

text \<open>
  Colour refinement of \<open>analysis/ordering.py\<close>: the index that \<open>_GraphIndex.build\<close> makes, that
  \<open>refine\<close> always stops, that it never merges nodes its starting colours separate, and that
  renumbering the graph renumbers its result and changes nothing else.
\<close>

section \<open>The index of a graph\<close>

definition graph_ix :: "cpg \<Rightarrow> graph_index" where
  "graph_ix g = \<lparr>labels = map (\<lambda>n. (node_id n, fields_of (label_fields n))) (nodes g),
     incoming = (\<lambda>v. map (\<lambda>e. (ekind e, src e)) (filter (\<lambda>e. dst e = v) (edges g))),
     outgoing = (\<lambda>v. map (\<lambda>e. (ekind e, dst e)) (filter (\<lambda>e. src e = v) (edges g))),
     pairs = (\<lambda>p. sort (map ekind (filter (\<lambda>e. (src e, dst e) = p) (edges g))))\<rparr>"

definition index_edge_of :: "cpg_edge \<Rightarrow> graph_index \<Rightarrow> graph_index" where
  "index_edge_of e ix =
     ix\<lparr>incoming := (incoming ix)(dst e := incoming ix (dst e) @ [(ekind e, src e)]),
        outgoing := (outgoing ix)(src e := outgoing ix (src e) @ [(ekind e, dst e)]),
        pairs := (pairs ix)((src e, dst e) := pairs ix (src e, dst e) @ [ekind e])\<rparr>"

lemma r_fold_pure: "r_fold (\<lambda>x a. Inr (f x a)) xs a = Inr (fold f xs a)"
  by (induction xs arbitrary: a) auto

lemma prompt_index_edge: "prompt (index_edge e ix) (Inr (index_edge_of e ix))"
  unfolding index_edge_def index_edge_of_def by (intro prompt_check_then prompt_return)

lemma fold_index_edges:
  "fold index_edge_of es ix =
     ix\<lparr>incoming := (\<lambda>v. incoming ix v @ map (\<lambda>e. (ekind e, src e)) (filter (\<lambda>e. dst e = v) es)),
        outgoing := (\<lambda>v. outgoing ix v @ map (\<lambda>e. (ekind e, dst e)) (filter (\<lambda>e. src e = v) es)),
        pairs := (\<lambda>p. pairs ix p @ map ekind (filter (\<lambda>e. (src e, dst e) = p) es))\<rparr>"
  by (induction es arbitrary: ix) (auto simp: index_edge_of_def fun_eq_iff)

lemma labels_res:
  assumes "valid_cpg g"
  shows "r_map (\<lambda>n. r_bind (label n) (\<lambda>l. Inr (node_id n, l))) (nodes g) = Inr (labels (graph_ix g))"
proof -
  have "label n = Inr (fields_of (label_fields n))" if "n \<in> set (nodes g)" for n
    using that assms by (auto simp: label_Inr valid_cpg_def node_ok_def)
  then show ?thesis by (subst r_map_total) (auto simp: graph_ix_def)
qed

lemma prompt_build:
  "prompt (build_index g) (r_bind (check_cpg g) (\<lambda>_. Inr (graph_ix g)))"
  unfolding build_index_def
proof (rule prompt_bind [OF prompt_validate])
  fix u
  assume "check_cpg g = Inr u"
  then have val: "valid_cpg g" by (simp add: check_cpg_Inr)
  let ?ix0 = "\<lparr>labels = labels (graph_ix g), incoming = \<lambda>_. [], outgoing = \<lambda>_. [], pairs = \<lambda>_. []\<rparr>"
  have "prompt (m_bind (m_lift (Inr (labels (graph_ix g)))) (\<lambda>ls.
      m_bind (m_fold index_edge (edges g)
               \<lparr>labels = ls, incoming = (\<lambda>_. []), outgoing = (\<lambda>_. []), pairs = (\<lambda>_. [])\<rparr>) (\<lambda>ix.
      m_return (ix\<lparr>pairs := (\<lambda>p. sort (pairs ix p))\<rparr>))))
    (r_bind (Inr (labels (graph_ix g))) (\<lambda>ls. r_bind (r_fold (\<lambda>e ix. Inr (index_edge_of e ix)) (edges g)
               \<lparr>labels = ls, incoming = (\<lambda>_. []), outgoing = (\<lambda>_. []), pairs = (\<lambda>_. [])\<rparr>)
      (\<lambda>ix. Inr (ix\<lparr>pairs := (\<lambda>p. sort (pairs ix p))\<rparr>))))"
    by (intro prompt_bind prompt_lift prompt_fold prompt_index_edge prompt_return)
  then show "prompt (m_bind (m_lift (r_map (\<lambda>n. r_bind (label n) (\<lambda>l. Inr (node_id n, l))) (nodes g))) (\<lambda>ls.
      m_bind (m_fold index_edge (edges g)
               \<lparr>labels = ls, incoming = (\<lambda>_. []), outgoing = (\<lambda>_. []), pairs = (\<lambda>_. [])\<rparr>) (\<lambda>ix.
      m_return (ix\<lparr>pairs := (\<lambda>p. sort (pairs ix p))\<rparr>)))) (Inr (graph_ix g))"
    unfolding labels_res [OF val]
    by (simp add: r_fold_pure fold_index_edges graph_ix_def)
qed

lemma labels_keys: "map fst (labels (graph_ix g)) = ids g"
  by (simp add: graph_ix_def ids_def o_def)

lemma labels_on_keys: "valid_cpg g \<Longrightarrow> on_keys (set (ids g)) (labels (graph_ix g))"
  unfolding on_keys_def labels_keys by (simp add: valid_cpg_def)

lemma labels_dget:
  assumes "valid_cpg g" and "v \<in> set (ids g)"
  shows "dget (labels (graph_ix g)) v = fields_of (label_fields (node_by_id g v))"
proof -
  from node_by_id_in [OF assms(2)]
  have "(v, fields_of (label_fields (node_by_id g v))) \<in> set (labels (graph_ix g))"
    by (force simp: graph_ix_def)
  with on_keys_dget [OF labels_on_keys [OF assms(1)]] show ?thesis by blast
qed

lemma adjacency_ids:
  assumes "valid_cpg g" and "(k, u) \<in> set (incoming (graph_ix g) v) \<union> set (outgoing (graph_ix g) v)"
  shows "u \<in> set (ids g)"
  using assms by (auto simp: graph_ix_def valid_cpg_def edge_ok_def)

section \<open>Refinement without the budget\<close>

definition signatures_res :: "graph_index \<Rightarrow> colours \<Rightarrow> (node_id \<times> bytes) list res" where
  "signatures_res ix colours = tabulated (signature ix colours) (map fst colours)"

fun refine_loop_res :: "nat \<Rightarrow> graph_index \<Rightarrow> colours \<Rightarrow> colours res" where
  "refine_loop_res 0 ix colours = Inl OutOfFuel"
| "refine_loop_res (Suc fuel) ix colours =
     (if colours = [] then Inr colours
      else r_bind (signatures_res ix colours) (\<lambda>sigs.
        let refined = intern sigs
        in if n_colours refined = n_colours colours then Inr refined
           else refine_loop_res fuel ix refined))"

definition refine_res :: "graph_index \<Rightarrow> colours \<Rightarrow> colours res" where
  "refine_res ix markers = r_bind (initial_sigs ix markers) (\<lambda>sigs.
     refine_loop_res (Suc (length (labels ix))) ix (intern sigs))"

lemma r_fold_append:
  "r_fold (\<lambda>x acc. r_bind (h x) (\<lambda>y. Inr (acc @ [y]))) xs acc =
     r_bind (r_map h xs) (\<lambda>ys. Inr (acc @ ys))"
proof (induction xs arbitrary: acc)
  case (Cons x xs)
  show ?case
  proof (cases "h x")
    case (Inr y)
    then show ?thesis by (simp add: Cons.IH) (cases "r_map h xs"; simp)
  qed simp
qed simp

lemma prompt_signatures: "prompt (signatures ix colours) (signatures_res ix colours)"
proof -
  let ?h = "\<lambda>vc. r_bind (signature ix colours (fst vc)) (\<lambda>s. Inr (fst vc, s))"
  have "prompt (signatures ix colours)
      (r_fold (\<lambda>vc acc. r_bind (signature ix colours (fst vc)) (\<lambda>s. Inr (acc @ [(fst vc, s)]))) colours [])"
    unfolding signatures_def by (intro prompt_fold prompt_check_then prompt_lift)
  moreover have "r_fold (\<lambda>vc acc. r_bind (signature ix colours (fst vc)) (\<lambda>s. Inr (acc @ [(fst vc, s)]))) colours []
      = r_fold (\<lambda>vc acc. r_bind (?h vc) (\<lambda>y. Inr (acc @ [y]))) colours []"
    by (rule r_fold_cong) (simp add: r_bind_def split: sum.splits)
  moreover have "\<dots> = signatures_res ix colours"
    unfolding r_fold_append signatures_res_def tabulated_def r_map_map
    by (simp add: r_bind_def split: sum.splits)
  ultimately show ?thesis by simp
qed

lemma prompt_refine_loop: "prompt (refine_loop fuel ix colours) (refine_loop_res fuel ix colours)"
proof (induction fuel arbitrary: colours)
  case 0
  show ?case unfolding refine_loop.simps refine_loop_res.simps by (rule prompt_lift)
next
  case (Suc fuel)
  show ?case
    unfolding refine_loop.simps refine_loop_res.simps Let_def
    by (intro prompt_if prompt_bind prompt_signatures prompt_return Suc.IH)
qed

lemma prompt_refine [prompt_intro]: "prompt (refine ix markers) (refine_res ix markers)"
  unfolding refine_def refine_res_def by (intro prompt_bind prompt_lift prompt_refine_loop)

section \<open>Rounds only separate\<close>

lemma signature_colour:
  assumes "signature ix cs u = Inr s" and "signature ix cs v = Inr s"
  shows "dget cs u = dget cs v"
proof -
  from assms obtain x y where "dget cs u < 2 ^ 64" "dget cs v < 2 ^ 64"
    and "be8 (dget cs u) @ x = s" "be8 (dget cs v) @ y = s"
    unfolding signature_def r_bind_Inr_iff u64_nat by auto
  then show ?thesis using word_frame.frame by metis
qed

lemma signatures_res_Inr:
  assumes "on_keys V cs" and "signatures_res ix cs = Inr sigs"
  shows "on_keys V sigs \<and> map fst sigs = map fst cs \<and> (\<forall>v \<in> V. signature ix cs v = Inr (dget sigs v))"
  using assms tabulated_Inr [of "map fst cs" "signature ix cs" sigs]
  by (simp add: signatures_res_def on_keys_def)

lemma round_separates:
  assumes "on_keys V cs" and "signatures_res ix cs = Inr sigs" and "u \<in> V" "v \<in> V"
    and "dget (intern sigs) u = dget (intern sigs) v"
  shows "dget cs u = dget cs v"
proof -
  note s = signatures_res_Inr [OF assms(1,2)]
  then have "dget sigs u = dget sigs v"
    using intern_eq_iff [of V sigs u v] assms(3-5) by blast
  with s assms(3,4) show ?thesis by (metis signature_colour)
qed

lemma refine_loop_Inr:
  assumes "on_keys V cs" and "refine_loop_res fuel ix cs = Inr cs'"
  shows "on_keys V cs' \<and> map fst cs' = map fst cs \<and>
    (\<forall>u \<in> V. \<forall>v \<in> V. dget cs' u = dget cs' v \<longrightarrow> dget cs u = dget cs v)"
  using assms
proof (induction fuel arbitrary: cs)
  case (Suc fuel)
  show ?case
  proof (cases "cs = []")
    case False
    with Suc.prems(2) obtain sigs where s: "signatures_res ix cs = Inr sigs"
      and r: "(if n_colours (intern sigs) = n_colours cs then Inr (intern sigs)
           else refine_loop_res fuel ix (intern sigs)) = Inr cs'"
      by (auto simp: r_bind_Inr_iff Let_def)
    note si = signatures_res_Inr [OF Suc.prems(1) s]
    then have k: "on_keys V (intern sigs)" "map fst (intern sigs) = map fst cs"
      by (simp_all add: intern_on_keys intern_keys)
    note sep = round_separates [OF Suc.prems(1) s]
    show ?thesis
    proof (cases "n_colours (intern sigs) = n_colours cs")
      case True
      with r have "cs' = intern sigs" by simp
      with k sep show ?thesis by blast
    next
      case False
      with r have "refine_loop_res fuel ix (intern sigs) = Inr cs'" by simp
      from Suc.IH [OF k(1) this] k(2) sep show ?thesis by metis
    qed
  qed (use Suc.prems in simp)
qed simp

section \<open>Refinement stops\<close>

lemma n_colours_le: "n_colours cs \<le> length cs"
  unfolding n_colours_def using card_length [of "map snd cs"] by simp

lemma n_colours_round:
  assumes "on_keys V cs" and "signatures_res ix cs = Inr sigs"
  shows "n_colours cs \<le> n_colours (intern sigs)"
proof -
  have k: "on_keys V (intern sigs)"
    using signatures_res_Inr [OF assms] by (simp add: intern_on_keys)
  have fin: "finite V" using on_keys_finite [OF assms(1)] by simp
  let ?h = "\<lambda>c. dget cs (SOME v. v \<in> V \<and> dget (intern sigs) v = c)"
  have "?h (dget (intern sigs) v) = dget cs v" if "v \<in> V" for v
  proof -
    have "\<exists>w. w \<in> V \<and> dget (intern sigs) w = dget (intern sigs) v" using that by blast
    from someI_ex [OF this] show ?thesis using round_separates [OF assms] that by blast
  qed
  then have "dget cs ` V = ?h ` (dget (intern sigs) ` V)" by (force simp: image_image)
  then have "card (dget cs ` V) \<le> card (dget (intern sigs) ` V)"
    using card_image_le [of "dget (intern sigs) ` V" ?h] fin by simp
  then show ?thesis
    unfolding n_colours_def using on_keys_values [OF assms(1)] on_keys_values [OF k] by simp
qed

lemma refine_loop_enough:
  assumes "on_keys V cs" and "length cs < fuel + n_colours cs"
  shows "refine_loop_res fuel ix cs \<noteq> Inl OutOfFuel"
  using assms
proof (induction fuel arbitrary: cs)
  case 0
  then show ?case using n_colours_le [of cs] by simp
next
  case (Suc fuel)
  have sig: "value_error_only (signatures_res ix cs)"
    unfolding signatures_res_def tabulated_def signature_def adjacency_part_def neighbour_part_def Let_def
    by (auto intro!: verr split: prod.splits)
  show ?case
  proof (cases "signatures_res ix cs")
    case (Inl e)
    with sig show ?thesis by (auto simp: value_error_only_def)
  next
    case (Inr sigs)
    note si = signatures_res_Inr [OF Suc.prems(1) Inr]
    then have k: "on_keys V (intern sigs)" and l: "length (intern sigs) = length cs"
      by (simp_all add: intern_on_keys) (metis intern_keys length_map)
    from n_colours_round [OF Suc.prems(1) Inr] Suc.prems(2) l
    have "n_colours (intern sigs) \<noteq> n_colours cs \<Longrightarrow> length (intern sigs) < fuel + n_colours (intern sigs)"
      by linarith
    with Suc.IH [OF k] Inr show ?thesis by (simp add: Let_def)
  qed
qed

lemma initial_sigs_tabulated:
  assumes "on_keys V (labels ix)"
  shows "initial_sigs ix m = tabulated (\<lambda>v. r_bind (u64 (int (case map_of m v of None \<Rightarrow> 0 | Some k \<Rightarrow> k)))
     (\<lambda>b. Inr (dget (labels ix) v @ b))) (map fst (labels ix))"
  unfolding initial_sigs_def tabulated_def r_map_map
proof (rule r_map_cong [OF refl])
  fix x assume "x \<in> set (labels ix)"
  with on_keys_dget [OF assms] have "dget (labels ix) (fst x) = snd x"
    by (metis prod.collapse)
  then show "(case x of (v, l) \<Rightarrow> r_bind (u64 (int (case map_of m v of None \<Rightarrow> 0 | Some k \<Rightarrow> k)))
        (\<lambda>b. Inr (v, l @ b))) =
     r_bind (r_bind (u64 (int (case map_of m (fst x) of None \<Rightarrow> 0 | Some k \<Rightarrow> k)))
        (\<lambda>b. Inr (dget (labels ix) (fst x) @ b))) (\<lambda>y. Inr (fst x, y))"
    by (simp add: case_prod_unfold r_bind_def split: sum.splits)
qed

definition marker :: "colours \<Rightarrow> node_id \<Rightarrow> nat" where
  "marker m v = (case map_of m v of None \<Rightarrow> 0 | Some k \<Rightarrow> k)"

lemma initial_sigs_Inr:
  assumes "on_keys V (labels ix)" and "initial_sigs ix m = Inr sigs"
  shows "on_keys V sigs \<and> map fst sigs = map fst (labels ix) \<and> (\<forall>v \<in> V. marker m v < 2 ^ 64 \<and>
    dget sigs v = dget (labels ix) v @ be8 (marker m v))"
proof -
  have d: "distinct (map fst (labels ix))" "set (map fst (labels ix)) = V"
    using assms(1) by (simp_all add: on_keys_def)
  from assms(2) [unfolded initial_sigs_tabulated [OF assms(1)] tabulated_Inr [OF d(1)]] d(2)
  show ?thesis
    unfolding marker_def [symmetric] by (auto simp: r_bind_Inr_iff u64_nat simp del: power_numeral)
qed

lemma refine_enough:
  assumes "on_keys V (labels ix)"
  shows "refine_res ix m \<noteq> Inl OutOfFuel"
proof (cases "initial_sigs ix m")
  case (Inl e)
  have "value_error_only (initial_sigs ix m)"
    unfolding initial_sigs_def by (auto intro!: verr split: prod.splits)
  with Inl show ?thesis by (auto simp: refine_res_def value_error_only_def)
next
  case (Inr sigs)
  note s = initial_sigs_Inr [OF assms Inr]
  have l: "length (intern sigs) = length (labels ix)"
    using s by (metis intern_keys length_map)
  have "refine_loop_res (Suc (length (labels ix))) ix (intern sigs) \<noteq> Inl OutOfFuel"
    by (rule refine_loop_enough [of V]) (use s l in \<open>simp_all add: intern_on_keys\<close>)
  with Inr show ?thesis by (simp add: refine_res_def)
qed

text \<open>Nodes that end up with one colour started with one label and one marker.\<close>

lemma refine_Inr:
  assumes "on_keys V (labels ix)" and "refine_res ix m = Inr cs"
  shows "on_keys V cs \<and> (\<forall>u \<in> V. \<forall>v \<in> V. dget cs u = dget cs v \<longrightarrow>
     dget (labels ix) u = dget (labels ix) v \<and> marker m u = marker m v)"
proof -
  from assms(2) obtain sigs where s: "initial_sigs ix m = Inr sigs"
    and r: "refine_loop_res (Suc (length (labels ix))) ix (intern sigs) = Inr cs"
    by (auto simp: refine_res_def r_bind_Inr_iff simp del: refine_loop_res.simps)
  note si = initial_sigs_Inr [OF assms(1) s]
  then have k: "on_keys V (intern sigs)" by (simp add: intern_on_keys)
  note l = refine_loop_Inr [OF k r]
  have "dget (labels ix) u = dget (labels ix) v \<and> marker m u = marker m v"
    if "u \<in> V" "v \<in> V" "dget cs u = dget cs v" for u v
  proof -
    from l that have "dget (intern sigs) u = dget (intern sigs) v" by blast
    then have "dget sigs u = dget sigs v"
      using intern_eq_iff [of V sigs u v] si that by blast
    then have "dget (labels ix) u @ be8 (marker m u) = dget (labels ix) v @ be8 (marker m v)"
      using si that by simp
    then have "dget (labels ix) u = dget (labels ix) v \<and> be8 (marker m u) = be8 (marker m v)" by simp
    with si that show ?thesis using be8_inj by blast
  qed
  with l show ?thesis by blast
qed

section \<open>Renumbering\<close>

definition adjacency_iso ::
  "(node_id \<Rightarrow> node_id) \<Rightarrow> node_id set \<Rightarrow> (node_id \<Rightarrow> (bytes \<times> node_id) list) \<Rightarrow>
   (node_id \<Rightarrow> (bytes \<times> node_id) list) \<Rightarrow> bool" where
  "adjacency_iso f V adj adj' \<longleftrightarrow> (\<forall>v \<in> V.
     mset (adj' (f v)) = image_mset (\<lambda>(k, u). (k, f u)) (mset (adj v)) \<and> snd ` set (adj v) \<subseteq> V)"

definition index_iso :: "(node_id \<Rightarrow> node_id) \<Rightarrow> node_id set \<Rightarrow> graph_index \<Rightarrow> graph_index \<Rightarrow> bool" where
  "index_iso f V ix ix' \<longleftrightarrow> inj_on f V \<and> same_table f V (labels ix) (labels ix') \<and>
     adjacency_iso f V (incoming ix) (incoming ix') \<and> adjacency_iso f V (outgoing ix) (outgoing ix')"

definition ren :: "(node_id \<Rightarrow> node_id) \<Rightarrow> colours \<Rightarrow> colours" where
  "ren f m = map (\<lambda>(v, k). (f v, k)) m"

lemma ren_simps [simp]:
  "ren f [] = []" "length (ren f m) = length m" "ren f (m @ m') = ren f m @ ren f m'"
  "ren f [(v, k)] = [(f v, k)]"
  by (simp_all add: ren_def)

lemma map_of_ren:
  assumes "inj_on f V" and "v \<in> V"
  shows "fst ` set m \<subseteq> V \<Longrightarrow> map_of (ren f m) (f v) = map_of m v"
proof (induction m)
  case (Cons x m)
  moreover obtain u k where "x = (u, k)" by (cases x)
  ultimately show ?case using assms inj_on_eq_iff [OF assms(1), of u v] by (auto simp: ren_def)
qed (simp add: ren_def)

lemma adjacency_part_iso:
  assumes "same_table f V cs cs'" and "mset adj' = image_mset (\<lambda>(k, u). (k, f u)) (mset adj)"
    and "snd ` set adj \<subseteq> V"
  shows "adjacency_part cs' adj' = adjacency_part cs adj"
proof -
  have "mset (map (\<lambda>(k, v). (k, dget cs' v)) adj') =
      image_mset (\<lambda>(k, v). (k, dget cs' v)) (image_mset (\<lambda>(k, u). (k, f u)) (mset adj))"
    using assms(2) by simp
  also have "\<dots> = image_mset (\<lambda>(k, v). (k, dget cs v)) (mset adj)"
    unfolding multiset.map_comp
    by (rule image_mset_cong) (use assms(1,3) in \<open>auto simp: same_table_def\<close>)
  finally have "mset (map (\<lambda>(k, v). (k, dget cs' v)) adj') = mset (map (\<lambda>(k, v). (k, dget cs v)) adj)"
    by simp
  from sort_eq_of_mset [OF this] show ?thesis by (simp add: adjacency_part_def)
qed

lemma signature_iso:
  assumes "index_iso f V ix ix'" and "same_table f V cs cs'" and "v \<in> V"
  shows "signature ix' cs' (f v) = signature ix cs v"
proof -
  have "adjacency_part cs' (incoming ix' (f v)) = adjacency_part cs (incoming ix v)"
    "adjacency_part cs' (outgoing ix' (f v)) = adjacency_part cs (outgoing ix v)"
    using assms(1,3) by (simp_all add: index_iso_def adjacency_iso_def adjacency_part_iso [OF assms(2)])
  moreover have "dget cs' (f v) = dget cs v" using assms(2,3) by (simp add: same_table_def)
  ultimately show ?thesis by (simp add: signature_def)
qed

lemma same_table_keys:
  assumes "same_table f V d d'"
  shows "distinct (map fst d)" "distinct (map fst d')" "set (map fst d') = f ` set (map fst d)"
    "set (map fst d) = V"
  using assms unfolding same_table_def on_keys_def by simp_all

lemma signatures_iso:
  assumes "index_iso f V ix ix'" and st: "same_table f V cs cs'" and "signatures_res ix cs = Inr sigs"
  shows "\<exists>sigs'. signatures_res ix' cs' = Inr sigs' \<and> same_table f V sigs sigs'"
proof -
  note k = same_table_keys [OF st]
  have "\<exists>sigs'. tabulated (signature ix' cs') (map fst cs') = Inr sigs' \<and>
      same_table f (set (map fst cs)) sigs sigs'"
    by (rule tabulated_same_table [where F = "signature ix cs"])
      (use assms k signature_iso [OF assms(1) st] in \<open>simp_all add: signatures_res_def\<close>)
  then show ?thesis unfolding k(4) by (simp add: signatures_res_def)
qed

lemma refine_loop_iso:
  assumes "index_iso f V ix ix'" and "same_table f V cs cs'" and "refine_loop_res fuel ix cs = Inr r"
  shows "\<exists>r'. refine_loop_res fuel ix' cs' = Inr r' \<and> same_table f V r r'"
  using assms(2,3)
proof (induction fuel arbitrary: cs cs')
  case (Suc fuel)
  have emp: "cs' = [] \<longleftrightarrow> cs = []"
    using same_table_keys [OF Suc.prems(1)] by fastforce
  show ?case
  proof (cases "cs = []")
    case True
    with Suc.prems emp show ?thesis by simp
  next
    case False
    with Suc.prems(2) obtain sigs where s: "signatures_res ix cs = Inr sigs"
      and r: "(if n_colours (intern sigs) = n_colours cs then Inr (intern sigs)
           else refine_loop_res fuel ix (intern sigs)) = Inr r"
      by (auto simp: r_bind_Inr_iff Let_def)
    from signatures_iso [OF assms(1) Suc.prems(1) s] obtain sigs' where
      s': "signatures_res ix' cs' = Inr sigs'" and st: "same_table f V sigs sigs'" by blast
    note it = intern_same_table [OF st]
    have n: "n_colours (intern sigs') = n_colours cs' \<longleftrightarrow> n_colours (intern sigs) = n_colours cs"
      using n_colours_same_table [OF it] n_colours_same_table [OF Suc.prems(1)] by simp
    show ?thesis
    proof (cases "n_colours (intern sigs) = n_colours cs")
      case True
      with r have "r = intern sigs" by simp
      with True n s' it False emp show ?thesis by (simp add: Let_def)
    next
      case neq: False
      with r have "refine_loop_res fuel ix (intern sigs) = Inr r" by simp
      from Suc.IH [OF it this] neq n s' False emp show ?thesis by (simp add: Let_def)
    qed
  qed
qed simp

lemma initial_sigs_iso:
  assumes ix: "index_iso f V ix ix'" and "fst ` set m \<subseteq> V" and "initial_sigs ix m = Inr sigs"
  shows "\<exists>sigs'. initial_sigs ix' (ren f m) = Inr sigs' \<and> same_table f V sigs sigs'"
proof -
  let ?F = "\<lambda>ix m v. r_bind (u64 (int (case map_of m v of None \<Rightarrow> 0 | Some k \<Rightarrow> k)))
     (\<lambda>b. Inr (dget (labels ix) v @ b))"
  have st: "same_table f V (labels ix) (labels ix')" and inj: "inj_on f V"
    using ix by (simp_all add: index_iso_def)
  note k = same_table_keys [OF st]
  have on: "on_keys V (labels ix)" "on_keys (f ` V) (labels ix')"
    using st by (simp_all add: same_table_def)
  have F: "?F ix' (ren f m) (f v) = ?F ix m v" if "v \<in> V" for v
    using that st map_of_ren [OF inj that assms(2)] by (simp add: same_table_def)
  have "\<exists>sigs'. tabulated (?F ix' (ren f m)) (map fst (labels ix')) = Inr sigs' \<and>
      same_table f (set (map fst (labels ix))) sigs sigs'"
    by (rule tabulated_same_table [where F = "?F ix m"])
      (use assms(3) k F in \<open>simp_all add: initial_sigs_tabulated [OF on(1)]\<close>)
  then show ?thesis unfolding k(4) initial_sigs_tabulated [OF on(2)] .
qed

lemma refine_iso:
  assumes ix: "index_iso f V ix ix'" and m: "fst ` set m \<subseteq> V" and r: "refine_res ix m = Inr cs"
  shows "\<exists>cs'. refine_res ix' (ren f m) = Inr cs' \<and> same_table f V cs cs'"
proof -
  from r obtain sigs where s: "initial_sigs ix m = Inr sigs"
    and l: "refine_loop_res (Suc (length (labels ix))) ix (intern sigs) = Inr cs"
    by (auto simp: refine_res_def r_bind_Inr_iff simp del: refine_loop_res.simps)
  from initial_sigs_iso [OF ix m s] obtain sigs' where s': "initial_sigs ix' (ren f m) = Inr sigs'"
    and st: "same_table f V sigs sigs'" by blast
  have len: "length (labels ix') = length (labels ix)"
  proof -
    have "on_keys V (labels ix)" "on_keys (f ` V) (labels ix')" "inj_on f V"
      using ix by (simp_all add: index_iso_def same_table_def)
    then show ?thesis using on_keys_finite card_image by metis
  qed
  from refine_loop_iso [OF ix intern_same_table [OF st] l] s' len show ?thesis
    by (simp add: refine_res_def del: refine_loop_res.simps)
qed

lemma graph_ix_iso:
  assumes iso: "graph_iso f g h" and "valid_cpg g" and "valid_cpg h"
  shows "index_iso f (set (ids g)) (graph_ix g) (graph_ix h)"
proof -
  let ?V = "set (ids g)"
  have inj: "inj_on f ?V" and img: "f ` ?V = set (ids h)"
    using iso by (simp_all add: graph_iso_def bij_betw_def)
  have lab: "same_table f ?V (labels (graph_ix g)) (labels (graph_ix h))"
  proof -
    have "dget (labels (graph_ix h)) (f v) = dget (labels (graph_ix g)) v" if "v \<in> ?V" for v
      using that iso img assms(2,3) by (subst (1 2) labels_dget) (auto simp: graph_iso_def)
    then show ?thesis unfolding same_table_def img using labels_on_keys assms(2,3) by blast
  qed
  have edges: "edge_triples h = image_mset (\<lambda>(k, s, d). (k, f s, f d)) (edge_triples g)"
    using iso by (simp add: graph_iso_def)
  have ends: "s \<in> ?V \<and> d \<in> ?V" if "(k, s, d) \<in># edge_triples g" for k s d
    using edge_triples_ends [OF assms(2) that] .
  have inc: "mset (incoming (graph_ix g') v) =
      image_mset (\<lambda>(k, s, d). (k, s)) (filter_mset (\<lambda>(k, s, d). d = v) (edge_triples g'))" for g' v
    by (simp add: graph_ix_def edge_triples_def filter_map o_def flip: mset_filter mset_map)
  have out: "mset (outgoing (graph_ix g') v) =
      image_mset (\<lambda>(k, s, d). (k, d)) (filter_mset (\<lambda>(k, s, d). s = v) (edge_triples g'))" for g' v
    by (simp add: graph_ix_def edge_triples_def filter_map o_def flip: mset_filter mset_map)
  have "mset (incoming (graph_ix h) (f v)) = image_mset (\<lambda>(k, u). (k, f u)) (mset (incoming (graph_ix g) v))"
    if "v \<in> ?V" for v
  proof -
    have "filter_mset ((\<lambda>(k, s, d). d = f v) \<circ> (\<lambda>(k, s, d). (k, f s, f d))) (edge_triples g) =
        filter_mset (\<lambda>(k, s, d). d = v) (edge_triples g)"
      by (rule filter_mset_cong) (use that inj ends in \<open>auto dest: inj_onD\<close>)
    then show ?thesis
      unfolding inc edges filter_mset_image_mset multiset.map_comp
      by (simp add: o_def case_prod_unfold)
  qed
  moreover have "mset (outgoing (graph_ix h) (f v)) = image_mset (\<lambda>(k, u). (k, f u)) (mset (outgoing (graph_ix g) v))"
    if "v \<in> ?V" for v
  proof -
    have "filter_mset ((\<lambda>(k, s, d). s = f v) \<circ> (\<lambda>(k, s, d). (k, f s, f d))) (edge_triples g) =
        filter_mset (\<lambda>(k, s, d). s = v) (edge_triples g)"
      by (rule filter_mset_cong) (use that inj ends in \<open>auto dest: inj_onD\<close>)
    then show ?thesis
      unfolding out edges filter_mset_image_mset multiset.map_comp
      by (simp add: o_def case_prod_unfold)
  qed
  moreover have "snd ` set (incoming (graph_ix g) v) \<subseteq> ?V" "snd ` set (outgoing (graph_ix g) v) \<subseteq> ?V" for v
    using adjacency_ids [OF assms(2)] by (force simp: image_subset_iff)+
  ultimately show ?thesis
    using inj lab by (simp add: index_iso_def adjacency_iso_def)
qed

end
