(* ===== verification/Canonical_Search.thy ===== *)
theory Canonical_Search
  imports Refinement
begin

text \<open>
  What \<open>_canonical_search\<close> of \<open>analysis/ordering.py\<close> computes. The full individualisation tree
  has one branch per node of the target cell; its leaves carry encodings. The set of leaf
  encodings is the same for isomorphic graphs. The code visits a pruned tree, in which a branch
  is skipped when a certified swap maps it to a visited one; pruning loses no leaf encoding, so
  a search that runs to its end returns the least encoding of the full tree.
\<close>

section \<open>Cells\<close>

lemma cell_facts:
  assumes "on_keys V cs"
  shows "set (cell cs c) = {v \<in> V. dget cs v = c}" and "distinct (cell cs c)"
proof -
  show "set (cell cs c) = {v \<in> V. dget cs v = c}"
  proof (rule set_eqI)
    fix v
    have "v \<in> set (cell cs c) \<longleftrightarrow> (v, c) \<in> set cs" by (force simp: cell_def)
    then show "v \<in> set (cell cs c) \<longleftrightarrow> v \<in> {v \<in> V. dget cs v = c}"
      using on_keys_dget [OF assms, of v c] on_keys_mem [OF assms, of v] by blast
  qed
  show "distinct (cell cs c)"
    using assms by (simp add: cell_def on_keys_def distinct_map_filter)
qed

lemma cell_length:
  assumes "on_keys V cs"
  shows "length (cell cs c) = card {v \<in> V. dget cs v = c}"
  using cell_facts [OF assms, of c] by (metis distinct_card)

lemma set_ambiguous:
  assumes "on_keys V cs"
  shows "set (ambiguous cs) = {(n, c). c \<in> dget cs ` V \<and> n = card {v \<in> V. dget cs v = c} \<and> n > 1}"
  using on_keys_values [OF assms] by (auto simp: ambiguous_def cell_length [OF assms] simp del: set_map)
    (auto simp: image_iff)

lemma ambiguous_Nil_inj:
  assumes "on_keys V cs"
  shows "ambiguous cs = [] \<longleftrightarrow> inj_on (dget cs) V"
proof
  assume amb: "ambiguous cs = []"
  show "inj_on (dget cs) V"
  proof (rule inj_onI, rule ccontr)
    fix u v
    assume uv: "u \<in> V" "v \<in> V" "dget cs u = dget cs v" "u \<noteq> v"
    let ?C = "{w \<in> V. dget cs w = dget cs u}"
    have "finite ?C" using on_keys_finite [OF assms] by simp
    then have "card {u, v} \<le> card ?C" using uv by (intro card_mono) auto
    then have "(card ?C, dget cs u) \<in> set (ambiguous cs)"
      using uv by (simp add: set_ambiguous [OF assms])
    with amb show False by simp
  qed
next
  assume inj: "inj_on (dget cs) V"
  have "card {v \<in> V. dget cs v = c} \<le> 1" for c
  proof -
    have "{v \<in> V. dget cs v = c} \<subseteq> {THE v. v \<in> V \<and> dget cs v = c}"
      using inj by (auto simp: inj_on_def intro!: the_equality [symmetric])
    then show ?thesis by (metis card_mono card.empty card_insert_disjoint empty_iff finite.intros One_nat_def)
  qed
  then have "set (ambiguous cs) = {}"
    unfolding set_ambiguous [OF assms] by (auto simp: not_less)
  then show "ambiguous cs = []" by simp
qed

definition target_cell :: "colours \<Rightarrow> node_id list" where
  "target_cell cs = cell cs (snd (Min (set (ambiguous cs))))"

lemma target_cell_facts:
  assumes "on_keys V cs" and "ambiguous cs \<noteq> []"
  shows "set (target_cell cs) \<subseteq> V" and "length (target_cell cs) > 1" and "distinct (target_cell cs)"
    and "\<And>u v. u \<in> set (target_cell cs) \<Longrightarrow> v \<in> set (target_cell cs) \<Longrightarrow> dget cs u = dget cs v"
proof -
  have "Min (set (ambiguous cs)) \<in> set (ambiguous cs)" using assms(2) by (intro Min_in) auto
  then show "length (target_cell cs) > 1"
    by (auto simp: target_cell_def ambiguous_def)
qed (use cell_facts [OF assms(1)] in \<open>auto simp: target_cell_def\<close>)

section \<open>Renumbering cells and orders\<close>

lemma fibre_iso:
  assumes "same_table f V cs cs'"
  shows "{w \<in> f ` V. dget cs' w = c} = f ` {v \<in> V. dget cs v = c}"
  using assms by (auto simp: same_table_def)

lemma ambiguous_iso:
  assumes "same_table f V cs cs'" and "inj_on f V"
  shows "set (ambiguous cs') = set (ambiguous cs)"
proof -
  have on: "on_keys V cs" "on_keys (f ` V) cs'" using assms by (simp_all add: same_table_def)
  have "card {w \<in> f ` V. dget cs' w = c} = card {v \<in> V. dget cs v = c}" for c
    unfolding fibre_iso [OF assms(1)]
    by (rule card_image) (rule inj_on_subset [OF assms(2)], blast)
  moreover have "dget cs' ` f ` V = dget cs ` V"
    using assms(1) by (simp add: same_table_def image_image)
  ultimately show ?thesis unfolding set_ambiguous [OF on(1)] set_ambiguous [OF on(2)] by simp
qed

lemma target_cell_iso:
  assumes "same_table f V cs cs'" and "inj_on f V"
  shows "set (target_cell cs') = f ` set (target_cell cs)"
proof -
  have on: "on_keys V cs" "on_keys (f ` V) cs'" using assms by (simp_all add: same_table_def)
  show ?thesis
    unfolding target_cell_def ambiguous_iso [OF assms] cell_facts(1) [OF on(1)] cell_facts(1) [OF on(2)]
    by (rule fibre_iso [OF assms(1)])
qed

lemma order_of_facts:
  assumes "on_keys V cs"
  shows "set (order_of cs) = V" "distinct (order_of cs)" "sorted (map (dget cs) (order_of cs))"
  using assms by (simp_all add: order_of_def on_keys_def)

lemma order_of_iso:
  assumes st: "same_table f V cs cs'" and "inj_on f V" and amb: "ambiguous cs = []"
  shows "order_of cs' = map f (order_of cs)"
proof -
  have on: "on_keys V cs" "on_keys (f ` V) cs'" using st by (simp_all add: same_table_def)
  have amb': "ambiguous cs' = []" using ambiguous_iso [OF st assms(2)] amb by simp
  have inj: "inj_on (dget cs) V" "inj_on (dget cs') (f ` V)"
    using ambiguous_Nil_inj on amb amb' by blast+
  note o = order_of_facts [OF on(1)] and o' = order_of_facts [OF on(2)]
  have eq: "map (dget cs') (map f (order_of cs)) = map (dget cs) (order_of cs)"
    using st o(1) by (simp add: same_table_def)
  have "distinct (map (dget cs) (order_of cs))"
    using o inj(1) by (simp add: distinct_map)
  moreover have "distinct (map (dget cs') (order_of cs'))"
    using o' inj(2) by (simp add: distinct_map)
  ultimately show ?thesis
    by (intro map_sorted_distinct_set_unique [where f = "dget cs'"])
      (unfold eq, use o o' inj in simp_all)
qed

section \<open>The full tree\<close>

inductive leaf :: "cpg \<Rightarrow> nat \<Rightarrow> colours \<Rightarrow> bytes \<Rightarrow> bool" for g where
  leaf_done: "refine_res (graph_ix g) m = Inr cs \<Longrightarrow> ambiguous cs = [] \<Longrightarrow>
    encode_res g (order_of cs) = Inr e \<Longrightarrow> leaf g 0 m e"
| leaf_branch: "refine_res (graph_ix g) m = Inr cs \<Longrightarrow> ambiguous cs \<noteq> [] \<Longrightarrow>
    v \<in> set (target_cell cs) \<Longrightarrow> leaf g d (m @ [(v, length m + 1)]) e \<Longrightarrow> leaf g (Suc d) m e"

lemma leaf_iso:
  assumes "leaf g d m e" and iso: "graph_iso f g h" and val: "valid_cpg g" "valid_cpg h"
    and "fst ` set m \<subseteq> set (ids g)"
  shows "leaf h d (ren f m) e"
  using assms(1,5)
proof (induction rule: leaf.induct)
  case (leaf_done m cs e)
  note ix = graph_ix_iso [OF iso val]
  have on: "on_keys (set (ids g)) cs"
    using refine_Inr [OF labels_on_keys [OF val(1)] leaf_done.hyps(1)] by blast
  from refine_iso [OF ix leaf_done.prems leaf_done.hyps(1)] obtain cs' where
    r: "refine_res (graph_ix h) (ren f m) = Inr cs'" and st: "same_table f (set (ids g)) cs cs'" by blast
  have inj: "inj_on f (set (ids g))" by (rule graph_iso_inj [OF iso])
  have "ambiguous cs' = []" using ambiguous_iso [OF st inj] leaf_done.hyps(2) by simp
  moreover have "encode_res h (order_of cs') = Inr e"
    unfolding order_of_iso [OF st inj leaf_done.hyps(2)]
    by (rule encode_res_iso [OF iso val _ leaf_done.hyps(3)])
      (use leaf_done.hyps(3) in \<open>simp add: encode_res_Inr\<close>)
  ultimately show ?case using r leaf.leaf_done by blast
next
  case (leaf_branch m cs v d e)
  note ix = graph_ix_iso [OF iso val]
  have on: "on_keys (set (ids g)) cs"
    using refine_Inr [OF labels_on_keys [OF val(1)] leaf_branch.hyps(1)] by blast
  from refine_iso [OF ix leaf_branch.prems leaf_branch.hyps(1)] obtain cs' where
    r: "refine_res (graph_ix h) (ren f m) = Inr cs'" and st: "same_table f (set (ids g)) cs cs'" by blast
  have inj: "inj_on f (set (ids g))" by (rule graph_iso_inj [OF iso])
  have "ambiguous cs' \<noteq> []" using ambiguous_iso [OF st inj] leaf_branch.hyps(2) by auto
  moreover have "f v \<in> set (target_cell cs')"
    using target_cell_iso [OF st inj] leaf_branch.hyps(3) by blast
  moreover have "leaf h d (ren f m @ [(f v, length (ren f m) + 1)]) e"
  proof -
    have "v \<in> set (ids g)" using target_cell_facts(1) [OF on leaf_branch.hyps(2)] leaf_branch.hyps(3) by blast
    then have "fst ` set (m @ [(v, length m + 1)]) \<subseteq> set (ids g)" using leaf_branch.prems by simp
    from leaf_branch.IH [OF this] show ?thesis by simp
  qed
  ultimately show ?case using r leaf.leaf_branch by blast
qed

section \<open>The swap certificate is an automorphism\<close>

definition swap_ok :: "graph_index \<Rightarrow> node_id \<Rightarrow> node_id \<Rightarrow> bool" where
  "swap_ok ix a b \<longleftrightarrow> dget (labels ix) a = dget (labels ix) b \<and>
     pairs ix (a, a) = pairs ix (b, b) \<and> pairs ix (a, b) = pairs ix (b, a) \<and>
     (\<forall>v \<in> set (map fst (labels ix)). v \<noteq> a \<and> v \<noteq> b \<longrightarrow>
        pairs ix (a, v) = pairs ix (b, v) \<and> pairs ix (v, a) = pairs ix (v, b))"

lemma prompt_swap_others:
  "prompt (swap_others ix a b vs) (Inr (\<forall>v \<in> set vs. v \<noteq> a \<and> v \<noteq> b \<longrightarrow>
     pairs ix (a, v) = pairs ix (b, v) \<and> pairs ix (v, a) = pairs ix (v, b)))"
proof (induction vs)
  case Nil
  show ?case by (simp only: swap_others.simps) (rule prompt_eq [OF prompt_return], simp)
next
  case (Cons v vs)
  show ?case
    unfolding swap_others.simps
    by (rule prompt_check_then, rule prompt_eq [OF prompt_if [OF prompt_return Cons.IH]]) auto
qed

lemma prompt_swap: "prompt (swap_is_automorphism ix a b) (Inr (swap_ok ix a b))"
  unfolding swap_is_automorphism_def
  by (rule prompt_eq [OF prompt_if [OF prompt_return prompt_if [OF prompt_return
        prompt_if [OF prompt_return prompt_swap_others]]]]) (auto simp: swap_ok_def)

definition swap :: "node_id \<Rightarrow> node_id \<Rightarrow> node_id \<Rightarrow> node_id" where
  "swap a b v = (if v = a then b else if v = b then a else v)"

lemma swap_simps [simp]: "swap a b a = b" "swap a b b = a" "swap a b (swap a b v) = v"
  by (auto simp: swap_def)

lemma swap_bij: "a \<in> V \<Longrightarrow> b \<in> V \<Longrightarrow> bij_betw (swap a b) V V"
  by (rule bij_betw_byWitness [where f' = "swap a b"]) (auto simp: swap_def)

lemma swap_eq_iff: "swap a b v = w \<longleftrightarrow> v = swap a b w"
  by (auto simp: swap_def)

lemma count_image_swap:
  "count (image_mset (\<lambda>(k, s, d). (k, swap a b s, swap a b d)) M) (k, s, d) =
     count M (k, swap a b s, swap a b d)"
proof (induction M)
  case (add x M)
  then show ?case by (cases x) (auto simp: swap_eq_iff)
qed simp

lemma pairs_count:
  "count (mset (pairs (graph_ix g) (u, v))) k = count (edge_triples g) (k, u, v)"
proof -
  have "count (mset (map ekind (filter (\<lambda>e. (src e, dst e) = (u, v)) es))) k =
      count (mset (map (\<lambda>e. (ekind e, src e, dst e)) es)) (k, u, v)" for es
    by (induction es) auto
  then show ?thesis by (simp add: graph_ix_def edge_triples_def)
qed

lemma swap_ok_pairs:
  assumes "swap_ok (graph_ix g) a b" and "u \<in> set (ids g)" and "v \<in> set (ids g)"
  shows "pairs (graph_ix g) (swap a b u, swap a b v) = pairs (graph_ix g) (u, v)"
proof -
  have k: "set (map fst (labels (graph_ix g))) = set (ids g)" by (simp only: labels_keys)
  have o: "pairs (graph_ix g) (a, w) = pairs (graph_ix g) (b, w) \<and>
      pairs (graph_ix g) (w, a) = pairs (graph_ix g) (w, b)" if "w \<in> set (ids g)" "w \<noteq> a" "w \<noteq> b" for w
    using assms(1) that unfolding swap_ok_def k by blast
  from assms(1) have ab: "pairs (graph_ix g) (a, a) = pairs (graph_ix g) (b, b)"
    "pairs (graph_ix g) (a, b) = pairs (graph_ix g) (b, a)" by (simp_all add: swap_ok_def)
  have s: "swap a b a = b" "swap a b b = a" "\<And>w. w \<noteq> a \<Longrightarrow> w \<noteq> b \<Longrightarrow> swap a b w = w"
    by (auto simp: swap_def)
  consider "u = a" | "u = b" | "u \<noteq> a" "u \<noteq> b" by blast
  then show ?thesis
    by cases (metis s ab o [OF assms(2)] o [OF assms(3)])+
qed

lemma swap_ok_iso:
  assumes "valid_cpg g" and "swap_ok (graph_ix g) a b" and "a \<in> set (ids g)" and "b \<in> set (ids g)"
  shows "graph_iso (swap a b) g g"
proof -
  let ?V = "set (ids g)"
  have bij: "bij_betw (swap a b) ?V ?V" using assms(3,4) by (rule swap_bij)
  have lab_ab: "label_fields (node_by_id g a) = label_fields (node_by_id g b)"
  proof (rule label_frame.enc_inj)
    show "fields_of (label_fields (node_by_id g a)) = fields_of (label_fields (node_by_id g b))"
      using assms(2) labels_dget [OF assms(1)] assms(3,4) by (simp add: swap_ok_def)
  qed (use node_by_id_in [of a g] node_by_id_in [of b g] assms in \<open>auto simp: valid_cpg_def node_ok_def\<close>)
  have "image_mset (\<lambda>(k, s, d). (k, swap a b s, swap a b d)) (edge_triples g) = edge_triples g"
  proof (rule multiset_eqI)
    fix x :: "string \<times> node_id \<times> node_id"
    obtain k s d where x: "x = (k, s, d)" by (cases x)
    show "count (image_mset (\<lambda>(k, s, d). (k, swap a b s, swap a b d)) (edge_triples g)) x = count (edge_triples g) x"
    proof (cases "s \<in> ?V \<and> d \<in> ?V")
      case True
      then show ?thesis
        unfolding x count_image_swap pairs_count [symmetric] using swap_ok_pairs [OF assms(2)] by simp
    next
      case False
      then have "swap a b s \<notin> ?V \<or> swap a b d \<notin> ?V" using assms(3,4) by (auto simp: swap_def)
      then have "(k, swap a b s, swap a b d) \<notin># edge_triples g" "(k, s, d) \<notin># edge_triples g"
        using False edge_triples_ends [OF assms(1)] by blast+
      then show ?thesis unfolding x count_image_swap by (simp add: not_in_iff)
    qed
  qed
  moreover have "label_fields (node_by_id g (swap a b v)) = label_fields (node_by_id g v)" for v
    using lab_ab by (simp add: swap_def)
  ultimately show ?thesis using bij by (simp add: graph_iso_def)
qed

section \<open>Representatives\<close>

definition reps_of :: "graph_index \<Rightarrow> node_id list \<Rightarrow> node_id list" where
  "reps_of ix vs = fold (\<lambda>v reps. if \<exists>r \<in> set reps. swap_ok ix v r then reps else reps @ [v]) (sort vs) []"

lemma prompt_any_swap: "prompt (any_swap ix v rs) (Inr (\<exists>r \<in> set rs. swap_ok ix v r))"
proof (induction rs)
  case Nil
  show ?case by (simp only: any_swap.simps) (rule prompt_eq [OF prompt_return], simp)
next
  case (Cons r rs)
  have "prompt (any_swap ix v (r # rs)) (r_bind (Inr (swap_ok ix v r)) (\<lambda>s.
      if s then Inr True else Inr (\<exists>r \<in> set rs. swap_ok ix v r)))"
    unfolding any_swap.simps by (intro prompt_bind prompt_swap prompt_if prompt_return Cons.IH)
  then show ?case by (rule prompt_eq) auto
qed

lemma prompt_representatives [prompt_intro]: "prompt (representatives ix vs) (Inr (reps_of ix vs))"
proof -
  have "prompt (m_bind (any_swap ix v reps) (\<lambda>s. m_return (if s then reps else reps @ [v])))
      (Inr (if \<exists>r \<in> set reps. swap_ok ix v r then reps else reps @ [v]))" for v reps
    by (rule prompt_eq [OF prompt_bind [OF prompt_any_swap prompt_return]]) simp
  then have "prompt (representatives ix vs)
      (r_fold (\<lambda>v reps. Inr (if \<exists>r \<in> set reps. swap_ok ix v r then reps else reps @ [v])) (sort vs) [])"
    unfolding representatives_def by (intro prompt_fold)
  then show ?thesis by (simp add: r_fold_pure reps_of_def)
qed

lemma reps_of_facts:
  "set (reps_of ix vs) \<subseteq> set vs \<and>
   (\<forall>v \<in> set vs. v \<in> set (reps_of ix vs) \<or> (\<exists>r \<in> set (reps_of ix vs). swap_ok ix v r))"
proof -
  let ?s = "\<lambda>v reps. if \<exists>r \<in> set reps. swap_ok ix v r then reps else reps @ [v]"
  have "set (fold ?s xs acc) \<subseteq> set acc \<union> set xs \<and> set acc \<subseteq> set (fold ?s xs acc) \<and>
    (\<forall>v \<in> set xs. v \<in> set (fold ?s xs acc) \<or> (\<exists>r \<in> set (fold ?s xs acc). swap_ok ix v r))" for xs acc
  proof (induction xs arbitrary: acc)
    case (Cons x xs)
    have sub: "set acc \<subseteq> set (?s x acc) \<and> set (?s x acc) \<subseteq> insert x (set acc) \<and>
        (x \<in> set (?s x acc) \<or> (\<exists>r \<in> set (?s x acc). swap_ok ix x r))" by auto
    from Cons.IH [of "?s x acc"] sub show ?case by (simp only: fold_simps list.set) blast
  qed simp
  from this [of "sort vs" "[]"] show ?thesis by (simp add: reps_of_def)
qed

section \<open>Pruning loses no leaf\<close>

inductive pleaf :: "cpg \<Rightarrow> nat \<Rightarrow> colours \<Rightarrow> bytes \<Rightarrow> bool" for g where
  pleaf_done: "refine_res (graph_ix g) m = Inr cs \<Longrightarrow> ambiguous cs = [] \<Longrightarrow>
    encode_res g (order_of cs) = Inr e \<Longrightarrow> pleaf g 0 m e"
| pleaf_branch: "refine_res (graph_ix g) m = Inr cs \<Longrightarrow> ambiguous cs \<noteq> [] \<Longrightarrow>
    v \<in> set (reps_of (graph_ix g) (target_cell cs)) \<Longrightarrow>
    pleaf g d (m @ [(v, length m + 1)]) e \<Longrightarrow> pleaf g (Suc d) m e"

inductive_cases leaf_0: "leaf g 0 m e"
inductive_cases leaf_Suc: "leaf g (Suc d) m e"
inductive_cases pleaf_elim: "pleaf g d m e"

text \<open>The markers of a search state number distinct nodes \<open>1, 2, \<dots>\<close> in the order of choice.\<close>

definition marks_ok :: "cpg \<Rightarrow> colours \<Rightarrow> bool" where
  "marks_ok g m \<longleftrightarrow> distinct (map fst m) \<and> map snd m = [1..<Suc (length m)] \<and> fst ` set m \<subseteq> set (ids g)"

lemma marks_ok_Nil [simp]: "marks_ok g []"
  by (simp add: marks_ok_def)

lemma marks_ok_snoc:
  "marks_ok g m \<Longrightarrow> v \<in> set (ids g) \<Longrightarrow> v \<notin> fst ` set m \<Longrightarrow> marks_ok g (m @ [(v, length m + 1)])"
  by (auto simp: marks_ok_def)

lemma marker_inj:
  assumes "marks_ok g m" and "v \<in> fst ` set m" and "marker m u = marker m v"
  shows "u = v"
proof -
  from assms(2) obtain k where k: "map_of m v = Some k"
    by (metis domIff dom_map_of_conv_image_fst not_None_eq)
  then have vk: "(v, k) \<in> set m" by (rule map_of_SomeD)
  then have "k \<in> set (map snd m)" by force
  with assms(1) have "k > 0" by (auto simp: marks_ok_def simp del: set_map)
  with assms(3) k have "map_of m u = Some k" by (auto simp: marker_def split: option.splits)
  then have uk: "(u, k) \<in> set m" by (rule map_of_SomeD)
  have "distinct (map snd m)" using assms(1) by (simp add: marks_ok_def)
  with uk vk show ?thesis by (metis (no_types, lifting) distinct_map inj_on_contraD prod.inject snd_conv)
qed

lemma target_unmarked:
  assumes "valid_cpg g" and "marks_ok g m" and "refine_res (graph_ix g) m = Inr cs"
    and "ambiguous cs \<noteq> []" and "v \<in> set (target_cell cs)"
  shows "v \<in> set (ids g)" and "v \<notin> fst ` set m"
proof -
  note r = refine_Inr [OF labels_on_keys [OF assms(1)] assms(3)]
  then have on: "on_keys (set (ids g)) cs" by blast
  note t = target_cell_facts [OF on assms(4)]
  show vin: "v \<in> set (ids g)" using t(1) assms(5) by blast
  have "card (set (target_cell cs)) > 1" using t(2,3) by (simp add: distinct_card)
  then have "set (target_cell cs) \<noteq> {v}" by (metis card_1_singleton_iff One_nat_def less_irrefl)
  with assms(5) obtain u where u: "u \<in> set (target_cell cs)" "u \<noteq> v" by blast
  from t(4) [OF u(1) assms(5)] r vin u t(1) have "marker m u = marker m v" by blast
  with marker_inj [OF assms(2)] u(2) show "v \<notin> fst ` set m" by blast
qed

lemma ren_swap_fixed: "v \<notin> fst ` set m \<Longrightarrow> r \<notin> fst ` set m \<Longrightarrow> ren (swap v r) m = m"
  unfolding ren_def by (rule map_idI) (force simp: swap_def)

lemma pleaf_imp_leaf: "pleaf g d m e \<Longrightarrow> leaf g d m e"
  by (induction rule: pleaf.induct) (use reps_of_facts in \<open>blast intro: leaf.intros\<close>)+

lemma leaf_imp_pleaf:
  assumes val: "valid_cpg g"
  shows "leaf g d m e \<Longrightarrow> marks_ok g m \<Longrightarrow> pleaf g d m e"
proof (induction d arbitrary: m)
  case 0
  then show ?case by (auto elim!: leaf_0 intro: pleaf_done)
next
  case (Suc d)
  from Suc.prems(1) obtain cs v where r: "refine_res (graph_ix g) m = Inr cs"
    and amb: "ambiguous cs \<noteq> []" and v: "v \<in> set (target_cell cs)"
    and l: "leaf g d (m @ [(v, length m + 1)]) e" by (auto elim: leaf_Suc)
  note um = target_unmarked [OF val Suc.prems(2) r amb]
  let ?R = "reps_of (graph_ix g) (target_cell cs)"
  have "\<exists>w \<in> set ?R. leaf g d (m @ [(w, length m + 1)]) e"
  proof (cases "v \<in> set ?R")
    case False
    with v reps_of_facts obtain w where w: "w \<in> set ?R" "swap_ok (graph_ix g) v w" by blast
    then have wt: "w \<in> set (target_cell cs)" using reps_of_facts by blast
    have iso: "graph_iso (swap v w) g g"
      by (rule swap_ok_iso [OF val w(2)]) (use um(1) v wt in auto)
    have "fst ` set (m @ [(v, length m + 1)]) \<subseteq> set (ids g)"
      using Suc.prems(2) um(1) [OF v] by (simp add: marks_ok_def)
    from leaf_iso [OF l iso val val this] ren_swap_fixed [OF um(2) [OF v] um(2) [OF wt]]
    have "leaf g d (m @ [(w, length m + 1)]) e" by simp
    with w(1) show ?thesis by blast
  qed (use l in blast)
  then obtain w where w: "w \<in> set ?R" and lw: "leaf g d (m @ [(w, length m + 1)]) e" by blast
  have "w \<in> set (target_cell cs)" using w reps_of_facts by blast
  then have "marks_ok g (m @ [(w, length m + 1)])"
    using um Suc.prems(2) by (intro marks_ok_snoc) auto
  from Suc.IH [OF lw this] show ?case by (rule pleaf_branch [OF r amb w])
qed

section \<open>What the search returns\<close>

lemma prompt_push: "prompt (push_reps reps m ps) (Inr (map (\<lambda>v. m @ [(v, length m + 1)]) reps @ ps))"
proof -
  have "prompt (push_reps reps m ps)
      (r_fold (\<lambda>v ps. Inr ((m @ [(v, length m + 1)]) # ps)) (rev reps) ps)"
    unfolding push_reps_def by (intro prompt_fold prompt_check_then prompt_return)
  moreover have "fold (\<lambda>v ps. (m @ [(v, length m + 1)]) # ps) (rev reps) ps =
      map (\<lambda>v. m @ [(v, length m + 1)]) reps @ ps"
    by (induction reps arbitrary: ps) simp_all
  ultimately show ?thesis by (simp add: r_fold_pure)
qed

definition better :: "(bytes \<times> node_id list) option \<Rightarrow> bytes \<Rightarrow> bool" where
  "better r e \<longleftrightarrow> (\<exists>e' o'. r = Some (e', o') \<and> e' \<le> e)"

lemma better_trans: "better (Some (e', o')) e \<Longrightarrow> better r e' \<Longrightarrow> better r e"
  by (auto simp: better_def)

definition merge_best ::
  "(bytes \<times> node_id list) option \<Rightarrow> bytes \<times> node_id list \<Rightarrow> (bytes \<times> node_id list) option" where
  "merge_best best c = (case best of None \<Rightarrow> Some c | Some bst \<Rightarrow> if c < bst then Some c else best)"

lemma merge_best_facts:
  "better (merge_best best (e, o')) e"
  "best = Some (e1, o1) \<Longrightarrow> better (merge_best best (e, o')) e1"
  "merge_best best (e, o') = Some x \<Longrightarrow> best = Some x \<or> x = (e, o')"
  by (auto simp: merge_best_def better_def less_eq_prod_simp less_prod_simp not_less
      split: option.splits if_splits)

text \<open>The result of a finished search bounds every leaf below the pending states from below and
  is the encoding of one of them.\<close>

definition search_post ::
  "cpg \<Rightarrow> colours list \<Rightarrow> (bytes \<times> node_id list) option \<Rightarrow> (bytes \<times> node_id list) option \<Rightarrow> bool" where
  "search_post g ps best r \<longleftrightarrow>
     (\<forall>m \<in> set ps. \<forall>d e. pleaf g d m e \<longrightarrow> better r e) \<and>
     (\<forall>e o'. best = Some (e, o') \<longrightarrow> better r e) \<and>
     (\<forall>e o'. r = Some (e, o') \<longrightarrow> best = Some (e, o') \<or>
        encode_res g o' = Inr e \<and> (\<exists>m \<in> set ps. \<exists>d. pleaf g d m e)) \<and>
     (ps \<noteq> [] \<or> best \<noteq> None \<longrightarrow> r \<noteq> None)"

lemma search_post_leaf:
  assumes "refine_res (graph_ix g) m = Inr cs" and "ambiguous cs = []"
    and "encode_res g (order_of cs) = Inr e"
    and post: "search_post g ps (merge_best best (e, order_of cs)) r"
  shows "search_post g (m # ps) best r"
proof -
  let ?mb = "merge_best best (e, order_of cs)"
  have pl: "pleaf g 0 m e" using assms(1-3) by (rule pleaf_done)
  have only: "e' = e" if "pleaf g d m e'" for d e'
    using that assms(1-3) by (auto elim: pleaf_elim)
  obtain e0 o0 where mb: "?mb = Some (e0, o0)" and le: "e0 \<le> e"
    using merge_best_facts(1) [of best e "order_of cs"] by (auto simp: better_def)
  have r0: "better r e0" using post mb by (auto simp: search_post_def)
  have re: "better r e" using r0 le by (auto simp: better_def)
  have "\<forall>m' \<in> set (m # ps). \<forall>d e'. pleaf g d m' e' \<longrightarrow> better r e'"
    using post re only by (auto simp: search_post_def)
  moreover have "better r e1" if "best = Some (e1, o1)" for e1 o1
    using merge_best_facts(2) [OF that, of e "order_of cs"] mb r0 by (auto simp: better_def)
  moreover have "best = Some (e1, o1) \<or> encode_res g o1 = Inr e1 \<and> (\<exists>m' \<in> set (m # ps). \<exists>d. pleaf g d m' e1)"
    if "r = Some (e1, o1)" for e1 o1
  proof -
    from post that consider "?mb = Some (e1, o1)" |
      "encode_res g o1 = Inr e1" "\<exists>m' \<in> set ps. \<exists>d. pleaf g d m' e1" unfolding search_post_def by blast
    then show ?thesis
    proof cases
      case 1
      then show ?thesis using merge_best_facts(3) [OF 1] pl assms(3) by auto
    qed auto
  qed
  moreover have "r \<noteq> None" using post mb by (auto simp: search_post_def)
  ultimately show ?thesis unfolding search_post_def by blast
qed

lemma search_post_branch:
  assumes "refine_res (graph_ix g) m = Inr cs" and "ambiguous cs \<noteq> []" and "reps \<noteq> []"
    and "reps = reps_of (graph_ix g) (target_cell cs)"
    and post: "search_post g (map (\<lambda>v. m @ [(v, length m + 1)]) reps @ ps) best r"
  shows "search_post g (m # ps) best r"
proof -
  have down: "\<exists>v \<in> set reps. \<exists>d'. pleaf g d' (m @ [(v, length m + 1)]) e" if "pleaf g d m e" for d e
    using that by (rule pleaf_elim) (use assms(1,2,4) in auto)
  have up: "\<exists>d'. pleaf g d' m e" if "v \<in> set reps" "pleaf g d (m @ [(v, length m + 1)]) e" for d e v
    using that assms(1,2,4) pleaf_branch by blast
  have "\<forall>m' \<in> set (m # ps). \<forall>d e. pleaf g d m' e \<longrightarrow> better r e"
    using post down unfolding search_post_def by fastforce
  moreover have "best = Some (e, o') \<or> encode_res g o' = Inr e \<and> (\<exists>m' \<in> set (m # ps). \<exists>d. pleaf g d m' e)"
    if "r = Some (e, o')" for e o'
    using post that up unfolding search_post_def by fastforce
  moreover have "r \<noteq> None" "\<forall>e o'. best = Some (e, o') \<longrightarrow> better r e"
    using post assms(3) unfolding search_post_def by auto
  ultimately show ?thesis unfolding search_post_def by blast
qed

lemma reps_nonempty:
  assumes "on_keys V cs" and "ambiguous cs \<noteq> []"
  shows "reps_of ix (target_cell cs) \<noteq> []"
proof -
  have "target_cell cs \<noteq> []" using target_cell_facts(2) [OF assms] by auto
  then obtain v where "v \<in> set (target_cell cs)" by (meson last_in_set)
  with reps_of_facts [of ix "target_cell cs"] show ?thesis by force
qed

lemma search_loop_Suc:
  "search_loop (Suc fuel) g ix (m # ps) best =
     m_bind enter_state (\<lambda>_. m_bind (refine ix m) (\<lambda>cs.
       if ambiguous cs = [] then m_bind (encode_graph g (order_of cs)) (\<lambda>enc.
            search_loop fuel g ix ps (merge_best best (enc, order_of cs)))
       else m_bind (representatives ix (target_cell cs)) (\<lambda>reps.
          m_bind (push_reps reps m ps) (\<lambda>ps'. search_loop fuel g ix ps' best))))"
  unfolding search_loop.simps Let_def merge_best_def target_cell_def by (rule refl)

lemma search_loop_post:
  assumes val: "valid_cpg g"
  shows "search_loop fuel g (graph_ix g) ps best b = (Inr r, b') \<Longrightarrow> search_post g ps best r"
proof (induction fuel arbitrary: ps best b)
  case 0
  then show ?case by (cases ps) (auto simp: search_post_def better_def)
next
  case (Suc fuel)
  show ?case
  proof (cases ps)
    case Nil
    with Suc.prems show ?thesis by (auto simp: search_post_def better_def)
  next
    case (Cons m ps')
    from Suc.prems [unfolded Cons search_loop_Suc] obtain b1 cs b2 where
      r: "refine (graph_ix g) m b1 = (Inr cs, b2)"
      and rest: "(if ambiguous cs = [] then m_bind (encode_graph g (order_of cs)) (\<lambda>enc.
            search_loop fuel g (graph_ix g) ps' (merge_best best (enc, order_of cs)))
       else m_bind (representatives (graph_ix g) (target_cell cs)) (\<lambda>reps.
          m_bind (push_reps reps m ps') (\<lambda>ps'. search_loop fuel g (graph_ix g) ps' best))) b2 = (Inr r, b')"
      unfolding m_bind_Inr_iff by blast
    have rr: "refine_res (graph_ix g) m = Inr cs" using prompt_Inr [OF prompt_refine r] by blast
    then have on: "on_keys (set (ids g)) cs" using refine_Inr [OF labels_on_keys [OF val]] by blast
    show ?thesis
    proof (cases "ambiguous cs = []")
      case True
      with rest obtain enc b3 where e: "encode_graph g (order_of cs) b2 = (Inr enc, b3)"
        and l: "search_loop fuel g (graph_ix g) ps' (merge_best best (enc, order_of cs)) b3 = (Inr r, b')"
        by (auto simp: m_bind_Inr_iff)
      have "encode_res g (order_of cs) = Inr enc" using prompt_Inr [OF prompt_encode e] by blast
      from search_post_leaf [OF rr True this Suc.IH [OF l]] show ?thesis by (simp add: Cons)
    next
      case False
      with rest obtain reps b3 qs b4 where e: "representatives (graph_ix g) (target_cell cs) b2 = (Inr reps, b3)"
        and p: "push_reps reps m ps' b3 = (Inr qs, b4)"
        and l: "search_loop fuel g (graph_ix g) qs best b4 = (Inr r, b')"
        by (auto simp: m_bind_Inr_iff)
      have reps: "reps = reps_of (graph_ix g) (target_cell cs)"
        using prompt_Inr [OF prompt_representatives e] by simp
      have "qs = map (\<lambda>v. m @ [(v, length m + 1)]) reps @ ps'"
        using prompt_Inr [OF prompt_push p] by simp
      with Suc.IH [OF l] reps_nonempty [OF on False] reps search_post_branch [OF rr False _ reps]
      show ?thesis by (simp add: Cons)
    qed
  qed
qed

theorem search_least_leaf:
  assumes val: "valid_cpg g" and "canonical_search g (graph_ix g) b = (Inr (order, enc), b')"
  shows "encode_res g order = Inr enc \<and> (\<exists>d. leaf g d [] enc) \<and> (\<forall>d e. leaf g d [] e \<longrightarrow> enc \<le> e)"
proof -
  from assms(2) obtain r b1 where
    s: "search_loop (Suc (state_limit b - search_states b)) g (graph_ix g) [[]] None b = (Inr r, b1)"
    and "(case r of Some (enc, order) \<Rightarrow> Inr (order, enc) | None \<Rightarrow> Inl AssertionError) = (Inr (order, enc) :: (node_id list \<times> bytes) res)"
    by (auto simp: canonical_search_def m_bind_Inr_iff simp del: search_loop.simps)
  then have r: "r = Some (enc, order)" by (auto split: option.splits)
  have post: "search_post g [[]] None (Some (enc, order))" using search_loop_post [OF val s] r by simp
  then have "encode_res g order = Inr enc" "\<exists>d. pleaf g d [] enc" by (auto simp: search_post_def)
  moreover have "enc \<le> e" if "leaf g d [] e" for d e
    using post leaf_imp_pleaf [OF val that] by (auto simp: search_post_def better_def)
  ultimately show ?thesis using pleaf_imp_leaf by blast
qed

theorem search_invariant:
  assumes "graph_iso f g h" and "valid_cpg g" and "valid_cpg h"
    and "canonical_search g (graph_ix g) b = (Inr (order, enc), b1)"
    and "canonical_search h (graph_ix h) c = (Inr (order', enc'), c1)"
  shows "enc = enc'"
proof -
  note G = search_least_leaf [OF assms(2,4)] and H = search_least_leaf [OF assms(3,5)]
  have "leaf h d [] e" if "leaf g d [] e" for d e
    using leaf_iso [OF that assms(1-3)] by simp
  with G H have le: "enc' \<le> enc" by blast
  have conv: "graph_iso (inv_into (set (ids g)) f) h g" by (rule graph_iso_sym [OF assms(1,2)])
  have "leaf g d [] e" if "leaf h d [] e" for d e
    using leaf_iso [OF that conv assms(3,2)] by simp
  with G H have "enc \<le> enc'" by blast
  with le show ?thesis by simp
qed

end
