(* ===== verification/Canonical_Order.thy ===== *)
theory Canonical_Order
  imports Canonical_Search
begin

text \<open>
  The promises of \<open>canonical_order\<close> (\<open>analysis/ordering.py\<close>): a strong identity is invariant
  under renumbering and binds the graph's content; the wall clock decides only whether a result
  is returned, never which; a supported graph always gets a result before the deadline.
\<close>

section \<open>The wall clock never chooses the result\<close>

text \<open>Budgets that agree on the counted work; their clocks may differ.\<close>

definition same_work :: "budget \<Rightarrow> budget \<Rightarrow> bool" where
  "same_work b c \<longleftrightarrow> state_limit b = state_limit c \<and> search_states b = search_states c"

definition timeless :: "'a bm \<Rightarrow> bool" where
  "timeless p \<longleftrightarrow> (\<forall>b c. same_work b c \<longrightarrow>
     fst (p b) \<noteq> Inl CanonicalizationDeadlineExceeded \<longrightarrow>
     fst (p c) \<noteq> Inl CanonicalizationDeadlineExceeded \<longrightarrow>
     fst (p b) = fst (p c) \<and> same_work (snd (p b)) (snd (p c)))"

lemma timelessD:
  "timeless p \<Longrightarrow> same_work b c \<Longrightarrow> p b = (x, b') \<Longrightarrow> p c = (y, c') \<Longrightarrow>
   x \<noteq> Inl CanonicalizationDeadlineExceeded \<Longrightarrow> y \<noteq> Inl CanonicalizationDeadlineExceeded \<Longrightarrow>
   x = y \<and> same_work b' c'"
  unfolding timeless_def by (metis fst_conv snd_conv)

named_theorems timeless_intro

lemma timeless_prompt [timeless_intro]:
  assumes "prompt p r"
  shows "timeless p"
  unfolding timeless_def
proof (intro allI impI)
  fix b c
  assume "same_work b c" and "fst (p b) \<noteq> Inl CanonicalizationDeadlineExceeded"
    and "fst (p c) \<noteq> Inl CanonicalizationDeadlineExceeded"
  then show "fst (p b) = fst (p c) \<and> same_work (snd (p b)) (snd (p c))"
    using assms unfolding prompt_def quiet_def same_budget_def same_work_def by metis
qed

lemma timeless_bind [timeless_intro]:
  assumes p: "timeless p" and f: "\<And>x. timeless (f x)"
  shows "timeless (m_bind p f)"
  unfolding timeless_def
proof (intro allI impI)
  fix b c
  assume sw: "same_work b c"
    and nb: "fst (m_bind p f b) \<noteq> Inl CanonicalizationDeadlineExceeded"
    and nc: "fst (m_bind p f c) \<noteq> Inl CanonicalizationDeadlineExceeded"
  obtain x b' y c' where pb: "p b = (x, b')" and pc: "p c = (y, c')" by fastforce
  have "x \<noteq> Inl CanonicalizationDeadlineExceeded" "y \<noteq> Inl CanonicalizationDeadlineExceeded"
    using nb nc pb pc by (auto simp: m_bind_run split: sum.splits)
  from timelessD [OF p sw pb pc this] have xy: "p c = (x, c')" "same_work b' c'" using pc by auto
  show "fst (m_bind p f b) = fst (m_bind p f c) \<and> same_work (snd (m_bind p f b)) (snd (m_bind p f c))"
  proof (cases x)
    case (Inl e)
    with pb xy show ?thesis by (simp add: m_bind_run)
  next
    case (Inr v)
    with pb xy nb nc f [of v] show ?thesis by (simp add: m_bind_run timeless_def)
  qed
qed

lemma timeless_enter [timeless_intro]: "timeless enter_state"
  by (auto simp: timeless_def same_work_def enter_state_def budget_check_def read_clock_def m_bind_run
      split: if_splits)

lemma timeless_if [timeless_intro]: "timeless p \<Longrightarrow> timeless q \<Longrightarrow> timeless (if c then p else q)"
  by simp

lemmas timeless_basic [timeless_intro] =
  timeless_prompt [OF prompt_refine] timeless_prompt [OF prompt_encode]
  timeless_prompt [OF prompt_representatives] timeless_prompt [OF prompt_push]
  timeless_prompt [OF prompt_lift] timeless_prompt [OF prompt_return]
  timeless_prompt [OF prompt_check] timeless_prompt [OF prompt_build]

lemma timeless_search_loop: "timeless (search_loop fuel g ix ps best)"
proof (induction fuel arbitrary: ps best)
  case 0
  show ?case
  proof (cases ps)
    case Nil
    show ?thesis unfolding Nil search_loop.simps by (rule timeless_basic)
  next
    case (Cons m ps')
    show ?thesis unfolding Cons search_loop.simps by (rule timeless_basic)
  qed
next
  case (Suc fuel)
  show ?case
  proof (cases ps)
    case Nil
    show ?thesis unfolding Nil search_loop.simps by (rule timeless_basic)
  next
    case (Cons m ps')
    show ?thesis
      unfolding Cons search_loop_Suc
      by (intro timeless_bind timeless_if timeless_enter Suc.IH timeless_basic)
  qed
qed

lemma timeless_search: "timeless (canonical_search g ix)"
proof -
  let ?p = "\<lambda>n. m_bind (search_loop n g ix [[]] None) (\<lambda>best. m_lift
      (case best of Some (enc, order) \<Rightarrow> Inr (order, enc) | None \<Rightarrow> Inl AssertionError))"
  have t: "timeless (?p n)" for n
    by (intro timeless_bind timeless_search_loop timeless_basic)
  show ?thesis
    unfolding timeless_def
  proof (intro allI impI)
    fix b c assume sw: "same_work b c"
      and nb: "fst (canonical_search g ix b) \<noteq> Inl CanonicalizationDeadlineExceeded"
      and nc: "fst (canonical_search g ix c) \<noteq> Inl CanonicalizationDeadlineExceeded"
    have n: "Suc (state_limit c - search_states c) = Suc (state_limit b - search_states b)"
      using sw by (simp add: same_work_def)
    show "fst (canonical_search g ix b) = fst (canonical_search g ix c) \<and>
        same_work (snd (canonical_search g ix b)) (snd (canonical_search g ix c))"
      using t [of "Suc (state_limit b - search_states b)"] sw nb nc
      unfolding canonical_search_def n timeless_def by blast
  qed
qed

text \<open>The \<open>try\<close> block as an alternative after the search.\<close>

definition fallback_attempt ::
  "(bytes \<Rightarrow> bytes) \<Rightarrow> cpg \<Rightarrow> (fingerprint_class \<times> node_id list \<times> bytes) bm" where
  "fallback_attempt H g = m_bind budget_check (\<lambda>_.
     m_bind (m_lift (stable_order_fallback H g)) (\<lambda>order.
     m_bind (encode_graph g order) (\<lambda>enc. m_return (Weak, order, enc))))"

lemma order_attempt_alt:
  "order_attempt H g ix b = (case canonical_search g ix b of
     (Inr (order, enc), b') \<Rightarrow> (Inr (Strong, order, enc), b')
   | (Inl e, b') \<Rightarrow> if e = BudgetExhausted then fallback_attempt H g b' else (Inl e, b'))"
  unfolding order_attempt_def fallback_attempt_def by (rule refl)

lemma timeless_attempt: "timeless (order_attempt H g ix)"
proof -
  have fb: "timeless (fallback_attempt H g)"
    unfolding fallback_attempt_def by (intro timeless_bind timeless_basic)
  show ?thesis
    unfolding timeless_def
  proof (intro allI impI)
    fix b c assume sw: "same_work b c"
      and nb: "fst (order_attempt H g ix b) \<noteq> Inl CanonicalizationDeadlineExceeded"
      and nc: "fst (order_attempt H g ix c) \<noteq> Inl CanonicalizationDeadlineExceeded"
    obtain x b' y c' where s: "canonical_search g ix b = (x, b')" "canonical_search g ix c = (y, c')"
      by fastforce
    have "x \<noteq> Inl CanonicalizationDeadlineExceeded" "y \<noteq> Inl CanonicalizationDeadlineExceeded"
      using nb nc s by (auto simp: order_attempt_alt)
    from timelessD [OF timeless_search sw s this] have "x = y" "same_work b' c'" by auto
    with s nb nc fb show "fst (order_attempt H g ix b) = fst (order_attempt H g ix c) \<and>
        same_work (snd (order_attempt H g ix b)) (snd (order_attempt H g ix c))"
      by (auto simp: order_attempt_alt timeless_def split: sum.splits prod.splits if_splits)
  qed
qed

lemma canonical_order_Inr:
  assumes "canonical_order_run H g b = (Inr r, b')"
  obtains ix b1 klass order enc b2 ms where
    "build_index g b = (Inr ix, b1)" "order_attempt H g ix b1 = (Inr (klass, order, enc), b2)"
    "r = \<lparr>canonical_order_of = order, cpg_order_hash = H (order_domain klass @ enc),
             fingerprint_class_of = klass, annotation = CPG_ORDER_HASH_ANNOTATION,
             budget_exhausted = (klass = Weak), elapsed = ms,
             identity_namespace = GRAPH_IDENTITY_NAMESPACE, budget_policy = BUDGET_POLICY,
             states_entered = search_states b2\<rparr>"
proof -
  from assms obtain ix b1 klass order enc b2 ms b3 b4 where
    1: "build_index g b = (Inr ix, b1)" "order_attempt H g ix b1 = (Inr (klass, order, enc), b2)"
    and e: "elapsed_ms b2 = (Inr ms, b3)" and c: "budget_check b3 = (Inr (), b4)"
    and r: "r = \<lparr>canonical_order_of = order, cpg_order_hash = H (order_domain klass @ enc),
             fingerprint_class_of = klass, annotation = CPG_ORDER_HASH_ANNOTATION,
             budget_exhausted = (klass = Weak), elapsed = ms,
             identity_namespace = GRAPH_IDENTITY_NAMESPACE, budget_policy = BUDGET_POLICY,
             states_entered = search_states b4\<rparr>"
    by (auto simp: canonical_order_run_def m_bind_Inr_iff)
  have "search_states b4 = search_states b2"
    using e prompt_Inr [OF prompt_check c]
    by (auto simp: elapsed_ms_def read_clock_def m_bind_run same_budget_def)
  with 1 r show ?thesis using that by blast
qed

section \<open>Shape of a result\<close>

lemma build_Inr:
  assumes "build_index g b = (Inr ix, b')"
  shows "valid_cpg g \<and> ix = graph_ix g \<and> same_budget b b'"
  using prompt_Inr [OF prompt_build assms] by (auto simp: r_bind_Inr_iff check_cpg_Inr)

lemma attempt_Inr:
  assumes "valid_cpg g" and "order_attempt H g (graph_ix g) b = (Inr (klass, order, enc), b')"
  shows "encode_res g order = Inr enc"
    and "klass = Strong \<Longrightarrow> canonical_search g (graph_ix g) b = (Inr (order, enc), b')"
    and "klass = Weak \<Longrightarrow> \<exists>b1. canonical_search g (graph_ix g) b = (Inl BudgetExhausted, b1) \<and>
      stable_order_fallback H g = Inr order \<and> same_budget b1 b'"
proof -
  obtain x b1 where s: "canonical_search g (graph_ix g) b = (x, b1)" by fastforce
  have fb: "klass = Weak \<and> stable_order_fallback H g = Inr order \<and> encode_res g order = Inr enc \<and> same_budget b1 b'"
    if "fallback_attempt H g b1 = (Inr (klass, order, enc), b')"
  proof -
    from that obtain b2 b3 where "budget_check b1 = (Inr (), b2)" "stable_order_fallback H g = Inr order"
      "encode_graph g order b2 = (Inr enc, b')" "klass = Weak"
      by (auto simp: fallback_attempt_def m_Inr)
    then show ?thesis
      using prompt_Inr [OF prompt_check, of b1] prompt_Inr [OF prompt_encode, of g order b2 enc b']
      by (blast intro: same_budget_trans)
  qed
  have cases: "(klass = Strong \<and> x = Inr (order, enc) \<and> b1 = b') \<or>
      (x = Inl BudgetExhausted \<and> fallback_attempt H g b1 = (Inr (klass, order, enc), b'))"
    using assms(2) s by (auto simp: order_attempt_alt split: sum.splits if_splits)
  then show "encode_res g order = Inr enc"
    using fb search_least_leaf [OF assms(1)] s by blast
  show "klass = Strong \<Longrightarrow> canonical_search g (graph_ix g) b = (Inr (order, enc), b')"
    using cases fb s by auto
  show "klass = Weak \<Longrightarrow> \<exists>b1. canonical_search g (graph_ix g) b = (Inl BudgetExhausted, b1) \<and>
      stable_order_fallback H g = Inr order \<and> same_budget b1 b'"
    using cases fb s by auto
qed

text \<open>Runs of \<open>canonical_order\<close> from a fresh budget.\<close>

lemma canonical_order_start:
  "canonical_order H clk B T g = Inr r \<longleftrightarrow>
     B > 0 \<and> T > 0 \<and> (\<exists>b'. canonical_order_run H g \<lparr>state_limit = nat B, duration = T, clock = clk,
       started_at = clk 0, search_states = 0, ticks = 1\<rparr> = (Inr r, b'))"
proof -
  have fst_iff: "fst p = x \<longleftrightarrow> (\<exists>y. p = (x, y))" for p :: "'a \<times> 'b" and x by (cases p) auto
  show ?thesis
    by (simp add: canonical_order_def budget_start_def duration_seconds_def fst_iff not_le)
qed

lemma canonical_order_shape:
  assumes "canonical_order H clk B T g = Inr r"
  obtains enc where "valid_cpg g" "encode_res g (canonical_order_of r) = Inr enc"
    "cpg_order_hash r = H (order_domain (fingerprint_class_of r) @ enc)"
    "annotation r = CPG_ORDER_HASH_ANNOTATION"
    "budget_exhausted r \<longleftrightarrow> fingerprint_class_of r = Weak"
    "identity_namespace r = GRAPH_IDENTITY_NAMESPACE" "budget_policy r = BUDGET_POLICY"
    "fingerprint_class_of r = Strong \<Longrightarrow>
       \<exists>b b'. canonical_search g (graph_ix g) b = (Inr (canonical_order_of r, enc), b')"
    "fingerprint_class_of r = Weak \<Longrightarrow> stable_order_fallback H g = Inr (canonical_order_of r)"
proof -
  from assms obtain b' where
    "canonical_order_run H g \<lparr>state_limit = nat B, duration = T, clock = clk,
       started_at = clk 0, search_states = 0, ticks = 1\<rparr> = (Inr r, b')"
    unfolding canonical_order_start by blast
  then show ?thesis
  proof (rule canonical_order_Inr)
    fix ix b1 klass order enc b2 ms
    assume b: "build_index g \<lparr>state_limit = nat B, duration = T, clock = clk,
       started_at = clk 0, search_states = 0, ticks = 1\<rparr> = (Inr ix, b1)"
      and a: "order_attempt H g ix b1 = (Inr (klass, order, enc), b2)"
      and r: "r = \<lparr>canonical_order_of = order, cpg_order_hash = H (order_domain klass @ enc),
             fingerprint_class_of = klass, annotation = CPG_ORDER_HASH_ANNOTATION,
             budget_exhausted = (klass = Weak), elapsed = ms,
             identity_namespace = GRAPH_IDENTITY_NAMESPACE, budget_policy = BUDGET_POLICY,
             states_entered = search_states b2\<rparr>"
    from build_Inr [OF b] have val: "valid_cpg g" and ix: "ix = graph_ix g" by auto
    note at = attempt_Inr [OF val a [unfolded ix]]
    show ?thesis by (rule that [of enc]) (use val r at in auto)
  qed
qed

section \<open>Invariance and content binding\<close>

lemma strong_hash_invariant_aux:
  assumes iso: "graph_iso f g h"
    and g: "canonical_order H clk B T g = Inr r" "fingerprint_class_of r = Strong"
    and h: "canonical_order H clk' B' T' h = Inr r'" "fingerprint_class_of r' = Strong"
  shows "cpg_order_hash r = cpg_order_hash r'"
proof -
  obtain enc b b1 where G: "valid_cpg g" "cpg_order_hash r = H (order_domain Strong @ enc)"
      "canonical_search g (graph_ix g) b = (Inr (canonical_order_of r, enc), b1)"
    using canonical_order_shape [OF g(1)] g(2) by metis
  obtain enc' b' b1' where E: "valid_cpg h" "cpg_order_hash r' = H (order_domain Strong @ enc')"
      "canonical_search h (graph_ix h) b' = (Inr (canonical_order_of r', enc'), b1')"
    using canonical_order_shape [OF h(1)] h(2) by metis
  have "enc = enc'" by (rule search_invariant [OF iso G(1) E(1) G(3) E(3)])
  with G E show ?thesis by simp
qed

section \<open>A supported graph gets a result\<close>

definition small_cpg :: "cpg \<Rightarrow> bool" where
  "small_cpg g \<longleftrightarrow> valid_cpg g \<and> length (nodes g) < 2 ^ 64 \<and> length (edges g) < 2 ^ 64"

lemma adjacency_total:
  assumes "length adj < 2 ^ 64" and "\<forall>(k, v) \<in> set adj. short k \<and> dget cs v < 2 ^ 64"
  shows "\<exists>b. adjacency_part cs adj = Inr b"
proof -
  let ?n = "sort (map (\<lambda>(k, v). (k, dget cs v)) adj)"
  have "neighbour_part x = Inr (be8 (length (fst x)) @ fst x @ be8 (snd x))" if "x \<in> set ?n" for x
    using that assms(2) by (auto simp: neighbour_part_def short_def u64_Inr)
  then have "r_map neighbour_part ?n = Inr (map (\<lambda>x. be8 (length (fst x)) @ fst x @ be8 (snd x)) ?n)"
    by (rule r_map_total)
  moreover have "u64 (int (length ?n)) = Inr (be8 (length ?n))" using assms(1) by (intro u64_Inr) simp
  ultimately show ?thesis by (simp add: adjacency_part_def)
qed

lemma adjacency_small:
  assumes "small_cpg g" and "adj = incoming (graph_ix g) v \<or> adj = outgoing (graph_ix g) v"
    and "\<forall>v \<in> set (ids g). dget cs v < 2 ^ 64"
  shows "length adj < 2 ^ 64" and "\<forall>(k, v) \<in> set adj. short k \<and> dget cs v < 2 ^ 64"
proof -
  have "length adj \<le> length (edges g)" using assms(2) by (auto simp: graph_ix_def)
  with assms(1) show "length adj < 2 ^ 64" unfolding small_cpg_def by (meson le_less_trans)
  have "short k \<and> u \<in> set (ids g)" if "(k, u) \<in> set adj" for k u
    using that assms(1,2) by (auto simp: graph_ix_def small_cpg_def valid_cpg_def edge_ok_def)
  with assms(3) show "\<forall>(k, v) \<in> set adj. short k \<and> dget cs v < 2 ^ 64" by blast
qed

lemma signatures_total:
  assumes "small_cpg g" and on: "on_keys (set (ids g)) cs" and lt: "\<forall>v \<in> set (ids g). dget cs v < 2 ^ 64"
  shows "\<exists>s. signatures_res (graph_ix g) cs = Inr s"
  unfolding signatures_res_def
proof (rule tabulated_total)
  fix v assume "v \<in> set (map fst cs)"
  then have v: "dget cs v < 2 ^ 64" using on lt unfolding on_keys_def by blast
  obtain i j where "adjacency_part cs (incoming (graph_ix g) v) = Inr i"
    "adjacency_part cs (outgoing (graph_ix g) v) = Inr j"
    using adjacency_total adjacency_small [OF assms(1) _ lt] by metis
  with u64_Inr [OF v] show "\<exists>x. signature (graph_ix g) cs v = Inr x" by (simp add: signature_def)
qed

lemma intern_less:
  assumes "on_keys V s" and "v \<in> V"
  shows "dget (intern s) v < length s"
proof -
  have "dget s v \<in> set (remdups (sort (map snd s)))" using on_keys_mem [OF assms] by force
  from index_of_less [OF this] have "dget (intern s) v < length (remdups (sort (map snd s)))"
    by (simp add: intern_dget [OF assms])
  also have "\<dots> \<le> length s" using length_remdups_leq [of "sort (map snd s)"] by simp
  finally show ?thesis .
qed

lemma ids_length: "length (ids g) = length (nodes g)"
  by (simp add: ids_def)

lemma keys_length:
  assumes "valid_cpg g" and "on_keys (set (ids g)) cs"
  shows "length cs = length (nodes g)"
  using on_keys_finite [OF assms(2)] assms(1) by (simp add: valid_cpg_def distinct_card ids_length)

lemma interned_colours_small:
  assumes "small_cpg g" and "on_keys (set (ids g)) s"
  shows "\<forall>v \<in> set (ids g). dget (intern s) v < 2 ^ 64"
proof
  fix v assume "v \<in> set (ids g)"
  from intern_less [OF assms(2) this] keys_length [OF _ assms(2)] assms(1)
  show "dget (intern s) v < 2 ^ 64" unfolding small_cpg_def by (metis less_trans)
qed

lemma refine_loop_total:
  assumes "small_cpg g" and "on_keys (set (ids g)) cs" and "\<forall>v \<in> set (ids g). dget cs v < 2 ^ 64"
  shows "refine_loop_res fuel (graph_ix g) cs = Inl OutOfFuel \<or>
    (\<exists>r. refine_loop_res fuel (graph_ix g) cs = Inr r)"
  using assms(2,3)
proof (induction fuel arbitrary: cs)
  case (Suc fuel)
  from signatures_total [OF assms(1) Suc.prems] obtain s where s: "signatures_res (graph_ix g) cs = Inr s" by blast
  have on: "on_keys (set (ids g)) s" using signatures_res_Inr [OF Suc.prems(1) s] by blast
  from Suc.IH [of "intern s"] interned_colours_small [OF assms(1) on] on s show ?case
    by (auto simp: intern_on_keys Let_def)
qed simp

lemma marks_length:
  assumes "valid_cpg g" and "marks_ok g m"
  shows "length m \<le> length (nodes g)"
proof -
  have "length m = card (fst ` set m)"
    using assms(2) unfolding marks_ok_def by (metis distinct_card length_map set_map)
  also have "\<dots> \<le> card (set (ids g))"
    using assms(2) unfolding marks_ok_def by (intro card_mono) auto
  also have "\<dots> \<le> length (nodes g)" by (metis card_length ids_length)
  finally show ?thesis .
qed

lemma marker_le: "marks_ok g m \<Longrightarrow> marker m v \<le> length m"
proof -
  assume ok: "marks_ok g m"
  show ?thesis
  proof (cases "map_of m v")
    case (Some k)
    then have "k \<in> set (map snd m)" by (force dest: map_of_SomeD)
    with ok have "k \<le> length m" unfolding marks_ok_def by (metis atLeastLessThan_iff less_Suc_eq_le set_upt)
    with Some show ?thesis by (simp add: marker_def)
  qed (simp add: marker_def)
qed

lemma refine_total:
  assumes sm: "small_cpg g" and ok: "marks_ok g m"
  shows "\<exists>cs. refine_res (graph_ix g) m = Inr cs"
proof -
  have val: "valid_cpg g" using sm by (simp add: small_cpg_def)
  note on = labels_on_keys [OF val]
  have mk: "marker m v < 2 ^ 64" for v
    using marker_le [OF ok, of v] marks_length [OF val ok] sm unfolding small_cpg_def by (meson le_less_trans)
  have "\<exists>s. initial_sigs (graph_ix g) m = Inr s"
    unfolding initial_sigs_tabulated [OF on]
    by (rule tabulated_total) (simp add: u64_Inr [OF mk] flip: marker_def)
  then obtain s where s: "initial_sigs (graph_ix g) m = Inr s" by blast
  have ons: "on_keys (set (ids g)) s" using initial_sigs_Inr [OF on s] by blast
  then have "on_keys (set (ids g)) (intern s)" by (simp add: intern_on_keys)
  from refine_loop_total [OF sm this interned_colours_small [OF sm ons],
      of "Suc (length (labels (graph_ix g)))"] refine_enough [OF on, of m] s
  show ?thesis by (auto simp: refine_res_def simp del: refine_loop_res.simps)
qed

lemma encode_total:
  assumes "small_cpg g" and "set order = set (ids g)" and "distinct order"
  shows "encode_res g order = Inr (encoding g order)"
proof -
  have "length order = length (ids g)"
    using assms by (metis distinct_card small_cpg_def valid_cpg_def)
  with assms show ?thesis
    unfolding encode_res_Inr by (simp add: small_cpg_def complete_order_def ids_length)
qed

lemma prompt_runs:
  "prompt c (Inr x) \<Longrightarrow> never_expires b \<Longrightarrow>
     \<exists>b'. c b = (Inr x, b') \<and> same_budget b b' \<and> never_expires b'"
  using prompt_run never_expires_same by metis

lemma enter_state_runs:
  assumes "never_expires b" and "search_states b < state_limit b"
  shows "\<exists>b'. enter_state b = (Inr (), b') \<and> never_expires b' \<and> state_limit b' = state_limit b \<and>
    search_states b' = Suc (search_states b)"
  using assms enter_state_Inr [of b "()"] by (auto simp: never_expires_def)

lemma enter_state_full:
  assumes "never_expires b" and "search_states b = state_limit b"
  shows "\<exists>b'. enter_state b = (Inl BudgetExhausted, b') \<and> never_expires b'"
  using assms
  by (auto simp: enter_state_def budget_check_def read_clock_def m_bind_run never_expires_def
      not_le [symmetric])

lemma m_bind_step: "c b = (Inr x, b') \<Longrightarrow> (\<And>f. m_bind c f b = f x b')"
  by (simp add: m_bind_run)

lemma search_loop_runs:
  assumes sm: "small_cpg g"
  shows "never_expires b \<Longrightarrow> search_states b \<le> state_limit b \<Longrightarrow>
    state_limit b - search_states b < fuel \<Longrightarrow> \<forall>m \<in> set ps. marks_ok g m \<Longrightarrow>
    \<exists>b'. never_expires b' \<and> (search_loop fuel g (graph_ix g) ps best b = (Inl BudgetExhausted, b') \<or>
      (\<exists>r. search_loop fuel g (graph_ix g) ps best b = (Inr r, b')))"
proof (induction fuel arbitrary: ps best b)
  case (Suc fuel)
  have val: "valid_cpg g" using sm by (simp add: small_cpg_def)
  show ?case
  proof (cases ps)
    case Nil
    with Suc.prems show ?thesis by auto
  next
    case (Cons m ps')
    show ?thesis
    proof (cases "search_states b = state_limit b")
      case True
      with enter_state_full [OF Suc.prems(1)] show ?thesis
        by (auto simp: Cons search_loop_Suc m_bind_run simp del: search_loop.simps)
    next
      case False
      with enter_state_runs [OF Suc.prems(1)] Suc.prems(2) obtain b1 where
        b1: "enter_state b = (Inr (), b1)" "never_expires b1" "state_limit b1 = state_limit b"
          "search_states b1 = Suc (search_states b)" by fastforce
      have ok: "marks_ok g m" using Suc.prems(4) Cons by simp
      obtain cs where rr: "refine_res (graph_ix g) m = Inr cs" using refine_total [OF sm ok] by blast
      note r = prompt_refine [of "graph_ix g" m, unfolded rr]
      from prompt_runs [OF r b1(2)] obtain b2 where
        b2: "refine (graph_ix g) m b1 = (Inr cs, b2)" "same_budget b1 b2" "never_expires b2" by blast
      have on: "on_keys (set (ids g)) cs" using refine_Inr [OF labels_on_keys [OF val] rr] by blast
      have lim: "search_states b3 \<le> state_limit b3 \<and> state_limit b3 - search_states b3 < fuel"
        if "same_budget b2 b3" for b3
        using that b1 b2(2) Suc.prems(2,3) False by (auto simp: same_budget_def)
      note run = search_loop_Suc [of fuel g "graph_ix g" m ps' best] 
        m_bind_step [where c = enter_state, OF b1(1)] m_bind_step [where c = "refine (graph_ix g) m", OF b2(1)]
      show ?thesis
      proof (cases "ambiguous cs = []")
        case True
        have "encode_res g (order_of cs) = Inr (encoding g (order_of cs))"
          using order_of_facts [OF on] by (intro encode_total [OF sm]) auto
        note e = prompt_encode [of g "order_of cs", unfolded this]
        from prompt_runs [OF e b2(3)] obtain b3 where
          b3: "encode_graph g (order_of cs) b2 = (Inr (encoding g (order_of cs)), b3)"
            "same_budget b2 b3" "never_expires b3" by blast
        have step: "m_bind (encode_graph g (order_of cs)) F b2 = F (encoding g (order_of cs)) b3" for F :: "bytes \<Rightarrow> (bytes \<times> node_id list) option bm"
          using b3(1) by (simp add: m_bind_run)
        have "\<forall>m \<in> set ps'. marks_ok g m" using Suc.prems(4) Cons by simp
        from Suc.IH [OF b3(3) _ _ this] lim [OF b3(2)] show ?thesis
          unfolding Cons run if_P [OF True] step by blast
      next
        case False
        let ?R = "reps_of (graph_ix g) (target_cell cs)"
        from prompt_runs [OF prompt_representatives b2(3)] obtain b3 where
          b3: "representatives (graph_ix g) (target_cell cs) b2 = (Inr ?R, b3)"
            "same_budget b2 b3" "never_expires b3" by blast
        let ?Q = "map (\<lambda>v. m @ [(v, length m + 1)]) ?R @ ps'"
        from prompt_runs [OF prompt_push b3(3)] obtain b4 where
          b4: "push_reps ?R m ps' b3 = (Inr ?Q, b4)" "same_budget b3 b4" "never_expires b4" by blast
        have "marks_ok g (m @ [(v, length m + 1)])" if "v \<in> set ?R" for v
          using that reps_of_facts target_unmarked [OF val ok rr False] by (intro marks_ok_snoc [OF ok]) blast+
        then have "\<forall>m' \<in> set ?Q. marks_ok g m'" using Suc.prems(4) Cons by auto
        from Suc.IH [OF b4(3) _ _ this] lim [OF same_budget_trans [OF b3(2) b4(2)]] False show ?thesis
          unfolding Cons run by (simp only: if_False m_bind_step [where c = "representatives (graph_ix g) (target_cell cs)", OF b3(1)]
              m_bind_step [where c = "push_reps ?R m ps'", OF b4(1)])
      qed
    qed
  qed
qed simp

lemma fallback_order:
  assumes "valid_cpg g"
  shows "\<exists>order. stable_order_fallback H g = Inr order \<and> set order = set (ids g) \<and> distinct order"
proof -
  let ?k = "\<lambda>n. ((H (enclosing_decl_fqn n), structural_path n, sort (incident g (node_id n)),
       fields_of (label_fields n), node_id n), n)"
  have "label n = Inr (fields_of (label_fields n))" if "n \<in> set (nodes g)" for n
    using that assms by (auto simp: label_Inr valid_cpg_def node_ok_def)
  then have "r_map (\<lambda>n. r_bind (label n) (\<lambda>l.
       Inr ((H (enclosing_decl_fqn n), structural_path n, sort (incident g (node_id n)), l, node_id n), n)))
       (nodes g) = Inr (map ?k (nodes g))"
    by (intro r_map_total) simp
  then have "stable_order_fallback H g = Inr (map (\<lambda>kn. node_id (snd kn)) (sort_key fst (map ?k (nodes g))))"
    by (simp add: stable_order_fallback_def)
  moreover have ms: "mset (map (\<lambda>kn. node_id (snd kn)) (sort_key fst (map ?k (nodes g)))) = mset (ids g)"
    by (simp add: ids_def multiset.map_comp o_def)
  moreover from ms have "set (map (\<lambda>kn. node_id (snd kn)) (sort_key fst (map ?k (nodes g)))) = set (ids g)"
    "distinct (map (\<lambda>kn. node_id (snd kn)) (sort_key fst (map ?k (nodes g)))) = distinct (ids g)"
    by (rule mset_eq_setD, rule mset_eq_imp_distinct_iff)
  ultimately show ?thesis using assms unfolding valid_cpg_def by blast
qed

lemma attempt_runs:
  assumes sm: "small_cpg g" and ne: "never_expires b" and "search_states b \<le> state_limit b"
  shows "\<exists>x b'. order_attempt H g (graph_ix g) b = (Inr x, b') \<and> never_expires b'"
proof -
  have val: "valid_cpg g" using sm by (simp add: small_cpg_def)
  from search_loop_runs [OF sm ne assms(3), of _ "[[]]" None]
  obtain b1 where b1: "never_expires b1" and s:
    "search_loop (Suc (state_limit b - search_states b)) g (graph_ix g) [[]] None b = (Inl BudgetExhausted, b1) \<or>
     (\<exists>r. search_loop (Suc (state_limit b - search_states b)) g (graph_ix g) [[]] None b = (Inr r, b1))"
    by fastforce
  from s show ?thesis
  proof
    assume "search_loop (Suc (state_limit b - search_states b)) g (graph_ix g) [[]] None b = (Inl BudgetExhausted, b1)"
    then have cs: "canonical_search g (graph_ix g) b = (Inl BudgetExhausted, b1)"
      by (simp add: canonical_search_def m_bind_run del: search_loop.simps)
    obtain order where o: "stable_order_fallback H g = Inr order" "set order = set (ids g)" "distinct order"
      using fallback_order [OF val] by blast
    note e = encode_total [OF sm o(2,3)]
    have "prompt (fallback_attempt H g) (Inr (Weak, order, encoding g order))"
      unfolding fallback_attempt_def o(1)
      by (rule prompt_check_then, rule prompt_eq [OF prompt_bind [OF prompt_lift
            prompt_bind [OF prompt_encode prompt_return]]]) (simp add: e)
    from prompt_runs [OF this b1] cs show ?thesis by (auto simp: order_attempt_alt)
  next
    assume "\<exists>r. search_loop (Suc (state_limit b - search_states b)) g (graph_ix g) [[]] None b = (Inr r, b1)"
    then obtain r where r: "search_loop (Suc (state_limit b - search_states b)) g (graph_ix g) [[]] None b = (Inr r, b1)"
      by blast
    from search_loop_post [OF val r] obtain enc order where "r = Some (enc, order)"
      by (auto simp: search_post_def)
    with r b1 show ?thesis
      by (auto simp: order_attempt_alt canonical_search_def m_bind_run simp del: search_loop.simps)
  qed
qed

lemma canonical_order_runs:
  assumes sm: "small_cpg g" and ne: "never_expires b" and "search_states b \<le> state_limit b"
  shows "\<exists>r b'. canonical_order_run H g b = (Inr r, b') \<and> never_expires b'"
proof -
  have "prompt (build_index g) (Inr (graph_ix g))"
    using prompt_build [of g] sm check_cpg_Inr [of g "()"] by (simp add: small_cpg_def)
  from prompt_runs [OF this ne] obtain b1 where b1: "build_index g b = (Inr (graph_ix g), b1)"
    "same_budget b b1" "never_expires b1" by blast
  have "search_states b1 \<le> state_limit b1" using b1(2) assms(3) by (simp add: same_budget_def)
  from attempt_runs [OF sm b1(3) this] obtain klass order enc b2 where
    b2: "order_attempt H g (graph_ix g) b1 = (Inr (klass, order, enc), b2)" "never_expires b2"
    by (metis prod_cases3)
  obtain ms b3 where b3: "elapsed_ms b2 = (Inr ms, b3)" "never_expires b3"
    using b2(2) by (auto simp: elapsed_ms_def read_clock_def m_bind_run never_expires_def)
  from prompt_runs [OF prompt_check b3(2)] obtain b4 where "budget_check b3 = (Inr (), b4)"
    "never_expires b4" by blast
  with b1(1) b2(1) b3(1) show ?thesis
    by (simp add: canonical_order_run_def m_bind_run)
qed

end
