(* ===== verification/Ordering_Contract.thy ===== *)
theory Ordering_Contract
  imports Canonical_Order
begin

text \<open>
  The contract of \<open>canonical_order\<close>, stated on its entry point: what a returned identity
  means, when one is returned, and what the errors are. Each property is followed by an
  instance on two small graphs.
\<close>

section \<open>Sample graphs\<close>

definition sample_node :: "node_id \<Rightarrow> string \<Rightarrow> cpg_node" where
  "sample_node i k = \<lparr>node_id = i, kind = k, operator_or_literal = [], resolved_fqn = [],
     enclosing_decl_fqn = [], structural_path = []\<rparr>"

text \<open>The same two-node path under two numberings and listing orders.\<close>

definition path_01 :: cpg where
  "path_01 = \<lparr>nodes = [sample_node 0 ''A'', sample_node 1 ''A''],
     edges = [\<lparr>src = 0, dst = 1, ekind = ''CFG''\<rparr>]\<rparr>"

definition path_53 :: cpg where
  "path_53 = \<lparr>nodes = [sample_node 3 ''A'', sample_node 5 ''A''],
     edges = [\<lparr>src = 5, dst = 3, ekind = ''CFG''\<rparr>]\<rparr>"

definition run_path :: "cpg \<Rightarrow> canonical_order_result res" where
  "run_path g = canonical_order id (\<lambda>_. 0) 10 1 g"

lemma run_path_strong:
  "\<exists>r. run_path path_01 = Inr r \<and> fingerprint_class_of r = Strong"
  "\<exists>r. run_path path_53 = Inr r \<and> fingerprint_class_of r = Strong"
proof -
  have "(case run_path path_01 of Inr r \<Rightarrow> fingerprint_class_of r = Strong | Inl _ \<Rightarrow> False)"
    by code_simp
  then show "\<exists>r. run_path path_01 = Inr r \<and> fingerprint_class_of r = Strong"
    by (auto split: sum.splits)
  have "(case run_path path_53 of Inr r \<Rightarrow> fingerprint_class_of r = Strong | Inl _ \<Rightarrow> False)"
    by code_simp
  then show "\<exists>r. run_path path_53 = Inr r \<and> fingerprint_class_of r = Strong"
    by (auto split: sum.splits)
qed

lemma path_iso: "graph_iso (\<lambda>v. if v = 0 then 5 else 3) path_01 path_53"
  by (auto simp: graph_iso_def path_01_def path_53_def ids_def edge_triples_def sample_node_def
      bij_betw_def inj_on_def node_by_id_def dget_def label_fields_def)

lemma path_small: "small_cpg path_01"
  by (simp add: small_cpg_def valid_cpg_def path_01_def ids_def node_ok_def edge_ok_def sample_node_def
      label_fields_def short_def)

section \<open>Identity\<close>

text \<open>
  C2. Strong identities are invariant. If \<open>h\<close> is \<open>g\<close> with its nodes renumbered by \<open>f\<close> and
  its node and edge lists reordered, and \<open>canonical_order\<close> returns a strong result for each,
  then the two hashes are equal, whatever the budgets, the durations and the clocks were.
\<close>

theorem strong_identity_invariant:
  assumes "graph_iso f g h"
    and "canonical_order H clk B T g = Inr r" and "fingerprint_class_of r = Strong"
    and "canonical_order H clk' B' T' h = Inr r'" and "fingerprint_class_of r' = Strong"
  shows "cpg_order_hash r = cpg_order_hash r'"
  using assms by (rule strong_hash_invariant_aux)

theorem strong_identity_invariant_witness:
  "map_sum id cpg_order_hash (canonical_order id (\<lambda>_. 0) 10 1 path_01) =
   map_sum id cpg_order_hash (canonical_order id (\<lambda>_. 0) 10 1 path_53)"
  using run_path_strong strong_identity_invariant [OF path_iso, of id "\<lambda>_. 0" 10 1 _ "\<lambda>_. 0" 10 1]
  unfolding run_path_def by fastforce

lemma order_domain_inj:
  "order_domain k @ e = order_domain k' @ e' \<longleftrightarrow> k = k' \<and> e = e'"
  by (cases k; cases k') (simp_all add: order_domain_def)

text \<open>The bytes whose hash a result carries.\<close>

definition hashed_message :: "cpg \<Rightarrow> canonical_order_result \<Rightarrow> bytes" where
  "hashed_message g r = order_domain (fingerprint_class_of r) @ encoding g (canonical_order_of r)"

text \<open>
  C29. Identities bind the content. If the hash does not collide on the two byte strings that
  two runs hash, equal hashes come from results of the same class (a weak hash never equals
  a strong one) and from graphs that are equal up to renumbering and reordering.
\<close>

theorem identity_binds_content:
  assumes "inj_on H {hashed_message g r, hashed_message h r'}"
    and "canonical_order H clk B T g = Inr r" and "canonical_order H clk' B' T' h = Inr r'"
    and "cpg_order_hash r = cpg_order_hash r'"
  shows "fingerprint_class_of r = fingerprint_class_of r' \<and> (\<exists>f. graph_iso f g h)"
proof -
  obtain e where e: "encode_res g (canonical_order_of r) = Inr e"
      "cpg_order_hash r = H (order_domain (fingerprint_class_of r) @ e)"
    by (rule canonical_order_shape [OF assms(2)])
  obtain e' where e': "encode_res h (canonical_order_of r') = Inr e'"
      "cpg_order_hash r' = H (order_domain (fingerprint_class_of r') @ e')"
    by (rule canonical_order_shape [OF assms(3)])
  have m: "order_domain (fingerprint_class_of r) @ e = hashed_message g r"
      "order_domain (fingerprint_class_of r') @ e' = hashed_message h r'"
    using e(1) e'(1) unfolding hashed_message_def encode_res_Inr by blast+
  have "H (hashed_message g r) = H (hashed_message h r')" using assms(4) e(2) e'(2) m by simp
  from inj_onD [OF assms(1) this]
  have "order_domain (fingerprint_class_of r) @ e = order_domain (fingerprint_class_of r') @ e'"
    using m by simp
  then have "fingerprint_class_of r = fingerprint_class_of r'" "e = e'" by (auto simp: order_domain_inj)
  then show ?thesis using equal_encodings_isomorphic [OF e(1)] e'(1) by blast
qed

theorem identity_binds_content_witness:
  "\<exists>r r'. canonical_order id (\<lambda>_. 0) 10 1 path_01 = Inr r \<and>
     canonical_order id (\<lambda>_. 0) 10 1 path_53 = Inr r' \<and> (\<exists>f. graph_iso f path_01 path_53)"
proof -
  obtain r r' where r: "canonical_order id (\<lambda>_. 0) 10 1 path_01 = Inr r"
    "canonical_order id (\<lambda>_. 0) 10 1 path_53 = Inr r'"
    using run_path_strong unfolding run_path_def by blast
  have "map_sum id cpg_order_hash (canonical_order id (\<lambda>_. 0) 10 1 path_01) =
     map_sum id cpg_order_hash (canonical_order id (\<lambda>_. 0) 10 1 path_53)" by code_simp
  with r have "cpg_order_hash r = cpg_order_hash r'" by simp
  from identity_binds_content [OF _ r this] r show ?thesis by simp
qed

section \<open>The counted work\<close>

text \<open>Computations that keep the count of entered states within the limit.\<close>

definition bounded :: "'a bm \<Rightarrow> bool" where
  "bounded p \<longleftrightarrow> (\<forall>b. search_states b \<le> state_limit b \<longrightarrow>
     search_states (snd (p b)) \<le> state_limit b \<and> state_limit (snd (p b)) = state_limit b)"

named_theorems bounded_intro

lemma bounded_prompt: "prompt p r \<Longrightarrow> bounded p"
  by (simp add: bounded_def prompt_def quiet_def same_budget_def)

lemma boundedD:
  "bounded p \<Longrightarrow> p b = (x, b') \<Longrightarrow> search_states b \<le> state_limit b \<Longrightarrow>
     search_states b' \<le> state_limit b' \<and> state_limit b' = state_limit b"
  unfolding bounded_def by (metis snd_conv)

lemma boundedI:
  "(\<And>b x b'. p b = (x, b') \<Longrightarrow> search_states b \<le> state_limit b \<Longrightarrow>
     search_states b' \<le> state_limit b' \<and> state_limit b' = state_limit b) \<Longrightarrow> bounded p"
  unfolding bounded_def by (metis prod.collapse)

lemma bounded_bind [bounded_intro]:
  assumes "bounded p" and "\<And>x. bounded (f x)"
  shows "bounded (m_bind p f)"
proof (rule boundedI)
  fix b x b' assume m: "m_bind p f b = (x, b')" and le: "search_states b \<le> state_limit b"
  obtain y c where p: "p b = (y, c)" by fastforce
  note c = boundedD [OF assms(1) p le]
  show "search_states b' \<le> state_limit b' \<and> state_limit b' = state_limit b"
  proof (cases y)
    case (Inl e)
    with m p c show ?thesis by (simp add: m_bind_run)
  next
    case (Inr v)
    with m p have "f v c = (x, b')" by (simp add: m_bind_run)
    from boundedD [OF assms(2) this] c show ?thesis by simp
  qed
qed

lemma bounded_if [bounded_intro]: "bounded p \<Longrightarrow> bounded q \<Longrightarrow> bounded (if c then p else q)"
  by simp

lemma bounded_enter [bounded_intro]: "bounded enter_state"
  by (auto simp: bounded_def enter_state_def budget_check_def read_clock_def m_bind_run)

lemmas bounded_basic [bounded_intro] =
  bounded_prompt [OF prompt_refine] bounded_prompt [OF prompt_encode]
  bounded_prompt [OF prompt_representatives] bounded_prompt [OF prompt_push]
  bounded_prompt [OF prompt_lift] bounded_prompt [OF prompt_return]
  bounded_prompt [OF prompt_check] bounded_prompt [OF prompt_build]

lemma bounded_search_loop [bounded_intro]: "bounded (search_loop fuel g ix ps best)"
proof (induction fuel arbitrary: ps best)
  case 0
  then show ?case by (cases ps) (simp_all only: search_loop.simps bounded_basic)
next
  case (Suc fuel)
  then show ?case
  proof (cases ps)
    case Nil
    then show ?thesis by (simp only: search_loop.simps bounded_basic)
  next
    case (Cons m ps')
    show ?thesis unfolding Cons search_loop_Suc by (intro bounded_intro Suc.IH)
  qed
qed

lemma bounded_search: "bounded (canonical_search g ix)"
proof -
  have "bounded (m_bind (search_loop n g ix [[]] None) (\<lambda>best. m_lift
      (case best of Some (enc, order) \<Rightarrow> Inr (order, enc) | None \<Rightarrow> Inl AssertionError)))" for n
    by (intro bounded_intro)
  then show ?thesis unfolding bounded_def canonical_search_def by blast
qed

lemma bounded_attempt: "bounded (order_attempt H g ix)"
proof -
  have "bounded (fallback_attempt H g)"
    unfolding fallback_attempt_def by (intro bounded_intro)
  note fb = boundedD [OF this]
  show ?thesis
  proof (rule boundedI)
    fix b x b' assume m: "order_attempt H g ix b = (x, b')" and le: "search_states b \<le> state_limit b"
    obtain y c where p: "canonical_search g ix b = (y, c)" by fastforce
    note c = boundedD [OF bounded_search p le]
    from m p have "b' = c \<or> fallback_attempt H g c = (x, b')"
      by (auto simp: order_attempt_alt split: sum.splits if_splits)
    with c fb [of c x b'] show "search_states b' \<le> state_limit b' \<and> state_limit b' = state_limit b" by auto
  qed
qed

text \<open>
  What a result contains. The order lists every node of the graph exactly once; the hash
  is the domain-separated hash of the encoding in that order; the result is weak exactly when
  the search exhausted its states; the annotation, namespace and policy are the module's
  constants; and no more than \<open>B\<close> states were entered.
\<close>

theorem canonical_order_result_shape:
  assumes "canonical_order H clk B T g = Inr r"
  shows "distinct (canonical_order_of r) \<and> set (canonical_order_of r) = set (ids g) \<and>
    cpg_order_hash r = H (order_domain (fingerprint_class_of r) @ encoding g (canonical_order_of r)) \<and>
    (budget_exhausted r \<longleftrightarrow> fingerprint_class_of r = Weak) \<and>
    annotation r = CPG_ORDER_HASH_ANNOTATION \<and> identity_namespace r = GRAPH_IDENTITY_NAMESPACE \<and>
    budget_policy r = BUDGET_POLICY \<and> int (states_entered r) \<le> B"
proof -
  obtain enc where val: "valid_cpg g" and e: "encode_res g (canonical_order_of r) = Inr enc" and
    rest: "cpg_order_hash r = H (order_domain (fingerprint_class_of r) @ enc)"
      "annotation r = CPG_ORDER_HASH_ANNOTATION"
      "budget_exhausted r \<longleftrightarrow> fingerprint_class_of r = Weak"
      "identity_namespace r = GRAPH_IDENTITY_NAMESPACE" "budget_policy r = BUDGET_POLICY"
    by (rule canonical_order_shape [OF assms])
  from e have co: "complete_order g (canonical_order_of r)" and "enc = encoding g (canonical_order_of r)"
    by (auto simp: encode_res_Inr)
  from complete_order_distinct [OF _ co] val co
  have "distinct (canonical_order_of r) \<and> set (canonical_order_of r) = set (ids g)"
    by (simp add: valid_cpg_def complete_order_def)
  moreover have "int (states_entered r) \<le> B"
  proof -
    let ?b = "\<lparr>state_limit = nat B, duration = T, clock = clk, started_at = clk 0, search_states = 0, ticks = 1\<rparr>"
    from assms obtain b' where "B > 0" and run: "canonical_order_run H g ?b = (Inr r, b')"
      by (auto simp: canonical_order_start)
    obtain ix b1 x b2 where
      1: "build_index g ?b = (Inr ix, b1)" "order_attempt H g ix b1 = (Inr x, b2)"
        "states_entered r = search_states b2"
      by (rule canonical_order_Inr [OF run]) simp
    have "bounded (m_bind (build_index g) (order_attempt H g))"
      by (intro bounded_intro bounded_attempt)
    moreover have "m_bind (build_index g) (order_attempt H g) ?b = (Inr x, b2)"
      using 1 by (simp add: m_bind_run)
    ultimately have "search_states b2 \<le> nat B" by (auto dest: boundedD)
    with 1 \<open>B > 0\<close> show ?thesis by simp
  qed
  ultimately show ?thesis using rest \<open>enc = _\<close> by simp
qed

theorem canonical_order_result_shape_witness:
  "case canonical_order id (\<lambda>_. 0) 10 1 path_53 of Inl e \<Rightarrow> False
   | Inr r \<Rightarrow> distinct (canonical_order_of r) \<and> set (canonical_order_of r) = {3, 5} \<and> states_entered r \<le> 10"
proof -
  obtain r where r: "canonical_order id (\<lambda>_. 0) 10 1 path_53 = Inr r"
    using run_path_strong(2) unfolding run_path_def by blast
  from canonical_order_result_shape [OF r] r show ?thesis
    by (simp add: path_53_def ids_def sample_node_def)
qed

section \<open>Time and work\<close>

text \<open>A result without the reading of the clock it carries.\<close>

definition untimed :: "canonical_order_result res \<Rightarrow> canonical_order_result res" where
  "untimed x = map_sum id (\<lambda>r. r\<lparr>elapsed := 0\<rparr>) x"

lemma untimed_Inl [simp]: "untimed (Inl e) = Inl e"
  by (simp add: untimed_def)

lemma run_timeless:
  assumes sw: "same_work b c"
    and nb: "fst (canonical_order_run H g b) \<noteq> Inl CanonicalizationDeadlineExceeded"
    and nc: "fst (canonical_order_run H g c) \<noteq> Inl CanonicalizationDeadlineExceeded"
  shows "untimed (fst (canonical_order_run H g b)) = untimed (fst (canonical_order_run H g c))"
proof -
  let ?p = "m_bind (build_index g) (order_attempt H g)"
  let ?k = "\<lambda>(klass, order, enc). m_bind elapsed_ms (\<lambda>ms. m_bind budget_check (\<lambda>_ b.
       (Inr \<lparr>canonical_order_of = order, cpg_order_hash = H (order_domain klass @ enc),
             fingerprint_class_of = klass, annotation = CPG_ORDER_HASH_ANNOTATION,
             budget_exhausted = (klass = Weak), elapsed = ms,
             identity_namespace = GRAPH_IDENTITY_NAMESPACE, budget_policy = BUDGET_POLICY,
             states_entered = search_states b\<rparr>, b)))"
  have run: "canonical_order_run H g = m_bind ?p ?k"
    by (auto simp: canonical_order_run_def fun_eq_iff m_bind_run split: prod.splits sum.splits)
  have tp: "timeless ?p" by (intro timeless_bind timeless_basic timeless_attempt)
  have step: "fst (m_bind elapsed_ms (\<lambda>ms. m_bind budget_check (\<lambda>_. F ms)) d) =
      (if clock d (Suc (ticks d)) - started_at d \<ge> duration d then Inl CanonicalizationDeadlineExceeded
       else fst (F ((clock d (ticks d) - started_at d) * 1000) (d\<lparr>ticks := Suc (Suc (ticks d))\<rparr>)))"
    for F :: "real \<Rightarrow> canonical_order_result bm" and d
    by (simp add: m_bind_run elapsed_ms_def budget_check_def read_clock_def)
  obtain x b' y c' where pb: "?p b = (x, b')" and pc: "?p c = (y, c')" by fastforce
  have "x \<noteq> Inl CanonicalizationDeadlineExceeded" "y \<noteq> Inl CanonicalizationDeadlineExceeded"
    using nb nc pb pc unfolding run by (auto simp: m_bind_run [of ?p] split: sum.splits)
  from timelessD [OF tp sw pb pc this] have xy: "y = x" "same_work b' c'" by auto
  show ?thesis
  proof (cases x)
    case (Inl e)
    with pb pc xy show ?thesis unfolding run m_bind_run [of ?p] by simp
  next
    case (Inr v)
    obtain klass order enc where v: "v = (klass, order, enc)" by (cases v)
    from nb nc xy pb pc show ?thesis
      unfolding run m_bind_run [of ?p] pb pc prod.case Inr xy(1) sum.case v step
      by (simp add: untimed_def same_work_def split: if_splits)
  qed
qed

lemma canonical_order_timeless:
  assumes "T > 0" and "T' > 0"
    and "canonical_order H clk B T g \<noteq> Inl CanonicalizationDeadlineExceeded"
    and "canonical_order H clk' B T' g \<noteq> Inl CanonicalizationDeadlineExceeded"
  shows "untimed (canonical_order H clk B T g) = untimed (canonical_order H clk' B T' g)"
proof (cases "B \<le> 0")
  case True
  then show ?thesis by (simp add: canonical_order_def budget_start_def)
next
  case False
  with assms show ?thesis
    by (auto simp: canonical_order_def budget_start_def duration_seconds_def same_work_def
        intro!: run_timeless)
qed

text \<open>
  The clock never chooses the result. Two runs on the same graph with the same state limit
  that both finish before their deadlines return the same value: the same order, hash, class,
  state count or the same error; only the reported elapsed time may differ.
\<close>

theorem clock_never_chooses:
  assumes "T > 0" and "T' > 0"
    and "canonical_order H clk B T g \<noteq> Inl CanonicalizationDeadlineExceeded"
    and "canonical_order H clk' B T' g \<noteq> Inl CanonicalizationDeadlineExceeded"
  shows "untimed (canonical_order H clk B T g) = untimed (canonical_order H clk' B T' g)"
  using assms by (rule canonical_order_timeless)

theorem clock_never_chooses_witness:
  "untimed (canonical_order id (\<lambda>_. 0) 10 1 path_01) =
   untimed (canonical_order id (\<lambda>k. real k) 10 1000 path_01)"
proof -
  have "(case canonical_order id (\<lambda>k. real k) 10 1000 path_01 of Inl e \<Rightarrow> False | Inr _ \<Rightarrow> True)"
    by code_simp
  then show ?thesis
    using run_path_strong(1) unfolding run_path_def
    by (intro clock_never_chooses) (auto split: sum.splits)
qed

text \<open>
  C30. Every supported graph gets a result. A valid graph (distinct unsigned 64-bit ids, edges
  between its nodes with nonempty kinds, field lengths and counts below \<open>2 ^ 64\<close>) gets a
  result, strong or weak, whenever the limits are positive and no clock reading reaches the
  deadline: the search never hits its assertion, never runs on, and its exhaustion is always
  recovered by the fallback.
\<close>

theorem canonical_order_returns:
  assumes "small_cpg g" and "B > 0" and "\<forall>k. clk k - clk 0 < T"
  shows "\<exists>r. canonical_order H clk B T g = Inr r"
proof -
  have "0 < T" using assms(3) by (metis diff_self)
  let ?b = "\<lparr>state_limit = nat B, duration = T, clock = clk, started_at = clk 0, search_states = 0, ticks = 1\<rparr>"
  have "never_expires ?b" using assms(3) by (simp add: never_expires_def)
  from canonical_order_runs [OF assms(1) this, of H] \<open>0 < T\<close> assms(2) show ?thesis
    by (auto simp: canonical_order_start)
qed

theorem canonical_order_returns_witness:
  "\<exists>r. canonical_order id (\<lambda>_. 0) 10 1 path_01 = Inr r"
  by (rule canonical_order_returns [OF path_small]) simp_all

text \<open>
  The errors are exact. With positive limits and fewer than \<open>2 ^ 64\<close> nodes and edges,
  \<open>canonical_order\<close> returns a result only for a valid graph, and raises only the deadline
  error or, on an invalid graph, \<open>ValueError\<close>; no assertion, exhaustion or loop bound escapes.
\<close>

theorem canonical_order_errors:
  assumes "B > 0" and "T > 0" and "length (nodes g) < 2 ^ 64" and "length (edges g) < 2 ^ 64"
  shows "case canonical_order H clk B T g of
      Inr r \<Rightarrow> valid_cpg g
    | Inl e \<Rightarrow> e = CanonicalizationDeadlineExceeded \<or> \<not> valid_cpg g \<and> (\<exists>m. e = ValueError m)"
proof (cases "canonical_order H clk B T g")
  case (Inr r)
  then show ?thesis using canonical_order_shape [OF Inr] by auto
next
  case (Inl e)
  let ?b = "\<lambda>clk. \<lparr>state_limit = nat B, duration = T, clock = clk, started_at = clk 0, search_states = 0, ticks = 1\<rparr>"
  have run: "fst (canonical_order_run H g (?b clk)) = Inl e"
    using Inl assms by (simp add: canonical_order_def budget_start_def duration_seconds_def)
  show ?thesis
  proof (cases "valid_cpg g")
    case True
    then have "small_cpg g" using assms by (simp add: small_cpg_def)
    moreover have "never_expires (?b (\<lambda>_. 0))" using assms(2) by (simp add: never_expires_def)
    ultimately obtain r b' where r: "canonical_order_run H g (?b (\<lambda>_. 0)) = (Inr r, b')"
      using canonical_order_runs by fastforce
    have "same_work (?b clk) (?b (\<lambda>_. 0))" by (simp add: same_work_def)
    from run_timeless [OF this, of H g] run r have "e = CanonicalizationDeadlineExceeded"
      by (cases "e = CanonicalizationDeadlineExceeded") (simp_all add: untimed_def)
    with Inl show ?thesis by simp
  next
    case False
    obtain x b1 where bi: "build_index g (?b clk) = (x, b1)" by fastforce
    have "\<exists>m. check_cpg g = Inl (ValueError m)"
      using False check_cpg_Inr [of g "()"] verr_check_cpg [of g]
      by (cases "check_cpg g") (auto simp: value_error_only_def)
    then obtain m where "prompt (build_index g) (Inl (ValueError m))"
      using prompt_build [of g] by auto
    with bi have "x = Inl (ValueError m) \<or> x = Inl CanonicalizationDeadlineExceeded"
      unfolding prompt_def quiet_def by (metis fst_conv)
    with run bi Inl False show ?thesis
      by (auto simp: canonical_order_run_def m_bind_run)
  qed
qed

theorem canonical_order_errors_witness:
  "case canonical_order id (\<lambda>_. 0) 10 1 \<lparr>nodes = [], edges = [\<lparr>src = 0, dst = 1, ekind = ''CFG''\<rparr>]\<rparr> of
      Inr r \<Rightarrow> False | Inl e \<Rightarrow> e = CanonicalizationDeadlineExceeded \<or> (\<exists>m. e = ValueError m)"
proof -
  let ?g = "\<lparr>nodes = [], edges = [\<lparr>src = 0, dst = 1, ekind = ''CFG''\<rparr>]\<rparr> :: cpg"
  have "\<not> valid_cpg ?g" by (simp add: valid_cpg_def edge_ok_def ids_def)
  then show ?thesis
    using canonical_order_errors [of 10 1 ?g id "\<lambda>_. 0"] by (auto split: sum.splits)
qed

end
