(* ===== verification/Solver.thy ===== *)
theory Solver
  imports Tabulation_Correct Ordering_Contract
begin

text \<open>
  Findings and the entry points \<open>solve\<close> and \<open>incremental_solve\<close> of
  \<open>analysis/ifds/solver.py\<close>. The hash \<open>H\<close> and the clock readings are the parameters of
  \<open>canonical_order\<close>. A frozenset argument is given as the list of its elements in the
  order in which it is iterated; error messages that interpolate values are abbreviated.
\<close>

section \<open>Results\<close>

record finding =
  sink_node :: node_id
  sink_fact :: fact
  witness_path :: "node_id list"
  finding_spec :: string
  origin :: string
  S_version :: string
  env_digest :: bytes
  finding_order_hash :: bytes
  finding_annotation :: string
  finding_class :: fingerprint_class
  finding_engine :: string

record solver_result =
  findings :: "finding set"
  solution_hash :: bytes
  visited_procs :: "proc_id set"
  result_summaries :: summary_cache

section \<open>Read-out\<close>

definition make_finding ::
  "spec \<Rightarrow> string \<Rightarrow> bytes \<Rightarrow> canonical_order_result \<Rightarrow> node_id \<Rightarrow> fact \<Rightarrow> node_id list \<Rightarrow> finding" where
  "make_finding spec sv env ores v f w =
     \<lparr>sink_node = v, sink_fact = f, witness_path = w, finding_spec = spec_id spec,
      origin = ''deterministic-core'', S_version = sv, env_digest = env,
      finding_order_hash = cpg_order_hash ores, finding_annotation = CPG_ORDER_HASH_ANNOTATION,
      finding_class = fingerprint_class_of ores, finding_engine = engine spec\<rparr>"

definition node_findings ::
  "supergraph \<Rightarrow> spec \<Rightarrow> tab \<Rightarrow> string \<Rightarrow> bytes \<Rightarrow> canonical_order_result \<Rightarrow> node_id \<Rightarrow> finding list res" where
  "node_findings sg spec t sv env ores v =
     (if \<not> is_sink_node spec (node_by_id (sg_cpg sg) v) then Inr []
      else r_map (\<lambda>f. r_bind (witness (pred t) v f) (\<lambda>w. Inr (make_finding spec sv env ores v f w)))
             (sorted_list_of_set (facts_at t v)))"

definition build_findings ::
  "supergraph \<Rightarrow> spec \<Rightarrow> tab \<Rightarrow> string \<Rightarrow> bytes \<Rightarrow> canonical_order_result \<Rightarrow> finding list res" where
  "build_findings sg spec t sv env ores =
     r_bind (r_map (node_findings sg spec t sv env ores)
       (sort_key (\<lambda>v. (canon_pos (canonical_order_of ores) v, v)) (ids (sg_cpg sg))))
       (\<lambda>fss. Inr (concat fss))"

section \<open>Solution hash\<close>

definition finding_bytes :: "finding \<Rightarrow> bytes res" where
  "finding_bytes x =
     r_bind (to_bytes8 (sink_node x)) (\<lambda>a. r_bind (to_bytes8 (int (sink_fact x))) (\<lambda>b.
     r_bind (r_map to_bytes8 (witness_path x)) (\<lambda>ws. Inr (a @ b @ concat ws @ ''|''))))"

definition finding_key :: "node_id list \<Rightarrow> finding \<Rightarrow> int \<times> int" where
  "finding_key order x = (canon_pos order (sink_node x), int (sink_fact x))"

definition hash_solution ::
  "(bytes \<Rightarrow> bytes) \<Rightarrow> finding list \<Rightarrow> node_id list \<Rightarrow> bytes res" where
  "hash_solution H fs order =
     r_bind (r_map finding_bytes (sort_key (finding_key order) fs)) (\<lambda>bs. Inr (H (concat bs)))"

section \<open>Entry points\<close>

definition require_pinned :: "string \<Rightarrow> string \<Rightarrow> unit res" where
  "require_pinned val nm =
     (if val = [] then Inl (ValueError (nm @ '' is required (INV-2)'')) else Inr ())"

definition solve ::
  "(bytes \<Rightarrow> bytes) \<Rightarrow> (nat \<Rightarrow> real) \<Rightarrow> cpg \<Rightarrow> spec \<Rightarrow> string \<Rightarrow> bytes \<Rightarrow> solver_result res" where
  "solve H clk g spec sv env =
     r_bind (require_pinned sv ''S_version'') (\<lambda>_.
     r_bind (require_pinned env ''env_digest'') (\<lambda>_.
     if engine spec \<notin> {''ifds'', ''ide''} then Inl (NonDistributiveSpec (spec_id spec))
     else r_bind (canonical_order H clk DEFAULT_B DEFAULT_T g) (\<lambda>ores.
       let order = canonical_order_of ores;
           sg = build_supergraph g order;
           cache = \<lparr>header = (sv, env), summaries = Map.empty, cache_visited = {}\<rparr>
       in r_bind (tabulate sg spec (seeded (seed_sources sg spec)) None cache order) (\<lambda>(t, cache').
          r_bind (build_findings sg spec t sv env ores) (\<lambda>fs.
          r_bind (hash_solution H fs order) (\<lambda>h.
          Inr \<lparr>findings = set fs, solution_hash = h, visited_procs = visited t,
               result_summaries = cache'\<rparr>))))))"

definition check_prior :: "string \<Rightarrow> bytes \<Rightarrow> finding list \<Rightarrow> unit res" where
  "check_prior sv env prior =
     (if \<exists>x \<in> set prior. S_version x \<noteq> sv \<or> env_digest x \<noteq> env
      then Inl (ValueError ''INV-2: prior_findings do not match this run'') else Inr ())"

definition preserved :: "supergraph \<Rightarrow> proc_id set \<Rightarrow> finding list \<Rightarrow> finding list" where
  "preserved sg closure prior = filter (\<lambda>x. case proc_of_node sg (sink_node x) of
      None \<Rightarrow> True | Some p \<Rightarrow> p \<notin> closure) prior"

definition incremental_solve ::
  "(bytes \<Rightarrow> bytes) \<Rightarrow> (nat \<Rightarrow> real) \<Rightarrow> cpg \<Rightarrow> spec \<Rightarrow> proc_id set \<Rightarrow> summary_cache \<Rightarrow>
   string \<Rightarrow> bytes \<Rightarrow> finding list \<Rightarrow> solver_result res" where
  "incremental_solve H clk g spec affected prior_summaries sv env prior_findings =
     r_bind (require_pinned sv ''S_version'') (\<lambda>_.
     r_bind (require_pinned env ''env_digest'') (\<lambda>_.
     if engine spec \<notin> {''ifds'', ''ide''} then Inl (NonDistributiveSpec (spec_id spec))
     else if header prior_summaries \<noteq> (sv, env) then Inl (ValueError ''SummaryCacheVersionMismatch'')
     else r_bind (canonical_order H clk DEFAULT_B DEFAULT_T g) (\<lambda>ores.
       let order = canonical_order_of ores;
           sg = build_supergraph g order
       in r_bind (case transitive_callers sg affected of None \<Rightarrow> Inl OutOfFuel | Some cs \<Rightarrow> Inr cs) (\<lambda>cs.
       let closure = affected \<union> cs;
           cache = invalidate closure (cache_copy prior_summaries)
       in r_bind (tabulate sg spec (seeded (seed_sources sg spec)) (Some closure) cache order) (\<lambda>(t, cache').
          r_bind (build_findings sg spec t sv env ores) (\<lambda>fresh.
          r_bind (check_prior sv env prior_findings) (\<lambda>_.
          let fs = fresh @ preserved sg closure prior_findings
          in r_bind (hash_solution H fs order) (\<lambda>h.
          Inr \<lparr>findings = set fs, solution_hash = h, visited_procs = visited t,
               result_summaries = cache'\<rparr>))))))))"

end
