(* ===== verification/Solver_Correct.thy ===== *)
theory Solver_Correct
  imports Solver
begin

text \<open>
  What \<open>solve\<close> reports: exactly the sinks that taint reaches, each with a real path; and that
  it returns whenever the canonical order does.
\<close>

section \<open>Taint on the graph\<close>

definition taint_edge :: "cpg \<Rightarrow> spec \<Rightarrow> node_id \<Rightarrow> node_id \<Rightarrow> bool" where
  "taint_edge g spec u v \<longleftrightarrow> \<not> sanitized_at spec (node_by_id g u) \<and> (cfg_edge g u v \<or> call_edge g u v)"

definition taints :: "cpg \<Rightarrow> spec \<Rightarrow> node_id \<Rightarrow> node_id \<Rightarrow> bool" where
  "taints g spec = (taint_edge g spec)\<^sup>*\<^sup>*"

text \<open>A source that starts a flow: it matches a source clause and belongs to a procedure.\<close>

definition taint_source :: "cpg \<Rightarrow> spec \<Rightarrow> node_id \<Rightarrow> bool" where
  "taint_source g spec s \<longleftrightarrow> s \<in> set (ids g) \<and> source_node spec (node_by_id g s) \<and> owned g (node_by_id g s)"

lemma flow_step_full:
  "flow_step g spec None x y \<longleftrightarrow> snd y = snd x \<and> taint_edge g spec (fst x) (fst y)"
  by (auto simp: flow_step_def taint_edge_def proc_in_scope_def)

lemma flow_step_fact: "flow_step g spec R x y \<Longrightarrow> snd y = snd x"
  by (simp add: flow_step_def)

lemma flows_fact: "flows g spec R x y \<Longrightarrow> snd y = snd x"
  unfolding flows_def by (induction rule: rtranclp_induct) (auto dest: flow_step_fact)

lemma flows_full: "flows g spec None x y \<longleftrightarrow> snd y = snd x \<and> taints g spec (fst x) (fst y)"
proof
  assume "flows g spec None x y"
  then show "snd y = snd x \<and> taints g spec (fst x) (fst y)"
    unfolding flows_def taints_def
    by (induction rule: rtranclp_induct) (auto simp: flow_step_full intro: rtranclp.rtrancl_into_rtrancl)
next
  assume r: "snd y = snd x \<and> taints g spec (fst x) (fst y)"
  have "(flow_step g spec None)\<^sup>*\<^sup>* (a, f) (b, f)" if "(taint_edge g spec)\<^sup>*\<^sup>* a b" for a b f
    using that
    by (induction rule: rtranclp_induct)
      (auto intro: rtranclp.rtrancl_into_rtrancl simp: flow_step_full)
  then show "flows g spec None x y" using r unfolding flows_def taints_def by (metis prod.collapse)
qed

section \<open>Read-out\<close>

definition witness_of :: "tab \<Rightarrow> node_id \<Rightarrow> fact \<Rightarrow> node_id list" where
  "witness_of t v f = (case witness (pred t) v f of Inl _ \<Rightarrow> [] | Inr w \<Rightarrow> w)"

definition findings_list ::
  "supergraph \<Rightarrow> spec \<Rightarrow> tab \<Rightarrow> string \<Rightarrow> bytes \<Rightarrow> canonical_order_result \<Rightarrow> finding list" where
  "findings_list sg spec t sv env ores = concat (map (\<lambda>v.
     if is_sink_node spec (node_by_id (sg_cpg sg) v)
     then map (\<lambda>f. make_finding spec sv env ores v f (witness_of t v f)) (sorted_list_of_set (facts_at t v))
     else []) (sort_key (\<lambda>v. (canon_pos (canonical_order_of ores) v, v)) (ids (sg_cpg sg))))"

lemma make_finding_sel [simp]:
  "sink_node (make_finding spec sv env ores v f w) = v"
  "sink_fact (make_finding spec sv env ores v f w) = f"
  "witness_path (make_finding spec sv env ores v f w) = w"
  by (simp_all add: make_finding_def)

lemma tab_inv_finite: "tab_inv sg R S t \<Longrightarrow> finite (facts_at t v)"
proof -
  assume "tab_inv sg R S t"
  then have "finite (marked t)" unfolding tab_inv_def by (metis finite_imageI finite_set)
  moreover have "facts_at t v \<subseteq> snd ` marked t" by (auto simp: marked_def intro!: image_eqI [where x = "(v, _)"])
  ultimately show ?thesis using finite_surj by blast
qed

lemma tab_inv_witness:
  assumes "tab_inv sg R S t" and "f \<in> facts_at t v"
  shows "witness (pred t) v f = Inr (witness_of t v f) \<and>
    (\<exists>xs. witness_of t v f = map fst xs \<and> item_path R S xs \<and> last xs = (v, f))"
proof -
  have "(v, f) \<in> fst ` set (pred t)" "linked R S (pred t)"
    using assms unfolding tab_inv_def by (auto simp: marked_def)
  from witness_path [OF this(2,1)] obtain xs where "witness (pred t) v f = Inr (map fst xs)"
    "item_path R S xs" "last xs = (v, f)" by blast
  then show ?thesis by (auto simp: witness_of_def)
qed

lemma build_findings_run:
  assumes "tab_inv sg R S t"
  shows "build_findings sg spec t sv env ores = Inr (findings_list sg spec t sv env ores)"
proof -
  have "node_findings sg spec t sv env ores v = Inr (if is_sink_node spec (node_by_id (sg_cpg sg) v)
     then map (\<lambda>f. make_finding spec sv env ores v f (witness_of t v f)) (sorted_list_of_set (facts_at t v))
     else [])" for v
    using tab_inv_witness [OF assms] tab_inv_finite [OF assms]
    by (auto simp: node_findings_def intro!: r_map_total)
  then show ?thesis unfolding build_findings_def findings_list_def
    by (subst r_map_total) (auto simp: o_def)
qed

lemma set_findings_list:
  assumes "tab_inv sg R S t"
  shows "set (findings_list sg spec t sv env ores) =
    {make_finding spec sv env ores v f (witness_of t v f) | v f.
      v \<in> set (ids (sg_cpg sg)) \<and> is_sink_node spec (node_by_id (sg_cpg sg) v) \<and> (v, f) \<in> marked t}"
  using tab_inv_finite [OF assms] by (auto simp: findings_list_def marked_def)

section \<open>A completed run\<close>

lemma no_splice_empty: "no_splice R \<lparr>header = h, summaries = Map.empty, cache_visited = V\<rparr>"
  by (simp add: no_splice_def)

lemma no_splice_invalidated: "no_splice (Some ps) (invalidate ps c)"
  by (simp add: no_splice_def proc_in_scope_def invalidate_def)

text \<open>The tabulation from the seeds of a specification, full or restricted.\<close>

definition spec_seeds :: "cpg \<Rightarrow> spec \<Rightarrow> node_id list \<Rightarrow> proc_id set option \<Rightarrow> item set" where
  "spec_seeds g spec order R = {x \<in> seeds_of (seeded (seed_sources (build_supergraph g order) spec)).
     proc_in_scope R (proc_of_node (build_supergraph g order) (fst x))}"

lemma seed_items_spec:
  "set (seed_items (build_supergraph g order) R (seeded (seed_sources (build_supergraph g order) spec))) =
   spec_seeds g spec order R"
  by (auto simp: set_seed_items spec_seeds_def seeds_of_def)

lemma run_tabulation:
  assumes val: "valid_cpg g" and ns: "no_splice R cache"
  shows "\<exists>t. tabulate (build_supergraph g order) spec (seeded (seed_sources (build_supergraph g order) spec)) R cache order
      = Inr (t, record_summaries (build_supergraph g order) t cache) \<and>
    marked t = {y. \<exists>x \<in> spec_seeds g spec order R. flows g spec R x y} \<and>
    tab_inv (build_supergraph g order) (spec_seeds g spec order R) (\<lambda>x. {y. flow_step g spec R x y}) t"
  using tabulate_result [OF val ns, of "seeded (seed_sources (build_supergraph g order) spec)" order spec order]
    seed_sources_facts(2) [OF build_supergraph_facts(1) [OF val, of order], of spec]
  unfolding seed_items_spec by blast

lemma spec_seeds_full:
  assumes val: "valid_cpg g"
  shows "fst ` spec_seeds g spec order None = {s. taint_source g spec s}"
proof -
  let ?sg = "build_supergraph g order"
  have own: "proc_of_node ?sg v \<noteq> None \<longleftrightarrow> owned g (node_by_id g v)" if "v \<in> set (ids g)" for v
    using build_supergraph_facts(9) [OF val, of "node_by_id g v" order] node_by_id_in [OF that] by simp
  have "fst ` spec_seeds g spec order None =
      {v \<in> fst ` seeds_of (seeded (seed_sources ?sg spec)). proc_of_node ?sg v \<noteq> None}"
    by (force simp: spec_seeds_def proc_in_scope_def split: option.splits)
  then show ?thesis
    using seed_sources_facts(1) [OF build_supergraph_facts(1) [OF val, of order], of spec] own
    by (auto simp: taint_source_def)
qed

lemma solve_Inr:
  assumes "solve H clk g spec sv env = Inr r"
  obtains ores t where
    "canonical_order H clk DEFAULT_B DEFAULT_T g = Inr ores" and "valid_cpg g"
    and "engine spec \<in> {''ifds'', ''ide''}" and "sv \<noteq> []" and "env \<noteq> []"
    and "marked t = {y. \<exists>x \<in> spec_seeds g spec (canonical_order_of ores) None. flows g spec None x y}"
    and "tab_inv (build_supergraph g (canonical_order_of ores)) (spec_seeds g spec (canonical_order_of ores) None)
      (\<lambda>x. {y. flow_step g spec None x y}) t"
    and "findings r = set (findings_list (build_supergraph g (canonical_order_of ores)) spec t sv env ores)"
    and "hash_solution H (findings_list (build_supergraph g (canonical_order_of ores)) spec t sv env ores)
      (canonical_order_of ores) = Inr (solution_hash r)"
    and "visited_procs r = visited t"
    and "tabulate (build_supergraph g (canonical_order_of ores)) spec
       (seeded (seed_sources (build_supergraph g (canonical_order_of ores)) spec)) None
       \<lparr>header = (sv, env), summaries = Map.empty, cache_visited = {}\<rparr> (canonical_order_of ores) =
       Inr (t, result_summaries r)"
proof -
  from assms obtain ores where o: "canonical_order H clk DEFAULT_B DEFAULT_T g = Inr ores"
    and eng: "engine spec \<in> {''ifds'', ''ide''}" "sv \<noteq> []" "env \<noteq> []"
    by (auto simp: solve_def require_pinned_def r_bind_Inr_iff split: if_splits)
  have val: "valid_cpg g" by (rule canonical_order_shape [OF o])
  let ?sg = "build_supergraph g (canonical_order_of ores)"
  let ?c = "\<lparr>header = (sv, env), summaries = Map.empty, cache_visited = {}\<rparr> :: summary_cache"
  from run_tabulation [OF val no_splice_empty [of None "(sv, env)" "{}"], of "canonical_order_of ores" spec]
  obtain t where t: "tabulate ?sg spec (seeded (seed_sources ?sg spec)) None ?c (canonical_order_of ores) =
      Inr (t, record_summaries ?sg t ?c)"
    "marked t = {y. \<exists>x \<in> spec_seeds g spec (canonical_order_of ores) None. flows g spec None x y}"
    "tab_inv ?sg (spec_seeds g spec (canonical_order_of ores) None) (\<lambda>x. {y. flow_step g spec None x y}) t"
    by blast
  note run = build_findings_run [OF t(3), of spec sv env ores]
  have "findings r = set (findings_list ?sg spec t sv env ores) \<and>
      hash_solution H (findings_list ?sg spec t sv env ores) (canonical_order_of ores) = Inr (solution_hash r) \<and>
      visited_procs r = visited t \<and> result_summaries r = record_summaries ?sg t ?c"
    using assms o eng by (auto simp: solve_def require_pinned_def t(1) run Let_def r_bind_Inr_iff)
  with that [OF o val eng t(2,3)] t(1) show thesis by simp
qed

section \<open>Returning\<close>

lemma to_bytes8_total: "0 \<le> v \<Longrightarrow> v < 2 ^ 64 \<Longrightarrow> to_bytes8 v = Inr (be8 (nat v))"
  by (simp add: to_bytes8_def)

lemma ids_range: "valid_cpg g \<Longrightarrow> v \<in> set (ids g) \<Longrightarrow> 0 \<le> v \<and> v < 2 ^ 64"
  by (auto simp: valid_cpg_def node_ok_def ids_def)

lemma finding_bytes_total:
  assumes "valid_cpg g" and "sink_node x \<in> set (ids g)" and "sink_fact x < 2 ^ 64"
    and "set (witness_path x) \<subseteq> set (ids g)"
  shows "\<exists>b. finding_bytes x = Inr b"
proof -
  have "r_map to_bytes8 (witness_path x) = Inr (map (\<lambda>v. be8 (nat v)) (witness_path x))"
    using assms(4) ids_range [OF assms(1)] by (intro r_map_total to_bytes8_total) auto
  moreover have "int (sink_fact x) < 2 ^ 64" using assms(3) by (simp add: flip: of_nat_less_iff)
  ultimately show ?thesis
    using ids_range [OF assms(1,2)] by (simp add: finding_bytes_def to_bytes8_total)
qed

lemma hash_solution_total:
  "(\<And>x. x \<in> set fs \<Longrightarrow> \<exists>b. finding_bytes x = Inr b) \<Longrightarrow> \<exists>h. hash_solution H fs order = Inr h"
proof -
  assume "\<And>x. x \<in> set fs \<Longrightarrow> \<exists>b. finding_bytes x = Inr b"
  then obtain g where "\<And>x. x \<in> set fs \<Longrightarrow> finding_bytes x = Inr (g x)" by metis
  then have "r_map finding_bytes (sort_key (finding_key order) fs) = Inr (map g (sort_key (finding_key order) fs))"
    by (intro r_map_total) simp
  then show ?thesis by (simp add: hash_solution_def)
qed

lemma seed_clauses_count: "next_fact (fold (seed_clause n) cs st) \<le> next_fact st + length cs"
proof (induction cs arbitrary: st)
  case (Cons c cs)
  from Cons.IH [of "seed_clause n c st"] show ?case by (auto simp: seed_clause_def split: if_splits)
qed simp

lemma seed_nodes_count:
  "next_fact (fold (\<lambda>v. fold (seed_clause (node v)) cs) vs st) \<le> next_fact st + length vs * length cs"
proof (induction vs arbitrary: st)
  case (Cons v vs)
  from Cons.IH [of "fold (seed_clause (node v)) cs st"] seed_clauses_count [of "node v" cs st] show ?case by simp
qed simp

lemma seed_facts_bound:
  assumes "sg_cpg sg = g" and "x \<in> seeds_of (seeded (seed_sources sg spec))"
  shows "snd x < length (nodes g) * length (clauses spec)"
proof -
  let ?cs = "filter is_Source (clauses spec)" and ?vs = "sort (remdups (ids g))"
  let ?st = "\<lparr>next_fact = 0, seeded = [], fact_pattern = []\<rparr> :: seeding"
  have "seeding_inv {} ?st" by (simp add: seeding_inv_def seeds_of_def)
  from seed_nodes_inv [OF _ this, of ?vs g ?cs] have "snd x < next_fact (seed_sources sg spec)"
    using assms by (auto simp: seed_sources_def seeding_inv_def)
  also have "\<dots> \<le> length ?vs * length ?cs"
    using seed_nodes_count [of "node_by_id g" ?cs ?vs ?st] by (simp add: seed_sources_def assms(1))
  also have "\<dots> \<le> length (nodes g) * length (clauses spec)"
    using length_remdups_leq [of "ids g"] by (intro mult_le_mono) (simp_all add: ids_def)
  finally show ?thesis .
qed

text \<open>Every finding of a completed tabulation is hashable.\<close>

lemma findings_hashable:
  assumes val: "valid_cpg g" and small: "length (nodes g) * length (clauses spec) < 2 ^ 64"
    and inv: "tab_inv (build_supergraph g order) (spec_seeds g spec order R) (\<lambda>x. {y. flow_step g spec R x y}) t"
    and m: "marked t = {y. \<exists>x \<in> spec_seeds g spec order R. flows g spec R x y}"
    and x: "x \<in> set (findings_list (build_supergraph g order) spec t sv env ores)"
  shows "\<exists>b. finding_bytes x = Inr b"
proof -
  let ?sg = "build_supergraph g order"
  have g: "sg_cpg ?sg = g" by (rule build_supergraph_facts(1) [OF val])
  from x obtain v f where v: "v \<in> set (ids g)" "(v, f) \<in> marked t"
    and x: "x = make_finding spec sv env ores v f (witness_of t v f)"
    unfolding set_findings_list [OF inv] g by blast
  have "f < 2 ^ 64"
    using v(2) seed_facts_bound [OF g, of _ spec] small flows_fact
    unfolding m spec_seeds_def by fastforce
  moreover have "set (witness_of t v f) \<subseteq> set (ids g)"
  proof -
    obtain xs where xs: "witness_of t v f = map fst xs" "item_path (spec_seeds g spec order R)
        (\<lambda>x. {y. flow_step g spec R x y}) xs"
      using tab_inv_witness [OF inv, of f v] v(2) by (auto simp: marked_def)
    have "fst y \<in> set (ids g)" if "y \<in> set xs" for y
      using that xs(2) unfolding item_path_def
    proof (induction xs rule: rev_induct)
      case (snoc z zs)
      show ?case
      proof (cases "zs = []")
        case True
        with snoc.prems have "y \<in> spec_seeds g spec order R" by simp
        then show ?thesis using seed_sources_facts(1) [OF g, of spec] unfolding spec_seeds_def by auto
      next
        case False
        with snoc.prems have "successively (\<lambda>x y. y \<in> {y. flow_step g spec R x y}) zs"
          "flow_step g spec R (last zs) z" by (simp_all add: successively_append_iff)
        with False snoc show ?thesis using flow_step_in [OF val, of spec R "last zs" z] by auto
      qed
    qed simp
    with xs(1) show ?thesis by auto
  qed
  ultimately show ?thesis using v(1) by (intro finding_bytes_total [OF val]) (simp_all add: x make_finding_def)
qed

end
