(* ===== verification/Incremental.thy ===== *)
theory Incremental
  imports Solver_Correct
begin

text \<open>
  The bounded incremental mode. When control-flow edges stay inside procedures, the restricted
  tabulation is the projection of the full one onto the caller closure: same facts, same
  predecessors, same order. It follows that a re-run with the prior findings reproduces the
  full result, witnesses and solution hash included.
\<close>

section \<open>The closure\<close>

definition intraprocedural :: "supergraph \<Rightarrow> bool" where
  "intraprocedural sg \<longleftrightarrow> (\<forall>e \<in> set (edges (sg_cpg sg)). ekind e = CFG_EDGE \<longrightarrow>
     proc_of_node sg (src e) = proc_of_node sg (dst e))"

definition caller_closure :: "supergraph \<Rightarrow> proc_id set \<Rightarrow> proc_id set" where
  "caller_closure sg ps = ps \<union> {p. \<exists>q \<in> ps. (p, q) \<in> (calls sg)\<^sup>+}"

definition inside :: "supergraph \<Rightarrow> proc_id set \<Rightarrow> node_id \<Rightarrow> bool" where
  "inside sg C v \<longleftrightarrow> (\<exists>p \<in> C. proc_of_node sg v = Some p)"

lemma caller_closure_closed: "q \<in> caller_closure sg ps \<Longrightarrow> p \<in> callers sg q \<Longrightarrow> p \<in> caller_closure sg ps"
  by (auto simp: caller_closure_def calls_def intro: trancl_into_trancl2)

lemma closure_runs:
  assumes "valid_cpg g" and "finite ps"
  shows "transitive_callers (build_supergraph g order) ps =
    Some {p. \<exists>q \<in> ps. (p, q) \<in> (calls (build_supergraph g order))\<^sup>+}"
proof (rule transitive_callers_runs [OF _ assms(2)])
  show "callers (build_supergraph g order) p \<subseteq> set (ids (sg_cpg (build_supergraph g order)))" for p
    using build_supergraph_facts(7) [OF assms(1)] method_at_ids
    by (auto simp: build_supergraph_facts(1,4) [OF assms(1)])
qed

text \<open>Steps and the closure: nothing enters it from outside, and restricted steps never leave it.\<close>

lemma edge_procs:
  assumes val: "valid_cpg g" and intra: "intraprocedural (build_supergraph g order)"
  shows "cfg_edge g u v \<Longrightarrow> proc_of_node (build_supergraph g order) u = proc_of_node (build_supergraph g order) v"
    and "call_edge g u v \<Longrightarrow> proc_of_node (build_supergraph g order) v = Some v"
    and "call_edge g u v \<Longrightarrow> proc_of_node (build_supergraph g order) u = Some p \<Longrightarrow>
      p \<in> callers (build_supergraph g order) v"
  using intra build_supergraph_facts(8) [OF val, of v order] 
  by (auto simp: intraprocedural_def cfg_edge_def build_supergraph_facts(1,4) [OF val]) (auto simp: call_edge_def)

lemma step_into_closure:
  assumes val: "valid_cpg g" and intra: "intraprocedural (build_supergraph g order)"
    and "flow_step g spec None x y" and "proc_of_node (build_supergraph g order) (fst x) \<noteq> None"
    and "inside (build_supergraph g order) (caller_closure (build_supergraph g order) ps) (fst y)"
  shows "inside (build_supergraph g order) (caller_closure (build_supergraph g order) ps) (fst x)"
proof -
  from assms(3) have "cfg_edge g (fst x) (fst y) \<or> call_edge g (fst x) (fst y)"
    by (auto simp: flow_step_def)
  then show ?thesis
  proof
    assume "cfg_edge g (fst x) (fst y)"
    then show ?thesis using edge_procs(1) [OF val intra] assms(5) by (simp add: inside_def)
  next
    assume c: "call_edge g (fst x) (fst y)"
    obtain p where p: "proc_of_node (build_supergraph g order) (fst x) = Some p" using assms(4) by blast
    have "fst y \<in> caller_closure (build_supergraph g order) ps"
      using assms(5) edge_procs(2) [OF val intra c] by (simp add: inside_def)
    from caller_closure_closed [OF this edge_procs(3) [OF val intra c p]] p show ?thesis by (simp add: inside_def)
  qed
qed

lemma step_restricted:
  assumes val: "valid_cpg g" and intra: "intraprocedural (build_supergraph g order)"
    and "inside (build_supergraph g order) C (fst x)"
  shows "flow_step g spec (Some C) x y \<longleftrightarrow>
    flow_step g spec None x y \<and> inside (build_supergraph g order) C (fst y)"
proof -
  have "inside (build_supergraph g order) C (fst y)" if "cfg_edge g (fst x) (fst y)"
    using edge_procs(1) [OF val intra that] assms(3) by (simp add: inside_def)
  moreover have "inside (build_supergraph g order) C (fst y) \<longleftrightarrow> fst y \<in> C" if "call_edge g (fst x) (fst y)"
    using edge_procs(2) [OF val intra that] by (simp add: inside_def)
  ultimately show ?thesis by (auto simp: flow_step_def proc_in_scope_def)
qed

section \<open>The projection of a run\<close>

definition proj :: "supergraph \<Rightarrow> proc_id set \<Rightarrow> tab \<Rightarrow> tab" where
  "proj sg C t = \<lparr>facts_at = (\<lambda>v. if inside sg C v then facts_at t v else {}),
     pred = filter (\<lambda>e. inside sg C (fst (fst e))) (pred t),
     pending = filter (\<lambda>x. inside sg C (fst x)) (pending t), visited = visited t \<inter> C\<rparr>"

lemma proj_add:
  "proj sg C (add_fact sg pk x t) =
     (if inside sg C (fst x) then add_fact sg pk x (proj sg C t) else proj sg C t)"
  by (cases x) (auto simp: proj_def add_fact_def inside_def fun_eq_iff split: option.splits)

lemma proj_adds:
  "proj sg C (fold (add_fact sg pk) xs t) =
     fold (add_fact sg pk) (filter (\<lambda>x. inside sg C (fst x)) xs) (proj sg C t)"
  by (induction xs arbitrary: t) (simp_all add: proj_add)

lemma no_splice_exits: "no_splice R cache \<Longrightarrow> proc_in_scope R (Some p) \<Longrightarrow> exit_facts cache p f = {}"
  by (simp add: no_splice_def exit_facts_def)

lemma proj_targets:
  assumes val: "valid_cpg g" and intra: "intraprocedural (build_supergraph g order)"
    and ns: "no_splice None cache" "no_splice (Some C) cache'"
    and x: "inside (build_supergraph g order) C (fst x)"
  shows "filter (\<lambda>x. inside (build_supergraph g order) C (fst x)) (targets (build_supergraph g order) spec None cache x) =
    targets (build_supergraph g order) spec (Some C) cache' x"
proof -
  let ?sg = "build_supergraph g order"
  let ?P = "\<lambda>x. inside ?sg C (fst x)"
  have cfg: "filter ?P (map (\<lambda>s. (s, snd x)) (cfg_succ ?sg (fst x))) = map (\<lambda>s. (s, snd x)) (cfg_succ ?sg (fst x))"
    using edge_procs(1) [OF val intra] x build_supergraph_facts(2) [OF val, of order]
    by (intro filter_True) (auto simp: inside_def)
  have call: "filter ?P (call_targets ?sg None cache x p) = call_targets ?sg (Some C) cache' x p"
    if "p \<in> set (call_succ ?sg (fst x))" for p
  proof -
    have c: "call_edge g (fst x) p" using that build_supergraph_facts(3) [OF val, of order] by blast
    then have m: "method_at g p" by (simp add: call_edge_def)
    then obtain pr where pr: "procs ?sg p = Some pr" "entry pr = p"
      using build_supergraph_facts(5,6) [OF val, of order p] by blast
    have "inside ?sg C p \<longleftrightarrow> p \<in> C" using edge_procs(2) [OF val intra c] by (simp add: inside_def)
    with pr no_splice_exits [OF ns(1), of p "snd x"] no_splice_exits [OF ns(2), of p "snd x"] show ?thesis
      by (auto simp: call_targets_def proc_in_scope_def)
  qed
  have "filter ?P (concat (map (call_targets ?sg None cache x) (call_succ ?sg (fst x)))) =
      concat (map (call_targets ?sg (Some C) cache' x) (call_succ ?sg (fst x)))"
    unfolding filter_concat map_map o_def using call by (metis (no_types, lifting) map_cong)
  with cfg show ?thesis by (simp add: targets_def)
qed

lemma proj_targets_outside:
  assumes val: "valid_cpg g" and intra: "intraprocedural (build_supergraph g order)"
    and ns: "no_splice None cache"
    and x: "proc_of_node (build_supergraph g order) (fst x) \<noteq> None"
      "\<not> inside (build_supergraph g order) (caller_closure (build_supergraph g order) ps) (fst x)"
  shows "filter (\<lambda>x. inside (build_supergraph g order) (caller_closure (build_supergraph g order) ps) (fst x))
    (targets (build_supergraph g order) spec None cache x) = []"
  using step_into_closure [OF val intra _ x(1)] x(2) set_targets [OF val ns, of order spec x]
  by (auto simp: filter_empty_conv)

lemma proj_seeds:
  "filter (\<lambda>x. inside sg C (fst x)) (seed_items sg None sd) = seed_items sg (Some C) sd"
proof -
  have e: "filter (\<lambda>x. inside sg C (fst x)) (case e of (v, fs) \<Rightarrow>
      if proc_in_scope None (proc_of_node sg v) then map (\<lambda>f. (v, f)) (sort fs) else []) =
    (case e of (v, fs) \<Rightarrow>
      if proc_in_scope (Some C) (proc_of_node sg v) then map (\<lambda>f. (v, f)) (sort fs) else [])" for e
    by (cases e) (auto simp: proc_in_scope_def inside_def filter_map o_def split: option.splits)
  show ?thesis unfolding seed_items_def filter_concat map_map o_def e by (rule refl)
qed

lemma proj_start: "proj sg C (seed_tab sg None sd) = seed_tab sg (Some C) sd"
proof -
  have "proj sg C empty_tab = empty_tab" by (simp add: proj_def empty_tab_def fun_eq_iff)
  then show ?thesis by (simp add: seed_tab_alt proj_adds proj_seeds)
qed

section \<open>Simulation\<close>

text \<open>
  The restricted run is in step with the projection of the full run: they agree but for the
  order of the pending items, which the next round sorts.
\<close>

definition in_step :: "supergraph \<Rightarrow> proc_id set \<Rightarrow> node_id list \<Rightarrow> tab \<Rightarrow> tab \<Rightarrow> bool" where
  "in_step sg C order t s \<longleftrightarrow> s\<lparr>pending := []\<rparr> = (proj sg C t)\<lparr>pending := []\<rparr> \<and>
     sort_key (item_key order) (pending s) = sort_key (item_key order) (pending (proj sg C t))"

definition all_owned :: "supergraph \<Rightarrow> tab \<Rightarrow> bool" where
  "all_owned sg t \<longleftrightarrow> (\<forall>x \<in> marked t \<union> set (pending t). proc_of_node sg (fst x) \<noteq> None)"

lemma in_step_refl: "in_step sg C order t (proj sg C t)"
  by (simp add: in_step_def)

lemma set_pending_eq:
  "sort_key (item_key order) (pending s) = xs \<Longrightarrow> s\<lparr>pending := []\<rparr> = p\<lparr>pending := []\<rparr> \<Longrightarrow>
   s\<lparr>pending := ys\<rparr> = p\<lparr>pending := ys\<rparr>"
  by (cases s; cases p) simp

lemma all_owned_step:
  assumes val: "valid_cpg g" and intra: "intraprocedural (build_supergraph g order)"
    and ns: "no_splice None cache" and own: "all_owned (build_supergraph g order) t"
    and "tab_step (build_supergraph g order) spec None cache order' t = Some t'"
  shows "all_owned (build_supergraph g order) t'"
proof -
  let ?sg = "build_supergraph g order"
  from assms(5) obtain x rest where s: "sort_key (item_key order') (pending t) = x # rest"
    and t': "t' = fold (add_fact ?sg (Some x)) (targets ?sg spec None cache x) (t\<lparr>pending := rest\<rparr>)"
    by (auto simp: tab_step_alt split: list.splits)
  have p: "set (pending t) = insert x (set rest)" using arg_cong [OF s, of set] by simp
  have "proc_of_node ?sg (fst x) \<noteq> None" using own p unfolding all_owned_def by auto
  have "proc_of_node ?sg (fst y) \<noteq> None" if "y \<in> set (targets ?sg spec None cache x)" for y
  proof -
    have "flow_step g spec None x y" using that set_targets [OF val ns, of order spec x] by blast
    then have "cfg_edge g (fst x) (fst y) \<or> call_edge g (fst x) (fst y)" by (auto simp: flow_step_def)
    then show ?thesis using edge_procs(1,2) [OF val intra] \<open>proc_of_node ?sg (fst x) \<noteq> None\<close> by force
  qed
  moreover have "set (pending t') \<subseteq> set rest \<union> set (targets ?sg spec None cache x)"
    using arg_cong [OF pending_adds [of ?sg "Some x" "targets ?sg spec None cache x" "t\<lparr>pending := rest\<rparr>"], of set_mset]
    unfolding t' by auto
  moreover have "marked t' = marked t \<union> set (targets ?sg spec None cache x)"
    unfolding t' by (simp add: marked_adds)
  ultimately show ?thesis
    using own p unfolding all_owned_def by blast
qed

lemma sim_step:
  assumes val: "valid_cpg g" and intra: "intraprocedural (build_supergraph g order)"
    and ns: "no_splice None cache" "no_splice (Some C) cache'"
    and C: "C = caller_closure (build_supergraph g order) ps"
    and own: "all_owned (build_supergraph g order) t" and sim: "in_step (build_supergraph g order) C order' t s"
    and step: "tab_step (build_supergraph g order) spec None cache order' t = Some t'"
  shows "in_step (build_supergraph g order) C order' t' s \<or>
    (\<exists>s'. tab_step (build_supergraph g order) spec (Some C) cache' order' s = Some s' \<and>
       in_step (build_supergraph g order) C order' t' s')"
proof -
  let ?sg = "build_supergraph g order" and ?k = "item_key order'"
  let ?P = "\<lambda>x. inside ?sg C (fst x)"
  from step obtain x rest where sx: "sort_key ?k (pending t) = x # rest"
    and t': "t' = fold (add_fact ?sg (Some x)) (targets ?sg spec None cache x) (t\<lparr>pending := rest\<rparr>)"
    by (auto simp: tab_step_alt split: list.splits)
  have ps: "sort_key ?k (pending s) = filter ?P (x # rest)"
    using sim unfolding in_step_def by (simp add: proj_def filter_sort [symmetric] sx)
  have eq: "s\<lparr>pending := filter ?P rest\<rparr> = proj ?sg C (t\<lparr>pending := rest\<rparr>)"
    using sim unfolding in_step_def by (cases s; cases t) (simp add: proj_def cong: if_cong)
  have srt: "sorted (map ?k (x # rest))" unfolding sx [symmetric] by simp
  show ?thesis
  proof (cases "?P x")
    case True
    have "tab_step ?sg spec (Some C) cache' order' s =
        Some (fold (add_fact ?sg (Some x)) (targets ?sg spec (Some C) cache' x) (s\<lparr>pending := filter ?P rest\<rparr>))"
      using ps True by (simp add: tab_step_alt)
    also have "\<dots> = Some (proj ?sg C t')"
      unfolding eq t' proj_adds proj_targets [OF val intra ns True] by (rule refl)
    finally show ?thesis using in_step_refl by blast
  next
    case False
    have "x \<in> set (pending t)" using arg_cong [OF sx, of set] by simp
    then have "proc_of_node ?sg (fst x) \<noteq> None" using own by (auto simp: all_owned_def)
    from proj_targets_outside [OF val intra ns(1) this, of ps spec] False
    have "proj ?sg C t' = proj ?sg C (t\<lparr>pending := rest\<rparr>)" by (simp add: t' proj_adds C)
    moreover have "sort_key ?k (filter ?P rest) = filter ?P rest"
      using srt by (intro sort_key_id_if_sorted) (simp add: sorted_filter)
    ultimately have "in_step ?sg C order' t' s"
      using ps False sim unfolding in_step_def eq [symmetric] by simp
    then show ?thesis ..
  qed
qed

lemma tab_step_None: "tab_step sg spec R cache order t = None \<longleftrightarrow> pending t = []"
  using tabulation.finished [of sg spec R cache order t] by simp

lemma sim_end:
  assumes "in_step sg C order t s" and "pending t = []"
  shows "s = proj sg C t"
proof -
  have "pending (proj sg C t) = []" using assms(2) by (simp add: proj_def)
  with assms(1) have "pending s = []" unfolding in_step_def by (metis length_0_conv length_sort)
  with assms(1) \<open>pending (proj sg C t) = []\<close> show ?thesis
    unfolding in_step_def by (cases s; cases "proj sg C t") simp
qed

lemma sim_loop:
  assumes val: "valid_cpg g" and intra: "intraprocedural (build_supergraph g order)"
    and ns: "no_splice None cache" "no_splice (Some C) cache'"
    and C: "C = caller_closure (build_supergraph g order) ps"
  shows "iterate n (tab_step (build_supergraph g order) spec None cache order') t = Some te \<Longrightarrow>
    all_owned (build_supergraph g order) t \<Longrightarrow> in_step (build_supergraph g order) C order' t s \<Longrightarrow>
    iterate n (tab_step (build_supergraph g order) spec (Some C) cache' order') s =
      Some (proj (build_supergraph g order) C te)"
proof (induction n arbitrary: t s)
  case (Suc n)
  let ?sg = "build_supergraph g order"
  show ?case
  proof (cases "tab_step ?sg spec None cache order' t")
    case None
    with Suc.prems(1) have "te = t" "pending t = []" by (auto simp: tab_step_None)
    with sim_end [OF Suc.prems(3)] have "s = proj ?sg C te" "pending s = []" by (auto simp: proj_def)
    moreover from this(2) have "tab_step ?sg spec (Some C) cache' order' s = None" by (simp add: tab_step_None)
    ultimately show ?thesis by simp
  next
    case (Some t')
    with Suc.prems(1) have it: "iterate n (tab_step ?sg spec None cache order') t' = Some te" by simp
    note own = all_owned_step [OF val intra ns(1) Suc.prems(2) Some]
    from sim_step [OF val intra ns C Suc.prems(2,3) Some] show ?thesis
    proof
      assume "in_step ?sg C order' t' s"
      from iterate_mono [OF Suc.IH [OF it own this], of "Suc n"] show ?thesis by simp
    next
      assume "\<exists>s'. tab_step ?sg spec (Some C) cache' order' s = Some s' \<and> in_step ?sg C order' t' s'"
      with Suc.IH [OF it own] show ?thesis by auto
    qed
  qed
qed simp

lemma tabulate_projects:
  assumes val: "valid_cpg g" and intra: "intraprocedural (build_supergraph g order)"
    and ns: "no_splice None cache" "no_splice (Some C) cache'"
    and C: "C = caller_closure (build_supergraph g order) ps"
    and full: "tabulate (build_supergraph g order) spec sd None cache order' = Inr (t, c)"
  shows "tabulate (build_supergraph g order) spec sd (Some C) cache' order' =
    Inr (proj (build_supergraph g order) C t,
      record_summaries (build_supergraph g order) (proj (build_supergraph g order) C t) cache')"
proof -
  let ?sg = "build_supergraph g order"
  have "set (pending (seed_tab ?sg None sd)) = set (seed_items ?sg None sd)"
    using arg_cong [OF seed_tab_start(2) [of ?sg None sd], of set_mset] by simp
  then have "all_owned ?sg (seed_tab ?sg None sd)"
    by (auto simp: all_owned_def seed_tab_start set_seed_items proc_in_scope_def split: option.splits)
  moreover have "in_step ?sg C order' (seed_tab ?sg None sd) (seed_tab ?sg (Some C) sd)"
    unfolding proj_start [symmetric] by (rule in_step_refl)
  moreover from full have "iterate (Suc (length (nodes (sg_cpg ?sg)) * length (concat (map snd sd))))
      (tab_step ?sg spec None cache order') (seed_tab ?sg None sd) = Some t"
    by (simp add: tabulate_def del: iterate.simps split: option.splits)
  ultimately have "iterate (Suc (length (nodes (sg_cpg ?sg)) * length (concat (map snd sd))))
      (tab_step ?sg spec (Some C) cache' order') (seed_tab ?sg (Some C) sd) = Some (proj ?sg C t)"
    by (intro sim_loop [OF val intra ns C])
  then show ?thesis by (simp add: tabulate_def del: iterate.simps)
qed

section \<open>Same witnesses\<close>

lemma backtrack_mono: "backtrack n ps c seen path = Inr w \<Longrightarrow> n \<le> m \<Longrightarrow> backtrack m ps c seen path = Inr w"
proof (induction n arbitrary: m c seen path)
  case 0
  then show ?case by (cases c) (auto split: if_splits)
next
  case (Suc n)
  then obtain k where "m = Suc k" "n \<le> k" by (cases m) auto
  with Suc show ?case by (cases c) (auto split: if_splits)
qed

lemma map_of_filter_key: "P x \<Longrightarrow> map_of (filter (\<lambda>e. P (fst e)) ps) x = map_of ps x"
  by (induction ps) auto

lemma backtrack_filter:
  assumes "\<And>x y. (x, Some y) \<in> set ps \<Longrightarrow> P x \<Longrightarrow> P y"
  shows "(case c of None \<Rightarrow> True | Some x \<Rightarrow> P x) \<Longrightarrow>
    backtrack n (filter (\<lambda>e. P (fst e)) ps) c seen path = backtrack n ps c seen path"
proof (induction n arbitrary: c seen path)
  case 0
  then show ?case by (cases c) auto
next
  case (Suc n)
  show ?case
  proof (cases c)
    case (Some x)
    then have "P x" using Suc.prems by simp
    have "case (case map_of ps x of None \<Rightarrow> None | Some p \<Rightarrow> p) of None \<Rightarrow> True | Some y \<Rightarrow> P y"
      using assms [of x] \<open>P x\<close> by (auto split: option.splits dest!: map_of_SomeD)
    from Suc.IH [OF this] Some \<open>P x\<close> show ?thesis by (simp add: map_of_filter_key)
  qed simp
qed

lemma linked_pred: "linked R S ps \<Longrightarrow> (x, Some y) \<in> set ps \<Longrightarrow> x \<in> S y \<and> y \<in> fst ` set ps"
  by (induction ps) (auto split: option.splits)

lemma proj_witness:
  assumes val: "valid_cpg g" and intra: "intraprocedural (build_supergraph g order)"
    and C: "C = caller_closure (build_supergraph g order) ps"
    and inv: "tab_inv (build_supergraph g order) R (\<lambda>x. {y. flow_step g spec None x y}) t"
    and own: "all_owned (build_supergraph g order) t"
    and inv': "tab_inv (build_supergraph g order) R' S' (proj (build_supergraph g order) C t)"
    and v: "inside (build_supergraph g order) C v" "f \<in> facts_at t v"
  shows "witness_of (proj (build_supergraph g order) C t) v f = witness_of t v f"
proof -
  let ?sg = "build_supergraph g order" and ?p = "proj (build_supergraph g order) C t"
  let ?P = "\<lambda>x :: item. inside ?sg C (fst x)"
  have pp: "pred ?p = filter (\<lambda>e. ?P (fst e)) (pred t)" by (simp add: proj_def)
  have closed: "?P y" if "(x, Some y) \<in> set (pred t)" "?P x" for x y
  proof -
    have "flow_step g spec None y x" "y \<in> marked t"
      using linked_pred [of R "\<lambda>x. {y. flow_step g spec None x y}" "pred t" x y] inv that(1)
      by (auto simp: tab_inv_def)
    moreover have "proc_of_node ?sg (fst y) \<noteq> None" using own \<open>y \<in> marked t\<close> unfolding all_owned_def by blast
    ultimately show ?thesis using step_into_closure [OF val intra] that(2) unfolding C by blast
  qed
  have "f \<in> facts_at ?p v" using v by (simp add: proj_def)
  from tab_inv_witness [OF inv' this] have "witness (pred ?p) v f = Inr (witness_of ?p v f)" by blast
  then have "backtrack (Suc (length (pred ?p))) (pred ?p) (Some (v, f)) [] [] = Inr (witness_of ?p v f)"
    by (simp add: witness_def)
  moreover have "backtrack (Suc (length (pred ?p))) (pred ?p) (Some (v, f)) [] [] =
      backtrack (Suc (length (pred ?p))) (pred t) (Some (v, f)) [] []"
    using backtrack_filter [of "pred t" ?P "Some (v, f)"] closed v(1) by (simp add: pp del: backtrack.simps)
  ultimately have "backtrack (Suc (length (pred ?p))) (pred t) (Some (v, f)) [] [] = Inr (witness_of ?p v f)"
    by simp
  from backtrack_mono [OF this, of "Suc (length (pred t))"] have "witness (pred t) v f = Inr (witness_of ?p v f)"
    by (simp add: witness_def pp del: backtrack.simps)
  then show ?thesis using tab_inv_witness [OF inv v(2)] by simp
qed

section \<open>Same findings\<close>

lemma sort_key_unique:
  assumes "inj_on k (set xs)" and "mset xs = mset ys"
  shows "sort_key k xs = sort_key k ys"
proof (rule map_inj_on)
  have "sort (map k zs) = map k (sort_key k zs)" for zs
    by (rule properties_for_sort) simp_all
  moreover have "sort (map k xs) = sort (map k ys)" using assms(2) by (intro sort_eq_of_mset) simp
  ultimately show "map k (sort_key k xs) = map k (sort_key k ys)" by metis
  show "inj_on k (set (sort_key k xs) \<union> set (sort_key k ys))"
    using assms mset_eq_setD [OF assms(2)] by simp
qed

lemma finding_key_inj:
  assumes "set order = set (ids g)" and "sink_node x \<in> set (ids g)" and "sink_node y \<in> set (ids g)"
    and "finding_key order x = finding_key order y"
  shows "sink_node x = sink_node y \<and> sink_fact x = sink_fact y"
  using assms index_of_inj [of "sink_node x" order "sink_node y"] by (simp add: finding_key_def canon_pos_def)

lemma distinct_findings_list:
  assumes "distinct (ids (sg_cpg sg))"
  shows "distinct (findings_list sg spec t sv env ores)"
proof -
  let ?f = "\<lambda>v. if is_sink_node spec (node_by_id (sg_cpg sg) v)
     then map (\<lambda>f. make_finding spec sv env ores v f (witness_of t v f)) (sorted_list_of_set (facts_at t v))
     else []"
  let ?vs = "sort_key (\<lambda>v. (canon_pos (canonical_order_of ores) v, v)) (ids (sg_cpg sg))"
  have s: "sink_node ` set (?f v) \<subseteq> {v}" for v by (auto simp: make_finding_def)
  have d: "distinct (?f v)" for v by (auto simp: distinct_map inj_on_def make_finding_def)
  have "distinct (concat (map ?f vs))" if "distinct vs" for vs
    using that
  proof (induction vs)
    case (Cons v vs)
    have "set (?f v) \<inter> set (concat (map ?f vs)) = {}"
    proof (rule ccontr)
      assume "set (?f v) \<inter> set (concat (map ?f vs)) \<noteq> {}"
      then obtain x u where "x \<in> set (?f v)" "u \<in> set vs" "x \<in> set (?f u)" by fastforce
      with s [of v] s [of u] have "u = v" by blast
      with \<open>u \<in> set vs\<close> Cons.prems show False by simp
    qed
    with Cons d [of v] show ?case by simp
  qed simp
  then show ?thesis unfolding findings_list_def using assms by simp
qed

lemma findings_facts:
  assumes "tab_inv sg R S t" and "x \<in> set (findings_list sg spec t sv env ores)"
  shows "sink_node x \<in> set (ids (sg_cpg sg)) \<and> sink_fact x \<in> facts_at t (sink_node x) \<and>
    is_sink_node spec (node_by_id (sg_cpg sg) (sink_node x)) \<and>
    x = make_finding spec sv env ores (sink_node x) (sink_fact x) (witness_of t (sink_node x) (sink_fact x))"
  using assms(2) unfolding set_findings_list [OF assms(1)] by (auto simp: make_finding_def marked_def)

text \<open>The fresh read-out is the part of the full one whose sinks lie in the closure.\<close>

lemma fresh_findings:
  assumes val: "valid_cpg g" and intra: "intraprocedural (build_supergraph g order)"
    and C: "C = caller_closure (build_supergraph g order) ps"
    and inv: "tab_inv (build_supergraph g order) R (\<lambda>x. {y. flow_step g spec None x y}) t"
    and own: "all_owned (build_supergraph g order) t"
    and inv': "tab_inv (build_supergraph g order) R' S' (proj (build_supergraph g order) C t)"
  shows "set (findings_list (build_supergraph g order) spec (proj (build_supergraph g order) C t) sv env ores) =
    {x \<in> set (findings_list (build_supergraph g order) spec t sv env ores).
       inside (build_supergraph g order) C (sink_node x)}"
proof -
  let ?sg = "build_supergraph g order" and ?p = "proj (build_supergraph g order) C t"
  have m: "(v, f) \<in> marked ?p \<longleftrightarrow> inside ?sg C v \<and> (v, f) \<in> marked t" for v f
    by (auto simp: marked_def proj_def)
  have w: "witness_of ?p v f = witness_of t v f" if "inside ?sg C v" "(v, f) \<in> marked t" for v f
    using proj_witness [OF val intra C inv own inv' that(1), of f] that(2) by (simp add: marked_def)
  show ?thesis
    unfolding set_findings_list [OF inv] set_findings_list [OF inv'] m
    using w by (force simp: make_finding_def)
qed

lemma all_owned_run:
  assumes val: "valid_cpg g" and intra: "intraprocedural (build_supergraph g order)"
    and ns: "no_splice None cache"
    and full: "tabulate (build_supergraph g order) spec sd None cache order' = Inr (t, c)"
  shows "all_owned (build_supergraph g order) t"
proof -
  let ?sg = "build_supergraph g order"
  have "set (pending (seed_tab ?sg None sd)) = set (seed_items ?sg None sd)"
    using arg_cong [OF seed_tab_start(2) [of ?sg None sd], of set_mset] by simp
  then have "all_owned ?sg (seed_tab ?sg None sd)"
    by (auto simp: all_owned_def seed_tab_start set_seed_items proc_in_scope_def split: option.splits)
  moreover from full obtain n where "iterate n (tab_step ?sg spec None cache order') (seed_tab ?sg None sd) = Some t"
    by (auto simp: tabulate_def simp del: iterate.simps split: option.splits)
  ultimately show ?thesis
    using iterate_invariant [of n _ _ t "all_owned ?sg"] all_owned_step [OF val intra ns] by blast
qed

end
