(* ===== verification/Solver_Contract.thy ===== *)
theory Solver_Contract
  imports Incremental
begin

text \<open>
  The contract of \<open>solve\<close> and \<open>incremental_solve\<close>: which sinks are reported, that every
  reported path is real, what the provenance fields carry, when a result is returned, and that
  the incremental mode agrees with the full one and stays inside the caller closure.
\<close>

section \<open>Runs\<close>

lemma solve_runs:
  assumes small: "length (nodes g) * length (clauses spec) < 2 ^ 64"
    and o: "canonical_order H clk DEFAULT_B DEFAULT_T g = Inr ores"
    and ok: "sv \<noteq> []" "env \<noteq> []" "engine spec \<in> {''ifds'', ''ide''}"
  shows "\<exists>r. solve H clk g spec sv env = Inr r"
proof -
  let ?order = "canonical_order_of ores"
  let ?sg = "build_supergraph g ?order"
  let ?c = "\<lparr>header = (sv, env), summaries = Map.empty, cache_visited = {}\<rparr> :: summary_cache"
  have val: "valid_cpg g" by (rule canonical_order_shape [OF o])
  from run_tabulation [OF val no_splice_empty [of None "(sv, env)" "{}"], of ?order spec]
  obtain t where t: "tabulate ?sg spec (seeded (seed_sources ?sg spec)) None ?c ?order = Inr (t, record_summaries ?sg t ?c)"
    "marked t = {y. \<exists>x \<in> spec_seeds g spec ?order None. flows g spec None x y}"
    "tab_inv ?sg (spec_seeds g spec ?order None) (\<lambda>x. {y. flow_step g spec None x y}) t"
    by blast
  have "\<exists>h. hash_solution H (findings_list ?sg spec t sv env ores) ?order = Inr h"
    by (rule hash_solution_total) (rule findings_hashable [OF val small t(3,2)])
  then show ?thesis
    using o ok build_findings_run [OF t(3), of spec sv env ores]
    by (auto simp: solve_def require_pinned_def t(1) Let_def)
qed

lemma default_order:
  assumes "small_cpg g"
  obtains ores where "canonical_order H (\<lambda>_. 0) DEFAULT_B DEFAULT_T g = Inr ores"
proof -
  have "never_expires \<lparr>state_limit = nat DEFAULT_B, duration = DEFAULT_T, clock = (\<lambda>_. 0),
      started_at = 0, search_states = 0, ticks = 1\<rparr>"
    by (simp add: never_expires_def DEFAULT_T_def)
  from canonical_order_runs [OF assms this, of H] obtain r b' where
    "canonical_order_run H g \<lparr>state_limit = nat DEFAULT_B, duration = DEFAULT_T, clock = (\<lambda>_. 0),
      started_at = 0, search_states = 0, ticks = 1\<rparr> = (Inr r, b')" by auto
  then have "canonical_order H (\<lambda>_. 0) DEFAULT_B DEFAULT_T g = Inr r"
    by (auto simp: canonical_order_start DEFAULT_B_def DEFAULT_T_def)
  then show thesis by (rule that)
qed

section \<open>A sample program\<close>

text \<open>
  One procedure \<open>m\<close> (node 0) with a source (1), a sanitizer (2) and two sinks: 3 after the
  source, 4 after the sanitizer.
\<close>

definition call_node :: "node_id \<Rightarrow> string \<Rightarrow> cpg_node" where
  "call_node i opr = \<lparr>node_id = i, kind = ''CALL'', operator_or_literal = opr, resolved_fqn = [],
     enclosing_decl_fqn = ''m'', structural_path = []\<rparr>"

definition method_node :: "node_id \<Rightarrow> string \<Rightarrow> cpg_node" where
  "method_node i f = \<lparr>node_id = i, kind = ''METHOD'', operator_or_literal = [], resolved_fqn = f,
     enclosing_decl_fqn = [], structural_path = []\<rparr>"

definition flow :: "node_id \<Rightarrow> node_id \<Rightarrow> cpg_edge" where
  "flow u v = \<lparr>src = u, dst = v, ekind = ''CFG''\<rparr>"

definition sample_prog :: cpg where
  "sample_prog = \<lparr>nodes = [method_node 0 ''m'', call_node 1 ''src'', call_node 2 ''san'',
       call_node 3 ''snk'', call_node 4 ''snk''],
     edges = [flow 0 1, flow 1 3, flow 1 2, flow 2 4]\<rparr>"

definition sample_spec :: spec where
  "sample_spec = \<lparr>spec_id = ''demo'', spec_class = ''injection'', spec_languages = [''python''],
     engine = ''ifds'', clauses = [Source ''src'', Sanitize ''san'', Sink ''snk'']\<rparr>"

lemma sample_small: "small_cpg sample_prog"
  by (simp add: small_cpg_def valid_cpg_def sample_prog_def ids_def node_ok_def edge_ok_def call_node_def
      method_node_def flow_def label_fields_def short_def)

lemma sample_bound: "length (nodes sample_prog) * length (clauses sample_spec) < 2 ^ 64"
  by (simp add: sample_prog_def sample_spec_def)

lemma sample_run:
  obtains r where "solve id (\<lambda>_. 0) sample_prog sample_spec ''S1'' ''env'' = Inr r"
proof -
  obtain ores where "canonical_order id (\<lambda>_. 0) DEFAULT_B DEFAULT_T sample_prog = Inr ores"
    using default_order [OF sample_small] .
  from solve_runs [OF sample_bound this, of "''S1''" "''env''"] that show thesis
    by (auto simp: sample_spec_def)
qed

lemma sample_nodes:
  "node_by_id sample_prog 1 = call_node 1 ''src''" "node_by_id sample_prog 3 = call_node 3 ''snk''"
  by (simp_all add: node_by_id_def dget_def sample_prog_def call_node_def method_node_def)

lemma sample_facts:
  "taint_source sample_prog sample_spec 1" "taint_edge sample_prog sample_spec 1 3"
  "is_sink_node sample_spec (node_by_id sample_prog 3)" "3 \<in> set (ids sample_prog)"
  unfolding taint_source_def taint_edge_def sample_nodes
  by (simp_all add: sample_prog_def sample_spec_def ids_def call_node_def method_node_def flow_def
      source_node_def pattern_matches_def owned_def is_method_def method_fqn_def sanitized_at_def
      is_sink_node_def cfg_edge_def CFG_EDGE_def)

lemma sample_intra: "intraprocedural (build_supergraph sample_prog order)"
proof -
  let ?sg = "build_supergraph sample_prog order"
  have val: "valid_cpg sample_prog" using sample_small by (simp add: small_cpg_def)
  have own: "owned sample_prog n" if "n \<in> set (nodes sample_prog)" for n
    using that by (auto simp: sample_prog_def owned_def is_method_def method_fqn_def call_node_def method_node_def)
  have "p = 0" if "method_at sample_prog p" for p
    using that by (auto simp: method_at_def find_node_def sample_prog_def is_method_def call_node_def
        method_node_def split: if_splits)
  then have "proc_of_node ?sg (node_id n) = Some 0" if "n \<in> set (nodes sample_prog)" for n
    using build_supergraph_facts(7,9) [OF val] own [OF that] that by (metis not_None_eq)
  then have "proc_of_node ?sg v = Some 0" if "v \<in> set (ids sample_prog)" for v
    using that by (auto simp: ids_def)
  moreover have "src e \<in> set (ids sample_prog) \<and> dst e \<in> set (ids sample_prog)" if "e \<in> set (edges sample_prog)" for e
    using val that by (simp add: valid_cpg_def edge_ok_def)
  ultimately show ?thesis
    by (simp add: intraprocedural_def build_supergraph_facts(1) [OF val])
qed

definition sample_cache :: summary_cache where
  "sample_cache = \<lparr>header = (''S1'', ''env''), summaries = Map.empty, cache_visited = {}\<rparr>"

section \<open>Findings\<close>

lemma findings_sinks:
  assumes "solve H clk g spec sv env = Inr r"
  shows "sink_node ` findings r = {v \<in> set (ids g). is_sink_node spec (node_by_id g v) \<and>
    (\<exists>s. taint_source g spec s \<and> taints g spec s v)}"
proof -
  obtain ores t where val: "valid_cpg g"
    and m: "marked t = {y. \<exists>x \<in> spec_seeds g spec (canonical_order_of ores) None. flows g spec None x y}"
    and inv: "tab_inv (build_supergraph g (canonical_order_of ores)) (spec_seeds g spec (canonical_order_of ores) None)
      (\<lambda>x. {y. flow_step g spec None x y}) t"
    and fs: "findings r = set (findings_list (build_supergraph g (canonical_order_of ores)) spec t sv env ores)"
    by (rule solve_Inr [OF assms]) blast
  have g: "sg_cpg (build_supergraph g (canonical_order_of ores)) = g" by (rule build_supergraph_facts(1) [OF val])
  have tainted: "(\<exists>f. (v, f) \<in> marked t) \<longleftrightarrow> (\<exists>s. taint_source g spec s \<and> taints g spec s v)" for v
  proof -
    have "(\<exists>f. (v, f) \<in> marked t) \<longleftrightarrow>
        (\<exists>s \<in> fst ` spec_seeds g spec (canonical_order_of ores) None. taints g spec s v)"
      unfolding m flows_full by force
    then show ?thesis unfolding spec_seeds_full [OF val] by auto
  qed
  have "sink_node ` findings r = {v \<in> set (ids g). is_sink_node spec (node_by_id g v) \<and> (\<exists>f. (v, f) \<in> marked t)}"
    unfolding fs set_findings_list [OF inv] g by force
  then show ?thesis unfolding tainted .
qed

lemma sample_has_finding:
  assumes "solve id (\<lambda>_. 0) sample_prog sample_spec ''S1'' ''env'' = Inr r"
  shows "\<exists>x \<in> findings r. sink_node x = 3"
proof -
  have "taints sample_prog sample_spec 1 3"
    unfolding taints_def using sample_facts(2) by (rule r_into_rtranclp)
  then have "3 \<in> sink_node ` findings r" unfolding findings_sinks [OF assms] using sample_facts by blast
  then show ?thesis by auto
qed

text \<open>
  C1. The findings are exact. When \<open>solve\<close> returns, the reported sinks are exactly the nodes
  that match a sink clause and that taint reaches: there is a node that matches a source
  clause and belongs to a procedure, and from it a chain of control-flow and call edges, none
  of which leaves a node that matches a sanitizer clause.
\<close>

theorem findings_exact:
  assumes "solve H clk g spec sv env = Inr r"
  shows "sink_node ` findings r = {v \<in> set (ids g). is_sink_node spec (node_by_id g v) \<and>
    (\<exists>s. taint_source g spec s \<and> taints g spec s v)}"
  using assms by (rule findings_sinks)

theorem findings_exact_witness:
  "\<exists>r. solve id (\<lambda>_. 0) sample_prog sample_spec ''S1'' ''env'' = Inr r \<and> 3 \<in> sink_node ` findings r"
proof -
  obtain r where r: "solve id (\<lambda>_. 0) sample_prog sample_spec ''S1'' ''env'' = Inr r" by (rule sample_run)
  have "taints sample_prog sample_spec 1 3"
    unfolding taints_def using sample_facts(2) by (rule r_into_rtranclp)
  with findings_exact [OF r] sample_facts r show ?thesis by blast
qed

text \<open>
  C7. Witnesses are real. The witness of every finding starts at a node that matches a source
  clause and belongs to a procedure, ends at the reported sink, visits no node twice, and
  each of its steps is a control-flow or call edge of the graph out of a node that no
  sanitizer clause matches.
\<close>

theorem witness_is_path:
  assumes "solve H clk g spec sv env = Inr r" and "x \<in> findings r"
  shows "witness_path x \<noteq> [] \<and> taint_source g spec (hd (witness_path x)) \<and>
    last (witness_path x) = sink_node x \<and> successively (taint_edge g spec) (witness_path x) \<and>
    distinct (witness_path x)"
proof -
  obtain ores t where val: "valid_cpg g"
    and inv: "tab_inv (build_supergraph g (canonical_order_of ores)) (spec_seeds g spec (canonical_order_of ores) None)
      (\<lambda>x. {y. flow_step g spec None x y}) t"
    and fs: "findings r = set (findings_list (build_supergraph g (canonical_order_of ores)) spec t sv env ores)"
    by (rule solve_Inr [OF assms(1)]) blast
  note ff = findings_facts [OF inv, of x spec sv env ores, OF assms(2) [unfolded fs]]
  then have "sink_fact x \<in> facts_at t (sink_node x)" by blast
  have w: "witness_path x = witness_of t (sink_node x) (sink_fact x)"
    using ff make_finding_sel(3) by metis
  from tab_inv_witness [OF inv \<open>sink_fact x \<in> _\<close>] obtain xs where xs: "witness_path x = map fst xs"
    "item_path (spec_seeds g spec (canonical_order_of ores) None) (\<lambda>x. {y. flow_step g spec None x y}) xs"
    "last xs = (sink_node x, sink_fact x)" unfolding w by blast
  have step: "successively (\<lambda>x y. flow_step g spec None x y) xs" and d: "distinct xs" and ne: "xs \<noteq> []"
    and h: "hd xs \<in> spec_seeds g spec (canonical_order_of ores) None"
    using xs(2) by (simp_all add: item_path_def)
  have same: "\<forall>y \<in> set xs. snd y = snd (hd xs)"
    using step ne by (induction xs rule: induct_list012) (auto dest: flow_step_fact)
  have "distinct (map fst xs)"
    unfolding distinct_map using d same by (auto intro!: inj_onI) (metis snd_conv)
  moreover have "successively (taint_edge g spec) (map fst xs)"
    unfolding successively_map using step by (rule successively_mono) (simp add: flow_step_full)
  moreover have "taint_source g spec (fst (hd xs))" using h spec_seeds_full [OF val, of spec] by blast
  ultimately show ?thesis using ne xs(1,3) by (simp add: hd_map last_map)
qed

theorem witness_is_path_witness:
  "\<exists>r x. solve id (\<lambda>_. 0) sample_prog sample_spec ''S1'' ''env'' = Inr r \<and> x \<in> findings r \<and>
     taint_source sample_prog sample_spec (hd (witness_path x)) \<and> last (witness_path x) = sink_node x"
proof -
  obtain r where r: "solve id (\<lambda>_. 0) sample_prog sample_spec ''S1'' ''env'' = Inr r" by (rule sample_run)
  obtain x where "x \<in> findings r" using sample_has_finding [OF r] by blast
  with witness_is_path [OF r this] r show ?thesis by blast
qed

text \<open>
  Provenance is threaded. A returned run had a nonempty version and environment digest and
  an engine of the core; every finding carries the core's origin, exactly the run's version,
  digest, specification and engine, and the hash, annotation and class of the canonical
  order of the analysed graph.
\<close>

theorem provenance_threaded:
  assumes "solve H clk g spec sv env = Inr r"
  shows "sv \<noteq> [] \<and> env \<noteq> [] \<and> engine spec \<in> {''ifds'', ''ide''} \<and>
    (\<exists>ores. canonical_order H clk DEFAULT_B DEFAULT_T g = Inr ores \<and>
      (\<forall>x \<in> findings r. origin x = ''deterministic-core'' \<and> S_version x = sv \<and> env_digest x = env \<and>
         finding_spec x = spec_id spec \<and> finding_engine x = engine spec \<and>
         finding_order_hash x = cpg_order_hash ores \<and> finding_annotation x = CPG_ORDER_HASH_ANNOTATION \<and>
         finding_class x = fingerprint_class_of ores))"
proof (rule solve_Inr [OF assms], goal_cases)
  case (1 ores t)
  then show ?thesis unfolding 1(8) set_findings_list [OF 1(7)] by (auto simp: make_finding_def)
qed

theorem provenance_threaded_witness:
  "\<exists>r. solve id (\<lambda>_. 0) sample_prog sample_spec ''S1'' ''env'' = Inr r \<and>
     (\<exists>x \<in> findings r. S_version x = ''S1'' \<and> env_digest x = ''env'')"
proof -
  obtain r where r: "solve id (\<lambda>_. 0) sample_prog sample_spec ''S1'' ''env'' = Inr r" by (rule sample_run)
  with provenance_threaded [OF r] sample_has_finding [OF r] show ?thesis by blast
qed

text \<open>
  C39. When \<open>solve\<close> returns. For a graph and specification with fewer than \<open>2 ^ 64\<close> possible
  seeds, \<open>solve\<close> returns a result exactly when the version and digest are nonempty, the engine
  is one of the core's and \<open>canonical_order\<close> returns: tabulation, read-out and hashing never
  fail and never run on.
\<close>

theorem solve_returns:
  assumes "length (nodes g) * length (clauses spec) < 2 ^ 64"
  shows "(\<exists>r. solve H clk g spec sv env = Inr r) \<longleftrightarrow>
    sv \<noteq> [] \<and> env \<noteq> [] \<and> engine spec \<in> {''ifds'', ''ide''} \<and>
    (\<exists>ores. canonical_order H clk DEFAULT_B DEFAULT_T g = Inr ores)"
proof
  assume "\<exists>r. solve H clk g spec sv env = Inr r"
  then obtain r where r: "solve H clk g spec sv env = Inr r" by blast
  show "sv \<noteq> [] \<and> env \<noteq> [] \<and> engine spec \<in> {''ifds'', ''ide''} \<and>
    (\<exists>ores. canonical_order H clk DEFAULT_B DEFAULT_T g = Inr ores)"
    by (rule solve_Inr [OF r]) blast
qed (use solve_runs [OF assms] in blast)

theorem solve_returns_witness:
  "\<exists>r. solve id (\<lambda>_. 0) sample_prog sample_spec ''S1'' ''env'' = Inr r"
proof -
  obtain ores where "canonical_order id (\<lambda>_. 0) DEFAULT_B DEFAULT_T sample_prog = Inr ores"
    using default_order [OF sample_small] .
  then show ?thesis using solve_returns [OF sample_bound] by (auto simp: sample_spec_def)
qed

section \<open>The incremental mode\<close>

text \<open>
  The caller closure. On the skeleton of a valid graph \<open>transitive_callers\<close> returns exactly
  the procedures from which a procedure of the seed can be called in one or more calls; a
  seed procedure is itself included only when it can call one of the seed.
\<close>

theorem transitive_callers_exact:
  assumes "valid_cpg g" and "finite seed"
  shows "transitive_callers (build_supergraph g order) seed =
    Some {p. \<exists>q \<in> seed. (p, q) \<in> (calls (build_supergraph g order))\<^sup>+}"
  using assms by (rule closure_runs)

theorem transitive_callers_exact_witness:
  "transitive_callers (build_supergraph sample_prog [0, 1, 2, 3, 4]) {0} =
    Some {p. \<exists>q \<in> {0}. (p, q) \<in> (calls (build_supergraph sample_prog [0, 1, 2, 3, 4]))\<^sup>+}"
  using sample_small by (intro transitive_callers_exact) (simp_all add: small_cpg_def)

lemma incremental_Inr:
  assumes "incremental_solve H clk g spec affected prior sv env pf = Inr r"
    and fin: "finite affected"
  obtains ores t where
    "canonical_order H clk DEFAULT_B DEFAULT_T g = Inr ores" and "valid_cpg g"
    and "header prior = (sv, env)" and "\<forall>x \<in> set pf. S_version x = sv \<and> env_digest x = env"
    and "marked t = {y. \<exists>x \<in> spec_seeds g spec (canonical_order_of ores)
        (Some (caller_closure (build_supergraph g (canonical_order_of ores)) affected)).
        flows g spec (Some (caller_closure (build_supergraph g (canonical_order_of ores)) affected)) x y}"
    and "tab_inv (build_supergraph g (canonical_order_of ores))
       (spec_seeds g spec (canonical_order_of ores)
          (Some (caller_closure (build_supergraph g (canonical_order_of ores)) affected)))
       (\<lambda>x. {y. flow_step g spec (Some (caller_closure (build_supergraph g (canonical_order_of ores)) affected)) x y}) t"
    and "findings r = set (findings_list (build_supergraph g (canonical_order_of ores)) spec t sv env ores) \<union>
       set (preserved (build_supergraph g (canonical_order_of ores))
          (caller_closure (build_supergraph g (canonical_order_of ores)) affected) pf)"
    and "visited_procs r = visited t"
proof -
  from assms(1) obtain ores where o: "canonical_order H clk DEFAULT_B DEFAULT_T g = Inr ores"
    and hd: "header prior = (sv, env)" and pin: "sv \<noteq> []" "env \<noteq> []" "engine spec \<in> {''ifds'', ''ide''}"
    by (auto simp: incremental_solve_def require_pinned_def r_bind_Inr_iff split: if_splits)
  have val: "valid_cpg g" by (rule canonical_order_shape [OF o])
  let ?sg = "build_supergraph g (canonical_order_of ores)"
  let ?C = "caller_closure ?sg affected"
  let ?c = "invalidate ?C (cache_copy prior)"
  from run_tabulation [OF val no_splice_invalidated [of ?C "cache_copy prior"], of "canonical_order_of ores" spec]
  obtain t where t: "tabulate ?sg spec (seeded (seed_sources ?sg spec)) (Some ?C) ?c (canonical_order_of ores) =
      Inr (t, record_summaries ?sg t ?c)"
    "marked t = {y. \<exists>x \<in> spec_seeds g spec (canonical_order_of ores) (Some ?C). flows g spec (Some ?C) x y}"
    "tab_inv ?sg (spec_seeds g spec (canonical_order_of ores) (Some ?C)) (\<lambda>x. {y. flow_step g spec (Some ?C) x y}) t"
    by blast
  have cl: "transitive_callers ?sg affected = Some {p. \<exists>q \<in> affected. (p, q) \<in> (calls ?sg)\<^sup>+}"
    by (rule closure_runs [OF val fin])
  have "findings r = set (findings_list ?sg spec t sv env ores) \<union> set (preserved ?sg ?C pf) \<and>
      visited_procs r = visited t \<and> (\<forall>x \<in> set pf. S_version x = sv \<and> env_digest x = env)"
    using assms(1) o hd pin t(1) build_findings_run [OF t(3), of spec sv env ores]
    by (auto simp: incremental_solve_def require_pinned_def cl caller_closure_def Let_def check_prior_def
        r_bind_Inr_iff split: if_splits)
  with that [OF o val hd _ t(2,3)] show thesis by blast
qed

lemma incremental_runs:
  assumes small: "length (nodes g) * length (clauses spec) < 2 ^ 64"
    and o: "canonical_order H clk DEFAULT_B DEFAULT_T g = Inr ores"
    and ok: "sv \<noteq> []" "env \<noteq> []" "engine spec \<in> {''ifds'', ''ide''}" "header prior = (sv, env)"
    and fin: "finite affected"
  shows "\<exists>r. incremental_solve H clk g spec affected prior sv env [] = Inr r"
proof -
  let ?sg = "build_supergraph g (canonical_order_of ores)"
  let ?C = "caller_closure ?sg affected"
  let ?c = "invalidate ?C (cache_copy prior)"
  have val: "valid_cpg g" by (rule canonical_order_shape [OF o])
  from run_tabulation [OF val no_splice_invalidated [of ?C "cache_copy prior"], of "canonical_order_of ores" spec]
  obtain t where t: "tabulate ?sg spec (seeded (seed_sources ?sg spec)) (Some ?C) ?c (canonical_order_of ores) =
      Inr (t, record_summaries ?sg t ?c)"
    "marked t = {y. \<exists>x \<in> spec_seeds g spec (canonical_order_of ores) (Some ?C). flows g spec (Some ?C) x y}"
    "tab_inv ?sg (spec_seeds g spec (canonical_order_of ores) (Some ?C)) (\<lambda>x. {y. flow_step g spec (Some ?C) x y}) t"
    by blast
  have "\<exists>h. hash_solution H (findings_list ?sg spec t sv env ores) (canonical_order_of ores) = Inr h"
    by (rule hash_solution_total) (rule findings_hashable [OF val small t(3,2)])
  then show ?thesis
    using o ok t(1) build_findings_run [OF t(3), of spec sv env ores] closure_runs [OF val fin]
    by (auto simp: incremental_solve_def require_pinned_def caller_closure_def Let_def check_prior_def preserved_def)
qed

lemma sample_incremental:
  "\<exists>r. incremental_solve id (\<lambda>_. 0) sample_prog sample_spec {0} sample_cache ''S1'' ''env'' [] = Inr r"
proof -
  obtain ores where o: "canonical_order id (\<lambda>_. 0) DEFAULT_B DEFAULT_T sample_prog = Inr ores"
    using default_order [OF sample_small] .
  show ?thesis
    by (rule incremental_runs [OF sample_bound o]) (simp_all add: sample_spec_def sample_cache_def)
qed

text \<open>Restricted flow never leaves the closure when control flow stays inside procedures.\<close>

lemma restricted_inside:
  assumes val: "valid_cpg g" and intra: "intraprocedural (build_supergraph g order)"
    and "x \<in> spec_seeds g spec order (Some C)" and "flows g spec (Some C) x y"
  shows "inside (build_supergraph g order) C (fst y)"
  using assms(4) unfolding flows_def
proof (induction rule: rtranclp_induct)
  case base
  show ?case using assms(3) by (auto simp: spec_seeds_def proc_in_scope_def inside_def split: option.splits)
next
  case (step y z)
  from step_restricted [OF val intra step.IH] step.hyps(2) show ?case by blast
qed

text \<open>
  The incremental bound. If control-flow edges join nodes of one procedure, an incremental
  run visits only affected procedures and their transitive callers.
\<close>

theorem incremental_stays_in_closure:
  assumes "incremental_solve H clk g spec affected prior sv env pf = Inr r" and "finite affected"
    and "canonical_order H clk DEFAULT_B DEFAULT_T g = Inr ores"
    and "intraprocedural (build_supergraph g (canonical_order_of ores))"
  shows "visited_procs r \<subseteq> caller_closure (build_supergraph g (canonical_order_of ores)) affected"
proof (rule incremental_Inr [OF assms(1,2)], goal_cases)
  case (1 ores' t)
  have [simp]: "ores' = ores" using 1(1) assms(3) by simp
  have "visited t = {p. \<exists>x \<in> marked t. proc_of_node (build_supergraph g (canonical_order_of ores)) (fst x) = Some p}"
    using 1(6) by (simp add: tab_inv_def)
  moreover have "inside (build_supergraph g (canonical_order_of ores))
      (caller_closure (build_supergraph g (canonical_order_of ores)) affected) (fst x)" if "x \<in> marked t" for x
    using that restricted_inside [OF 1(2) assms(4)] unfolding 1(5) \<open>ores' = ores\<close> by blast
  ultimately show ?case unfolding 1(8) by (force simp: inside_def)
qed

theorem incremental_stays_in_closure_witness:
  "\<exists>r ores. incremental_solve id (\<lambda>_. 0) sample_prog sample_spec {0} sample_cache ''S1'' ''env'' [] = Inr r \<and>
     canonical_order id (\<lambda>_. 0) DEFAULT_B DEFAULT_T sample_prog = Inr ores \<and> visited_procs r \<subseteq> caller_closure (build_supergraph sample_prog (canonical_order_of ores)) {0}"
proof -
  obtain r where r: "incremental_solve id (\<lambda>_. 0) sample_prog sample_spec {0} sample_cache ''S1'' ''env'' [] = Inr r"
    using sample_incremental by blast
  obtain ores where o: "canonical_order id (\<lambda>_. 0) DEFAULT_B DEFAULT_T sample_prog = Inr ores"
    using default_order [OF sample_small] .
  have "visited_procs r \<subseteq> caller_closure (build_supergraph sample_prog (canonical_order_of ores)) {0}"
    by (rule incremental_stays_in_closure [OF r _ o sample_intra]) simp
  with r o show ?thesis by blast
qed

text \<open>
  Pinned parameters are never mixed. An incremental run that returns was given a cache and
  prior findings produced under the same version and environment digest as its own, and every
  finding it returns, fresh or preserved, carries them.
\<close>

theorem incremental_pinned:
  assumes "incremental_solve H clk g spec affected prior sv env pf = Inr r" and "finite affected"
  shows "header prior = (sv, env) \<and> (\<forall>x \<in> set pf \<union> findings r. S_version x = sv \<and> env_digest x = env)"
proof (rule incremental_Inr [OF assms], goal_cases)
  case (1 ores t)
  then show ?thesis
    unfolding 1(7) set_findings_list [OF 1(6)] by (auto simp: make_finding_def preserved_def)
qed

theorem incremental_pinned_witness:
  "\<exists>r. incremental_solve id (\<lambda>_. 0) sample_prog sample_spec {0} sample_cache ''S1'' ''env'' [] = Inr r \<and>
     header sample_cache = (''S1'', ''env'')"
proof -
  obtain r where r: "incremental_solve id (\<lambda>_. 0) sample_prog sample_spec {0} sample_cache ''S1'' ''env'' [] = Inr r"
    using sample_incremental by blast
  from incremental_pinned [OF r] r show ?thesis by auto
qed

section \<open>Incremental equals full\<close>

lemma findings_list_untimed:
  assumes "untimed (Inr a) = untimed (Inr b)"
  shows "findings_list sg spec t sv env a = findings_list sg spec t sv env b"
    and "canonical_order_of a = canonical_order_of b"
proof -
  have "a\<lparr>elapsed := 0\<rparr> = b\<lparr>elapsed := 0\<rparr>" using assms by (simp add: untimed_def)
  then have "canonical_order_of a = canonical_order_of b" "cpg_order_hash a = cpg_order_hash b"
    "fingerprint_class_of a = fingerprint_class_of b" by (cases a, cases b, simp)+
  moreover from this have "make_finding spec sv env a = make_finding spec sv env b"
    by (simp add: make_finding_def fun_eq_iff)
  ultimately show "findings_list sg spec t sv env a = findings_list sg spec t sv env b"
    and "canonical_order_of a = canonical_order_of b" by (simp_all add: findings_list_def cong: if_cong)
qed

lemma order_complete:
  "canonical_order H clk B T g = Inr ores \<Longrightarrow> set (canonical_order_of ores) = set (ids g)"
  by (erule canonical_order_shape) (simp add: encode_res_Inr complete_order_def)

lemma hash_solution_perm:
  assumes "set order = set (ids g)" and "distinct xs" and "distinct ys" and "set xs = set ys"
    and "\<forall>x \<in> set xs. sink_node x \<in> set (ids g)"
    and "\<forall>x \<in> set xs. \<forall>y \<in> set xs. sink_node x = sink_node y \<and> sink_fact x = sink_fact y \<longrightarrow> x = y"
  shows "hash_solution H xs order = hash_solution H ys order"
proof -
  have "inj_on (finding_key order) (set xs)"
    using finding_key_inj [OF assms(1)] assms(5,6) by (meson inj_onI)
  moreover have "mset xs = mset ys" using assms(2-4) by (simp add: set_eq_iff_mset_eq_distinct)
  ultimately show ?thesis unfolding hash_solution_def by (subst sort_key_unique) auto
qed

text \<open>
  C3. The incremental run reproduces the full run. On an unchanged graph whose control-flow
  edges stay inside procedures, an incremental run over any affected set, given the findings of
  the full run as prior findings in any order and a cache of the same version, returns the same
  findings (with the same witnesses) and the same solution hash as the full run, whenever its
  own canonical order meets the deadline.
\<close>

theorem incremental_equals_full:
  assumes full: "solve H clk g spec sv env = Inr r"
    and o: "canonical_order H clk' DEFAULT_B DEFAULT_T g = Inr ores"
    and intra: "intraprocedural (build_supergraph g (canonical_order_of ores))"
    and fin: "finite affected" and hdr: "header prior = (sv, env)"
    and pf: "distinct pf" "set pf = findings r"
  shows "\<exists>r'. incremental_solve H clk' g spec affected prior sv env pf = Inr r' \<and>
    findings r' = findings r \<and> solution_hash r' = solution_hash r"
proof (rule solve_Inr [OF full], goal_cases)
  case (1 ores0 t)
  let ?order = "canonical_order_of ores"
  let ?sg = "build_supergraph g ?order"
  let ?C = "caller_closure ?sg affected" and ?sd = "seeded (seed_sources (build_supergraph g ?order) spec)"
  let ?c = "invalidate ?C (cache_copy prior)" and ?p = "proj ?sg ?C t"
  have "untimed (Inr ores0) = untimed (Inr ores)"
    using canonical_order_timeless [of DEFAULT_T DEFAULT_T H clk DEFAULT_B g clk'] 1(1) o
    by (simp add: DEFAULT_T_def)
  note ores = findings_list_untimed(2) [OF this] findings_list_untimed(1) [OF this]
  note t = 1(11) [unfolded ores(1)]
  note ns = no_splice_empty [of None "(sv, env)" "{}"] no_splice_invalidated [of ?C "cache_copy prior"]
  note inv = 1(7) [unfolded ores(1)]
  have own: "all_owned ?sg t" by (rule all_owned_run [OF 1(2) intra ns(1) t])
  note rt = tabulate_projects [OF 1(2) intra ns refl t]
  have inv': "tab_inv ?sg (spec_seeds g spec ?order (Some ?C)) (\<lambda>x. {y. flow_step g spec (Some ?C) x y}) ?p"
    using run_tabulation [OF 1(2) ns(2), of ?order spec] rt by auto
  let ?full = "findings_list ?sg spec t sv env ores" and ?fresh = "findings_list ?sg spec ?p sv env ores"
  let ?kept = "preserved ?sg ?C pf"
  note F = 1(8) [unfolded ores]
  have fresh: "set ?fresh = {x \<in> set ?full. inside ?sg ?C (sink_node x)}"
    by (rule fresh_findings [OF 1(2) intra refl inv own inv'])
  have kept: "set ?kept = {x \<in> set ?full. \<not> inside ?sg ?C (sink_node x)}"
    using pf(2) F by (auto simp: preserved_def inside_def split: option.splits)
  have all: "set (?fresh @ ?kept) = set ?full" using fresh kept by auto
  have g: "sg_cpg ?sg = g" by (rule build_supergraph_facts(1) [OF 1(2)])
  have dl: "distinct (findings_list ?sg spec s sv env ores)" for s
    using 1(2) by (intro distinct_findings_list) (simp add: g valid_cpg_def)
  have "distinct (?fresh @ ?kept)" using dl fresh kept pf(1) by (auto simp: preserved_def)
  moreover have "sink_node x \<in> set (ids g)" if "x \<in> set ?full" for x
    using findings_facts [OF inv that] g by simp
  moreover have "x = y" if "x \<in> set ?full" "y \<in> set ?full" "sink_node x = sink_node y" "sink_fact x = sink_fact y" for x y
    using findings_facts [OF inv that(1)] findings_facts [OF inv that(2)] that(3,4) by metis
  ultimately have hash: "hash_solution H (?fresh @ ?kept) ?order = Inr (solution_hash r)"
    using 1(9) [unfolded ores] hash_solution_perm [OF order_complete [OF o], of ?full "?fresh @ ?kept" H]
      dl all by (metis (no_types, lifting))
  have cl: "transitive_callers ?sg affected = Some {p. \<exists>q \<in> affected. (p, q) \<in> (calls ?sg)\<^sup>+}"
    by (rule closure_runs [OF 1(2) fin])
  have "check_prior sv env pf = Inr ()"
    unfolding check_prior_def pf(2) F set_findings_list [OF inv] by (auto simp: make_finding_def)
  then have "incremental_solve H clk' g spec affected prior sv env pf = Inr
      \<lparr>findings = set (?fresh @ ?kept), solution_hash = solution_hash r, visited_procs = visited ?p,
       result_summaries = record_summaries ?sg ?p ?c\<rparr>"
    using 1(3-5) o hdr rt hash build_findings_run [OF inv', of spec sv env ores]
    by (simp add: incremental_solve_def require_pinned_def cl caller_closure_def Let_def)
  then show ?case using all F by simp
qed

theorem incremental_equals_full_witness:
  "\<exists>r r' pf. solve id (\<lambda>_. 0) sample_prog sample_spec ''S1'' ''env'' = Inr r \<and> 3 \<in> sink_node ` findings r \<and>
     incremental_solve id (\<lambda>_. 0) sample_prog sample_spec {0} sample_cache ''S1'' ''env'' pf = Inr r' \<and>
     findings r' = findings r \<and> solution_hash r' = solution_hash r"
proof -
  obtain r where r: "solve id (\<lambda>_. 0) sample_prog sample_spec ''S1'' ''env'' = Inr r" by (rule sample_run)
  obtain ores where o: "canonical_order id (\<lambda>_. 0) DEFAULT_B DEFAULT_T sample_prog = Inr ores"
    using default_order [OF sample_small] .
  have "finite (findings r)" by (rule solve_Inr [OF r]) simp
  then obtain pf where pf: "distinct pf" "set pf = findings r" using finite_distinct_list by blast
  from incremental_equals_full [OF r o sample_intra _ _ pf, of "{0}" sample_cache] sample_has_finding [OF r] r
  show ?thesis by (auto simp: sample_cache_def)
qed

end
