(* ===== verification/Dsl_Flow.thy ===== *)
theory Dsl_Flow
  imports Dsl_Spec
begin

text \<open>
  Flow functions of the clause language (\<open>analysis/ifds/dsl/flow.py\<close>) and the registry of
  distributivity obligations (\<open>analysis/ifds/dsl/proofs.py\<close>). Facts are Python ints; a fact
  set is a \<open>int set\<close> and a flow function a function on such sets.
\<close>

section \<open>Builders\<close>

type_synonym flow_function = "int set \<Rightarrow> int set"

definition enumerate_bounded_fact_domain :: "int \<Rightarrow> int list res" where
  "enumerate_bounded_fact_domain max_size =
     (if max_size < 1 then Inl (ValueError ''fact domain must be non-empty for a meaningful proof'')
      else Inr [0..max_size - 1])"

text \<open>\<open>itertools.combinations\<close>, in its lexicographic order of positions.\<close>

fun combinations :: "'a list \<Rightarrow> nat \<Rightarrow> 'a list list" where
  "combinations xs 0 = [[]]"
| "combinations [] (Suc r) = []"
| "combinations (x # xs) (Suc r) = map ((#) x) (combinations xs r) @ combinations xs (Suc r)"

definition powerset :: "int list \<Rightarrow> int set list" where
  "powerset domain = concat (map (\<lambda>r. map set (combinations domain r)) [0..<length domain + 1])"

definition build_source :: "int \<Rightarrow> flow_function" where
  "build_source gen x = x \<union> {gen}"

definition build_sink :: flow_function where
  "build_sink x = x"

definition build_sanitize :: "int set \<Rightarrow> flow_function" where
  "build_sanitize kill x = x - kill"

definition build_propagate :: "int \<Rightarrow> int \<Rightarrow> flow_function" where
  "build_propagate source target x = (if source \<in> x then x \<union> {target} else x)"

definition union_flow :: "flow_function list \<Rightarrow> flow_function" where
  "union_flow fs x = fold (\<lambda>g out. out \<union> g x) fs {}"

definition is_distributive :: "flow_function \<Rightarrow> int list \<Rightarrow> bool" where
  "is_distributive f domain =
     (let subsets = powerset domain
      in list_all (\<lambda>x. list_all (\<lambda>y. f (x \<union> y) = f x \<union> f y) subsets) subsets)"

section \<open>Obligations\<close>

text \<open>The registry maps an obligation id to a closure without arguments.\<close>

type_synonym obligation = "unit \<Rightarrow> bool"
type_synonym registry = "string \<rightharpoonup> obligation"

definition REQUIRED_OBLIGATION_IDS :: "string list" where
  "REQUIRED_OBLIGATION_IDS = [''source'', ''sink'', ''sanitize'', ''propagate:arg_ret'',
     ''propagate:arg_field'', ''propagate:field_ret'', ''propagate:field_field'', ''compose:clause_union'']"

definition register_proof :: "string \<Rightarrow> obligation \<Rightarrow> registry \<Rightarrow> registry" where
  "register_proof i obl reg = reg(i \<mapsto> obl)"

text \<open>\<open>None\<close> is the \<open>KeyError\<close> of an unregistered id.\<close>

definition discharge :: "registry \<Rightarrow> string \<Rightarrow> bool option" where
  "discharge reg i = map_option (\<lambda>obl. obl ()) (reg i)"

definition registered_obligation_ids :: "registry \<Rightarrow> string set" where
  "registered_obligation_ids reg = dom reg"

definition all_obligations_discharged :: "registry \<Rightarrow> bool" where
  "all_obligations_discharged reg =
     (if \<not> list_all (\<lambda>i. reg i \<noteq> None) REQUIRED_OBLIGATION_IDS then False
      else list_all (\<lambda>i. the (reg i) ()) REQUIRED_OBLIGATION_IDS)"

definition D_dom :: "int list" where
  "D_dom = [0..7]"

definition obl_source :: obligation where
  "obl_source u = is_distributive (build_source 0) D_dom"

definition obl_sink :: obligation where
  "obl_sink u = is_distributive build_sink D_dom"

definition obl_sanitize :: obligation where
  "obl_sanitize u = is_distributive (build_sanitize {1, 2}) D_dom"

definition PROPAGATE_FORM_FACTS :: "string \<Rightarrow> int \<times> int" where
  "PROPAGATE_FORM_FACTS form = the (map_of
     [(''arg_ret'', (3, 4)), (''arg_field'', (3, 5)), (''field_ret'', (5, 4)), (''field_field'', (5, 6))] form)"

definition make_propagate_obl :: "int \<Rightarrow> int \<Rightarrow> obligation" where
  "make_propagate_obl source target u = is_distributive (build_propagate source target) D_dom"

definition obl_clause_union :: obligation where
  "obl_clause_union u = is_distributive
     (union_flow [build_source 0, build_propagate 3 4, build_sanitize {1}]) D_dom"

definition install_default_obligations :: "registry \<Rightarrow> registry" where
  "install_default_obligations reg =
     register_proof ''compose:clause_union'' obl_clause_union
       (fold (\<lambda>form. case PROPAGATE_FORM_FACTS form of (s, t) \<Rightarrow>
           register_proof (''propagate:'' @ form) (make_propagate_obl s t)) PROPAGATE_FORMS
         (register_proof ''sanitize'' obl_sanitize
           (register_proof ''sink'' obl_sink
             (register_proof ''source'' obl_source reg))))"

section \<open>Exhaustive checking is exact\<close>

lemma combinations_sets: "set (map set (combinations xs r)) \<subseteq> Pow (set xs)"
  by (induction xs r rule: combinations.induct) auto

lemma subset_in_combinations:
  assumes "A \<subseteq> set xs"
  shows "\<exists>r \<le> length xs. A \<in> set (map set (combinations xs r))"
  using assms
proof (induction xs arbitrary: A)
  case Nil
  then show ?case by (intro exI [of _ 0]) simp
next
  case (Cons x xs)
  from Cons.prems have "A - {x} \<subseteq> set xs" by auto
  from Cons.IH [OF this] obtain r where r: "r \<le> length xs" "A - {x} \<in> set (map set (combinations xs r))" by blast
  show ?case
  proof (cases "x \<in> A")
    case True
    then have "A = insert x (A - {x})" by auto
    with r(2) have "A \<in> set (map set (combinations (x # xs) (Suc r)))" by (auto simp: image_iff)
    with r(1) show ?thesis by (intro exI [of _ "Suc r"]) simp
  next
    case False
    then have "A \<in> set (map set (combinations xs r))" using r(2) by simp
    with r(1) show ?thesis by (cases r) (auto intro!: exI [of _ r])
  qed
qed

lemma set_powerset: "set (powerset xs) = Pow (set xs)"
proof
  show "set (powerset xs) \<subseteq> Pow (set xs)"
    using combinations_sets [of xs] unfolding powerset_def by fastforce
  show "Pow (set xs) \<subseteq> set (powerset xs)"
  proof
    fix A assume "A \<in> Pow (set xs)"
    then obtain r where "r \<le> length xs" "A \<in> set (map set (combinations xs r))"
      using subset_in_combinations [of A xs] by blast
    then show "A \<in> set (powerset xs)" unfolding powerset_def by (auto intro!: bexI [of _ r])
  qed
qed

lemma is_distributive_iff:
  "is_distributive f domain \<longleftrightarrow> (\<forall>X Y. X \<subseteq> set domain \<longrightarrow> Y \<subseteq> set domain \<longrightarrow> f (X \<union> Y) = f X \<union> f Y)"
  by (auto simp: is_distributive_def list_all_iff set_powerset Pow_iff)

section \<open>Distributive by construction\<close>

definition distributive :: "flow_function \<Rightarrow> bool" where
  "distributive f \<longleftrightarrow> (\<forall>X Y. f (X \<union> Y) = f X \<union> f Y)"

text \<open>The transfers a specification can denote: the four builders and unions of transfers.\<close>

inductive sanctioned :: "flow_function \<Rightarrow> bool" where
  source: "sanctioned (build_source gen)"
| sink: "sanctioned build_sink"
| sanitize: "sanctioned (build_sanitize kill)"
| propagate: "sanctioned (build_propagate s t)"
| union: "\<forall>f \<in> set fs. sanctioned f \<Longrightarrow> sanctioned (union_flow fs)"

lemma union_flow_Union: "union_flow fs x = (\<Union>f \<in> set fs. f x)"
proof -
  have "fold (\<lambda>g out. out \<union> g x) fs A = A \<union> (\<Union>f \<in> set fs. f x)" for A
    by (induction fs arbitrary: A) auto
  then show ?thesis by (simp add: union_flow_def)
qed

lemma sanctioned_imp_distributive: "sanctioned f \<Longrightarrow> distributive f"
proof (induction rule: sanctioned.induct)
  case (union fs)
  then have "(\<Union>f \<in> set fs. f (X \<union> Y)) = (\<Union>f \<in> set fs. f X \<union> f Y)" for X Y
    by (intro SUP_cong) (auto simp: distributive_def)
  then show ?case by (simp add: distributive_def union_flow_Union UN_Un_distrib)
qed (auto simp: distributive_def build_source_def build_sink_def build_sanitize_def build_propagate_def)

lemma distributive_checks: "distributive f \<Longrightarrow> is_distributive f domain"
  by (simp add: is_distributive_iff distributive_def)

lemmas sanctioned_checks = distributive_checks [OF sanctioned_imp_distributive]

text \<open>
  The exhaustive check is exact. \<open>is_distributive\<close> accepts a flow function on a bounded
  domain exactly when it distributes over the union of any two subsets of the domain.
\<close>

theorem exhaustive_check_exact:
  "is_distributive f domain \<longleftrightarrow> (\<forall>X \<in> Pow (set domain). \<forall>Y \<in> Pow (set domain). f (X \<union> Y) = f X \<union> f Y)"
  unfolding is_distributive_iff by blast

theorem exhaustive_check_exact_witness:
  "\<not> is_distributive (\<lambda>x. if {0, 1} \<subseteq> x then {2} else {}) [0, 1]"
proof
  let ?f = "\<lambda>x :: int set. if {0, 1} \<subseteq> x then {2} else {} :: int set"
  assume "is_distributive ?f [0, 1]"
  then have "\<forall>X \<in> Pow (set [0, 1]). \<forall>Y \<in> Pow (set [0, 1]). ?f (X \<union> Y) = ?f X \<union> ?f Y"
    unfolding exhaustive_check_exact .
  from bspec [OF bspec [OF this, of "{0}"], of "{1}"] show False by simp
qed

text \<open>
  Every sanctioned transfer is distributive. A flow function built from source, sink,
  sanitize and propagate transfers and their clause unions, with any facts as parameters and
  over any fact sets, distributes over union; the bounded check accepts it on every domain.
\<close>

theorem sanctioned_distributive:
  assumes "sanctioned f"
  shows "(\<forall>X Y. f (X \<union> Y) = f X \<union> f Y) \<and> (\<forall>domain. is_distributive f domain)"
  using sanctioned_imp_distributive [OF assms] sanctioned_checks [OF assms] by (simp add: distributive_def)

theorem sanctioned_distributive_witness:
  "is_distributive (union_flow [build_source 9, build_sanitize {3}]) [0, 3, 9]"
proof -
  have "sanctioned (union_flow [build_source 9, build_sanitize {3}])"
    by (rule sanctioned.union) (auto intro: sanctioned.intros)
  from sanctioned_distributive [OF this] show ?thesis by blast
qed

text \<open>
  The boot guard holds. After \<open>install_default_obligations\<close>, whatever was registered
  before, the registry holds every required obligation and the guard
  \<open>all_obligations_discharged\<close> accepts.
\<close>

theorem default_obligations_discharged:
  "all_obligations_discharged (install_default_obligations reg) \<and>
   set REQUIRED_OBLIGATION_IDS \<subseteq> registered_obligation_ids (install_default_obligations reg)"
proof -
  have u: "sanctioned (union_flow [build_source 0, build_propagate 3 4, build_sanitize {1}])"
    by (rule sanctioned.union) (auto intro: sanctioned.intros)
  have obl: "obl_source ()" "obl_sink ()" "obl_sanitize ()" "make_propagate_obl s t ()" "obl_clause_union ()" for s t
    unfolding obl_source_def obl_sink_def obl_sanitize_def make_propagate_obl_def obl_clause_union_def
    by (rule sanctioned_checks, rule sanctioned.intros u)+
  have "install_default_obligations reg i = map_of
      [(''compose:clause_union'', obl_clause_union), (''propagate:field_field'', make_propagate_obl 5 6),
       (''propagate:field_ret'', make_propagate_obl 5 4), (''propagate:arg_field'', make_propagate_obl 3 5),
       (''propagate:arg_ret'', make_propagate_obl 3 4), (''sanitize'', obl_sanitize), (''sink'', obl_sink),
       (''source'', obl_source)] i" if "i \<in> set REQUIRED_OBLIGATION_IDS" for i
    using that by (auto simp: install_default_obligations_def register_proof_def PROPAGATE_FORMS_def
        PROPAGATE_FORM_FACTS_def REQUIRED_OBLIGATION_IDS_def)
  then show ?thesis
    by (simp add: all_obligations_discharged_def registered_obligation_ids_def list_all_iff obl)
      (simp add: REQUIRED_OBLIGATION_IDS_def obl dom_def)
qed

end
