(* ===== verification/Substrate_Queue.thy ===== *)
theory Substrate_Queue
  imports Prelude
begin

text \<open>
  The at-least-once queue and its idempotent consumer (\<open>services/substrate/queue.py\<close>):
  \<open>StandardQueue\<close>, the receipt bookkeeping of \<open>SQSQueue\<close> over a client that is a parameter,
  and \<open>IdempotentConsumer\<close>. The handler is a parameter: a function of the body and of the
  world it acts on, which reports whether it returned normally or raised an \<open>Exception\<close>. So a
  handler that changes the body it is given, that calls the queue or the consumer itself, or that
  raises something outside \<open>Exception\<close> (\<open>KeyboardInterrupt\<close>, which \<open>poll_once\<close> lets through with the
  message still in flight) is outside of the model.
\<close>

section \<open>Messages and errors\<close>

datatype queue_error = UnknownReceiptError int | QueueError nat

type_synonym body = "(string \<times> string) list"

record message =
  body :: body
  dedup_key :: string
  receive_count :: int

definition DEFAULT_MAX_RECEIVE_COUNT :: int where
  "DEFAULT_MAX_RECEIVE_COUNT = 3"

section \<open>The standard queue\<close>

record standard_queue =
  queue_name :: string
  max_receive_count :: int
  ready :: "message list"
  in_flight :: "int \<rightharpoonup> message"
  dlq :: "message list"
  next_receipt :: int

definition new_queue :: "string \<Rightarrow> int \<Rightarrow> standard_queue" where
  "new_queue nm mx = \<lparr>queue_name = nm, max_receive_count = mx, ready = [], in_flight = Map.empty,
     dlq = [], next_receipt = 0\<rparr>"

definition send :: "body \<Rightarrow> string \<Rightarrow> standard_queue \<Rightarrow> standard_queue" where
  "send b k q = q\<lparr>ready := ready q @ [\<lparr>body = b, dedup_key = k, receive_count = 0\<rparr>]\<rparr>"

definition receive :: "standard_queue \<Rightarrow> (int \<times> message) option \<times> standard_queue" where
  "receive q = (case ready q of [] \<Rightarrow> (None, q)
     | m # rest \<Rightarrow>
         let m' = m\<lparr>receive_count := receive_count m + 1\<rparr>; r = next_receipt q
         in (Some (r, m'),
             q\<lparr>ready := rest, next_receipt := r + 1, in_flight := (in_flight q)(r \<mapsto> m')\<rparr>))"

definition ack :: "int \<Rightarrow> standard_queue \<Rightarrow> queue_error + standard_queue" where
  "ack r q = (if in_flight q r = None then Inl (UnknownReceiptError r)
     else Inr (q\<lparr>in_flight := (in_flight q)(r := None)\<rparr>))"

definition fail :: "int \<Rightarrow> standard_queue \<Rightarrow> queue_error + standard_queue" where
  "fail r q = (case in_flight q r of None \<Rightarrow> Inl (UnknownReceiptError r)
     | Some m \<Rightarrow>
         let q' = q\<lparr>in_flight := (in_flight q)(r := None)\<rparr>
         in Inr (if receive_count m \<ge> max_receive_count q' then q'\<lparr>dlq := dlq q' @ [m]\<rparr>
                 else q'\<lparr>ready := ready q' @ [m]\<rparr>))"

definition dlq_messages :: "standard_queue \<Rightarrow> message list" where
  "dlq_messages q = dlq q"

definition ready_depth :: "standard_queue \<Rightarrow> nat" where
  "ready_depth q = length (ready q)"

section \<open>Settling on the production adapter\<close>

text \<open>
  \<open>SQSQueue.ack\<close> and \<open>fail\<close>: the client's \<open>delete_message\<close> and \<open>change_message_visibility\<close>
  act on the client's own state.
\<close>

record 'c sqs_queue =
  queue_url :: string
  client :: 'c
  sqs_in_flight :: "int \<rightharpoonup> string"
  sqs_next_receipt :: int

definition sqs_ack ::
  "(string \<Rightarrow> string \<Rightarrow> 'c \<Rightarrow> 'c) \<Rightarrow> int \<Rightarrow> 'c sqs_queue \<Rightarrow> queue_error + 'c sqs_queue" where
  "sqs_ack delete_message r q = (case sqs_in_flight q r of None \<Rightarrow> Inl (UnknownReceiptError r)
     | Some h \<Rightarrow> Inr (q\<lparr>sqs_in_flight := (sqs_in_flight q)(r := None),
                       client := delete_message (queue_url q) h (client q)\<rparr>))"

definition sqs_fail ::
  "(string \<Rightarrow> string \<Rightarrow> nat \<Rightarrow> 'c \<Rightarrow> 'c) \<Rightarrow> int \<Rightarrow> 'c sqs_queue \<Rightarrow> queue_error + 'c sqs_queue" where
  "sqs_fail change_message_visibility r q = (case sqs_in_flight q r of None \<Rightarrow> Inl (UnknownReceiptError r)
     | Some h \<Rightarrow> Inr (q\<lparr>sqs_in_flight := (sqs_in_flight q)(r := None),
                       client := change_message_visibility (queue_url q) h 0 (client q)\<rparr>))"

section \<open>The idempotent consumer\<close>

record ('q, 'w) consumer =
  queue :: 'q
  processed_keys :: "string set"
  handler_invocations :: nat
  world :: 'w

type_synonym 'w handler = "body \<Rightarrow> 'w \<Rightarrow> bool \<times> 'w"

definition settle ::
  "('q \<Rightarrow> queue_error + 'q) \<Rightarrow> ('q, 'w) consumer \<Rightarrow> (queue_error + bool) \<times> ('q, 'w) consumer" where
  "settle f s = (case f (queue s) of Inl e \<Rightarrow> (Inl e, s) | Inr q \<Rightarrow> (Inr True, s\<lparr>queue := q\<rparr>))"

definition poll_once ::
  "('q \<Rightarrow> (int \<times> message) option \<times> 'q) \<Rightarrow> (int \<Rightarrow> 'q \<Rightarrow> queue_error + 'q) \<Rightarrow> (int \<Rightarrow> 'q \<Rightarrow> queue_error + 'q) \<Rightarrow>
   'w handler \<Rightarrow> ('q, 'w) consumer \<Rightarrow> (queue_error + bool) \<times> ('q, 'w) consumer" where
  "poll_once rcv ak fl handler s =
     (case rcv (queue s) of (None, q) \<Rightarrow> (Inr False, s\<lparr>queue := q\<rparr>)
      | (Some (r, m), q) \<Rightarrow>
          let s1 = s\<lparr>queue := q\<rparr>
          in if dedup_key m \<in> processed_keys s1 then settle (ak r) s1
             else case handler (body m) (world s1) of
                 (False, w) \<Rightarrow> settle (fl r) (s1\<lparr>world := w\<rparr>)
               | (True, w) \<Rightarrow> settle (ak r)
                   (s1\<lparr>world := w, handler_invocations := handler_invocations s1 + 1,
                       processed_keys := insert (dedup_key m) (processed_keys s1)\<rparr>))"

text \<open>\<open>drain(max_iterations)\<close>: the second argument counts the iterations left.\<close>

fun drain_loop ::
  "(('q, 'w) consumer \<Rightarrow> (queue_error + bool) \<times> ('q, 'w) consumer) \<Rightarrow> nat \<Rightarrow> nat \<Rightarrow> ('q, 'w) consumer \<Rightarrow>
   (queue_error + unit) \<times> ('q, 'w) consumer" where
  "drain_loop poll mx 0 s = (Inl (QueueError mx), s)"
| "drain_loop poll mx (Suc n) s = (case poll s of
      (Inl e, s') \<Rightarrow> (Inl e, s')
    | (Inr False, s') \<Rightarrow> (Inr (), s')
    | (Inr True, s') \<Rightarrow> drain_loop poll mx n s')"

definition drain ::
  "('q \<Rightarrow> (int \<times> message) option \<times> 'q) \<Rightarrow> (int \<Rightarrow> 'q \<Rightarrow> queue_error + 'q) \<Rightarrow> (int \<Rightarrow> 'q \<Rightarrow> queue_error + 'q) \<Rightarrow>
   'w handler \<Rightarrow> nat \<Rightarrow> ('q, 'w) consumer \<Rightarrow> (queue_error + unit) \<times> ('q, 'w) consumer" where
  "drain rcv ak fl handler max_iterations s = drain_loop (poll_once rcv ak fl handler) max_iterations max_iterations s"

section \<open>The queue protocol\<close>

text \<open>
  What the consumer relies on: a delivery is of a waiting message, with its count raised, and
  can be settled; settling by failure puts the message back below the delivery limit and sets
  it aside at the limit.
\<close>

definition bump :: "message \<Rightarrow> message" where
  "bump m = m\<lparr>receive_count := receive_count m + 1\<rparr>"

locale queue_port =
  fixes rcv :: "'q \<Rightarrow> (int \<times> message) option \<times> 'q"
    and ak :: "int \<Rightarrow> 'q \<Rightarrow> queue_error + 'q"
    and fl :: "int \<Rightarrow> 'q \<Rightarrow> queue_error + 'q"
    and waiting :: "'q \<Rightarrow> message multiset"
    and dead :: "'q \<Rightarrow> message multiset"
    and ok :: "'q \<Rightarrow> bool"
    and cap :: int
  assumes waiting_below: "ok q \<Longrightarrow> m \<in># waiting q \<Longrightarrow> receive_count m < cap"
    and rcv_None: "ok q \<Longrightarrow> rcv q = (None, q') \<Longrightarrow> q' = q \<and> waiting q = {#}"
    and rcv_Some: "ok q \<Longrightarrow> rcv q = (Some (r, m), q') \<Longrightarrow>
      \<exists>m0 \<in># waiting q. m = bump m0 \<and> waiting q' = waiting q - {#m0#} \<and> dead q' = dead q"
    and ak_Some: "ok q \<Longrightarrow> rcv q = (Some (r, m), q') \<Longrightarrow>
      \<exists>p. ak r q' = Inr p \<and> ok p \<and> waiting p = waiting q' \<and> dead p = dead q'"
    and fl_Some: "ok q \<Longrightarrow> rcv q = (Some (r, m), q') \<Longrightarrow>
      \<exists>p. fl r q' = Inr p \<and> ok p \<and>
        (if receive_count m \<ge> cap then waiting p = waiting q' \<and> dead p = dead q' + {#m#}
         else waiting p = waiting q' + {#m#} \<and> dead p = dead q')"
begin

definition poll :: "'w handler \<Rightarrow> ('q, 'w) consumer \<Rightarrow> (queue_error + bool) \<times> ('q, 'w) consumer" where
  "poll = poll_once rcv ak fl"

text \<open>The deliveries that can still happen.\<close>

definition work :: "'q \<Rightarrow> nat" where
  "work q = (\<Sum>m \<in># waiting q. nat (cap - receive_count m))"

text \<open>One poll: nothing, a duplicate, a failure or a success.\<close>

lemma poll_cases:
  assumes ok: "ok (queue s)"
  obtains (empty) "poll h s = (Inr False, s)" "waiting (queue s) = {#}"
  | (settled) m0 s' where "poll h s = (Inr True, s')" "m0 \<in># waiting (queue s)" "ok (queue s')"
      "waiting (queue s') = waiting (queue s) - {#m0#}" "dead (queue s') = dead (queue s)"
      "if dedup_key m0 \<in> processed_keys s
       then processed_keys s' = processed_keys s \<and> handler_invocations s' = handler_invocations s \<and> world s' = world s
       else processed_keys s' = insert (dedup_key m0) (processed_keys s) \<and>
         handler_invocations s' = handler_invocations s + 1"
  | (failed) m0 s' where "poll h s = (Inr True, s')" "m0 \<in># waiting (queue s)" "ok (queue s')"
      "processed_keys s' = processed_keys s" "handler_invocations s' = handler_invocations s"
      "dedup_key m0 \<notin> processed_keys s"
      "if receive_count m0 + 1 \<ge> cap
       then waiting (queue s') = waiting (queue s) - {#m0#} \<and> dead (queue s') = dead (queue s) + {#bump m0#}
       else waiting (queue s') = waiting (queue s) - {#m0#} + {#bump m0#} \<and> dead (queue s') = dead (queue s)"
proof (cases "rcv (queue s)")
  case (Pair x q)
  show thesis
  proof (cases x)
    case None
    with Pair rcv_None [OF ok] have "q = queue s" "waiting (queue s) = {#}" by auto
    with Pair None show ?thesis by (intro empty) (simp_all add: poll_def poll_once_def)
  next
    case (Some rm)
    obtain r m where rm: "rm = (r, m)" by (cases rm)
    note rc = Pair [unfolded Some rm]
    from rcv_Some [OF ok rc] obtain m0 where m0: "m0 \<in># waiting (queue s)" "m = bump m0"
      "waiting q = waiting (queue s) - {#m0#}" "dead q = dead (queue s)" by blast
    from ak_Some [OF ok rc] obtain p where p: "ak r q = Inr p" "ok p" "waiting p = waiting q" "dead p = dead q" by blast
    from fl_Some [OF ok rc] obtain pf where pf: "fl r q = Inr pf" "ok pf"
      "if receive_count m \<ge> cap then waiting pf = waiting q \<and> dead pf = dead q + {#m#}
       else waiting pf = waiting q + {#m#} \<and> dead pf = dead q" by blast
    show ?thesis
    proof (cases "dedup_key m \<in> processed_keys s")
      case True
      show ?thesis
        by (rule settled [of "s\<lparr>queue := p\<rparr>" m0])
          (use True rc p m0 in \<open>simp_all add: poll_def poll_once_def settle_def bump_def\<close>)
    next
      case False
      obtain okh w where h: "h (body m) (world s) = (okh, w)" by fastforce
      show ?thesis
      proof (cases okh)
        case True
        show ?thesis
          by (rule settled [of "s\<lparr>queue := p, world := w, handler_invocations := handler_invocations s + 1,
                processed_keys := insert (dedup_key m) (processed_keys s)\<rparr>" m0])
            (use True False h rc p m0 in \<open>simp_all add: poll_def poll_once_def settle_def bump_def\<close>)
      next
        case f: False
        show ?thesis
          by (rule failed [of "s\<lparr>queue := pf, world := w\<rparr>" m0])
            (use f False h rc pf m0 in \<open>simp_all add: poll_def poll_once_def settle_def bump_def\<close>)
      qed
    qed
  qed
qed

lemma in_minus_other: "d \<noteq> m \<Longrightarrow> d \<in># A - {#m#} \<longleftrightarrow> d \<in># A"
  by (simp add: in_diff_count)

lemma work_remove: "m \<in># waiting q \<Longrightarrow> waiting p = waiting q - {#m#} \<Longrightarrow> work q = work p + nat (cap - receive_count m)"
  by (auto simp: work_def dest!: multi_member_split)

lemma poll_work:
  assumes "ok (queue s)" and "poll h s = (Inr True, s')"
  shows "ok (queue s') \<and> work (queue s') < work (queue s)"
  using assms(1)
proof (cases rule: poll_cases [of s h])
  case empty
  with assms(2) show ?thesis by simp
next
  case (settled m0 t)
  with assms(2) have t: "t = s'" by simp
  have "receive_count m0 < cap" using waiting_below [OF assms(1) settled(2)] .
  with work_remove [OF settled(2,4)] settled(3) show ?thesis by (simp add: t)
next
  case (failed m0 t)
  with assms(2) have t: "t = s'" by simp
  have lt: "receive_count m0 < cap" using waiting_below [OF assms(1) failed(2)] .
  have w: "work (queue s) = (\<Sum>m \<in># waiting (queue s) - {#m0#}. nat (cap - receive_count m)) + nat (cap - receive_count m0)"
    using failed(2) by (auto simp: work_def dest!: multi_member_split)
  show ?thesis
    using failed(3,7) lt w by (auto simp: t work_def bump_def split: if_splits)
qed

lemma poll_never_raises: "ok (queue s) \<Longrightarrow> \<exists>b s'. poll h s = (Inr b, s') \<and> ok (queue s')"
  by (rule poll_cases [of s h]) auto

text \<open>The fate of every message: still waiting, processed by key, or set aside at the limit.\<close>

definition accounted :: "message \<Rightarrow> ('q, 'w) consumer \<Rightarrow> bool" where
  "accounted m s \<longleftrightarrow> dedup_key m \<in> processed_keys s \<or>
     (\<exists>d. d \<in># waiting (queue s) + dead (queue s) \<and> body d = body m \<and> dedup_key d = dedup_key m)"

definition dead_spent :: "('q, 'w) consumer \<Rightarrow> bool" where
  "dead_spent s \<longleftrightarrow> (\<forall>d \<in># dead (queue s). receive_count d \<ge> cap)"

lemma poll_accounted:
  assumes "ok (queue s)" and "poll h s = (Inr True, s')" and "accounted m s"
  shows "accounted m s'"
  using assms(1)
proof (cases rule: poll_cases [of s h])
  case (settled m0 t)
  with assms(2) have t: "t = s'" by simp
  have keys: "processed_keys s \<subseteq> processed_keys s'" "dedup_key m0 \<in> processed_keys s'"
    using settled(6) by (auto simp: t split: if_splits)
  have "d = m0 \<or> d \<in># waiting (queue s') + dead (queue s')" if "d \<in># waiting (queue s) + dead (queue s)" for d
    using that settled(4,5) by (cases "d = m0") (auto simp: t in_minus_other)
  with assms(3) keys show ?thesis unfolding accounted_def by (metis subsetD)
next
  case (failed m0 t)
  with assms(2) have t: "t = s'" by simp
  have "bump m0 \<in># waiting (queue s') + dead (queue s')" using failed(7) by (auto simp: t split: if_splits)
  moreover have "d = m0 \<or> d \<in># waiting (queue s') + dead (queue s')" if "d \<in># waiting (queue s) + dead (queue s)" for d
    using that failed(7) by (cases "d = m0") (auto simp: t in_minus_other split: if_splits)
  ultimately show ?thesis
    using assms(3) failed(4) unfolding accounted_def t by (metis bump_def message.select_convs message.surjective message.update_convs(3))
qed (use assms(2) in simp)

lemma poll_dead_spent:
  assumes "ok (queue s)" and "poll h s = (Inr b, s')" and "dead_spent s"
  shows "dead_spent s'"
  using assms(1)
proof (cases rule: poll_cases [of s h])
  case (failed m0 t)
  with assms(2,3) show ?thesis by (auto simp: dead_spent_def bump_def split: if_splits)
qed (use assms(2,3) in \<open>auto simp: dead_spent_def\<close>)

text \<open>Each success is for a key that had none before.\<close>

definition counted :: "('q, 'w) consumer \<Rightarrow> bool" where
  "counted s \<longleftrightarrow> finite (processed_keys s) \<and> handler_invocations s = card (processed_keys s)"

lemma poll_counted:
  assumes "ok (queue s)" and "poll h s = (Inr b, s')" and "counted s"
  shows "counted s'"
  using assms(1)
proof (cases rule: poll_cases [of s h])
  case (settled m0 t)
  with assms(2,3) show ?thesis by (auto simp: counted_def split: if_splits)
qed (use assms(2,3) in \<open>auto simp: counted_def\<close>)

lemma drain_result:
  "ok (queue s) \<Longrightarrow> work (queue s) < n \<Longrightarrow> \<exists>s'. drain_loop (poll h) mx n s = (Inr (), s') \<and>
     ok (queue s') \<and> waiting (queue s') = {#} \<and> (\<forall>m. accounted m s \<longrightarrow> accounted m s') \<and>
     (dead_spent s \<longrightarrow> dead_spent s') \<and> (counted s \<longrightarrow> counted s')"
proof (induction n arbitrary: s)
  case (Suc n)
  show ?case
    using Suc.prems(1)
  proof (cases rule: poll_cases [of s h])
    case empty
    with Suc.prems(1) show ?thesis by auto
  next
    case (settled m0 t)
    note w = poll_work [OF Suc.prems(1) settled(1)]
    from Suc.IH [of t] w Suc.prems(2) obtain s' where "drain_loop (poll h) mx n t = (Inr (), s')"
      "ok (queue s')" "waiting (queue s') = {#}" "\<forall>m. accounted m t \<longrightarrow> accounted m s'"
      "dead_spent t \<longrightarrow> dead_spent s'" "counted t \<longrightarrow> counted s'" by auto
    with settled(1) poll_accounted [OF Suc.prems(1) settled(1)] poll_dead_spent [OF Suc.prems(1) settled(1)]
      poll_counted [OF Suc.prems(1) settled(1)] show ?thesis by auto
  next
    case (failed m0 t)
    note w = poll_work [OF Suc.prems(1) failed(1)]
    from Suc.IH [of t] w Suc.prems(2) obtain s' where "drain_loop (poll h) mx n t = (Inr (), s')"
      "ok (queue s')" "waiting (queue s') = {#}" "\<forall>m. accounted m t \<longrightarrow> accounted m s'"
      "dead_spent t \<longrightarrow> dead_spent s'" "counted t \<longrightarrow> counted s'" by auto
    with failed(1) poll_accounted [OF Suc.prems(1) failed(1)] poll_dead_spent [OF Suc.prems(1) failed(1)]
      poll_counted [OF Suc.prems(1) failed(1)] show ?thesis by auto
  qed
qed simp

end

section \<open>The standard queue implements the protocol\<close>

definition delivery_limit :: "int \<Rightarrow> int" where
  "delivery_limit mx = max 1 mx"

text \<open>
  The invariant of \<open>StandardQueue\<close>: no waiting message has used up its deliveries, messages in
  flight have been delivered within the limit, and receipts in flight are older than the next.
\<close>

definition queue_ok :: "int \<Rightarrow> standard_queue \<Rightarrow> bool" where
  "queue_ok mx q \<longleftrightarrow> max_receive_count q = mx \<and>
     (\<forall>m \<in> set (ready q). 0 \<le> receive_count m \<and> receive_count m < delivery_limit mx) \<and>
     (\<forall>r m. in_flight q r = Some m \<longrightarrow> r < next_receipt q \<and> 1 \<le> receive_count m \<and> receive_count m \<le> delivery_limit mx) \<and>
     (\<forall>m \<in> set (dlq q). receive_count m = delivery_limit mx)"

lemma receive_ok:
  assumes "queue_ok mx q" and "receive q = (x, q')"
  shows "queue_ok mx q'"
  using assms by (auto simp: receive_def queue_ok_def Let_def split: list.splits if_splits) force+

lemma ack_ok: "queue_ok mx q \<Longrightarrow> ack r q = Inr q' \<Longrightarrow> queue_ok mx q'"
  by (auto simp: ack_def queue_ok_def split: if_splits)

lemma fail_ok: "queue_ok mx q \<Longrightarrow> fail r q = Inr q' \<Longrightarrow> queue_ok mx q'"
  by (auto simp: fail_def queue_ok_def delivery_limit_def Let_def split: option.splits if_splits) force+

lemma send_ok: "queue_ok mx q \<Longrightarrow> queue_ok mx (send b k q)"
  by (auto simp: send_def queue_ok_def delivery_limit_def)

lemma new_queue_ok: "queue_ok mx (new_queue nm mx)"
  by (simp add: queue_ok_def new_queue_def)

lemma receive_Some:
  "receive q = (Some (r, m), q') \<longleftrightarrow> (\<exists>m0 rest. ready q = m0 # rest \<and> m = bump m0 \<and> r = next_receipt q \<and>
     q' = q\<lparr>ready := rest, next_receipt := r + 1, in_flight := (in_flight q)(r \<mapsto> m)\<rparr>)"
  by (auto simp: receive_def Let_def bump_def split: list.splits)

interpretation std: queue_port receive ack fail "\<lambda>q. mset (ready q)" "\<lambda>q. mset (dlq q)" "queue_ok mx" "delivery_limit mx"
  for mx
proof
  fix q m assume "queue_ok mx q" "m \<in># mset (ready q)"
  then show "receive_count m < delivery_limit mx" by (simp add: queue_ok_def)
next
  fix q q' assume "queue_ok mx q" "receive q = (None, q')"
  then show "q' = q \<and> mset (ready q) = {#}" by (auto simp: receive_def Let_def split: list.splits)
next
  fix q r m q' assume "queue_ok mx q" "receive q = (Some (r, m), q')"
  then show "\<exists>m0 \<in># mset (ready q). m = bump m0 \<and> mset (ready q') = mset (ready q) - {#m0#} \<and> mset (dlq q') = mset (dlq q)"
    by (auto simp: receive_Some)
next
  fix q r m q' assume ok: "queue_ok mx q" and rc: "receive q = (Some (r, m), q')"
  note ok' = receive_ok [OF ok rc]
  have r: "in_flight q' r = Some m" using rc by (auto simp: receive_Some)
  show "\<exists>p. ack r q' = Inr p \<and> queue_ok mx p \<and> mset (ready p) = mset (ready q') \<and> mset (dlq p) = mset (dlq q')"
  proof -
    obtain p where p: "ack r q' = Inr p" using r by (auto simp: ack_def)
    with ack_ok [OF ok' p] show ?thesis by (auto simp: ack_def split: if_splits)
  qed
  have lim: "receive_count m \<ge> max_receive_count q' \<longleftrightarrow> receive_count m \<ge> delivery_limit mx"
    using ok' r by (auto simp: queue_ok_def delivery_limit_def)
  show "\<exists>p. fail r q' = Inr p \<and> queue_ok mx p \<and>
        (if receive_count m \<ge> delivery_limit mx then mset (ready p) = mset (ready q') \<and> mset (dlq p) = mset (dlq q') + {#m#}
         else mset (ready p) = mset (ready q') + {#m#} \<and> mset (dlq p) = mset (dlq q'))"
  proof -
    obtain p where p: "fail r q' = Inr p" using r by (auto simp: fail_def Let_def)
    with fail_ok [OF ok' p] r lim show ?thesis by (auto simp: fail_def Let_def split: if_splits)
  qed
qed

section \<open>Delivery properties\<close>

text \<open>Sequences of calls on a queue, with the messages that were acknowledged so far.\<close>

datatype queue_op = Send body string | Receive | Ack int | Fail int

definition content :: "message \<Rightarrow> body \<times> string" where
  "content m = (body m, dedup_key m)"

inductive q_steps :: "int \<Rightarrow> queue_op list \<Rightarrow> standard_queue \<Rightarrow> (body \<times> string) multiset \<Rightarrow> bool" for mx where
  start: "q_steps mx [] (new_queue nm mx) {#}"
| sent: "q_steps mx ops q a \<Longrightarrow> q_steps mx (ops @ [Send b k]) (send b k q) a"
| received: "q_steps mx ops q a \<Longrightarrow> q_steps mx (ops @ [Receive]) (snd (receive q)) a"
| acked: "q_steps mx ops q a \<Longrightarrow> in_flight q r = Some m \<Longrightarrow> ack r q = Inr q' \<Longrightarrow>
    q_steps mx (ops @ [Ack r]) q' (a + {#content m#})"
| ack_raised: "q_steps mx ops q a \<Longrightarrow> ack r q = Inl e \<Longrightarrow> q_steps mx (ops @ [Ack r]) q a"
| failed: "q_steps mx ops q a \<Longrightarrow> fail r q = Inr q' \<Longrightarrow> q_steps mx (ops @ [Fail r]) q' a"
| fail_raised: "q_steps mx ops q a \<Longrightarrow> fail r q = Inl e \<Longrightarrow> q_steps mx (ops @ [Fail r]) q a"

lemma q_steps_ok: "q_steps mx ops q a \<Longrightarrow> queue_ok mx q"
proof (induction rule: q_steps.induct)
  case (received ops q a)
  then show ?case by (metis prod.collapse receive_ok)
qed (auto intro: new_queue_ok send_ok ack_ok fail_ok)

definition sent_by :: "queue_op list \<Rightarrow> (body \<times> string) multiset" where
  "sent_by ops = mset (concat (map (\<lambda>x. case x of Send b k \<Rightarrow> [(b, k)] | _ \<Rightarrow> []) ops))"

definition held :: "standard_queue \<Rightarrow> (body \<times> string) multiset" where
  "held q = image_mset content (mset (ready q) + mset (dlq q) +
     image_mset (\<lambda>r. the (in_flight q r)) (mset_set (dom (in_flight q))))"

lemma q_steps_finite: "q_steps mx ops q a \<Longrightarrow> finite (dom (in_flight q))"
  by (induction rule: q_steps.induct)
    (auto simp: new_queue_def send_def receive_def ack_def fail_def Let_def simp del: fun_upd_apply
      split: list.splits option.splits if_splits)

lemma flight_remove:
  assumes "finite (dom f)" and "f r = Some m"
  shows "image_mset (\<lambda>r. the (f r)) (mset_set (dom f)) =
    image_mset (\<lambda>x. the ((f(r := None)) x)) (mset_set (dom (f(r := None)))) + {#m#}"
proof -
  have d: "dom f = insert r (dom (f(r := None)))" using assms(2) by auto
  have "mset_set (dom f) = add_mset r (mset_set (dom (f(r := None))))"
    using assms by (subst d) (simp add: mset_set.insert_remove)
  then have "image_mset (\<lambda>r. the (f r)) (mset_set (dom f)) =
      {#m#} + image_mset (\<lambda>r. the (f r)) (mset_set (dom (f(r := None))))"
    using assms(2) by simp
  also have "image_mset (\<lambda>x. the (f x)) (mset_set (dom (f(r := None)))) =
      image_mset (\<lambda>x. the ((f(r := None)) x)) (mset_set (dom (f(r := None))))"
    using assms(1) by (intro image_mset_cong) auto
  finally show ?thesis by simp
qed

lemma flight_add:
  assumes "finite (dom f)" and "f r = None"
  shows "image_mset (\<lambda>x. the ((f(r \<mapsto> m)) x)) (mset_set (insert r (dom f))) =
    image_mset (\<lambda>r. the (f r)) (mset_set (dom f)) + {#m#}"
  using flight_remove [of "f(r \<mapsto> m)" r m] assms by (simp add: fun_upd_idem)

lemma q_steps_conserve: "q_steps mx ops q a \<Longrightarrow> sent_by ops = held q + a"
proof (induction rule: q_steps.induct)
  case (received ops q a)
  have fresh: "in_flight q (next_receipt q) = None"
    using q_steps_ok [OF received.hyps] unfolding queue_ok_def by (metis less_irrefl not_None_eq)
  show ?case
  proof (cases "ready q")
    case Nil
    with received show ?thesis by (simp add: sent_by_def receive_def)
  next
    case (Cons m rest)
    with received fresh show ?thesis
      by (simp add: sent_by_def receive_def held_def Let_def content_def
          flight_add [OF q_steps_finite [OF received.hyps]] del: fun_upd_apply)
  qed
next
  case (acked ops q a r m q')
  with flight_remove [OF q_steps_finite [OF acked.hyps(1)] acked.hyps(2)] show ?case
    by (auto simp: sent_by_def held_def ack_def simp del: fun_upd_apply split: if_splits)
next
  case (failed ops q a r q')
  then obtain m where m: "in_flight q r = Some m" by (auto simp: fail_def split: option.splits)
  with failed flight_remove [OF q_steps_finite [OF failed.hyps(1)] m] show ?case
    by (auto simp: sent_by_def held_def fail_def Let_def simp del: fun_upd_apply split: if_splits)
qed (auto simp: sent_by_def held_def new_queue_def send_def content_def)

text \<open>
  C32. No message is lost or duplicated. After any sequence of sends, receives,
  acknowledgements and failures, the messages ever sent are, with multiplicity, exactly those
  acknowledged, those ready, those in flight and those in the dead-letter queue.
\<close>

theorem queue_conserves_messages:
  assumes "q_steps mx ops q acked"
  shows "sent_by ops = acked + image_mset content (mset (ready q) + mset (dlq q) +
     image_mset (\<lambda>r. the (in_flight q r)) (mset_set (dom (in_flight q))))"
  using q_steps_conserve [OF assms] by (simp add: held_def)

text \<open>
  Delivery limit. After any sequence of calls, a ready message has been delivered fewer
  times than the limit (\<open>max_receive_count\<close>, at least one), a message in flight at most that
  often, and a message is in the dead-letter queue only after exactly that many deliveries;
  receipts handed out are never reused.
\<close>

theorem queue_delivery_limit:
  assumes "q_steps mx ops q acked"
  shows "(\<forall>m \<in> set (ready q). receive_count m < max 1 mx) \<and>
    (\<forall>r m. in_flight q r = Some m \<longrightarrow> receive_count m \<le> max 1 mx \<and> r < next_receipt q) \<and>
    (\<forall>m \<in> set (dlq_messages q). receive_count m = max 1 mx)"
  using q_steps_ok [OF assms] by (auto simp: queue_ok_def delivery_limit_def dlq_messages_def)

lemma sample_steps:
  "q_steps 1 [Send [] ''k'', Receive, Fail 0]
     (new_queue ''q'' 1\<lparr>next_receipt := 1, dlq := [\<lparr>body = [], dedup_key = ''k'', receive_count = 1\<rparr>]\<rparr>) {#}"
proof -
  let ?q = "send [] ''k'' (new_queue ''q'' 1)"
  have "q_steps 1 ([] @ [Send [] ''k'']) ?q {#}" by (intro q_steps.intros)
  from q_steps.received [OF this] have r: "q_steps 1 [Send [] ''k'', Receive] (snd (receive ?q)) {#}" by simp
  have "fail 0 (snd (receive ?q)) =
      Inr (new_queue ''q'' 1\<lparr>next_receipt := 1, dlq := [\<lparr>body = [], dedup_key = ''k'', receive_count = 1\<rparr>]\<rparr>)"
    by (simp add: send_def receive_def fail_def new_queue_def Let_def)
  from q_steps.failed [OF r this] show ?thesis by simp
qed

theorem queue_conserves_messages_witness:
  "sent_by [Send [] ''k'', Receive, Fail 0] = {#([], ''k'')#}"
  using queue_conserves_messages [OF sample_steps] by (simp add: new_queue_def content_def)

theorem queue_delivery_limit_witness:
  "map receive_count (dlq_messages (new_queue ''q'' 1\<lparr>next_receipt := 1,
      dlq := [\<lparr>body = [], dedup_key = ''k'', receive_count = 1\<rparr>]\<rparr>)) = [1]"
  using queue_delivery_limit [OF sample_steps] by (simp add: dlq_messages_def)

text \<open>
  Receipts settle once. \<open>ack\<close> and \<open>fail\<close> raise \<open>UnknownReceiptError\<close> exactly for a receipt
  that is not in flight; settling a receipt takes it out of flight, so that a second settling
  raises; the production adapter rejects such a receipt before it calls its client.
\<close>

theorem receipts_settle_once:
  "(ack r q = Inl (UnknownReceiptError r) \<longleftrightarrow> in_flight q r = None) \<and>
   (fail r q = Inl (UnknownReceiptError r) \<longleftrightarrow> in_flight q r = None) \<and>
   (\<forall>q'. ack r q = Inr q' \<or> fail r q = Inr q' \<longrightarrow>
      ack r q' = Inl (UnknownReceiptError r) \<and> fail r q' = Inl (UnknownReceiptError r)) \<and>
   (sqs_in_flight s r = None \<longrightarrow> sqs_ack del r s = Inl (UnknownReceiptError r) \<and>
      sqs_fail vis r s = Inl (UnknownReceiptError r)) \<and>
   (\<forall>s'. sqs_ack del r s = Inr s' \<or> sqs_fail vis r s = Inr s' \<longrightarrow>
      sqs_ack del r s' = Inl (UnknownReceiptError r) \<and> sqs_fail vis r s' = Inl (UnknownReceiptError r))"
  by (auto simp: ack_def fail_def sqs_ack_def sqs_fail_def Let_def split: option.splits if_splits)

theorem receipts_settle_once_witness:
  "\<exists>q. ack 0 (snd (receive (send [] ''k'' (new_queue ''q'' 3)))) = Inr q \<and> ack 0 q = Inl (UnknownReceiptError 0)"
proof -
  let ?q = "snd (receive (send [] ''k'' (new_queue ''q'' 3)))"
  obtain q where q: "ack 0 ?q = Inr q"
    by (simp add: ack_def receive_def send_def new_queue_def Let_def)
  with receipts_settle_once [of 0 ?q "undefined :: unit sqs_queue" undefined undefined] show ?thesis by blast
qed

section \<open>Consumer properties\<close>

definition new_consumer :: "standard_queue \<Rightarrow> 'w \<Rightarrow> (standard_queue, 'w) consumer" where
  "new_consumer q w = \<lparr>queue = q, processed_keys = {}, handler_invocations = 0, world = w\<rparr>"

text \<open>Settling a delivery leaves the messages in flight elsewhere as they were before it.\<close>

lemma settle_in_flight:
  assumes ok: "queue_ok mx q" and rc: "receive q = (Some (r, m), q')" and st: "ack r q' = Inr p \<or> fail r q' = Inr p"
  shows "in_flight p = in_flight q"
proof -
  have "in_flight q (next_receipt q) = None" using ok unfolding queue_ok_def by (metis less_irrefl not_None_eq)
  moreover have "in_flight p = (in_flight q')(r := None)"
    using st by (auto simp: ack_def fail_def Let_def split: option.splits if_splits)
  ultimately show ?thesis using rc by (auto simp: receive_Some)
qed

lemma poll_in_flight:
  assumes ok: "queue_ok mx (queue s)" and poll: "poll_once receive ack fail h s = (Inr b, s')"
  shows "queue_ok mx (queue s') \<and> in_flight (queue s') = in_flight (queue s)"
proof (cases "receive (queue s)")
  case (Pair x q)
  show ?thesis
  proof (cases x)
    case None
    then show ?thesis using poll Pair std.rcv_None [OF ok] ok by (simp add: poll_once_def)
  next
    case (Some rm)
    obtain r m where rc: "receive (queue s) = (Some (r, m), q)" using Pair Some by (cases rm) simp
    have "ack r q = Inr (queue s') \<or> fail r q = Inr (queue s')"
      using poll by (auto simp: poll_once_def rc settle_def Let_def split: if_splits sum.splits prod.splits bool.splits)
    with settle_in_flight [OF ok rc] ack_ok fail_ok receive_ok [OF ok rc] show ?thesis by blast
  qed
qed

lemma drain_in_flight:
  "queue_ok mx (queue s) \<Longrightarrow> drain_loop (poll_once receive ack fail h) k n s = (Inr (), s') \<Longrightarrow>
     in_flight (queue s') = in_flight (queue s)"
proof (induction n arbitrary: s)
  case (Suc n)
  obtain x t where t: "poll_once receive ack fail h s = (x, t)" by fastforce
  then show ?case
    using Suc poll_in_flight [OF Suc.prems(1), of h _ t] by (auto split: sum.splits bool.splits)
qed simp

text \<open>
  C34. Draining settles every ready message. On a standard queue reached by any calls, a consumer
  in any state whose iteration bound exceeds the deliveries left (for each ready message the limit
  minus its count) drains without error, whether the handler returns or raises; then no message is
  ready, every message that was ready has its key processed or lies in the dead-letter queue, and
  every message there was delivered exactly the limit's number of times. If the consumer had counted
  one invocation for each processed key, it still does. The messages in flight elsewhere are not
  touched: they stay in flight until their holder acknowledges or fails them.
\<close>

theorem drain_settles_all:
  assumes "q_steps mx ops q acked" and "queue c = q"
    and "(\<Sum>m \<in># mset (ready q). nat (max 1 mx - receive_count m)) < n"
  shows "\<exists>s. drain receive ack fail handler n c = (Inr (), s) \<and> ready_depth (queue s) = 0 \<and>
    (\<forall>m \<in> set (ready q). dedup_key m \<in> processed_keys s \<or>
       (\<exists>d \<in> set (dlq_messages (queue s)). body d = body m \<and> dedup_key d = dedup_key m)) \<and>
    (\<forall>d \<in> set (dlq_messages (queue s)). receive_count d = max 1 mx) \<and>
    in_flight (queue s) = in_flight q \<and>
    (finite (processed_keys c) \<and> handler_invocations c = card (processed_keys c) \<longrightarrow>
       handler_invocations s = card (processed_keys s))"
proof -
  have ok: "queue_ok mx (queue c)" using q_steps_ok [OF assms(1)] by (simp add: assms(2))
  have "std.work mx (queue c) < n" using assms(3) unfolding std.work_def by (simp add: assms(2) delivery_limit_def)
  from std.drain_result [OF ok this, of handler n] obtain s where
    s: "drain_loop (std.poll handler) n n c = (Inr (), s)" "queue_ok mx (queue s)" "mset (ready (queue s)) = {#}"
      "\<And>m. std.accounted m c \<Longrightarrow> std.accounted m s" "std.counted c \<Longrightarrow> std.counted s" by blast
  have "std.accounted m s" if "m \<in> set (ready q)" for m
    by (rule s(4)) (use that in \<open>auto simp: std.accounted_def assms(2)\<close>)
  then have "\<forall>m \<in> set (ready q). dedup_key m \<in> processed_keys s \<or>
       (\<exists>d \<in> set (dlq_messages (queue s)). body d = body m \<and> dedup_key d = dedup_key m)"
    using s(3) by (fastforce simp: std.accounted_def dlq_messages_def)
  moreover have "finite (processed_keys c) \<and> handler_invocations c = card (processed_keys c) \<longrightarrow>
      handler_invocations s = card (processed_keys s)"
    using s(5) by (simp add: std.counted_def)
  moreover have "\<forall>d \<in> set (dlq_messages (queue s)). receive_count d = max 1 mx"
    using s(2) by (simp add: queue_ok_def delivery_limit_def dlq_messages_def)
  moreover have "in_flight (queue s) = in_flight q"
    using drain_in_flight [OF ok s(1) [unfolded std.poll_def]] by (simp add: assms(2))
  moreover have "ready_depth (queue s) = 0" using s(3) by (simp add: ready_depth_def)
  moreover have "drain receive ack fail handler n c = (Inr (), s)" using s(1) by (simp add: drain_def std.poll_def)
  ultimately show ?thesis by blast
qed

theorem drain_settles_all_witness:
  "\<exists>s. drain receive ack fail (\<lambda>b w. (False, w)) 5
     (new_consumer (snd (receive (send [] ''k'' (send [] ''k'' (new_queue ''q'' 3))))) ()) = (Inr (), s) \<and>
     ready_depth (queue s) = 0 \<and> in_flight (queue s) 0 = Some \<lparr>body = [], dedup_key = ''k'', receive_count = 1\<rparr>"
proof -
  let ?q = "snd (receive (send [] ''k'' (send [] ''k'' (new_queue ''q'' 3))))"
  have "q_steps 3 ((([] @ [Send [] ''k'']) @ [Send [] ''k'']) @ [Receive]) ?q {#}" by (intro q_steps.intros)
  from drain_settles_all [OF this, of "new_consumer ?q ()" 5 "\<lambda>b w. (False, w)"] show ?thesis
    by (auto simp: send_def new_queue_def receive_def new_consumer_def Let_def)
qed

text \<open>
  C35. Effects happen at most once per key. If a key is processed, a poll that delivers a message
  with that key leaves the world and the count of successful invocations as they were; and
  every poll from a state whose count equals the number of processed keys leads to such a
  state.
\<close>

theorem effects_at_most_once:
  assumes "queue_ok mx (queue s)" and "receive (queue s) = (Some (r, m), q)"
  shows "(dedup_key m \<in> processed_keys s \<longrightarrow>
      world (snd (poll_once receive ack fail handler s)) = world s \<and>
      handler_invocations (snd (poll_once receive ack fail handler s)) = handler_invocations s) \<and>
    (finite (processed_keys s) \<and> handler_invocations s = card (processed_keys s) \<longrightarrow>
      handler_invocations (snd (poll_once receive ack fail handler s)) =
      card (processed_keys (snd (poll_once receive ack fail handler s))))"
proof -
  obtain b t where p: "poll_once receive ack fail handler s = (Inr b, t)"
    using std.poll_never_raises [OF assms(1), of handler] by (auto simp: std.poll_def)
  from std.poll_counted [OF assms(1), of handler b t] p
  have "std.counted s \<Longrightarrow> std.counted t" by (simp add: std.poll_def)
  moreover have "world t = world s \<and> handler_invocations t = handler_invocations s" if "dedup_key m \<in> processed_keys s"
    using p assms(2) that by (auto simp: poll_once_def settle_def Let_def split: sum.splits)
  ultimately show ?thesis using p by (auto simp: std.counted_def)
qed

theorem effects_at_most_once_witness:
  "handler_invocations (snd (poll_once receive ack fail (\<lambda>b w. (True, Suc w))
     \<lparr>queue = send [] ''k'' (new_queue ''q'' 3), processed_keys = {''k''}, handler_invocations = 1, world = 7\<rparr>)) = 1"
proof -
  let ?s = "\<lparr>queue = send [] ''k'' (new_queue ''q'' 3), processed_keys = {''k''}, handler_invocations = 1, world = 7 :: nat\<rparr>"
  obtain r m q where rc: "receive (queue ?s) = (Some (r, m), q)" and k: "dedup_key m = ''k''"
    by (simp add: receive_def send_def new_queue_def Let_def)
  have "queue_ok 3 (queue ?s)" by (simp add: send_ok new_queue_ok)
  from effects_at_most_once [OF this rc, of "\<lambda>b w. (True, Suc w)"] k show ?thesis by simp
qed

end
