(* ===== verification/Guard.thy ===== *)
theory Guard
  imports Prelude "HOL-Library.AList"
begin

text \<open>
  The multi-tenant request guard (\<open>services/control_plane/guard.py\<close> with the tables of
  \<open>services/control_plane/constants.py\<close>): the tenancy-header check, the role gate, their
  composition and the org-scoped store. Roles, resources, actions and codes are the strings the
  code compares; a value outside the declared literals is a value of the model.
\<close>

section \<open>Constants\<close>

definition SCANNER_USER_ID :: string where "SCANNER_USER_ID = ''scanner''"

definition ERROR_HTTP_STATUS :: "string \<rightharpoonup> int" where
  "ERROR_HTTP_STATUS = map_of
     [(''unauthenticated'', 401), (''role_denied'', 403), (''org_mismatch'', 403),
      (''tenant_isolation_violation'', 403), (''not_found'', 404), (''rate_limited'', 429),
      (''llm_quota_exceeded'', 429), (''invariant_inv2_violation'', 422), (''kms_key_missing'', 500),
      (''conflicting_status_transition'', 409)]"

definition RBAC :: "string \<rightharpoonup> (string \<rightharpoonup> string list)" where
  "RBAC = map_of
     [(''org-admin'', map_of [(''scans'', [''submit'', ''read'']), (''snapshots'', [''submit'', ''read'']),
         (''codebases'', [''create'', ''read'', ''update_creds'']), (''findings'', [''read'', ''patch_status'']),
         (''attestations'', [''read''])]),
      (''org-viewer'', map_of [(''scans'', [''read'']), (''snapshots'', [''read'']), (''codebases'', [''read'']),
         (''findings'', [''read'']), (''attestations'', [''read''])]),
      (''scanner'', map_of [(''scans'', [''submit'', ''read'']), (''snapshots'', [''submit'', ''read'']),
         (''codebases'', []), (''findings'', [''read'']), (''attestations'', [''read''])])]"

section \<open>Case folding\<close>

text \<open>
  \<open>str.lower\<close> and \<open>str.upper\<close> as far as the comparisons made here can see. No character outside
  ASCII lower-cases to a letter of the two header names. Upper-casing sends three characters
  outside ASCII to letters of the four verbs: U+017F to S, U+FB05 and U+FB06 to ST. Every
  other character outside ASCII leaves the result different from all names compared with.
\<close>

definition ascii_lower :: "char \<Rightarrow> char" where
  "ascii_lower c = (let n = of_char c :: nat in if 65 \<le> n \<and> n \<le> 90 then char_of (n + 32) else c)"

definition ascii_upper :: "char \<Rightarrow> char" where
  "ascii_upper c = (let n = of_char c :: nat in if 97 \<le> n \<and> n \<le> 122 then char_of (n - 32) else c)"

definition py_lower :: "string \<Rightarrow> string" where
  "py_lower s = map ascii_lower s"

function py_upper :: "string \<Rightarrow> string" where
  "py_upper s =
     (if s = [] then []
      else if take 2 s = [CHR 0xC5, CHR 0xBF] then ''S'' @ py_upper (drop 2 s)
      else if take 3 s = [CHR 0xEF, CHR 0xAC, CHR 0x85] \<or> take 3 s = [CHR 0xEF, CHR 0xAC, CHR 0x86]
        then ''ST'' @ py_upper (drop 3 s)
      else ascii_upper (hd s) # py_upper (tl s))"
  by pat_completeness auto
termination by (relation "measure length") auto

declare py_upper.simps [simp del]

section \<open>Verb projection\<close>

definition POST_ACTION :: "string \<rightharpoonup> string" where
  "POST_ACTION = map_of [(''scans'', ''submit''), (''snapshots'', ''submit''), (''codebases'', ''create''),
     (''findings'', ''patch_status''), (''attestations'', ''read'')]"

definition action_for :: "string \<Rightarrow> string \<Rightarrow> string" where
  "action_for meth resource =
     (let verb = py_upper meth
      in if verb = ''GET'' then ''read''
         else if verb \<in> {''POST'', ''PUT''} then
           (case POST_ACTION resource of None \<Rightarrow> ''forbidden'' | Some a \<Rightarrow> a)
         else if verb = ''PATCH'' then ''patch_status''
         else ''forbidden'')"

section \<open>Claims, envelopes and the store\<close>

record jwt_claims =
  user_id :: string
  org_id :: string
  role :: string
  issued_at :: int
  expires_at :: int

record error_envelope =
  error_code :: string
  message_text :: string
  trace_id :: string
  details :: "(string \<times> string) list option"

text \<open>\<open>None\<close> is the \<open>KeyError\<close> of a code outside the reserved table.\<close>

definition http_status :: "error_envelope \<Rightarrow> int option" where
  "http_status e = ERROR_HTTP_STATUS (error_code e)"

record 'r org_row =
  row_org :: string
  payload :: 'r

record 'r org_store =
  rows :: "(string \<times> 'r org_row) list"
  session_org :: "string option"

datatype guard_error = TenantIsolationError

definition seed :: "string \<Rightarrow> string \<Rightarrow> 'r \<Rightarrow> 'r org_store \<Rightarrow> 'r org_store" where
  "seed row_id org p st = st\<lparr>rows := AList.update row_id \<lparr>row_org = org, payload = p\<rparr> (rows st)\<rparr>"

definition set_session :: "string \<Rightarrow> 'r org_store \<Rightarrow> 'r org_store" where
  "set_session org st = st\<lparr>session_org := Some org\<rparr>"

definition clear_session :: "'r org_store \<Rightarrow> 'r org_store" where
  "clear_session st = st\<lparr>session_org := None\<rparr>"

definition require_session :: "'r org_store \<Rightarrow> guard_error + string" where
  "require_session st = (case session_org st of None \<Rightarrow> Inl TenantIsolationError | Some org \<Rightarrow> Inr org)"

definition query :: "'r org_store \<Rightarrow> guard_error + 'r list" where
  "query st = (case require_session st of Inl e \<Rightarrow> Inl e
     | Inr org \<Rightarrow> Inr (map payload (filter (\<lambda>r. row_org r = org) (map snd (rows st)))))"

definition query_one :: "string \<Rightarrow> 'r org_store \<Rightarrow> guard_error + 'r option" where
  "query_one row_id st = (case require_session st of Inl e \<Rightarrow> Inl e
     | Inr org \<Rightarrow> (case map_of (rows st) row_id of None \<Rightarrow> Inr None
         | Some r \<Rightarrow> if row_org r \<noteq> org then Inr None else Inr (Some (payload r))))"

section \<open>The guard\<close>

fun ci_get :: "(string \<times> string) list \<Rightarrow> string \<Rightarrow> string option" where
  "ci_get [] nm = None"
| "ci_get ((k, v) # hs) nm = (if py_lower k = py_lower nm then Some v else ci_get hs nm)"

definition check_tenancy_header ::
  "jwt_claims \<Rightarrow> (string \<times> string) list \<Rightarrow> string \<Rightarrow> string \<Rightarrow> error_envelope option" where
  "check_tenancy_header claims headers route tid =
     (case (ci_get headers ''X-Scanipy-Org-Id'', ci_get headers ''X-Scanipy-User-Id'') of
        (Some header_org, Some header_user) \<Rightarrow>
          if header_org \<noteq> org_id claims then
            Some \<lparr>error_code = ''org_mismatch'', message_text = ''tenancy header does not match authenticated org'',
              trace_id = tid, details = Some [(''header_org_id'', header_org), (''jwt_org_id'', org_id claims),
                (''user_id'', user_id claims), (''route'', route)]\<rparr>
          else
            let expected_user = (if role claims = ''scanner'' then SCANNER_USER_ID else user_id claims)
            in if header_user \<noteq> expected_user then
                 Some \<lparr>error_code = ''org_mismatch'', message_text = ''tenancy user header does not match authenticated user'',
                   trace_id = tid, details = Some [(''route'', route), (''user_id'', user_id claims)]\<rparr>
               else None
      | _ \<Rightarrow> Some \<lparr>error_code = ''unauthenticated'', message_text = ''missing tenancy header'',
              trace_id = tid, details = None\<rparr>)"

definition granted :: "string \<Rightarrow> string \<Rightarrow> string list" where
  "granted rl resource = (case RBAC rl of None \<Rightarrow> []
     | Some m \<Rightarrow> case m resource of None \<Rightarrow> [] | Some as \<Rightarrow> as)"

definition check_rbac :: "jwt_claims \<Rightarrow> string \<Rightarrow> string \<Rightarrow> string \<Rightarrow> error_envelope option" where
  "check_rbac claims meth resource tid =
     (let required = action_for meth resource
      in if required \<notin> set (granted (role claims) resource) then
           Some \<lparr>error_code = ''role_denied'', message_text = ''role lacks permission for this endpoint'',
             trace_id = tid, details = Some [(''role'', role claims), (''resource'', resource),
               (''required_action'', required)]\<rparr>
         else None)"

definition authorize_request ::
  "jwt_claims \<Rightarrow> (string \<times> string) list \<Rightarrow> string \<Rightarrow> string \<Rightarrow> string \<Rightarrow> string \<Rightarrow> error_envelope option" where
  "authorize_request claims headers meth resource route tid =
     (case check_tenancy_header claims headers route tid of Some e \<Rightarrow> Some e
      | None \<Rightarrow> check_rbac claims meth resource tid)"

definition isolation_error_envelope :: "string \<Rightarrow> error_envelope" where
  "isolation_error_envelope tid = \<lparr>error_code = ''tenant_isolation_violation'',
     message_text = ''query reached the data layer without a bound tenant'', trace_id = tid, details = None\<rparr>"

definition not_found_envelope :: "string \<Rightarrow> error_envelope" where
  "not_found_envelope tid = \<lparr>error_code = ''not_found'', message_text = ''resource not found'',
     trace_id = tid, details = None\<rparr>"

section \<open>Lookups\<close>

lemma py_lower_idem [simp]: "py_lower (py_lower s) = py_lower s"
proof -
  have "ascii_lower (ascii_lower c) = ascii_lower c" for c
    by (auto simp: ascii_lower_def Let_def)
  then show ?thesis by (simp add: py_lower_def)
qed

lemma ci_get_Some: "ci_get hs nm = Some v \<Longrightarrow> \<exists>k. (k, v) \<in> set hs \<and> py_lower k = py_lower nm"
  by (induction hs) (auto split: if_splits)

lemma action_table:
  "action_for meth resource =
     (if py_upper meth = ''GET'' then ''read''
      else if py_upper meth = ''POST'' \<or> py_upper meth = ''PUT'' then
        (if resource = ''scans'' \<or> resource = ''snapshots'' then ''submit''
         else if resource = ''codebases'' then ''create''
         else if resource = ''findings'' then ''patch_status''
         else if resource = ''attestations'' then ''read'' else ''forbidden'')
      else if py_upper meth = ''PATCH'' then ''patch_status'' else ''forbidden'')"
  by (auto simp: action_for_def POST_ACTION_def Let_def)

lemma granted_table:
  "set (granted rl resource) =
     (if rl = ''org-admin'' then
        (if resource = ''scans'' \<or> resource = ''snapshots'' then {''submit'', ''read''}
         else if resource = ''codebases'' then {''create'', ''read'', ''update_creds''}
         else if resource = ''findings'' then {''read'', ''patch_status''}
         else if resource = ''attestations'' then {''read''} else {})
      else if rl = ''org-viewer'' then
        (if resource \<in> {''scans'', ''snapshots'', ''codebases'', ''findings'', ''attestations''} then {''read''} else {})
      else if rl = ''scanner'' then
        (if resource = ''scans'' \<or> resource = ''snapshots'' then {''submit'', ''read''}
         else if resource = ''findings'' \<or> resource = ''attestations'' then {''read''} else {})
      else {})"
  by (auto simp: granted_def RBAC_def)

section \<open>Properties\<close>

definition expected_user_of :: "jwt_claims \<Rightarrow> string" where
  "expected_user_of claims = (if role claims = ''scanner'' then ''scanner'' else user_id claims)"

text \<open>
  A request passes exactly when tenant, user and role agree. \<open>authorize_request\<close> lets a
  request through if and only if both tenancy headers are present, the org header is the
  authenticated org, the user header is the authenticated user (for a scanner token the word
  scanner), and the role holds the capability that the verb and resource project to. A
  request with a foreign org header is answered 403 \<open>org_mismatch\<close> whatever its role and verb.
\<close>

theorem authorize_exact:
  "(authorize_request claims headers meth resource route tid = None \<longleftrightarrow>
     ci_get headers ''X-Scanipy-Org-Id'' = Some (org_id claims) \<and>
     ci_get headers ''X-Scanipy-User-Id'' = Some (expected_user_of claims) \<and>
     action_for meth resource \<in> set (granted (role claims) resource)) \<and>
   (\<forall>o' u. ci_get headers ''X-Scanipy-Org-Id'' = Some o' \<and> ci_get headers ''X-Scanipy-User-Id'' = Some u \<and>
      o' \<noteq> org_id claims \<longrightarrow>
      (\<exists>e. authorize_request claims headers meth resource route tid = Some e \<and>
         error_code e = ''org_mismatch'' \<and> http_status e = Some 403))"
  by (auto simp: authorize_request_def check_tenancy_header_def check_rbac_def expected_user_of_def
      SCANNER_USER_ID_def http_status_def ERROR_HTTP_STATUS_def Let_def split: option.splits if_splits)

text \<open>
  The role gate is closed by default. Verbs other than GET, POST, PUT and PATCH (DELETE among
  them) are denied to every role on every resource; so is any request with an unknown role
  or an unknown resource; a viewer passes only with GET or on attestations.
\<close>

theorem rbac_fails_closed:
  "(py_upper meth \<notin> {''GET'', ''POST'', ''PUT'', ''PATCH''} \<longrightarrow> check_rbac claims meth resource tid \<noteq> None) \<and>
   (role claims \<notin> {''org-admin'', ''org-viewer'', ''scanner''} \<longrightarrow> check_rbac claims meth resource tid \<noteq> None) \<and>
   (resource \<notin> {''scans'', ''snapshots'', ''codebases'', ''findings'', ''attestations''} \<longrightarrow>
      check_rbac claims meth resource tid \<noteq> None) \<and>
   (role claims = ''org-viewer'' \<and> check_rbac claims meth resource tid = None \<longrightarrow>
      py_upper meth = ''GET'' \<or> resource = ''attestations'')"
  by (auto simp: check_rbac_def action_table granted_table Let_def split: if_splits)

definition sample_claims :: jwt_claims where
  "sample_claims = \<lparr>user_id = ''u1'', org_id = ''A'', role = ''org-admin'', issued_at = 0, expires_at = 60\<rparr>"

theorem authorize_exact_witness:
  "authorize_request sample_claims [(''x-scanipy-org-id'', ''A''), (''X-SCANIPY-USER-ID'', ''u1'')] ''post'' ''scans'' ''/'' ''t'' = None \<and>
   (\<exists>e. authorize_request sample_claims [(''x-scanipy-org-id'', ''B''), (''X-SCANIPY-USER-ID'', ''u1'')] ''post'' ''scans'' ''/'' ''t''
      = Some e \<and> http_status e = Some 403)"
proof -
  have g: "ci_get [(''x-scanipy-org-id'', x), (''X-SCANIPY-USER-ID'', ''u1'')] ''X-Scanipy-Org-Id'' = Some x"
    "ci_get [(''x-scanipy-org-id'', x), (''X-SCANIPY-USER-ID'', ''u1'')] ''X-Scanipy-User-Id'' = Some ''u1''" for x
  proof -
    have "py_lower ''x-scanipy-org-id'' = py_lower ''X-Scanipy-Org-Id''"
      "py_lower ''x-scanipy-org-id'' \<noteq> py_lower ''X-Scanipy-User-Id''"
      "py_lower ''X-SCANIPY-USER-ID'' = py_lower ''X-Scanipy-User-Id''" by code_simp+
    then show "ci_get [(''x-scanipy-org-id'', x), (''X-SCANIPY-USER-ID'', ''u1'')] ''X-Scanipy-Org-Id'' = Some x"
      "ci_get [(''x-scanipy-org-id'', x), (''X-SCANIPY-USER-ID'', ''u1'')] ''X-Scanipy-User-Id'' = Some ''u1''"
      by simp_all
  qed
  have "py_upper ''post'' = ''POST''" by code_simp
  then have "action_for ''post'' ''scans'' \<in> set (granted (role sample_claims) ''scans'')"
    by (simp add: action_table granted_table sample_claims_def)
  with g authorize_exact [of sample_claims "[(''x-scanipy-org-id'', ''A''), (''X-SCANIPY-USER-ID'', ''u1'')]" "''post''" "''scans''" "''/''" "''t''"]
    authorize_exact [of sample_claims "[(''x-scanipy-org-id'', ''B''), (''X-SCANIPY-USER-ID'', ''u1'')]" "''post''" "''scans''" "''/''" "''t''"]
  show ?thesis by (auto simp: sample_claims_def expected_user_of_def simp del: ci_get.simps)
qed

theorem rbac_fails_closed_witness:
  "check_rbac sample_claims ''delete'' ''codebases'' ''t'' \<noteq> None"
proof -
  have "py_upper ''delete'' \<notin> {''GET'', ''POST'', ''PUT'', ''PATCH''}" by code_simp
  then show ?thesis using rbac_fails_closed by blast
qed

text \<open>
  Every envelope has a status. Whatever the guard returns carries a code of the reserved
  table, so that reading its status never fails: 401 for missing headers, 403 for a mismatch,
  a denied role or a query without tenant, 404 for a miss.
\<close>

theorem envelopes_have_status:
  "(\<forall>e. authorize_request claims headers meth resource route tid = Some e \<longrightarrow> http_status e \<in> {Some 401, Some 403}) \<and>
   http_status (isolation_error_envelope tid) = Some 403 \<and> http_status (not_found_envelope tid) = Some 404"
proof -
  have st: "ERROR_HTTP_STATUS ''unauthenticated'' = Some 401" "ERROR_HTTP_STATUS ''org_mismatch'' = Some 403"
    "ERROR_HTTP_STATUS ''role_denied'' = Some 403" "ERROR_HTTP_STATUS ''tenant_isolation_violation'' = Some 403"
    "ERROR_HTTP_STATUS ''not_found'' = Some 404"
    by (simp_all add: ERROR_HTTP_STATUS_def)
  have "http_status e \<in> {Some 401, Some 403}" if "check_tenancy_header claims headers route tid = Some e" for e
    using that unfolding check_tenancy_header_def Let_def
    by (auto simp: http_status_def st split: option.splits if_splits)
  moreover have "http_status e \<in> {Some 401, Some 403}" if "check_rbac claims meth resource tid = Some e" for e
    using that unfolding check_rbac_def Let_def by (auto simp: http_status_def st split: if_splits)
  ultimately show ?thesis
    unfolding authorize_request_def
    by (auto simp: http_status_def isolation_error_envelope_def not_found_envelope_def st split: option.splits)
qed

theorem envelopes_have_status_witness:
  "\<exists>e. authorize_request sample_claims [] ''get'' ''scans'' ''/'' ''t'' = Some e \<and> http_status e \<in> {Some 401, Some 403}"
proof -
  have "authorize_request sample_claims [] ''get'' ''scans'' ''/'' ''t'' \<noteq> None"
    by (simp add: authorize_request_def check_tenancy_header_def)
  with envelopes_have_status show ?thesis by blast
qed

section \<open>Tenant isolation\<close>

text \<open>What the rows of one org look like from inside it.\<close>

definition rows_of :: "string \<Rightarrow> 'r org_store \<Rightarrow> (string \<times> 'r org_row) list" where
  "rows_of org st = filter (\<lambda>x. row_org (snd x) = org) (rows st)"

lemma map_of_rows_of:
  assumes "distinct (map fst rs)"
  shows "map_of (filter (\<lambda>x. row_org (snd x) = org) rs) i =
    (case map_of rs i of None \<Rightarrow> None | Some r \<Rightarrow> if row_org r = org then Some r else None)"
  using assms
proof (induction rs)
  case (Cons x rs)
  obtain k r where x: "x = (k, r)" by (cases x)
  have "map_of (filter (\<lambda>x. row_org (snd x) = org) rs) k = None" if "k \<notin> fst ` set rs"
    using that by (auto simp: map_of_eq_None_iff)
  with Cons show ?case by (auto simp: x)
qed simp

text \<open>
  C33. Tenants cannot see each other. Two stores bound to the same org whose rows of that org
  agree, in content and order, give the same answers to every query, whatever rows other
  orgs have: foreign rows are neither returned nor detectable, and a foreign row id is answered
  like a missing one. Without a bound org every query raises.
\<close>

theorem tenant_isolation:
  assumes "session_org a = Some org" and "session_org b = Some org"
    and "distinct (map fst (rows a))" and "distinct (map fst (rows b))"
    and "rows_of org a = rows_of org b"
  shows "query a = query b \<and> query_one i a = query_one i b \<and>
    (\<forall>r. map_of (rows a) i = Some r \<and> row_org r \<noteq> org \<longrightarrow> query_one i a = Inr None) \<and>
    query (clear_session a) = Inl TenantIsolationError \<and>
    query_one i (clear_session a) = Inl TenantIsolationError"
proof -
  have q: "query s = Inr (map (\<lambda>x. payload (snd x)) (rows_of org s))" if "session_org s = Some org" for s :: "'a org_store"
    using that by (simp add: query_def require_session_def rows_of_def filter_map o_def)
  have o: "query_one i s = Inr (map_option payload (map_of (rows_of org s) i))"
    if "session_org s = Some org" "distinct (map fst (rows s))" for s :: "'a org_store"
    unfolding rows_of_def map_of_rows_of [OF that(2)] using that(1)
    by (simp add: query_one_def require_session_def split: option.splits)
  have "query_one i a = Inr None" if "map_of (rows a) i = Some r" "row_org r \<noteq> org" for r
    using that assms(1) by (simp add: query_one_def require_session_def)
  then show ?thesis
    using q [OF assms(1)] q [OF assms(2)] o [OF assms(1,3)] o [OF assms(2,4)] assms(5)
    by (simp add: query_def query_one_def clear_session_def require_session_def)
qed

theorem tenant_isolation_witness:
  "query_one ''r2'' (set_session ''A'' (seed ''r2'' ''B'' (7 :: int) (seed ''r1'' ''A'' 5 \<lparr>rows = [], session_org = None\<rparr>))) =
   query_one ''r2'' (set_session ''A'' (seed ''r1'' ''A'' (5 :: int) \<lparr>rows = [], session_org = None\<rparr>))"
proof -
  let ?a = "set_session ''A'' (seed ''r2'' ''B'' (7 :: int) (seed ''r1'' ''A'' 5 \<lparr>rows = [], session_org = None\<rparr>))"
  let ?b = "set_session ''A'' (seed ''r1'' ''A'' (5 :: int) \<lparr>rows = [], session_org = None\<rparr>)"
  have "rows_of ''A'' ?a = rows_of ''A'' ?b" "session_org ?a = Some ''A''" "session_org ?b = Some ''A''"
    "distinct (map fst (rows ?a))" "distinct (map fst (rows ?b))"
    by (simp_all add: rows_of_def set_session_def seed_def)
  from tenant_isolation [OF this(2-5,1), of "''r2''"] show ?thesis by blast
qed

text \<open>
  A capability no request can exercise. No verb and resource project to \<open>update_creds\<close>,
  although the matrix grants it to org-admin on codebases; and a POST on attestations projects
  to \<open>read\<close>, so that the role gate lets every role through.
\<close>

theorem update_creds_unreachable:
  "action_for meth resource \<noteq> ''update_creds'' \<and> ''update_creds'' \<in> set (granted ''org-admin'' ''codebases'') \<and>
   (role claims \<in> {''org-admin'', ''org-viewer'', ''scanner''} \<longrightarrow>
     check_rbac claims ''POST'' ''attestations'' tid = None)"
proof -
  have "py_upper ''POST'' = ''POST''" by code_simp
  then show ?thesis by (auto simp: action_table granted_table check_rbac_def Let_def)
qed

theorem update_creds_unreachable_witness:
  "check_rbac (sample_claims\<lparr>role := ''org-viewer''\<rparr>) ''POST'' ''attestations'' ''t'' = None"
  using update_creds_unreachable [of _ _ "sample_claims\<lparr>role := ''org-viewer''\<rparr>"] by simp

end
