(* ===== verification/Cpg_Delta.thy ===== *)
theory Cpg_Delta
  imports Graph_Encoding Worklist
begin

text \<open>
  Incremental graph maintenance (\<open>analysis/cpg_delta.py\<close>): the affected set, routing by the
  closed-world verdict, and the reparse that keeps the node ids of unaffected declarations.

  A dictionary from names to frozensets is an association list with distinct keys whose
  values list the set's elements; sets of names are sets. The reparser is the injected
  collaborator of the code and a parameter here, a function of the declaration and the lowest
  free id. Ratios and thresholds are reals.
\<close>

section \<open>Inputs and outputs\<close>

type_synonym name_graph = "(string \<times> string list) list"

record decl_subgraph =
  decl_fqn :: string
  sub_nodes :: "cpg_node list"
  sub_edges :: "cpg_edge list"

type_synonym reparser = "string \<Rightarrow> int \<Rightarrow> decl_subgraph"

record graph_view =
  reverse_symbol_index :: name_graph
  call_graph :: name_graph
  class_hierarchy :: name_graph
  decl_to_type :: "(string \<times> string) list"

record delta_request =
  parent_cpg :: cpg
  parent_env_digest :: string
  worker_env_digest :: string
  cw_verdict :: string
  changed_decls :: "string set"
  changed_types :: "string set"
  graph :: graph_view
  total_files :: int
  changed_files :: int
  theta_cone :: real
  theta_files :: real

record graph_delta =
  added_nodes :: "node_id list"
  removed_nodes :: "node_id list"
  added_edges :: "cpg_edge list"
  removed_edges :: "cpg_edge list"
  affected_set :: "string set"

record delta_result =
  new_cpg :: cpg
  delta_graph :: graph_delta
  affected :: "string set"
  precondition_status :: string
  changed_files_ratio :: real
  cone_size_ratio :: "real option"

definition node_ids :: "cpg \<Rightarrow> string \<Rightarrow> node_id set" where
  "node_ids g decl = node_id ` set (filter (\<lambda>n. enclosing_decl_fqn n = decl) (nodes g))"

section \<open>The affected set\<close>

definition successors :: "name_graph \<Rightarrow> string \<Rightarrow> string list" where
  "successors gr x = (case map_of gr x of None \<Rightarrow> [] | Some ys \<Rightarrow> ys)"

definition transitive_closure :: "string set \<Rightarrow> name_graph \<Rightarrow> string set res" where
  "transitive_closure seeds gr =
     (case iterate (Suc (card seeds + length (concat (map snd gr)))) (stack_step (successors gr))
             (seeds, sorted_list_of_set seeds) of
        None \<Rightarrow> Inl OutOfFuel | Some st \<Rightarrow> Inr (fst st))"

definition direct_callers :: "string set \<Rightarrow> name_graph \<Rightarrow> string set" where
  "direct_callers changed calls =
     fold (\<lambda>(caller, callees) acc. if set callees \<inter> changed \<noteq> {} then insert caller acc else acc) calls {}"

definition compute_affected :: "string set \<Rightarrow> string set \<Rightarrow> graph_view \<Rightarrow> string set res" where
  "compute_affected decls types g =
     r_bind (transitive_closure decls (reverse_symbol_index g)) (\<lambda>symbols.
     r_bind (transitive_closure types (class_hierarchy g)) (\<lambda>type_cone.
     Inr (decls \<union> symbols \<union> direct_callers decls (call_graph g) \<union>
          set (map fst (filter (\<lambda>(d, ty). ty \<in> type_cone) (decl_to_type g))))))"

section \<open>Routing\<close>

definition route_for :: "delta_request \<Rightarrow> real \<Rightarrow> string set \<Rightarrow> string \<times> real option" where
  "route_for req ratio aff =
     (if cw_verdict req = ''closed-world'' then (''closed-world'', None)
      else if cw_verdict req = ''full-reparse'' then (''full-reparse'', None)
      else if ratio > theta_files req then (''full-reparse'', None)
      else
        let estimated = max (length (nodes (parent_cpg req))) 1;
            cone_nodes = length (filter (\<lambda>n. enclosing_decl_fqn n \<in> aff) (nodes (parent_cpg req)));
            cone = real cone_nodes / real estimated
        in if cone > theta_cone req then (''full-reparse'', Some cone) else (''degraded'', Some cone))"

section \<open>The preserving reparse\<close>

record building =
  b_nodes :: "cpg_node list"
  b_edges :: "cpg_edge list"
  b_added_nodes :: "node_id list"
  b_added_edges :: "cpg_edge list"
  next_base :: int

definition add_reparsed_node :: "string \<Rightarrow> node_id set \<Rightarrow> cpg_node \<Rightarrow> building \<Rightarrow> building res" where
  "add_reparsed_node decl preserved n b =
     (if node_id n \<in> preserved then Inl (NodeIdCollision decl (node_id n))
      else Inr (b\<lparr>b_nodes := b_nodes b @ [n], b_added_nodes := b_added_nodes b @ [node_id n]\<rparr>))"

definition reparse_decl :: "reparser \<Rightarrow> node_id set \<Rightarrow> string \<Rightarrow> building \<Rightarrow> building res" where
  "reparse_decl rp preserved decl b =
     (let sub = rp decl (next_base b)
      in r_bind (r_fold (add_reparsed_node decl preserved) (sub_nodes sub) b) (\<lambda>b1.
         let b2 = b1\<lparr>b_edges := b_edges b1 @ sub_edges sub, b_added_edges := b_added_edges b1 @ sub_edges sub\<rparr>
         in Inr (if sub_nodes sub \<noteq> [] then b2\<lparr>next_base := Max (set (map node_id (sub_nodes sub))) + 1\<rparr> else b2)))"

definition carried :: "cpg \<Rightarrow> string set \<Rightarrow> cpg_node list" where
  "carried parent aff = filter (\<lambda>n. enclosing_decl_fqn n \<notin> aff) (nodes parent)"

definition preserved_ids :: "cpg \<Rightarrow> string set \<Rightarrow> node_id set" where
  "preserved_ids parent aff = set (map node_id (carried parent aff))"

definition start_building :: "cpg \<Rightarrow> string set \<Rightarrow> building" where
  "start_building parent aff =
     \<lparr>b_nodes = carried parent aff,
      b_edges = filter (\<lambda>e. src e \<in> preserved_ids parent aff \<and> dst e \<in> preserved_ids parent aff) (edges parent),
      b_added_nodes = [], b_added_edges = [],
      next_base = (if preserved_ids parent aff \<noteq> {} then Max (preserved_ids parent aff) + 1 else 0)\<rparr>"

definition build_preserving_new_cpg :: "cpg \<Rightarrow> string set \<Rightarrow> reparser \<Rightarrow> (cpg \<times> graph_delta) res" where
  "build_preserving_new_cpg parent aff rp =
     r_bind (r_fold (reparse_decl rp (preserved_ids parent aff)) (sorted_list_of_set aff)
       (start_building parent aff)) (\<lambda>b.
     let new_node_ids = set (map node_id (b_nodes b))
     in Inr (\<lparr>nodes = b_nodes b, edges = b_edges b\<rparr>,
        \<lparr>added_nodes = b_added_nodes b,
         removed_nodes = map node_id (filter (\<lambda>n. node_id n \<notin> new_node_ids) (nodes parent)),
         added_edges = b_added_edges b,
         removed_edges = filter (\<lambda>e. e \<notin> set (b_edges b)) (edges parent),
         affected_set = aff\<rparr>))"

definition compute_incremental_cpg :: "reparser \<Rightarrow> delta_request \<Rightarrow> delta_result res" where
  "compute_incremental_cpg rp req =
     (if parent_env_digest req \<noteq> worker_env_digest req
      then Inl (EnvDigestMismatch (parent_env_digest req) (worker_env_digest req))
      else r_bind (compute_affected (changed_decls req) (changed_types req) (graph req)) (\<lambda>aff0.
        let ratio = real_of_int (changed_files req) / real_of_int (max (total_files req) 1);
            (route, cone) = route_for req ratio aff0;
            aff = (if route = ''full-reparse'' then set (map enclosing_decl_fqn (nodes (parent_cpg req))) else aff0)
        in r_bind (build_preserving_new_cpg (parent_cpg req) aff rp) (\<lambda>(g, delta).
           Inr \<lparr>new_cpg = g, delta_graph = delta, affected = aff, precondition_status = route,
                changed_files_ratio = ratio, cone_size_ratio = cone\<rparr>)))"

section \<open>Correctness of the affected set\<close>

definition name_rel :: "name_graph \<Rightarrow> (string \<times> string) set" where
  "name_rel gr = {(x, y). y \<in> set (successors gr x)}"

lemma successors_in: "set (successors gr x) \<subseteq> set (concat (map snd gr))"
proof (cases "map_of gr x")
  case (Some ys)
  from map_of_SomeD [OF this] Some show ?thesis by (force simp: successors_def)
qed (simp add: successors_def)

lemma transitive_closure_exact:
  assumes "finite seeds"
  shows "transitive_closure seeds gr = Inr ((name_rel gr)\<^sup>* `` seeds)"
proof -
  let ?W = "set (concat (map snd gr))" and ?s = "(seeds, sorted_list_of_set seeds)"
  note succ = successors_in [of gr]
  have "size (mset (snd ?s)) + card ((?W \<union> seeds) - fst ?s) < Suc (card seeds + length (concat (map snd gr)))"
  proof -
    have "(?W \<union> seeds) - seeds \<subseteq> ?W" by auto
    then have "card ((?W \<union> seeds) - seeds) \<le> length (concat (map snd gr))"
      by (rule order_trans [OF card_mono [OF finite_set] card_length])
    then show ?thesis using assms by simp
  qed
  then have "\<exists>t. iterate (Suc (card seeds + length (concat (map snd gr)))) (stack_step (successors gr)) ?s = Some t \<and>
     fst t = fst ?s \<union> (step_rel (\<lambda>x. set (successors gr x)))\<^sup>+ `` set_mset (mset (snd ?s))"
    by (intro stack_loop.loop_result [of "?W \<union> seeds"]) (use succ assms in auto)
  then obtain t where t: "iterate (Suc (card seeds + length (concat (map snd gr)))) (stack_step (successors gr)) ?s = Some t"
    "fst t = seeds \<union> (step_rel (\<lambda>x. set (successors gr x)))\<^sup>+ `` seeds" using assms by auto
  have "step_rel (\<lambda>x. set (successors gr x)) = name_rel gr" by (simp add: step_rel_def name_rel_def)
  with t show ?thesis
    by (auto simp: transitive_closure_def rtrancl_eq_or_trancl simp del: iterate.simps)
qed

lemma direct_callers_exact:
  "direct_callers changed calls = {c. \<exists>callees. (c, callees) \<in> set calls \<and> set callees \<inter> changed \<noteq> {}}"
proof -
  have "fold (\<lambda>(caller, callees) acc. if set callees \<inter> changed \<noteq> {} then insert caller acc else acc) calls A =
      A \<union> {c. \<exists>callees. (c, callees) \<in> set calls \<and> set callees \<inter> changed \<noteq> {}}" for A
    by (induction calls arbitrary: A) (auto split: if_splits)
  then show ?thesis by (simp add: direct_callers_def)
qed

definition affected_spec :: "string set \<Rightarrow> string set \<Rightarrow> graph_view \<Rightarrow> string set" where
  "affected_spec decls types g = (name_rel (reverse_symbol_index g))\<^sup>* `` decls \<union>
     {c. \<exists>callees. (c, callees) \<in> set (call_graph g) \<and> set callees \<inter> decls \<noteq> {}} \<union>
     {d. \<exists>ty. (d, ty) \<in> set (decl_to_type g) \<and> ty \<in> (name_rel (class_hierarchy g))\<^sup>* `` types}"

lemma compute_affected_exact:
  assumes "finite decls" and "finite types"
  shows "compute_affected decls types g = Inr (affected_spec decls types g)"
proof -
  have "set (map fst (filter (\<lambda>(d, ty). ty \<in> T) xs)) = {d. \<exists>ty. (d, ty) \<in> set xs \<and> ty \<in> T}"
    for T and xs :: "(string \<times> string) list" by force
  then show ?thesis
    using assms unfolding compute_affected_def affected_spec_def
    by (auto simp: transitive_closure_exact direct_callers_exact)
qed

lemma affected_spec_finite: "finite decls \<Longrightarrow> finite types \<Longrightarrow> finite (affected_spec decls types g)"
proof -
  assume fin: "finite decls" "finite types"
  have "(name_rel gr)\<^sup>* `` S \<subseteq> S \<union> set (concat (map snd gr))" for gr S
  proof
    fix y assume "y \<in> (name_rel gr)\<^sup>* `` S"
    then obtain x where "x \<in> S" "(x, y) \<in> (name_rel gr)\<^sup>*" by blast
    from this(2,1) show "y \<in> S \<union> set (concat (map snd gr))"
      by (cases rule: rtranclE) (use successors_in [of gr] in \<open>auto simp: name_rel_def\<close>)
  qed
  then have "finite ((name_rel gr)\<^sup>* `` S)" if "finite S" for gr S
    using that finite_subset by (metis finite_UnI finite_set)
  moreover have "finite {c. \<exists>callees. (c, callees) \<in> set (call_graph g) \<and> set callees \<inter> decls \<noteq> {}}"
    by (rule finite_subset [of _ "fst ` set (call_graph g)"]) force+
  moreover have "finite {d. \<exists>ty. (d, ty) \<in> set (decl_to_type g) \<and> ty \<in> (name_rel (class_hierarchy g))\<^sup>* `` types}"
    by (rule finite_subset [of _ "fst ` set (decl_to_type g)"]) force+
  ultimately show ?thesis using fin by (simp add: affected_spec_def)
qed

section \<open>The reparse loop\<close>

lemma add_nodes_fold:
  "r_fold (add_reparsed_node decl P) ns b =
     (case find (\<lambda>n. node_id n \<in> P) ns of Some n \<Rightarrow> Inl (NodeIdCollision decl (node_id n))
      | None \<Rightarrow> Inr (b\<lparr>b_nodes := b_nodes b @ ns, b_added_nodes := b_added_nodes b @ map node_id ns\<rparr>))"
  by (induction ns arbitrary: b) (auto simp: add_reparsed_node_def split: option.splits)

lemma reparse_decl_Inr:
  assumes "reparse_decl rp P decl b = Inr b'"
  shows "b_nodes b' = b_nodes b @ sub_nodes (rp decl (next_base b)) \<and>
    b_edges b' = b_edges b @ sub_edges (rp decl (next_base b)) \<and>
    b_added_nodes b' = b_added_nodes b @ map node_id (sub_nodes (rp decl (next_base b))) \<and>
    b_added_edges b' = b_added_edges b @ sub_edges (rp decl (next_base b)) \<and>
    (\<forall>n \<in> set (sub_nodes (rp decl (next_base b))). node_id n \<notin> P)"
  using assms by (auto simp: reparse_decl_def add_nodes_fold Let_def find_None_iff split: option.splits if_splits)

text \<open>What a completed loop appended: one subgraph per declaration, none with a preserved id.\<close>

lemma reparse_fold:
  assumes "r_fold (reparse_decl rp P) ds b = Inr b'"
  shows "\<exists>subs. list_all2 (\<lambda>d s. \<exists>base. s = rp d base) ds subs \<and>
    b_nodes b' = b_nodes b @ concat (map sub_nodes subs) \<and> b_edges b' = b_edges b @ concat (map sub_edges subs) \<and>
    b_added_nodes b' = b_added_nodes b @ map node_id (concat (map sub_nodes subs)) \<and>
    (\<forall>n \<in> set (concat (map sub_nodes subs)). node_id n \<notin> P)"
  using assms
proof (induction ds arbitrary: b)
  case Nil
  then show ?case by (intro exI [of _ "[]"]) auto
next
  case (Cons d ds)
  then obtain b1 where b1: "reparse_decl rp P d b = Inr b1" and rest: "r_fold (reparse_decl rp P) ds b1 = Inr b'"
    by (auto simp: r_bind_Inr_iff)
  from Cons.IH [OF rest] obtain subs where "list_all2 (\<lambda>d s. \<exists>base. s = rp d base) ds subs"
    "b_nodes b' = b_nodes b1 @ concat (map sub_nodes subs)" "b_edges b' = b_edges b1 @ concat (map sub_edges subs)"
    "b_added_nodes b' = b_added_nodes b1 @ map node_id (concat (map sub_nodes subs))"
    "\<forall>n \<in> set (concat (map sub_nodes subs)). node_id n \<notin> P" by blast
  with reparse_decl_Inr [OF b1] show ?case
    by (intro exI [of _ "rp d (next_base b) # subs"]) auto
qed

text \<open>A reparser that keeps to its contract: distinct ids from the given base on.\<close>

definition fresh_reparser :: "reparser \<Rightarrow> bool" where
  "fresh_reparser rp \<longleftrightarrow> (\<forall>d base. distinct (map node_id (sub_nodes (rp d base))) \<and>
     (\<forall>n \<in> set (sub_nodes (rp d base)). base \<le> node_id n))"

definition honest_reparser :: "reparser \<Rightarrow> bool" where
  "honest_reparser rp \<longleftrightarrow> (\<forall>d base. \<forall>n \<in> set (sub_nodes (rp d base)). enclosing_decl_fqn n = d)"

definition below_base :: "node_id set \<Rightarrow> building \<Rightarrow> bool" where
  "below_base P b \<longleftrightarrow> distinct (map node_id (b_nodes b)) \<and> (\<forall>v \<in> P. v < next_base b) \<and>
     (\<forall>n \<in> set (b_nodes b). node_id n < next_base b)"

lemma reparse_decl_fresh:
  assumes fr: "fresh_reparser rp" and inv: "below_base P b"
  shows "\<exists>b'. reparse_decl rp P decl b = Inr b' \<and> below_base P b'"
proof -
  let ?ns = "sub_nodes (rp decl (next_base b))"
  let ?m = "Max (set (map node_id ?ns))"
  have ge: "next_base b \<le> node_id n" if "n \<in> set ?ns" for n using fr that by (simp add: fresh_reparser_def)
  have dist: "distinct (map node_id ?ns)" using fr by (simp add: fresh_reparser_def)
  have "find (\<lambda>n. node_id n \<in> P) ?ns = None"
    unfolding find_None_iff using ge inv by (force simp: below_base_def)
  moreover have "next_base b < ?m + 1" if "?ns \<noteq> []"
  proof -
    have "hd ?ns \<in> set ?ns" using that by simp
    then have "node_id (hd ?ns) \<le> ?m" using that by (intro Max_ge) auto
    with ge [OF \<open>hd ?ns \<in> set ?ns\<close>] show ?thesis by simp
  qed
  moreover have "node_id n < ?m + 1" if "n \<in> set ?ns" for n
  proof -
    have "node_id n \<le> ?m" using that by (intro Max_ge) auto
    then show ?thesis by simp
  qed
  moreover have "distinct (map node_id (b_nodes b @ ?ns))"
    using inv dist ge by (fastforce simp: below_base_def)
  ultimately show ?thesis
    using inv by (auto simp: reparse_decl_def add_nodes_fold Let_def below_base_def)
qed

lemma reparse_fold_fresh:
  assumes "fresh_reparser rp"
  shows "below_base P b \<Longrightarrow> \<exists>b'. r_fold (reparse_decl rp P) ds b = Inr b' \<and> below_base P b'"
proof (induction ds arbitrary: b)
  case (Cons d ds)
  from reparse_decl_fresh [OF assms Cons.prems] obtain b1 where "reparse_decl rp P d b = Inr b1" "below_base P b1" by blast
  with Cons.IH [of b1] show ?case by auto
qed simp

lemma start_below:
  assumes "distinct (ids parent)"
  shows "below_base (preserved_ids parent aff) (start_building parent aff)"
proof -
  have "v < Max (preserved_ids parent aff) + 1" if "v \<in> preserved_ids parent aff" for v
  proof -
    have "v \<le> Max (preserved_ids parent aff)" using that by (intro Max_ge) (auto simp: preserved_ids_def)
    then show ?thesis by simp
  qed
  moreover have "distinct (map node_id (carried parent aff))"
    using assms by (simp add: ids_def carried_def distinct_map_filter)
  ultimately show ?thesis by (auto simp: below_base_def start_building_def preserved_ids_def)
qed

lemma preserving_build_Inr:
  assumes "build_preserving_new_cpg parent aff rp = Inr (g, delta)" and "finite aff"
  shows "\<exists>ns es. nodes g = carried parent aff @ ns \<and> added_nodes delta = map node_id ns \<and>
    edges g = filter (\<lambda>e. src e \<in> preserved_ids parent aff \<and> dst e \<in> preserved_ids parent aff) (edges parent) @ es \<and>
    (\<forall>n \<in> set ns. node_id n \<notin> preserved_ids parent aff) \<and>
    (\<forall>n \<in> set ns. \<exists>d \<in> aff. \<exists>base. n \<in> set (sub_nodes (rp d base))) \<and>
    removed_nodes delta = map node_id (filter (\<lambda>n. node_id n \<notin> set (ids g)) (nodes parent)) \<and> affected_set delta = aff"
proof -
  from assms(1) obtain b where b: "r_fold (reparse_decl rp (preserved_ids parent aff)) (sorted_list_of_set aff)
      (start_building parent aff) = Inr b" and g: "g = \<lparr>nodes = b_nodes b, edges = b_edges b\<rparr>"
    and d: "added_nodes delta = b_added_nodes b"
      "removed_nodes delta = map node_id (filter (\<lambda>n. node_id n \<notin> set (map node_id (b_nodes b))) (nodes parent))"
      "affected_set delta = aff"
    by (auto simp: build_preserving_new_cpg_def r_bind_Inr_iff Let_def)
  from reparse_fold [OF b] obtain subs where subs: "list_all2 (\<lambda>d s. \<exists>base. s = rp d base) (sorted_list_of_set aff) subs"
    "b_nodes b = carried parent aff @ concat (map sub_nodes subs)"
    "b_edges b = filter (\<lambda>e. src e \<in> preserved_ids parent aff \<and> dst e \<in> preserved_ids parent aff) (edges parent) @
       concat (map sub_edges subs)"
    "b_added_nodes b = map node_id (concat (map sub_nodes subs))"
    "\<forall>n \<in> set (concat (map sub_nodes subs)). node_id n \<notin> preserved_ids parent aff"
    by (auto simp: start_building_def)
  have "\<exists>d \<in> aff. \<exists>base. n \<in> set (sub_nodes (rp d base))" if "n \<in> set (concat (map sub_nodes subs))" for n
  proof -
    from that obtain s where s: "s \<in> set subs" "n \<in> set (sub_nodes s)" by auto
    from s(1) obtain i where i: "i < length subs" "s = subs ! i" by (auto simp: in_set_conv_nth)
    then have "sorted_list_of_set aff ! i \<in> set (sorted_list_of_set aff)"
      using list_all2_lengthD [OF subs(1)] by (intro nth_mem) simp
    moreover have "\<exists>base. s = rp (sorted_list_of_set aff ! i) base"
      using list_all2_nthD2 [OF subs(1) i(1)] i(2) by simp
    ultimately obtain d where "d \<in> set (sorted_list_of_set aff)" "\<exists>base. s = rp d base" by blast
    with s(2) assms(2) show ?thesis by auto
  qed
  with subs d show ?thesis
    by (intro exI [of _ "concat (map sub_nodes subs)"] exI [of _ "concat (map sub_edges subs)"])
      (simp add: g ids_def)
qed


section \<open>Properties\<close>

text \<open>The affected set the result reports, by route.\<close>

definition final_affected :: "delta_request \<Rightarrow> string set" where
  "final_affected req =
     (let aff = affected_spec (changed_decls req) (changed_types req) (graph req);
          ratio = real_of_int (changed_files req) / real_of_int (max (total_files req) 1)
      in if fst (route_for req ratio aff) = ''full-reparse''
         then set (map enclosing_decl_fqn (nodes (parent_cpg req))) else aff)"

definition finite_request :: "delta_request \<Rightarrow> bool" where
  "finite_request req \<longleftrightarrow> finite (changed_decls req) \<and> finite (changed_types req)"

lemma final_affected_finite: "finite_request req \<Longrightarrow> finite (final_affected req)"
  by (simp add: final_affected_def finite_request_def affected_spec_finite Let_def)

lemma compute_incremental_alt:
  assumes "finite_request req"
  shows "compute_incremental_cpg rp req =
    (if parent_env_digest req \<noteq> worker_env_digest req
     then Inl (EnvDigestMismatch (parent_env_digest req) (worker_env_digest req))
     else let aff = affected_spec (changed_decls req) (changed_types req) (graph req);
              ratio = real_of_int (changed_files req) / real_of_int (max (total_files req) 1)
          in r_bind (build_preserving_new_cpg (parent_cpg req) (final_affected req) rp) (\<lambda>(g, delta).
             Inr \<lparr>new_cpg = g, delta_graph = delta, affected = final_affected req,
                  precondition_status = fst (route_for req ratio aff), changed_files_ratio = ratio,
                  cone_size_ratio = snd (route_for req ratio aff)\<rparr>))"
  using assms
  by (simp add: compute_incremental_cpg_def compute_affected_exact finite_request_def final_affected_def
      Let_def split_beta)

lemma compute_incremental_Inr:
  assumes "finite_request req" and "compute_incremental_cpg rp req = Inr r"
  shows "build_preserving_new_cpg (parent_cpg req) (final_affected req) rp = Inr (new_cpg r, delta_graph r)"
    and "affected r = final_affected req"
  using assms(2) unfolding compute_incremental_alt [OF assms(1)]
  by (auto simp: Let_def r_bind_Inr_iff split: if_splits)

text \<open>A parent with two declarations, and a reparser that yields one node per declaration.\<close>

definition decl_node :: "node_id \<Rightarrow> string \<Rightarrow> cpg_node" where
  "decl_node i d = \<lparr>node_id = i, kind = ''STMT'', operator_or_literal = [], resolved_fqn = [],
     enclosing_decl_fqn = d, structural_path = []\<rparr>"

definition sample_reparser :: reparser where
  "sample_reparser d base = \<lparr>decl_fqn = d, sub_nodes = [decl_node base d], sub_edges = []\<rparr>"

definition sample_request :: "string \<Rightarrow> string set \<Rightarrow> delta_request" where
  "sample_request verdict changed = \<lparr>parent_cpg = \<lparr>nodes = [decl_node 0 ''a'', decl_node 1 ''b''], edges = []\<rparr>,
     parent_env_digest = ''e'', worker_env_digest = ''e'', cw_verdict = verdict, changed_decls = changed,
     changed_types = {}, graph = \<lparr>reverse_symbol_index = [], call_graph = [], class_hierarchy = [], decl_to_type = []\<rparr>,
     total_files = 1, changed_files = 0, theta_cone = 1/4, theta_files = 2/5\<rparr>"

lemma sample_reparser_ok: "fresh_reparser sample_reparser" "honest_reparser sample_reparser"
  by (simp_all add: fresh_reparser_def honest_reparser_def sample_reparser_def decl_node_def)

lemma sample_request_finite: "finite changed \<Longrightarrow> finite_request (sample_request verdict changed)"
  by (simp add: finite_request_def sample_request_def)

lemma sample_closed_world:
  "\<exists>r. compute_incremental_cpg sample_reparser (sample_request ''closed-world'' {''b''}) = Inr r \<and> affected r = {''b''}"
proof -
  have "(case compute_incremental_cpg sample_reparser (sample_request ''closed-world'' {''b''}) of
      Inr r \<Rightarrow> affected r = {''b''} | Inl _ \<Rightarrow> False)" by code_simp
  then show ?thesis by (auto split: sum.splits)
qed

text \<open>
  C31. Unaffected declarations keep their node ids. When an incremental build returns, the new
  graph starts with the parent's nodes of unaffected declarations, unchanged and in order;
  if the reparser returns for a declaration only nodes of that declaration, every unaffected
  declaration has exactly the node ids it had in the parent; and no id minted by the reparse
  is the id of a preserved node.
\<close>

theorem unaffected_ids_preserved:
  assumes "finite_request req" and "compute_incremental_cpg rp req = Inr r" and "honest_reparser rp"
  shows "take (length (carried (parent_cpg req) (affected r))) (nodes (new_cpg r)) = carried (parent_cpg req) (affected r) \<and>
    (\<forall>decl. decl \<notin> affected r \<longrightarrow> node_ids (new_cpg r) decl = node_ids (parent_cpg req) decl) \<and>
    set (added_nodes (delta_graph r)) \<inter> preserved_ids (parent_cpg req) (affected r) = {}"
proof -
  note aff = compute_incremental_Inr(2) [OF assms(1,2)]
  from preserving_build_Inr [OF compute_incremental_Inr(1) [OF assms(1,2)] final_affected_finite [OF assms(1)]]
  obtain ns where ns: "nodes (new_cpg r) = carried (parent_cpg req) (affected r) @ ns"
    "added_nodes (delta_graph r) = map node_id ns" "\<forall>n \<in> set ns. node_id n \<notin> preserved_ids (parent_cpg req) (affected r)"
    "\<forall>n \<in> set ns. \<exists>d \<in> affected r. \<exists>base. n \<in> set (sub_nodes (rp d base))" unfolding aff by blast
  have "enclosing_decl_fqn n \<in> affected r" if n: "n \<in> set ns" for n
  proof -
    obtain d base where d: "d \<in> affected r" "n \<in> set (sub_nodes (rp d base))" using ns(4) n by auto
    with assms(3) have "enclosing_decl_fqn n = d" by (simp add: honest_reparser_def)
    with d show ?thesis by simp
  qed
  then have "filter (\<lambda>n. enclosing_decl_fqn n = decl) ns = []" if "decl \<notin> affected r" for decl
    using that by (auto simp: filter_empty_conv)
  moreover have "filter (\<lambda>n. enclosing_decl_fqn n = decl) (carried (parent_cpg req) (affected r)) =
      filter (\<lambda>n. enclosing_decl_fqn n = decl) (nodes (parent_cpg req))" if "decl \<notin> affected r" for decl
    using that unfolding carried_def filter_filter by (intro filter_cong) auto
  ultimately have "node_ids (new_cpg r) decl = node_ids (parent_cpg req) decl" if "decl \<notin> affected r" for decl
    using that by (simp add: node_ids_def ns(1) del: set_filter)
  moreover have "set (added_nodes (delta_graph r)) \<inter> preserved_ids (parent_cpg req) (affected r) = {}"
    using ns(2,3) by auto
  ultimately show ?thesis using ns(1) by simp
qed

theorem unaffected_ids_preserved_witness:
  "\<exists>r. compute_incremental_cpg sample_reparser (sample_request ''closed-world'' {''b''}) = Inr r \<and>
     node_ids (new_cpg r) ''a'' = {0}"
proof -
  obtain r where r: "compute_incremental_cpg sample_reparser (sample_request ''closed-world'' {''b''}) = Inr r"
    "affected r = {''b''}" using sample_closed_world by blast
  have "node_ids (new_cpg r) ''a'' = node_ids (parent_cpg (sample_request ''closed-world'' {''b''})) ''a''"
    using unaffected_ids_preserved [OF sample_request_finite r(1) sample_reparser_ok(2)] r(2) by simp
  with r(1) show ?thesis by (auto simp: node_ids_def sample_request_def decl_node_def)
qed

text \<open>
  A well-behaved reparse never collides. If the reparser mints distinct ids from the given
  base on and the parent's ids are distinct, the build returns whenever the environments
  agree, and the ids of the new graph are distinct.
\<close>

theorem fresh_reparse_succeeds:
  assumes "finite_request req" and "fresh_reparser rp" and "distinct (ids (parent_cpg req))"
    and "parent_env_digest req = worker_env_digest req"
  shows "\<exists>r. compute_incremental_cpg rp req = Inr r \<and> distinct (ids (new_cpg r))"
proof -
  let ?P = "preserved_ids (parent_cpg req) (final_affected req)"
  from reparse_fold_fresh [OF assms(2) start_below [OF assms(3), of "final_affected req"],
      of "sorted_list_of_set (final_affected req)"]
  obtain b where "r_fold (reparse_decl rp ?P) (sorted_list_of_set (final_affected req))
      (start_building (parent_cpg req) (final_affected req)) = Inr b" "below_base ?P b" by blast
  then show ?thesis
    unfolding compute_incremental_alt [OF assms(1)] using assms(4)
    by (simp add: build_preserving_new_cpg_def Let_def below_base_def ids_def)
qed

theorem fresh_reparse_succeeds_witness:
  "\<exists>r. compute_incremental_cpg sample_reparser (sample_request ''degraded'' {''b''}) = Inr r \<and> distinct (ids (new_cpg r))"
  by (rule fresh_reparse_succeeds [OF sample_request_finite sample_reparser_ok(1)])
    (simp_all add: sample_request_def ids_def decl_node_def)

text \<open>
  The affected set is the documented union. \<open>compute_affected\<close> always returns, and returns
  the changed declarations, everything that reaches them through the reverse symbol index,
  the direct callers of changed declarations, and the declarations of all transitive subtypes of
  changed types.
\<close>

theorem affected_is_union:
  assumes "finite decls" and "finite types"
  shows "compute_affected decls types g = Inr (
     (name_rel (reverse_symbol_index g))\<^sup>* `` decls \<union>
     {c. \<exists>callees. (c, callees) \<in> set (call_graph g) \<and> set callees \<inter> decls \<noteq> {}} \<union>
     {d. \<exists>ty. (d, ty) \<in> set (decl_to_type g) \<and> ty \<in> (name_rel (class_hierarchy g))\<^sup>* `` types})"
  using compute_affected_exact [OF assms] by (simp add: affected_spec_def)

theorem affected_is_union_witness:
  "compute_affected {''b''} {} \<lparr>reverse_symbol_index = [], call_graph = [(''a'', [''b''])], class_hierarchy = [],
     decl_to_type = []\<rparr> = Inr {''a'', ''b''}"
proof -
  have "name_rel [] = {}" by (simp add: name_rel_def successors_def)
  then show ?thesis by (subst affected_is_union) auto
qed

text \<open>
  The environment guard and the route. Different environment digests always raise
  \<open>EnvDigestMismatch\<close>. Otherwise a returned result reports the verdict as its route, except that
  a degraded verdict becomes a full reparse when the changed-file ratio or the cone ratio
  exceeds its threshold; on the full-reparse route nothing of the parent is kept.
\<close>

theorem route_and_env_guard:
  assumes "finite_request req"
  shows "(parent_env_digest req \<noteq> worker_env_digest req \<longrightarrow>
      compute_incremental_cpg rp req = Inl (EnvDigestMismatch (parent_env_digest req) (worker_env_digest req))) \<and>
    (\<forall>r. compute_incremental_cpg rp req = Inr r \<longrightarrow>
      (cw_verdict req \<in> {''closed-world'', ''full-reparse''} \<longrightarrow> precondition_status r = cw_verdict req) \<and>
      (cw_verdict req \<notin> {''closed-world'', ''full-reparse''} \<longrightarrow>
        precondition_status r = (if changed_files_ratio r > theta_files req \<or>
           real (length (filter (\<lambda>n. enclosing_decl_fqn n \<in> affected_spec (changed_decls req) (changed_types req) (graph req))
             (nodes (parent_cpg req)))) / real (max (length (nodes (parent_cpg req))) 1) > theta_cone req
          then ''full-reparse'' else ''degraded'')) \<and>
      (precondition_status r = ''full-reparse'' \<longrightarrow>
        preserved_ids (parent_cpg req) (affected r) = {} \<and> ids (new_cpg r) = added_nodes (delta_graph r)))"
proof (intro conjI allI impI)
  show "compute_incremental_cpg rp req = Inl (EnvDigestMismatch (parent_env_digest req) (worker_env_digest req))"
    if "parent_env_digest req \<noteq> worker_env_digest req"
    using that by (simp add: compute_incremental_cpg_def)
next
  fix r assume r: "compute_incremental_cpg rp req = Inr r"
  let ?aff = "affected_spec (changed_decls req) (changed_types req) (graph req)"
  have st: "precondition_status r = fst (route_for req (changed_files_ratio r) ?aff)"
    and ratio: "changed_files_ratio r = real_of_int (changed_files req) / real_of_int (max (total_files req) 1)"
    using r unfolding compute_incremental_alt [OF assms] by (auto simp: Let_def r_bind_Inr_iff split: if_splits)
  show "precondition_status r = cw_verdict req" if "cw_verdict req \<in> {''closed-world'', ''full-reparse''}"
    using that by (auto simp: st route_for_def)
  show "precondition_status r = (if changed_files_ratio r > theta_files req \<or>
       real (length (filter (\<lambda>n. enclosing_decl_fqn n \<in> ?aff) (nodes (parent_cpg req)))) /
         real (max (length (nodes (parent_cpg req))) 1) > theta_cone req
      then ''full-reparse'' else ''degraded'')" if "cw_verdict req \<notin> {''closed-world'', ''full-reparse''}"
    using that by (auto simp: st route_for_def Let_def)
  assume full: "precondition_status r = ''full-reparse''"
  then have "affected r = set (map enclosing_decl_fqn (nodes (parent_cpg req)))"
    using compute_incremental_Inr(2) [OF assms r] st ratio by (simp add: final_affected_def)
  then have c: "carried (parent_cpg req) (affected r) = []" by (auto simp: carried_def filter_empty_conv)
  then show "preserved_ids (parent_cpg req) (affected r) = {}" by (simp add: preserved_ids_def)
  from preserving_build_Inr [OF compute_incremental_Inr(1) [OF assms r] final_affected_finite [OF assms]] c
  show "ids (new_cpg r) = added_nodes (delta_graph r)"
    unfolding compute_incremental_Inr(2) [OF assms r] by (auto simp: ids_def)
qed

theorem route_and_env_guard_witness:
  "\<exists>r. compute_incremental_cpg sample_reparser (sample_request ''closed-world'' {''b''}) = Inr r \<and>
     precondition_status r = ''closed-world''"
proof -
  obtain r where r: "compute_incremental_cpg sample_reparser (sample_request ''closed-world'' {''b''}) = Inr r"
    using sample_closed_world by blast
  with route_and_env_guard [OF sample_request_finite, of "{''b''}" "''closed-world''" sample_reparser]
  show ?thesis by (auto simp: sample_request_def)
qed




end
