(* ===== verification/Fingerprint.thy ===== *)
theory Fingerprint
  imports Ordering_Contract Worklist
begin

text \<open>
  Slice fingerprints (\<open>analysis/fingerprint.py\<close>): the backward slice of a witness, the
  normalisation passes, the strong content hash, the two weak witness hashes and the
  suppression predicate. The hash \<open>H\<close> and the clock are parameters as in \<open>canonical_order\<close>;
  the whole computation shares one budget. A dictionary is an association list whose latest
  entry comes first.
\<close>

section \<open>Results\<close>

definition SLICE_IDENTITY_NAMESPACE :: string where
  "SLICE_IDENTITY_NAMESPACE = ''scanipy-slice-normal-form/2''"
definition LEGACY_WITNESS_NAMESPACE :: string where
  "LEGACY_WITNESS_NAMESPACE = ''scanipy-witness-edge-sequence/1''"
definition SOURCE_WITNESS_NAMESPACE :: string where
  "SOURCE_WITNESS_NAMESPACE = ''scanipy-source-witness/2''"

record slice_fingerprint_result =
  slice_fingerprint :: bytes
  fp_class :: fingerprint_class
  fp_budget_exhausted :: bool
  fp_elapsed_ms :: real
  fp_annotation :: string
  fp_namespace :: string
  fp_budget_policy :: string
  fp_search_states :: nat

record slice =
  slice_cpg :: cpg
  slice_witness :: "node_id list"

type_synonym remap = "(node_id \<times> node_id) list"

section \<open>Copying graphs\<close>

text \<open>
  \<open>remap[n.node_id] = dst.add_node(...)\<close> with the operator, the resolved name and the enclosing
  declaration rewritten.
\<close>

definition copy_node ::
  "(cpg_node \<Rightarrow> string) \<Rightarrow> (string \<Rightarrow> string) \<Rightarrow> cpg_node \<Rightarrow> cpg \<times> remap \<Rightarrow> cpg \<times> remap" where
  "copy_node rename nf n x = (case x of (g, remap) \<Rightarrow>
     let (nid, g') = add_node (kind n) (rename n) (nf (resolved_fqn n)) (nf (enclosing_decl_fqn n))
                       (structural_path n) g
     in (g', (node_id n, nid) # remap))"

definition copy_nodes :: "(cpg_node \<Rightarrow> string) \<Rightarrow> cpg \<Rightarrow> cpg \<Rightarrow> cpg \<times> remap" where
  "copy_nodes rename s d = fold (copy_node rename (\<lambda>fqn. fqn)) (nodes s) (d, [])"

definition copy_edges :: "cpg \<Rightarrow> remap \<Rightarrow> cpg \<Rightarrow> cpg" where
  "copy_edges s remap d =
     fold (\<lambda>e. add_edge (dget remap (src e)) (dget remap (dst e)) (ekind e)) (edges s) d"

section \<open>The backward slice\<close>

definition preds :: "cpg \<Rightarrow> node_id \<Rightarrow> node_id list" where
  "preds g v = map src (filter (\<lambda>e. ekind e \<in> {''CFG'', ''CALL'', ''PDG''} \<and>
     dst e \<in> set (ids g) \<and> dst e = v) (edges g))"

record cone_state =
  on_slice :: "node_id set"
  traversed :: "node_id set"
  stack :: "node_id list"

definition visit_pred :: "node_id \<Rightarrow> cone_state \<Rightarrow> cone_state" where
  "visit_pred p s =
     (let s' = s\<lparr>on_slice := insert p (on_slice s)\<rparr>
      in if p \<notin> traversed s' then s'\<lparr>stack := p # stack s'\<rparr> else s')"

text \<open>One turn of the loop; the stack has its top first.\<close>

definition cone_step :: "cpg \<Rightarrow> cone_state \<Rightarrow> cone_state option" where
  "cone_step g s = (case stack s of [] \<Rightarrow> None
     | cur # rest \<Rightarrow>
         let s0 = s\<lparr>stack := rest\<rparr>
         in Some (if cur \<in> traversed s0 then s0
                  else fold visit_pred (preds g cur) (s0\<lparr>traversed := insert cur (traversed s0)\<rparr>)))"

text \<open>Each edge pushes its source at most once, when its target is first traversed.\<close>

definition backward_cone :: "cpg \<Rightarrow> node_id list \<Rightarrow> node_id set res" where
  "backward_cone g w =
     (case iterate (Suc (Suc (length (edges g)))) (cone_step g)
             \<lparr>on_slice = set w, traversed = {}, stack = [last w]\<rparr> of
        None \<Rightarrow> Inl OutOfFuel | Some s \<Rightarrow> Inr (on_slice s))"

definition check_witness_node :: "cpg \<Rightarrow> node_id \<Rightarrow> unit \<Rightarrow> unit res" where
  "check_witness_node g v u = (if v \<notin> set (ids g) then Inl (WitnessNotInCPG v) else Inr ())"

definition backward_interprocedural_slice :: "cpg \<Rightarrow> node_id list \<Rightarrow> slice res" where
  "backward_interprocedural_slice g w =
     (if w = [] then Inl EmptyWitness
      else r_bind (r_fold (check_witness_node g) w ()) (\<lambda>_.
        r_bind (backward_cone g w) (\<lambda>on_sl.
        let (sliced, remap) = fold (\<lambda>v. copy_node operator_or_literal (\<lambda>fqn. fqn) (node_by_id g v))
              (sorted_list_of_set on_sl) (empty_cpg, []);
            sliced' = fold (\<lambda>e. add_edge (dget remap (src e)) (dget remap (dst e)) (ekind e))
              (filter (\<lambda>e. src e \<in> on_sl \<and> dst e \<in> on_sl) (edges g)) sliced
        in Inr \<lparr>slice_cpg = sliced', slice_witness = map (dget remap) w\<rparr>)))"

section \<open>Normalisation passes\<close>

definition is_identifier :: "cpg_node \<Rightarrow> bool" where
  "is_identifier n \<longleftrightarrow> kind n = ''IDENTIFIER''"

definition anonymous_name :: "cpg_node \<Rightarrow> string" where
  "anonymous_name n = (if is_identifier n then [] else operator_or_literal n)"

definition count_local :: "cpg \<Rightarrow> node_id \<Rightarrow> (node_id \<times> nat) list \<times> nat \<Rightarrow> (node_id \<times> nat) list \<times> nat" where
  "count_local g v x = (case x of (counter, next_local) \<Rightarrow>
     if is_identifier (node_by_id g v) then ((v, next_local) # counter, Suc next_local)
     else (counter, next_local))"

definition rename_local :: "(node_id \<times> nat) list \<Rightarrow> cpg_node \<Rightarrow> string" where
  "rename_local counter n = (case map_of counter (node_id n) of
     Some k \<Rightarrow> ''%local'' @ decimal k | None \<Rightarrow> operator_or_literal n)"

definition alpha_rename_locals :: "(bytes \<Rightarrow> bytes) \<Rightarrow> cpg \<Rightarrow> cpg bm" where
  "alpha_rename_locals H g =
     (if \<not> list_ex is_identifier (nodes g) then m_return g
      else let (anonymized0, remap0) = copy_nodes anonymous_name g empty_cpg;
               anonymized = copy_edges g remap0 anonymized0
           in m_bind (canonical_order_run H anonymized) (\<lambda>ordering.
              if fingerprint_class_of ordering \<noteq> Strong then m_lift (Inl BudgetExhausted)
              else let inverse = map (\<lambda>(original, mapped). (mapped, original)) remap0;
                       order = map (dget inverse) (canonical_order_of ordering);
                       counter = fst (fold (count_local g) order ([], 0));
                       (out, remap) = copy_nodes (rename_local counter) g empty_cpg
                   in m_return (copy_edges g remap out)))"

definition drop_pdg_only_formatting :: "cpg \<Rightarrow> cpg" where
  "drop_pdg_only_formatting g = g"

definition canonical_topo_sort :: "cpg \<Rightarrow> cpg" where
  "canonical_topo_sort g = g"

definition summary_inline_pure_extract :: "cpg \<Rightarrow> cpg" where
  "summary_inline_pure_extract g = g"

text \<open>\<open>fqn.rsplit(".", 1)[-1]\<close>: what follows the last dot.\<close>

definition terminal :: "string \<Rightarrow> string" where
  "terminal s = rev (takeWhile (\<lambda>c. c \<noteq> CHR ''.'') (rev s))"

definition norm_fqn :: "string \<Rightarrow> string" where
  "norm_fqn s = (if s = [] then [] else ''%pkg.'' @ terminal s)"

definition fqn_normalise :: "cpg \<Rightarrow> cpg" where
  "fqn_normalise g =
     (let (out, remap) = fold (copy_node operator_or_literal norm_fqn) (nodes g) (empty_cpg, [])
      in copy_edges g remap out)"

definition NORMALISATION_PASSES :: "(bytes \<Rightarrow> bytes) \<Rightarrow> (cpg \<Rightarrow> cpg bm) list" where
  "NORMALISATION_PASSES H =
     [alpha_rename_locals H, \<lambda>g. m_return (drop_pdg_only_formatting g),
      \<lambda>g. m_return (canonical_topo_sort g), \<lambda>g. m_return (summary_inline_pure_extract g),
      \<lambda>g. m_return (fqn_normalise g)]"

definition normalise :: "(bytes \<Rightarrow> bytes) \<Rightarrow> cpg \<Rightarrow> cpg bm" where
  "normalise H g = m_fold (\<lambda>pass out. m_bind budget_check (\<lambda>_. pass out)) (NORMALISATION_PASSES H) g"

section \<open>Hashes\<close>

definition slice_domain :: bytes where
  "slice_domain = ''SCANIPY-SLICE-STRONG/2'' @ [CHR 0x0A]"

definition content_hash :: "(bytes \<Rightarrow> bytes) \<Rightarrow> cpg \<Rightarrow> node_id list \<Rightarrow> bytes bm" where
  "content_hash H g order = m_bind (encode_graph g order) (\<lambda>enc. m_return (H (slice_domain @ enc)))"

definition witness_edge_sequence_hash :: "(bytes \<Rightarrow> bytes) \<Rightarrow> node_id list \<Rightarrow> bytes res" where
  "witness_edge_sequence_hash H w = r_bind (r_map to_bytes8 w) (\<lambda>ws.
     Inr (H (''CMP-CORE-02/witness-edge-sequence/v1'' @ [CHR 0x0A] @ concat ws)))"

definition edge_kinds_between :: "cpg \<Rightarrow> (node_id \<times> node_id \<Rightarrow> bytes list) bm" where
  "edge_kinds_between g = m_fold (\<lambda>e adj. m_bind budget_check (\<lambda>_.
     m_return (adj((src e, dst e) := adj (src e, dst e) @ [ekind e])))) (edges g) (\<lambda>_. [])"

definition step_bytes :: "(node_id \<times> node_id \<Rightarrow> bytes list) \<Rightarrow> node_id \<times> node_id \<Rightarrow> bytes res" where
  "step_bytes adj p =
     (let kinds = sort (adj p)
      in if kinds = [] then Inl (ValueError ''source-scoped witness has a disconnected step'')
         else r_bind (to_bytes8 (int (length kinds))) (\<lambda>n.
           r_bind (r_map (\<lambda>k. r_bind (to_bytes8 (int (length k))) (\<lambda>l. Inr (l @ k))) kinds) (\<lambda>ks.
           Inr (n @ concat ks))))"

definition source_witness_hash :: "(bytes \<Rightarrow> bytes) \<Rightarrow> cpg \<Rightarrow> node_id list \<Rightarrow> bytes \<Rightarrow> bytes bm" where
  "source_witness_hash H g w digest =
     m_bind (edge_kinds_between g) (\<lambda>adj.
     m_bind (m_lift (to_bytes8 (int (length w)))) (\<lambda>n.
     m_bind (m_fold (\<lambda>v acc. m_bind budget_check (\<lambda>_.
               m_lift (r_bind (to_bytes8 v) (\<lambda>b. Inr (acc @ b))))) w
             (''SCANIPY-SLICE-WEAK/2'' @ [CHR 0x0A] @ digest @ n)) (\<lambda>acc.
     m_lift (r_bind (r_map (step_bytes adj) (zip w (tl w))) (\<lambda>ss. Inr (H (acc @ concat ss)))))))"

section \<open>The computation\<close>

text \<open>The \<open>try\<close> block of \<open>_compute\<close>.\<close>

definition strong_attempt :: "(bytes \<Rightarrow> bytes) \<Rightarrow> cpg \<Rightarrow> bytes bm" where
  "strong_attempt H g =
     m_bind (normalise H g) (\<lambda>normal.
     m_bind (canonical_order_run H normal) (\<lambda>ordering.
     if fingerprint_class_of ordering = Weak then m_lift (Inl BudgetExhausted)
     else content_hash H normal (canonical_order_of ordering)))"

definition fingerprint_or_weak ::
  "(bytes \<Rightarrow> bytes) \<Rightarrow> slice \<Rightarrow> bytes option \<Rightarrow> (bytes \<times> fingerprint_class \<times> string) bm" where
  "fingerprint_or_weak H sliced source_weak b =
     (case strong_attempt H (slice_cpg sliced) b of
        (Inr fp, b') \<Rightarrow> (Inr (fp, Strong, SLICE_IDENTITY_NAMESPACE), b')
      | (Inl e, b') \<Rightarrow>
          if e = BudgetExhausted then
            m_bind budget_check (\<lambda>_. m_lift (case source_weak of
                None \<Rightarrow> r_bind (witness_edge_sequence_hash H (slice_witness sliced))
                          (\<lambda>h. Inr (h, Weak, LEGACY_WITNESS_NAMESPACE))
              | Some h \<Rightarrow> Inr (h, Weak, SOURCE_WITNESS_NAMESPACE))) b'
          else (Inl e, b'))"

definition source_weak_of :: "(bytes \<Rightarrow> bytes) \<Rightarrow> cpg \<Rightarrow> node_id list \<Rightarrow> bytes option \<Rightarrow> bytes option bm" where
  "source_weak_of H g w source_tree_digest = (case source_tree_digest of None \<Rightarrow> m_return None
     | Some d \<Rightarrow> m_bind (source_witness_hash H g w d) (\<lambda>h. m_return (Some h)))"

definition compute_run ::
  "(bytes \<Rightarrow> bytes) \<Rightarrow> cpg \<Rightarrow> node_id list \<Rightarrow> bytes option \<Rightarrow> slice_fingerprint_result bm" where
  "compute_run H g w source_tree_digest =
     m_bind (validate_cpg g) (\<lambda>_.
     m_bind (m_lift (backward_interprocedural_slice g w)) (\<lambda>sliced.
     m_bind budget_check (\<lambda>_.
     m_bind (source_weak_of H g w source_tree_digest) (\<lambda>source_weak.
     m_bind (fingerprint_or_weak H sliced source_weak) (\<lambda>(fp, klass, namespace).
     m_bind elapsed_ms (\<lambda>ms.
     m_bind budget_check (\<lambda>_ b.
       (Inr \<lparr>slice_fingerprint = fp, fp_class = klass, fp_budget_exhausted = (klass = Weak),
             fp_elapsed_ms = ms, fp_annotation = CPG_ORDER_HASH_ANNOTATION, fp_namespace = namespace,
             fp_budget_policy = BUDGET_POLICY, fp_search_states = search_states b\<rparr>, b))))))))"

definition compute ::
  "(bytes \<Rightarrow> bytes) \<Rightarrow> (nat \<Rightarrow> real) \<Rightarrow> int \<Rightarrow> real \<Rightarrow> cpg \<Rightarrow> node_id list \<Rightarrow> bytes option \<Rightarrow>
   slice_fingerprint_result res" where
  "compute H clk B T g w source_tree_digest =
     r_bind (budget_start B T clk) (\<lambda>b. fst (compute_run H g w source_tree_digest b))"

definition compute_slice_fingerprint ::
  "(bytes \<Rightarrow> bytes) \<Rightarrow> (nat \<Rightarrow> real) \<Rightarrow> int \<Rightarrow> real \<Rightarrow> cpg \<Rightarrow> node_id list \<Rightarrow> slice_fingerprint_result res" where
  "compute_slice_fingerprint H clk B T g w = compute H clk B T g w None"

definition compute_slice_fingerprint_v2 ::
  "(bytes \<Rightarrow> bytes) \<Rightarrow> (nat \<Rightarrow> real) \<Rightarrow> int \<Rightarrow> real \<Rightarrow> cpg \<Rightarrow> node_id list \<Rightarrow> bytes \<Rightarrow>
   slice_fingerprint_result res" where
  "compute_slice_fingerprint_v2 H clk B T g w digest =
     (if length digest \<noteq> 32 then Inl (ValueError ''source_tree_digest must be 32 real digest bytes'')
      else compute H clk B T g w (Some digest))"

definition eligible_for_baseline_suppression :: "slice_fingerprint_result \<Rightarrow> bool" where
  "eligible_for_baseline_suppression r \<longleftrightarrow>
     fp_class r = Strong \<and> fp_namespace r = SLICE_IDENTITY_NAMESPACE"

end
