(* ===== verification/Graph_Maps.thy ===== *)
theory Graph_Maps
  imports Fingerprint
begin

text \<open>
  Graphs that are copies of each other with their labels rewritten. \<open>graph_map f \<phi> \<psi> g h\<close> says
  that \<open>f\<close> renumbers the nodes of \<open>g\<close> to those of \<open>h\<close>, keeps the edges, and that \<open>\<phi>\<close> of a
  node of \<open>g\<close> is \<open>\<psi>\<close> of its image. Such maps compose and invert; the copying loops of the
  fingerprint code produce them, and a map that agrees on the label fields is a graph
  isomorphism.
\<close>

definition graph_map ::
  "(node_id \<Rightarrow> node_id) \<Rightarrow> (cpg_node \<Rightarrow> 'a) \<Rightarrow> (cpg_node \<Rightarrow> 'a) \<Rightarrow> cpg \<Rightarrow> cpg \<Rightarrow> bool" where
  "graph_map f \<phi> \<psi> g h \<longleftrightarrow> bij_betw f (set (ids g)) (set (ids h)) \<and>
     (\<forall>v \<in> set (ids g). \<psi> (node_by_id h (f v)) = \<phi> (node_by_id g v)) \<and>
     image_mset (\<lambda>(k, s, d). (k, f s, f d)) (edge_triples g) = edge_triples h"

lemma graph_iso_map: "graph_iso f g h \<longleftrightarrow> graph_map f label_fields label_fields g h"
  by (auto simp: graph_iso_def graph_map_def)

lemma image_triples_comp:
  "image_mset (\<lambda>(a, s, d). (a, k s, k d)) (image_mset (\<lambda>(a, s, d). (a, f s, f d)) M) =
   image_mset (\<lambda>(a, s, d). (a, k (f s), k (f d))) M"
  by (simp add: multiset.map_comp comp_def case_prod_unfold)

lemma graph_map_trans:
  assumes "graph_map f \<phi> \<psi> g h" and "graph_map k \<psi> \<chi> h l"
  shows "graph_map (k \<circ> f) \<phi> \<chi> g l"
proof -
  have "image_mset (\<lambda>(a, s, d). (a, (k \<circ> f) s, (k \<circ> f) d)) (edge_triples g) =
      image_mset (\<lambda>(a, s, d). (a, k s, k d)) (image_mset (\<lambda>(a, s, d). (a, f s, f d)) (edge_triples g))"
    by (simp add: image_triples_comp)
  moreover have "f v \<in> set (ids h)" if "v \<in> set (ids g)" for v
    using assms(1) that by (auto simp: graph_map_def bij_betw_def)
  ultimately show ?thesis
    using assms by (auto simp: graph_map_def intro: bij_betw_trans)
qed

lemma graph_map_weaken:
  assumes "graph_map f \<phi> \<psi> g h"
    and "\<And>m n. m \<in> set (nodes g) \<Longrightarrow> n \<in> set (nodes h) \<Longrightarrow> \<phi> m = \<psi> n \<Longrightarrow> \<phi>' m = \<psi>' n"
  shows "graph_map f \<phi>' \<psi>' g h"
proof -
  have "\<psi>' (node_by_id h (f v)) = \<phi>' (node_by_id g v)" if v: "v \<in> set (ids g)" for v
  proof -
    have "f v \<in> set (ids h)" using assms(1) v by (auto simp: graph_map_def bij_betw_def)
    from assms(2) [of "node_by_id g v" "node_by_id h (f v)"] node_by_id_in [OF v] node_by_id_in [OF this]
    show ?thesis using assms(1) v by (simp add: graph_map_def)
  qed
  with assms(1) show ?thesis by (simp add: graph_map_def)
qed

lemma graph_map_sym:
  assumes "graph_map f \<phi> \<psi> g h" and "valid_cpg g"
  shows "graph_map (inv_into (set (ids g)) f) \<psi> \<phi> h g"
proof -
  let ?k = "inv_into (set (ids g)) f"
  have bij: "bij_betw f (set (ids g)) (set (ids h))" using assms(1) by (simp add: graph_map_def)
  have kf: "?k (f v) = v" if "v \<in> set (ids g)" for v
    using bij that by (simp add: bij_betw_def)
  have "image_mset (\<lambda>(a, s, d). (a, ?k s, ?k d)) (edge_triples h) =
      image_mset (\<lambda>(a, s, d). (a, ?k (f s), ?k (f d))) (edge_triples g)"
    using assms(1) image_triples_comp [of ?k f "edge_triples g"] by (simp add: graph_map_def)
  also have "\<dots> = image_mset (\<lambda>x. x) (edge_triples g)"
    by (rule image_mset_cong) (use edge_triples_ends [OF assms(2)] kf in auto)
  finally have "image_mset (\<lambda>(a, s, d). (a, ?k s, ?k d)) (edge_triples h) = edge_triples g" by simp
  moreover have "\<phi> (node_by_id g (?k v)) = \<psi> (node_by_id h v)" if v: "v \<in> set (ids h)" for v
  proof -
    have "?k v \<in> set (ids g)" "f (?k v) = v"
      using bij v by (auto simp: bij_betw_def inv_into_into f_inv_into_f)
    then show ?thesis using assms(1) unfolding graph_map_def by metis
  qed
  ultimately show ?thesis
    using bij_betw_inv_into [OF bij] by (simp add: graph_map_def)
qed

section \<open>What the copying loops produce\<close>

definition relabelled :: "(cpg_node \<Rightarrow> string) \<Rightarrow> (string \<Rightarrow> string) \<Rightarrow> nat \<Rightarrow> cpg_node \<Rightarrow> cpg_node" where
  "relabelled rename nf i n = \<lparr>node_id = int i, kind = kind n, operator_or_literal = rename n,
     resolved_fqn = nf (resolved_fqn n), enclosing_decl_fqn = nf (enclosing_decl_fqn n),
     structural_path = structural_path n\<rparr>"

definition new_fields :: "(cpg_node \<Rightarrow> string) \<Rightarrow> (string \<Rightarrow> string) \<Rightarrow> cpg_node \<Rightarrow> fields" where
  "new_fields rename nf n = (kind n, rename n, nf (resolved_fqn n), nf (enclosing_decl_fqn n))"

definition relabel :: "(cpg_node \<Rightarrow> string) \<Rightarrow> (string \<Rightarrow> string) \<Rightarrow> cpg \<Rightarrow> cpg" where
  "relabel rename nf g =
     \<lparr>nodes = map2 (relabelled rename nf) [0..<length (nodes g)] (nodes g),
      edges = map (\<lambda>e. \<lparr>src = int (index_of (ids g) (src e)), dst = int (index_of (ids g) (dst e)),
        ekind = ekind e\<rparr>) (edges g)\<rparr>"

lemma copy_node_run:
  "copy_node rename nf n (g, rm) =
     (g\<lparr>nodes := nodes g @ [relabelled rename nf (length (nodes g)) n]\<rparr>,
      (node_id n, int (length (nodes g))) # rm)"
  by (simp add: copy_node_def add_node_def relabelled_def Let_def)

lemma copy_fold:
  "fold (copy_node rename nf) ns (g, rm) =
     (g\<lparr>nodes := nodes g @ map2 (relabelled rename nf) [length (nodes g)..<length (nodes g) + length ns] ns\<rparr>,
      rev (zip (map node_id ns) (map int [length (nodes g)..<length (nodes g) + length ns])) @ rm)"
proof (induction ns arbitrary: g rm)
  case (Cons n ns)
  have "[length (nodes g)..<length (nodes g) + length (n # ns)] =
      length (nodes g) # [Suc (length (nodes g))..<Suc (length (nodes g)) + length ns]"
    by (simp add: upt_conv_Cons del: upt.simps)
  then show ?case
    by (simp add: copy_node_run Cons.IH del: upt.simps)
qed simp

lemma edges_fold:
  "fold (\<lambda>e. add_edge (f (src e)) (f (dst e)) (ekind e)) es g =
     g\<lparr>edges := edges g @ map (\<lambda>e. \<lparr>src = f (src e), dst = f (dst e), ekind = ekind e\<rparr>) es\<rparr>"
  by (induction es arbitrary: g) (simp_all add: add_edge_def)

lemma remap_dget:
  assumes "distinct vs" and "v \<in> set vs"
  shows "dget (rev (zip vs (map int [0..<length vs]))) v = int (index_of vs v)"
proof -
  let ?z = "zip vs (map int [0..<length vs])"
  have "index_of vs v < length vs" by (rule index_of_less [OF assms(2)])
  then have "(v, int (index_of vs v)) \<in> set (rev ?z)"
    using assms(2) by (auto simp: set_zip intro!: exI [of _ "index_of vs v"])
  moreover have "distinct (map fst (rev ?z))" using assms(1) by (simp add: rev_map [symmetric])
  ultimately have "map_of (rev ?z) v = Some (int (index_of vs v))" by (rule map_of_is_SomeI [rotated])
  then show ?thesis by (simp add: dget_def)
qed

text \<open>The loops over a whole graph, as one operation.\<close>

definition copy_of :: "(cpg_node \<Rightarrow> string) \<Rightarrow> (string \<Rightarrow> string) \<Rightarrow> cpg \<Rightarrow> cpg" where
  "copy_of rename nf g =
     (let (out, remap) = fold (copy_node rename nf) (nodes g) (empty_cpg, []) in copy_edges g remap out)"

lemma copy_of_relabel:
  assumes "valid_cpg g"
  shows "copy_of rename nf g = relabel rename nf g"
proof -
  have "distinct (ids g)" and ends: "e \<in> set (edges g) \<Longrightarrow> src e \<in> set (ids g) \<and> dst e \<in> set (ids g)" for e
    using assms by (auto simp: valid_cpg_def edge_ok_def)
  note d = remap_dget [OF this(1), unfolded ids_def, simplified]
  have "map (\<lambda>e. \<lparr>src = f (src e), dst = f (dst e), ekind = ekind e\<rparr>) (edges g) =
      map (\<lambda>e. \<lparr>src = int (index_of (ids g) (src e)), dst = int (index_of (ids g) (dst e)), ekind = ekind e\<rparr>) (edges g)"
    if "\<And>v. v \<in> set (ids g) \<Longrightarrow> f v = int (index_of (ids g) v)" for f
    using ends that by (intro map_cong) auto
  from this [of "dget (rev (zip (ids g) (map int [0..<length (ids g)])))"] remap_dget [OF \<open>distinct (ids g)\<close>]
  show ?thesis
    by (simp add: copy_of_def copy_fold copy_edges_def edges_fold relabel_def empty_cpg_def ids_def
        del: upt.simps)
qed

definition pos :: "cpg \<Rightarrow> node_id \<Rightarrow> node_id" where
  "pos g v = int (index_of (ids g) v)"

lemma relabel_ids: "ids (relabel rename nf g) = map int [0..<length (nodes g)]"
  by (rule nth_equalityI) (simp_all add: relabel_def ids_def relabelled_def)

lemma relabel_node:
  assumes "v \<in> set (ids g)"
  shows "node_by_id (relabel rename nf g) (pos g v) =
    relabelled rename nf (index_of (ids g) v) (nodes g ! index_of (ids g) v)"
proof -
  let ?h = "relabel rename nf g" and ?i = "index_of (ids g) v"
  have i: "?i < length (nodes g)" using index_of_less [OF assms] by (simp add: ids_def)
  have "nodes ?h ! ?i = relabelled rename nf ?i (nodes g ! ?i)" using i by (simp add: relabel_def)
  moreover have "?i < length (nodes ?h)" using i by (simp add: relabel_def)
  moreover have "distinct (ids ?h)" by (simp add: relabel_ids distinct_map)
  moreover have "(node_id n, n) \<in> set (map (\<lambda>n. (node_id n, n)) (nodes ?h))" if "n \<in> set (nodes ?h)" for n
    using that by auto
  ultimately have "map_of (map (\<lambda>n. (node_id n, n)) (nodes ?h)) (int ?i) =
      Some (relabelled rename nf ?i (nodes g ! ?i))"
    by (intro map_of_is_SomeI) (auto simp: ids_def o_def relabelled_def in_set_conv_nth intro!: image_eqI)
  then show ?thesis by (simp add: node_by_id_def dget_def pos_def)
qed

lemma node_at:
  assumes "distinct (ids g)" and "v \<in> set (ids g)"
  shows "nodes g ! index_of (ids g) v = node_by_id g v"
proof -
  have i: "index_of (ids g) v < length (nodes g)" using index_of_less [OF assms(2)] by (simp add: ids_def)
  have "node_id (nodes g ! index_of (ids g) v) = v"
    using nth_index_of [OF assms(2)] i by (simp add: ids_def)
  then have "(v, nodes g ! index_of (ids g) v) \<in> set (map (\<lambda>n. (node_id n, n)) (nodes g))"
    using i by (force simp: in_set_conv_nth)
  then have "map_of (map (\<lambda>n. (node_id n, n)) (nodes g)) v = Some (nodes g ! index_of (ids g) v)"
    by (rule map_of_is_SomeI [rotated]) (use assms(1) in \<open>simp add: ids_def o_def\<close>)
  then show ?thesis by (simp add: node_by_id_def dget_def)
qed

lemma relabel_map:
  assumes "valid_cpg g"
  shows "graph_map (pos g) (new_fields rename nf) label_fields g (relabel rename nf g)"
proof -
  have dist: "distinct (ids g)" using assms by (simp add: valid_cpg_def)
  have len: "length (ids g) = length (nodes g)" by (simp add: ids_def)
  have "inj_on (pos g) (set (ids g))" by (auto simp: inj_on_def pos_def index_of_inj)
  moreover have "pos g ` set (ids g) = set (ids (relabel rename nf g))"
  proof -
    have "i \<in> index_of (ids g) ` set (ids g)" if "i < length (nodes g)" for i
      using index_of_nth [OF dist, of i] that len by (intro image_eqI [of _ _ "ids g ! i"]) auto
    then have "index_of (ids g) ` set (ids g) = {0..<length (nodes g)}"
      using index_of_less [of _ "ids g"] unfolding len by fastforce
    moreover have "pos g ` set (ids g) = int ` index_of (ids g) ` set (ids g)"
      by (simp add: pos_def image_image)
    ultimately show ?thesis by (simp add: relabel_ids)
  qed
  moreover have "label_fields (node_by_id (relabel rename nf g) (pos g v)) = new_fields rename nf (node_by_id g v)"
    if "v \<in> set (ids g)" for v
    using relabel_node [OF that] node_at [OF dist that]
    by (simp add: relabelled_def label_fields_def new_fields_def)
  ultimately show ?thesis
    by (simp add: graph_map_def bij_betw_def edge_triples_def relabel_def pos_def o_def
        multiset.map_comp flip: mset_map)
qed

text \<open>Distinct unsigned 64-bit ids bound the number of nodes.\<close>

lemma valid_length:
  assumes "valid_cpg g"
  shows "length (nodes g) \<le> 2 ^ 64"
proof -
  have "set (ids g) \<subseteq> {0..<2 ^ 64}" using assms by (auto simp: valid_cpg_def ids_def node_ok_def)
  then have "card (set (ids g)) \<le> card {0..<2 ^ 64 :: int}" by (intro card_mono) auto
  moreover have "card (set (ids g)) = length (nodes g)"
    using assms by (simp add: valid_cpg_def distinct_card ids_length)
  ultimately show ?thesis by simp
qed

lemma relabel_valid:
  assumes "valid_cpg g"
    and "\<And>n. n \<in> set (nodes g) \<Longrightarrow> fields_short (new_fields rename nf n)"
  shows "valid_cpg (relabel rename nf g)"
proof -
  let ?h = "relabel rename nf g"
  have ends: "e \<in> set (edges g) \<Longrightarrow> edge_ok (set (ids g)) e" for e
    using assms(1) by (auto simp: valid_cpg_def)
  have "node_ok n" if "n \<in> set (nodes ?h)" for n
  proof -
    from that obtain i where i: "i < length (nodes g)" "n = relabelled rename nf i (nodes g ! i)"
      by (auto simp: relabel_def in_set_conv_nth)
    have "nodes g ! i \<in> set (nodes g)" using i by simp
    with assms i valid_length [OF assms(1)] show ?thesis
      by (auto simp: node_ok_def relabelled_def label_fields_def new_fields_def valid_cpg_def)
  qed
  moreover have "edge_ok (set (ids ?h)) e" if "e \<in> set (edges ?h)" for e
  proof -
    from that obtain e0 where e0: "e0 \<in> set (edges g)" "src e = int (index_of (ids g) (src e0))"
      "dst e = int (index_of (ids g) (dst e0))" "ekind e = ekind e0"
      by (auto simp: relabel_def)
    with ends [OF e0(1)] index_of_less [of _ "ids g"] show ?thesis
      unfolding edge_ok_def relabel_ids by (simp add: ids_length)
  qed
  ultimately show ?thesis by (simp add: valid_cpg_def relabel_ids distinct_map)
qed

lemma relabel_small:
  assumes "small_cpg g" and "\<And>n. n \<in> set (nodes g) \<Longrightarrow> fields_short (new_fields rename nf n)"
  shows "small_cpg (relabel rename nf g)"
  using assms relabel_valid [of g rename nf] by (simp add: small_cpg_def relabel_def)

end
