(* ===== verification/Backward_Slice.thy ===== *)
theory Backward_Slice
  imports Graph_Maps
begin

text \<open>
  Correctness of the backward slice: the loop computes the nodes from which the sink is
  reachable along data-flow edges, and the slice is a renumbered copy of the subgraph these
  nodes and the witness induce.
\<close>

section \<open>The cone\<close>

definition dataflow :: "cpg \<Rightarrow> (node_id \<times> node_id) set" where
  "dataflow g = {(src e, dst e) | e. e \<in> set (edges g) \<and> ekind e \<in> {''CFG'', ''CALL'', ''PDG''}}"

definition cone :: "cpg \<Rightarrow> node_id list \<Rightarrow> node_id set" where
  "cone g w = set w \<union> {v. (v, last w) \<in> (dataflow g)\<^sup>*}"

lemma set_preds:
  assumes "valid_cpg g"
  shows "set (preds g v) = {p. (p, v) \<in> dataflow g}"
  using assms by (fastforce simp: preds_def dataflow_def valid_cpg_def edge_ok_def)

lemma visit_preds:
  "fold visit_pred ps s = s\<lparr>on_slice := on_slice s \<union> set ps,
     stack := rev (filter (\<lambda>p. p \<notin> traversed s) ps) @ stack s\<rparr>"
  by (induction ps arbitrary: s) (simp_all add: visit_pred_def Let_def)

lemma cone_step_Some:
  "cone_step g s = Some s' \<longleftrightarrow> (\<exists>cur rest. stack s = cur # rest \<and>
     s' = (if cur \<in> traversed s then s\<lparr>stack := rest\<rparr>
       else s\<lparr>on_slice := on_slice s \<union> set (preds g cur), traversed := insert cur (traversed s),
              stack := rev (filter (\<lambda>p. p \<notin> insert cur (traversed s)) (preds g cur)) @ rest\<rparr>))"
  by (cases s; cases "stack s") (auto simp: cone_step_def visit_preds Let_def)

text \<open>Traversed nodes have their predecessors on the slice, and traversed or waiting.\<close>

definition cone_inv :: "cpg \<Rightarrow> node_id list \<Rightarrow> cone_state \<Rightarrow> bool" where
  "cone_inv g w s \<longleftrightarrow> last w \<in> traversed s \<union> set (stack s) \<and>
     (\<forall>v \<in> traversed s \<union> set (stack s). (v, last w) \<in> (dataflow g)\<^sup>*) \<and>
     set w \<subseteq> on_slice s \<and> on_slice s \<subseteq> cone g w \<and>
     (\<forall>v \<in> traversed s. set (preds g v) \<subseteq> on_slice s \<inter> (traversed s \<union> set (stack s)))"

lemma cone_inv_step:
  assumes val: "valid_cpg g" and inv: "cone_inv g w s" and "cone_step g s = Some s'"
  shows "cone_inv g w s'"
proof -
  from assms(3) obtain cur rest where st: "stack s = cur # rest"
    and s': "s' = (if cur \<in> traversed s then s\<lparr>stack := rest\<rparr>
       else s\<lparr>on_slice := on_slice s \<union> set (preds g cur), traversed := insert cur (traversed s),
              stack := rev (filter (\<lambda>p. p \<notin> insert cur (traversed s)) (preds g cur)) @ rest\<rparr>)"
    unfolding cone_step_Some by blast
  show ?thesis
  proof (cases "cur \<in> traversed s")
    case True
    with inv st s' show ?thesis by (auto simp: cone_inv_def)
  next
    case False
    have cur: "(cur, last w) \<in> (dataflow g)\<^sup>*" using inv st by (simp add: cone_inv_def)
    have p: "(p, last w) \<in> (dataflow g)\<^sup>*" if "p \<in> set (preds g cur)" for p
      using that cur set_preds [OF val] by (auto intro: converse_rtrancl_into_rtrancl)
    from False inv st s' p show ?thesis unfolding cone_inv_def cone_def by auto
  qed
qed

lemma cone_inv_end:
  assumes val: "valid_cpg g" and "w \<noteq> []" and inv: "cone_inv g w s" and "cone_step g s = None"
  shows "on_slice s = cone g w"
proof -
  have st: "stack s = []" using assms(4) by (simp add: cone_step_def Let_def split: list.splits)
  have cl: "v \<in> traversed s" if "(v, last w) \<in> (dataflow g)\<^sup>*" for v
    using that
  proof (induction rule: converse_rtrancl_induct)
    case base
    show ?case using inv st by (simp add: cone_inv_def)
  next
    case (step u v)
    then show ?case using inv st set_preds [OF val] unfolding cone_inv_def by fastforce
  qed
  have "v \<in> on_slice s" if "(v, last w) \<in> (dataflow g)\<^sup>*" for v
  proof (cases "v = last w")
    case True
    then show ?thesis using inv assms(2) by (auto simp: cone_inv_def)
  next
    case False
    with that obtain u where "(v, u) \<in> dataflow g" "(u, last w) \<in> (dataflow g)\<^sup>*"
      by (metis converse_rtranclE)
    with cl [of u] set_preds [OF val, of u] inv show ?thesis unfolding cone_inv_def by blast
  qed
  with inv show ?thesis by (auto simp: cone_inv_def cone_def)
qed

text \<open>What is left: the waiting entries and the edges into nodes not yet traversed.\<close>

definition cone_work :: "cpg \<Rightarrow> cone_state \<Rightarrow> nat" where
  "cone_work g s = length (stack s) + length (filter (\<lambda>e. dst e \<notin> traversed s) (edges g))"

lemma filter_length_add:
  "(\<And>x. x \<in> set xs \<Longrightarrow> P x \<Longrightarrow> Q x \<Longrightarrow> False) \<Longrightarrow> (\<And>x. x \<in> set xs \<Longrightarrow> P x \<or> Q x \<Longrightarrow> R x) \<Longrightarrow>
   length (filter P xs) + length (filter Q xs) \<le> length (filter R xs)"
  by (induction xs) force+

lemma cone_work_step:
  assumes "cone_step g s = Some s'"
  shows "cone_work g s' < cone_work g s"
proof -
  from assms obtain cur rest where st: "stack s = cur # rest"
    and s': "s' = (if cur \<in> traversed s then s\<lparr>stack := rest\<rparr>
       else s\<lparr>on_slice := on_slice s \<union> set (preds g cur), traversed := insert cur (traversed s),
              stack := rev (filter (\<lambda>p. p \<notin> insert cur (traversed s)) (preds g cur)) @ rest\<rparr>)"
    unfolding cone_step_Some by blast
  show ?thesis
  proof (cases "cur \<in> traversed s")
    case True
    with st s' show ?thesis by (simp add: cone_work_def)
  next
    case False
    let ?P = "\<lambda>e. ekind e \<in> {''CFG'', ''CALL'', ''PDG''} \<and> dst e \<in> set (ids g) \<and> dst e = cur"
    have "length (filter (\<lambda>p. p \<notin> insert cur (traversed s)) (preds g cur)) \<le> length (filter ?P (edges g))"
      unfolding preds_def by (rule order_trans [OF length_filter_le]) simp
    moreover have "length (filter ?P (edges g)) +
        length (filter (\<lambda>e. dst e \<notin> insert cur (traversed s)) (edges g)) \<le>
        length (filter (\<lambda>e. dst e \<notin> traversed s) (edges g))"
      by (rule filter_length_add) (use False in auto)
    ultimately show ?thesis using False st s' by (simp add: cone_work_def)
  qed
qed

lemma backward_cone_exact:
  assumes "valid_cpg g" and "w \<noteq> []"
  shows "backward_cone g w = Inr (cone g w)"
proof -
  let ?s = "\<lparr>on_slice = set w, traversed = {}, stack = [last w]\<rparr>"
  have "cone_work g ?s < Suc (Suc (length (edges g)))" by (simp add: cone_work_def)
  from iterate_ends [of "\<lambda>_. True" "cone_step g" "cone_work g", OF _ _ this] cone_work_step
  obtain t where t: "iterate (Suc (Suc (length (edges g)))) (cone_step g) ?s = Some t" by blast
  have "cone_inv g w ?s" by (simp add: cone_inv_def cone_def)
  from iterate_invariant [OF t, of "cone_inv g w"] this cone_inv_step [OF assms(1)]
  have "cone_inv g w t" "cone_step g t = None" by blast+
  from cone_inv_end [OF assms this] t show ?thesis by (simp add: backward_cone_def)
qed

lemma cone_in_ids:
  assumes "valid_cpg g" and "set w \<subseteq> set (ids g)" and "w \<noteq> []"
  shows "cone g w \<subseteq> set (ids g)"
proof -
  have "v \<in> set (ids g)" if "(v, last w) \<in> (dataflow g)\<^sup>*" for v
    using that
  proof (cases rule: converse_rtranclE)
    case base
    with assms show ?thesis by auto
  next
    case (step y)
    with assms(1) show ?thesis by (auto simp: dataflow_def valid_cpg_def edge_ok_def)
  qed
  with assms(2) show ?thesis by (auto simp: cone_def)
qed

section \<open>The induced subgraph\<close>

definition induced :: "node_id set \<Rightarrow> cpg \<Rightarrow> cpg" where
  "induced S g = \<lparr>nodes = map (node_by_id g) (sorted_list_of_set S),
     edges = filter (\<lambda>e. src e \<in> S \<and> dst e \<in> S) (edges g)\<rparr>"

lemma induced_ids:
  assumes "S \<subseteq> set (ids g)"
  shows "ids (induced S g) = sorted_list_of_set S"
proof -
  have "finite S" using assms finite_subset by blast
  then have "map (\<lambda>v. node_id (node_by_id g v)) (sorted_list_of_set S) = map (\<lambda>v. v) (sorted_list_of_set S)"
    using assms node_by_id_in by (intro map_cong) auto
  then show ?thesis by (simp add: ids_def induced_def o_def)
qed

lemma induced_set:
  assumes "S \<subseteq> set (ids g)"
  shows "set (ids (induced S g)) = S"
  using assms induced_ids [OF assms] finite_subset [OF assms] by simp

lemma induced_node:
  assumes "S \<subseteq> set (ids g)" and "v \<in> S"
  shows "node_by_id (induced S g) v = node_by_id g v"
proof -
  have "finite S" using assms(1) finite_subset by blast
  then have "v \<in> set (sorted_list_of_set S)" using assms(2) by simp
  moreover have "map (\<lambda>n. (node_id n, n)) (nodes (induced S g)) =
      map (\<lambda>v. (v, node_by_id g v)) (sorted_list_of_set S)"
    unfolding induced_def using assms(1) node_by_id_in \<open>finite S\<close> by (auto intro!: map_cong)
  ultimately show ?thesis unfolding node_by_id_def [of "induced S g"] by (simp only: dget_map)
qed

lemma induced_valid:
  assumes "valid_cpg g" and "S \<subseteq> set (ids g)"
  shows "valid_cpg (induced S g)"
proof -
  have "node_ok n" if "n \<in> set (nodes (induced S g))" for n
    using that assms node_by_id_in finite_subset [OF assms(2)] by (auto simp: induced_def valid_cpg_def)
  moreover have "edge_ok S e" if "e \<in> set (edges (induced S g))" for e
    using that assms(1) by (auto simp: induced_def valid_cpg_def edge_ok_def)
  ultimately show ?thesis
    using assms by (simp add: valid_cpg_def induced_set) (simp add: induced_ids)
qed

lemma induced_small:
  assumes "small_cpg g" and "S \<subseteq> set (ids g)"
  shows "small_cpg (induced S g)"
proof -
  have "card S \<le> length (ids g)"
    using card_mono [OF _ assms(2)] card_length [of "ids g"] by simp
  then have "length (nodes (induced S g)) \<le> length (nodes g)"
    by (simp add: induced_def ids_length)
  moreover have "length (edges (induced S g)) \<le> length (edges g)" by (simp add: induced_def)
  ultimately show ?thesis using assms induced_valid by (simp add: small_cpg_def)
qed

lemma induced_triples:
  "edge_triples (induced S g) = filter_mset (\<lambda>(k, s, d). s \<in> S \<and> d \<in> S) (edge_triples g)"
  by (simp add: edge_triples_def induced_def filter_mset_image_mset o_def flip: mset_filter)

lemma graph_map_induced:
  assumes "graph_map f \<phi> \<psi> g h" and "valid_cpg g" and "S \<subseteq> set (ids g)"
  shows "graph_map f \<phi> \<psi> (induced S g) (induced (f ` S) h)"
proof -
  have bij: "bij_betw f (set (ids g)) (set (ids h))" using assms(1) by (simp add: graph_map_def)
  have sub: "f ` S \<subseteq> set (ids h)" using bij assms(3) by (auto simp: bij_betw_def)
  have inj: "f v \<in> f ` S \<longleftrightarrow> v \<in> S" if "v \<in> set (ids g)" for v
    using bij assms(3) that by (auto simp: bij_betw_def inj_on_def)
  have "edge_triples (induced (f ` S) h) =
      filter_mset (\<lambda>(k, s, d). s \<in> f ` S \<and> d \<in> f ` S) (image_mset (\<lambda>(k, s, d). (k, f s, f d)) (edge_triples g))"
    using assms(1) by (simp add: induced_triples graph_map_def)
  also have "\<dots> = image_mset (\<lambda>(k, s, d). (k, f s, f d))
      (filter_mset (\<lambda>(k, s, d). f s \<in> f ` S \<and> f d \<in> f ` S) (edge_triples g))"
    by (simp add: filter_mset_image_mset o_def case_prod_unfold)
  also have "filter_mset (\<lambda>(k, s, d). f s \<in> f ` S \<and> f d \<in> f ` S) (edge_triples g) = edge_triples (induced S g)"
    unfolding induced_triples
  proof (rule filter_mset_cong [OF refl])
    fix x assume x: "x \<in># edge_triples g"
    obtain k s d where "x = (k, s, d)" by (cases x)
    with edge_triples_ends [OF assms(2)] x inj [of s] inj [of d]
    show "(case x of (k, s, d) \<Rightarrow> f s \<in> f ` S \<and> f d \<in> f ` S) = (case x of (k, s, d) \<Rightarrow> s \<in> S \<and> d \<in> S)"
      by simp
  qed
  finally have "image_mset (\<lambda>(k, s, d). (k, f s, f d)) (edge_triples (induced S g)) =
      edge_triples (induced (f ` S) h)" by simp
  moreover have "bij_betw f S (f ` S)" using bij assms(3) by (auto simp: bij_betw_def intro: inj_on_subset)
  moreover have "\<psi> (node_by_id (induced (f ` S) h) (f v)) = \<phi> (node_by_id (induced S g) v)" if "v \<in> S" for v
  proof -
    have "f v \<in> f ` S" "v \<in> set (ids g)" using that assms(3) by auto
    with that assms(1,3) sub show ?thesis by (simp add: induced_node graph_map_def)
  qed
  ultimately show ?thesis using assms(3) sub by (simp add: graph_map_def induced_set)
qed

text \<open>Renumbering a graph renumbers the cone.\<close>

lemma edge_triples_set: "(k, s, d) \<in># edge_triples g \<longleftrightarrow> \<lparr>src = s, dst = d, ekind = k\<rparr> \<in> set (edges g)"
proof -
  have e: "e = \<lparr>src = s, dst = d, ekind = k\<rparr> \<longleftrightarrow> ekind e = k \<and> src e = s \<and> dst e = d" for e :: cpg_edge
    by (cases e) auto
  have "(k, s, d) \<in># edge_triples g \<longleftrightarrow> (\<exists>e \<in> set (edges g). ekind e = k \<and> src e = s \<and> dst e = d)"
    by (auto simp: edge_triples_def)
  then show ?thesis by (simp flip: e)
qed

lemma dataflow_triples:
  "(s, d) \<in> dataflow g \<longleftrightarrow> (\<exists>k. k \<in> {''CFG'', ''CALL'', ''PDG''} \<and> (k, s, d) \<in># edge_triples g)"
proof
  assume "(s, d) \<in> dataflow g"
  then obtain e where "e \<in> set (edges g)" "ekind e \<in> {''CFG'', ''CALL'', ''PDG''}" "src e = s" "dst e = d"
    by (auto simp: dataflow_def)
  then show "\<exists>k. k \<in> {''CFG'', ''CALL'', ''PDG''} \<and> (k, s, d) \<in># edge_triples g"
    by (auto simp: edge_triples_def intro!: exI [of _ "ekind e"])
next
  assume "\<exists>k. k \<in> {''CFG'', ''CALL'', ''PDG''} \<and> (k, s, d) \<in># edge_triples g"
  then show "(s, d) \<in> dataflow g" unfolding edge_triples_set dataflow_def by force
qed

lemma dataflow_map:
  assumes "graph_map f \<phi> \<psi> g h" and "(s, d) \<in> dataflow g"
  shows "(f s, f d) \<in> dataflow h"
proof -
  from assms(2) obtain k where "k \<in> {''CFG'', ''CALL'', ''PDG''}" "(k, s, d) \<in># edge_triples g"
    by (auto simp: dataflow_triples)
  moreover from this(2) have "(k, f s, f d) \<in># edge_triples h"
    using assms(1) unfolding graph_map_def by (metis (mono_tags, lifting) case_prod_conv image_eqI set_image_mset)
  ultimately show ?thesis by (auto simp: dataflow_triples)
qed

lemma cone_map_sub:
  assumes "graph_map f \<phi> \<psi> g h" and "w \<noteq> []"
  shows "f ` cone g w \<subseteq> cone h (map f w)"
proof -
  have "(f v, f (last w)) \<in> (dataflow h)\<^sup>*" if "(v, last w) \<in> (dataflow g)\<^sup>*" for v
    using that by (induction rule: converse_rtrancl_induct)
      (auto intro: converse_rtrancl_into_rtrancl dataflow_map [OF assms(1)])
  then show ?thesis using assms(2) by (auto simp: cone_def last_map)
qed

lemma cone_map:
  assumes "graph_map f \<phi> \<psi> g h" and "valid_cpg g" and "valid_cpg h" and "w \<noteq> []" and "set w \<subseteq> set (ids g)"
  shows "cone h (map f w) = f ` cone g w"
proof
  let ?k = "inv_into (set (ids g)) f"
  note inverse = graph_map_sym [OF assms(1,2)]
  have bij: "bij_betw f (set (ids g)) (set (ids h))" using assms(1) by (simp add: graph_map_def)
  have kf: "?k (f v) = v" if "v \<in> set (ids g)" for v using bij that by (simp add: bij_betw_def)
  have fk: "f (?k v) = v" if "v \<in> set (ids h)" for v
    using bij that by (simp add: bij_betw_def f_inv_into_f)
  have "map ?k (map f w) = w" using assms(5) kf by (simp add: o_def map_idI subset_eq)
  with cone_map_sub [OF inverse, of "map f w"] assms(4) have sub: "?k ` cone h (map f w) \<subseteq> cone g w" by simp
  have "cone h (map f w) \<subseteq> set (ids h)"
    by (rule cone_in_ids [OF assms(3)]) (use assms(4,5) bij in \<open>auto simp: bij_betw_def\<close>)
  then have "v \<in> f ` cone g w" if "v \<in> cone h (map f w)" for v
    using sub fk [of v] that by (intro image_eqI [of _ _ "?k v"]) auto
  then show "cone h (map f w) \<subseteq> f ` cone g w" by blast
  show "f ` cone g w \<subseteq> cone h (map f w)" by (rule cone_map_sub [OF assms(1,4)])
qed

section \<open>The slice\<close>

definition slice_graph :: "cpg \<Rightarrow> node_id list \<Rightarrow> cpg" where
  "slice_graph g w = relabel operator_or_literal (\<lambda>s. s) (induced (cone g w) g)"

lemma new_fields_same: "new_fields operator_or_literal (\<lambda>s. s) = label_fields"
  by (simp add: new_fields_def label_fields_def fun_eq_iff)

lemma witness_missing:
  "r_fold (check_witness_node g) w () =
     (case find (\<lambda>v. v \<notin> set (ids g)) w of None \<Rightarrow> Inr () | Some v \<Rightarrow> Inl (WitnessNotInCPG v))"
  by (induction w) (auto simp: check_witness_node_def)

lemma slice_runs:
  assumes val: "valid_cpg g" and "w \<noteq> []" and w: "set w \<subseteq> set (ids g)"
  shows "backward_interprocedural_slice g w =
    Inr \<lparr>slice_cpg = slice_graph g w, slice_witness = map (pos (induced (cone g w) g)) w\<rparr>"
proof -
  let ?S = "cone g w" and ?I = "induced (cone g w) g"
  have sub: "?S \<subseteq> set (ids g)" by (rule cone_in_ids [OF val w assms(2)])
  have "find (\<lambda>v. v \<notin> set (ids g)) w = None" using w by (auto simp: find_None_iff)
  then have fw: "r_fold (check_witness_node g) w () = Inr ()" by (simp add: witness_missing)
  obtain out remap where f: "fold (copy_node operator_or_literal (\<lambda>s. s)) (nodes ?I) (empty_cpg, []) = (out, remap)"
    by fastforce
  have loop: "fold (\<lambda>v. copy_node operator_or_literal (\<lambda>s. s) (node_by_id g v)) (sorted_list_of_set ?S) (empty_cpg, []) = (out, remap)"
    using f by (simp add: induced_def fold_map o_def)
  have rm: "remap = rev (zip (ids ?I) (map int [0..<length (ids ?I)]))"
    using f by (simp add: copy_fold empty_cpg_def ids_def del: upt.simps)
  have "dget remap v = pos ?I v" if "v \<in> ?S" for v
    unfolding rm pos_def
    by (rule remap_dget) (use that induced_set [OF sub] induced_valid [OF val sub] in \<open>auto simp: valid_cpg_def\<close>)
  then have "map (dget remap) w = map (pos ?I) w" by (auto simp: cone_def)
  moreover have "copy_edges ?I remap out = slice_graph g w"
    using copy_of_relabel [OF induced_valid [OF val sub], of operator_or_literal "\<lambda>s. s"] f
    by (simp add: copy_of_def slice_graph_def)
  then have "fold (\<lambda>e. add_edge (dget remap (src e)) (dget remap (dst e)) (ekind e))
      (filter (\<lambda>e. src e \<in> ?S \<and> dst e \<in> ?S) (edges g)) out = slice_graph g w"
    by (simp add: copy_edges_def induced_def)
  ultimately show ?thesis
    using assms(2) by (simp add: backward_interprocedural_slice_def fw backward_cone_exact [OF val] loop)
qed

lemma slice_Inr:
  assumes "valid_cpg g" and "backward_interprocedural_slice g w = Inr sl"
  shows "w \<noteq> []" and "set w \<subseteq> set (ids g)" and "slice_cpg sl = slice_graph g w"
    and "slice_witness sl = map (pos (induced (cone g w) g)) w"
proof -
  show ne: "w \<noteq> []" using assms(2) by (auto simp: backward_interprocedural_slice_def)
  have "r_fold (check_witness_node g) w () = Inr ()"
    using assms(2) ne by (auto simp: backward_interprocedural_slice_def r_bind_Inr_iff)
  then show w: "set w \<subseteq> set (ids g)"
    by (auto simp: witness_missing find_None_iff split: option.splits)
  show "slice_cpg sl = slice_graph g w" "slice_witness sl = map (pos (induced (cone g w) g)) w"
    using assms(2) slice_runs [OF assms(1) ne w] by auto
qed

lemma slice_graph_map:
  assumes "valid_cpg g" and "w \<noteq> []" and "set w \<subseteq> set (ids g)"
  shows "graph_iso (pos (induced (cone g w) g)) (induced (cone g w) g) (slice_graph g w)"
  using relabel_map [OF induced_valid [OF assms(1) cone_in_ids [OF assms(1,3,2)]],
      of operator_or_literal "\<lambda>s. s"]
  by (simp add: graph_iso_map slice_graph_def new_fields_same)

lemma slice_graph_valid:
  assumes "valid_cpg g" and "w \<noteq> []" and "set w \<subseteq> set (ids g)"
  shows "valid_cpg (slice_graph g w)"
proof -
  have "valid_cpg (induced (cone g w) g)"
    by (rule induced_valid [OF assms(1) cone_in_ids [OF assms(1,3,2)]])
  then show ?thesis
    unfolding slice_graph_def
    by (rule relabel_valid) (use \<open>valid_cpg (induced (cone g w) g)\<close> in
        \<open>auto simp: new_fields_same valid_cpg_def node_ok_def\<close>)
qed

lemma slice_graph_small:
  assumes "small_cpg g" and "w \<noteq> []" and "set w \<subseteq> set (ids g)"
  shows "small_cpg (slice_graph g w)"
proof -
  have val: "valid_cpg g" using assms(1) by (simp add: small_cpg_def)
  have "small_cpg (induced (cone g w) g)"
    by (rule induced_small [OF assms(1) cone_in_ids [OF val assms(3,2)]])
  then show ?thesis
    unfolding slice_graph_def
    by (rule relabel_small) (use \<open>small_cpg (induced (cone g w) g)\<close> in
        \<open>auto simp: new_fields_same small_cpg_def valid_cpg_def node_ok_def\<close>)
qed

text \<open>Graphs that agree up to \<open>\<phi>\<close> have slices that agree up to \<open>\<phi>\<close>.\<close>

lemma slices_agree:
  assumes "graph_map r (\<phi> \<circ> label_fields) (\<phi> \<circ> label_fields) g h" and "valid_cpg g" and "valid_cpg h"
    and "w \<noteq> []" and "set w \<subseteq> set (ids g)"
  shows "\<exists>k. graph_map k (\<phi> \<circ> label_fields) (\<phi> \<circ> label_fields) (slice_graph g w) (slice_graph h (map r w))"
proof -
  let ?S = "cone g w"
  have sub: "?S \<subseteq> set (ids g)" by (rule cone_in_ids [OF assms(2,5,4)])
  have w': "set (map r w) \<subseteq> set (ids h)" "map r w \<noteq> []"
    using assms(1,4,5) by (auto simp: graph_map_def bij_betw_def)
  note m = graph_map_induced [OF assms(1,2) sub]
  have cm: "cone h (map r w) = r ` ?S" by (rule cone_map [OF assms])
  have iso: "graph_map (pos (induced (cone u x) u)) (\<phi> \<circ> label_fields) (\<phi> \<circ> label_fields)
      (induced (cone u x) u) (slice_graph u x)" if "valid_cpg u" "x \<noteq> []" "set x \<subseteq> set (ids u)" for u x
    by (rule graph_map_weaken [OF slice_graph_map [OF that, unfolded graph_iso_map]]) simp
  from graph_map_sym [OF iso [OF assms(2,4,5)] induced_valid [OF assms(2) sub]]
  obtain k where "graph_map k (\<phi> \<circ> label_fields) (\<phi> \<circ> label_fields) (slice_graph g w) (induced ?S g)" by blast
  from graph_map_trans [OF graph_map_trans [OF this m] iso [OF assms(3) w'(2,1), unfolded cm]]
  show ?thesis by blast
qed

end
