(* ===== verification/Normal_Form.thy ===== *)
theory Normal_Form
  imports Backward_Slice
begin

text \<open>
  Correctness of the normalisation passes: the numbers given to local names depend only on the
  graph without them, so graphs that differ in local names and node numbers have isomorphic
  normal forms; so do graphs without local names that differ in package prefixes.
\<close>

section \<open>Rewritten labels\<close>

fun anon_fields :: "fields \<Rightarrow> fields" where
  "anon_fields (k, op, r, d) = (k, if k = ''IDENTIFIER'' then [] else op, r, d)"

fun pkg_fields :: "fields \<Rightarrow> fields" where
  "pkg_fields (k, op, r, d) = (k, op, norm_fqn r, norm_fqn d)"

lemma new_fields_anon: "new_fields anonymous_name (\<lambda>s. s) = anon_fields \<circ> label_fields"
  by (simp add: new_fields_def label_fields_def anonymous_name_def is_identifier_def fun_eq_iff)

lemma new_fields_pkg: "new_fields operator_or_literal norm_fqn = pkg_fields \<circ> label_fields"
  by (simp add: new_fields_def label_fields_def fun_eq_iff)

section \<open>Strong orders\<close>

lemma run_Inr:
  assumes "canonical_order_run H g b = (Inr r, b')"
  obtains enc where "valid_cpg g" "encode_res g (canonical_order_of r) = Inr enc"
    "fingerprint_class_of r = Strong \<Longrightarrow>
       \<exists>c c'. canonical_search g (graph_ix g) c = (Inr (canonical_order_of r, enc), c')"
proof (rule canonical_order_Inr [OF assms])
  fix ix b1 klass order enc b2 ms
  assume b: "build_index g b = (Inr ix, b1)" and a: "order_attempt H g ix b1 = (Inr (klass, order, enc), b2)"
    and r: "r = \<lparr>canonical_order_of = order, cpg_order_hash = H (order_domain klass @ enc),
           fingerprint_class_of = klass, annotation = CPG_ORDER_HASH_ANNOTATION,
           budget_exhausted = (klass = Weak), elapsed = ms,
           identity_namespace = GRAPH_IDENTITY_NAMESPACE, budget_policy = BUDGET_POLICY,
           states_entered = search_states b2\<rparr>"
  from build_Inr [OF b] have val: "valid_cpg g" and ix: "ix = graph_ix g" by auto
  note at = attempt_Inr [OF val a [unfolded ix]]
  show thesis by (rule that [of enc]) (use val r at in auto)
qed

lemma strong_runs_agree:
  assumes "graph_iso f g h"
    and "canonical_order_run H g b = (Inr r, b')" and "fingerprint_class_of r = Strong"
    and "canonical_order_run H h c = (Inr r', c')" and "fingerprint_class_of r' = Strong"
  shows "\<exists>enc. encode_res g (canonical_order_of r) = Inr enc \<and> encode_res h (canonical_order_of r') = Inr enc"
proof -
  obtain enc d d' where G: "valid_cpg g" "encode_res g (canonical_order_of r) = Inr enc"
      "canonical_search g (graph_ix g) d = (Inr (canonical_order_of r, enc), d')"
    using run_Inr [OF assms(2)] assms(3) by metis
  obtain enc' e e' where E: "valid_cpg h" "encode_res h (canonical_order_of r') = Inr enc'"
      "canonical_search h (graph_ix h) e = (Inr (canonical_order_of r', enc'), e')"
    using run_Inr [OF assms(4)] assms(5) by metis
  have "enc = enc'" by (rule search_invariant [OF assms(1) G(1) E(1) G(3) E(3)])
  with G E show ?thesis by blast
qed

section \<open>Numbering the locals\<close>

definition counter_of :: "cpg \<Rightarrow> node_id list \<Rightarrow> (node_id \<times> nat) list" where
  "counter_of g order = fst (fold (count_local g) order ([], 0))"

lemma count_locals:
  "distinct order \<Longrightarrow> map_of (fst (fold (count_local g) order (c, n))) v =
     (if v \<in> set order \<and> is_identifier (node_by_id g v)
      then Some (n + length (filter (\<lambda>u. is_identifier (node_by_id g u)) (takeWhile (\<lambda>u. u \<noteq> v) order)))
      else map_of c v)"
proof (induction order arbitrary: c n)
  case (Cons u order)
  show ?case
  proof (cases "is_identifier (node_by_id g u)")
    case True
    with Cons show ?thesis by (cases "u = v") (auto simp: count_local_def)
  next
    case False
    with Cons show ?thesis by (cases "u = v") (auto simp: count_local_def)
  qed
qed simp

lemma counter_of_lookup:
  "distinct order \<Longrightarrow> map_of (counter_of g order) v =
     (if v \<in> set order \<and> is_identifier (node_by_id g v)
      then Some (length (filter (\<lambda>u. is_identifier (node_by_id g u)) (takeWhile (\<lambda>u. u \<noteq> v) order)))
      else None)"
  by (simp add: counter_of_def count_locals)

lemma takeWhile_map_inj:
  "inj_on m (insert v (set xs)) \<Longrightarrow> takeWhile (\<lambda>u. u \<noteq> m v) (map m xs) = map m (takeWhile (\<lambda>u. u \<noteq> v) xs)"
  by (induction xs) (auto simp: inj_on_def)

abbreviation anon :: "cpg_node \<Rightarrow> fields" where "anon \<equiv> anon_fields \<circ> label_fields"

lemma anon_eq_iff:
  "anon m = anon n \<longleftrightarrow> kind m = kind n \<and> resolved_fqn m = resolved_fqn n \<and>
     enclosing_decl_fqn m = enclosing_decl_fqn n \<and>
     (\<not> is_identifier m \<longrightarrow> operator_or_literal m = operator_or_literal n)"
  by (auto simp: label_fields_def is_identifier_def)

text \<open>Corresponding orders give corresponding names.\<close>

lemma renamed_agree:
  assumes gm: "graph_map m anon anon g h" and d: "distinct order" and o: "set order = set (ids g)"
  shows "graph_map m (new_fields (rename_local (counter_of g order)) (\<lambda>s. s))
    (new_fields (rename_local (counter_of h (map m order))) (\<lambda>s. s)) g h"
proof -
  have inj: "inj_on m (set order)" and into: "\<And>v. v \<in> set order \<Longrightarrow> m v \<in> set (ids h)"
    using gm o by (auto simp: graph_map_def bij_betw_def)
  have an: "anon (node_by_id h (m v)) = anon (node_by_id g v)" if "v \<in> set order" for v
    using gm o that by (simp add: graph_map_def)
  have idf: "is_identifier (node_by_id h (m v)) = is_identifier (node_by_id g v)" if "v \<in> set order" for v
    using an [OF that] unfolding anon_eq_iff is_identifier_def by simp
  have name: "rename_local (counter_of h (map m order)) (node_by_id h (m v)) =
      rename_local (counter_of g order) (node_by_id g v)" if v: "v \<in> set order" for v
  proof (cases "is_identifier (node_by_id g v)")
    case True
    have ids: "node_id (node_by_id g v) = v" "node_id (node_by_id h (m v)) = m v"
      using node_by_id_in v o into by auto
    have "filter (\<lambda>u. is_identifier (node_by_id h u)) (takeWhile (\<lambda>u. u \<noteq> m v) (map m order)) =
        map m (filter (\<lambda>u. is_identifier (node_by_id h (m u))) (takeWhile (\<lambda>u. u \<noteq> v) order))"
      using takeWhile_map_inj [of m v order] inj v by (simp add: insert_absorb filter_map o_def)
    also have "filter (\<lambda>u. is_identifier (node_by_id h (m u))) (takeWhile (\<lambda>u. u \<noteq> v) order) =
        filter (\<lambda>u. is_identifier (node_by_id g u)) (takeWhile (\<lambda>u. u \<noteq> v) order)"
      by (rule filter_cong) (auto dest: set_takeWhileD simp: idf)
    finally show ?thesis
      using True v d inj idf [OF v] ids
      by (simp add: rename_local_def counter_of_lookup distinct_map)
  next
    case False
    then have "map_of (counter_of g order) v = None" "map_of (counter_of h (map m order)) (m v) = None"
      using d inj idf [OF v] by (simp_all add: counter_of_lookup distinct_map)
    then show ?thesis
      using an [OF v] False node_by_id_in v o into idf [OF v] unfolding anon_eq_iff
      by (simp add: rename_local_def)
  qed
  show ?thesis
    using gm an name o unfolding graph_map_def anon_eq_iff by (simp add: new_fields_def)
qed

section \<open>The renaming pass\<close>

lemma dget_inverse:
  assumes "i < length vs"
  shows "dget (map (\<lambda>(original, mapped). (mapped, original)) (rev (zip vs (map int [0..<length vs])))) (int i) = vs ! i"
proof -
  let ?z = "map (\<lambda>(original, mapped). (mapped, original)) (rev (zip vs (map int [0..<length vs])))"
  have "map fst ?z = rev (map int [0..<length vs])"
    by (rule nth_equalityI) (simp_all add: rev_nth case_prod_unfold)
  then have "distinct (map fst ?z)" by (simp add: distinct_map)
  moreover have "(int i, vs ! i) \<in> set ?z"
    using assms by (force simp: set_zip)
  ultimately have "map_of ?z (int i) = Some (vs ! i)" by (rule map_of_is_SomeI)
  then show ?thesis by (simp add: dget_def)
qed

definition original_order :: "cpg \<Rightarrow> node_id list \<Rightarrow> node_id list" where
  "original_order g order = map (\<lambda>v. ids g ! nat v) order"

abbreviation anonymized :: "cpg \<Rightarrow> cpg" where "anonymized \<equiv> relabel anonymous_name (\<lambda>s. s)"

definition copied_nodes :: "(cpg_node \<Rightarrow> string) \<Rightarrow> cpg \<Rightarrow> cpg" where
  "copied_nodes rename g = \<lparr>nodes = map2 (relabelled rename (\<lambda>s. s)) [0..<length (nodes g)] (nodes g), edges = []\<rparr>"

definition copied_remap :: "cpg \<Rightarrow> remap" where
  "copied_remap g = rev (zip (ids g) (map int [0..<length (ids g)]))"

lemma copy_nodes_eq: "copy_nodes rename g empty_cpg = (copied_nodes rename g, copied_remap g)"
  by (simp add: copy_nodes_def copy_fold empty_cpg_def ids_def copied_nodes_def copied_remap_def del: upt.simps)

lemma copy_edges_eq:
  "valid_cpg g \<Longrightarrow> copy_edges g (copied_remap g) (copied_nodes rename g) = relabel rename (\<lambda>s. s) g"
  using copy_of_relabel [of g rename "\<lambda>s. s"] copy_nodes_eq [of rename g]
  by (simp add: copy_of_def copy_nodes_def)

definition inverse_remap :: "cpg \<Rightarrow> remap" where
  "inverse_remap g = map (\<lambda>(original, mapped). (mapped, original)) (copied_remap g)"

lemma alpha_run:
  assumes "valid_cpg g"
  shows "alpha_rename_locals H g = (if \<not> list_ex is_identifier (nodes g) then m_return g
    else m_bind (canonical_order_run H (anonymized g)) (\<lambda>r.
      if fingerprint_class_of r \<noteq> Strong then m_lift (Inl BudgetExhausted)
      else m_return (relabel (rename_local (counter_of g
        (map (dget (inverse_remap g)) (canonical_order_of r)))) (\<lambda>s. s) g)))"
  unfolding alpha_rename_locals_def Let_def copy_nodes_eq prod.case copy_edges_eq [OF assms]
    counter_of_def inverse_remap_def ..

lemma anonymized_map:
  "valid_cpg g \<Longrightarrow> graph_map (pos g) anon label_fields g (anonymized g)"
  using relabel_map [of g anonymous_name "\<lambda>s. s"] by (simp add: new_fields_anon)

text \<open>A completed pass either found no local or numbered them along a strong order.\<close>

lemma alpha_Inr:
  assumes val: "valid_cpg g" and run: "alpha_rename_locals H g b = (Inr out, b')"
  obtains "\<not> list_ex is_identifier (nodes g)" "out = g" "b' = b"
  | r where "list_ex is_identifier (nodes g)" "canonical_order_run H (anonymized g) b = (Inr r, b')"
      "fingerprint_class_of r = Strong"
      "out = relabel (rename_local (counter_of g (original_order g (canonical_order_of r)))) (\<lambda>s. s) g"
proof (cases "list_ex is_identifier (nodes g)")
  case False
  with run val have "out = g" "b' = b" by (simp_all add: alpha_run)
  with False show ?thesis by (rule that(1))
next
  case True
  with run val obtain r b1 where r: "canonical_order_run H (anonymized g) b = (Inr r, b1)"
    and st: "fingerprint_class_of r = Strong" and b1: "b1 = b'"
    and out: "out = relabel (rename_local (counter_of g
      (map (dget (inverse_remap g)) (canonical_order_of r)))) (\<lambda>s. s) g"
    by (auto simp: alpha_run m_bind_Inr_iff split: if_splits)
  obtain enc where "encode_res (anonymized g) (canonical_order_of r) = Inr enc" by (rule run_Inr [OF r])
  then have "set (canonical_order_of r) = set (ids (anonymized g))"
    by (simp add: encode_res_Inr complete_order_def)
  then have "\<exists>i. v = int i \<and> i < length (ids g)" if "v \<in> set (canonical_order_of r)" for v
    using that by (auto simp: relabel_ids ids_length)
  then have "map (dget (inverse_remap g)) (canonical_order_of r) = original_order g (canonical_order_of r)"
    unfolding original_order_def inverse_remap_def copied_remap_def
    by (intro map_cong [OF refl]) (metis dget_inverse nat_int)
  with out have "out = relabel (rename_local (counter_of g (original_order g (canonical_order_of r)))) (\<lambda>s. s) g"
    by simp
  with True r [unfolded b1] st show ?thesis by (rule that(2))
qed

lemma original_order_pos:
  assumes "valid_cpg g" and "set order = set (ids (anonymized g))"
  shows "map (pos g) (original_order g order) = order"
proof -
  have "pos g (ids g ! nat v) = v" if "v \<in> set order" for v
    using that assms index_of_nth [of "ids g" "nat v"]
    by (auto simp: relabel_ids pos_def valid_cpg_def ids_length)
  then show ?thesis by (simp add: original_order_def o_def map_idI)
qed

lemma original_order_set:
  assumes "valid_cpg g" and "set order = set (ids (anonymized g))" and "distinct order"
  shows "set (original_order g order) = set (ids g)" and "distinct (original_order g order)"
proof -
  have "set (original_order g order) = (\<lambda>v. ids g ! nat v) ` int ` {0..<length (ids g)}"
    using assms(2) by (simp add: original_order_def relabel_ids ids_length)
  also have "\<dots> = set (ids g)" by (force simp: image_image set_conv_nth)
  finally show "set (original_order g order) = set (ids g)" .
  show "distinct (original_order g order)"
    using original_order_pos [OF assms(1,2)] assms(3) by (metis distinct_map)
qed

lemma run_order:
  assumes "canonical_order_run H g b = (Inr r, b')"
  shows "valid_cpg g" and "set (canonical_order_of r) = set (ids g)" and "distinct (canonical_order_of r)"
    and "length (nodes g) < 2 ^ 64"
proof -
  obtain enc where v: "valid_cpg g" and e: "encode_res g (canonical_order_of r) = Inr enc"
    by (rule run_Inr [OF assms])
  then have co: "complete_order g (canonical_order_of r)" and l: "length (canonical_order_of r) < 2 ^ 64"
    by (simp_all add: encode_res_Inr)
  show "valid_cpg g" by (rule v)
  show "set (canonical_order_of r) = set (ids g)" using co by (simp add: complete_order_def)
  show "distinct (canonical_order_of r)"
    using complete_order_distinct [OF _ co] v by (simp add: valid_cpg_def)
  show "length (nodes g) < 2 ^ 64" using co l by (simp add: complete_order_def ids_length)
qed

text \<open>The names given to locals are short.\<close>

lemma local_name_short:
  assumes "k < 2 ^ 64"
  shows "short (''%local'' @ decimal k)"
proof -
  have "k < 10 ^ Suc 19" using assms by simp
  from decimal_length [OF this] show ?thesis by (simp add: short_def)
qed

lemma counter_less:
  assumes "distinct order" and "map_of (counter_of g order) v = Some k"
  shows "k < length order"
proof -
  have v: "v \<in> set order"
    and k: "k = length (filter (\<lambda>u. is_identifier (node_by_id g u)) (takeWhile (\<lambda>u. u \<noteq> v) order))"
    using assms by (auto simp: counter_of_lookup split: if_splits)
  have "k \<le> length (takeWhile (\<lambda>u. u \<noteq> v) order)" unfolding k by (rule length_filter_le)
  also have "\<dots> < length order"
    using v by (induction order) auto
  finally show ?thesis .
qed

lemma renamed_short:
  assumes "valid_cpg g" and "distinct order" and "length order < 2 ^ 64" and "n \<in> set (nodes g)"
  shows "fields_short (new_fields (rename_local (counter_of g order)) (\<lambda>s. s) n)"
proof -
  have "fields_short (label_fields n)" using assms(1,4) by (auto simp: valid_cpg_def node_ok_def)
  moreover have "short (rename_local (counter_of g order) n)"
  proof (cases "map_of (counter_of g order) (node_id n)")
    case None
    with \<open>fields_short (label_fields n)\<close> show ?thesis by (simp add: rename_local_def label_fields_def)
  next
    case (Some k)
    then have "k < 2 ^ 64" using counter_less [OF assms(2)] assms(3) less_trans by blast
    from local_name_short [OF this] Some show ?thesis by (simp add: rename_local_def)
  qed
  ultimately show ?thesis by (simp add: new_fields_def label_fields_def)
qed

lemma alpha_order:
  assumes "valid_cpg g" and "canonical_order_run H (anonymized g) b = (Inr r, b')"
  shows "set (original_order g (canonical_order_of r)) = set (ids g)"
    and "distinct (original_order g (canonical_order_of r))"
    and "length (original_order g (canonical_order_of r)) < 2 ^ 64"
    and "length (nodes g) < 2 ^ 64"
proof -
  note o = run_order [OF assms(2)]
  show "set (original_order g (canonical_order_of r)) = set (ids g)"
    and d: "distinct (original_order g (canonical_order_of r))"
    by (rule original_order_set [OF assms(1) o(2,3)])+
  show n: "length (nodes g) < 2 ^ 64" using o(4) by (simp add: relabel_def)
  have "length (original_order g (canonical_order_of r)) = card (set (ids g))"
    using distinct_card [OF d] \<open>set (original_order g (canonical_order_of r)) = set (ids g)\<close> by simp
  then show "length (original_order g (canonical_order_of r)) < 2 ^ 64"
    using card_length [of "ids g"] n by (simp add: ids_length)
qed

lemma alpha_valid:
  assumes val: "valid_cpg g" and "alpha_rename_locals H g b = (Inr out, b')"
  shows "valid_cpg out"
  using assms
proof (cases rule: alpha_Inr)
  case 1
  with val show ?thesis by simp
next
  case (2 r)
  note o = alpha_order [OF val 2(2)]
  show ?thesis
    unfolding 2(4) by (rule relabel_valid [OF val renamed_short [OF val o(2,3)]])
qed

text \<open>Graphs that agree but for local names and node numbers are renamed to isomorphic ones.\<close>

lemma node_by_id_of:
  assumes "valid_cpg g" and "n \<in> set (nodes g)"
  shows "node_by_id g (node_id n) = n" and "node_id n \<in> set (ids g)"
proof -
  have "map_of (map (\<lambda>n. (node_id n, n)) (nodes g)) (node_id n) = Some n"
    by (rule map_of_is_SomeI) (use assms in \<open>auto simp: valid_cpg_def ids_def o_def\<close>)
  then show "node_by_id g (node_id n) = n" by (simp add: node_by_id_def dget_def)
  show "node_id n \<in> set (ids g)" using assms(2) by (simp add: ids_def)
qed

lemma identifiers_agree:
  assumes "graph_map f anon anon g h" and "valid_cpg g" and "list_ex is_identifier (nodes g)"
  shows "list_ex is_identifier (nodes h)"
proof -
  from assms(3) obtain n where n: "n \<in> set (nodes g)" "is_identifier n" by (auto simp: list_ex_iff)
  note i = node_by_id_of [OF assms(2) n(1)]
  have "f (node_id n) \<in> set (ids h)" using assms(1) i(2) by (auto simp: graph_map_def bij_betw_def)
  moreover have "anon (node_by_id h (f (node_id n))) = anon n" using assms(1) i by (simp add: graph_map_def)
  ultimately show ?thesis
    using n(2) node_by_id_in unfolding anon_eq_iff list_ex_iff is_identifier_def by metis
qed

lemma anon_label_fields:
  assumes "graph_map f anon anon g h" and "\<not> list_ex is_identifier (nodes g)"
  shows "graph_iso f g h"
  unfolding graph_iso_map
proof (rule graph_map_weaken [OF assms(1)])
  fix m n assume "m \<in> set (nodes g)" "anon m = anon n"
  then show "label_fields m = label_fields n"
    using assms(2) unfolding anon_eq_iff list_ex_iff by (simp add: label_fields_def)
qed

text \<open>Equal encodings of the anonymized graphs match the two original orders.\<close>

lemma matching_orders:
  assumes g: "valid_cpg g" and h: "valid_cpg h"
    and o: "set order = set (ids (anonymized g))" "distinct order"
    and o': "set order' = set (ids (anonymized h))" "distinct order'"
    and e: "encode_res (anonymized g) order = Inr enc" "encode_res (anonymized h) order' = Inr enc"
  shows "\<exists>m. graph_map m anon anon g h \<and> original_order h order' = map m (original_order g order)"
proof -
  let ?\<kappa> = "\<lambda>v. order' ! index_of order v" and ?inv = "inv_into (set (ids h)) (pos h)"
  have iso: "graph_map ?\<kappa> label_fields label_fields (anonymized g) (anonymized h)"
    using equal_encodings_isomorphic [OF e] by (simp add: graph_iso_map)
  note gm = graph_map_trans [OF graph_map_trans [OF anonymized_map [OF g] iso]
      graph_map_sym [OF anonymized_map [OF h] h]]
  have len: "length order = length order'"
    using encoding_parts [OF e] by simp
  have "map ?\<kappa> order = order'"
    by (rule nth_equalityI) (use len index_of_nth [OF o(2)] in auto)
  then have "map (?\<kappa> \<circ> pos g) (original_order g order) = order'"
    using original_order_pos [OF g o(1)] by (metis map_map)
  then have "map (?inv \<circ> (?\<kappa> \<circ> pos g)) (original_order g order) = map ?inv (map (pos h) (original_order h order'))"
    using original_order_pos [OF h o'(1)] by (metis map_map)
  also have "\<dots> = original_order h order'"
  proof -
    have "inj_on (pos h) (set (ids h))"
      using anonymized_map [OF h] by (simp add: graph_map_def bij_betw_def)
    then have "?inv (pos h v) = v" if "v \<in> set (original_order h order')" for v
      using that original_order_set(1) [OF h o'] by simp
    then show ?thesis by (simp add: o_def map_idI)
  qed
  finally show ?thesis using gm by (metis comp_assoc)
qed

lemma alpha_agree:
  assumes gm: "graph_map f anon anon g h" and g: "valid_cpg g" and h: "valid_cpg h"
    and rg: "alpha_rename_locals H g b = (Inr out, b')" and rh: "alpha_rename_locals H h c = (Inr out', c')"
  shows "\<exists>m. graph_iso m out out'"
  using g rg
proof (cases rule: alpha_Inr)
  case 1
  have "\<not> list_ex is_identifier (nodes h)"
    using identifiers_agree [OF graph_map_sym [OF gm g] h] 1 by blast
  with rh h have "out' = h" by (simp add: alpha_run)
  with anon_label_fields [OF gm] 1 show ?thesis by blast
next
  case (2 r)
  have "list_ex is_identifier (nodes h)" by (rule identifiers_agree [OF gm g 2(1)])
  with h rh obtain r' where
    r': "canonical_order_run H (anonymized h) c = (Inr r', c')" "fingerprint_class_of r' = Strong"
      "out' = relabel (rename_local (counter_of h (original_order h (canonical_order_of r')))) (\<lambda>s. s) h"
    by (auto elim: alpha_Inr)
  have "graph_iso (pos h \<circ> f \<circ> inv_into (set (ids g)) (pos g)) (anonymized g) (anonymized h)"
    unfolding graph_iso_map comp_assoc
    by (rule graph_map_trans [OF graph_map_trans [OF graph_map_sym [OF anonymized_map [OF g] g] gm]
          anonymized_map [OF h], unfolded comp_assoc])
  from strong_runs_agree [OF this 2(2,3) r'(1,2)] obtain enc where
    e: "encode_res (anonymized g) (canonical_order_of r) = Inr enc"
      "encode_res (anonymized h) (canonical_order_of r') = Inr enc" by blast
  from matching_orders [OF g h run_order(2,3) [OF 2(2)] run_order(2,3) [OF r'(1)] e] obtain m where
    m: "graph_map m anon anon g h"
    "original_order h (canonical_order_of r') = map m (original_order g (canonical_order_of r))" by blast
  note ag = renamed_agree [OF m(1) alpha_order(2,1) [OF g 2(2)], folded m(2)]
  from graph_map_trans [OF graph_map_trans [OF graph_map_sym [OF relabel_map [OF g] g] ag] relabel_map [OF h]]
  show ?thesis unfolding graph_iso_map 2(4) r'(3) by blast
qed

section \<open>The normal form\<close>

lemma fqn_normalise_relabel:
  "valid_cpg g \<Longrightarrow> fqn_normalise g = relabel operator_or_literal norm_fqn g"
  using copy_of_relabel [of g operator_or_literal norm_fqn] by (simp add: fqn_normalise_def copy_of_def)

lemma fqn_normalise_agree:
  assumes "graph_map f (pkg_fields \<circ> label_fields) (pkg_fields \<circ> label_fields) g h"
    and "valid_cpg g" and "valid_cpg h"
  shows "\<exists>m. graph_iso m (fqn_normalise g) (fqn_normalise h)"
proof -
  have nf: "graph_map (pos u) (pkg_fields \<circ> label_fields) label_fields u (fqn_normalise u)" if "valid_cpg u" for u
    using relabel_map [OF that, of operator_or_literal norm_fqn] fqn_normalise_relabel [OF that]
    by (simp add: new_fields_pkg)
  from graph_map_trans [OF graph_map_trans [OF graph_map_sym [OF nf [OF assms(2)] assms(2)] assms(1)] nf [OF assms(3)]]
  show ?thesis unfolding graph_iso_map by blast
qed

lemma normalise_Inr:
  assumes "normalise H g b = (Inr n, b')"
  obtains b1 b2 out where "alpha_rename_locals H g b1 = (Inr out, b2)" "n = fqn_normalise out"
    "same_budget b b1" "same_budget b2 b'"
proof -
  from assms obtain b1 b2 b3 b4 b5 out where
    c1: "budget_check b = (Inr (), b1)" and al: "alpha_rename_locals H g b1 = (Inr out, b2)"
    and c2: "budget_check b2 = (Inr (), b3)" "budget_check b3 = (Inr (), b4)" "budget_check b4 = (Inr (), b5)"
      "budget_check b5 = (Inr (), b')"
    and n: "n = fqn_normalise out"
    by (auto simp: normalise_def NORMALISATION_PASSES_def m_Inr drop_pdg_only_formatting_def
        canonical_topo_sort_def summary_inline_pure_extract_def)
  have same: "same_budget b b1" "same_budget b2 b3" "same_budget b3 b4" "same_budget b4 b5" "same_budget b5 b'"
    using c1 c2 prompt_Inr [OF prompt_check] by blast+
  then have "same_budget b2 b'" by (blast intro: same_budget_trans)
  with al n same(1) show ?thesis using that by blast
qed

lemma normal_forms_local:
  assumes "graph_map f anon anon g h" and "valid_cpg g" and "valid_cpg h"
    and "normalise H g b = (Inr n, b')" and "normalise H h c = (Inr n', c')"
  shows "\<exists>m. graph_iso m n n'"
proof -
  obtain b1 b2 out where a: "alpha_rename_locals H g b1 = (Inr out, b2)" "n = fqn_normalise out"
    by (rule normalise_Inr [OF assms(4)])
  obtain c1 c2 out' where a': "alpha_rename_locals H h c1 = (Inr out', c2)" "n' = fqn_normalise out'"
    by (rule normalise_Inr [OF assms(5)])
  from alpha_agree [OF assms(1-3) a(1) a'(1)] obtain m where "graph_iso m out out'" by blast
  then have "graph_map m (pkg_fields \<circ> label_fields) (pkg_fields \<circ> label_fields) out out'"
    unfolding graph_iso_map by (rule graph_map_weaken) simp
  from fqn_normalise_agree [OF this alpha_valid [OF assms(2) a(1)] alpha_valid [OF assms(3) a'(1)]]
  show ?thesis unfolding a(2) a'(2) .
qed

lemma normal_forms_package:
  assumes "graph_map f (pkg_fields \<circ> label_fields) (pkg_fields \<circ> label_fields) g h"
    and "valid_cpg g" and "valid_cpg h" and "\<not> list_ex is_identifier (nodes g)"
    and "normalise H g b = (Inr n, b')" and "normalise H h c = (Inr n', c')"
  shows "\<exists>m. graph_iso m n n'"
proof -
  have "\<not> list_ex is_identifier (nodes h)"
  proof
    assume "list_ex is_identifier (nodes h)"
    then obtain n where n: "n \<in> set (nodes h)" "is_identifier n" by (auto simp: list_ex_iff)
    note i = node_by_id_of [OF assms(3) n(1)]
    let ?k = "inv_into (set (ids g)) f (node_id n)"
    have "?k \<in> set (ids g)" "(pkg_fields \<circ> label_fields) (node_by_id g ?k) = (pkg_fields \<circ> label_fields) n"
      using graph_map_sym [OF assms(1,2)] i by (auto simp: graph_map_def bij_betw_def)
    then show False
      using n(2) assms(4) node_by_id_in [of ?k g] by (auto simp: list_ex_iff label_fields_def is_identifier_def)
  qed
  moreover obtain b1 b2 out where a: "alpha_rename_locals H g b1 = (Inr out, b2)" "n = fqn_normalise out"
    by (rule normalise_Inr [OF assms(5)])
  moreover obtain c1 c2 out' where a': "alpha_rename_locals H h c1 = (Inr out', c2)" "n' = fqn_normalise out'"
    by (rule normalise_Inr [OF assms(6)])
  ultimately have "out = g" "out' = h" using assms(2-4) by (auto simp: alpha_run)
  with fqn_normalise_agree [OF assms(1-3)] a(2) a'(2) show ?thesis by simp
qed

end
