(* ===== verification/Fingerprint_Contract.thy ===== *)
theory Fingerprint_Contract
  imports Normal_Form
begin

text \<open>
  The contract of the slice fingerprint, stated on the entry points: what the slice is, which
  refactorings a strong fingerprint survives and one it does not, what a result carries and
  when one is returned.
\<close>

section \<open>Returned results\<close>

lemma strong_attempt_Inr:
  assumes "strong_attempt H g b = (Inr fp, b')"
  obtains n b1 ord b2 enc where "normalise H g b = (Inr n, b1)" "canonical_order_run H n b1 = (Inr ord, b2)"
    "fingerprint_class_of ord = Strong" "encode_res n (canonical_order_of ord) = Inr enc"
    "fp = H (slice_domain @ enc)"
proof -
  from assms obtain n b1 ord b2 where
    n: "normalise H g b = (Inr n, b1)" and ord: "canonical_order_run H n b1 = (Inr ord, b2)"
    and c: "(if fingerprint_class_of ord = Weak then m_lift (Inl BudgetExhausted)
      else content_hash H n (canonical_order_of ord)) b2 = (Inr fp, b')"
    unfolding strong_attempt_def m_bind_Inr_iff by blast
  then have st: "fingerprint_class_of ord = Strong" by (cases "fingerprint_class_of ord") auto
  with c obtain enc b3 where e: "encode_graph n (canonical_order_of ord) b2 = (Inr enc, b3)"
    and fp: "fp = H (slice_domain @ enc)"
    by (auto simp: content_hash_def m_Inr)
  from prompt_Inr [OF prompt_encode e] have "encode_res n (canonical_order_of ord) = Inr enc" by simp
  with n ord st fp show ?thesis using that by blast
qed

text \<open>Every returned result, in the order of the computation.\<close>

lemma compute_Inr:
  assumes "compute H clk B T g w d = Inr r"
  obtains sl b b' where "valid_cpg g" "backward_interprocedural_slice g w = Inr sl"
    "fp_budget_exhausted r \<longleftrightarrow> fp_class r = Weak" "fp_annotation r = CPG_ORDER_HASH_ANNOTATION"
    "fp_budget_policy r = BUDGET_POLICY"
    "fp_class r = Strong \<and> fp_namespace r = SLICE_IDENTITY_NAMESPACE \<and>
       strong_attempt H (slice_cpg sl) b = (Inr (slice_fingerprint r), b') \<or>
     fp_class r = Weak \<and> d = None \<and> fp_namespace r = LEGACY_WITNESS_NAMESPACE \<and>
       witness_edge_sequence_hash H (slice_witness sl) = Inr (slice_fingerprint r) \<or>
     fp_class r = Weak \<and> d \<noteq> None \<and> fp_namespace r = SOURCE_WITNESS_NAMESPACE"
proof -
  from assms obtain b0 r0 where "fst (compute_run H g w d b0) = Inr r"
    by (auto simp: compute_def r_bind_Inr_iff)
  then obtain b1 where run: "compute_run H g w d b0 = (Inr r, b1)" by (metis prod.collapse)
  then obtain c1 sl c2 c3 sw c4 fp klass ns c5 ms k where
    v: "validate_cpg g b0 = (Inr (), c1)" and sl: "backward_interprocedural_slice g w = Inr sl"
    and sw: "source_weak_of H g w d c3 = (Inr sw, c4)"
    and fw: "fingerprint_or_weak H sl sw c4 = (Inr (fp, klass, ns), c5)"
    and r: "r = \<lparr>slice_fingerprint = fp, fp_class = klass, fp_budget_exhausted = (klass = Weak),
             fp_elapsed_ms = ms, fp_annotation = CPG_ORDER_HASH_ANNOTATION, fp_namespace = ns,
             fp_budget_policy = BUDGET_POLICY, fp_search_states = k\<rparr>"
    unfolding compute_run_def by (auto simp: m_Inr)
  have val: "valid_cpg g" using prompt_Inr [OF prompt_validate v] by (simp add: check_cpg_Inr)
  have d: "sw = None \<longleftrightarrow> d = None" using sw by (cases d) (auto simp: source_weak_of_def m_Inr)
  obtain x c where sa: "strong_attempt H (slice_cpg sl) c4 = (x, c)" by fastforce
  show ?thesis
  proof (rule that [of sl c4 c])
    show "fp_class r = Strong \<and> fp_namespace r = SLICE_IDENTITY_NAMESPACE \<and>
       strong_attempt H (slice_cpg sl) c4 = (Inr (slice_fingerprint r), c) \<or>
     fp_class r = Weak \<and> d = None \<and> fp_namespace r = LEGACY_WITNESS_NAMESPACE \<and>
       witness_edge_sequence_hash H (slice_witness sl) = Inr (slice_fingerprint r) \<or>
     fp_class r = Weak \<and> d \<noteq> None \<and> fp_namespace r = SOURCE_WITNESS_NAMESPACE"
    proof (cases x)
      case (Inr a)
      with fw sa r show ?thesis by (auto simp: fingerprint_or_weak_def)
    next
      case (Inl e)
      with fw sa r d show ?thesis
        by (auto simp: fingerprint_or_weak_def m_Inr r_bind_Inr_iff split: if_splits option.splits)
    qed
  qed (use val sl r in auto)
qed

text \<open>Strong fingerprints of slices with isomorphic normal forms are equal.\<close>

lemma strong_fingerprints_agree:
  assumes "compute H clk B T g w d = Inr r" and "fp_class r = Strong"
    and "compute H clk' B' T' h w' d' = Inr r'" and "fp_class r' = Strong"
    and iso: "\<And>b n b' c n' c'. normalise H (slice_graph g w) b = (Inr n, b') \<Longrightarrow>
      normalise H (slice_graph h w') c = (Inr n', c') \<Longrightarrow> \<exists>m. graph_iso m n n'"
  shows "slice_fingerprint r = slice_fingerprint r'"
proof -
  obtain sl b b' where g: "valid_cpg g" "backward_interprocedural_slice g w = Inr sl"
    "strong_attempt H (slice_cpg sl) b = (Inr (slice_fingerprint r), b')"
    by (rule compute_Inr [OF assms(1)]) (use assms(2) in auto)
  obtain sl' c c' where h: "valid_cpg h" "backward_interprocedural_slice h w' = Inr sl'"
    "strong_attempt H (slice_cpg sl') c = (Inr (slice_fingerprint r'), c')"
    by (rule compute_Inr [OF assms(3)]) (use assms(4) in auto)
  obtain n b1 ord b2 enc where n: "normalise H (slice_cpg sl) b = (Inr n, b1)"
    "canonical_order_run H n b1 = (Inr ord, b2)" "fingerprint_class_of ord = Strong"
    "encode_res n (canonical_order_of ord) = Inr enc" "slice_fingerprint r = H (slice_domain @ enc)"
    by (rule strong_attempt_Inr [OF g(3)])
  obtain n' c1 ord' c2 enc' where n': "normalise H (slice_cpg sl') c = (Inr n', c1)"
    "canonical_order_run H n' c1 = (Inr ord', c2)" "fingerprint_class_of ord' = Strong"
    "encode_res n' (canonical_order_of ord') = Inr enc'" "slice_fingerprint r' = H (slice_domain @ enc')"
    by (rule strong_attempt_Inr [OF h(3)])
  from iso n(1) n'(1) slice_Inr(3) [OF g(1,2)] slice_Inr(3) [OF h(1,2)]
  obtain m where "graph_iso m n n'" by metis
  from strong_runs_agree [OF this n(2,3) n'(2,3)] n(4,5) n'(4,5) show ?thesis by simp
qed

section \<open>Refactorings\<close>

text \<open>
  \<open>h\<close> is \<open>g\<close> with its nodes renumbered by \<open>f\<close>, its lists reordered and the texts of identifier
  nodes replaced by others.
\<close>

definition local_renaming :: "(node_id \<Rightarrow> node_id) \<Rightarrow> cpg \<Rightarrow> cpg \<Rightarrow> bool" where
  "local_renaming f g h \<longleftrightarrow> bij_betw f (set (ids g)) (set (ids h)) \<and>
     (\<forall>v \<in> set (ids g). let m = node_by_id g v; n = node_by_id h (f v) in
        kind n = kind m \<and> resolved_fqn n = resolved_fqn m \<and> enclosing_decl_fqn n = enclosing_decl_fqn m \<and>
        (kind m \<noteq> ''IDENTIFIER'' \<longrightarrow> operator_or_literal n = operator_or_literal m)) \<and>
     image_mset (\<lambda>(k, s, d). (k, f s, f d)) (edge_triples g) = edge_triples h"

text \<open>
  \<open>h\<close> is \<open>g\<close> with its nodes renumbered, its lists reordered and the package prefixes of
  qualified names, all before the last dot, replaced by others.
\<close>

definition package_renaming :: "(node_id \<Rightarrow> node_id) \<Rightarrow> cpg \<Rightarrow> cpg \<Rightarrow> bool" where
  "package_renaming f g h \<longleftrightarrow> bij_betw f (set (ids g)) (set (ids h)) \<and>
     (\<forall>v \<in> set (ids g). let m = node_by_id g v; n = node_by_id h (f v) in
        kind n = kind m \<and> operator_or_literal n = operator_or_literal m \<and>
        (resolved_fqn n = [] \<longleftrightarrow> resolved_fqn m = []) \<and> terminal (resolved_fqn n) = terminal (resolved_fqn m) \<and>
        (enclosing_decl_fqn n = [] \<longleftrightarrow> enclosing_decl_fqn m = []) \<and>
        terminal (enclosing_decl_fqn n) = terminal (enclosing_decl_fqn m)) \<and>
     image_mset (\<lambda>(k, s, d). (k, f s, f d)) (edge_triples g) = edge_triples h"

lemma local_renaming_map:
  assumes "local_renaming f g h"
  shows "graph_map f anon anon g h"
  using assms by (auto simp: local_renaming_def graph_map_def Let_def label_fields_def)

lemma package_renaming_map:
  assumes "package_renaming f g h"
  shows "graph_map f (pkg_fields \<circ> label_fields) (pkg_fields \<circ> label_fields) g h"
  using assms by (auto simp: package_renaming_def graph_map_def Let_def label_fields_def norm_fqn_def)

section \<open>Completion\<close>

text \<open>A budget that can still be used: no deadline ahead and no state over the limit.\<close>

definition usable :: "budget \<Rightarrow> bool" where
  "usable b \<longleftrightarrow> never_expires b \<and> search_states b \<le> state_limit b"

lemma usable_same: "same_budget b b' \<Longrightarrow> usable b \<Longrightarrow> usable b'"
  by (simp add: usable_def never_expires_same) (simp add: same_budget_def)

lemma prompt_usable: "prompt c r \<Longrightarrow> usable b \<Longrightarrow> \<exists>b'. c b = (r, b') \<and> usable b'"
  using prompt_run [of c r b] usable_same [of b] by (auto simp: usable_def)

lemma bounded_order_run: "bounded (canonical_order_run H g)"
proof -
  have "bounded elapsed_ms" by (simp add: bounded_def elapsed_ms_def read_clock_def m_bind_run)
  moreover have "bounded (\<lambda>b. (Inr (F b), b))" for F :: "budget \<Rightarrow> canonical_order_result"
    by (simp add: bounded_def)
  ultimately show ?thesis
    unfolding canonical_order_run_def case_prod_unfold
    by (intro bounded_bind bounded_basic bounded_attempt)
qed

lemma order_run_usable:
  assumes "small_cpg g" and "usable b"
  shows "\<exists>r b'. canonical_order_run H g b = (Inr r, b') \<and> usable b'"
proof -
  have b: "never_expires b" "search_states b \<le> state_limit b" using assms(2) by (auto simp: usable_def)
  from canonical_order_runs [OF assms(1) b] obtain r b' where
    r: "canonical_order_run H g b = (Inr r, b')" "never_expires b'" by blast
  from boundedD [OF bounded_order_run r(1) b(2)] r show ?thesis by (auto simp: usable_def)
qed

text \<open>Names that stay below the size limit when their package prefix is rewritten.\<close>

definition room_for_prefix :: "cpg \<Rightarrow> bool" where
  "room_for_prefix g \<longleftrightarrow> (\<forall>n \<in> set (nodes g). short (norm_fqn (resolved_fqn n)) \<and> short (norm_fqn (enclosing_decl_fqn n)))"

lemma relabel_room: "room_for_prefix g \<Longrightarrow> room_for_prefix (relabel rename (\<lambda>s. s) g)"
  by (auto simp: room_for_prefix_def relabel_def relabelled_def dest: set_zip_rightD)

lemma slice_graph_room:
  assumes "valid_cpg g" and "room_for_prefix g" and "w \<noteq> []" and "set w \<subseteq> set (ids g)"
  shows "room_for_prefix (slice_graph g w)"
proof -
  have "cone g w \<subseteq> set (ids g)" by (rule cone_in_ids [OF assms(1,4,3)])
  then have "room_for_prefix (induced (cone g w) g)"
    using assms(2) node_by_id_in finite_subset [of "cone g w"]
    by (auto simp: room_for_prefix_def induced_def)
  then show ?thesis unfolding slice_graph_def by (rule relabel_room)
qed

lemma anonymized_small: "small_cpg g \<Longrightarrow> small_cpg (anonymized g)"
  by (rule relabel_small) (auto simp: new_fields_def small_cpg_def valid_cpg_def node_ok_def label_fields_def
      anonymous_name_def short_def)

lemma alpha_usable:
  assumes "small_cpg g" and "room_for_prefix g" and "usable b"
  shows "(\<exists>b'. alpha_rename_locals H g b = (Inl BudgetExhausted, b') \<and> usable b') \<or>
    (\<exists>out b'. alpha_rename_locals H g b = (Inr out, b') \<and> usable b' \<and> small_cpg out \<and> room_for_prefix out)"
proof (cases "list_ex is_identifier (nodes g)")
  case False
  with assms show ?thesis by (simp add: alpha_run small_cpg_def)
next
  case True
  have val: "valid_cpg g" using assms(1) by (simp add: small_cpg_def)
  from order_run_usable [OF anonymized_small [OF assms(1)] assms(3)] obtain r b' where
    r: "canonical_order_run H (anonymized g) b = (Inr r, b')" "usable b'" by blast
  show ?thesis
  proof (cases "fingerprint_class_of r = Strong")
    case False
    with True r val show ?thesis by (simp add: alpha_run m_bind_run)
  next
    case st: True
    then obtain out where out: "alpha_rename_locals H g b = (Inr out, b')"
      using True r val by (simp add: alpha_run m_bind_run)
    have "small_cpg out \<and> room_for_prefix out"
      using val out
    proof (cases rule: alpha_Inr)
      case (2 q)
      note q = alpha_order [OF val 2(2)]
      show ?thesis unfolding 2(4)
        using relabel_small [OF assms(1) renamed_short [OF val q(2,3)]] relabel_room [OF assms(2)] by blast
    qed (use assms in auto)
    with out r(2) show ?thesis by blast
  qed
qed

lemma fqn_normalise_small:
  assumes "small_cpg g" and "room_for_prefix g"
  shows "small_cpg (fqn_normalise g)"
proof -
  have "valid_cpg g" using assms(1) by (simp add: small_cpg_def)
  then show ?thesis
    unfolding fqn_normalise_relabel [OF \<open>valid_cpg g\<close>]
    using assms by (intro relabel_small)
      (auto simp: new_fields_def room_for_prefix_def valid_cpg_def node_ok_def label_fields_def)
qed

lemma check_usable: "usable b \<Longrightarrow> \<exists>b'. budget_check b = (Inr (), b') \<and> usable b'"
  by (rule prompt_usable [OF prompt_check])

lemma normalise_usable:
  assumes "small_cpg g" and "room_for_prefix g" and "usable b"
  shows "(\<exists>b'. normalise H g b = (Inl BudgetExhausted, b') \<and> usable b') \<or>
    (\<exists>n b'. normalise H g b = (Inr n, b') \<and> usable b' \<and> small_cpg n)"
proof -
  from check_usable [OF assms(3)] obtain b1 where b1: "budget_check b = (Inr (), b1)" "usable b1" by blast
  note unf = normalise_def NORMALISATION_PASSES_def drop_pdg_only_formatting_def
    canonical_topo_sort_def summary_inline_pure_extract_def
  from alpha_usable [OF assms(1,2) b1(2), of H] show ?thesis
  proof (elim disjE exE conjE)
    fix b' assume "alpha_rename_locals H g b1 = (Inl BudgetExhausted, b')" "usable b'"
    with b1(1) show ?thesis by (simp add: unf m_bind_run)
  next
    fix out b2 assume out: "alpha_rename_locals H g b1 = (Inr out, b2)" "usable b2" "small_cpg out" "room_for_prefix out"
    obtain b3 b4 b5 b6 where c: "budget_check b2 = (Inr (), b3)" "budget_check b3 = (Inr (), b4)"
      "budget_check b4 = (Inr (), b5)" "budget_check b5 = (Inr (), b6)" "usable b6"
      using check_usable out(2) by metis
    have "normalise H g b = (Inr (fqn_normalise out), b6)"
      using c b1(1) out(1) by (simp add: unf m_bind_run)
    with c(5) fqn_normalise_small [OF out(3,4)] show ?thesis by blast
  qed
qed

lemma strong_attempt_usable:
  assumes "small_cpg g" and "room_for_prefix g" and "usable b"
  shows "\<exists>x b'. strong_attempt H g b = (x, b') \<and> usable b' \<and> (x = Inl BudgetExhausted \<or> (\<exists>fp. x = Inr fp))"
  using normalise_usable [OF assms, of H]
proof (elim disjE exE conjE)
  fix b' assume "normalise H g b = (Inl BudgetExhausted, b')" "usable b'"
  then show ?thesis by (simp add: strong_attempt_def m_bind_run)
next
  fix n b1 assume n: "normalise H g b = (Inr n, b1)" "usable b1" "small_cpg n"
  from order_run_usable [OF n(3,2)] obtain r b2 where
    r: "canonical_order_run H n b1 = (Inr r, b2)" "usable b2" by blast
  have "prompt (content_hash H n (canonical_order_of r))
      (Inr (H (slice_domain @ encoding n (canonical_order_of r))))"
    unfolding content_hash_def
    by (rule prompt_eq [OF prompt_bind [OF prompt_encode prompt_return]])
      (simp add: encode_total [OF n(3) run_order(2,3) [OF r(1)]])
  from prompt_usable [OF this r(2)] obtain b3 where
    "content_hash H n (canonical_order_of r) b2 = (Inr (H (slice_domain @ encoding n (canonical_order_of r))), b3)"
    "usable b3" by blast
  with n(1) r show ?thesis by (cases "fingerprint_class_of r") (auto simp: strong_attempt_def m_bind_run)
qed

lemma legacy_hash_total:
  assumes "small_cpg g" and "w \<noteq> []" and "set w \<subseteq> set (ids g)"
  shows "\<exists>h. witness_edge_sequence_hash H (map (pos (induced (cone g w) g)) w) = Inr h"
proof -
  let ?I = "induced (cone g w) g"
  have val: "valid_cpg g" using assms(1) by (simp add: small_cpg_def)
  have sub: "cone g w \<subseteq> set (ids g)" by (rule cone_in_ids [OF val assms(3,2)])
  have "length (ids ?I) < 2 ^ 64" using induced_small [OF assms(1) sub] by (simp add: small_cpg_def ids_length)
  moreover have "index_of (ids ?I) v < length (ids ?I)" if "v \<in> set w" for v
    by (rule index_of_less) (use that induced_set [OF sub] in \<open>auto simp: cone_def\<close>)
  ultimately have "index_of (ids ?I) v < 2 ^ 64" if "v \<in> set w" for v
    using that less_trans by blast
  then have "pos ?I v < 2 ^ 64" if "v \<in> set w" for v
    using that unfolding pos_def by simp
  then have "r_map to_bytes8 (map (pos ?I) w) = Inr (map (\<lambda>v. be8 (nat v)) (map (pos ?I) w))"
    by (intro r_map_total) (auto simp: to_bytes8_def pos_def)
  then show ?thesis by (simp add: witness_edge_sequence_hash_def)
qed

section \<open>The slice\<close>

text \<open>
  C26. The slice is the backward cone. On a valid graph and a witness of its nodes the slicer
  returns; its nodes correspond one to one to the witness nodes and the nodes from which the
  last witness node is reachable along CFG, CALL and PDG edges; node labels are kept, the edges
  are exactly those of the graph between such nodes, of every kind and multiplicity, and the
  witness is carried over position by position.
\<close>

theorem slice_is_cone:
  assumes "valid_cpg g" and "w \<noteq> []" and "set w \<subseteq> set (ids g)"
  shows "\<exists>sl f. backward_interprocedural_slice g w = Inr sl \<and>
    bij_betw f (set w \<union> {v. (v, last w) \<in> (dataflow g)\<^sup>*}) (set (ids (slice_cpg sl))) \<and>
    (\<forall>v \<in> set w \<union> {v. (v, last w) \<in> (dataflow g)\<^sup>*}.
       label_fields (node_by_id (slice_cpg sl) (f v)) = label_fields (node_by_id g v)) \<and>
    edge_triples (slice_cpg sl) = image_mset (\<lambda>(k, s, d). (k, f s, f d))
      (filter_mset (\<lambda>(k, s, d). s \<in> cone g w \<and> d \<in> cone g w) (edge_triples g)) \<and>
    slice_witness sl = map f w"
proof -
  let ?I = "induced (cone g w) g"
  have sub: "cone g w \<subseteq> set (ids g)" by (rule cone_in_ids [OF assms(1,3,2)])
  have "graph_iso (pos ?I) ?I (slice_graph g w)" by (rule slice_graph_map [OF assms])
  then show ?thesis
    unfolding slice_runs [OF assms] cone_def [symmetric]
    by (intro exI [of _ "\<lparr>slice_cpg = slice_graph g w, slice_witness = map (pos ?I) w\<rparr>"] exI [of _ "pos ?I"])
      (auto simp: graph_iso_def induced_set [OF sub] induced_node [OF sub] induced_triples)
qed

definition branch_graph :: cpg where
  "branch_graph = \<lparr>nodes = [sample_node 0 ''A'', sample_node 1 ''B'', sample_node 2 ''C'', sample_node 3 ''D''],
     edges = [\<lparr>src = 0, dst = 1, ekind = ''CFG''\<rparr>, \<lparr>src = 2, dst = 1, ekind = ''PDG''\<rparr>,
       \<lparr>src = 1, dst = 3, ekind = ''CFG''\<rparr>]\<rparr>"

lemma branch_graph_valid: "valid_cpg branch_graph"
  by (simp add: valid_cpg_def branch_graph_def ids_def node_ok_def edge_ok_def sample_node_def
      label_fields_def short_def)

theorem slice_is_cone_witness:
  "\<exists>sl. backward_interprocedural_slice branch_graph [0, 1] = Inr sl \<and> (2, 1) \<in> dataflow branch_graph \<and>
     (\<exists>v \<in> set (ids (slice_cpg sl)). label_fields (node_by_id (slice_cpg sl) v) = (''C'', [], [], []))"
proof -
  have e: "(2, 1) \<in> dataflow branch_graph" by (force simp: dataflow_def branch_graph_def)
  have w: "set [0, 1] \<subseteq> set (ids branch_graph)" by (simp add: branch_graph_def ids_def sample_node_def)
  have l: "label_fields (node_by_id branch_graph 2) = (''C'', [], [], [])"
    by (simp add: branch_graph_def node_by_id_def dget_def sample_node_def label_fields_def)
  let ?C = "set [0, 1] \<union> {v. (v, last [0, 1]) \<in> (dataflow branch_graph)\<^sup>*}"
  obtain sl f where sl: "backward_interprocedural_slice branch_graph [0, 1] = Inr sl"
    and bij: "bij_betw f ?C (set (ids (slice_cpg sl)))"
    and lab: "\<forall>v \<in> ?C. label_fields (node_by_id (slice_cpg sl) (f v)) = label_fields (node_by_id branch_graph v)"
    using slice_is_cone [OF branch_graph_valid _ w] by blast
  have two: "2 \<in> ?C" using e by auto
  then have "f 2 \<in> set (ids (slice_cpg sl))" by (rule bij_betwE [OF bij, rule_format])
  moreover have "label_fields (node_by_id (slice_cpg sl) (f 2)) = (''C'', [], [], [])"
    using bspec [OF lab two] l by simp
  ultimately show ?thesis using sl e by blast
qed

section \<open>Refactorings and fingerprints\<close>

text \<open>
  C8. Strong fingerprints survive the renaming of locals. If a graph is renumbered and
  reordered and the texts of its identifier nodes are changed at will, and the witness is
  renumbered along, two strong fingerprints are equal, whatever the budgets, the clocks and
  the source digests were.
\<close>

theorem fingerprint_local_rename_invariant:
  assumes "local_renaming f g h"
    and "compute H clk B T g w d = Inr r" and "fp_class r = Strong"
    and "compute H clk' B' T' h (map f w) d' = Inr r'" and "fp_class r' = Strong"
  shows "slice_fingerprint r = slice_fingerprint r'"
proof -
  obtain sl where g: "valid_cpg g" "backward_interprocedural_slice g w = Inr sl"
    by (rule compute_Inr [OF assms(2)])
  have h: "valid_cpg h" by (rule compute_Inr [OF assms(4)])
  note w = slice_Inr(1,2) [OF g]
  from slices_agree [OF local_renaming_map [OF assms(1)] g(1) h w] obtain k where
    k: "graph_map k anon anon (slice_graph g w) (slice_graph h (map f w))" by blast
  have w': "map f w \<noteq> []" "set (map f w) \<subseteq> set (ids h)"
    using w local_renaming_map [OF assms(1)] by (auto simp: graph_map_def bij_betw_def)
  show ?thesis
    by (rule strong_fingerprints_agree [OF assms(2-5)])
      (rule normal_forms_local [OF k slice_graph_valid [OF g(1) w] slice_graph_valid [OF h w']])
qed

text \<open>Two identifiers in two procedures, with the package of the first as a parameter.\<close>

definition two_locals :: "string \<Rightarrow> string \<Rightarrow> cpg" where
  "two_locals pkg name = \<lparr>nodes =
     [\<lparr>node_id = 0, kind = ''IDENTIFIER'', operator_or_literal = name, resolved_fqn = [],
       enclosing_decl_fqn = pkg @ ''.f'', structural_path = []\<rparr>,
      \<lparr>node_id = 1, kind = ''IDENTIFIER'', operator_or_literal = ''y'', resolved_fqn = [],
       enclosing_decl_fqn = ''b.g'', structural_path = []\<rparr>],
     edges = [\<lparr>src = 0, dst = 1, ekind = ''CFG''\<rparr>]\<rparr>"

definition run_locals :: "string \<Rightarrow> string \<Rightarrow> slice_fingerprint_result res" where
  "run_locals pkg name = compute id (\<lambda>_. 0) 10 1 (two_locals pkg name) [0, 1] None"

lemma run_locals_strong:
  "\<exists>r. run_locals ''a'' ''x'' = Inr r \<and> fp_class r = Strong"
  "\<exists>r. run_locals ''a'' ''z'' = Inr r \<and> fp_class r = Strong"
  "\<exists>r. run_locals ''c'' ''x'' = Inr r \<and> fp_class r = Strong"
proof -
  have "case run_locals ''a'' ''x'' of Inr r \<Rightarrow> fp_class r = Strong | Inl _ \<Rightarrow> False" by code_simp
  then show "\<exists>r. run_locals ''a'' ''x'' = Inr r \<and> fp_class r = Strong" by (auto split: sum.splits)
  have "case run_locals ''a'' ''z'' of Inr r \<Rightarrow> fp_class r = Strong | Inl _ \<Rightarrow> False" by code_simp
  then show "\<exists>r. run_locals ''a'' ''z'' = Inr r \<and> fp_class r = Strong" by (auto split: sum.splits)
  have "case run_locals ''c'' ''x'' of Inr r \<Rightarrow> fp_class r = Strong | Inl _ \<Rightarrow> False" by code_simp
  then show "\<exists>r. run_locals ''c'' ''x'' = Inr r \<and> fp_class r = Strong" by (auto split: sum.splits)
qed

theorem fingerprint_local_rename_invariant_witness:
  "map_sum id slice_fingerprint (compute id (\<lambda>_. 0) 10 1 (two_locals ''a'' ''x'') [0, 1] None) =
   map_sum id slice_fingerprint (compute id (\<lambda>_. 0) 10 1 (two_locals ''a'' ''z'') [0, 1] None)"
proof -
  have "local_renaming id (two_locals ''a'' ''x'') (two_locals ''a'' ''z'')"
    by (simp add: local_renaming_def two_locals_def ids_def node_by_id_def dget_def edge_triples_def)
  note inv = fingerprint_local_rename_invariant [OF this, of id "\<lambda>_. 0" 10 1 "[0, 1]" None _ "\<lambda>_. 0" 10 1 None, simplified]
  obtain r r' where "compute id (\<lambda>_. 0) 10 1 (two_locals ''a'' ''x'') [0, 1] None = Inr r" "fp_class r = Strong"
    "compute id (\<lambda>_. 0) 10 1 (two_locals ''a'' ''z'') [0, 1] None = Inr r'" "fp_class r' = Strong"
    using run_locals_strong(1,2) unfolding run_locals_def by blast
  then show ?thesis using inv [of r r'] by simp
qed

text \<open>
  C28. Strong fingerprints survive package renames when the slice has no identifiers. If the
  package prefixes of qualified names are changed at will and the graph is renumbered and
  reordered, and no node of the slice is an identifier, two strong fingerprints are equal.
\<close>

theorem fingerprint_package_rename_invariant:
  assumes "package_renaming f g h" and "\<forall>v \<in> cone g w. kind (node_by_id g v) \<noteq> ''IDENTIFIER''"
    and "compute H clk B T g w d = Inr r" and "fp_class r = Strong"
    and "compute H clk' B' T' h (map f w) d' = Inr r'" and "fp_class r' = Strong"
  shows "slice_fingerprint r = slice_fingerprint r'"
proof -
  obtain sl where g: "valid_cpg g" "backward_interprocedural_slice g w = Inr sl"
    by (rule compute_Inr [OF assms(3)])
  have h: "valid_cpg h" by (rule compute_Inr [OF assms(5)])
  note w = slice_Inr(1,2) [OF g]
  from slices_agree [OF package_renaming_map [OF assms(1)] g(1) h w] obtain k where
    k: "graph_map k (pkg_fields \<circ> label_fields) (pkg_fields \<circ> label_fields)
      (slice_graph g w) (slice_graph h (map f w))" by blast
  have w': "map f w \<noteq> []" "set (map f w) \<subseteq> set (ids h)"
    using w package_renaming_map [OF assms(1)] by (auto simp: graph_map_def bij_betw_def)
  have "finite (cone g w)" by (rule finite_subset [OF cone_in_ids [OF g(1) w(2,1)]]) simp
  then have "\<not> list_ex is_identifier (nodes (slice_graph g w))"
    using assms(2) by (auto simp: slice_graph_def relabel_def relabelled_def induced_def list_ex_iff
        is_identifier_def dest!: set_zip_rightD)
  with normal_forms_package [OF k slice_graph_valid [OF g(1) w] slice_graph_valid [OF h w']]
  show ?thesis by (intro strong_fingerprints_agree [OF assms(3-6)]) blast
qed

definition two_calls :: "string \<Rightarrow> cpg" where
  "two_calls pkg = \<lparr>nodes =
     [\<lparr>node_id = 0, kind = ''CALL'', operator_or_literal = ''read'', resolved_fqn = pkg @ ''.read'',
       enclosing_decl_fqn = pkg @ ''.f'', structural_path = []\<rparr>,
      \<lparr>node_id = 1, kind = ''CALL'', operator_or_literal = ''exec'', resolved_fqn = [],
       enclosing_decl_fqn = ''b.g'', structural_path = []\<rparr>],
     edges = [\<lparr>src = 0, dst = 1, ekind = ''CFG''\<rparr>]\<rparr>"

lemma run_calls_strong:
  "\<exists>r. compute id (\<lambda>_. 0) 10 1 (two_calls ''a'') [0, 1] None = Inr r \<and> fp_class r = Strong"
  "\<exists>r. compute id (\<lambda>_. 0) 10 1 (two_calls ''c'') [0, 1] None = Inr r \<and> fp_class r = Strong"
proof -
  have "case compute id (\<lambda>_. 0) 10 1 (two_calls ''a'') [0, 1] None of
      Inr r \<Rightarrow> fp_class r = Strong | Inl _ \<Rightarrow> False" by code_simp
  then show "\<exists>r. compute id (\<lambda>_. 0) 10 1 (two_calls ''a'') [0, 1] None = Inr r \<and> fp_class r = Strong"
    by (auto split: sum.splits)
  have "case compute id (\<lambda>_. 0) 10 1 (two_calls ''c'') [0, 1] None of
      Inr r \<Rightarrow> fp_class r = Strong | Inl _ \<Rightarrow> False" by code_simp
  then show "\<exists>r. compute id (\<lambda>_. 0) 10 1 (two_calls ''c'') [0, 1] None = Inr r \<and> fp_class r = Strong"
    by (auto split: sum.splits)
qed

theorem fingerprint_package_rename_invariant_witness:
  "map_sum id slice_fingerprint (compute id (\<lambda>_. 0) 10 1 (two_calls ''a'') [0, 1] None) =
   map_sum id slice_fingerprint (compute id (\<lambda>_. 0) 10 1 (two_calls ''c'') [0, 1] None)"
proof -
  have pr: "package_renaming id (two_calls ''a'') (two_calls ''c'')"
    by (simp add: package_renaming_def two_calls_def ids_def node_by_id_def dget_def edge_triples_def terminal_def)
  have "cone (two_calls ''a'') [0, 1] \<subseteq> set (ids (two_calls ''a''))"
    by (rule cone_in_ids) (simp_all add: two_calls_def valid_cpg_def ids_def node_ok_def edge_ok_def
        label_fields_def short_def)
  then have "\<forall>v \<in> cone (two_calls ''a'') [0, 1]. kind (node_by_id (two_calls ''a'') v) \<noteq> ''IDENTIFIER''"
    by (auto simp: two_calls_def ids_def node_by_id_def dget_def)
  note inv = fingerprint_package_rename_invariant
    [OF pr this, of id "\<lambda>_. 0" 10 1 None _ "\<lambda>_. 0" 10 1 None, simplified]
  obtain r r' where "compute id (\<lambda>_. 0) 10 1 (two_calls ''a'') [0, 1] None = Inr r" "fp_class r = Strong"
    "compute id (\<lambda>_. 0) 10 1 (two_calls ''c'') [0, 1] None = Inr r'" "fp_class r' = Strong"
    using run_calls_strong by blast
  then show ?thesis using inv [of r r'] by simp
qed

text \<open>
  A package rename can change a strong fingerprint. Locals are numbered along a canonical
  order of the graph that still carries the package names, before these are removed; so
  renaming the package of one of two procedures swaps the numbers of their locals. The two
  graphs are a package renaming of each other, both fingerprints are strong, and the hashed
  bytes (the hash is taken to be the identity here) differ.
\<close>

theorem package_rename_changes_fingerprint:
  "package_renaming id (two_locals ''a'' ''x'') (two_locals ''c'' ''x'') \<and>
   (\<exists>r r'. compute id (\<lambda>_. 0) 10 1 (two_locals ''a'' ''x'') [0, 1] None = Inr r \<and> fp_class r = Strong \<and>
      compute id (\<lambda>_. 0) 10 1 (two_locals ''c'' ''x'') [0, 1] None = Inr r' \<and> fp_class r' = Strong \<and>
      slice_fingerprint r \<noteq> slice_fingerprint r')"
proof -
  have pr: "package_renaming id (two_locals ''a'' ''x'') (two_locals ''c'' ''x'')"
    by (simp add: package_renaming_def two_locals_def ids_def node_by_id_def dget_def edge_triples_def terminal_def)
  have "map_sum id slice_fingerprint (run_locals ''a'' ''x'') \<noteq> map_sum id slice_fingerprint (run_locals ''c'' ''x'')"
    by code_simp
  with pr run_locals_strong(1,3) show ?thesis unfolding run_locals_def by fastforce
qed

section \<open>Results and errors\<close>

text \<open>
  What a fingerprint result says of itself. A returned result is eligible for baseline
  suppression exactly when it is strong; it is weak exactly when it reports an exhausted budget;
  its annotation and policy are the constants of the ordering module. Without a source
  digest a weak result carries the legacy namespace and the hash of the witness as positions in
  the slice; with one it carries the source-scoped namespace.
\<close>

theorem fingerprint_result_shape:
  assumes "compute H clk B T g w d = Inr r"
  shows "(eligible_for_baseline_suppression r \<longleftrightarrow> fp_class r = Strong) \<and>
    (fp_budget_exhausted r \<longleftrightarrow> fp_class r = Weak) \<and>
    fp_annotation r = CPG_ORDER_HASH_ANNOTATION \<and> fp_budget_policy r = BUDGET_POLICY \<and>
    fp_namespace r = (if fp_class r = Strong then SLICE_IDENTITY_NAMESPACE
      else if d = None then LEGACY_WITNESS_NAMESPACE else SOURCE_WITNESS_NAMESPACE) \<and>
    (fp_class r = Weak \<and> d = None \<longrightarrow>
      (\<exists>sl. backward_interprocedural_slice g w = Inr sl \<and>
         witness_edge_sequence_hash H (slice_witness sl) = Inr (slice_fingerprint r)))"
proof (rule compute_Inr [OF assms])
  fix sl b b'
  assume sl: "backward_interprocedural_slice g w = Inr sl"
    and r: "fp_budget_exhausted r \<longleftrightarrow> fp_class r = Weak" "fp_annotation r = CPG_ORDER_HASH_ANNOTATION"
      "fp_budget_policy r = BUDGET_POLICY"
    and c: "fp_class r = Strong \<and> fp_namespace r = SLICE_IDENTITY_NAMESPACE \<and>
       strong_attempt H (slice_cpg sl) b = (Inr (slice_fingerprint r), b') \<or>
     fp_class r = Weak \<and> d = None \<and> fp_namespace r = LEGACY_WITNESS_NAMESPACE \<and>
       witness_edge_sequence_hash H (slice_witness sl) = Inr (slice_fingerprint r) \<or>
     fp_class r = Weak \<and> d \<noteq> None \<and> fp_namespace r = SOURCE_WITNESS_NAMESPACE"
  from c show ?thesis
    using sl r by (elim disjE conjE) (auto simp: eligible_for_baseline_suppression_def)
qed

theorem fingerprint_result_shape_witness:
  "case run_locals ''a'' ''x'' of Inl e \<Rightarrow> False
   | Inr r \<Rightarrow> eligible_for_baseline_suppression r \<and> fp_namespace r = SLICE_IDENTITY_NAMESPACE"
proof -
  obtain r where r: "run_locals ''a'' ''x'' = Inr r" "fp_class r = Strong" using run_locals_strong(1) by blast
  from fingerprint_result_shape [OF r(1) [unfolded run_locals_def]] r show ?thesis by simp
qed

text \<open>
  C27. The source-less entry point is total. On a graph below the size limits, with a positive
  state limit and a deadline that is not reached, it raises \<open>EmptyWitness\<close> for an empty witness,
  \<open>WitnessNotInCPG\<close> for the first witness node the graph does not have, and returns a result in
  every other case: exhaustion at any stage is recovered by the witness hash.
\<close>

theorem fingerprint_total:
  assumes "small_cpg g" and "room_for_prefix g" and "B > 0" and "\<forall>k. clk k - clk 0 < T"
  shows "(w = [] \<longrightarrow> compute_slice_fingerprint H clk B T g w = Inl EmptyWitness) \<and>
    (\<forall>v. find (\<lambda>v. v \<notin> set (ids g)) w = Some v \<longrightarrow>
       compute_slice_fingerprint H clk B T g w = Inl (WitnessNotInCPG v)) \<and>
    (w \<noteq> [] \<and> set w \<subseteq> set (ids g) \<longrightarrow> (\<exists>r. compute_slice_fingerprint H clk B T g w = Inr r))"
proof -
  have "0 < T" using assms(4) by (metis diff_self)
  have val: "valid_cpg g" using assms(1) by (simp add: small_cpg_def)
  let ?b = "\<lparr>state_limit = nat B, duration = T, clock = clk, started_at = clk 0, search_states = 0, ticks = 1\<rparr>"
  have start: "compute_slice_fingerprint H clk B T g w = fst (compute_run H g w None ?b)"
    using assms(3) \<open>0 < T\<close>
    by (simp add: compute_slice_fingerprint_def compute_def budget_start_def duration_seconds_def)
  have ub: "usable ?b" using assms(4) by (simp add: usable_def never_expires_def)
  have "prompt (validate_cpg g) (Inr ())" using prompt_validate [of g] check_cpg_Inr [of g "()"] val by simp
  from prompt_usable [OF this ub] obtain b1 where b1: "validate_cpg g ?b = (Inr (), b1)" "usable b1" by blast
  have err: "compute_slice_fingerprint H clk B T g w = Inl e"
    if "backward_interprocedural_slice g w = Inl e" for e
    unfolding start compute_run_def using b1(1) that by (simp add: m_bind_run)
  have "compute_slice_fingerprint H clk B T g w = Inl EmptyWitness" if "w = []"
    by (rule err) (simp add: backward_interprocedural_slice_def that)
  moreover have "compute_slice_fingerprint H clk B T g w = Inl (WitnessNotInCPG v)"
    if "find (\<lambda>v. v \<notin> set (ids g)) w = Some v" for v
    by (rule err) (use that in \<open>auto simp: backward_interprocedural_slice_def witness_missing\<close>)
  moreover have "\<exists>r. compute_slice_fingerprint H clk B T g w = Inr r" if ne: "w \<noteq> []" and sub: "set w \<subseteq> set (ids g)"
  proof -
    let ?sl = "\<lparr>slice_cpg = slice_graph g w, slice_witness = map (pos (induced (cone g w) g)) w\<rparr>"
    from check_usable [OF b1(2)] obtain b2 where b2: "budget_check b1 = (Inr (), b2)" "usable b2" by blast
    from strong_attempt_usable [OF slice_graph_small [OF assms(1) ne sub] slice_graph_room [OF val assms(2) ne sub] b2(2), of H]
    obtain x b3 where x: "strong_attempt H (slice_graph g w) b2 = (x, b3)" "usable b3"
      "x = Inl BudgetExhausted \<or> (\<exists>fp. x = Inr fp)" by blast
    obtain h where h: "witness_edge_sequence_hash H (slice_witness ?sl) = Inr h"
      using legacy_hash_total [OF assms(1) ne sub, of H] by auto
    from check_usable [OF x(2)] obtain b4 where b4: "budget_check b3 = (Inr (), b4)" "usable b4" by blast
    obtain y b5 where y: "fingerprint_or_weak H ?sl None b2 = (Inr y, b5)" "usable b5"
      using x b4 h by (auto simp: fingerprint_or_weak_def m_bind_run)
    obtain ms b6 where b6: "elapsed_ms b5 = (Inr ms, b6)" "usable b6"
      using y(2) by (auto simp: elapsed_ms_def read_clock_def m_bind_run usable_def never_expires_def)
    from check_usable [OF b6(2)] obtain b7 where b7: "budget_check b6 = (Inr (), b7)" by blast
    from b1(1) b2(1) y(1) b6(1) b7 show ?thesis
      unfolding start compute_run_def source_weak_of_def
      by (cases y) (simp add: m_bind_run slice_runs [OF val ne sub])
  qed
  ultimately show ?thesis by blast
qed

theorem fingerprint_total_witness:
  "compute_slice_fingerprint id (\<lambda>_. 0) 10 1 branch_graph [] = Inl EmptyWitness \<and>
   compute_slice_fingerprint id (\<lambda>_. 0) 10 1 branch_graph [0, 9] = Inl (WitnessNotInCPG 9) \<and>
   (\<exists>r. compute_slice_fingerprint id (\<lambda>_. 0) 10 1 branch_graph [0, 1] = Inr r)"
proof -
  have sm: "small_cpg branch_graph"
    using branch_graph_valid by (simp add: small_cpg_def) (simp add: branch_graph_def)
  have room: "room_for_prefix branch_graph"
    by (simp add: room_for_prefix_def branch_graph_def sample_node_def norm_fqn_def short_def)
  note tot = fingerprint_total [OF sm room, of 10 "\<lambda>_. 0" 1]
  have "find (\<lambda>v. v \<notin> set (ids branch_graph)) [0, 9] = Some 9" "set [0, 1] \<subseteq> set (ids branch_graph)"
    by (simp_all add: branch_graph_def ids_def sample_node_def)
  with tot [of "[]" id] tot [of "[0, 9]" id] tot [of "[0, 1]" id] show ?thesis by simp
qed

end
