(* ===== verification/Artifact_Identity.thy ===== *)
theory Artifact_Identity
  imports Prelude
begin

text \<open>
  \<open>analysis/artifact_identity.py\<close>: the descriptor of one computed artifact (the canonical
  graph hash or the slice fingerprint) and its reading from findings and from decoded
  metadata.

  The inputs are Python objects of unknown type, so they are values of \<open>pyval\<close>; the keys of a
  dictionary are strings. A constructed descriptor is a typed record, because the constructor
  \<open>mk_artifact\<close> (\<open>__post_init__\<close>) refuses every ill-typed field. Messages that interpolate the
  \<open>repr\<close> of a value keep their literal part.
\<close>

section \<open>Python values\<close>

datatype pyval =
    PNone
  | PBool bool
  | PInt int
  | PStr string
  | PBytes bytes
  | PList "pyval list"
  | PDict "(string \<times> pyval) list"

text \<open>\<open>bool(v)\<close>, and whether \<open>hash(v)\<close> is defined, which membership in a \<open>set\<close> needs.\<close>

fun truthy :: "pyval \<Rightarrow> bool" where
  "truthy PNone = False"
| "truthy (PBool b) = b"
| "truthy (PInt i) = (i \<noteq> 0)"
| "truthy (PStr s) = (s \<noteq> [])"
| "truthy (PBytes s) = (s \<noteq> [])"
| "truthy (PList xs) = (xs \<noteq> [])"
| "truthy (PDict d) = (d \<noteq> [])"

fun hashable :: "pyval \<Rightarrow> bool" where
  "hashable (PList xs) = False"
| "hashable (PDict d) = False"
| "hashable v = True"

definition in_str_set :: "pyval \<Rightarrow> string list \<Rightarrow> bool res" where
  "in_str_set v xs = (if hashable v then Inr (v \<in> set (map PStr xs)) else Inl TypeError)"

definition popt :: "string option \<Rightarrow> pyval" where
  "popt x = (case x of None \<Rightarrow> PNone | Some s \<Rightarrow> PStr s)"

lemma popt_simps [simp]: "popt None = PNone" "popt (Some s) = PStr s"
  by (simp_all add: popt_def)

lemma popt_inj [simp]: "popt x = popt y \<longleftrightarrow> x = y"
  by (cases x; cases y) simp_all

section \<open>The descriptor\<close>

definition ANNOTATION :: string where
  "ANNOTATION = ''canonical iff fingerprint_class = strong''"

definition GRAPH_V2 :: string where
  "GRAPH_V2 = ''scanipy-canonical-graph/2''"

definition SLICE_V2 :: string where
  "SLICE_V2 = ''scanipy-slice-normal-form/2''"

definition STATES :: "string list" where
  "STATES = [''completed'', ''pending'', ''running'', ''failed'', ''not-applicable'', ''legacy-ambiguous'']"

text \<open>\<open>_SHA256.fullmatch\<close>: 64 lower-case hexadecimal characters.\<close>

definition is_sha256_hex :: "string \<Rightarrow> bool" where
  "is_sha256_hex s = (length s = 64 \<and> list_all is_hex s)"

record artifact_identity =
  ai_status :: string
  ai_digest :: "string option"
  ai_class :: "string option"
  ai_namespace :: "string option"

text \<open>\<open>ArtifactIdentity(status, digest, fingerprint_class, namespace)\<close> with \<open>__post_init__\<close>.\<close>

definition digest_ok :: "pyval \<Rightarrow> bool" where
  "digest_ok d = (case d of PNone \<Rightarrow> True | PStr s \<Rightarrow> is_sha256_hex s | _ \<Rightarrow> False)"

definition as_str :: "pyval \<Rightarrow> string" where
  "as_str v = (case v of PStr s \<Rightarrow> s | _ \<Rightarrow> [])"

definition as_opt :: "pyval \<Rightarrow> string option" where
  "as_opt v = (case v of PStr s \<Rightarrow> Some s | _ \<Rightarrow> None)"

definition check_completed :: "pyval \<Rightarrow> pyval \<Rightarrow> pyval \<Rightarrow> unit res" where
  "check_completed d c n =
     r_bind (if d = PNone then Inr False else in_str_set c [''strong'', ''weak'']) (\<lambda>classed.
     r_then (r_check ''completed artifact requires its digest and independent class'' classed)
       (r_check ''completed artifact requires its algorithm namespace''
         (case n of PStr s \<Rightarrow> s \<noteq> [] | _ \<Rightarrow> False)))"

definition mk_artifact :: "pyval \<Rightarrow> pyval \<Rightarrow> pyval \<Rightarrow> pyval \<Rightarrow> artifact_identity res" where
  "mk_artifact s d c n =
     r_bind (in_str_set s STATES) (\<lambda>known.
     r_then (r_check ''unknown artifact status'' known)
     (r_then (r_check ''artifact digest must be 64 lowercase hexadecimal characters'' (digest_ok d))
     (r_then
       (if s = PStr ''completed'' then check_completed d c n
        else if c \<noteq> PNone \<or> n \<noteq> PNone
        then Inl (ValueError ''uncomputed/legacy artifact cannot assert a class or namespace'')
        else r_check ''uncomputed artifact cannot carry a computed digest''
          (s = PStr ''legacy-ambiguous'' \<or> d = PNone))
       (Inr \<lparr>ai_status = as_str s, ai_digest = as_opt d, ai_class = as_opt c,
             ai_namespace = as_opt n\<rparr>))))"

definition to_dict :: "artifact_identity \<Rightarrow> pyval" where
  "to_dict a = PDict
     [(''status'', PStr (ai_status a)), (''digest'', popt (ai_digest a)),
      (''fingerprint_class'', popt (ai_class a)), (''namespace'', popt (ai_namespace a)),
      (''annotation'', PStr ANNOTATION)]"

definition str_or_null :: "(string \<times> pyval) list \<Rightarrow> string \<Rightarrow> unit res" where
  "str_or_null d k =
     r_check (''artifact '' @ k @ '' must be a string or null'')
       (case dget d k of PNone \<Rightarrow> True | PStr s \<Rightarrow> True | _ \<Rightarrow> False)"

definition from_dict :: "pyval \<Rightarrow> artifact_identity res" where
  "from_dict v = (case v of
     PDict d \<Rightarrow>
       if set (map fst d) \<noteq> {''status'', ''digest'', ''fingerprint_class'', ''namespace'', ''annotation''}
       then Inl (ValueError ''invalid artifact descriptor shape'')
       else
         r_then (r_check ''artifact annotation must retain its exact scoped literal''
           (dget d ''annotation'' = PStr ANNOTATION))
         (r_then (r_each (str_or_null d) [''status'', ''digest'', ''fingerprint_class'', ''namespace''])
         (r_then (r_check ''artifact status is required''
           (case dget d ''status'' of PStr s \<Rightarrow> True | _ \<Rightarrow> False))
         (mk_artifact (dget d ''status'') (dget d ''digest'') (dget d ''fingerprint_class'')
           (dget d ''namespace''))))
   | _ \<Rightarrow> Inl (ValueError ''invalid artifact descriptor shape''))"

section \<open>Findings\<close>

text \<open>
  A finding is an object read by \<open>getattr(finding, name, default)\<close>: the association list of
  its attributes.
\<close>

type_synonym finding_attrs = "(string \<times> pyval) list"

definition getattr :: "finding_attrs \<Rightarrow> string \<Rightarrow> pyval \<Rightarrow> pyval" where
  "getattr f k v = (case map_of f k of None \<Rightarrow> v | Some w \<Rightarrow> w)"

text \<open>\<open>getattr(finding, digest_name, None) or None\<close>, with \<open>bytes\<close> turned into hexadecimal text.\<close>

definition digest_attr :: "finding_attrs \<Rightarrow> string \<Rightarrow> pyval" where
  "digest_attr f k =
     (let d = getattr f k PNone; d = (if truthy d then d else PNone)
      in case d of PBytes b \<Rightarrow> PStr (hex b) | _ \<Rightarrow> d)"

definition identity_from_finding :: "finding_attrs \<Rightarrow> int \<Rightarrow> string \<Rightarrow> string \<Rightarrow> artifact_identity res" where
  "identity_from_finding f version pre digest_name =
     (let digest = digest_attr f digest_name
      in if version = 1 then mk_artifact (PStr ''legacy-ambiguous'') digest PNone PNone
         else
           let class_name = (if pre = ''cpg_order'' then ''cpg_order_class'' else ''slice_fingerprint_class'')
           in mk_artifact (getattr f (pre @ ''_status'') (PStr ''legacy-ambiguous'')) digest
                (getattr f class_name PNone) (getattr f (pre @ ''_namespace'') PNone))"

definition identities_from_finding :: "finding_attrs \<Rightarrow> (artifact_identity \<times> artifact_identity) res" where
  "identities_from_finding f =
     (case getattr f ''identity_schema_version'' (PInt 1) of
        PInt v \<Rightarrow>
          if v = 1 \<or> v = 2 then
            r_bind (identity_from_finding f v ''cpg_order'' ''cpg_order_hash'') (\<lambda>g.
            r_bind (identity_from_finding f v ''slice'' ''slice_fingerprint'') (\<lambda>s.
            Inr (g, s)))
          else Inl (ValueError ''unsupported identity schema version'')
      | _ \<Rightarrow> Inl (ValueError ''unsupported identity schema version''))"

definition identity_metadata :: "finding_attrs \<Rightarrow> pyval res" where
  "identity_metadata f = r_bind (identities_from_finding f) (\<lambda>(g, s).
     Inr (PDict [(''schema_version'', PInt 2), (''cpg_order'', to_dict g), (''slice'', to_dict s)]))"

definition validate_identity_metadata :: "pyval \<Rightarrow> (artifact_identity \<times> artifact_identity) res" where
  "validate_identity_metadata v = (case v of
     PDict d \<Rightarrow>
       if set (map fst d) \<noteq> {''schema_version'', ''cpg_order'', ''slice''}
       then Inl (ValueError ''invalid identity metadata shape'')
       else if dget d ''schema_version'' \<noteq> PInt 2
       then Inl (ValueError ''unsupported identity metadata version'')
       else
         r_bind (from_dict (dget d ''cpg_order'')) (\<lambda>g.
         r_bind (from_dict (dget d ''slice'')) (\<lambda>s. Inr (g, s)))
   | _ \<Rightarrow> Inl (ValueError ''invalid identity metadata shape''))"

text \<open>The handler catches exactly \<open>ValueError\<close> and \<open>TypeError\<close>; nothing else can be raised there.\<close>

definition has_strong_v2_artifact_identities :: "finding_attrs \<Rightarrow> bool res" where
  "has_strong_v2_artifact_identities f = (case identities_from_finding f of
     Inl (ValueError m) \<Rightarrow> Inr False
   | Inl TypeError \<Rightarrow> Inr False
   | Inl e \<Rightarrow> Inl e
   | Inr (g, s) \<Rightarrow> Inr
       (ai_status g = ''completed'' \<and> ai_status s = ''completed''
        \<and> ai_class g = Some ''strong'' \<and> ai_class s = Some ''strong''
        \<and> ai_namespace g = Some GRAPH_V2 \<and> ai_namespace s = Some SLICE_V2))"

section \<open>What the constructor accepts\<close>

lemma in_str_set_Inr: "in_str_set v xs = Inr b \<longleftrightarrow> hashable v \<and> b = (v \<in> set (map PStr xs))"
  by (auto simp: in_str_set_def)

lemma in_str_set_str [simp]: "in_str_set (PStr s) xs = Inr (s \<in> set xs)"
  by (auto simp: in_str_set_def)

text \<open>
  An accepted descriptor: the fields as they were given, a known status, a well-formed digest;
  class and namespace exactly on completed artifacts; a digest on no uncomputed one.
\<close>

definition artifact_valid :: "artifact_identity \<Rightarrow> bool" where
  "artifact_valid a \<longleftrightarrow>
     ai_status a \<in> set STATES
     \<and> opt_all is_sha256_hex (ai_digest a)
     \<and> (if ai_status a = ''completed''
        then ai_digest a \<noteq> None \<and> (ai_class a = Some ''strong'' \<or> ai_class a = Some ''weak'')
          \<and> (case ai_namespace a of None \<Rightarrow> False | Some n \<Rightarrow> n \<noteq> [])
        else ai_class a = None \<and> ai_namespace a = None
          \<and> (ai_status a = ''legacy-ambiguous'' \<or> ai_digest a = None))"

lemma mk_artifact_Inr:
  assumes "mk_artifact s d c n = Inr a"
  shows "s = PStr (ai_status a)" and "d = popt (ai_digest a)" and "c = popt (ai_class a)"
    and "n = popt (ai_namespace a)" and "artifact_valid a"
proof -
  note m = assms [unfolded mk_artifact_def r_bind_Inr_iff, simplified]
  have "\<exists>t. s = PStr t \<and> t \<in> set STATES" using m by (auto simp: in_str_set_Inr)
  then obtain t where s: "s = PStr t" and t: "t \<in> set STATES" by blast
  have d: "d = PNone \<or> (\<exists>h. d = PStr h \<and> is_sha256_hex h)"
    using m by (auto simp: digest_ok_def split: pyval.splits)
  have cn: "if t = ''completed'' then d \<noteq> PNone \<and> (c = PStr ''strong'' \<or> c = PStr ''weak'') \<and> (\<exists>k. n = PStr k \<and> k \<noteq> [])
    else c = PNone \<and> n = PNone \<and> (t = ''legacy-ambiguous'' \<or> d = PNone)"
    using m by (auto simp: s check_completed_def r_bind_Inr_iff in_str_set_Inr split: if_splits pyval.splits)
  have a: "a = \<lparr>ai_status = as_str s, ai_digest = as_opt d, ai_class = as_opt c, ai_namespace = as_opt n\<rparr>"
    using m by auto
  show "s = PStr (ai_status a)" using s by (simp add: a as_str_def)
  show "d = popt (ai_digest a)" using d by (auto simp: a as_opt_def)
  show "c = popt (ai_class a)" using cn by (auto simp: a as_opt_def split: if_splits)
  show "n = popt (ai_namespace a)" using cn by (auto simp: a as_opt_def split: if_splits)
  show "artifact_valid a"
    using s t d cn by (auto simp: artifact_valid_def a as_opt_def as_str_def split: if_splits)
qed

lemma mk_artifact_valid:
  "artifact_valid a \<Longrightarrow>
   mk_artifact (PStr (ai_status a)) (popt (ai_digest a)) (popt (ai_class a)) (popt (ai_namespace a)) = Inr a"
  by (cases a) (auto simp: artifact_valid_def mk_artifact_def check_completed_def digest_ok_def popt_def
      as_str_def as_opt_def r_check_def r_then_def split: if_splits option.splits)

lemma mk_artifact_iff:
  "mk_artifact s d c n = Inr a \<longleftrightarrow>
     artifact_valid a \<and> s = PStr (ai_status a) \<and> d = popt (ai_digest a) \<and> c = popt (ai_class a)
     \<and> n = popt (ai_namespace a)"
  using mk_artifact_Inr [of s d c n a] mk_artifact_valid [of a] by auto

section \<open>Round trips\<close>

lemma case_popt [simp]:
  "(case popt x of PNone \<Rightarrow> True | PStr s \<Rightarrow> True | _ \<Rightarrow> False)"
  by (cases x) simp_all

lemma from_to_dict: "artifact_valid a \<Longrightarrow> from_dict (to_dict a) = Inr a"
  by (simp add: from_dict_def to_dict_def str_or_null_def dget_def r_check_def r_then_def mk_artifact_valid)

lemma identities_valid:
  assumes "identities_from_finding f = Inr (g, s)"
  shows "artifact_valid g" and "artifact_valid s"
  using assms by (auto simp: identities_from_finding_def identity_from_finding_def Let_def r_bind_Inr_iff
      mk_artifact_iff split: pyval.splits if_splits)

lemma from_dict_valid: "from_dict v = Inr a \<Longrightarrow> artifact_valid a"
  by (auto simp: from_dict_def mk_artifact_iff split: pyval.splits if_splits)

lemma validate_identity_metadata_valid:
  assumes "validate_identity_metadata v = Inr (g, s)"
  shows "artifact_valid g" and "artifact_valid s"
  using assms unfolding validate_identity_metadata_def
  by (auto simp only: r_bind_Inr_iff sum.inject prod.inject simp_thms
      split: pyval.splits if_splits intro: from_dict_valid)

text \<open>
  Round trip of identity metadata: whatever descriptor pair a finding yields, the metadata
  written for it validates and reads back as that same pair; and a single valid descriptor
  survives \<open>to_dict\<close> followed by \<open>from_dict\<close>. Conversely every descriptor that validates has its
  class and namespace exactly when it is completed, so reading never promotes an uncomputed or
  legacy artifact.
\<close>

theorem identity_metadata_roundtrip:
  "(artifact_valid a \<longrightarrow> from_dict (to_dict a) = Inr a)
   \<and> (identity_metadata f = Inr m \<longrightarrow>
        validate_identity_metadata m = identities_from_finding f)
   \<and> (validate_identity_metadata v = Inr (g, s) \<longrightarrow> artifact_valid g \<and> artifact_valid s)"
proof (intro conjI impI)
  assume "identity_metadata f = Inr m"
  then obtain g s where i: "identities_from_finding f = Inr (g, s)"
    and m: "m = PDict [(''schema_version'', PInt 2), (''cpg_order'', to_dict g), (''slice'', to_dict s)]"
    by (auto simp: identity_metadata_def r_bind_Inr_iff)
  show "validate_identity_metadata m = identities_from_finding f"
    using identities_valid [OF i] i by (simp add: m validate_identity_metadata_def dget_def from_to_dict)
qed (fact from_to_dict validate_identity_metadata_valid)+

definition strong_finding :: finding_attrs where
  "strong_finding =
     [(''identity_schema_version'', PInt 2),
      (''cpg_order_hash'', PBytes (replicate 32 (CHR 0xAB))), (''cpg_order_status'', PStr ''completed''),
      (''cpg_order_class'', PStr ''strong''), (''cpg_order_namespace'', PStr GRAPH_V2),
      (''slice_fingerprint'', PStr []), (''slice_status'', PStr ''pending'')]"

theorem identity_metadata_roundtrip_witness:
  "\<exists>m g s. identity_metadata strong_finding = Inr m
     \<and> validate_identity_metadata m = Inr (g, s)
     \<and> ai_class g = Some ''strong'' \<and> ai_status s = ''pending'' \<and> artifact_valid g
     \<and> from_dict (to_dict g) = Inr g"
proof -
  let ?g = "\<lparr>ai_status = ''completed'', ai_digest = Some (hex (replicate 32 (CHR 0xAB))),
             ai_class = Some ''strong'', ai_namespace = Some GRAPH_V2\<rparr>"
  let ?s = "\<lparr>ai_status = ''pending'', ai_digest = None, ai_class = None, ai_namespace = None\<rparr>"
  have "is_sha256_hex (hex (replicate 32 (CHR 0xAB)))"
    by (simp add: is_sha256_hex_def list_all_iff is_hex_hex)
  moreover have "hex (replicate 32 (CHR 0xAB)) \<noteq> []" by (simp add: hex_def)
  ultimately have i: "identities_from_finding strong_finding = Inr (?g, ?s)"
    by (simp add: identities_from_finding_def identity_from_finding_def strong_finding_def getattr_def
        digest_attr_def mk_artifact_iff artifact_valid_def STATES_def GRAPH_V2_def Let_def r_bind_Inr_iff)
  then have m: "identity_metadata strong_finding = Inr (PDict
      [(''schema_version'', PInt 2), (''cpg_order'', to_dict ?g), (''slice'', to_dict ?s)])"
    by (simp add: identity_metadata_def)
  show ?thesis
    using identity_metadata_roundtrip [of ?g strong_finding _ _ ?g ?s] i m by auto
qed

end
