(* ===== verification/Json.thy ===== *)
theory Json
  imports Prelude
begin

text \<open>
  \<open>json.dumps(value, sort_keys=True, separators=(",", ":"), ensure_ascii=False)\<close> on the values
  that the hashed payloads of \<open>services/scan/continuity.py\<close> and the control documents of
  \<open>analysis/ifds/bound_rules.py\<close> hold: \<open>None\<close>, booleans, integers, strings, tuples and lists,
  and dictionaries with string keys. Neither has floating-point numbers.

  The rendering is a prefix code up to the order of dictionary entries, so a hash of it binds
  the value.
\<close>

datatype json =
    JNull
  | JBool bool
  | JInt int
  | JStr string
  | JArr "json list"
  | JObj "(string \<times> json) list"

text \<open>An optional text, with \<open>None\<close> as null.\<close>

definition jopt :: "string option \<Rightarrow> json" where
  "jopt x = (case x of None \<Rightarrow> JNull | Some s \<Rightarrow> JStr s)"

lemma jopt_inj [simp]: "jopt x = jopt y \<longleftrightarrow> x = y"
  by (auto simp: jopt_def split: option.splits)

text \<open>Escapes of the encoder: the quote, the backslash, and control characters below 0x20.\<close>

definition json_escape :: "char \<Rightarrow> string" where
  "json_escape c =
     (if c = CHR 0x22 then [CHR 0x5C, CHR 0x22]
      else if c = CHR 0x5C then [CHR 0x5C, CHR 0x5C]
      else if c = CHR 0x0A then [CHR 0x5C, CHR ''n'']
      else if c = CHR 0x0D then [CHR 0x5C, CHR ''r'']
      else if c = CHR 0x09 then [CHR 0x5C, CHR ''t'']
      else if c = CHR 0x0C then [CHR 0x5C, CHR ''f'']
      else if c = CHR 0x08 then [CHR 0x5C, CHR ''b'']
      else if of_char c < (32 :: nat)
      then [CHR 0x5C, CHR ''u'', CHR ''0'', CHR ''0'', hex_digit (of_char c div 16), hex_digit (of_char c mod 16)]
      else [c])"

definition json_quote :: "string \<Rightarrow> string" where
  "json_quote s = CHR 0x22 # concat (map json_escape s) @ [CHR 0x22]"

text \<open>The items of an array or object, separated by commas and closed by a bracket.\<close>

fun json_items :: "char \<Rightarrow> string list \<Rightarrow> string" where
  "json_items close [] = [close]"
| "json_items close [x] = x @ [close]"
| "json_items close (x # y # ys) = x @ CHR '','' # json_items close (y # ys)"

fun dumps :: "json \<Rightarrow> string" where
  "dumps JNull = ''null''"
| "dumps (JBool b) = (if b then ''true'' else ''false'')"
| "dumps (JInt i) = int_text i"
| "dumps (JStr s) = json_quote s"
| "dumps (JArr xs) = CHR ''['' # json_items CHR '']'' (map dumps xs)"
| "dumps (JObj kvs) = CHR ''{'' # json_items CHR ''}''
     (map (\<lambda>(k, t). json_quote k @ CHR '':'' # t)
       (sort_key fst (map (\<lambda>(k, v). (k, dumps v)) kvs)))"

section \<open>Entries in sorted order\<close>

fun sort_keys :: "json \<Rightarrow> json" where
  "sort_keys (JArr xs) = JArr (map sort_keys xs)"
| "sort_keys (JObj kvs) = JObj (sort_key fst (map (\<lambda>(k, v). (k, sort_keys v)) kvs))"
| "sort_keys j = j"

fun dumps_plain :: "json \<Rightarrow> string" where
  "dumps_plain JNull = ''null''"
| "dumps_plain (JBool b) = (if b then ''true'' else ''false'')"
| "dumps_plain (JInt i) = int_text i"
| "dumps_plain (JStr s) = json_quote s"
| "dumps_plain (JArr xs) = CHR ''['' # json_items CHR '']'' (map dumps_plain xs)"
| "dumps_plain (JObj kvs) = CHR ''{'' # json_items CHR ''}''
     (map (\<lambda>(k, v). json_quote k @ CHR '':'' # dumps_plain v) kvs)"

lemma insort_key_map_pair:
  "insort_key fst (k, f v) (map (\<lambda>(k, v). (k, f v)) kvs) = map (\<lambda>(k, v). (k, f v)) (insort_key fst (k, v) kvs)"
  by (induction kvs) auto

lemma sort_key_map_pair:
  "sort_key fst (map (\<lambda>(k, v). (k, f v)) kvs) = map (\<lambda>(k, v). (k, f v)) (sort_key fst kvs)"
  by (induction kvs) (auto simp: insort_key_map_pair)

lemma dumps_sort_keys: "dumps j = dumps_plain (sort_keys j)"
proof (induction j rule: dumps.induct)
  case (6 kvs)
  then show ?case by (auto simp: sort_key_map_pair intro!: arg_cong [where f = "json_items (CHR ''}'')"])
qed (simp_all cong: map_cong)

section \<open>The rendering is a prefix code\<close>

lemma json_escape_nonempty [simp]: "json_escape c \<noteq> []"
  by (simp add: json_escape_def)

lemma json_escape_start: "json_escape c @ r \<noteq> CHR 0x22 # s"
  by (simp add: json_escape_def)

lemma json_escape_prefix:
  assumes "json_escape c @ r = json_escape d @ s"
  shows "c = d \<and> r = s"
proof -
  have "c = d" if "hex_digit (of_char c div 16) = hex_digit (of_char d div 16)"
    and "hex_digit (of_char c mod 16) = hex_digit (of_char d mod 16)"
  proof -
    have "of_char c = (of_char d :: nat)"
      by (rule div_mod_eq_step [of _ 16]) (use that in \<open>auto dest!: hex_digit_inj\<close>)
    then show ?thesis by (simp add: of_char_eq_iff)
  qed
  with assms show ?thesis by (auto simp: json_escape_def split: if_splits)
qed

lemma concat_escape_prefix:
  "concat (map json_escape s) @ CHR 0x22 # r = concat (map json_escape t) @ CHR 0x22 # u \<Longrightarrow> s = t \<and> r = u"
proof (induction s arbitrary: t)
  case Nil
  then show ?case
    by (cases t) (simp_all add: json_escape_start [symmetric])
next
  case (Cons c s)
  show ?case
  proof (cases t)
    case Nil
    then show ?thesis
      using Cons.prems by (simp add: json_escape_start)
  next
    case (Cons d t')
    with Cons.prems have "json_escape c @ concat (map json_escape s) @ CHR 0x22 # r
        = json_escape d @ concat (map json_escape t') @ CHR 0x22 # u"
      by simp
    from json_escape_prefix [OF this] Cons.IH [of t'] show ?thesis by (simp add: Cons)
  qed
qed

lemma json_quote_prefix: "json_quote s @ r = json_quote t @ u \<Longrightarrow> s = t \<and> r = u"
  by (rule concat_escape_prefix) (simp add: json_quote_def)

text \<open>A numeral ends at the first character that is not a digit.\<close>

definition num_stop :: "string \<Rightarrow> bool" where
  "num_stop r = (r = [] \<or> \<not> is_digit (hd r))"

lemma num_stop_simps [simp]: "num_stop []" "num_stop (c # r) \<longleftrightarrow> \<not> is_digit c"
  by (simp_all add: num_stop_def)

lemma not_digit_simps [simp]:
  "\<not> is_digit (CHR '','')" "\<not> is_digit (CHR '']'')" "\<not> is_digit (CHR ''}'')" "\<not> is_digit (CHR ''['')"
  "\<not> is_digit (CHR ''{'')" "\<not> is_digit (CHR 0x22)" "\<not> is_digit (CHR ''n'')" "\<not> is_digit (CHR ''t'')"
  "\<not> is_digit (CHR ''f'')" "\<not> is_digit (CHR '':'')"
  by (simp_all add: is_digit_def)

lemma take_digits: "(\<And>c. c \<in> set ds \<Longrightarrow> is_digit c) \<Longrightarrow> num_stop r \<Longrightarrow> takeWhile is_digit (ds @ r) = ds"
  by (cases r) (simp_all add: takeWhile_append2)

lemma drop_digits: "(\<And>c. c \<in> set ds \<Longrightarrow> is_digit c) \<Longrightarrow> num_stop r \<Longrightarrow> dropWhile is_digit (ds @ r) = r"
  by (cases r) (simp_all add: dropWhile_append2)

lemma int_text_head: "int_text i @ r = c # s \<Longrightarrow> c = CHR ''-'' \<or> is_digit c"
  using decimal_digits [of _ "nat i"] by (cases "decimal (nat i)") (auto simp: int_text_def split: if_splits)

lemma int_text_prefix:
  assumes "int_text i @ r = int_text j @ s" and "num_stop r" and "num_stop s"
  shows "i = j \<and> r = s"
proof -
  have body: "m = n \<and> r = s" if "decimal m @ r = decimal n @ s" for m n
  proof -
    have "takeWhile is_digit (decimal m @ r) = decimal m" "takeWhile is_digit (decimal n @ s) = decimal n"
      by (rule take_digits, erule decimal_digits, rule assms)+
    then have eq: "decimal m = decimal n" using that by simp
    from arg_cong [OF this, of digits_value] have "m = n" by simp
    with that show ?thesis by simp
  qed
  have sign: "decimal m @ r \<noteq> CHR ''-'' # u" "CHR ''-'' # u \<noteq> decimal m @ r" for m r u
    using decimal_digits [of "CHR ''-''" m] by (cases "decimal m"; auto)+
  consider "i < 0" "j < 0" | "\<not> i < 0" "\<not> j < 0"
    using assms(1) by (cases "i < 0"; cases "j < 0") (simp_all add: int_text_def sign)
  then show ?thesis
  proof cases
    case 1
    then have "decimal (nat (- i)) @ r = decimal (nat (- j)) @ s" using assms(1) by (simp add: int_text_def)
    from body [OF this] 1 show ?thesis by (auto simp: nat_eq_iff)
  next
    case 2
    then have "decimal (nat i) @ r = decimal (nat j) @ s" using assms(1) by (simp add: int_text_def)
    from body [OF this] 2 show ?thesis by (auto simp: nat_eq_iff)
  qed
qed

text \<open>
  A list of items renders as a prefix code when each item does and none starts with the closing
  bracket.
\<close>

lemma json_items_prefix:
  assumes "json_items close (map f xs) @ r = json_items close (map f ys) @ s"
    and "\<And>x y r s. x \<in> set xs \<Longrightarrow> y \<in> set ys \<Longrightarrow> f x @ r = f y @ s \<Longrightarrow> num_stop r \<Longrightarrow> num_stop s \<Longrightarrow> x = y \<and> r = s"
    and "\<And>x. f x \<noteq> [] \<and> hd (f x) \<noteq> close" and "close \<noteq> CHR '',''" and "\<not> is_digit close"
  shows "xs = ys \<and> r = s"
  using assms(1,2)
proof (induction xs arbitrary: ys)
  case Nil
  have start: "close # v \<noteq> f z @ u" for z u v
    using assms(3) [of z] by (cases "f z") auto
  show ?case
    using Nil.prems(1) start by (cases ys; cases "tl ys") auto
next
  case (Cons x xs)
  have start: "f z @ u \<noteq> close # v" for z u v
    using assms(3) [of z] by (cases "f z") auto
  obtain y ys' where ys: "ys = y # ys'"
    using Cons.prems(1) start by (cases ys; cases xs) auto
  let ?rest = "\<lambda>zs u. if zs = [] then close # u else CHR '','' # json_items close (map f zs) @ u"
  have split: "json_items close (map f (z # zs)) @ u = f z @ ?rest zs u" for z zs u
    by (cases zs) simp_all
  have stop: "num_stop (?rest zs u)" for zs u
    using assms(5) by simp
  have eq: "f x @ ?rest xs r = f y @ ?rest ys' s"
    using Cons.prems(1) unfolding ys split .
  have "x = y" and rest: "?rest xs r = ?rest ys' s"
    using Cons.prems(2) [OF _ _ eq stop stop] by (simp_all add: ys)
  moreover have "xs = ys' \<and> r = s"
  proof (cases "xs = []")
    case True
    then show ?thesis using rest assms(4) by (auto split: if_splits)
  next
    case False
    then have "json_items close (map f xs) @ r = json_items close (map f ys') @ s"
      using rest assms(4) by (auto split: if_splits)
    then show ?thesis
      by (rule Cons.IH) (rule Cons.prems(2), simp_all add: ys)
  qed
  ultimately show ?case by (simp add: ys)
qed

text \<open>
  The rendering for any way to write strings. A way to write strings that is a prefix code on some
  texts makes the rendering a prefix code on the values whose strings are such texts.
\<close>

fun render :: "(string \<Rightarrow> string) \<Rightarrow> json \<Rightarrow> string" where
  "render quote JNull = ''null''"
| "render quote (JBool b) = (if b then ''true'' else ''false'')"
| "render quote (JInt i) = int_text i"
| "render quote (JStr s) = quote s"
| "render quote (JArr xs) = CHR ''['' # json_items CHR '']'' (map (render quote) xs)"
| "render quote (JObj kvs) = CHR ''{'' # json_items CHR ''}''
     (map (\<lambda>(k, v). quote k @ CHR '':'' # render quote v) kvs)"

text \<open>Every string and key of a value satisfies a predicate.\<close>

fun json_strings :: "(string \<Rightarrow> bool) \<Rightarrow> json \<Rightarrow> bool" where
  "json_strings P (JStr s) \<longleftrightarrow> P s"
| "json_strings P (JArr xs) \<longleftrightarrow> (\<forall>x \<in> set xs. json_strings P x)"
| "json_strings P (JObj kvs) \<longleftrightarrow> (\<forall>(k, v) \<in> set kvs. P k \<and> json_strings P v)"
| "json_strings P _ \<longleftrightarrow> True"

lemma sort_keys_strings: "json_strings P (sort_keys j) \<longleftrightarrow> json_strings P j"
  by (induction j rule: sort_keys.induct) auto

lemma json_strings_all [simp]: "json_strings (\<lambda>_. True) j"
  by (induction j) (auto split: prod.splits)

locale quoting =
  fixes quote :: "string \<Rightarrow> string" and good :: "string \<Rightarrow> bool"
  assumes quote_start: "\<exists>t. quote s = CHR 0x22 # t"
    and quote_prefix: "good s \<Longrightarrow> good t \<Longrightarrow> quote s @ r = quote t @ u \<Longrightarrow> s = t \<and> r = u"
begin

lemma quote_not: "c \<noteq> CHR 0x22 \<Longrightarrow> quote s @ r \<noteq> c # u"
  using quote_start [of s] by auto

lemma render_start: "render quote j \<noteq> [] \<and> hd (render quote j) \<notin> {CHR '']'', CHR ''}'', CHR '',''}"
proof (cases j)
  case (JInt i)
  then show ?thesis
    using int_text_head [of i "[]"] by (cases "int_text i") (auto simp: int_text_def split: if_splits)
next
  case (JStr s)
  then show ?thesis using quote_start [of s] by auto
qed auto

text \<open>The first character tells the kind of a value.\<close>

lemma render_kinds:
  "render quote k @ s = CHR 0x22 # u \<Longrightarrow> \<exists>t. k = JStr t"
  "render quote k @ s = CHR ''['' # u \<Longrightarrow> \<exists>xs. k = JArr xs"
  "render quote k @ s = CHR ''{'' # u \<Longrightarrow> \<exists>kvs. k = JObj kvs"
  "render quote k @ s = CHR ''n'' # u \<Longrightarrow> k = JNull"
  "render quote k @ s = CHR ''t'' # u \<Longrightarrow> k = JBool True"
  "render quote k @ s = CHR ''f'' # u \<Longrightarrow> k = JBool False"
  by (cases k; auto simp: quote_not split: if_splits dest: int_text_head)+

lemma render_kind_int:
  assumes "int_text i @ r = render quote k @ s"
  obtains j where "k = JInt j"
proof (cases k)
  case (JStr t)
  with assms quote_start [of t] have "int_text i @ r = CHR 0x22 # (tl (quote t) @ s)" by auto
  from int_text_head [OF this] show ?thesis by simp
qed (use assms that in \<open>auto split: if_splits dest: int_text_head\<close>)

lemma render_prefix:
  "render quote j @ r = render quote k @ s \<Longrightarrow> json_strings good j \<Longrightarrow> json_strings good k \<Longrightarrow> num_stop r \<Longrightarrow> num_stop s \<Longrightarrow> j = k \<and> r = s"
proof (induction j arbitrary: k r s rule: dumps_plain.induct)
  case 1
  then have "render quote k @ s = CHR ''n'' # ''ull'' @ r" by simp
  then have "k = JNull" by (rule render_kinds(4))
  with 1 show ?case by simp
next
  case (2 b)
  have "render quote k @ s = (if b then CHR ''t'' else CHR ''f'') # (if b then ''rue'' else ''alse'') @ r"
    using 2(1) by auto
  then have "k = JBool b"
    by (cases b) (auto dest: render_kinds(5,6))
  with 2 show ?case by simp
next
  case (3 i)
  then obtain j where "k = JInt j" by (auto elim: render_kind_int)
  with 3 show ?case by (auto dest: int_text_prefix)
next
  case (4 t)
  then have "render quote k @ s = CHR 0x22 # tl (quote t) @ r"
    using quote_start [of t] by auto
  from render_kinds(1) [OF this] obtain u where "k = JStr u" ..
  with 4 show ?case by (auto dest: quote_prefix)
next
  case (5 xs)
  then have "render quote k @ s = CHR ''['' # json_items CHR '']'' (map (render quote) xs) @ r" by simp
  from render_kinds(2) [OF this] obtain ys where k: "k = JArr ys" ..
  have "json_items CHR '']'' (map (render quote) xs) @ r = json_items CHR '']'' (map (render quote) ys) @ s"
    using 5(2) by (simp add: k)
  then have "xs = ys \<and> r = s"
    by (rule json_items_prefix [of "CHR '']''" "render quote"])
      (use 5(1,3,4) render_start k in auto)
  then show ?case by (simp add: k)
next
  case (6 kvs)
  let ?f = "\<lambda>(k, v). quote k @ CHR '':'' # render quote v"
  from 6(2) have "render quote k @ s = CHR ''{'' # json_items CHR ''}'' (map ?f kvs) @ r" by simp
  from render_kinds(3) [OF this] obtain lws where k: "k = JObj lws" ..
  have step: "x = y \<and> r = s"
    if x: "x \<in> set kvs" and y: "y \<in> set lws" and eq: "?f x @ r = ?f y @ s" and stops: "num_stop r" "num_stop s" for x y r s
  proof -
    obtain a v b w where xy: "x = (a, v)" "y = (b, w)" by (cases x; cases y)
    have texts: "good a" "good b" "json_strings good v" "json_strings good w"
      using 6(3,4) x y by (auto simp: xy k)
    have "quote a @ CHR '':'' # render quote v @ r = quote b @ CHR '':'' # render quote w @ s"
      using eq by (simp add: xy)
    from quote_prefix [OF texts(1,2) this] show ?thesis
      using 6(1) [OF x [unfolded xy] refl _ texts(3,4) stops] by (auto simp: xy)
  qed
  have "?f x \<noteq> [] \<and> hd (?f x) \<noteq> CHR ''}''" for x
    using quote_start [of "fst x"] by (cases x) auto
  moreover have "json_items CHR ''}'' (map ?f kvs) @ r = json_items CHR ''}'' (map ?f lws) @ s"
    using 6(2) by (simp add: k)
  ultimately have "kvs = lws \<and> r = s"
    by (intro json_items_prefix [of "CHR ''}''" ?f]) (simp, erule (4) step, simp_all)
  then show ?case by (simp add: k)
qed

end

interpretation json_code: quoting json_quote "\<lambda>_. True"
  by unfold_locales (simp add: json_quote_def, erule json_quote_prefix)

lemma dumps_plain_render: "dumps_plain j = render json_quote j"
  by (induction j rule: dumps_plain.induct) (auto intro!: arg_cong [where f = "json_items _"] map_cong)

lemma dumps_inj: "dumps j = dumps k \<Longrightarrow> sort_keys j = sort_keys k"
  using json_code.render_prefix [of "sort_keys j" "[]" "sort_keys k" "[]"] by (simp add: dumps_sort_keys dumps_plain_render)

section \<open>Objects with the same fields\<close>

text \<open>
  Two objects with the same distinct keys in the same order, as the payloads of one class are,
  agree up to sorting exactly when their values do.
\<close>

lemma sort_keys_obj:
  assumes "map fst kvs = map fst lws" and "distinct (map fst kvs)"
  shows "sort_keys (JObj kvs) = sort_keys (JObj lws) \<longleftrightarrow> map (sort_keys \<circ> snd) kvs = map (sort_keys \<circ> snd) lws"
    (is "?l \<longleftrightarrow> ?r")
proof
  assume ?r
  then have "map (\<lambda>(k, v). (k, sort_keys v)) kvs = map (\<lambda>(k, v). (k, sort_keys v)) lws"
    using assms(1) by (intro nth_equalityI) (auto simp: list_eq_iff_nth_eq case_prod_beta)
  then show ?l by simp
next
  let ?n = "map (\<lambda>(k, v). (k, sort_keys v))"
  assume ?l
  then have "set (sort_key fst (?n kvs)) = set (sort_key fst (?n lws))" by (simp only: sort_keys.simps json.inject)
  then have eq: "set (?n kvs) = set (?n lws)" by (simp only: set_sort)
  show ?r
  proof (rule nth_equalityI)
    show len: "length (map (sort_keys \<circ> snd) kvs) = length (map (sort_keys \<circ> snd) lws)"
      using assms(1) by (metis length_map)
    fix i assume i: "i < length (map (sort_keys \<circ> snd) kvs)"
    have fsti: "fst (kvs ! i) = fst (lws ! i)"
      using assms(1) i len by (metis length_map nth_map)
    have d: "distinct (map fst (?n lws))"
      using assms by (simp add: comp_def case_prod_beta)
    have "(fst (kvs ! i), sort_keys (snd (kvs ! i))) \<in> set (?n lws)"
      unfolding eq [symmetric] using i by (force simp: case_prod_beta in_set_conv_nth)
    moreover have "(fst (kvs ! i), sort_keys (snd (lws ! i))) \<in> set (?n lws)"
      unfolding fsti using i len by (force simp: case_prod_beta in_set_conv_nth)
    ultimately have "sort_keys (snd (kvs ! i)) = sort_keys (snd (lws ! i))"
      by (rule eq_key_imp_eq_value [OF d])
    then show "map (sort_keys \<circ> snd) kvs ! i = map (sort_keys \<circ> snd) lws ! i"
      using i len by simp
  qed
qed

end
