(* ===== verification/Continuity.thy ===== *)
theory Continuity
  imports Artifact_Identity Json "HOL-Library.Sublist"
begin

text \<open>
  \<open>services/scan/continuity.py\<close>, first part: validated values, occurrences and detection
  inventories, and their digests.

  Every class of the module is a frozen dataclass whose \<open>__post_init__\<close> raises on a bad value. A
  class is a record here and its \<open>__post_init__\<close> a function \<open>check_\<dots>\<close> from the record to
  \<open>unit res\<close>, with the checks in the order of the code; an object exists exactly when its check
  returns. The \<open>isinstance\<close> and \<open>type(...) is\<close> tests hold by typing. Nested objects are themselves
  constructed, so \<open>wf_\<dots>\<close> says that a record and all records inside passed their checks.

  \<open>H\<close> is the SHA-256 function on byte strings; \<open>hashlib\<close> is a library.
\<close>

section \<open>Validated values\<close>

text \<open>
  The UTF-8 encodings of the characters that \<open>str.strip\<close> removes. The ones below 0x20 are
  control characters, which \<open>_text\<close> refuses with the same error anyway.
\<close>

definition py_spaces :: "string list" where
  "py_spaces =
     [[CHR 0x09], [CHR 0x0A], [CHR 0x0B], [CHR 0x0C], [CHR 0x0D], [CHR 0x1C], [CHR 0x1D], [CHR 0x1E],
      [CHR 0x1F], [CHR 0x20], [CHR 0xC2, CHR 0x85], [CHR 0xC2, CHR 0xA0], [CHR 0xE1, CHR 0x9A, CHR 0x80],
      [CHR 0xE2, CHR 0x80, CHR 0x80], [CHR 0xE2, CHR 0x80, CHR 0x81], [CHR 0xE2, CHR 0x80, CHR 0x82],
      [CHR 0xE2, CHR 0x80, CHR 0x83], [CHR 0xE2, CHR 0x80, CHR 0x84], [CHR 0xE2, CHR 0x80, CHR 0x85],
      [CHR 0xE2, CHR 0x80, CHR 0x86], [CHR 0xE2, CHR 0x80, CHR 0x87], [CHR 0xE2, CHR 0x80, CHR 0x88],
      [CHR 0xE2, CHR 0x80, CHR 0x89], [CHR 0xE2, CHR 0x80, CHR 0x8A], [CHR 0xE2, CHR 0x80, CHR 0xA8],
      [CHR 0xE2, CHR 0x80, CHR 0xA9], [CHR 0xE2, CHR 0x80, CHR 0xAF], [CHR 0xE2, CHR 0x81, CHR 0x9F],
      [CHR 0xE3, CHR 0x80, CHR 0x80]]"

text \<open>\<open>not value.strip()\<close>: nothing but white space.\<close>

function blank :: "string \<Rightarrow> bool" where
  "blank s =
     (s = [] \<or> (case find (\<lambda>w. prefix w s) py_spaces of
        None \<Rightarrow> False
      | Some w \<Rightarrow> blank (drop (length w) s)))"
  by pat_completeness auto
termination
proof (relation "measure length", simp, goal_cases)
  case (1 s w)
  then have "w \<in> set py_spaces" and "prefix w s" by (auto simp: find_Some_iff)
  then have "w \<noteq> []" and "length w \<le> length s" by (auto simp: py_spaces_def prefix_length_le)
  then show ?case by (cases w) auto
qed

declare blank.simps [simp del]

text \<open>\<open>len(value)\<close>: the bytes that do not continue a character.\<close>

definition py_len :: "string \<Rightarrow> nat" where
  "py_len s = length (filter (\<lambda>c. of_char c < (128 :: nat) \<or> 192 \<le> (of_char c :: nat)) s)"

definition is_text :: "string \<Rightarrow> bool" where
  "is_text s = (\<not> blank s \<and> py_len s \<le> 2048 \<and> \<not> list_ex (\<lambda>c. of_char c < (32 :: nat)) s)"

definition check_text :: "string \<Rightarrow> string \<Rightarrow> unit res" where
  "check_text field s = r_check (field @ '' must be nonempty bounded text without control characters'') (is_text s)"

text \<open>\<open>_SHA256.fullmatch\<close> of this module, which wants the \<open>sha256:\<close> prefix.\<close>

definition is_digest :: "string \<Rightarrow> bool" where
  "is_digest s = (take 7 s = ''sha256:'' \<and> is_sha256_hex (drop 7 s))"

definition check_digest :: "string \<Rightarrow> string \<Rightarrow> unit res" where
  "check_digest field s = r_check (field @ '' must be sha256:<64 lowercase hex>'') (is_digest s)"

definition is_revision_hex :: "string \<Rightarrow> bool" where
  "is_revision_hex s = (length s = 40 \<and> list_all is_hex s)"

definition check_revision :: "int \<Rightarrow> unit res" where
  "check_revision v = r_check ''revision must be a nonnegative integer'' (0 \<le> v)"

definition check_references :: "bool \<Rightarrow> string list \<Rightarrow> unit res" where
  "check_references required vs =
     r_then (r_check ''evidence/references must be a bounded immutable tuple''
       (\<not> (required \<and> vs = []) \<and> length vs \<le> 64))
     (r_then (r_each (check_text ''reference'') vs)
     (r_check ''duplicate evidence/reference'' (distinct vs)))"

definition hash_json :: "(bytes \<Rightarrow> bytes) \<Rightarrow> string \<Rightarrow> json \<Rightarrow> string" where
  "hash_json H ns j = ''sha256:'' @ hex (H (ns @ [CHR 0x0A] @ dumps j))"

section \<open>Cohorts, bindings and observations\<close>

record cohort_key =
  ck_org_id :: string
  ck_codebase_id :: string
  ck_repository_id :: string
  ck_lineage_id :: string
  ck_origin :: string
  ck_engine :: string
  ck_detector_id :: string
  ck_vulnerability_class :: string
  ck_language :: string
  ck_rule_semantic_digest :: string
  ck_s_version :: string

text \<open>\<open>asdict(cohort).items()\<close>\<close>

definition cohort_fields :: "cohort_key \<Rightarrow> (string \<times> string) list" where
  "cohort_fields c =
     [(''org_id'', ck_org_id c), (''codebase_id'', ck_codebase_id c),
      (''repository_id'', ck_repository_id c), (''lineage_id'', ck_lineage_id c),
      (''origin'', ck_origin c), (''engine'', ck_engine c), (''detector_id'', ck_detector_id c),
      (''vulnerability_class'', ck_vulnerability_class c), (''language'', ck_language c),
      (''rule_semantic_digest'', ck_rule_semantic_digest c), (''s_version'', ck_s_version c)]"

definition check_cohort :: "cohort_key \<Rightarrow> unit res" where
  "check_cohort c =
     r_then (r_each (\<lambda>(name, v). check_text name v) (cohort_fields c))
     (r_then (check_digest ''rule_semantic_digest'' (ck_rule_semantic_digest c))
     (r_check ''unknown finding origin'' (ck_origin c \<in> {''deterministic-core'', ''oracle-passthrough''})))"

record identity_binding =
  ib_identity_policy_digest :: string
  ib_model_profile :: string
  ib_normalization_profile :: string
  ib_budget_policy :: string
  ib_observed_full_environment_manifest_digest :: string
  ib_analysis_code_revision :: string
  ib_analysis_code_content_digest :: string

definition binding_fields :: "identity_binding \<Rightarrow> (string \<times> string) list" where
  "binding_fields b =
     [(''identity_policy_digest'', ib_identity_policy_digest b), (''model_profile'', ib_model_profile b),
      (''normalization_profile'', ib_normalization_profile b), (''budget_policy'', ib_budget_policy b),
      (''observed_full_environment_manifest_digest'', ib_observed_full_environment_manifest_digest b),
      (''analysis_code_revision'', ib_analysis_code_revision b),
      (''analysis_code_content_digest'', ib_analysis_code_content_digest b)]"

definition check_binding :: "identity_binding \<Rightarrow> unit res" where
  "check_binding b =
     r_then (r_each (\<lambda>(name, v). r_then (check_text name v)
         (r_check ''identity compatibility has no wildcard'' (CHR ''*'' \<notin> set v))) (binding_fields b))
     (r_then (r_each (check_digest ''identity binding digest'')
         [ib_identity_policy_digest b, ib_observed_full_environment_manifest_digest b,
          ib_analysis_code_content_digest b])
     (r_check ''analysis_code_revision must be 40 lowercase hex'' (is_revision_hex (ib_analysis_code_revision b))))"

record identity_observation =
  io_artifact :: artifact_identity
  io_evidence_refs :: "string list"
  io_failure_reason :: "string option"

definition check_observation :: "identity_observation \<Rightarrow> unit res" where
  "check_observation x =
     (let status = ai_status (io_artifact x) in
      r_then (check_references (status \<in> {''completed'', ''failed''}) (io_evidence_refs x))
      (r_then (case io_failure_reason x of None \<Rightarrow> Inr () | Some r \<Rightarrow> check_text ''identity failure reason'' r)
      (r_then (r_check ''failed identity requires its actual failure reason''
        (\<not> (status = ''failed'' \<and> io_failure_reason x = None)))
      (r_check ''completed identity cannot carry a failure reason''
        (\<not> (status = ''completed'' \<and> io_failure_reason x \<noteq> None))))))"

record occurrence_view =
  ov_occurrence_id :: string
  ov_scan_id :: string
  ov_capture_id :: string
  ov_source_tree_digest :: string
  ov_cohort :: cohort_key
  ov_raw_result_digest :: string
  ov_scan_local_sink_binding :: string
  ov_duplicate_ambiguity :: bool
  ov_graph :: identity_observation
  ov_sliced :: identity_observation
  ov_binding :: "identity_binding option"

definition check_occurrence :: "occurrence_view \<Rightarrow> unit res" where
  "check_occurrence v =
     r_then (r_each (check_text ''occurrence identifier'')
       [ov_occurrence_id v, ov_scan_id v, ov_capture_id v, ov_scan_local_sink_binding v])
     (r_then (check_digest ''source_tree_digest'' (ov_source_tree_digest v))
     (check_digest ''raw_result_digest'' (ov_raw_result_digest v)))"

section \<open>Payloads and digests\<close>

definition jstrs :: "string list \<Rightarrow> json" where
  "jstrs xs = JArr (map JStr xs)"

definition jfields :: "(string \<times> string) list \<Rightarrow> json" where
  "jfields kvs = JObj (map (\<lambda>(k, v). (k, JStr v)) kvs)"

text \<open>\<open>asdict\<close> of the nested classes; tuples become arrays.\<close>

definition artifact_asdict :: "artifact_identity \<Rightarrow> json" where
  "artifact_asdict a = JObj
     [(''status'', JStr (ai_status a)), (''digest'', jopt (ai_digest a)),
      (''fingerprint_class'', jopt (ai_class a)), (''namespace'', jopt (ai_namespace a))]"

definition observation_asdict :: "identity_observation \<Rightarrow> json" where
  "observation_asdict x = JObj
     [(''artifact'', artifact_asdict (io_artifact x)), (''evidence_refs'', jstrs (io_evidence_refs x)),
      (''failure_reason'', jopt (io_failure_reason x))]"

definition occurrence_asdict :: "occurrence_view \<Rightarrow> json" where
  "occurrence_asdict v = JObj
     [(''occurrence_id'', JStr (ov_occurrence_id v)), (''scan_id'', JStr (ov_scan_id v)),
      (''capture_id'', JStr (ov_capture_id v)), (''source_tree_digest'', JStr (ov_source_tree_digest v)),
      (''cohort'', jfields (cohort_fields (ov_cohort v))),
      (''raw_result_digest'', JStr (ov_raw_result_digest v)),
      (''scan_local_sink_binding'', JStr (ov_scan_local_sink_binding v)),
      (''duplicate_ambiguity'', JBool (ov_duplicate_ambiguity v)),
      (''graph'', observation_asdict (ov_graph v)), (''sliced'', observation_asdict (ov_sliced v)),
      (''binding'', case ov_binding v of None \<Rightarrow> JNull | Some b \<Rightarrow> jfields (binding_fields b))]"

definition occurrence_digest :: "(bytes \<Rightarrow> bytes) \<Rightarrow> occurrence_view \<Rightarrow> string" where
  "occurrence_digest H v = hash_json H ''scanipy-continuity-occurrence-view/1'' (occurrence_asdict v)"

record detection_inventory =
  di_scan_id :: string
  di_capture_id :: string
  di_source_tree_digest :: string
  di_cohort :: cohort_key
  di_detection_state :: string
  di_sealed :: bool
  di_sealed_occurrence_ids :: "string list"
  di_occurrences :: "occurrence_view list"
  di_evidence_refs :: "string list"
  di_content_digest :: string

text \<open>\<open>inventory_digest(...)\<close> takes every field but the digest itself; the record carries them.\<close>

definition inventory_payload :: "detection_inventory \<Rightarrow> json" where
  "inventory_payload i = JObj
     [(''scan_id'', JStr (di_scan_id i)), (''capture_id'', JStr (di_capture_id i)),
      (''source_tree_digest'', JStr (di_source_tree_digest i)),
      (''cohort'', jfields (cohort_fields (di_cohort i))),
      (''detection_state'', JStr (di_detection_state i)), (''sealed'', JBool (di_sealed i)),
      (''sealed_occurrence_ids'', jstrs (sort (di_sealed_occurrence_ids i))),
      (''occurrences'', JArr (map occurrence_asdict (sort_key ov_occurrence_id (di_occurrences i)))),
      (''evidence_refs'', jstrs (sort (di_evidence_refs i)))]"

definition inventory_digest :: "(bytes \<Rightarrow> bytes) \<Rightarrow> detection_inventory \<Rightarrow> string" where
  "inventory_digest H i = hash_json H ''scanipy-continuity-inventory/1'' (inventory_payload i)"

definition check_inventory :: "(bytes \<Rightarrow> bytes) \<Rightarrow> detection_inventory \<Rightarrow> unit res" where
  "check_inventory H i =
     r_then (r_each (check_text ''inventory identifier'') [di_scan_id i, di_capture_id i])
     (r_then (check_digest ''inventory source tree'' (di_source_tree_digest i))
     (r_then (check_digest ''inventory digest'' (di_content_digest i))
     (r_then (r_check ''unknown detection state''
       (di_detection_state i \<in> {''pending'', ''running'', ''completed'', ''failed''}))
     (r_then (check_references (di_sealed i) (di_evidence_refs i))
     (r_then (r_each (check_text ''sealed occurrence id'') (di_sealed_occurrence_ids i))
     (r_then (r_each (\<lambda>v. r_check ''occurrence is outside inventory scope/capture''
         (ov_scan_id v = di_scan_id i \<and> ov_capture_id v = di_capture_id i
          \<and> ov_source_tree_digest v = di_source_tree_digest i \<and> ov_cohort v = di_cohort i))
         (di_occurrences i))
     (let ids = map ov_occurrence_id (di_occurrences i) in
      r_then (r_check ''duplicate occurrence inventory entry''
        (distinct ids \<and> distinct (di_sealed_occurrence_ids i)))
      (r_then (r_check ''exact occurrence inventory mismatch'' (set ids = set (di_sealed_occurrence_ids i)))
      (r_check ''inventory content digest mismatch'' (di_content_digest i = inventory_digest H i))))))))))"

section \<open>Constructed objects\<close>

definition wf_observation :: "identity_observation \<Rightarrow> bool" where
  "wf_observation x \<longleftrightarrow> artifact_valid (io_artifact x) \<and> check_observation x = Inr ()"

definition wf_occurrence :: "occurrence_view \<Rightarrow> bool" where
  "wf_occurrence v \<longleftrightarrow> check_occurrence v = Inr () \<and> check_cohort (ov_cohort v) = Inr ()
     \<and> wf_observation (ov_graph v) \<and> wf_observation (ov_sliced v)
     \<and> opt_all (\<lambda>b. check_binding b = Inr ()) (ov_binding v)"

definition wf_inventory :: "(bytes \<Rightarrow> bytes) \<Rightarrow> detection_inventory \<Rightarrow> bool" where
  "wf_inventory H i \<longleftrightarrow> check_inventory H i = Inr () \<and> check_cohort (di_cohort i) = Inr ()
     \<and> list_all wf_occurrence (di_occurrences i)"

lemma check_text_ok [simp]: "check_text f s = Inr u \<longleftrightarrow> is_text s"
  by (simp add: check_text_def)

lemma check_digest_ok [simp]: "check_digest f s = Inr u \<longleftrightarrow> is_digest s"
  by (simp add: check_digest_def)

lemma check_revision_ok [simp]: "check_revision v = Inr u \<longleftrightarrow> 0 \<le> v"
  by (simp add: check_revision_def)

lemma wf_inventoryD:
  assumes "wf_inventory H i"
  shows "distinct (map ov_occurrence_id (di_occurrences i))"
    and "set (map ov_occurrence_id (di_occurrences i)) = set (di_sealed_occurrence_ids i)"
    and "v \<in> set (di_occurrences i) \<Longrightarrow> wf_occurrence v \<and> ov_cohort v = di_cohort i \<and> ov_scan_id v = di_scan_id i"
    and "is_text (di_scan_id i)" and "is_digest (di_content_digest i)"
    and "di_content_digest i = inventory_digest H i" and "check_cohort (di_cohort i) = Inr ()"
  using assms unfolding wf_inventory_def check_inventory_def Let_def
  by (simp_all add: list_all_iff) metis

text \<open>A SHA-256 hash is 32 bytes long, so the digests that the module computes are well formed.\<close>

lemma hash_json_is_digest: "length (H (ns @ [CHR 0x0A] @ dumps j)) = 32 \<Longrightarrow> is_digest (hash_json H ns j)"
  by (simp add: hash_json_def is_digest_def is_sha256_hex_def list_all_iff is_hex_hex)

section \<open>Payloads determine the records\<close>

lemma sort_keys_atoms [simp]:
  "sort_keys (jopt x) = jopt x" "sort_keys (jstrs xs) = jstrs xs"
  by (auto simp: jopt_def jstrs_def split: option.splits)

lemma jstrs_inj [simp]: "jstrs xs = jstrs ys \<longleftrightarrow> xs = ys"
  by (auto simp: jstrs_def inj_map_eq_map inj_def)

lemma jfields_eq:
  "map fst kvs = map fst lws \<Longrightarrow> distinct (map fst kvs) \<Longrightarrow>
   sort_keys (jfields kvs) = sort_keys (jfields lws) \<longleftrightarrow> map snd kvs = map snd lws"
  unfolding jfields_def
  by (subst sort_keys_obj) (auto simp: comp_def case_prod_beta list_eq_iff_nth_eq)

lemma cohort_json_eq [simp]:
  "sort_keys (jfields (cohort_fields c)) = sort_keys (jfields (cohort_fields d)) \<longleftrightarrow> c = d"
  by (subst jfields_eq) (auto simp: cohort_fields_def)

lemma binding_json_eq [simp]:
  "sort_keys (jfields (binding_fields c)) = sort_keys (jfields (binding_fields d)) \<longleftrightarrow> c = d"
  by (subst jfields_eq) (auto simp: binding_fields_def)

lemma artifact_json_eq [simp]:
  "sort_keys (artifact_asdict a) = sort_keys (artifact_asdict b) \<longleftrightarrow> a = b"
  unfolding artifact_asdict_def by (subst sort_keys_obj) auto

lemma observation_json_eq [simp]:
  "sort_keys (observation_asdict a) = sort_keys (observation_asdict b) \<longleftrightarrow> a = b"
  unfolding observation_asdict_def by (subst sort_keys_obj) auto

lemma binding_opt_json_eq [simp]:
  "sort_keys (case x of None \<Rightarrow> JNull | Some b \<Rightarrow> jfields (binding_fields b))
   = sort_keys (case y of None \<Rightarrow> JNull | Some b \<Rightarrow> jfields (binding_fields b)) \<longleftrightarrow> x = y"
proof -
  have "sort_keys (jfields kvs) \<noteq> JNull" for kvs by (simp add: jfields_def)
  from this this [symmetric] show ?thesis by (auto split: option.splits)
qed

lemma occurrence_json_eq [simp]:
  "sort_keys (occurrence_asdict a) = sort_keys (occurrence_asdict b) \<longleftrightarrow> a = b"
  unfolding occurrence_asdict_def by (subst sort_keys_obj) auto

lemma hash_json_eq:
  assumes "inj_on H {ns @ [CHR 0x0A] @ dumps j, ns @ [CHR 0x0A] @ dumps k}"
  shows "hash_json H ns j = hash_json H ns k \<longleftrightarrow> dumps j = dumps k"
proof
  assume "hash_json H ns j = hash_json H ns k"
  then have "H (ns @ [CHR 0x0A] @ dumps j) = H (ns @ [CHR 0x0A] @ dumps k)"
    by (simp add: hash_json_def) (erule hex_inj)
  with assms show "dumps j = dumps k" by (auto dest: inj_onD)
qed (simp add: hash_json_def)

section \<open>What the inventory digest binds\<close>

text \<open>Equality of inventories up to the order in which an adapter lists their rows.\<close>

definition same_inventory :: "detection_inventory \<Rightarrow> detection_inventory \<Rightarrow> bool" where
  "same_inventory i j \<longleftrightarrow>
     di_scan_id i = di_scan_id j \<and> di_capture_id i = di_capture_id j
     \<and> di_source_tree_digest i = di_source_tree_digest j \<and> di_cohort i = di_cohort j
     \<and> di_detection_state i = di_detection_state j \<and> di_sealed i = di_sealed j
     \<and> mset (di_sealed_occurrence_ids i) = mset (di_sealed_occurrence_ids j)
     \<and> mset (di_occurrences i) = mset (di_occurrences j)
     \<and> mset (di_evidence_refs i) = mset (di_evidence_refs j)"

lemma sort_eq_iff: "sort xs = sort ys \<longleftrightarrow> mset xs = mset (ys :: 'a::linorder list)"
  by (metis mset_sort sort_eq_of_mset)

lemma sort_key_eq_iff:
  assumes "distinct (map f xs)"
  shows "sort_key f xs = sort_key f ys \<longleftrightarrow> mset xs = mset ys"
proof
  assume "mset xs = mset ys"
  then show "sort_key f xs = sort_key f ys"
    by (intro sort_key_inj_key_eq) (use assms in \<open>simp_all add: distinct_map\<close>)
qed (metis mset_sort)

lemma occurrences_json_eq:
  "map (sort_keys \<circ> occurrence_asdict) xs = map (sort_keys \<circ> occurrence_asdict) ys \<longleftrightarrow> xs = ys"
  by (rule inj_map_eq_map) (simp add: inj_def)

lemma inventory_payload_eq:
  assumes "distinct (map ov_occurrence_id (di_occurrences i))"
  shows "sort_keys (inventory_payload i) = sort_keys (inventory_payload j) \<longleftrightarrow> same_inventory i j"
  unfolding inventory_payload_def same_inventory_def
  by (subst sort_keys_obj)
    (simp_all add: occurrences_json_eq sort_eq_iff sort_key_eq_iff [OF assms])

lemma dumps_payload_eq: "sort_keys j = sort_keys k \<longleftrightarrow> dumps j = dumps k"
  using dumps_inj dumps_sort_keys by metis

definition inventory_message :: "detection_inventory \<Rightarrow> bytes" where
  "inventory_message i = ''scanipy-continuity-inventory/1'' @ [CHR 0x0A] @ dumps (inventory_payload i)"

text \<open>
  The inventory digest binds the supplied content and nothing else: when SHA-256 does not
  collide on the two messages, two inventories with distinct occurrence ids have the same digest
  exactly when every field agrees, the sealed ids, occurrences (with all their nested fields) and
  evidence references up to the order of the rows.
\<close>

theorem inventory_digest_binds:
  assumes "distinct (map ov_occurrence_id (di_occurrences i))"
    and "inj_on H {inventory_message i, inventory_message j}"
  shows "inventory_digest H i = inventory_digest H j \<longleftrightarrow> same_inventory i j"
proof -
  have "inventory_digest H i = inventory_digest H j \<longleftrightarrow>
      dumps (inventory_payload i) = dumps (inventory_payload j)"
    unfolding inventory_digest_def
    by (rule hash_json_eq) (use assms(2) in \<open>simp add: inventory_message_def\<close>)
  then show ?thesis
    using inventory_payload_eq [OF assms(1)] dumps_payload_eq by simp
qed

section \<open>Sample objects\<close>

text \<open>Visible ASCII text is text; repeated hexadecimal digits are digests.\<close>

lemma py_len_le: "py_len s \<le> length s"
  by (simp add: py_len_def)

lemma ascii_text:
  assumes "s \<noteq> []" and "length s \<le> 2048" and "list_all (\<lambda>c. 33 \<le> (of_char c :: nat) \<and> of_char c < (128 :: nat)) s"
  shows "is_text s"
proof -
  have "\<not> prefix w s" if "w \<in> set py_spaces" for w
    using that assms(1,3) by (cases s) (auto simp: py_spaces_def)
  then have "find (\<lambda>w. prefix w s) py_spaces = None" by (simp add: find_None_iff)
  then have "\<not> blank s" using assms(1) by (simp add: blank.simps)
  then show ?thesis
    using assms(2,3) py_len_le [of s] by (auto simp: is_text_def list_all_iff list_ex_iff)
qed

lemma is_sha256_hex_replicate [simp]: "is_sha256_hex (replicate 64 c) = is_hex c"
  by (simp add: is_sha256_hex_def list_all_iff)


definition sample_hash :: "bytes \<Rightarrow> bytes" where
  "sample_hash m = replicate 32 (CHR 0x00)"

definition sample_digest :: string where
  "sample_digest = ''sha256:'' @ replicate 64 (CHR ''0'')"

lemma sample_digest_ok [simp]: "is_digest sample_digest"
  by (simp add: is_digest_def sample_digest_def is_hex_def)

lemma sample_digest_text [simp]: "is_text sample_digest" "CHR ''*'' \<notin> set sample_digest"
proof -
  show "is_text sample_digest" by (rule ascii_text) (simp_all add: sample_digest_def list_all_iff)
qed (simp add: sample_digest_def)

definition sample_cohort :: cohort_key where
  "sample_cohort = \<lparr>ck_org_id = ''o'', ck_codebase_id = ''c'', ck_repository_id = ''r'',
     ck_lineage_id = ''l'', ck_origin = ''deterministic-core'', ck_engine = ''ifds'',
     ck_detector_id = ''d'', ck_vulnerability_class = ''v'', ck_language = ''py'',
     ck_rule_semantic_digest = sample_digest, ck_s_version = ''1''\<rparr>"

definition sample_binding :: identity_binding where
  "sample_binding = \<lparr>ib_identity_policy_digest = sample_digest, ib_model_profile = ''m'',
     ib_normalization_profile = ''n'', ib_budget_policy = ''b'',
     ib_observed_full_environment_manifest_digest = sample_digest,
     ib_analysis_code_revision = replicate 40 (CHR ''a''), ib_analysis_code_content_digest = sample_digest\<rparr>"

definition sample_observation :: "string \<Rightarrow> char \<Rightarrow> identity_observation" where
  "sample_observation ns c = \<lparr>io_artifact = \<lparr>ai_status = ''completed'', ai_digest = Some (replicate 64 c),
       ai_class = Some ''strong'', ai_namespace = Some ns\<rparr>,
     io_evidence_refs = [''e''], io_failure_reason = None\<rparr>"

lemma sample_refs: "check_references b [''e''] = Inr ()"
  by (simp add: check_references_def ascii_text)

lemma wf_sample_cohort: "check_cohort sample_cohort = Inr ()"
  by (simp add: check_cohort_def cohort_fields_def sample_cohort_def ascii_text)

lemma wf_sample_binding: "check_binding sample_binding = Inr ()"
proof -
  have "is_text (replicate 40 (CHR ''a''))" by (rule ascii_text) (simp_all add: list_all_iff)
  then show ?thesis
    by (simp add: check_binding_def binding_fields_def sample_binding_def ascii_text is_revision_hex_def
        list_all_iff is_hex_def)
qed

text \<open>An occurrence given by its id, scan, sink and the digit its slice digest repeats.\<close>

definition sample_occurrence :: "string \<Rightarrow> string \<Rightarrow> string \<Rightarrow> char \<Rightarrow> occurrence_view" where
  "sample_occurrence k scan sink c = \<lparr>ov_occurrence_id = k, ov_scan_id = scan, ov_capture_id = ''cap'',
     ov_source_tree_digest = sample_digest, ov_cohort = sample_cohort, ov_raw_result_digest = sample_digest,
     ov_scan_local_sink_binding = sink, ov_duplicate_ambiguity = False,
     ov_graph = sample_observation GRAPH_V2 (CHR ''1''), ov_sliced = sample_observation SLICE_V2 c,
     ov_binding = Some sample_binding\<rparr>"

definition sample_inventory :: "string \<Rightarrow> occurrence_view list \<Rightarrow> detection_inventory" where
  "sample_inventory scan os = \<lparr>di_scan_id = scan, di_capture_id = ''cap'',
     di_source_tree_digest = sample_digest, di_cohort = sample_cohort,
     di_detection_state = ''completed'', di_sealed = True,
     di_sealed_occurrence_ids = map ov_occurrence_id os, di_occurrences = os, di_evidence_refs = [''e''],
     di_content_digest = sample_digest\<rparr>"

theorem inventory_digest_binds_witness:
  "let a = sample_occurrence ''a'' ''s'' ''x'' (CHR ''2''); b = sample_occurrence ''b'' ''s'' ''y'' (CHR ''3'')
   in inventory_digest id (sample_inventory ''s'' [a, b]) = inventory_digest id (sample_inventory ''s'' [b, a])
     \<and> inventory_digest id (sample_inventory ''s'' [a, b]) \<noteq> inventory_digest id (sample_inventory ''s'' [a])"
proof -
  let ?a = "sample_occurrence ''a'' ''s'' ''x'' (CHR ''2'')"
  let ?b = "sample_occurrence ''b'' ''s'' ''y'' (CHR ''3'')"
  have d: "distinct (map ov_occurrence_id (di_occurrences (sample_inventory ''s'' [?a, ?b])))"
    by (simp add: sample_inventory_def sample_occurrence_def)
  have "same_inventory (sample_inventory ''s'' [?a, ?b]) (sample_inventory ''s'' [?b, ?a])"
    and "\<not> same_inventory (sample_inventory ''s'' [?a, ?b]) (sample_inventory ''s'' [?a])"
    by (simp_all add: same_inventory_def sample_inventory_def add_mset_commute)
  then show ?thesis
    unfolding Let_def
    using inventory_digest_binds [OF d, of id "sample_inventory ''s'' [?b, ?a]"]
      inventory_digest_binds [OF d, of id "sample_inventory ''s'' [?a]"] by simp
qed

end
