(* ===== verification/Ledger.thy ===== *)
theory Ledger
  imports Main
begin

text \<open>
  The contract that the policy registry and the entities share: a state knows a growing set of
  items, and what it knows but does not hold in force never comes into force again.
\<close>

locale ledger =
  fixes step :: "'s \<Rightarrow> 's \<Rightarrow> bool"
    and known :: "'s \<Rightarrow> 'k set"
    and live :: "'s \<Rightarrow> 'k set"
  assumes keeps: "step s t \<Longrightarrow> known s \<subseteq> known t"
    and no_revival: "step s t \<Longrightarrow> live t \<inter> known s \<subseteq> live s"
begin

lemma known_steps: "step\<^sup>*\<^sup>* s t \<Longrightarrow> known s \<subseteq> known t"
  by (induction rule: rtranclp_induct) (auto dest: keeps)

lemma live_since: "step\<^sup>*\<^sup>* s t \<Longrightarrow> x \<in> live t \<Longrightarrow> x \<in> known s \<Longrightarrow> x \<in> live s"
proof (induction rule: rtranclp_induct)
  case (step t u)
  then have "x \<in> known t" using known_steps by blast
  with step no_revival show ?case by blast
qed

lemma dead_stays_dead:
  assumes "step\<^sup>*\<^sup>* s t" and "step\<^sup>*\<^sup>* t u" and "x \<in> known s" and "x \<notin> live t"
  shows "x \<notin> live u"
  using assms known_steps live_since by blast

end

end
