(* ===== verification/Continuity_Policy.thy ===== *)
theory Continuity_Policy
  imports Continuity Ledger
begin

text \<open>
  \<open>services/scan/continuity.py\<close>, second part: matching policies and their registry. A registry
  changes only by transitions that \<open>validate_registry_transition\<close> accepts; the step relation
  \<open>registry_step\<close> and its closure say what holds of every later registry.
\<close>

section \<open>Profiles and policies\<close>

definition POLICY_NAMESPACE :: string where
  "POLICY_NAMESPACE = ''scanipy-continuity-policy/1''"

record compatibility_profile =
  cp_engine :: string
  cp_detector_id :: string
  cp_vulnerability_class :: string
  cp_language :: string
  cp_rule_semantic_digest :: string
  cp_s_version :: string
  cp_binding :: identity_binding
  cp_graph_namespace :: string
  cp_slice_namespace :: string

definition check_profile :: "compatibility_profile \<Rightarrow> unit res" where
  "check_profile p =
     r_then (r_each (\<lambda>v. r_then (check_text ''policy compatibility profile'' v)
         (r_check ''policy profiles have no wildcard'' (CHR ''*'' \<notin> set v)))
       [cp_engine p, cp_detector_id p, cp_vulnerability_class p, cp_language p, cp_s_version p])
     (r_then (r_check ''only deterministic-core engines can receive continuity policy''
       (cp_engine p \<in> {''ifds'', ''ide''}))
     (r_then (check_digest ''policy rule semantics'' (cp_rule_semantic_digest p))
     (r_check ''unsupported continuity namespace; explicit implementation required''
       (cp_graph_namespace p = GRAPH_V2 \<and> cp_slice_namespace p = SLICE_V2))))"

definition profile_asdict :: "compatibility_profile \<Rightarrow> json" where
  "profile_asdict p = JObj
     [(''engine'', JStr (cp_engine p)), (''detector_id'', JStr (cp_detector_id p)),
      (''vulnerability_class'', JStr (cp_vulnerability_class p)), (''language'', JStr (cp_language p)),
      (''rule_semantic_digest'', JStr (cp_rule_semantic_digest p)), (''s_version'', JStr (cp_s_version p)),
      (''binding'', jfields (binding_fields (cp_binding p))),
      (''graph_namespace'', JStr (cp_graph_namespace p)), (''slice_namespace'', JStr (cp_slice_namespace p))]"

record policy_definition =
  pd_profiles :: "compatibility_profile list"
  pd_evidence_refs :: "string list"
  pd_review_revision_ref :: string
  pd_namespace :: string

definition check_policy :: "policy_definition \<Rightarrow> unit res" where
  "check_policy d =
     r_then (r_check ''unsupported matching policy namespace'' (pd_namespace d = POLICY_NAMESPACE))
     (r_then (r_check ''policy requires nonempty immutable exact profiles'' (pd_profiles d \<noteq> []))
     (r_then (r_check ''duplicate policy profile'' (distinct (pd_profiles d)))
     (r_then (check_references True (pd_evidence_refs d))
     (check_text ''review revision reference'' (pd_review_revision_ref d)))))"

text \<open>\<open>PolicyDefinition.digest\<close>: array order is reviewed content.\<close>

definition policy_digest :: "(bytes \<Rightarrow> bytes) \<Rightarrow> policy_definition \<Rightarrow> string" where
  "policy_digest H d = hash_json H POLICY_NAMESPACE (JObj
     [(''profiles'', JArr (map profile_asdict (pd_profiles d))), (''evidence_refs'', jstrs (pd_evidence_refs d)),
      (''review_revision_ref'', JStr (pd_review_revision_ref d)), (''namespace'', JStr (pd_namespace d))])"

record policy_entry =
  pe_definition :: policy_definition
  pe_content_digest :: string
  pe_state :: string
  pe_activation_event_id :: string

definition check_entry :: "(bytes \<Rightarrow> bytes) \<Rightarrow> policy_entry \<Rightarrow> unit res" where
  "check_entry H e =
     r_then (r_check ''registry policy content digest mismatch''
       (pe_content_digest e = policy_digest H (pe_definition e)))
     (r_then (r_check ''unknown policy state'' (pe_state e \<in> {''active'', ''revoked''}))
     (check_text ''activation event id'' (pe_activation_event_id e)))"

section \<open>The registry\<close>

record policy_registry =
  pr_revision :: int
  pr_entries :: "policy_entry list"
  pr_used_activation_event_ids :: "string list"

definition check_registry :: "policy_registry \<Rightarrow> unit res" where
  "check_registry r =
     r_then (check_revision (pr_revision r))
     (r_then (r_check ''ambiguous duplicate registry policy'' (distinct (map pe_content_digest (pr_entries r))))
     (r_then (r_check ''activation event id must identify one policy activation''
       (distinct (map pe_activation_event_id (pr_entries r))))
     (r_then (r_each (check_text ''historical activation event id'') (pr_used_activation_event_ids r))
     (r_then (r_check ''duplicate historical activation event id''
       (distinct (pr_used_activation_event_ids r)))
     (r_check ''registry activation is missing from retained activation history''
       (set (map pe_activation_event_id (pr_entries r)) \<subseteq> set (pr_used_activation_event_ids r)))))))"

definition active :: "policy_registry \<Rightarrow> string \<Rightarrow> policy_entry option" where
  "active r d = find (\<lambda>e. pe_content_digest e = d \<and> pe_state e = ''active'') (pr_entries r)"

definition PRODUCTION_POLICY_REGISTRY :: policy_registry where
  "PRODUCTION_POLICY_REGISTRY = \<lparr>pr_revision = 0, pr_entries = [], pr_used_activation_event_ids = []\<rparr>"

text \<open>
  \<open>{entry.content_digest: entry for entry in entries}\<close>. The digests of a snapshot are distinct, so
  the dictionary lists its entries in their order.
\<close>

definition by_digest :: "policy_entry list \<Rightarrow> (string \<times> policy_entry) list" where
  "by_digest es = map (\<lambda>e. (pe_content_digest e, e)) es"

text \<open>The loop over \<open>new.items()\<close>: the activation events introduced, or the error raised.\<close>

fun introduced_events ::
  "(string \<times> policy_entry) list \<Rightarrow> string list \<Rightarrow> (string \<times> policy_entry) list \<Rightarrow> string list \<Rightarrow> string list res"
where
  "introduced_events old old_ids [] intro = Inr intro"
| "introduced_events old old_ids ((digest, entry) # rest) intro =
     (case map_of old digest of
        None \<Rightarrow>
          if pe_activation_event_id entry \<in> set old_ids
          then Inl (ValueError ''new policy requires a fresh activation event'')
          else introduced_events old old_ids rest (intro @ [pe_activation_event_id entry])
      | Some prior \<Rightarrow>
          if pe_state prior = ''revoked'' \<and> pe_state entry = ''active'' then
            if pe_activation_event_id entry \<in> set old_ids
            then Inl (ValueError ''reactivation requires a fresh activation event'')
            else introduced_events old old_ids rest (intro @ [pe_activation_event_id entry])
          else if pe_activation_event_id entry \<noteq> pe_activation_event_id prior
          then Inl (ValueError ''activation event can change only on explicit reactivation'')
          else introduced_events old old_ids rest intro)"

definition validate_registry_transition :: "policy_registry \<Rightarrow> policy_registry \<Rightarrow> unit res" where
  "validate_registry_transition previous current =
     (let old = by_digest (pr_entries previous); new = by_digest (pr_entries current);
          old_ids = pr_used_activation_event_ids previous; new_ids = pr_used_activation_event_ids current
      in r_then (r_check ''registry transition requires exactly the next revision''
           (pr_revision current = pr_revision previous + 1))
         (r_then (r_check ''registry retains revoked policies; removal is forbidden''
           (set (map fst old) \<subseteq> set (map fst new)))
         (r_then (r_check ''registry must retain every historical activation event id''
           (set old_ids \<subseteq> set new_ids))
         (r_bind (introduced_events old old_ids new []) (\<lambda>intro.
           r_check ''activation history additions must match actual activation events''
             (set new_ids - set old_ids = set intro))))))"

section \<open>Constructed objects\<close>

definition wf_profile :: "compatibility_profile \<Rightarrow> bool" where
  "wf_profile p \<longleftrightarrow> check_profile p = Inr () \<and> check_binding (cp_binding p) = Inr ()"

definition wf_entry :: "(bytes \<Rightarrow> bytes) \<Rightarrow> policy_entry \<Rightarrow> bool" where
  "wf_entry H e \<longleftrightarrow> check_entry H e = Inr () \<and> check_policy (pe_definition e) = Inr ()
     \<and> list_all wf_profile (pd_profiles (pe_definition e))"

definition wf_registry :: "(bytes \<Rightarrow> bytes) \<Rightarrow> policy_registry \<Rightarrow> bool" where
  "wf_registry H r \<longleftrightarrow> check_registry r = Inr () \<and> list_all (wf_entry H) (pr_entries r)"

lemma wf_registryD:
  assumes "wf_registry H r"
  shows "distinct (map pe_content_digest (pr_entries r))"
    and "distinct (map pe_activation_event_id (pr_entries r))"
    and "e \<in> set (pr_entries r) \<Longrightarrow> pe_activation_event_id e \<in> set (pr_used_activation_event_ids r)"
    and "e \<in> set (pr_entries r) \<Longrightarrow> wf_entry H e"
    and "0 \<le> pr_revision r"
  using assms by (auto simp: wf_registry_def check_registry_def list_all_iff)

lemma wf_entry_state: "wf_entry H e \<Longrightarrow> pe_state e = ''active'' \<or> pe_state e = ''revoked''"
  by (auto simp: wf_entry_def check_entry_def)

lemma active_Some:
  "active r d = Some e \<Longrightarrow> e \<in> set (pr_entries r) \<and> pe_content_digest e = d \<and> pe_state e = ''active''"
  by (auto simp: active_def find_Some_iff)

lemma active_iff:
  assumes "wf_registry H r"
  shows "active r d = Some e \<longleftrightarrow> e \<in> set (pr_entries r) \<and> pe_content_digest e = d \<and> pe_state e = ''active''"
proof
  assume e: "e \<in> set (pr_entries r) \<and> pe_content_digest e = d \<and> pe_state e = ''active''"
  then obtain e' where e': "active r d = Some e'"
    by (cases "active r d") (auto simp: active_def find_None_iff)
  with e active_Some [OF e'] wf_registryD(1) [OF assms] have "e' = e"
    by (auto simp: distinct_map dest: inj_onD)
  with e' show "active r d = Some e" by simp
qed (rule active_Some)

section \<open>Registries over time\<close>

inductive registry_step :: "(bytes \<Rightarrow> bytes) \<Rightarrow> policy_registry \<Rightarrow> policy_registry \<Rightarrow> bool" for H where
  step: "wf_registry H r \<Longrightarrow> wf_registry H r' \<Longrightarrow> validate_registry_transition r r' = Inr () \<Longrightarrow>
    registry_step H r r'"

lemma map_of_by_digest:
  assumes "distinct (map pe_content_digest es)"
  shows "map_of (by_digest es) d = Some e \<longleftrightarrow> e \<in> set es \<and> pe_content_digest e = d"
proof -
  have "distinct (map fst (by_digest es))" using assms by (simp add: by_digest_def comp_def)
  then show ?thesis by (auto simp: by_digest_def map_of_eq_Some_iff)
qed

lemma introduced_events_fresh:
  assumes "introduced_events old ids new intro = Inr out" and "(d, e) \<in> set new"
  shows "pe_activation_event_id e \<notin> set ids
    \<or> (\<exists>p. map_of old d = Some p \<and> pe_activation_event_id p = pe_activation_event_id e
         \<and> (pe_state e = ''active'' \<longrightarrow> pe_state p \<noteq> ''revoked''))"
  using assms
  by (induction old ids new intro rule: introduced_events.induct) (auto split: option.splits if_splits)

lemma transition_entry:
  assumes "registry_step H r r'" and "e \<in> set (pr_entries r')"
  shows "pe_activation_event_id e \<notin> set (pr_used_activation_event_ids r)
    \<or> (\<exists>p \<in> set (pr_entries r). pe_content_digest p = pe_content_digest e
         \<and> pe_activation_event_id p = pe_activation_event_id e
         \<and> (pe_state e = ''active'' \<longrightarrow> pe_state p = ''active''))"
proof -
  obtain wf: "wf_registry H r" and v: "validate_registry_transition r r' = Inr ()"
    using assms(1) by (cases rule: registry_step.cases) auto
  obtain intro where "introduced_events (by_digest (pr_entries r)) (pr_used_activation_event_ids r)
      (by_digest (pr_entries r')) [] = Inr intro"
    using v by (auto simp: validate_registry_transition_def Let_def r_bind_Inr_iff)
  moreover have "(pe_content_digest e, e) \<in> set (by_digest (pr_entries r'))"
    using assms(2) by (simp add: by_digest_def)
  ultimately consider "pe_activation_event_id e \<notin> set (pr_used_activation_event_ids r)"
    | p where "map_of (by_digest (pr_entries r)) (pe_content_digest e) = Some p"
      "pe_activation_event_id p = pe_activation_event_id e"
      "pe_state e = ''active'' \<longrightarrow> pe_state p \<noteq> ''revoked''"
    using introduced_events_fresh by meson
  then show ?thesis
  proof cases
    case 2
    then have p: "p \<in> set (pr_entries r)" "pe_content_digest p = pe_content_digest e"
      by (simp_all add: map_of_by_digest [OF wf_registryD(1) [OF wf]])
    then show ?thesis
      using wf_entry_state [OF wf_registryD(4) [OF wf p(1)]] 2 by blast
  qed simp
qed

lemma step_history:
  "registry_step H r r' \<Longrightarrow> set (pr_used_activation_event_ids r) \<subseteq> set (pr_used_activation_event_ids r')"
  by (auto elim!: registry_step.cases simp: validate_registry_transition_def Let_def)

lemma step_revision: "registry_step H r r' \<Longrightarrow> pr_revision r' = pr_revision r + 1"
  by (auto elim!: registry_step.cases simp: validate_registry_transition_def Let_def)

text \<open>
  The registry is a ledger of activations, pairs of a policy content and the event that activated
  it: known when the event has been used, live when an active entry carries them.
\<close>

definition known_activations :: "policy_registry \<Rightarrow> (string \<times> string) set" where
  "known_activations r = {(d, a). a \<in> set (pr_used_activation_event_ids r)}"

definition live_activations :: "policy_registry \<Rightarrow> (string \<times> string) set" where
  "live_activations r =
     {(pe_content_digest e, pe_activation_event_id e) | e. e \<in> set (pr_entries r) \<and> pe_state e = ''active''}"

interpretation registry_ledger: ledger "registry_step H" known_activations live_activations for H
proof
  fix r r' assume s: "registry_step H r r'"
  show "known_activations r \<subseteq> known_activations r'"
    using step_history [OF s] by (auto simp: known_activations_def)
  show "live_activations r' \<inter> known_activations r \<subseteq> live_activations r"
  proof
    fix x assume "x \<in> live_activations r' \<inter> known_activations r"
    then obtain e where e: "e \<in> set (pr_entries r')" "pe_state e = ''active''"
        "x = (pe_content_digest e, pe_activation_event_id e)"
        "pe_activation_event_id e \<in> set (pr_used_activation_event_ids r)"
      by (auto simp: live_activations_def known_activations_def)
    then obtain p where "p \<in> set (pr_entries r)" "pe_content_digest p = pe_content_digest e"
        "pe_activation_event_id p = pe_activation_event_id e" "pe_state p = ''active''"
      using transition_entry [OF s e(1)] by auto
    then show "x \<in> live_activations r"
      unfolding live_activations_def e(3) by (intro CollectI exI [of _ p]) simp
  qed
qed

lemma steps_revision: "(registry_step H)\<^sup>*\<^sup>* r r' \<Longrightarrow> pr_revision r \<le> pr_revision r'"
  by (induction rule: rtranclp_induct) (auto dest: step_revision)

lemma steps_wf: "(registry_step H)\<^sup>*\<^sup>* r r' \<Longrightarrow> wf_registry H r \<Longrightarrow> wf_registry H r'"
  by (induction rule: rtranclp_induct) (auto elim: registry_step.cases)

lemma live_activation_iff:
  assumes "wf_registry H r"
  shows "(d, a) \<in> live_activations r \<longleftrightarrow> (\<exists>e. active r d = Some e \<and> pe_activation_event_id e = a)"
  using active_iff [OF assms, of d] by (auto simp: live_activations_def)

lemma active_live: "active r d = Some e \<Longrightarrow> (d, pe_activation_event_id e) \<in> live_activations r"
  unfolding live_activations_def by (force dest: active_Some)

lemma steps_digests:
  "(registry_step H)\<^sup>*\<^sup>* r r' \<Longrightarrow>
   set (map pe_content_digest (pr_entries r)) \<subseteq> set (map pe_content_digest (pr_entries r'))"
proof (induction rule: rtranclp_induct)
  case (step y z)
  from step.hyps(2) have "set (map pe_content_digest (pr_entries y)) \<subseteq> set (map pe_content_digest (pr_entries z))"
    by cases (simp add: validate_registry_transition_def Let_def by_digest_def image_image)
  with step.IH show ?case by (rule order_trans)
qed simp

text \<open>
  C6. The registry over any sequence of accepted transitions: policies and used activation events
  are never forgotten and revisions only grow; an activation in force later was either issued
  later or was in force, for the same policy content, at every earlier registry that knew it. So
  a revoked activation is dead for ever, and reactivating a policy cannot revive it.
\<close>

theorem registry_history:
  assumes "(registry_step H)\<^sup>*\<^sup>* r r'" and "wf_registry H r"
  shows "set (map pe_content_digest (pr_entries r)) \<subseteq> set (map pe_content_digest (pr_entries r'))
    \<and> set (pr_used_activation_event_ids r) \<subseteq> set (pr_used_activation_event_ids r')
    \<and> pr_revision r \<le> pr_revision r'
    \<and> (active r' d = Some e' \<longrightarrow> pe_activation_event_id e' \<in> set (pr_used_activation_event_ids r) \<longrightarrow>
         (\<exists>e. active r d = Some e \<and> pe_activation_event_id e = pe_activation_event_id e'))
    \<and> (e \<in> set (pr_entries r) \<longrightarrow> pe_state e = ''revoked'' \<longrightarrow> active r' d = Some e' \<longrightarrow>
         pe_activation_event_id e' \<noteq> pe_activation_event_id e)"
proof (intro conjI impI)
  show "set (map pe_content_digest (pr_entries r)) \<subseteq> set (map pe_content_digest (pr_entries r'))"
    by (rule steps_digests [OF assms(1)])
  show "set (pr_used_activation_event_ids r) \<subseteq> set (pr_used_activation_event_ids r')"
    using registry_ledger.known_steps [OF assms(1)] by (auto simp: known_activations_def)
  show "pr_revision r \<le> pr_revision r'" by (rule steps_revision [OF assms(1)])
next
  assume a: "active r' d = Some e'" and used: "pe_activation_event_id e' \<in> set (pr_used_activation_event_ids r)"
  show "\<exists>e. active r d = Some e \<and> pe_activation_event_id e = pe_activation_event_id e'"
    using registry_ledger.live_since [OF assms(1) active_live [OF a]] used live_activation_iff [OF assms(2)]
    by (simp add: known_activations_def)
next
  assume e: "e \<in> set (pr_entries r)" "pe_state e = ''revoked''" and e': "active r' d = Some e'"
  show "pe_activation_event_id e' \<noteq> pe_activation_event_id e"
  proof
    assume eq: "pe_activation_event_id e' = pe_activation_event_id e"
    have "(d, pe_activation_event_id e') \<in> live_activations r"
      using registry_ledger.live_since [OF assms(1) active_live [OF e']] eq wf_registryD(3) [OF assms(2) e(1)]
      by (simp add: known_activations_def)
    then obtain p where "p \<in> set (pr_entries r)" "pe_activation_event_id p = pe_activation_event_id e"
        "pe_state p = ''active''"
      using eq by (auto simp: live_activations_def)
    moreover from this(1,2) have "p = e"
      using wf_registryD(2) [OF assms(2)] e(1) by (auto simp: distinct_map dest: inj_onD)
    ultimately show False using e(2) by simp
  qed
qed

definition sample_profile :: compatibility_profile where
  "sample_profile = \<lparr>cp_engine = ''ifds'', cp_detector_id = ''d'', cp_vulnerability_class = ''v'',
     cp_language = ''py'', cp_rule_semantic_digest = sample_digest, cp_s_version = ''1'',
     cp_binding = sample_binding, cp_graph_namespace = GRAPH_V2, cp_slice_namespace = SLICE_V2\<rparr>"

definition sample_policy :: policy_definition where
  "sample_policy = \<lparr>pd_profiles = [sample_profile], pd_evidence_refs = [''e''],
     pd_review_revision_ref = ''rev'', pd_namespace = POLICY_NAMESPACE\<rparr>"

definition sample_entry :: "string \<Rightarrow> string \<Rightarrow> policy_entry" where
  "sample_entry st ev = \<lparr>pe_definition = sample_policy, pe_content_digest = sample_digest, pe_state = st,
     pe_activation_event_id = ev\<rparr>"

text \<open>Activation, revocation and reactivation of one policy.\<close>

definition sample_registry :: "int \<Rightarrow> policy_registry" where
  "sample_registry n =
     (if n = 0 then PRODUCTION_POLICY_REGISTRY
      else if n = 1 then \<lparr>pr_revision = 1, pr_entries = [sample_entry ''active'' ''a1''], pr_used_activation_event_ids = [''a1'']\<rparr>
      else if n = 2 then \<lparr>pr_revision = 2, pr_entries = [sample_entry ''revoked'' ''a1''], pr_used_activation_event_ids = [''a1'']\<rparr>
      else \<lparr>pr_revision = 3, pr_entries = [sample_entry ''active'' ''a2''], pr_used_activation_event_ids = [''a1'', ''a2'']\<rparr>)"

lemma sample_hash_digest: "hash_json sample_hash ns j = sample_digest"
proof -
  have "hex (replicate 32 (CHR 0x00)) = replicate 64 (CHR ''0'')" by code_simp
  then show ?thesis by (simp add: hash_json_def sample_hash_def sample_digest_def)
qed

lemma sample_policy_digest: "policy_digest sample_hash d = sample_digest"
  by (simp add: policy_digest_def sample_hash_digest)

lemma wf_sample_entry: "is_text ev \<Longrightarrow> wf_entry sample_hash (sample_entry ''active'' ev)"
  "is_text ev \<Longrightarrow> wf_entry sample_hash (sample_entry ''revoked'' ev)"
proof -
  have "check_policy sample_policy = Inr ()"
    by (simp add: check_policy_def sample_policy_def sample_refs ascii_text)
  moreover have "wf_profile sample_profile"
    by (simp add: wf_profile_def check_profile_def sample_profile_def wf_sample_binding ascii_text)
  ultimately have "check_policy sample_policy = Inr ()" "wf_profile sample_profile" by blast+
  then show "is_text ev \<Longrightarrow> wf_entry sample_hash (sample_entry ''active'' ev)"
    "is_text ev \<Longrightarrow> wf_entry sample_hash (sample_entry ''revoked'' ev)"
    by (simp_all add: wf_entry_def check_entry_def sample_entry_def sample_policy_digest)
      (simp_all add: sample_policy_def)
qed

lemma sample_text: "is_text ''a1''" "is_text ''a2''"
  by (simp_all add: ascii_text)

lemma wf_sample_registry: "wf_registry sample_hash (sample_registry n)"
  by (simp add: sample_registry_def PRODUCTION_POLICY_REGISTRY_def wf_registry_def check_registry_def
      wf_sample_entry sample_text)
    (simp add: sample_entry_def)

lemma registry_sample_steps:
  "registry_step sample_hash (sample_registry 0) (sample_registry 1)"
  "registry_step sample_hash (sample_registry 1) (sample_registry 2)"
  "registry_step sample_hash (sample_registry 2) (sample_registry 3)"
  by (rule registry_step.step [OF wf_sample_registry wf_sample_registry], code_simp)+

theorem registry_history_witness:
  "(registry_step sample_hash)\<^sup>*\<^sup>* (sample_registry 2) (sample_registry 3)
   \<and> active (sample_registry 3) sample_digest = Some (sample_entry ''active'' ''a2'')
   \<and> pe_activation_event_id (sample_entry ''active'' ''a2'') \<noteq> pe_activation_event_id (sample_entry ''revoked'' ''a1'')"
proof -
  have s: "(registry_step sample_hash)\<^sup>*\<^sup>* (sample_registry 2) (sample_registry 3)"
    using registry_sample_steps(3) by blast
  have a: "active (sample_registry 3) sample_digest = Some (sample_entry ''active'' ''a2'')" by code_simp
  have e: "sample_entry ''revoked'' ''a1'' \<in> set (pr_entries (sample_registry 2))"
    and r: "pe_state (sample_entry ''revoked'' ''a1'') = ''revoked''"
    by (simp_all add: sample_registry_def sample_entry_def)
  from registry_history [OF s wf_sample_registry] e r a s show ?thesis by blast
qed

end
