(* ===== verification/Continuity_Entity.thy ===== *)
theory Continuity_Entity
  imports Continuity Ledger
begin

text \<open>
  \<open>services/scan/continuity.py\<close>, third part: human decisions, entities and their transitions. An
  entity carries a lifecycle generation; a human decision authorises one generation. The step
  relation \<open>entity_step\<close> is one transaction that \<open>validate_entity_transition\<close> accepts.
\<close>

section \<open>Decisions\<close>

definition VERDICTS :: "string list" where
  "VERDICTS = [''unreviewed'', ''confirmed'', ''false_positive'']"

definition SUPPRESSIONS :: "string list" where
  "SUPPRESSIONS = [''active'', ''inactive'']"

record dimension_decision =
  dd_value :: string
  dd_event_id :: string
  dd_revision :: int
  dd_references :: "string list"
  dd_authorized_generation :: "int option"

definition check_decision :: "dimension_decision \<Rightarrow> unit res" where
  "check_decision d =
     r_then (r_check ''unknown human decision value'' (dd_value d \<in> set (VERDICTS @ SUPPRESSIONS)))
     (r_then (check_text ''human decision event id'' (dd_event_id d))
     (r_then (check_revision (dd_revision d))
     (r_then (check_references False (dd_references d))
     (case dd_authorized_generation d of None \<Rightarrow> Inr () | Some g \<Rightarrow> check_revision g))))"

record reference_metadata =
  rm_event_id :: string
  rm_revision :: int
  rm_references :: "string list"

definition check_metadata :: "reference_metadata \<Rightarrow> unit res" where
  "check_metadata m =
     r_then (check_text ''reference metadata event id'' (rm_event_id m))
     (r_then (check_revision (rm_revision m))
     (check_references True (rm_references m)))"

record decision_snapshot =
  ds_target_scope :: string
  ds_target_id :: string
  ds_cohort :: cohort_key
  ds_revision :: int
  ds_verdict :: "dimension_decision option"
  ds_suppression :: "dimension_decision option"
  ds_metadata :: "reference_metadata option"

definition check_dimension :: "decision_snapshot \<Rightarrow> dimension_decision option \<times> string list \<Rightarrow> unit res" where
  "check_dimension s = (\<lambda>(decision, allowed). case decision of
     None \<Rightarrow> Inr ()
   | Some d \<Rightarrow>
       r_then (r_check ''decision dimension/value/revision mismatch''
         (dd_value d \<in> set allowed \<and> dd_revision d \<le> ds_revision s))
       (r_check ''authorization generation must match decision scope''
         (\<not> (ds_target_scope s = ''entity'' \<and> dd_authorized_generation d = None)
          \<and> \<not> (ds_target_scope s = ''occurrence'' \<and> dd_authorized_generation d \<noteq> None))))"

text \<open>The event ids of the dimensions that are present.\<close>

definition snapshot_event_ids :: "decision_snapshot \<Rightarrow> string list" where
  "snapshot_event_ids s =
     concat [case ds_verdict s of None \<Rightarrow> [] | Some d \<Rightarrow> [dd_event_id d],
             case ds_suppression s of None \<Rightarrow> [] | Some d \<Rightarrow> [dd_event_id d],
             case ds_metadata s of None \<Rightarrow> [] | Some m \<Rightarrow> [rm_event_id m]]"

definition check_decisions :: "decision_snapshot \<Rightarrow> unit res" where
  "check_decisions s =
     r_then (r_check ''unknown human decision scope'' (ds_target_scope s \<in> {''occurrence'', ''entity''}))
     (r_then (check_text ''decision target id'' (ds_target_id s))
     (r_then (check_revision (ds_revision s))
     (r_then (r_each (check_dimension s) [(ds_verdict s, VERDICTS), (ds_suppression s, SUPPRESSIONS)])
     (r_then (r_check ''invalid reference metadata/revision''
       (case ds_metadata s of None \<Rightarrow> True | Some m \<Rightarrow> rm_revision m \<le> ds_revision s))
     (r_check ''decision events must have distinct event ids'' (distinct (snapshot_event_ids s)))))))"

section \<open>Entities and their events\<close>

record entity_snapshot =
  es_entity_id :: string
  es_cohort :: cohort_key
  es_lifecycle :: string
  es_revision :: int
  es_decisions :: decision_snapshot
  es_lifecycle_generation :: int

definition check_entity :: "entity_snapshot \<Rightarrow> unit res" where
  "check_entity e =
     r_then (check_text ''entity id'' (es_entity_id e))
     (r_then (check_revision (es_revision e))
     (r_then (check_revision (es_lifecycle_generation e))
     (r_then (r_check ''unknown entity lifecycle''
       (es_lifecycle e \<in> {''open'', ''resolved'', ''reappeared'', ''uncertain''}))
     (r_then (r_check ''entity decision target/scope mismatch''
       (ds_target_scope (es_decisions e) = ''entity'' \<and> ds_target_id (es_decisions e) = es_entity_id e
        \<and> ds_cohort (es_decisions e) = es_cohort e))
     (r_each (\<lambda>decision. case decision of
          None \<Rightarrow> Inr ()
        | Some d \<Rightarrow> r_check ''entity cannot carry future/absent authorization generation''
            (case dd_authorized_generation d of None \<Rightarrow> False | Some g \<Rightarrow> g \<le> es_lifecycle_generation e))
       [ds_verdict (es_decisions e), ds_suppression (es_decisions e)])))))"

definition LIFECYCLE_TARGETS :: "(string \<times> string) list" where
  "LIFECYCLE_TARGETS =
     [(''resolve'', ''resolved''), (''reappear'', ''reappeared''), (''mark_uncertain'', ''uncertain''),
      (''open_for_review'', ''open'')]"

record lifecycle_event =
  le_event_id :: string
  le_entity_id :: string
  le_cohort :: cohort_key
  le_action :: string
  le_previous_revision :: int
  le_previous_generation :: int
  le_evidence_refs :: "string list"

definition check_lifecycle_event :: "lifecycle_event \<Rightarrow> unit res" where
  "check_lifecycle_event v =
     r_then (check_text ''lifecycle event id'' (le_event_id v))
     (r_then (check_text ''lifecycle entity id'' (le_entity_id v))
     (r_then (r_check ''invalid lifecycle event scope/action'' (le_action v \<in> set (map fst LIFECYCLE_TARGETS)))
     (r_then (check_revision (le_previous_revision v))
     (r_then (check_revision (le_previous_generation v))
     (check_references True (le_evidence_refs v))))))"

datatype human_event =
    HDecision dimension_decision
  | HMetadata reference_metadata

definition human_event_id :: "human_event \<Rightarrow> string" where
  "human_event_id v = (case v of HDecision d \<Rightarrow> dd_event_id d | HMetadata m \<Rightarrow> rm_event_id m)"

definition human_event_revision :: "human_event \<Rightarrow> int" where
  "human_event_revision v = (case v of HDecision d \<Rightarrow> dd_revision d | HMetadata m \<Rightarrow> rm_revision m)"

record human_authorization =
  ha_entity_id :: string
  ha_cohort :: cohort_key
  ha_dimension :: string
  ha_event :: human_event
  ha_authority_ref :: string

definition check_authorization :: "human_authorization \<Rightarrow> unit res" where
  "check_authorization a =
     r_then (check_text ''human authorization target'' (ha_entity_id a))
     (r_then (check_text ''trusted human authority reference'' (ha_authority_ref a))
     (if ha_dimension a = ''metadata'' then
        r_check ''metadata event cannot grant dimension authorization''
          (case ha_event a of HMetadata m \<Rightarrow> True | _ \<Rightarrow> False)
      else if ha_dimension a \<in> {''verdict'', ''suppression''} then
        let allowed = (if ha_dimension a = ''verdict'' then VERDICTS else SUPPRESSIONS)
        in r_check ''entity human authorization dimension/generation mismatch''
             (case ha_event a of
                HDecision d \<Rightarrow> dd_value d \<in> set allowed \<and> dd_authorized_generation d \<noteq> None
              | HMetadata m \<Rightarrow> False)
      else Inl (ValueError ''unknown human authorization dimension'')))"

section \<open>One transaction on an entity\<close>

text \<open>\<open>getattr(decisions, name)\<close>\<close>

definition snapshot_dimension :: "decision_snapshot \<Rightarrow> string \<Rightarrow> human_event option" where
  "snapshot_dimension s name =
     (if name = ''verdict'' then map_option HDecision (ds_verdict s)
      else if name = ''suppression'' then map_option HDecision (ds_suppression s)
      else map_option HMetadata (ds_metadata s))"

text \<open>The body of the loop over the three dimensions.\<close>

definition check_dimension_change ::
  "entity_snapshot \<Rightarrow> entity_snapshot \<Rightarrow> (string \<times> human_authorization) list \<Rightarrow> string \<Rightarrow> unit res" where
  "check_dimension_change previous current by_dimension name =
     (let old = snapshot_dimension (es_decisions previous) name;
          new = snapshot_dimension (es_decisions current) name
      in case map_of by_dimension name of
           None \<Rightarrow> r_check ''unchanged dimension cannot be restamped without its own human event'' (new = old)
         | Some a \<Rightarrow>
             r_then (r_check ''fresh human event must match exact target/dimension/new revision''
               (ha_entity_id a = es_entity_id current \<and> ha_cohort a = es_cohort current
                \<and> new \<noteq> None \<and> new \<noteq> old \<and> new = Some (ha_event a)
                \<and> human_event_revision (ha_event a) = ds_revision (es_decisions current)))
             (case ha_event a of
                HDecision d \<Rightarrow> r_check ''fresh human event must authorize the current lifecycle generation''
                  (dd_authorized_generation d = Some (es_lifecycle_generation current))
              | HMetadata m \<Rightarrow> r_check ''reference metadata additions must preserve previous references''
                  (case old of Some (HMetadata m') \<Rightarrow> set (rm_references m') \<subseteq> set (rm_references m) | _ \<Rightarrow> True)))"

definition check_lifecycle_change ::
  "entity_snapshot \<Rightarrow> entity_snapshot \<Rightarrow> lifecycle_event option \<Rightarrow> unit res" where
  "check_lifecycle_change previous current event =
     (if es_lifecycle previous \<noteq> es_lifecycle current then
        r_check ''lifecycle change requires an exact typed lifecycle event''
          (case event of
             None \<Rightarrow> False
           | Some v \<Rightarrow> le_entity_id v = es_entity_id current \<and> le_cohort v = es_cohort current
               \<and> le_previous_revision v = es_revision previous
               \<and> le_previous_generation v = es_lifecycle_generation previous
               \<and> dget LIFECYCLE_TARGETS (le_action v) = es_lifecycle current)
      else r_check ''lifecycle event requires an actual state change'' (event = None))"

definition validate_entity_transition ::
  "entity_snapshot \<Rightarrow> entity_snapshot \<Rightarrow> lifecycle_event option \<Rightarrow> human_authorization list \<Rightarrow> unit res" where
  "validate_entity_transition previous current event auths =
     (let changed = (es_lifecycle previous \<noteq> es_lifecycle current);
          by_dimension = map (\<lambda>a. (ha_dimension a, a)) (rev auths);
          event_ids = map (\<lambda>a. human_event_id (ha_event a)) auths
            @ (case event of None \<Rightarrow> [] | Some v \<Rightarrow> [le_event_id v])
      in r_then (r_check ''entity transition cannot change target or scope''
           (es_entity_id current = es_entity_id previous \<and> es_cohort current = es_cohort previous))
         (r_then (r_check ''entity transition requires exactly the next revision''
           (es_revision current = es_revision previous + 1))
         (r_then (r_check ''generation must advance exactly once per lifecycle-state change''
           (es_lifecycle_generation current = es_lifecycle_generation previous + (if changed then 1 else 0)))
         (r_then (check_lifecycle_change previous current event)
         (r_then (r_check ''entity transition has no lifecycle or human event'' (changed \<or> auths \<noteq> []))
         (r_then (r_check ''decision revision must advance exactly once per human-event transaction''
           (ds_revision (es_decisions current)
            = ds_revision (es_decisions previous) + (if auths \<noteq> [] then 1 else 0)))
         (r_then (r_check ''duplicate human authorization dimension in transition''
           (distinct (map ha_dimension auths)))
         (r_then (r_check ''transition event ids must be unique and not restamp current events''
           (distinct event_ids \<and> set (snapshot_event_ids (es_decisions previous)) \<inter> set event_ids = {}))
         (r_each (check_dimension_change previous current by_dimension)
           [''verdict'', ''suppression'', ''metadata''])))))))))"

section \<open>Constructed objects\<close>

definition wf_decisions :: "decision_snapshot \<Rightarrow> bool" where
  "wf_decisions s \<longleftrightarrow> check_decisions s = Inr () \<and> check_cohort (ds_cohort s) = Inr ()
     \<and> opt_all (\<lambda>d. check_decision d = Inr ()) (ds_verdict s)
     \<and> opt_all (\<lambda>d. check_decision d = Inr ()) (ds_suppression s)
     \<and> opt_all (\<lambda>m. check_metadata m = Inr ()) (ds_metadata s)"

definition wf_entity :: "entity_snapshot \<Rightarrow> bool" where
  "wf_entity e \<longleftrightarrow> check_entity e = Inr () \<and> wf_decisions (es_decisions e)"

definition wf_lifecycle_event :: "lifecycle_event \<Rightarrow> bool" where
  "wf_lifecycle_event v \<longleftrightarrow> check_lifecycle_event v = Inr () \<and> check_cohort (le_cohort v) = Inr ()"

definition wf_authorization :: "human_authorization \<Rightarrow> bool" where
  "wf_authorization a \<longleftrightarrow> check_authorization a = Inr () \<and> check_cohort (ha_cohort a) = Inr ()
     \<and> (case ha_event a of HDecision d \<Rightarrow> check_decision d = Inr () | HMetadata m \<Rightarrow> check_metadata m = Inr ())"

inductive entity_step :: "entity_snapshot \<Rightarrow> entity_snapshot \<Rightarrow> bool" where
  step: "wf_entity e \<Longrightarrow> wf_entity e' \<Longrightarrow> opt_all wf_lifecycle_event v \<Longrightarrow> list_all wf_authorization aus \<Longrightarrow>
    validate_entity_transition e e' v aus = Inr () \<Longrightarrow> entity_step e e'"

section \<open>Entities over time\<close>

text \<open>The decision of a dimension that the current generation authorises.\<close>

definition entity_dimension :: "entity_snapshot \<Rightarrow> string \<Rightarrow> dimension_decision option" where
  "entity_dimension e name = (if name = ''verdict'' then ds_verdict (es_decisions e) else ds_suppression (es_decisions e))"

definition in_force :: "entity_snapshot \<Rightarrow> dimension_decision \<Rightarrow> bool" where
  "in_force e d \<longleftrightarrow> (entity_dimension e ''verdict'' = Some d \<or> entity_dimension e ''suppression'' = Some d)
     \<and> dd_authorized_generation d = Some (es_lifecycle_generation e)"

lemma wf_entity_generation:
  assumes "wf_entity e" and "entity_dimension e name = Some d"
  shows "\<exists>g. dd_authorized_generation d = Some g \<and> g \<le> es_lifecycle_generation e"
  using assms
  by (auto simp: wf_entity_def check_entity_def entity_dimension_def split: if_splits option.splits)

lemma entity_step_facts:
  assumes "entity_step e e'"
  shows "es_entity_id e' = es_entity_id e" and "es_cohort e' = es_cohort e"
    and "es_revision e' = es_revision e + 1"
    and "ds_revision (es_decisions e) \<le> ds_revision (es_decisions e')"
    and "es_lifecycle_generation e' = es_lifecycle_generation e + (if es_lifecycle e \<noteq> es_lifecycle e' then 1 else 0)"
    and "wf_entity e" and "wf_entity e'"
  using assms by (auto elim!: entity_step.cases simp: validate_entity_transition_def Let_def split: if_splits)

text \<open>A decision changes only by an authorised event of the current generation with a fresh id.\<close>

lemma entity_step_decision:
  assumes "entity_step e e'" and "name = ''verdict'' \<or> name = ''suppression''"
    and "entity_dimension e' name = Some d"
  shows "entity_dimension e name = Some d
    \<or> dd_authorized_generation d = Some (es_lifecycle_generation e')
      \<and> dd_revision d = ds_revision (es_decisions e') \<and> ds_revision (es_decisions e) < dd_revision d
      \<and> dd_event_id d \<notin> set (snapshot_event_ids (es_decisions e))"
proof -
  obtain v aus where w: "list_all wf_authorization aus" and t: "validate_entity_transition e e' v aus = Inr ()"
    using assms(1) by (cases rule: entity_step.cases) auto
  let ?by = "map (\<lambda>a. (ha_dimension a, a)) (rev aus)"
  have new: "snapshot_dimension (es_decisions e') name = Some (HDecision d)"
    using assms(2,3) by (auto simp: entity_dimension_def snapshot_dimension_def)
  have old: "snapshot_dimension (es_decisions e) name = map_option HDecision (entity_dimension e name)"
    using assms(2) by (auto simp: entity_dimension_def snapshot_dimension_def)
  have c: "check_dimension_change e e' ?by name = Inr ()"
    using t assms(2) by (auto simp: validate_entity_transition_def Let_def)
  show ?thesis
  proof (cases "map_of ?by name")
    case None
    then have "entity_dimension e name = Some d"
      using c new old by (auto simp: check_dimension_change_def eq_commute [of "Some _"])
    then show ?thesis ..
  next
    case (Some a)
    then have a: "a \<in> set aus" using map_of_SomeD [OF Some] by auto
    have d: "ha_event a = HDecision d"
      using c new Some by (simp add: check_dimension_change_def Let_def)
    have ev: "ha_event a = HDecision d" "dd_revision d = ds_revision (es_decisions e')"
        "dd_authorized_generation d = Some (es_lifecycle_generation e')"
      using c Some by (simp_all add: check_dimension_change_def human_event_revision_def Let_def d)
    have "ds_revision (es_decisions e) < dd_revision d"
      using t a ev(2) by (auto simp: validate_entity_transition_def Let_def split: if_splits)
    moreover have "dd_event_id d \<in> set (map (\<lambda>a. human_event_id (ha_event a)) aus)"
      using a ev(1) by (force simp: human_event_id_def)
    then have "dd_event_id d \<notin> set (snapshot_event_ids (es_decisions e))"
      using t by (auto simp: validate_entity_transition_def Let_def)
    ultimately show ?thesis using ev by blast
  qed
qed

lemma entity_steps_facts:
  assumes "entity_step\<^sup>*\<^sup>* e e'"
  shows "es_entity_id e' = es_entity_id e" and "es_cohort e' = es_cohort e" and "es_revision e \<le> es_revision e'"
    and "ds_revision (es_decisions e) \<le> ds_revision (es_decisions e')"
    and "es_lifecycle_generation e \<le> es_lifecycle_generation e'"
proof -
  have "es_entity_id e' = es_entity_id e \<and> es_cohort e' = es_cohort e \<and> es_revision e \<le> es_revision e'
    \<and> ds_revision (es_decisions e) \<le> ds_revision (es_decisions e')
    \<and> es_lifecycle_generation e \<le> es_lifecycle_generation e'"
    using assms
  proof (induction rule: rtranclp_induct)
    case (step y z)
    show ?case using step.IH entity_step_facts(1-5) [OF step.hyps(2)] by (simp split: if_splits)
  qed simp
  then show "es_entity_id e' = es_entity_id e" and "es_cohort e' = es_cohort e" and "es_revision e \<le> es_revision e'"
    and "ds_revision (es_decisions e) \<le> ds_revision (es_decisions e')"
    and "es_lifecycle_generation e \<le> es_lifecycle_generation e'"
    by simp_all
qed

text \<open>
  An entity is a ledger of decisions: known when their revision is not in the future, live when the
  current generation authorises them.
\<close>

definition known_decisions :: "entity_snapshot \<Rightarrow> dimension_decision set" where
  "known_decisions e = {d. dd_revision d \<le> ds_revision (es_decisions e)}"

interpretation entity_ledger: ledger entity_step known_decisions "\<lambda>e. {d. in_force e d}"
proof
  fix e e' assume s: "entity_step e e'"
  show "known_decisions e \<subseteq> known_decisions e'"
    using entity_step_facts(4) [OF s] by (auto simp: known_decisions_def)
  show "{d. in_force e' d} \<inter> known_decisions e \<subseteq> {d. in_force e d}"
  proof
    fix d assume d: "d \<in> {d. in_force e' d} \<inter> known_decisions e"
    then obtain name where n: "name = ''verdict'' \<or> name = ''suppression''" "entity_dimension e' name = Some d"
        "dd_authorized_generation d = Some (es_lifecycle_generation e')"
      by (auto simp: in_force_def)
    have k: "entity_dimension e name = Some d"
      using entity_step_decision [OF s n(1,2)] d by (auto simp: known_decisions_def)
    then have "es_lifecycle_generation e' \<le> es_lifecycle_generation e"
      using wf_entity_generation [OF entity_step_facts(6) [OF s] k] n(3) by simp
    then have "es_lifecycle_generation e' = es_lifecycle_generation e"
      using entity_step_facts(5) [OF s] by (simp split: if_splits)
    with k n show "d \<in> {d. in_force e d}" by (auto simp: in_force_def)
  qed
qed

lemma in_force_since:
  assumes "entity_step\<^sup>*\<^sup>* e e'" and "in_force e' d" and "\<not> ds_revision (es_decisions e) < dd_revision d"
  shows "in_force e d \<and> es_lifecycle_generation e = es_lifecycle_generation e'"
proof -
  have "in_force e d"
    using entity_ledger.live_since [OF assms(1), of d] assms(2,3) by (simp add: known_decisions_def)
  with assms(2) show ?thesis by (auto simp: in_force_def)
qed

text \<open>
  C37. Human authority over any sequence of accepted entity transactions: target and scope never
  change, revisions and generations only grow, and a decision in force later either was in force
  before, with no lifecycle change in between, or was issued by a human event since. In particular
  reopening an entity never restores the authority of a decision made before it was closed.
\<close>

theorem entity_authority_fresh:
  assumes "entity_step\<^sup>*\<^sup>* e e'"
  shows "es_entity_id e' = es_entity_id e \<and> es_cohort e' = es_cohort e
    \<and> es_revision e \<le> es_revision e' \<and> es_lifecycle_generation e \<le> es_lifecycle_generation e'
    \<and> (in_force e' d \<longrightarrow>
         in_force e d \<and> es_lifecycle_generation e = es_lifecycle_generation e'
         \<or> ds_revision (es_decisions e) < dd_revision d)
    \<and> (entity_step e' e'' \<longrightarrow> es_lifecycle e' \<noteq> es_lifecycle e'' \<longrightarrow> in_force e d \<longrightarrow> \<not> in_force e'' d)"
proof (intro conjI impI)
  assume "entity_step e' e''" "es_lifecycle e' \<noteq> es_lifecycle e''" "in_force e d"
  then show "\<not> in_force e'' d"
    using entity_steps_facts(5) [OF assms] entity_step_facts(5) [of e' e''] by (auto simp: in_force_def)
qed (use entity_steps_facts [OF assms] in_force_since [OF assms] in blast)+

section \<open>A sample history\<close>

definition sample_decision :: "string \<Rightarrow> string \<Rightarrow> int \<Rightarrow> int \<Rightarrow> dimension_decision" where
  "sample_decision v ev n g = \<lparr>dd_value = v, dd_event_id = ev, dd_revision = n, dd_references = [],
     dd_authorized_generation = Some g\<rparr>"

definition sample_entity :: "string \<Rightarrow> string \<Rightarrow> int \<Rightarrow> int \<Rightarrow> int \<Rightarrow> dimension_decision option \<Rightarrow> entity_snapshot" where
  "sample_entity k st n drev g d = \<lparr>es_entity_id = k, es_cohort = sample_cohort, es_lifecycle = st,
     es_revision = n,
     es_decisions = \<lparr>ds_target_scope = ''entity'', ds_target_id = k, ds_cohort = sample_cohort,
       ds_revision = drev, ds_verdict = d, ds_suppression = None, ds_metadata = None\<rparr>,
     es_lifecycle_generation = g\<rparr>"

definition sample_lifecycle :: "string \<Rightarrow> string \<Rightarrow> int \<Rightarrow> int \<Rightarrow> lifecycle_event" where
  "sample_lifecycle ev act n g = \<lparr>le_event_id = ev, le_entity_id = ''n'', le_cohort = sample_cohort,
     le_action = act, le_previous_revision = n, le_previous_generation = g, le_evidence_refs = [''e'']\<rparr>"

lemmas sample_entity_defs = wf_entity_def check_entity_def wf_decisions_def check_decisions_def check_dimension_def
  snapshot_event_ids_def sample_entity_def sample_decision_def check_decision_def VERDICTS_def SUPPRESSIONS_def
  check_references_def

lemma wf_sample_entity:
  "wf_entity (sample_entity ''n'' ''open'' 1 1 0 (Some (sample_decision ''confirmed'' ''h'' 1 0)))"
  "wf_entity (sample_entity ''n'' ''resolved'' 2 1 1 (Some (sample_decision ''confirmed'' ''h'' 1 0)))"
  by (simp_all add: sample_entity_defs ascii_text wf_sample_cohort)

lemma sample_entity_step:
  "entity_step (sample_entity ''n'' ''open'' 1 1 0 (Some (sample_decision ''confirmed'' ''h'' 1 0)))
     (sample_entity ''n'' ''resolved'' 2 1 1 (Some (sample_decision ''confirmed'' ''h'' 1 0)))"
proof (rule entity_step.step [where v = "Some (sample_lifecycle ''q'' ''resolve'' 1 0)" and aus = "[]"])
  show "opt_all wf_lifecycle_event (Some (sample_lifecycle ''q'' ''resolve'' 1 0))"
    by (simp add: wf_lifecycle_event_def check_lifecycle_event_def sample_lifecycle_def LIFECYCLE_TARGETS_def
        sample_refs ascii_text wf_sample_cohort)
  show "validate_entity_transition (sample_entity ''n'' ''open'' 1 1 0 (Some (sample_decision ''confirmed'' ''h'' 1 0)))
     (sample_entity ''n'' ''resolved'' 2 1 1 (Some (sample_decision ''confirmed'' ''h'' 1 0)))
     (Some (sample_lifecycle ''q'' ''resolve'' 1 0)) [] = Inr ()"
    by (simp add: validate_entity_transition_def check_lifecycle_change_def check_dimension_change_def
        snapshot_dimension_def sample_lifecycle_def sample_entity_def sample_decision_def snapshot_event_ids_def
        LIFECYCLE_TARGETS_def dget_def Let_def)
qed (simp_all add: wf_sample_entity)

theorem entity_authority_fresh_witness:
  "\<exists>e e' d. entity_step e e' \<and> in_force e d \<and> \<not> in_force e' d \<and> es_entity_id e' = es_entity_id e"
proof -
  let ?d = "sample_decision ''confirmed'' ''h'' 1 0"
  let ?e = "sample_entity ''n'' ''open'' 1 1 0 (Some ?d)"
  let ?e' = "sample_entity ''n'' ''resolved'' 2 1 1 (Some ?d)"
  have f: "in_force ?e ?d" and l: "es_lifecycle ?e \<noteq> es_lifecycle ?e'" by code_simp+
  note h = entity_authority_fresh [OF rtranclp.rtrancl_refl, of ?e ?d ?e']
  from h sample_entity_step f l have "\<not> in_force ?e' ?d" by blast
  moreover have "es_entity_id ?e' = es_entity_id ?e" by (simp add: sample_entity_def)
  ultimately show ?thesis using f sample_entity_step by blast
qed

end
