(* ===== verification/Continuity_Plan.thy ===== *)
theory Continuity_Plan
  imports Continuity_Policy Continuity_Entity
begin

text \<open>
  \<open>services/scan/continuity.py\<close>, fourth part: \<open>plan_continuity\<close>, which proposes for every current
  occurrence a link to a predecessor, a new identity or a block, and \<open>effective_decisions\<close>, which
  resolves the human decisions that apply to an occurrence.
\<close>

section \<open>Inputs of a plan\<close>

record predecessor_entity =
  pp_occurrence_id :: string
  pp_entity :: entity_snapshot

definition check_predecessor :: "predecessor_entity \<Rightarrow> unit res" where
  "check_predecessor p = check_text ''predecessor occurrence id'' (pp_occurrence_id p)"

record lineage_snapshot =
  ls_cohort :: cohort_key
  ls_predecessor_scan_id :: string
  ls_current_scan_id :: string
  ls_revision :: int

definition check_lineage :: "lineage_snapshot \<Rightarrow> unit res" where
  "check_lineage l =
     r_then (check_text ''predecessor scan'' (ls_predecessor_scan_id l))
     (r_then (check_text ''current scan'' (ls_current_scan_id l))
     (r_then (r_check ''continuity requires distinct predecessor/current scans''
       (ls_predecessor_scan_id l \<noteq> ls_current_scan_id l))
     (check_revision (ls_revision l))))"

record guard_revisions =
  gr_cohort :: cohort_key
  gr_predecessor_scan_id :: string
  gr_current_scan_id :: string
  gr_lineage_revision :: int
  gr_registry_revision :: int
  gr_policy_digest :: string
  gr_activation_event_id :: string
  gr_entity_id :: string
  gr_entity_revision :: int
  gr_entity_lifecycle_generation :: int
  gr_decision_revision :: int
  gr_predecessor_inventory_digest :: string
  gr_current_inventory_digest :: string

definition check_guards :: "guard_revisions \<Rightarrow> unit res" where
  "check_guards g =
     r_then (r_each check_revision
       [gr_lineage_revision g, gr_registry_revision g, gr_entity_revision g,
        gr_entity_lifecycle_generation g, gr_decision_revision g])
     (r_then (r_each (check_text ''guard identifier'')
       [gr_predecessor_scan_id g, gr_current_scan_id g, gr_activation_event_id g, gr_entity_id g])
     (r_then (r_check ''guards require distinct predecessor/current scans''
       (gr_predecessor_scan_id g \<noteq> gr_current_scan_id g))
     (r_each (check_digest ''guard digest'')
       [gr_policy_digest g, gr_predecessor_inventory_digest g, gr_current_inventory_digest g])))"

definition guards_match :: "guard_revisions \<Rightarrow> guard_revisions \<Rightarrow> bool" where
  "guards_match expected current = (expected = current)"

record link_proposal =
  lp_predecessor_occurrence_id :: string
  lp_current_occurrence_id :: string
  lp_entity_id :: string
  lp_current_occurrence_digest :: string
  lp_profile :: compatibility_profile
  lp_slice_digest :: string
  lp_predecessor_graph_digest :: string
  lp_current_graph_digest :: string
  lp_inherit_entity_decisions :: bool
  lp_guards :: guard_revisions

record occurrence_disposition =
  od_occurrence_id :: string
  od_status :: string
  od_reason :: string
  od_link :: "link_proposal option"

record continuity_plan =
  cl_dispositions :: "occurrence_disposition list"
  cl_retained_predecessor_ids :: "string list"
  cl_group_block_reason :: "string option"

section \<open>Eligibility\<close>

text \<open>The call \<open>CompatibilityProfile(...)\<close> at the end of \<open>_profile\<close>, with the default namespaces.\<close>

definition cohort_profile :: "cohort_key \<Rightarrow> identity_binding \<Rightarrow> compatibility_profile" where
  "cohort_profile c b = \<lparr>cp_engine = ck_engine c, cp_detector_id = ck_detector_id c,
     cp_vulnerability_class = ck_vulnerability_class c, cp_language = ck_language c,
     cp_rule_semantic_digest = ck_rule_semantic_digest c, cp_s_version = ck_s_version c,
     cp_binding = b, cp_graph_namespace = GRAPH_V2, cp_slice_namespace = SLICE_V2\<rparr>"

definition occurrence_profile :: "occurrence_view \<Rightarrow> compatibility_profile option res" where
  "occurrence_profile v =
     (let graph = io_artifact (ov_graph v); sliced = io_artifact (ov_sliced v); cohort = ov_cohort v
      in if ck_origin cohort \<noteq> ''deterministic-core'' \<or> ck_engine cohort \<notin> {''ifds'', ''ide''}
            \<or> ai_status graph \<noteq> ''completed'' \<or> ai_status sliced \<noteq> ''completed''
            \<or> ai_class graph \<noteq> Some ''strong'' \<or> ai_class sliced \<noteq> Some ''strong''
            \<or> ai_namespace graph \<noteq> Some GRAPH_V2 \<or> ai_namespace sliced \<noteq> Some SLICE_V2
         then Inr None
         else case ov_binding v of
           None \<Rightarrow> Inr None
         | Some b \<Rightarrow>
             if ov_duplicate_ambiguity v then Inr None
             else r_then (check_profile (cohort_profile cohort b)) (Inr (Some (cohort_profile cohort b))))"

text \<open>
  The loop that fills \<open>profiles\<close>: \<open>None\<close> when it leaves with a block, otherwise the dictionary.
\<close>

fun collect_profiles ::
  "compatibility_profile list \<Rightarrow> occurrence_view list \<Rightarrow> (string \<times> compatibility_profile) list
   \<Rightarrow> (string \<times> compatibility_profile) list option res" where
  "collect_profiles allowed [] profiles = Inr (Some profiles)"
| "collect_profiles allowed (v # vs) profiles = r_bind (occurrence_profile v) (\<lambda>p. case p of
       None \<Rightarrow> Inr None
     | Some q \<Rightarrow>
         if q \<notin> set allowed then Inr None
         else collect_profiles allowed vs (profiles @ [(ov_occurrence_id v, q)]))"

section \<open>The plan\<close>

text \<open>The loop that fills \<open>associations\<close>.\<close>

fun associate ::
  "string set \<Rightarrow> cohort_key \<Rightarrow> predecessor_entity list \<Rightarrow> (string \<times> entity_snapshot) list
   \<Rightarrow> (string \<times> entity_snapshot) list res" where
  "associate ids cohort [] assocs = Inr assocs"
| "associate ids cohort (p # ps) assocs =
     (if pp_occurrence_id p \<notin> ids \<or> es_cohort (pp_entity p) \<noteq> cohort
         \<or> pp_occurrence_id p \<in> set (map fst assocs)
      then Inl (ValueError ''invalid/duplicate/cross-scope predecessor entity association'')
      else associate ids cohort ps (assocs @ [(pp_occurrence_id p, pp_entity p)]))"

definition blocked :: "occurrence_view list \<Rightarrow> string list \<Rightarrow> string \<Rightarrow> continuity_plan" where
  "blocked current previous_ids reason =
     \<lparr>cl_dispositions = map (\<lambda>v. \<lparr>od_occurrence_id = ov_occurrence_id v, od_status = ''blocked'',
        od_reason = reason, od_link = None\<rparr>) current,
      cl_retained_predecessor_ids = sort (remdups previous_ids),
      cl_group_block_reason = Some reason\<rparr>"

definition disposition :: "occurrence_view \<Rightarrow> string \<Rightarrow> string \<Rightarrow> occurrence_disposition" where
  "disposition v status reason =
     \<lparr>od_occurrence_id = ov_occurrence_id v, od_status = status, od_reason = reason, od_link = None\<rparr>"

text \<open>\<open>any(count > 1 for count in Counter(...).values())\<close>\<close>

definition repeated :: "'a list \<Rightarrow> bool" where
  "repeated xs = list_ex (\<lambda>x. 1 < count_list xs x) xs"

definition slice_key :: "(string \<times> compatibility_profile) list \<Rightarrow> occurrence_view
    \<Rightarrow> compatibility_profile \<times> string option" where
  "slice_key profiles v = (dget profiles (ov_occurrence_id v), ai_digest (io_artifact (ov_sliced v)))"

text \<open>The end of the loop body, reached for a unique predecessor with an entity.\<close>

definition propose_link ::
  "(bytes \<Rightarrow> bytes) \<Rightarrow> detection_inventory \<Rightarrow> detection_inventory \<Rightarrow> string \<Rightarrow> policy_registry \<Rightarrow> lineage_snapshot
   \<Rightarrow> policy_entry \<Rightarrow> (string \<times> compatibility_profile) list \<Rightarrow> occurrence_view \<Rightarrow> entity_snapshot \<Rightarrow> occurrence_view
   \<Rightarrow> link_proposal res" where
  "propose_link H before after digest registry lineage entry profiles predecessor entity v =
     (case (ai_digest (io_artifact (ov_sliced v)), ai_digest (io_artifact (ov_graph v)),
            ai_digest (io_artifact (ov_graph predecessor))) of
        (Some slice, Some graph, Some old_graph) \<Rightarrow>
          let guards = \<lparr>gr_cohort = di_cohort after, gr_predecessor_scan_id = di_scan_id before,
                gr_current_scan_id = di_scan_id after, gr_lineage_revision = ls_revision lineage,
                gr_registry_revision = pr_revision registry, gr_policy_digest = digest,
                gr_activation_event_id = pe_activation_event_id entry, gr_entity_id = es_entity_id entity,
                gr_entity_revision = es_revision entity,
                gr_entity_lifecycle_generation = es_lifecycle_generation entity,
                gr_decision_revision = ds_revision (es_decisions entity),
                gr_predecessor_inventory_digest = di_content_digest before,
                gr_current_inventory_digest = di_content_digest after\<rparr>
          in r_then (check_guards guards)
             (Inr \<lparr>lp_predecessor_occurrence_id = ov_occurrence_id predecessor,
                lp_current_occurrence_id = ov_occurrence_id v, lp_entity_id = es_entity_id entity,
                lp_current_occurrence_digest = occurrence_digest H v,
                lp_profile = dget profiles (ov_occurrence_id v), lp_slice_digest = slice,
                lp_predecessor_graph_digest = old_graph, lp_current_graph_digest = graph,
                lp_inherit_entity_decisions = (es_lifecycle entity = ''open''), lp_guards = guards\<rparr>)
      | _ \<Rightarrow> Inl AssertionError)"

text \<open>The body of the loop over the current occurrences.\<close>

definition dispose ::
  "(occurrence_view \<Rightarrow> entity_snapshot \<Rightarrow> occurrence_view \<Rightarrow> link_proposal res) \<Rightarrow>
   (occurrence_view \<Rightarrow> 'k) \<Rightarrow> (string \<times> entity_snapshot) list \<Rightarrow> occurrence_view list \<Rightarrow> occurrence_view list \<Rightarrow>
   occurrence_view \<Rightarrow> occurrence_disposition res" where
  "dispose propose key assocs previous current v =
     (if 1 < count_list (map key previous) (key v) \<or> 1 < count_list (map key current) (key v)
      then Inr (disposition v ''blocked'' ''ambiguous_equal_slice'')
      else case find (\<lambda>u. key u = key v) previous of
        None \<Rightarrow> Inr (disposition v ''new_identity'' ''no_equal_eligible_predecessor'')
      | Some predecessor \<Rightarrow>
          (case map_of assocs (ov_occurrence_id predecessor) of
             None \<Rightarrow> Inr (disposition v ''blocked'' ''predecessor_entity_unavailable'')
           | Some entity \<Rightarrow> r_bind (propose predecessor entity v) (\<lambda>link.
               Inr \<lparr>od_occurrence_id = ov_occurrence_id v, od_status = ''linked'',
                    od_reason = ''unique_eligible_identity'', od_link = Some link\<rparr>)))"

text \<open>
  The loop itself; \<open>used\<close> collects the predecessor of each link as it is appended.
\<close>

fun dispose_loop ::
  "(occurrence_view \<Rightarrow> occurrence_disposition res) \<Rightarrow> occurrence_view list \<Rightarrow> string list \<Rightarrow>
   occurrence_disposition list \<Rightarrow> (string list \<times> occurrence_disposition list) res" where
  "dispose_loop f [] used ds = Inr (used, ds)"
| "dispose_loop f (v # vs) used ds = r_bind (f v) (\<lambda>d.
     dispose_loop f vs
       (case od_link d of None \<Rightarrow> used | Some l \<Rightarrow> used @ [lp_predecessor_occurrence_id l]) (ds @ [d]))"

text \<open>The group-wide conditions, in the order of the code: the reason of the block, if any.\<close>

definition group_block ::
  "detection_inventory \<Rightarrow> detection_inventory \<Rightarrow> policy_entry option \<Rightarrow> (string \<times> entity_snapshot) list \<Rightarrow>
   occurrence_view list \<Rightarrow> occurrence_view list \<Rightarrow> string option" where
  "group_block before after entry assocs previous current =
     (if \<not> di_sealed before \<or> \<not> di_sealed after then Some ''unsealed_detection_inventory''
      else if di_detection_state before \<noteq> ''completed'' \<or> di_detection_state after \<noteq> ''completed''
      then Some ''detection_incomplete''
      else if entry = None then Some ''matching_policy_inactive_or_unaccepted''
      else if \<not> distinct (map (\<lambda>(k, e). es_entity_id e) assocs) then Some ''ambiguous_predecessor_entity''
      else if repeated (map ov_scan_local_sink_binding previous) \<or> repeated (map ov_scan_local_sink_binding current)
      then Some ''multiple_occurrences_at_one_sink''
      else None)"

definition plan_continuity ::
  "(bytes \<Rightarrow> bytes) \<Rightarrow> detection_inventory \<Rightarrow> detection_inventory \<Rightarrow> string \<Rightarrow> policy_registry \<Rightarrow> lineage_snapshot
   \<Rightarrow> predecessor_entity list \<Rightarrow> continuity_plan res" where
  "plan_continuity H before after digest registry lineage predecessor_entities =
     r_then (check_digest ''matching policy digest'' digest)
     (r_then (r_check ''comparison scope or explicit lineage mismatch''
       (di_cohort before = di_cohort after \<and> ls_cohort lineage = di_cohort after
        \<and> ls_predecessor_scan_id lineage = di_scan_id before \<and> ls_current_scan_id lineage = di_scan_id after))
     (let previous = sort_key ov_occurrence_id (di_occurrences before);
          current = sort_key ov_occurrence_id (di_occurrences after);
          previous_ids = map ov_occurrence_id previous
      in r_then (r_check ''occurrence ids must distinguish separate scans''
           (set previous_ids \<inter> set (map ov_occurrence_id current) = {}))
         (r_bind (associate (set previous_ids) (di_cohort before) predecessor_entities []) (\<lambda>assocs.
          let entry = active registry digest
          in case group_block before after entry assocs previous current of
               Some reason \<Rightarrow> Inr (blocked current previous_ids reason)
             | None \<Rightarrow>
                 r_bind (collect_profiles (pd_profiles (pe_definition (the entry))) (previous @ current) []) (\<lambda>ps.
                   case ps of
                     None \<Rightarrow> Inr (blocked current previous_ids ''ineligible_or_unsupported_potential_competitor'')
                   | Some profiles \<Rightarrow>
                       r_bind (dispose_loop
                         (dispose (propose_link H before after digest registry lineage (the entry) profiles)
                           (slice_key profiles) assocs previous current) current [] []) (\<lambda>(used, ds).
                       Inr \<lparr>cl_dispositions = ds,
                            cl_retained_predecessor_ids =
                              sort (filter (\<lambda>k. k \<notin> set used) (remdups previous_ids)),
                            cl_group_block_reason = None\<rparr>))))))"

section \<open>Effective decisions\<close>

record effective_dimension =
  ed_value :: string
  ed_source :: string
  ed_event_id :: "string option"
  ed_references :: "string list"

record effective_result =
  ef_verdict :: effective_dimension
  ef_suppression :: effective_dimension
  ef_inheritance_active :: bool
  ef_inheritance_block_reason :: "string option"

text \<open>\<open>any(decision is not None and decision.authorized_generation == entity.lifecycle_generation ...)\<close>\<close>

definition currently_authorized :: "entity_snapshot \<Rightarrow> bool" where
  "currently_authorized e =
     list_ex (\<lambda>x. case x of None \<Rightarrow> False | Some d \<Rightarrow> dd_authorized_generation d = Some (es_lifecycle_generation e))
       [ds_verdict (es_decisions e), ds_suppression (es_decisions e)]"

text \<open>The chain of \<open>elif\<close>s on a link: the reason why it does not inherit, if any.\<close>

definition inheritance_block ::
  "(bytes \<Rightarrow> bytes) \<Rightarrow> occurrence_view \<Rightarrow> link_proposal \<Rightarrow> entity_snapshot option \<Rightarrow> policy_registry \<Rightarrow> string option res" where
  "inheritance_block H v link entity registry =
     (let entry = active registry (gr_policy_digest (lp_guards link)); g = lp_guards link in
      if lp_current_occurrence_id link \<noteq> ov_occurrence_id v
         \<or> lp_current_occurrence_digest link \<noteq> occurrence_digest H v
         \<or> gr_cohort g \<noteq> ov_cohort v \<or> gr_current_scan_id g \<noteq> ov_scan_id v \<or> gr_entity_id g \<noteq> lp_entity_id link
      then Inr (Some ''link_occurrence_scope_or_content_mismatch'')
      else if entry = None \<or> pe_activation_event_id (the entry) \<noteq> gr_activation_event_id g
      then Inr (Some ''policy_revoked_or_reactivation_needs_adjudication'')
      else if pr_revision registry < gr_registry_revision g
      then Inr (Some ''stale_registry_snapshot'')
      else r_bind
        (if lp_profile link \<notin> set (pd_profiles (pe_definition (the entry))) then Inr True
         else r_bind (occurrence_profile v) (\<lambda>p. Inr (p \<noteq> Some (lp_profile link)
           \<or> ai_digest (io_artifact (ov_sliced v)) \<noteq> Some (lp_slice_digest link)
           \<or> ai_digest (io_artifact (ov_graph v)) \<noteq> Some (lp_current_graph_digest link)))) (\<lambda>mismatch.
        if mismatch then Inr (Some ''link_identity_policy_mismatch'')
        else case entity of
          None \<Rightarrow> Inr (Some ''entity_scope_or_identity_mismatch'')
        | Some e \<Rightarrow>
            Inr (if es_entity_id e \<noteq> lp_entity_id link \<or> es_cohort e \<noteq> ov_cohort v
              then Some ''entity_scope_or_identity_mismatch''
              else if es_revision e < gr_entity_revision g \<or> ds_revision (es_decisions e) < gr_decision_revision g
              then Some ''stale_entity_or_decision_snapshot''
              else if \<not> lp_inherit_entity_decisions link \<or> es_lifecycle e \<noteq> ''open''
              then Some ''entity_requires_fresh_human_review''
              else if es_lifecycle_generation e \<noteq> gr_entity_lifecycle_generation g
              then Some ''link_requires_current_lifecycle_generation_adjudication''
              else if \<not> currently_authorized e
              then Some ''no_current_generation_human_authorization''
              else None)))"

text \<open>
  The local function \<open>dimension(name, default)\<close>: first the direct decision, then the inherited
  one, which counts only for the current generation.
\<close>

definition snapshot_decision :: "decision_snapshot \<Rightarrow> string \<Rightarrow> dimension_decision option" where
  "snapshot_decision s name = (if name = ''verdict'' then ds_verdict s else ds_suppression s)"

definition from_decision :: "dimension_decision \<Rightarrow> string \<Rightarrow> effective_dimension" where
  "from_decision d source = \<lparr>ed_value = dd_value d, ed_source = source, ed_event_id = Some (dd_event_id d),
     ed_references = dd_references d\<rparr>"

definition resolve_dimension ::
  "decision_snapshot option \<Rightarrow> decision_snapshot option \<Rightarrow> entity_snapshot option \<Rightarrow> string \<Rightarrow> string
   \<Rightarrow> effective_dimension" where
  "resolve_dimension direct inherited entity name dflt =
     (let fallback = \<lparr>ed_value = dflt, ed_source = ''default'', ed_event_id = None, ed_references = []\<rparr>;
          from_entity = (case inherited of
              None \<Rightarrow> fallback
            | Some s \<Rightarrow> (case snapshot_decision s name of
                None \<Rightarrow> fallback
              | Some d \<Rightarrow> (case entity of
                  None \<Rightarrow> fallback
                | Some e \<Rightarrow>
                    if dd_authorized_generation d \<noteq> Some (es_lifecycle_generation e) then fallback
                    else from_decision d ''entity'')))
      in case direct of
           None \<Rightarrow> from_entity
         | Some s \<Rightarrow> (case snapshot_decision s name of
             None \<Rightarrow> from_entity
           | Some d \<Rightarrow> from_decision d ''occurrence''))"

definition effective_decisions ::
  "(bytes \<Rightarrow> bytes) \<Rightarrow> occurrence_view \<Rightarrow> link_proposal option \<Rightarrow> entity_snapshot option \<Rightarrow> policy_registry
   \<Rightarrow> decision_snapshot option \<Rightarrow> effective_result res" where
  "effective_decisions H v link entity registry direct =
     r_then (r_check ''direct decision belongs to another occurrence/scope''
       (case direct of None \<Rightarrow> True | Some s \<Rightarrow> ds_target_scope s = ''occurrence''
          \<and> ds_target_id s = ov_occurrence_id v \<and> ds_cohort s = ov_cohort v))
     (r_bind (case link of
         None \<Rightarrow> Inr (Some ''no_authorized_link'')
       | Some l \<Rightarrow> inheritance_block H v l entity registry) (\<lambda>reason.
      let inherited = (if reason = None then map_option es_decisions entity else None)
      in Inr \<lparr>ef_verdict = resolve_dimension direct inherited entity ''verdict'' ''unreviewed'',
           ef_suppression = resolve_dimension direct inherited entity ''suppression'' ''inactive'',
           ef_inheritance_active = (inherited \<noteq> None), ef_inheritance_block_reason = reason\<rparr>))"

end
