(* ===== verification/Continuity_Contract.thy ===== *)
theory Continuity_Contract
  imports Continuity_Plan
begin

text \<open>
  What \<open>plan_continuity\<close> and \<open>effective_decisions\<close> promise: the plan implements a declarative
  matching between the two inventories, it fails closed, and the decisions of an entity reach a
  linked occurrence exactly as long as the policy activation and the lifecycle generation of the
  link are in force.
\<close>

section \<open>Loops as lists\<close>

definition profile_of :: "occurrence_view \<Rightarrow> compatibility_profile" where
  "profile_of v = cohort_profile (ov_cohort v) (the (ov_binding v))"

definition eligible :: "compatibility_profile list \<Rightarrow> occurrence_view \<Rightarrow> bool" where
  "eligible allowed v \<longleftrightarrow> (\<exists>q \<in> set allowed. occurrence_profile v = Inr (Some q))"

lemma occurrence_profile_Some:
  assumes "occurrence_profile v = Inr (Some q)"
  shows "q = profile_of v" and "ov_binding v \<noteq> None"
    and "ai_status (io_artifact (ov_graph v)) = ''completed''"
    and "ai_status (io_artifact (ov_sliced v)) = ''completed''"
  using assms by (auto simp: occurrence_profile_def Let_def profile_of_def split: if_splits option.splits)

lemma collect_profiles_Some:
  "collect_profiles allowed vs acc = Inr (Some ps) \<longleftrightarrow>
     (\<forall>v \<in> set vs. eligible allowed v) \<and> ps = acc @ map (\<lambda>v. (ov_occurrence_id v, profile_of v)) vs"
proof (induction vs arbitrary: acc)
  case (Cons v vs)
  show ?case
  proof (cases "eligible allowed v")
    case True
    then obtain q where "q \<in> set allowed" "occurrence_profile v = Inr (Some q)"
      by (auto simp: eligible_def)
    moreover from this(2) have "q = profile_of v" by (rule occurrence_profile_Some)
    ultimately show ?thesis using Cons.IH True by simp
  next
    case False
    then show ?thesis
      by (cases "occurrence_profile v") (auto simp: eligible_def split: option.splits)
  qed
qed auto

lemma collect_profiles_None:
  "collect_profiles allowed vs acc = Inr None \<Longrightarrow> \<not> (\<forall>v \<in> set vs. eligible allowed v)"
  using collect_profiles_Some [of allowed vs acc] by auto

lemma associate_Inr:
  assumes "associate ids c ps acc = Inr out" and "distinct (map fst acc)"
  shows "out = acc @ map (\<lambda>p. (pp_occurrence_id p, pp_entity p)) ps \<and> distinct (map fst out)
    \<and> (\<forall>p \<in> set ps. pp_occurrence_id p \<in> ids \<and> es_cohort (pp_entity p) = c)"
  using assms
proof (induction ps arbitrary: acc)
  case (Cons p ps)
  then have ok: "pp_occurrence_id p \<in> ids" "es_cohort (pp_entity p) = c" "pp_occurrence_id p \<notin> set (map fst acc)"
    and rest: "associate ids c ps (acc @ [(pp_occurrence_id p, pp_entity p)]) = Inr out"
    by (simp_all split: if_splits)
  have ih: "out = (acc @ [(pp_occurrence_id p, pp_entity p)]) @ map (\<lambda>p. (pp_occurrence_id p, pp_entity p)) ps
      \<and> distinct (map fst out) \<and> (\<forall>p \<in> set ps. pp_occurrence_id p \<in> ids \<and> es_cohort (pp_entity p) = c)"
    by (rule Cons.IH [OF rest]) (use ok Cons.prems(2) in simp)
  show ?case
  proof (intro conjI)
    show "out = acc @ map (\<lambda>p. (pp_occurrence_id p, pp_entity p)) (p # ps)" using ih by simp
    show "distinct (map fst out)" using ih by (elim conjE)
    show "\<forall>p \<in> set (p # ps). pp_occurrence_id p \<in> ids \<and> es_cohort (pp_entity p) = c" using ih ok by simp
  qed
qed simp

definition link_predecessors :: "occurrence_disposition list \<Rightarrow> string list" where
  "link_predecessors ds =
     concat (map (\<lambda>d. case od_link d of None \<Rightarrow> [] | Some l \<Rightarrow> [lp_predecessor_occurrence_id l]) ds)"

lemma dispose_loop_map:
  "dispose_loop f vs used ds = r_bind (r_map f vs) (\<lambda>ds'. Inr (used @ link_predecessors ds', ds @ ds'))"
proof (induction vs arbitrary: used ds)
  case (Cons v vs)
  then show ?case
    by (cases "f v"; cases "r_map f vs") (auto simp: link_predecessors_def split: option.splits)
qed (simp add: link_predecessors_def)

lemma repeated_iff: "repeated xs \<longleftrightarrow> \<not> distinct xs"
proof (induction xs)
  case (Cons x xs)
  have "count_list xs y = 0 \<longleftrightarrow> y \<notin> set xs" for y by (rule count_list_0_iff)
  then show ?case using Cons by (auto simp: repeated_def list_ex_iff Suc_lessI)
qed (simp add: repeated_def)

section \<open>The declarative plan\<close>

text \<open>
  Two occurrences of one cohort have the same identity when their full analysis bindings and their
  slice digests agree. A current occurrence continues a predecessor when the two are, each in its
  own inventory, the only ones with that identity.
\<close>

definition identity_key :: "occurrence_view \<Rightarrow> identity_binding option \<times> string option" where
  "identity_key v = (ov_binding v, ai_digest (io_artifact (ov_sliced v)))"

definition unique_match :: "occurrence_view list \<Rightarrow> occurrence_view list \<Rightarrow> occurrence_view \<Rightarrow> occurrence_view \<Rightarrow> bool" where
  "unique_match befores afters p c \<longleftrightarrow>
     p \<in> set befores \<and> c \<in> set afters \<and> identity_key p = identity_key c
     \<and> (\<forall>q \<in> set befores. identity_key q = identity_key c \<longrightarrow> q = p)
     \<and> (\<forall>d \<in> set afters. identity_key d = identity_key c \<longrightarrow> d = c)"

definition unmatched :: "occurrence_view list \<Rightarrow> occurrence_view list \<Rightarrow> occurrence_view \<Rightarrow> bool" where
  "unmatched befores afters c \<longleftrightarrow>
     c \<in> set afters \<and> (\<forall>q \<in> set befores. identity_key q \<noteq> identity_key c)
     \<and> (\<forall>d \<in> set afters. identity_key d = identity_key c \<longrightarrow> d = c)"

text \<open>The conditions on the whole group under which anything may be linked.\<close>

definition group_open ::
  "detection_inventory \<Rightarrow> detection_inventory \<Rightarrow> string \<Rightarrow> policy_registry \<Rightarrow> predecessor_entity list \<Rightarrow> bool" where
  "group_open before after digest registry preds \<longleftrightarrow>
     di_sealed before \<and> di_sealed after
     \<and> di_detection_state before = ''completed'' \<and> di_detection_state after = ''completed''
     \<and> (\<exists>entry. active registry digest = Some entry
          \<and> (\<forall>v \<in> set (di_occurrences before) \<union> set (di_occurrences after).
               eligible (pd_profiles (pe_definition entry)) v))
     \<and> distinct (map (\<lambda>p. es_entity_id (pp_entity p)) preds)
     \<and> distinct (map ov_scan_local_sink_binding (di_occurrences before))
     \<and> distinct (map ov_scan_local_sink_binding (di_occurrences after))"

section \<open>Unfolding a returned plan\<close>

lemma count_le_1:
  assumes "distinct xs"
  shows "1 < count_list (map f xs) (f x) \<longleftrightarrow> (\<exists>y \<in> set xs. \<exists>z \<in> set xs. y \<noteq> z \<and> f y = f x \<and> f z = f x)"
  using assms
proof (induction xs)
  case (Cons a xs)
  have zero: "count_list (map f xs) (f x) = 0 \<longleftrightarrow> \<not> (\<exists>y \<in> set xs. f y = f x)"
    unfolding count_list_0_iff set_map image_iff by metis
  show ?case
  proof (cases "f a = f x")
    case True
    then have "1 < count_list (map f (a # xs)) (f x) \<longleftrightarrow> (\<exists>y \<in> set xs. f y = f x)"
      using zero by (simp add: neq0_conv [symmetric] del: neq0_conv)
    also have "\<dots> \<longleftrightarrow> (\<exists>y \<in> set (a # xs). \<exists>z \<in> set (a # xs). y \<noteq> z \<and> f y = f x \<and> f z = f x)"
      (is "?l \<longleftrightarrow> ?r")
    proof
      assume ?l
      then obtain y where y: "y \<in> set xs" "f y = f x" by blast
      then have "a \<noteq> y" using Cons.prems by auto
      with y True show ?r by auto
    qed auto
    finally show ?thesis .
  next
    case False
    then show ?thesis using Cons.IH Cons.prems by auto
  qed
qed simp

lemma dispose_cases:
  assumes "dispose propose key assocs previous current v = Inr d"
    and "distinct previous" and "distinct current" and v: "v \<in> set current"
    and key: "\<And>u. u \<in> set previous \<union> set current \<Longrightarrow> key u = key v \<longleftrightarrow> identity_key u = identity_key v"
  obtains (linked) p e l where "unique_match previous current p v" "map_of assocs (ov_occurrence_id p) = Some e"
      "propose p e v = Inr l"
      "d = \<lparr>od_occurrence_id = ov_occurrence_id v, od_status = ''linked'',
           od_reason = ''unique_eligible_identity'', od_link = Some l\<rparr>"
    | (fresh) "unmatched previous current v"
      "d = disposition v ''new_identity'' ''no_equal_eligible_predecessor''"
    | (blocked) reason where "d = disposition v ''blocked'' reason" "\<not> unmatched previous current v"
      "\<And>p. unique_match previous current p v \<Longrightarrow> map_of assocs (ov_occurrence_id p) = None"
proof -
  let ?twice = "\<lambda>xs. \<exists>y \<in> set xs. \<exists>z \<in> set xs. y \<noteq> z \<and> identity_key y = identity_key v \<and> identity_key z = identity_key v"
  have p2: "1 < count_list (map key previous) (key v) \<longleftrightarrow> ?twice previous"
    unfolding count_le_1 [OF assms(2)] using key by (meson UnI1)
  have c2: "1 < count_list (map key current) (key v) \<longleftrightarrow> ?twice current"
    unfolding count_le_1 [OF assms(3)] using key by (meson UnI2)
  show thesis
  proof (cases "?twice previous \<or> ?twice current")
    case True
    then have "d = disposition v ''blocked'' ''ambiguous_equal_slice''"
      using assms(1) by (simp only: dispose_def p2 c2 if_True sum.inject)
    moreover have "\<not> unmatched previous current v" "\<not> unique_match previous current p v" for p
      using True unfolding unmatched_def unique_match_def by metis+
    ultimately show thesis using blocked by blast
  next
    case False
    then have once: "\<forall>c \<in> set current. identity_key c = identity_key v \<longrightarrow> c = v"
      using v by metis
    have d: "(case find (\<lambda>u. key u = key v) previous of
        None \<Rightarrow> Inr (disposition v ''new_identity'' ''no_equal_eligible_predecessor'')
      | Some predecessor \<Rightarrow> (case map_of assocs (ov_occurrence_id predecessor) of
             None \<Rightarrow> Inr (disposition v ''blocked'' ''predecessor_entity_unavailable'')
           | Some entity \<Rightarrow> r_bind (propose predecessor entity v) (\<lambda>link.
               Inr \<lparr>od_occurrence_id = ov_occurrence_id v, od_status = ''linked'',
                    od_reason = ''unique_eligible_identity'', od_link = Some link\<rparr>))) = Inr d"
      using assms(1) False by (simp only: dispose_def p2 c2 if_False)
    show thesis
    proof (cases "find (\<lambda>u. key u = key v) previous")
      case None
      then have "\<forall>u \<in> set previous. identity_key u \<noteq> identity_key v"
        using key by (auto simp: find_None_iff)
      with once v have "unmatched previous current v" by (simp add: unmatched_def)
      with fresh d None show thesis by simp
    next
      case (Some p)
      then have p: "p \<in> set previous" "identity_key p = identity_key v"
        using key by (auto simp: find_Some_iff)
      with False have "\<forall>u \<in> set previous. identity_key u = identity_key v \<longrightarrow> u = p" by metis
      with p once v have m: "unique_match previous current p v" unfolding unique_match_def by blast
      have only: "u = p" if "unique_match previous current u v" for u
        using that m by (auto simp: unique_match_def)
      have un: "\<not> unmatched previous current v" using p by (auto simp: unmatched_def)
      show thesis
      proof (cases "map_of assocs (ov_occurrence_id p)")
        case None
        then have "d = disposition v ''blocked'' ''predecessor_entity_unavailable''" using d Some by simp
        then show thesis by (rule blocked [OF _ un]) (drule only, simp add: None)
      next
        case (Some e)
        with d \<open>find _ _ = _\<close> linked [OF m Some] show thesis by (auto simp: r_bind_Inr_iff)
      qed
    qed
  qed
qed

definition associations :: "predecessor_entity list \<Rightarrow> (string \<times> entity_snapshot) list" where
  "associations preds = map (\<lambda>p. (pp_occurrence_id p, pp_entity p)) preds"

definition sorted_occurrences :: "detection_inventory \<Rightarrow> occurrence_view list" where
  "sorted_occurrences i = sort_key ov_occurrence_id (di_occurrences i)"

definition known_profiles :: "detection_inventory \<Rightarrow> detection_inventory \<Rightarrow> (string \<times> compatibility_profile) list" where
  "known_profiles before after =
     map (\<lambda>v. (ov_occurrence_id v, profile_of v)) (sorted_occurrences before @ sorted_occurrences after)"

lemma set_sorted_occurrences [simp]: "set (sorted_occurrences i) = set (di_occurrences i)"
  by (simp add: sorted_occurrences_def)

lemma distinct_sort_key_map: "distinct (map f (sort_key g xs)) \<longleftrightarrow> distinct (map f xs)"
  by (rule mset_eq_imp_distinct_iff) simp

text \<open>The conditions that raise before anything is planned.\<close>

definition plan_scope ::
  "detection_inventory \<Rightarrow> detection_inventory \<Rightarrow> string \<Rightarrow> lineage_snapshot \<Rightarrow> predecessor_entity list \<Rightarrow> bool" where
  "plan_scope before after digest lineage preds \<longleftrightarrow>
     is_digest digest \<and> di_cohort before = di_cohort after \<and> ls_cohort lineage = di_cohort after
     \<and> ls_predecessor_scan_id lineage = di_scan_id before \<and> ls_current_scan_id lineage = di_scan_id after
     \<and> set (map ov_occurrence_id (di_occurrences before)) \<inter> set (map ov_occurrence_id (di_occurrences after)) = {}
     \<and> distinct (map pp_occurrence_id preds)
     \<and> (\<forall>p \<in> set preds. pp_occurrence_id p \<in> set (map ov_occurrence_id (di_occurrences before))
          \<and> es_cohort (pp_entity p) = di_cohort before)"

lemma group_block_None:
  "group_block before after entry (associations preds) (sorted_occurrences before) (sorted_occurrences after) = None
   \<longleftrightarrow> di_sealed before \<and> di_sealed after \<and> di_detection_state before = ''completed''
     \<and> di_detection_state after = ''completed'' \<and> entry \<noteq> None
     \<and> distinct (map (\<lambda>p. es_entity_id (pp_entity p)) preds)
     \<and> distinct (map ov_scan_local_sink_binding (di_occurrences before))
     \<and> distinct (map ov_scan_local_sink_binding (di_occurrences after))"
  by (simp add: group_block_def associations_def comp_def repeated_iff sorted_occurrences_def distinct_sort_key_map)
    auto

lemma plan_cases:
  assumes "plan_continuity H before after digest registry lineage preds = Inr plan"
  obtains (blocked) reason where "plan_scope before after digest lineage preds"
      "\<not> group_open before after digest registry preds"
      "plan = blocked (sorted_occurrences after) (map ov_occurrence_id (sorted_occurrences before)) reason"
    | (planned) entry ds where "plan_scope before after digest lineage preds"
      "group_open before after digest registry preds" "active registry digest = Some entry"
      "r_map (dispose (propose_link H before after digest registry lineage entry (known_profiles before after))
        (slice_key (known_profiles before after)) (associations preds)
        (sorted_occurrences before) (sorted_occurrences after)) (sorted_occurrences after) = Inr ds"
      "plan = \<lparr>cl_dispositions = ds, cl_retained_predecessor_ids = sort (filter (\<lambda>k. k \<notin> set (link_predecessors ds))
          (remdups (map ov_occurrence_id (sorted_occurrences before)))), cl_group_block_reason = None\<rparr>"
proof -
  let ?ids = "map ov_occurrence_id (sorted_occurrences before)"
  obtain assocs where a: "associate (set ?ids) (di_cohort before) preds [] = Inr assocs"
    and rest: "(case group_block before after (active registry digest) assocs (sorted_occurrences before)
         (sorted_occurrences after) of
         Some reason \<Rightarrow> Inr (Continuity_Plan.blocked (sorted_occurrences after) ?ids reason)
       | None \<Rightarrow> r_bind (collect_profiles (pd_profiles (pe_definition (the (active registry digest))))
           (sorted_occurrences before @ sorted_occurrences after) []) (\<lambda>ps.
           case ps of None \<Rightarrow> Inr (Continuity_Plan.blocked (sorted_occurrences after) ?ids
               ''ineligible_or_unsupported_potential_competitor'')
           | Some profiles \<Rightarrow> r_bind (dispose_loop (dispose (propose_link H before after digest registry lineage
                 (the (active registry digest)) profiles) (slice_key profiles) assocs (sorted_occurrences before)
                 (sorted_occurrences after)) (sorted_occurrences after) [] []) (\<lambda>(used, ds).
               Inr \<lparr>cl_dispositions = ds, cl_retained_predecessor_ids =
                 sort (filter (\<lambda>k. k \<notin> set used) (remdups ?ids)), cl_group_block_reason = None\<rparr>))) = Inr plan"
    and s: "is_digest digest" "di_cohort before = di_cohort after" "ls_cohort lineage = di_cohort after"
      "ls_predecessor_scan_id lineage = di_scan_id before" "ls_current_scan_id lineage = di_scan_id after"
      "set ?ids \<inter> set (map ov_occurrence_id (sorted_occurrences after)) = {}"
    using assms unfolding plan_continuity_def Let_def sorted_occurrences_def [symmetric]
    by (auto simp only: r_then_ok r_bind_Inr_iff r_check_ok check_digest_ok)
  have as: "assocs = associations preds"
    using associate_Inr [OF a] by (simp add: associations_def)
  have scope: "plan_scope before after digest lineage preds"
    using associate_Inr [OF a] s by (auto simp: plan_scope_def as associations_def comp_def)
  show thesis
  proof (cases "group_block before after (active registry digest) assocs (sorted_occurrences before) (sorted_occurrences after)")
    case (Some reason)
    then have "\<not> group_open before after digest registry preds"
      using group_block_None [of before after "active registry digest" preds]
      by (auto simp: as group_open_def)
    moreover have "plan = Continuity_Plan.blocked (sorted_occurrences after) ?ids reason"
      using rest Some by simp
    ultimately show thesis using blocked scope by blast
  next
    case None
    then obtain entry where entry: "active registry digest = Some entry"
      using group_block_None by (auto simp: as)
    let ?allowed = "pd_profiles (pe_definition entry)"
    have open_iff: "group_open before after digest registry preds \<longleftrightarrow>
        (\<forall>v \<in> set (sorted_occurrences before @ sorted_occurrences after). eligible ?allowed v)"
      using None entry group_block_None [of before after "Some entry" preds] by (auto simp: as group_open_def)
    obtain ps where ps: "collect_profiles ?allowed (sorted_occurrences before @ sorted_occurrences after) [] = Inr ps"
      using rest None entry by (auto simp: r_bind_Inr_iff)
    show thesis
    proof (cases ps)
      case None2: None
      then have "\<not> group_open before after digest registry preds"
        using collect_profiles_None ps open_iff by blast
      moreover have "plan = Continuity_Plan.blocked (sorted_occurrences after) ?ids
          ''ineligible_or_unsupported_potential_competitor''"
        using rest None entry ps None2 by simp
      ultimately show thesis using blocked scope by blast
    next
      case (Some profiles)
      then have k: "profiles = known_profiles before after" and o: "group_open before after digest registry preds"
        using ps open_iff by (simp_all add: collect_profiles_Some known_profiles_def)
      show thesis
        using rest None entry ps Some planned [OF scope o entry]
        by (auto simp: r_bind_Inr_iff dispose_loop_map k as)
    qed
  qed
qed

section \<open>The plan implements the matching\<close>

lemma map_sort_key: "map f (sort_key f xs) = sort (map f xs)"
  by (rule properties_for_sort [symmetric]) simp_all

lemma dget_known:
  assumes "distinct (map f xs)" and "v \<in> set xs"
  shows "dget (map (\<lambda>v. (f v, g v)) xs) (f v) = g v"
proof -
  have "map_of (map (\<lambda>v. (f v, g v)) xs) (f v) = Some (g v)"
    by (rule map_of_is_SomeI) (use assms in \<open>auto simp: comp_def\<close>)
  then show ?thesis by (simp add: dget_def)
qed

lemma dget_known_profiles:
  assumes "plan_scope before after digest lineage preds" and "wf_inventory H before" and "wf_inventory H after"
    and "v \<in> set (di_occurrences before) \<union> set (di_occurrences after)"
  shows "dget (known_profiles before after) (ov_occurrence_id v) = profile_of v"
  unfolding known_profiles_def
proof (rule dget_known)
  show "distinct (map ov_occurrence_id (sorted_occurrences before @ sorted_occurrences after))"
    using assms(1) wf_inventoryD(1) [OF assms(2)] wf_inventoryD(1) [OF assms(3)]
    by (simp add: sorted_occurrences_def distinct_sort_key_map plan_scope_def)
qed (use assms(4) in auto)

lemma slice_key_eq:
  assumes "plan_scope before after digest lineage preds" and "group_open before after digest registry preds"
    and "wf_inventory H before" and "wf_inventory H after"
    and u: "u \<in> set (di_occurrences before) \<union> set (di_occurrences after)"
    and v: "v \<in> set (di_occurrences before) \<union> set (di_occurrences after)"
  shows "slice_key (known_profiles before after) u = slice_key (known_profiles before after) v
    \<longleftrightarrow> identity_key u = identity_key v"
proof -
  have "ov_cohort u = di_cohort before" "ov_cohort v = di_cohort before"
    using u v wf_inventoryD(3) [OF assms(3)] wf_inventoryD(3) [OF assms(4)] assms(1)
    by (auto simp: plan_scope_def)
  moreover have "ov_binding u \<noteq> None" "ov_binding v \<noteq> None"
    using u v assms(2) unfolding group_open_def eligible_def by (metis occurrence_profile_Some(2))+
  ultimately have "profile_of u = profile_of v \<longleftrightarrow> ov_binding u = ov_binding v"
    by (auto simp: profile_of_def cohort_profile_def)
  then show ?thesis
    using u v by (simp add: slice_key_def identity_key_def dget_known_profiles [OF assms(1,3,4)])
qed

lemma propose_link_Inr:
  assumes "propose_link H before after digest registry lineage entry profiles p e v = Inr l"
  shows "lp_predecessor_occurrence_id l = ov_occurrence_id p" and "lp_current_occurrence_id l = ov_occurrence_id v"
    and "lp_entity_id l = es_entity_id e" and "lp_current_occurrence_digest l = occurrence_digest H v"
    and "lp_profile l = dget profiles (ov_occurrence_id v)"
    and "ai_digest (io_artifact (ov_sliced v)) = Some (lp_slice_digest l)"
    and "ai_digest (io_artifact (ov_graph v)) = Some (lp_current_graph_digest l)"
    and "lp_inherit_entity_decisions l = (es_lifecycle e = ''open'')"
    and "gr_cohort (lp_guards l) = di_cohort after" and "gr_current_scan_id (lp_guards l) = di_scan_id after"
    and "gr_registry_revision (lp_guards l) = pr_revision registry" and "gr_policy_digest (lp_guards l) = digest"
    and "gr_activation_event_id (lp_guards l) = pe_activation_event_id entry"
    and "gr_entity_id (lp_guards l) = es_entity_id e" and "gr_entity_revision (lp_guards l) = es_revision e"
    and "gr_entity_lifecycle_generation (lp_guards l) = es_lifecycle_generation e"
    and "gr_decision_revision (lp_guards l) = ds_revision (es_decisions e)"
  using assms by (auto simp: propose_link_def Let_def split: option.splits)

text \<open>The situation in which the loop over the current occurrences has run.\<close>

definition loop_body where
  "loop_body H before after digest registry lineage preds entry =
     dispose (propose_link H before after digest registry lineage entry (known_profiles before after))
       (slice_key (known_profiles before after)) (associations preds)
       (sorted_occurrences before) (sorted_occurrences after)"

definition planned where
  "planned H before after digest registry lineage preds entry ds \<longleftrightarrow>
     plan_scope before after digest lineage preds \<and> group_open before after digest registry preds
     \<and> wf_inventory H before \<and> wf_inventory H after \<and> active registry digest = Some entry
     \<and> r_map (loop_body H before after digest registry lineage preds entry) (sorted_occurrences after) = Inr ds"

text \<open>The disposition of each current occurrence in a plan that is not blocked as a group.\<close>

lemma planned_cases:
  assumes "planned H before after digest registry lineage preds entry ds"
    and "loop_body H before after digest registry lineage preds entry v = Inr d"
    and v: "v \<in> set (di_occurrences after)"
  obtains (linked) p e l where "unique_match (di_occurrences before) (di_occurrences after) p v"
      "map_of (associations preds) (ov_occurrence_id p) = Some e"
      "propose_link H before after digest registry lineage entry (known_profiles before after) p e v = Inr l"
      "d = \<lparr>od_occurrence_id = ov_occurrence_id v, od_status = ''linked'',
           od_reason = ''unique_eligible_identity'', od_link = Some l\<rparr>"
    | (fresh) "unmatched (di_occurrences before) (di_occurrences after) v"
      "d = disposition v ''new_identity'' ''no_equal_eligible_predecessor''"
    | (blocked) reason where "d = disposition v ''blocked'' reason"
      "\<not> unmatched (di_occurrences before) (di_occurrences after) v"
      "\<And>p. unique_match (di_occurrences before) (di_occurrences after) p v \<Longrightarrow>
        map_of (associations preds) (ov_occurrence_id p) = None"
proof -
  have um: "unique_match (sorted_occurrences before) (sorted_occurrences after) =
      unique_match (di_occurrences before) (di_occurrences after)"
    and un: "unmatched (sorted_occurrences before) (sorted_occurrences after) =
      unmatched (di_occurrences before) (di_occurrences after)"
    by (auto simp: fun_eq_iff unique_match_def unmatched_def)
  have dist: "distinct (sorted_occurrences i)" if "wf_inventory H i" for i
    using wf_inventoryD(1) [OF that] distinct_sort_key_map [of ov_occurrence_id ov_occurrence_id]
    unfolding sorted_occurrences_def by (metis distinct_map)
  have s: "plan_scope before after digest lineage preds" "group_open before after digest registry preds"
      "wf_inventory H before" "wf_inventory H after"
    using assms(1) by (simp_all add: planned_def)
  show thesis
    by (rule dispose_cases [OF assms(2) [unfolded loop_body_def] dist [OF s(3)] dist [OF s(4)], unfolded um un])
      (use v linked fresh blocked slice_key_eq [OF s] in auto)
qed

definition plan_links :: "continuity_plan \<Rightarrow> (string \<times> string \<times> string) set" where
  "plan_links plan = {(lp_predecessor_occurrence_id l, lp_current_occurrence_id l, lp_entity_id l) | d l.
     d \<in> set (cl_dispositions plan) \<and> od_link d = Some l}"

definition plan_new :: "continuity_plan \<Rightarrow> string set" where
  "plan_new plan = {od_occurrence_id d | d. d \<in> set (cl_dispositions plan) \<and> od_status d = ''new_identity''}"

definition spec_links ::
  "detection_inventory \<Rightarrow> detection_inventory \<Rightarrow> string \<Rightarrow> policy_registry \<Rightarrow> predecessor_entity list
   \<Rightarrow> (string \<times> string \<times> string) set" where
  "spec_links before after digest registry preds =
     {(ov_occurrence_id p, ov_occurrence_id c, es_entity_id (pp_entity a)) | p c a.
        group_open before after digest registry preds
        \<and> unique_match (di_occurrences before) (di_occurrences after) p c
        \<and> a \<in> set preds \<and> pp_occurrence_id a = ov_occurrence_id p}"

definition spec_new ::
  "detection_inventory \<Rightarrow> detection_inventory \<Rightarrow> string \<Rightarrow> policy_registry \<Rightarrow> predecessor_entity list \<Rightarrow> string set" where
  "spec_new before after digest registry preds =
     {ov_occurrence_id c | c. group_open before after digest registry preds
        \<and> unmatched (di_occurrences before) (di_occurrences after) c}"

lemma map_of_associations:
  assumes "plan_scope before after digest lineage preds"
  shows "map_of (associations preds) k = Some e \<longleftrightarrow> (\<exists>a \<in> set preds. pp_occurrence_id a = k \<and> pp_entity a = e)"
proof -
  have "distinct (map fst (associations preds))"
    using assms by (simp add: plan_scope_def associations_def comp_def)
  then show ?thesis by (auto simp: associations_def map_of_eq_Some_iff)
qed

lemma blocked_facts:
  "map od_occurrence_id (cl_dispositions (blocked vs ids reason)) = map ov_occurrence_id vs"
  "plan_links (blocked vs ids reason) = {}" "plan_new (blocked vs ids reason) = {}"
  "link_predecessors (cl_dispositions (blocked vs ids reason)) = []"
  by (auto simp: blocked_def plan_links_def plan_new_def link_predecessors_def)

lemma r_map_Inr_set:
  assumes "r_map f vs = Inr ds"
  shows "d \<in> set ds \<longleftrightarrow> (\<exists>v \<in> set vs. f v = Inr d)"
  using assms by (induction vs arbitrary: ds) (auto simp: r_bind_Inr_iff)

lemma sort_retained:
  "sort (filter P (remdups (map ov_occurrence_id (sorted_occurrences i)))) = sort (filter P (map ov_occurrence_id (di_occurrences i)))"
  if "wf_inventory H i" for P
proof (rule sort_eq_of_mset)
  have "distinct (map ov_occurrence_id (sorted_occurrences i))"
    using wf_inventoryD(1) [OF that] by (simp add: sorted_occurrences_def distinct_sort_key_map)
  then show "mset (filter P (remdups (map ov_occurrence_id (sorted_occurrences i)))) =
      mset (filter P (map ov_occurrence_id (di_occurrences i)))"
    by (simp add: distinct_remdups_id sorted_occurrences_def)
qed

lemma r_map_Inr_map_eq:
  "r_map f vs = Inr ds \<Longrightarrow> (\<And>v d. v \<in> set vs \<Longrightarrow> f v = Inr d \<Longrightarrow> g d = h v) \<Longrightarrow> map g ds = map h vs"
  by (induction vs arbitrary: ds) (auto simp: r_bind_Inr_iff)

lemma planned_disposition:
  assumes "planned H before after digest registry lineage preds entry ds"
  shows "d \<in> set ds \<longleftrightarrow>
    (\<exists>v \<in> set (di_occurrences after). loop_body H before after digest registry lineage preds entry v = Inr d)"
  using assms r_map_Inr_set by (fastforce simp: planned_def)

lemma planned_exists:
  assumes "planned H before after digest registry lineage preds entry ds" and "v \<in> set (di_occurrences after)"
  obtains d where "d \<in> set ds" "loop_body H before after digest registry lineage preds entry v = Inr d"
  using assms r_map_Inr_all [of _ "sorted_occurrences after" ds v] by (auto simp: planned_def)

lemma planned_ids:
  assumes "planned H before after digest registry lineage preds entry ds"
  shows "map od_occurrence_id ds = map ov_occurrence_id (sorted_occurrences after)"
proof (rule r_map_Inr_map_eq)
  show "r_map (loop_body H before after digest registry lineage preds entry) (sorted_occurrences after) = Inr ds"
    using assms by (simp add: planned_def)
  fix v d assume "v \<in> set (sorted_occurrences after)"
    and d: "loop_body H before after digest registry lineage preds entry v = Inr d"
  then have v: "v \<in> set (di_occurrences after)" by simp
  show "od_occurrence_id d = ov_occurrence_id v"
    by (rule planned_cases [OF assms d v]) (simp_all add: disposition_def)
qed

lemma planned_links_sound:
  assumes pl: "planned H before after digest registry lineage preds entry (cl_dispositions plan)"
    and "x \<in> plan_links plan"
  shows "x \<in> spec_links before after digest registry preds"
proof -
  obtain d l v where d: "od_link d = Some l"
      "loop_body H before after digest registry lineage preds entry v = Inr d" "v \<in> set (di_occurrences after)"
    and x: "x = (lp_predecessor_occurrence_id l, lp_current_occurrence_id l, lp_entity_id l)"
    using assms(2) unfolding plan_links_def planned_disposition [OF pl] by auto
  have s: "plan_scope before after digest lineage preds" "group_open before after digest registry preds"
    using pl by (simp_all add: planned_def)
  show ?thesis
    using pl d(2,3)
  proof (cases rule: planned_cases)
    case (linked p e l')
    then show ?thesis
      using d(1) x s(2) propose_link_Inr(1-3) [OF linked(3)] map_of_associations [OF s(1)]
      by (auto simp: spec_links_def)
  qed (use d(1) in \<open>simp_all add: disposition_def\<close>)
qed

lemma planned_links_complete:
  assumes pl: "planned H before after digest registry lineage preds entry (cl_dispositions plan)"
    and "x \<in> spec_links before after digest registry preds"
  shows "x \<in> plan_links plan"
proof -
  have s: "plan_scope before after digest lineage preds" "group_open before after digest registry preds"
    using pl by (simp_all add: planned_def)
  obtain p c a where u: "unique_match (di_occurrences before) (di_occurrences after) p c"
    and a: "a \<in> set preds" "pp_occurrence_id a = ov_occurrence_id p"
    and x: "x = (ov_occurrence_id p, ov_occurrence_id c, es_entity_id (pp_entity a))"
    using assms(2) by (auto simp: spec_links_def)
  have e: "map_of (associations preds) (ov_occurrence_id p) = Some (pp_entity a)"
    using a map_of_associations [OF s(1)] by auto
  have c: "c \<in> set (di_occurrences after)" using u by (simp add: unique_match_def)
  obtain d where d: "d \<in> set (cl_dispositions plan)"
      "loop_body H before after digest registry lineage preds entry c = Inr d"
    by (rule planned_exists [OF pl c])
  show ?thesis
    using pl d(2) c
  proof (cases rule: planned_cases)
    case (linked p' e' l)
    then have "p' = p" using u by (auto simp: unique_match_def)
    then show ?thesis
      using linked e d(1) x propose_link_Inr(1-3) [OF linked(3)] by (force simp: plan_links_def)
  qed (use u e in \<open>auto simp: unmatched_def unique_match_def\<close>)
qed

lemma planned_new:
  assumes pl: "planned H before after digest registry lineage preds entry (cl_dispositions plan)"
  shows "plan_new plan = spec_new before after digest registry preds"
proof (intro equalityI subsetI)
  have s: "plan_scope before after digest lineage preds" "group_open before after digest registry preds"
    using pl by (simp_all add: planned_def)
  {
    fix x assume "x \<in> plan_new plan"
    then obtain d v where d: "od_status d = ''new_identity''" "x = od_occurrence_id d"
        "loop_body H before after digest registry lineage preds entry v = Inr d" "v \<in> set (di_occurrences after)"
      unfolding plan_new_def planned_disposition [OF pl] by auto
    show "x \<in> spec_new before after digest registry preds"
      by (cases rule: planned_cases [OF pl d(3,4)]) (use d(1,2) s(2) in \<open>auto simp: disposition_def spec_new_def\<close>)
  next
    fix x assume "x \<in> spec_new before after digest registry preds"
    then obtain c where u: "unmatched (di_occurrences before) (di_occurrences after) c" and x: "x = ov_occurrence_id c"
      by (auto simp: spec_new_def)
    have c: "c \<in> set (di_occurrences after)" using u by (simp add: unmatched_def)
    obtain d where d: "d \<in> set (cl_dispositions plan)"
        "loop_body H before after digest registry lineage preds entry c = Inr d"
      by (rule planned_exists [OF pl c])
    show "x \<in> plan_new plan"
      by (cases rule: planned_cases [OF pl d(2) c]) (use u d(1) x in \<open>force simp: unmatched_def unique_match_def plan_new_def disposition_def\<close>)+
  }
qed

lemma plan_outcome:
  assumes "plan_continuity H before after digest registry lineage preds = Inr plan"
    and "wf_inventory H before" and "wf_inventory H after"
  obtains (blocked) reason where "plan_scope before after digest lineage preds"
      "\<not> group_open before after digest registry preds"
      "plan = blocked (sorted_occurrences after) (map ov_occurrence_id (sorted_occurrences before)) reason"
    | (planned) entry where "planned H before after digest registry lineage preds entry (cl_dispositions plan)"
      "cl_group_block_reason plan = None"
      "cl_retained_predecessor_ids plan = sort (filter (\<lambda>k. k \<notin> set (link_predecessors (cl_dispositions plan)))
         (remdups (map ov_occurrence_id (sorted_occurrences before))))"
  using assms(1)
proof (cases rule: plan_cases)
  case (planned entry ds)
  then show thesis using that(2) assms(2,3) by (simp add: planned_def loop_body_def)
qed (rule that(1))

lemma distinct_map_eq_iff: "distinct (map f xs) \<Longrightarrow> x \<in> set xs \<Longrightarrow> y \<in> set xs \<Longrightarrow> f x = f y \<longleftrightarrow> x = y"
  by (auto simp: distinct_map dest: inj_onD)

text \<open>No predecessor, current occurrence or entity takes part in two links.\<close>

lemma spec_links_inj:
  assumes "plan_scope before after digest lineage preds" and "wf_inventory H before" and "wf_inventory H after"
    and "(k, c, e) \<in> spec_links before after digest registry preds"
    and "(k', c', e') \<in> spec_links before after digest registry preds"
    and "k = k' \<or> c = c' \<or> e = e'"
  shows "k = k' \<and> c = c' \<and> e = e'"
proof -
  obtain p v a where x: "k = ov_occurrence_id p" "c = ov_occurrence_id v" "e = es_entity_id (pp_entity a)"
      "unique_match (di_occurrences before) (di_occurrences after) p v" "a \<in> set preds" "pp_occurrence_id a = k"
    using assms(4) by (auto simp: spec_links_def)
  obtain p' v' a' where y: "k' = ov_occurrence_id p'" "c' = ov_occurrence_id v'" "e' = es_entity_id (pp_entity a')"
      "unique_match (di_occurrences before) (di_occurrences after) p' v'" "a' \<in> set preds" "pp_occurrence_id a' = k'"
    using assms(5) by (auto simp: spec_links_def)
  have open_: "distinct (map (\<lambda>p. es_entity_id (pp_entity p)) preds)"
    using assms(4) by (auto simp: spec_links_def group_open_def)
  have ids: "k = k' \<longleftrightarrow> p = p'" "c = c' \<longleftrightarrow> v = v'"
    unfolding x(1,2) y(1,2) using x(4) y(4)
    by (auto simp only: unique_match_def distinct_map_eq_iff [OF wf_inventoryD(1) [OF assms(2)]]
        distinct_map_eq_iff [OF wf_inventoryD(1) [OF assms(3)]])
  have "p = p' \<longleftrightarrow> v = v'" using x(4) y(4) unfolding unique_match_def by metis
  moreover have "k = k' \<longleftrightarrow> a = a'"
    unfolding x(6) [symmetric] y(6) [symmetric]
    by (rule distinct_map_eq_iff) (use assms(1) x(5) y(5) in \<open>simp_all add: plan_scope_def\<close>)
  moreover have "e = e' \<longleftrightarrow> a = a'"
    unfolding x(3) y(3) by (rule distinct_map_eq_iff [OF open_ x(5) y(5)])
  ultimately show ?thesis using assms(6) ids by blast
qed

text \<open>
  C4. \<open>plan_continuity\<close> implements the declarative matching. A returned plan has exactly one
  disposition per current occurrence, in id order, and retains exactly the predecessors that are
  not linked. Its links are exactly the triples (predecessor, current, entity) in which the two
  occurrences are, each in its own inventory, the only ones with their binding and slice digest,
  and the entity is the one associated with the predecessor, provided the whole group is open; its
  new identities are exactly the occurrences with no equal counterpart on either side. No
  predecessor, current occurrence or entity occurs in two links.
\<close>

theorem plan_refines_matching:
  assumes "plan_continuity H before after digest registry lineage preds = Inr plan"
    and "wf_inventory H before" and "wf_inventory H after"
  shows "map od_occurrence_id (cl_dispositions plan) = sort (map ov_occurrence_id (di_occurrences after))
    \<and> cl_retained_predecessor_ids plan = sort (filter (\<lambda>k. k \<notin> set (link_predecessors (cl_dispositions plan)))
        (map ov_occurrence_id (di_occurrences before)))
    \<and> plan_links plan = spec_links before after digest registry preds
    \<and> plan_new plan = spec_new before after digest registry preds
    \<and> (\<forall>(k, c, e) \<in> plan_links plan. \<forall>(k', c', e') \<in> plan_links plan.
         k = k' \<or> c = c' \<or> e = e' \<longrightarrow> k = k' \<and> c = c' \<and> e = e')"
  using assms
proof (cases rule: plan_outcome)
  case (blocked reason)
  have ret: "cl_retained_predecessor_ids plan = sort (map ov_occurrence_id (di_occurrences before))"
    using sort_retained [OF assms(2), of "\<lambda>_. True"] blocked(3) by (simp add: blocked_def)
  show ?thesis
    using blocked(2) ret unfolding blocked(3)
    by (simp add: blocked_facts spec_links_def spec_new_def sorted_occurrences_def map_sort_key)
next
  case (planned entry)
  have scope: "plan_scope before after digest lineage preds" using planned(1) by (simp add: planned_def)
  have links: "plan_links plan = spec_links before after digest registry preds"
    using planned_links_sound [OF planned(1)] planned_links_complete [OF planned(1)] by blast
  have inj: "\<forall>(k, c, e) \<in> plan_links plan. \<forall>(k', c', e') \<in> plan_links plan.
      k = k' \<or> c = c' \<or> e = e' \<longrightarrow> k = k' \<and> c = c' \<and> e = e'"
    unfolding links using spec_links_inj [OF scope assms(2,3)] by blast
  show ?thesis
    using links inj planned_new [OF planned(1)] planned_ids [OF planned(1)] planned(3) sort_retained [OF assms(2)]
    by (simp add: sorted_occurrences_def map_sort_key)
qed

text \<open>
  C38. Planning fails closed. A plan escapes the group block exactly when both inventories are
  sealed and completed, the policy is active in the registry, every occurrence of both sides has a
  strong identity under a profile of that policy, and neither entities nor sinks are shared;
  otherwise every current occurrence is blocked without a link and every predecessor is retained.
  The production registry, which is empty, never opens a group.
\<close>

theorem plan_fails_closed:
  assumes "plan_continuity H before after digest registry lineage preds = Inr plan"
    and "wf_inventory H before" and "wf_inventory H after"
  shows "(cl_group_block_reason plan = None \<longleftrightarrow> group_open before after digest registry preds)
    \<and> (\<not> group_open before after digest registry preds \<longrightarrow>
         (\<forall>d \<in> set (cl_dispositions plan). od_status d = ''blocked'' \<and> od_link d = None)
         \<and> cl_retained_predecessor_ids plan = sort (map ov_occurrence_id (di_occurrences before)))
    \<and> \<not> group_open before after digest PRODUCTION_POLICY_REGISTRY preds"
proof -
  have prod: "\<not> group_open before after digest PRODUCTION_POLICY_REGISTRY preds"
    by (simp add: group_open_def active_def PRODUCTION_POLICY_REGISTRY_def)
  from assms show ?thesis
  proof (cases rule: plan_outcome)
    case (blocked reason)
    then show ?thesis
      using prod sort_retained [OF assms(2), of "\<lambda>_. True"] by (simp add: blocked_def)
  next
    case (planned entry)
    then show ?thesis using prod by (simp add: planned_def)
  qed
qed

section \<open>Planning is total on constructed inputs\<close>

definition wf_plan_inputs ::
  "(bytes \<Rightarrow> bytes) \<Rightarrow> detection_inventory \<Rightarrow> detection_inventory \<Rightarrow> policy_registry \<Rightarrow> lineage_snapshot
   \<Rightarrow> predecessor_entity list \<Rightarrow> bool" where
  "wf_plan_inputs H before after registry lineage preds \<longleftrightarrow>
     wf_inventory H before \<and> wf_inventory H after \<and> wf_registry H registry
     \<and> check_lineage lineage = Inr () \<and> check_cohort (ls_cohort lineage) = Inr ()
     \<and> list_all (\<lambda>p. check_predecessor p = Inr () \<and> wf_entity (pp_entity p)) preds"

definition wildcard_free :: "cohort_key \<Rightarrow> bool" where
  "wildcard_free c \<longleftrightarrow>
     list_all (\<lambda>s. CHR ''*'' \<notin> set s) [ck_detector_id c, ck_vulnerability_class c, ck_language c, ck_s_version c]"

lemma wf_cohort_text:
  assumes "check_cohort c = Inr ()"
  shows "is_text (ck_engine c)" "is_text (ck_detector_id c)" "is_text (ck_vulnerability_class c)"
    "is_text (ck_language c)" "is_text (ck_s_version c)" "is_digest (ck_rule_semantic_digest c)"
  using assms by (simp_all add: check_cohort_def cohort_fields_def)

lemma occurrence_profile_total:
  assumes "wf_occurrence v" and "wildcard_free (ov_cohort v)"
  shows "\<exists>p. occurrence_profile v = Inr p"
proof -
  have "check_profile (cohort_profile (ov_cohort v) b) = Inr ()" if "ck_engine (ov_cohort v) \<in> {''ifds'', ''ide''}" for b
    using assms that wf_cohort_text [of "ov_cohort v"]
    by (auto simp: check_profile_def cohort_profile_def wf_occurrence_def wildcard_free_def)
  then show ?thesis
    by (auto simp: occurrence_profile_def Let_def r_then_def split: option.splits)
qed

lemma collect_profiles_total:
  assumes "\<And>v. v \<in> set vs \<Longrightarrow> \<exists>p. occurrence_profile v = Inr p"
  shows "\<exists>ps. collect_profiles allowed vs acc = Inr ps"
  using assms
proof (induction vs arbitrary: acc)
  case (Cons v vs)
  obtain p where "occurrence_profile v = Inr p" using Cons.prems [of v] by auto
  then show ?case using Cons by (auto split: option.splits)
qed simp

lemma associate_total:
  assumes "distinct (map fst acc @ map pp_occurrence_id ps)"
    and "\<forall>p \<in> set ps. pp_occurrence_id p \<in> ids \<and> es_cohort (pp_entity p) = c"
  shows "associate ids c ps acc = Inr (acc @ map (\<lambda>p. (pp_occurrence_id p, pp_entity p)) ps)"
  using assms by (induction ps arbitrary: acc) auto

lemma wf_completed_digest:
  "wf_observation x \<Longrightarrow> ai_status (io_artifact x) = ''completed'' \<Longrightarrow> \<exists>d. ai_digest (io_artifact x) = Some d"
  by (auto simp: wf_observation_def artifact_valid_def)

lemma propose_link_total:
  assumes "wf_plan_inputs H before after registry lineage preds"
    and "plan_scope before after digest lineage preds" and "active registry digest = Some entry"
    and "a \<in> set preds" and "p \<in> set (di_occurrences before)" and "v \<in> set (di_occurrences after)"
    and "eligible allowed p" and "eligible allowed v"
  shows "\<exists>l. propose_link H before after digest registry lineage entry profiles p (pp_entity a) v = Inr l"
proof -
  have wf: "wf_occurrence p" "wf_occurrence v"
    using assms(1,5,6) wf_inventoryD(3) by (auto simp: wf_plan_inputs_def)
  obtain s g og where d: "ai_digest (io_artifact (ov_sliced v)) = Some s"
      "ai_digest (io_artifact (ov_graph v)) = Some g" "ai_digest (io_artifact (ov_graph p)) = Some og"
    using assms(7,8) wf occurrence_profile_Some(3,4) wf_completed_digest
    unfolding eligible_def wf_occurrence_def by metis
  have e: "wf_entity (pp_entity a)" using assms(1,4) by (simp add: wf_plan_inputs_def list_all_iff)
  have en: "is_text (pe_activation_event_id entry)"
    using assms(1) active_Some [OF assms(3)] wf_registryD(4)
    by (auto simp: wf_plan_inputs_def wf_entry_def check_entry_def)
  show ?thesis
    using d e en assms(1,2) wf_inventoryD(4,5) [of H before] wf_inventoryD(4,5) [of H after]
    by (auto simp: propose_link_def Let_def check_guards_def check_lineage_def plan_scope_def
        wf_plan_inputs_def wf_entity_def check_entity_def wf_decisions_def check_decisions_def
        wf_registry_def check_registry_def)
qed

lemma dispose_total:
  assumes "\<And>p e. p \<in> set previous \<Longrightarrow> map_of assocs (ov_occurrence_id p) = Some e \<Longrightarrow> \<exists>l. propose p e v = Inr l"
  shows "\<exists>d. dispose propose key assocs previous current v = Inr d"
proof (cases "find (\<lambda>u. key u = key v) previous")
  case (Some p)
  then have p: "p \<in> set previous" by (auto simp: find_Some_iff)
  show ?thesis
  proof (cases "map_of assocs (ov_occurrence_id p)")
    case (Some e)
    then obtain l where "propose p e v = Inr l" using assms p by blast
    with Some \<open>find _ _ = Some p\<close> show ?thesis by (simp add: dispose_def)
  qed (simp add: dispose_def Some)
qed (simp add: dispose_def)

lemma loop_total:
  assumes "wf_plan_inputs H before after registry lineage preds"
    and "plan_scope before after digest lineage preds" and "active registry digest = Some entry"
    and "\<forall>v \<in> set (di_occurrences before) \<union> set (di_occurrences after). eligible allowed v"
  shows "\<exists>ds. r_map (loop_body H before after digest registry lineage preds entry) (sorted_occurrences after) = Inr ds"
proof (rule r_map_exists)
  fix v assume "v \<in> set (sorted_occurrences after)"
  then have v: "v \<in> set (di_occurrences after)" by simp
  show "\<exists>d. loop_body H before after digest registry lineage preds entry v = Inr d"
    unfolding loop_body_def
  proof (rule dispose_total)
    fix p e assume p: "p \<in> set (sorted_occurrences before)"
      and "map_of (associations preds) (ov_occurrence_id p) = Some e"
    then obtain a where "a \<in> set preds" "pp_entity a = e"
      using map_of_associations [OF assms(2)] by auto
    then show "\<exists>l. propose_link H before after digest registry lineage entry (known_profiles before after) p e v = Inr l"
      using propose_link_total [OF assms(1-3) _ _ v, of a p allowed] p v assms(4) by auto
  qed
qed

text \<open>
  C36. Planning is total on constructed inputs: when the cohort has no wildcard character, a plan is
  returned exactly when the policy digest is well formed, both inventories and the lineage name one
  cohort and the two scans, the occurrence ids of the scans are disjoint and each entity
  association is scoped to its own predecessor. No assertion fails and no guard is refused.
\<close>

theorem plan_returns:
  assumes "wf_plan_inputs H before after registry lineage preds" and "wildcard_free (di_cohort after)"
  shows "(\<exists>plan. plan_continuity H before after digest registry lineage preds = Inr plan)
    \<longleftrightarrow> plan_scope before after digest lineage preds"
proof
  assume "\<exists>plan. plan_continuity H before after digest registry lineage preds = Inr plan"
  then show "plan_scope before after digest lineage preds" by (auto elim: plan_cases)
next
  assume scope: "plan_scope before after digest lineage preds"
  let ?ids = "map ov_occurrence_id (sorted_occurrences before)"
  have assoc: "associate (set ?ids) (di_cohort before) preds [] = Inr (associations preds)"
    using scope associate_total [of "[]" preds "set ?ids" "di_cohort before"]
    by (simp add: plan_scope_def associations_def)
  have prof: "\<exists>p. occurrence_profile v = Inr p" if "v \<in> set (di_occurrences before) \<union> set (di_occurrences after)" for v
    using that assms scope wf_inventoryD(3) [of H before v] wf_inventoryD(3) [of H after v]
    by (auto simp: wf_plan_inputs_def plan_scope_def intro!: occurrence_profile_total)
  let ?as = "associations preds"
  let ?gb = "group_block before after (active registry digest) ?as (sorted_occurrences before) (sorted_occurrences after)"
  let ?allowed = "pd_profiles (pe_definition (the (active registry digest)))"
  let ?vs = "sorted_occurrences before @ sorted_occurrences after"
  obtain ps where ps: "collect_profiles ?allowed ?vs [] = Inr ps"
    using collect_profiles_total [of ?vs ?allowed "[]"] prof by auto
  have loop: "\<exists>ds. r_map (loop_body H before after digest registry lineage preds entry) (sorted_occurrences after) = Inr ds"
    if "active registry digest = Some entry" "ps = Some profiles" for entry profiles
    by (rule loop_total [OF assms(1) scope that(1), where allowed = ?allowed])
      (use ps that(2) in \<open>auto simp: collect_profiles_Some\<close>)
  have known: "profiles = known_profiles before after" if "ps = Some profiles" for profiles
    using ps that by (simp add: collect_profiles_Some known_profiles_def)
  have "?gb = None \<Longrightarrow> active registry digest \<noteq> None" using group_block_None by blast
  then show "\<exists>plan. plan_continuity H before after digest registry lineage preds = Inr plan"
    unfolding plan_continuity_def Let_def sorted_occurrences_def [symmetric]
    using scope assoc ps loop known
    by (auto simp: plan_scope_def r_bind_Inr_iff dispose_loop_map loop_body_def split: option.splits)
qed

section \<open>Links and decisions over time\<close>

lemma planned_link:
  assumes pl: "planned H before after digest registry lineage preds entry ds"
    and "d \<in> set ds" and "od_link d = Some l"
  obtains v p a where "v \<in> set (di_occurrences after)" "p \<in> set (di_occurrences before)" "a \<in> set preds"
    "pp_occurrence_id a = ov_occurrence_id p"
    "propose_link H before after digest registry lineage entry (known_profiles before after) p (pp_entity a) v = Inr l"
proof -
  obtain v where v: "v \<in> set (di_occurrences after)" "loop_body H before after digest registry lineage preds entry v = Inr d"
    using assms(2) planned_disposition [OF pl] by blast
  have s: "plan_scope before after digest lineage preds" using pl by (simp add: planned_def)
  show thesis
    using pl v(2,1)
  proof (cases rule: planned_cases)
    case (linked p e l')
    then obtain a where "a \<in> set preds" "pp_occurrence_id a = ov_occurrence_id p" "pp_entity a = e"
      using map_of_associations [OF s] by auto
    then show thesis
      using linked assms(3) v(1) that by (auto simp: unique_match_def)
  qed (use assms(3) in \<open>simp_all add: disposition_def\<close>)
qed

text \<open>What a link of a plan says about its occurrence, entity and policy.\<close>

definition link_of ::
  "(bytes \<Rightarrow> bytes) \<Rightarrow> policy_registry \<Rightarrow> string \<Rightarrow> occurrence_view \<Rightarrow> entity_snapshot \<Rightarrow> link_proposal \<Rightarrow> bool" where
  "link_of H registry digest v e l \<longleftrightarrow>
     lp_current_occurrence_id l = ov_occurrence_id v \<and> lp_current_occurrence_digest l = occurrence_digest H v
     \<and> gr_cohort (lp_guards l) = ov_cohort v \<and> gr_current_scan_id (lp_guards l) = ov_scan_id v
     \<and> lp_entity_id l = es_entity_id e \<and> gr_entity_id (lp_guards l) = es_entity_id e
     \<and> es_cohort e = ov_cohort v \<and> occurrence_profile v = Inr (Some (lp_profile l))
     \<and> ai_digest (io_artifact (ov_sliced v)) = Some (lp_slice_digest l)
     \<and> ai_digest (io_artifact (ov_graph v)) = Some (lp_current_graph_digest l)
     \<and> lp_inherit_entity_decisions l = (es_lifecycle e = ''open'')
     \<and> gr_registry_revision (lp_guards l) = pr_revision registry \<and> gr_policy_digest (lp_guards l) = digest
     \<and> gr_entity_revision (lp_guards l) = es_revision e
     \<and> gr_decision_revision (lp_guards l) = ds_revision (es_decisions e)
     \<and> gr_entity_lifecycle_generation (lp_guards l) = es_lifecycle_generation e
     \<and> gr_activation_event_id (lp_guards l) \<in> set (pr_used_activation_event_ids registry)"

lemma plan_link_of:
  assumes plan: "plan_continuity H before after digest registry lineage preds = Inr plan"
    and wf: "wf_plan_inputs H before after registry lineage preds"
    and d: "d \<in> set (cl_dispositions plan)" "od_link d = Some l"
    and v: "v \<in> set (di_occurrences after)" "ov_occurrence_id v = lp_current_occurrence_id l"
    and a: "a \<in> set preds" "pp_occurrence_id a = lp_predecessor_occurrence_id l"
  shows "link_of H registry digest v (pp_entity a) l"
proof -
  have wi: "wf_inventory H before" "wf_inventory H after" "wf_registry H registry"
    using wf by (simp_all add: wf_plan_inputs_def)
  obtain entry where pl: "planned H before after digest registry lineage preds entry (cl_dispositions plan)"
    using plan wi(1,2)
  proof (cases rule: plan_outcome)
    case (blocked reason)
    then show ?thesis using d by (auto simp: blocked_def)
  qed
  have s: "plan_scope before after digest lineage preds" "group_open before after digest registry preds"
      "active registry digest = Some entry"
    using pl by (simp_all add: planned_def)
  obtain v' p a' where l: "v' \<in> set (di_occurrences after)" "p \<in> set (di_occurrences before)" "a' \<in> set preds"
      "pp_occurrence_id a' = ov_occurrence_id p"
      "propose_link H before after digest registry lineage entry (known_profiles before after) p (pp_entity a') v' = Inr l"
    by (rule planned_link [OF pl d])
  note f = propose_link_Inr [OF l(5)]
  have v': "v' = v"
    using distinct_map_eq_iff [OF wf_inventoryD(1) [OF wi(2)] l(1) v(1)] v(2) f(2) by simp
  have "distinct (map pp_occurrence_id preds)" using s(1) by (simp add: plan_scope_def)
  from distinct_map_eq_iff [OF this l(3) a(1)] have a': "a' = a" using a(2) f(1) l(4) by simp
  obtain q where "occurrence_profile v = Inr (Some q)"
    using s(2) v(1) by (auto simp: group_open_def eligible_def)
  with occurrence_profile_Some(1) [OF this] have q: "occurrence_profile v = Inr (Some (profile_of v))" by simp
  have "lp_profile l = profile_of v"
    using f(5) dget_known_profiles [OF s(1) wi(1,2)] v(1) v' by simp
  moreover have "pe_activation_event_id entry \<in> set (pr_used_activation_event_ids registry)"
    using wf_registryD(3) [OF wi(3)] active_Some [OF s(3)] by blast
  moreover have "es_cohort (pp_entity a) = ov_cohort v" "di_cohort after = ov_cohort v" "di_scan_id after = ov_scan_id v"
    using s(1) a(1) wf_inventoryD(3) [OF wi(2) v(1)] by (auto simp: plan_scope_def)
  ultimately show ?thesis
    using f q by (simp add: link_of_def v' a')
qed

lemma steps_same_generation:
  assumes "entity_step\<^sup>*\<^sup>* e e'" and "es_lifecycle_generation e' = es_lifecycle_generation e"
  shows "es_lifecycle e' = es_lifecycle e"
  using assms
proof (induction rule: rtranclp_induct)
  case (step y z)
  have "es_lifecycle_generation e \<le> es_lifecycle_generation y" by (rule entity_steps_facts(5) [OF step.hyps(1)])
  then show ?case
    using step.IH step.prems entity_step_facts(5) [OF step.hyps(2)] by (auto split: if_splits)
qed simp

text \<open>The block chain on a link that a plan has produced, for later registries and entities.\<close>

definition policy_in_force :: "policy_registry \<Rightarrow> string \<Rightarrow> link_proposal \<Rightarrow> bool" where
  "policy_in_force r digest l \<longleftrightarrow> (\<exists>en. active r digest = Some en
     \<and> pe_activation_event_id en = gr_activation_event_id (lp_guards l)
     \<and> lp_profile l \<in> set (pd_profiles (pe_definition en)))"

lemma inheritance_block_link:
  assumes l: "link_of H r0 digest v e0 l" and r: "(registry_step H)\<^sup>*\<^sup>* r0 r" and e: "entity_step\<^sup>*\<^sup>* e0 e"
  shows "\<exists>reason. inheritance_block H v l (Some e) r = Inr reason
    \<and> (reason = None \<longleftrightarrow> policy_in_force r digest l \<and> es_lifecycle e0 = ''open''
        \<and> es_lifecycle_generation e = es_lifecycle_generation e0 \<and> (\<exists>x. in_force e x))"
proof -
  have rev: "\<not> pr_revision r < gr_registry_revision (lp_guards l)"
    using steps_revision [OF r] l by (simp add: link_of_def)
  note ef = entity_steps_facts [OF e]
  have ex: "currently_authorized e \<longleftrightarrow> (\<exists>x. in_force e x)"
    by (auto simp: currently_authorized_def in_force_def entity_dimension_def split: option.splits)
  show ?thesis
  proof (cases "policy_in_force r digest l")
    case True
    then obtain en where "active r digest = Some en" "pe_activation_event_id en = gr_activation_event_id (lp_guards l)"
        "lp_profile l \<in> set (pd_profiles (pe_definition en))"
      by (auto simp: policy_in_force_def)
    then show ?thesis
      using True l rev ef ex steps_same_generation [OF e]
      by (auto simp add: inheritance_block_def link_of_def Let_def)
  next
    case False
    then show ?thesis
      using l rev by (auto simp add: inheritance_block_def link_of_def Let_def policy_in_force_def)
  qed
qed

lemma dead_policy:
  assumes "link_of H r0 digest v e0 l" and "(registry_step H)\<^sup>*\<^sup>* r0 r1" and "(registry_step H)\<^sup>*\<^sup>* r1 r"
    and "(digest, gr_activation_event_id (lp_guards l)) \<notin> live_activations r1"
  shows "\<not> policy_in_force r digest l"
proof
  assume "policy_in_force r digest l"
  then have "(digest, gr_activation_event_id (lp_guards l)) \<in> live_activations r"
    by (auto simp: policy_in_force_def dest: active_live)
  moreover have "(digest, gr_activation_event_id (lp_guards l)) \<in> known_activations r0"
    using assms(1) by (simp add: link_of_def known_activations_def)
  ultimately show False using registry_ledger.dead_stays_dead [OF assms(2,3)] assms(4) by blast
qed

lemma resolve_not_inherited: "ed_source (resolve_dimension direct None entity name dflt) \<noteq> ''entity''"
  by (auto simp: resolve_dimension_def from_decision_def Let_def split: option.splits)

text \<open>
  C5. Composition of planning, registry, entity history and decision resolution. Take a link that a
  plan has proposed under registry \<open>r0\<close> for entity \<open>e0\<close>, any later registry \<open>r\<close>, any later snapshot
  \<open>e\<close> of that entity and any direct decision scoped to the occurrence. Resolving the decisions of the
  linked occurrence always returns, and the entity's decisions are inherited exactly when the policy
  activation of the link is still in force for its profile, the entity was open, its lifecycle
  generation has not advanced, and some human decision authorises that generation. Without
  inheritance no dimension comes from the entity. An activation that was not in force at some
  registry in between never inherits again.
\<close>

theorem link_inherits_while_in_force:
  assumes "plan_continuity H before after digest r0 lineage preds = Inr plan"
    and "wf_plan_inputs H before after r0 lineage preds"
    and "d \<in> set (cl_dispositions plan)" and "od_link d = Some l"
    and "v \<in> set (di_occurrences after)" and "ov_occurrence_id v = lp_current_occurrence_id l"
    and "a \<in> set preds" and "pp_occurrence_id a = lp_predecessor_occurrence_id l"
    and "(registry_step H)\<^sup>*\<^sup>* r0 r" and "entity_step\<^sup>*\<^sup>* (pp_entity a) e"
    and "opt_all (\<lambda>s. ds_target_scope s = ''occurrence'' \<and> ds_target_id s = ov_occurrence_id v
           \<and> ds_cohort s = ov_cohort v) direct"
  shows "\<exists>res. effective_decisions H v (Some l) (Some e) r direct = Inr res
    \<and> (ef_inheritance_active res \<longleftrightarrow>
         policy_in_force r digest l \<and> es_lifecycle (pp_entity a) = ''open''
         \<and> es_lifecycle_generation e = es_lifecycle_generation (pp_entity a) \<and> (\<exists>x. in_force e x))
    \<and> (\<not> ef_inheritance_active res \<longrightarrow>
         ed_source (ef_verdict res) \<noteq> ''entity'' \<and> ed_source (ef_suppression res) \<noteq> ''entity'')
    \<and> ((registry_step H)\<^sup>*\<^sup>* r0 r1 \<longrightarrow> (registry_step H)\<^sup>*\<^sup>* r1 r \<longrightarrow>
         (digest, gr_activation_event_id (lp_guards l)) \<notin> live_activations r1 \<longrightarrow> \<not> ef_inheritance_active res)"
proof -
  have l: "link_of H r0 digest v (pp_entity a) l" by (rule plan_link_of [OF assms(1-8)])
  obtain reason where b: "inheritance_block H v l (Some e) r = Inr reason"
    and iff: "reason = None \<longleftrightarrow> policy_in_force r digest l \<and> es_lifecycle (pp_entity a) = ''open''
        \<and> es_lifecycle_generation e = es_lifecycle_generation (pp_entity a) \<and> (\<exists>x. in_force e x)"
    using inheritance_block_link [OF l assms(9,10)] by blast
  have scope: "case direct of None \<Rightarrow> True | Some s \<Rightarrow> ds_target_scope s = ''occurrence''
      \<and> ds_target_id s = ov_occurrence_id v \<and> ds_cohort s = ov_cohort v"
    using assms(11) by (cases direct) simp_all
  show ?thesis
    using b iff scope dead_policy [OF l, of r1 r] resolve_not_inherited
    by (auto simp: effective_decisions_def r_then_def r_check_def Let_def)
qed

section \<open>A concrete plan\<close>

definition sample_before :: detection_inventory where
  "sample_before = sample_inventory ''s1''
     [sample_occurrence ''b'' ''s1'' ''y'' (CHR ''3''), sample_occurrence ''a'' ''s1'' ''x'' (CHR ''2'')]"

definition sample_after :: detection_inventory where
  "sample_after = sample_inventory ''s2''
     [sample_occurrence ''c'' ''s2'' ''x'' (CHR ''2''), sample_occurrence ''d'' ''s2'' ''z'' (CHR ''4'')]"

definition sample_lineage :: lineage_snapshot where
  "sample_lineage = \<lparr>ls_cohort = sample_cohort, ls_predecessor_scan_id = ''s1'', ls_current_scan_id = ''s2'', ls_revision = 0\<rparr>"

definition sample_open :: entity_snapshot where
  "sample_open = sample_entity ''n'' ''open'' 1 1 0 (Some (sample_decision ''confirmed'' ''h'' 1 0))"

definition sample_preds :: "predecessor_entity list" where
  "sample_preds = [\<lparr>pp_occurrence_id = ''a'', pp_entity = sample_open\<rparr>]"

definition sample_link :: link_proposal where
  "sample_link =
     \<lparr>lp_predecessor_occurrence_id = ''a'', lp_current_occurrence_id = ''c'', lp_entity_id = ''n'',
      lp_current_occurrence_digest = sample_digest, lp_profile = sample_profile,
      lp_slice_digest = replicate 64 (CHR ''2''), lp_predecessor_graph_digest = replicate 64 (CHR ''1''),
      lp_current_graph_digest = replicate 64 (CHR ''1''), lp_inherit_entity_decisions = True,
      lp_guards = \<lparr>gr_cohort = sample_cohort, gr_predecessor_scan_id = ''s1'', gr_current_scan_id = ''s2'',
        gr_lineage_revision = 0, gr_registry_revision = 1, gr_policy_digest = sample_digest,
        gr_activation_event_id = ''a1'', gr_entity_id = ''n'', gr_entity_revision = 1,
        gr_entity_lifecycle_generation = 0, gr_decision_revision = 1,
        gr_predecessor_inventory_digest = sample_digest, gr_current_inventory_digest = sample_digest\<rparr>\<rparr>"

definition sample_plan :: continuity_plan where
  "sample_plan =
     \<lparr>cl_dispositions =
        [\<lparr>od_occurrence_id = ''c'', od_status = ''linked'', od_reason = ''unique_eligible_identity'',
          od_link = Some sample_link\<rparr>,
         \<lparr>od_occurrence_id = ''d'', od_status = ''new_identity'', od_reason = ''no_equal_eligible_predecessor'',
          od_link = None\<rparr>],
      cl_retained_predecessor_ids = [''b''], cl_group_block_reason = None\<rparr>"

lemma wf_sample_observation:
  assumes "is_hex c" and "ns \<noteq> []"
  shows "wf_observation (sample_observation ns c)"
  using assms by (simp add: wf_observation_def check_observation_def sample_observation_def artifact_valid_def STATES_def
      sample_refs Let_def)

lemma sample_namespaces: "GRAPH_V2 \<noteq> []" "SLICE_V2 \<noteq> []"
  by (simp_all add: GRAPH_V2_def SLICE_V2_def)

lemma wf_sample_occurrence:
  assumes "is_text k" "is_text scan" "is_text sink" "is_hex c"
  shows "wf_occurrence (sample_occurrence k scan sink c)"
proof -
  have "is_hex (CHR ''1'')" by (simp add: is_hex_def)
  then show ?thesis
    using assms by (simp add: wf_occurrence_def check_occurrence_def sample_occurrence_def wf_sample_observation
        sample_namespaces wf_sample_cohort wf_sample_binding ascii_text)
qed

text \<open>
  The wildcard condition is needed. A cohort may carry the character \<open>*\<close> (\<open>CohortKey\<close> only asks for
  text), but \<open>_profile\<close> then constructs a \<open>CompatibilityProfile\<close>, whose \<open>__post_init__\<close> refuses it, so
  planning raises where an ineligible occurrence is meant to block its group.
\<close>

lemma wildcard_cohort_raises:
  "let v = sample_occurrence ''c'' ''s2'' ''x'' (CHR ''2'');
       w = v\<lparr>ov_cohort := (ov_cohort v)\<lparr>ck_language := ''*''\<rparr>\<rparr>
   in wf_occurrence w \<and> occurrence_profile w = Inl (ValueError ''policy profiles have no wildcard'')"
  unfolding Let_def
proof
  let ?v = "sample_occurrence ''c'' ''s2'' ''x'' (CHR ''2'')"
  let ?w = "?v\<lparr>ov_cohort := (ov_cohort ?v)\<lparr>ck_language := ''*''\<rparr>\<rparr>"
  have "wf_occurrence ?v" by (rule wf_sample_occurrence) (simp_all add: ascii_text is_hex_def)
  moreover have "check_cohort (sample_cohort\<lparr>ck_language := ''*''\<rparr>) = Inr ()"
    by (simp add: check_cohort_def cohort_fields_def sample_cohort_def ascii_text)
  ultimately show "wf_occurrence ?w"
    by (simp add: wf_occurrence_def check_occurrence_def sample_occurrence_def)
  show "occurrence_profile ?w = Inl (ValueError ''policy profiles have no wildcard'')"
    by (simp add: occurrence_profile_def sample_occurrence_def sample_observation_def sample_cohort_def
        cohort_profile_def check_profile_def check_text_def r_check_def r_then_def ascii_text Let_def)
qed

lemma sample_profile_ok: "check_profile sample_profile = Inr ()"
  by (simp add: check_profile_def sample_profile_def ascii_text)

lemma sample_occurrence_profile: "occurrence_profile (sample_occurrence k scan sink c) = Inr (Some sample_profile)"
proof -
  have "cohort_profile sample_cohort sample_binding = sample_profile"
    by (simp add: cohort_profile_def sample_cohort_def sample_profile_def)
  moreover have "ck_origin sample_cohort = ''deterministic-core''" "ck_engine sample_cohort = ''ifds''"
    by (simp_all add: sample_cohort_def)
  ultimately show ?thesis
    by (simp add: occurrence_profile_def sample_occurrence_def sample_observation_def sample_profile_ok Let_def)
qed

lemma sample_sorted:
  "sort_key ov_occurrence_id (di_occurrences sample_before) = [sample_occurrence ''a'' ''s1'' ''x'' (CHR ''2''), sample_occurrence ''b'' ''s1'' ''y'' (CHR ''3'')]"
  "sort_key ov_occurrence_id (di_occurrences sample_after) = [sample_occurrence ''c'' ''s2'' ''x'' (CHR ''2''), sample_occurrence ''d'' ''s2'' ''z'' (CHR ''4'')]"
  by (simp_all add: sample_before_def sample_after_def sample_inventory_def sample_occurrence_def less_eq_char_def)


lemma sample_inventory_fields:
  "di_cohort sample_before = sample_cohort" "di_cohort sample_after = sample_cohort"
  "di_scan_id sample_before = ''s1''" "di_scan_id sample_after = ''s2''"
  "di_sealed sample_before" "di_sealed sample_after"
  "di_detection_state sample_before = ''completed''" "di_detection_state sample_after = ''completed''"
  "di_content_digest sample_before = sample_digest" "di_content_digest sample_after = sample_digest"
  by (simp_all add: sample_before_def sample_after_def sample_inventory_def)

lemma sample_lineage_fields:
  "ls_cohort sample_lineage = sample_cohort" "ls_predecessor_scan_id sample_lineage = ''s1''"
  "ls_current_scan_id sample_lineage = ''s2''"
  by (simp_all add: sample_lineage_def)

lemma sample_active: "active (sample_registry 1) sample_digest = Some (sample_entry ''active'' ''a1'')"
  by (simp add: active_def sample_registry_def sample_entry_def)

lemma sample_propose:
  "propose_link sample_hash sample_before sample_after sample_digest (sample_registry 1) sample_lineage
     (sample_entry ''active'' ''a1'') profiles (sample_occurrence ''a'' ''s1'' ''x'' (CHR ''2'')) sample_open
     (sample_occurrence ''c'' ''s2'' ''x'' (CHR ''2'')) = Inr (sample_link\<lparr>lp_profile := dget profiles ''c''\<rparr>)"
  by (simp add: propose_link_def sample_occurrence_def sample_observation_def sample_open_def sample_entity_def
      occurrence_digest_def sample_hash_digest sample_link_def sample_inventory_fields sample_lineage_def
      sample_entry_def check_guards_def ascii_text sample_registry_def Let_def)


lemma sample_occurrence_fields [simp]:
  "ov_occurrence_id (sample_occurrence k scan sink c) = k"
  "ov_scan_local_sink_binding (sample_occurrence k scan sink c) = sink"
  "ai_digest (io_artifact (ov_sliced (sample_occurrence k scan sink c))) = Some (replicate 64 c)"
  by (simp_all add: sample_occurrence_def sample_observation_def)

lemma sample_plan_run:
  "plan_continuity sample_hash sample_before sample_after sample_digest (sample_registry 1) sample_lineage sample_preds
   = Inr sample_plan"
proof -
  have p: "pd_profiles (pe_definition (sample_entry ''active'' ''a1'')) = [sample_profile]"
    by (simp add: sample_entry_def sample_policy_def)
  have l: "sample_link\<lparr>lp_profile := sample_profile\<rparr> = sample_link" by (simp add: sample_link_def)
  have r: "replicate 64 c = replicate 64 d \<longleftrightarrow> c = d" for c d :: char by simp
  have k: "lp_predecessor_occurrence_id sample_link = ''a''" by (simp add: sample_link_def)
  have e: "es_cohort sample_open = sample_cohort" by (simp add: sample_open_def sample_entity_def)
  show ?thesis
    by (simp add: plan_continuity_def sample_sorted sample_inventory_fields sample_lineage_fields
        sample_preds_def sample_active group_block_def repeated_def p sample_occurrence_profile
        dispose_def slice_key_def dget_def sample_propose l r disposition_def sample_plan_def r_then_def r_check_def check_digest_def Let_def k e)
qed

lemma wf_sample_inventory:
  assumes "check_cohort sample_cohort = Inr ()" "is_text scan" "list_all wf_occurrence os"
    "list_all (\<lambda>v. ov_scan_id v = scan \<and> ov_capture_id v = ''cap'' \<and> ov_source_tree_digest v = sample_digest
       \<and> ov_cohort v = sample_cohort) os"
    "distinct (map ov_occurrence_id os)"
  shows "wf_inventory sample_hash (sample_inventory scan os)"
proof -
  have t: "is_text ''cap''" by (simp add: ascii_text)
  have ids: "is_text (ov_occurrence_id v)" if "v \<in> set os" for v
    using assms(3) that by (auto simp: list_all_iff wf_occurrence_def check_occurrence_def)
  show ?thesis
    using assms t ids
    by (simp add: wf_inventory_def check_inventory_def sample_inventory_def list_all_iff inventory_digest_def
        sample_hash_digest sample_refs Let_def)
qed

lemma wf_samples: "wf_inventory sample_hash sample_before" "wf_inventory sample_hash sample_after"
  unfolding sample_before_def sample_after_def
  by (rule wf_sample_inventory; simp add: wf_sample_cohort wf_sample_occurrence ascii_text is_hex_def;
      simp add: sample_occurrence_def)+

lemma wf_sample_inputs: "wf_plan_inputs sample_hash sample_before sample_after (sample_registry 1) sample_lineage sample_preds"
proof -
  have "check_lineage sample_lineage = Inr ()" "check_cohort (ls_cohort sample_lineage) = Inr ()"
    by (simp_all add: check_lineage_def sample_lineage_def ascii_text wf_sample_cohort)
  moreover have "list_all (\<lambda>p. check_predecessor p = Inr () \<and> wf_entity (pp_entity p)) sample_preds"
    by (simp add: sample_preds_def check_predecessor_def ascii_text sample_open_def wf_sample_entity)
  ultimately show ?thesis using wf_samples wf_sample_registry by (simp add: wf_plan_inputs_def)
qed

theorem plan_refines_matching_witness:
  "plan_continuity sample_hash sample_before sample_after sample_digest (sample_registry 1) sample_lineage sample_preds
     = Inr sample_plan
   \<and> map od_status (cl_dispositions sample_plan) = [''linked'', ''new_identity'']
   \<and> cl_retained_predecessor_ids sample_plan = [''b'']
   \<and> plan_links sample_plan = spec_links sample_before sample_after sample_digest (sample_registry 1) sample_preds"
proof -
  have "map od_status (cl_dispositions sample_plan) = [''linked'', ''new_identity'']"
    and "cl_retained_predecessor_ids sample_plan = [''b'']"
    by (simp_all add: sample_plan_def)
  with plan_refines_matching [OF sample_plan_run wf_samples] sample_plan_run show ?thesis by blast
qed

definition blocked_plan :: continuity_plan where
  "blocked_plan = blocked [sample_occurrence ''c'' ''s2'' ''x'' (CHR ''2''), sample_occurrence ''d'' ''s2'' ''z'' (CHR ''4'')]
     [''a'', ''b''] ''matching_policy_inactive_or_unaccepted''"

theorem plan_fails_closed_witness:
  "cl_group_block_reason sample_plan = None
   \<and> group_open sample_before sample_after sample_digest (sample_registry 1) sample_preds
   \<and> plan_continuity sample_hash sample_before sample_after sample_digest PRODUCTION_POLICY_REGISTRY
        sample_lineage sample_preds = Inr blocked_plan
   \<and> list_all (\<lambda>d. od_status d = ''blocked'' \<and> od_link d = None) (cl_dispositions blocked_plan)"
proof -
  have "es_cohort sample_open = sample_cohort" by (simp add: sample_open_def sample_entity_def)
  then have b: "plan_continuity sample_hash sample_before sample_after sample_digest PRODUCTION_POLICY_REGISTRY
        sample_lineage sample_preds = Inr blocked_plan"
    by (simp add: plan_continuity_def sample_sorted sample_inventory_fields sample_lineage_def sample_preds_def
        group_block_def active_def PRODUCTION_POLICY_REGISTRY_def blocked_plan_def r_then_def r_check_def
        check_digest_def Let_def)
  have "cl_group_block_reason sample_plan = None" by (simp add: sample_plan_def)
  with plan_fails_closed [OF sample_plan_run wf_samples] plan_fails_closed [OF b wf_samples] b
  show ?thesis by (simp add: list_all_iff)
qed

theorem plan_returns_witness:
  "plan_scope sample_before sample_after sample_digest sample_lineage sample_preds
   \<and> (\<exists>plan. plan_continuity sample_hash sample_before sample_after sample_digest (sample_registry 1)
        sample_lineage sample_preds = Inr plan)
   \<and> \<not> (\<exists>plan. plan_continuity sample_hash sample_before sample_after ''md5:0'' (sample_registry 1)
        sample_lineage sample_preds = Inr plan)"
proof -
  have w: "wildcard_free (di_cohort sample_after)"
    and s: "plan_scope sample_before sample_after sample_digest sample_lineage sample_preds"
    and n: "\<not> plan_scope sample_before sample_after ''md5:0'' sample_lineage sample_preds"
    by (simp_all add: wildcard_free_def plan_scope_def sample_inventory_fields sample_lineage_def sample_preds_def
        sample_cohort_def sample_open_def sample_entity_def sample_before_def sample_after_def sample_inventory_def)
      (simp add: is_digest_def)
  show ?thesis
    using s n plan_returns [OF wf_sample_inputs w, of sample_digest] plan_returns [OF wf_sample_inputs w, of "''md5:0''"]
    by simp
qed

text \<open>The link inherits under its registry, and not after revocation and reactivation.\<close>

theorem link_inherits_while_in_force_witness:
  "\<exists>v res res'. ov_occurrence_id v = ''c''
     \<and> effective_decisions sample_hash v (Some sample_link) (Some sample_open) (sample_registry 1) None = Inr res
     \<and> ef_inheritance_active res
     \<and> effective_decisions sample_hash v (Some sample_link) (Some sample_open) (sample_registry 3) None = Inr res'
     \<and> \<not> ef_inheritance_active res'"
proof -
  let ?v = "sample_occurrence ''c'' ''s2'' ''x'' (CHR ''2'')"
  let ?d = "hd (cl_dispositions sample_plan)"
  let ?a = "hd sample_preds"
  have d: "?d \<in> set (cl_dispositions sample_plan)" and l: "od_link ?d = Some sample_link"
    by (simp_all add: sample_plan_def)
  have v: "?v \<in> set (di_occurrences sample_after)" by (simp add: sample_after_def sample_inventory_def)
  have k: "ov_occurrence_id ?v = lp_current_occurrence_id sample_link"
    and a: "?a \<in> set sample_preds" and p: "pp_occurrence_id ?a = lp_predecessor_occurrence_id sample_link"
    by (simp_all add: sample_occurrence_def sample_link_def sample_preds_def)
  have e: "entity_step\<^sup>*\<^sup>* (pp_entity ?a) sample_open" by (simp add: sample_preds_def)
  have dir: "opt_all (\<lambda>s. ds_target_scope s = ''occurrence'' \<and> ds_target_id s = ov_occurrence_id ?v
           \<and> ds_cohort s = ov_cohort ?v) None" by simp
  note t = link_inherits_while_in_force [OF sample_plan_run wf_sample_inputs d l v k a p _ e dir]
  have steps: "(registry_step sample_hash)\<^sup>*\<^sup>* (sample_registry 1) (sample_registry 2)"
      "(registry_step sample_hash)\<^sup>*\<^sup>* (sample_registry 2) (sample_registry 3)"
      "(registry_step sample_hash)\<^sup>*\<^sup>* (sample_registry 1) (sample_registry 3)"
    using registry_sample_steps(2,3) by auto
  have dead: "(sample_digest, gr_activation_event_id (lp_guards sample_link)) \<notin> live_activations (sample_registry 2)"
    by (auto simp: live_activations_def sample_registry_def sample_entry_def)
  have live: "policy_in_force (sample_registry 1) sample_digest sample_link"
    unfolding policy_in_force_def
    by (rule exI [where x = "sample_entry ''active'' ''a1''"])
      (simp add: active_def sample_registry_def sample_entry_def sample_link_def sample_policy_def)
  have f: "in_force sample_open (sample_decision ''confirmed'' ''h'' 1 0)" "es_lifecycle (pp_entity ?a) = ''open''"
      "es_lifecycle_generation sample_open = es_lifecycle_generation (pp_entity ?a)"
    by code_simp+
  from t [OF rtranclp.rtrancl_refl] live f obtain res where
    "effective_decisions sample_hash ?v (Some sample_link) (Some sample_open) (sample_registry 1) None = Inr res"
    "ef_inheritance_active res" by blast
  moreover from t [OF steps(3), of "sample_registry 2"] steps(1,2) dead obtain res' where
    "effective_decisions sample_hash ?v (Some sample_link) (Some sample_open) (sample_registry 3) None = Inr res'"
    "\<not> ef_inheritance_active res'" by blast
  moreover have "ov_occurrence_id ?v = ''c''" by (simp add: sample_occurrence_def)
  ultimately show ?thesis by blast
qed

end
