(* ===== verification/Json_Parse.thy ===== *)
theory Json_Parse
  imports Json
begin

text \<open>
  \<open>json.loads(text, object_pairs_hook=..., parse_int=..., parse_float=..., parse_constant=...)\<close> of
  the standard library, as the control documents are read.

  The text is given by its UTF-8 bytes; every character of the JSON grammar is ASCII, so reading
  bytes is reading characters. A decoded \<open>str\<close> is given by the bytes of its code points; a lone
  surrogate, which only a \<open>\uXXXX\<close> escape can produce, has the three bytes its code point would
  have in UTF-8, and \<open>encode("utf-8")\<close> refuses it. The hooks are called where the library calls
  them, so an exception that a hook raises is the one that surfaces first.
\<close>

section \<open>Text\<close>

definition in_range :: "nat \<Rightarrow> nat \<Rightarrow> char \<Rightarrow> bool" where
  "in_range a b c = (a \<le> of_char c \<and> of_char c \<le> b)"

abbreviation cont_byte :: "char \<Rightarrow> bool" where
  "cont_byte \<equiv> in_range 0x80 0xBF"

text \<open>\<open>data.decode("utf-8")\<close> succeeds: the well-formed byte sequences of the Unicode standard.\<close>

definition utf8_tail :: "char \<Rightarrow> nat option" where
  "utf8_tail a =
     (if in_range 0 0x7F a then Some 0 else if in_range 0xC2 0xDF a then Some 1
      else if in_range 0xE0 0xEF a then Some 2 else if in_range 0xF0 0xF4 a then Some 3 else None)"

definition utf8_second :: "char \<Rightarrow> char \<Rightarrow> bool" where
  "utf8_second a b =
     (if in_range 0xE0 0xE0 a then in_range 0xA0 0xBF b
      else if in_range 0xED 0xED a then in_range 0x80 0x9F b
      else if in_range 0xF0 0xF0 a then in_range 0x90 0xBF b
      else if in_range 0xF4 0xF4 a then in_range 0x80 0x8F b else cont_byte b)"

fun utf8_rest :: "char \<Rightarrow> bytes \<Rightarrow> bool" where
  "utf8_rest a [] = True"
| "utf8_rest a (b # s) \<longleftrightarrow> utf8_second a b \<and> list_all cont_byte s"

fun utf8_valid :: "bytes \<Rightarrow> bool" where
  "utf8_valid [] = True"
| "utf8_valid (a # s) =
     (case utf8_tail a of
        None \<Rightarrow> False
      | Some k \<Rightarrow> k \<le> length s \<and> utf8_rest a (take k s) \<and> utf8_valid (drop k s))"

text \<open>\<open>len(value)\<close>: the number of code points.\<close>

definition text_len :: "string \<Rightarrow> nat" where
  "text_len s = length (filter (\<lambda>c. \<not> cont_byte c) s)"

text \<open>\<open>value.encode("utf-8")\<close> raises: a surrogate code point occurs.\<close>

fun has_surrogate :: "string \<Rightarrow> bool" where
  "has_surrogate (a # b # s) \<longleftrightarrow> in_range 0xED 0xED a \<and> in_range 0xA0 0xBF b \<or> has_surrogate (b # s)"
| "has_surrogate _ = False"

text \<open>The bytes of a code point.\<close>

definition utf8_bytes :: "nat \<Rightarrow> string" where
  "utf8_bytes u =
     (if u < 0x80 then [char_of u]
      else if u < 0x800 then [char_of (0xC0 + u div 64), char_of (0x80 + u mod 64)]
      else if u < 0x10000
      then [char_of (0xE0 + u div 4096), char_of (0x80 + u div 64 mod 64), char_of (0x80 + u mod 64)]
      else [char_of (0xF0 + u div 262144), char_of (0x80 + u div 4096 mod 64),
            char_of (0x80 + u div 64 mod 64), char_of (0x80 + u mod 64)])"

section \<open>Strings: \<open>scanstring\<close> with \<open>strict=True\<close>\<close>

definition hex_value :: "char \<Rightarrow> nat option" where
  "hex_value c =
     (if in_range 48 57 c then Some (of_char c - 48)
      else if in_range 97 102 c then Some (of_char c - 87)
      else if in_range 65 70 c then Some (of_char c - 55) else None)"

text \<open>Exactly four hexadecimal digits.\<close>

definition hex4 :: "string \<Rightarrow> nat option" where
  "hex4 s = (if length s = 4 \<and> (\<forall>c \<in> set s. hex_value c \<noteq> None)
     then Some (fold (\<lambda>c n. 16 * n + the (hex_value c)) s 0) else None)"

definition high_surrogate :: "nat \<Rightarrow> bool" where
  "high_surrogate u = (0xD800 \<le> u \<and> u \<le> 0xDBFF)"

definition low_surrogate :: "nat \<Rightarrow> bool" where
  "low_surrogate u = (0xDC00 \<le> u \<and> u \<le> 0xDFFF)"

text \<open>
  The code point of a \<open>\u\<close> escape and the rest of the text. A high surrogate is joined with the
  escape of a low surrogate that follows it.
\<close>

definition unicode_escape :: "string \<Rightarrow> (nat \<times> string) option" where
  "unicode_escape s =
     (case hex4 (take 4 s) of
        None \<Rightarrow> None
      | Some u \<Rightarrow>
          let r = drop 4 s in
          if high_surrogate u \<and> take 2 r = [CHR 0x5C, CHR ''u'']
          then (case hex4 (take 4 (drop 2 r)) of
                  None \<Rightarrow> None
                | Some w \<Rightarrow>
                    if low_surrogate w
                    then Some (0x10000 + (u - 0xD800) * 0x400 + (w - 0xDC00), drop 6 r)
                    else Some (u, r))
          else Some (u, r))"

definition simple_escape :: "char \<Rightarrow> char option" where
  "simple_escape e = map_of
     [(CHR 0x22, CHR 0x22), (CHR 0x5C, CHR 0x5C), (CHR ''/'', CHR ''/''), (CHR ''b'', CHR 0x08),
      (CHR ''f'', CHR 0x0C), (CHR ''n'', CHR 0x0A), (CHR ''r'', CHR 0x0D), (CHR ''t'', CHR 0x09)] e"

text \<open>The text after the opening quote is split into the decoded string and what follows it.\<close>

definition prepend :: "string \<Rightarrow> (string \<times> string) res \<Rightarrow> (string \<times> string) res" where
  "prepend p x = r_bind x (\<lambda>(t, r). Inr (p @ t, r))"

lemma unicode_escape_length: "unicode_escape s = Some (u, r) \<Longrightarrow> length r < length s"
  by (auto simp: unicode_escape_def hex4_def Let_def split: option.splits if_splits)

function scanstring :: "string \<Rightarrow> (string \<times> string) res" where
  "scanstring [] = Inl JSONDecodeError"
| "scanstring (c # s) =
     (if c = CHR 0x22 then Inr ([], s)
      else if c = CHR 0x5C then
        (case s of
           [] \<Rightarrow> Inl JSONDecodeError
         | e # s' \<Rightarrow>
             if e = CHR ''u''
             then (case unicode_escape s' of
                     None \<Rightarrow> Inl JSONDecodeError
                   | Some (u, r) \<Rightarrow> prepend (utf8_bytes u) (scanstring r))
             else (case simple_escape e of
                     None \<Rightarrow> Inl JSONDecodeError
                   | Some d \<Rightarrow> prepend [d] (scanstring s')))
      else if of_char c < (0x20 :: nat) then Inl JSONDecodeError
      else prepend [c] (scanstring s))"
  by pat_completeness auto

termination
  by (relation "measure length") (auto dest!: unicode_escape_length)

section \<open>Numbers: \<open>_match_number_unicode\<close>\<close>

definition starts :: "char \<Rightarrow> string \<Rightarrow> bool" where
  "starts c s = (case s of [] \<Rightarrow> False | d # _ \<Rightarrow> d = c)"

text \<open>The sign and the integer digits; a leading zero stands alone.\<close>

definition scan_int :: "string \<Rightarrow> (string \<times> string) option" where
  "scan_int s =
     (let sign = if starts CHR ''-'' s then ''-'' else '''';
          r = drop (length sign) s
      in if starts CHR ''0'' r then Some (sign @ ''0'', tl r)
         else if r \<noteq> [] \<and> is_digit (hd r) then Some (sign @ takeWhile is_digit r, dropWhile is_digit r)
         else None)"

definition scan_frac :: "string \<Rightarrow> string \<times> string" where
  "scan_frac s =
     (if starts CHR ''.'' s \<and> takeWhile is_digit (tl s) \<noteq> []
      then (CHR ''.'' # takeWhile is_digit (tl s), dropWhile is_digit (tl s)) else ([], s))"

definition scan_exp :: "string \<Rightarrow> string \<times> string" where
  "scan_exp s =
     (if starts CHR ''e'' s \<or> starts CHR ''E'' s
      then let r = tl s;
               sign = if starts CHR ''-'' r \<or> starts CHR ''+'' r then [hd r] else [];
               r' = drop (length sign) r
           in if takeWhile is_digit r' \<noteq> []
              then (hd s # sign @ takeWhile is_digit r', dropWhile is_digit r') else ([], s)
      else ([], s))"

section \<open>Values\<close>

record json_hooks =
  parse_int :: "string \<Rightarrow> json res"
  parse_float :: "string \<Rightarrow> json res"
  parse_constant :: "string \<Rightarrow> json res"
  object_pairs_hook :: "(string \<times> json) list \<Rightarrow> json res"

definition is_ws :: "char \<Rightarrow> bool" where
  "is_ws c \<longleftrightarrow> c = CHR '' '' \<or> c = CHR 0x09 \<or> c = CHR 0x0A \<or> c = CHR 0x0D"

abbreviation skip_ws :: "string \<Rightarrow> string" where
  "skip_ws \<equiv> dropWhile is_ws"

definition with_rest :: "string \<Rightarrow> json res \<Rightarrow> (json \<times> string) res" where
  "with_rest r x = r_bind x (\<lambda>v. Inr (v, r))"

definition parse_number :: "json_hooks \<Rightarrow> string \<Rightarrow> (json \<times> string) res" where
  "parse_number h s =
     (case scan_int s of
        None \<Rightarrow> Inl JSONDecodeError
      | Some (i, r) \<Rightarrow>
          let (f, r1) = scan_frac r; (e, r2) = scan_exp r1 in
          with_rest r2 (if f = [] \<and> e = [] then parse_int h i else parse_float h (i @ f @ e)))"

text \<open>
  \<open>scan_once\<close>, \<open>JSONArray\<close> and \<open>JSONObject\<close>. The first argument bounds the recursion; twice the
  length of the text is enough (\<open>parse_fuel\<close>).
\<close>

fun parse_value :: "json_hooks \<Rightarrow> nat \<Rightarrow> string \<Rightarrow> (json \<times> string) res"
  and parse_elements :: "json_hooks \<Rightarrow> nat \<Rightarrow> string \<Rightarrow> (json list \<times> string) res"
  and parse_members :: "json_hooks \<Rightarrow> nat \<Rightarrow> string \<Rightarrow> ((string \<times> json) list \<times> string) res" where
  "parse_value h 0 s = Inl OutOfFuel"
| "parse_value h (Suc n) s =
     (if starts CHR 0x22 s then r_bind (scanstring (tl s)) (\<lambda>(t, r). Inr (JStr t, r))
      else if starts CHR ''{'' s then
        (let r = skip_ws (tl s) in
         if starts CHR ''}'' r then with_rest (tl r) (object_pairs_hook h [])
         else r_bind (parse_members h n r) (\<lambda>(kvs, r'). with_rest r' (object_pairs_hook h kvs)))
      else if starts CHR ''['' s then
        (let r = skip_ws (tl s) in
         if starts CHR '']'' r then Inr (JArr [], tl r)
         else r_bind (parse_elements h n r) (\<lambda>(vs, r'). Inr (JArr vs, r')))
      else if take 4 s = ''null'' then Inr (JNull, drop 4 s)
      else if take 4 s = ''true'' then Inr (JBool True, drop 4 s)
      else if take 5 s = ''false'' then Inr (JBool False, drop 5 s)
      else if take 3 s = ''NaN'' then with_rest (drop 3 s) (parse_constant h ''NaN'')
      else if take 8 s = ''Infinity'' then with_rest (drop 8 s) (parse_constant h ''Infinity'')
      else if take 9 s = ''-Infinity'' then with_rest (drop 9 s) (parse_constant h ''-Infinity'')
      else parse_number h s)"
| "parse_elements h 0 s = Inl OutOfFuel"
| "parse_elements h (Suc n) s =
     r_bind (parse_value h n s) (\<lambda>(v, q).
       let r = skip_ws q in
       if starts CHR '']'' r then Inr ([v], tl r)
       else if starts CHR '','' r
       then r_bind (parse_elements h n (skip_ws (tl r))) (\<lambda>(vs, r'). Inr (v # vs, r'))
       else Inl JSONDecodeError)"
| "parse_members h 0 s = Inl OutOfFuel"
| "parse_members h (Suc n) s =
     (if \<not> starts CHR 0x22 s then Inl JSONDecodeError
      else r_bind (scanstring (tl s)) (\<lambda>(k, q).
        let r = skip_ws q in
        if \<not> starts CHR '':'' r then Inl JSONDecodeError
        else r_bind (parse_value h n (skip_ws (tl r))) (\<lambda>(v, q).
          let r = skip_ws q in
          if starts CHR ''}'' r then Inr ([(k, v)], tl r)
          else if starts CHR '','' r
          then r_bind (parse_members h n (skip_ws (tl r))) (\<lambda>(kvs, r'). Inr ((k, v) # kvs, r'))
          else Inl JSONDecodeError)))"

definition loads :: "json_hooks \<Rightarrow> string \<Rightarrow> json res" where
  "loads h s = r_bind (parse_value h (2 * length s + 1) (skip_ws s)) (\<lambda>(v, r).
     if skip_ws r = [] then Inr v else Inl JSONDecodeError)"

section \<open>Every parser consumes input\<close>

lemma starts_Cons [simp]: "starts c (d # s) \<longleftrightarrow> d = c" "\<not> starts c []"
  by (simp_all add: starts_def)

lemma startsE: assumes "starts c s" obtains r where "s = c # r"
  using assms by (cases s) auto

lemma starts_length: "starts c s \<Longrightarrow> length (tl s) < length s"
  by (cases s) simp_all

lemma skip_ws_length: "length (skip_ws s) \<le> length s"
  by (rule length_dropWhile_le)

lemma skip_ws_tl_length: "starts c s \<Longrightarrow> length (skip_ws (tl s)) < length s"
  using skip_ws_length [of "tl s"] starts_length by fastforce

lemma prepend_Inr_iff: "prepend p x = Inr (t, r) \<longleftrightarrow> (\<exists>u. x = Inr (u, r) \<and> t = p @ u)"
  by (auto simp: prepend_def r_bind_Inr_iff)

lemma prepend_Inl_iff: "prepend p x = Inl e \<longleftrightarrow> x = Inl e"
  by (cases x) (auto simp: prepend_def)

lemma with_rest_Inr_iff: "with_rest r x = Inr (v, q) \<longleftrightarrow> x = Inr v \<and> q = r"
  by (auto simp: with_rest_def r_bind_Inr_iff)

lemma with_rest_Inl_iff: "with_rest r x = Inl e \<longleftrightarrow> x = Inl e"
  by (cases x) (auto simp: with_rest_def)

lemma scanstring_length: "scanstring s = Inr (t, r) \<Longrightarrow> length r < length s"
proof (induction s arbitrary: t r rule: scanstring.induct)
  case (2 c s)
  then show ?case
    by (fastforce split: if_splits list.splits option.splits simp: prepend_Inr_iff dest: unicode_escape_length)
qed simp

lemma scan_int_length: "scan_int s = Some (i, r) \<Longrightarrow> length r < length s"
proof -
  have "length (dropWhile is_digit u) < length u" if "u \<noteq> []" "is_digit (hd u)" for u
    using that length_dropWhile_le [of is_digit "tl u"] by (cases u) simp_all
  from this [of s] this [of "tl s"] show "scan_int s = Some (i, r) \<Longrightarrow> length r < length s"
    by (cases s) (auto simp: scan_int_def Let_def drop_Suc starts_def split: if_splits list.splits)
qed

lemma scan_frac_length: "scan_frac s = (f, r) \<Longrightarrow> length r \<le> length s"
  using length_dropWhile_le [of is_digit "tl s"]
  by (auto simp: scan_frac_def split: if_splits)

lemma scan_exp_length: "scan_exp s = (f, r) \<Longrightarrow> length r \<le> length s"
  using length_dropWhile_le [of is_digit "tl s"] length_dropWhile_le [of is_digit "tl (tl s)"]
  by (auto simp: scan_exp_def Let_def drop_Suc split: if_splits)

lemma parse_number_length: "parse_number h s = Inr (v, r) \<Longrightarrow> length r < length s"
  by (auto simp: parse_number_def with_rest_Inr_iff split: option.splits prod.splits
      dest!: scan_int_length scan_frac_length scan_exp_length)

section \<open>The grammar\<close>

text \<open>
  What the parsers read, as a relation between the text, the value and the rest of the text:
  facts about accepted documents are proved by induction on it.
\<close>

inductive value_at :: "json_hooks \<Rightarrow> string \<Rightarrow> json \<Rightarrow> string \<Rightarrow> bool"
  and elements_at :: "json_hooks \<Rightarrow> string \<Rightarrow> json list \<Rightarrow> string \<Rightarrow> bool"
  and members_at :: "json_hooks \<Rightarrow> string \<Rightarrow> (string \<times> json) list \<Rightarrow> string \<Rightarrow> bool"
  for h where
  v_str: "scanstring s = Inr (t, r) \<Longrightarrow> value_at h (CHR 0x22 # s) (JStr t) r"
| v_empty_object: "skip_ws s = CHR ''}'' # r \<Longrightarrow> object_pairs_hook h [] = Inr v \<Longrightarrow> value_at h (CHR ''{'' # s) v r"
| v_object: "members_at h (skip_ws s) kvs r \<Longrightarrow> object_pairs_hook h kvs = Inr v \<Longrightarrow> value_at h (CHR ''{'' # s) v r"
| v_empty_array: "skip_ws s = CHR '']'' # r \<Longrightarrow> value_at h (CHR ''['' # s) (JArr []) r"
| v_array: "elements_at h (skip_ws s) vs r \<Longrightarrow> value_at h (CHR ''['' # s) (JArr vs) r"
| v_null: "value_at h (''null'' @ r) JNull r"
| v_true: "value_at h (''true'' @ r) (JBool True) r"
| v_false: "value_at h (''false'' @ r) (JBool False) r"
| v_constant: "l \<in> {''NaN'', ''Infinity'', ''-Infinity''} \<Longrightarrow> parse_constant h l = Inr v \<Longrightarrow> value_at h (l @ r) v r"
| v_number: "parse_number h s = Inr (v, r) \<Longrightarrow> value_at h s v r"
| e_last: "value_at h s v q \<Longrightarrow> skip_ws q = CHR '']'' # r \<Longrightarrow> elements_at h s [v] r"
| e_more: "value_at h s v q \<Longrightarrow> skip_ws q = CHR '','' # p \<Longrightarrow> elements_at h (skip_ws p) vs r
     \<Longrightarrow> elements_at h s (v # vs) r"
| m_last: "scanstring s = Inr (k, q) \<Longrightarrow> skip_ws q = CHR '':'' # p \<Longrightarrow> value_at h (skip_ws p) v o'
     \<Longrightarrow> skip_ws o' = CHR ''}'' # r \<Longrightarrow> members_at h (CHR 0x22 # s) [(k, v)] r"
| m_more: "scanstring s = Inr (k, q) \<Longrightarrow> skip_ws q = CHR '':'' # p \<Longrightarrow> value_at h (skip_ws p) v o'
     \<Longrightarrow> skip_ws o' = CHR '','' # p' \<Longrightarrow> members_at h (skip_ws p') kvs r
     \<Longrightarrow> members_at h (CHR 0x22 # s) ((k, v) # kvs) r"

lemmas value_elements_members_induct = value_at_elements_at_members_at.inducts

lemma starts_iff: "starts c s \<longleftrightarrow> s = c # tl s"
  by (cases s) auto

lemma take_eq_append: "take n s = l \<Longrightarrow> s = l @ drop n s"
  by (metis append_take_drop_id)

lemma literal_at:
  "take 4 s = ''null'' \<Longrightarrow> value_at h s JNull (drop 4 s)"
  "take 4 s = ''true'' \<Longrightarrow> value_at h s (JBool True) (drop 4 s)"
  "take 5 s = ''false'' \<Longrightarrow> value_at h s (JBool False) (drop 5 s)"
  using v_null [of h "drop 4 s"] v_true [of h "drop 4 s"] v_false [of h "drop 5 s"]
  by (metis take_eq_append)+

lemma constant_at:
  "take n s = l \<Longrightarrow> l \<in> {''NaN'', ''Infinity'', ''-Infinity''} \<Longrightarrow> parse_constant h l = Inr v \<Longrightarrow> value_at h s v (drop n s)"
  using v_constant [of l h v "drop n s"] by (metis take_eq_append)

lemma parse_sound:
  "parse_value h n s = Inr (v, r) \<Longrightarrow> value_at h s v r"
  "parse_elements h n s = Inr (vs, r) \<Longrightarrow> elements_at h s vs r"
  "parse_members h n s = Inr (kvs, r) \<Longrightarrow> members_at h s kvs r"
proof (induction h n s and h n s and h n s arbitrary: v r and vs r and kvs r
    rule: parse_value_parse_elements_parse_members.induct)
  case (2 h n s)
  consider "starts CHR 0x22 s" | "starts CHR ''{'' s" | "starts CHR ''['' s"
    | "\<not> starts CHR 0x22 s" "\<not> starts CHR ''{'' s" "\<not> starts CHR ''['' s" by blast
  then show ?case
  proof cases
    case 1
    then obtain q where s: "s = CHR 0x22 # q" by (rule startsE)
    with 2 show ?thesis by (auto simp: r_bind_Inr_iff intro: v_str)
  next
    case 2
    then obtain q where s: "s = CHR ''{'' # q" by (rule startsE)
    with "2.prems" show ?thesis
      using "2.IH"(1) [OF _ _ refl]
      by (auto simp: r_bind_Inr_iff with_rest_Inr_iff Let_def starts_iff [of _ "skip_ws q"]
          intro: v_empty_object v_object split: if_splits)
  next
    case 3
    then obtain q where s: "s = CHR ''['' # q" by (rule startsE)
    with "2.prems" show ?thesis
      using "2.IH"(2) [OF _ _ _ refl]
      by (auto simp: r_bind_Inr_iff Let_def starts_iff [of _ "skip_ws q"]
          intro: v_empty_array v_array split: if_splits)
  next
    case 4
    with "2.prems" show ?thesis
      by (auto simp: with_rest_Inr_iff literal_at constant_at intro: v_number split: if_splits)
  qed
next
  case (4 h n s)
  from 4(3) obtain v q where v: "parse_value h n s = Inr (v, q)" by (auto simp: r_bind_Inr_iff)
  show ?case
  proof (cases "skip_ws q")
    case (Cons c p)
    with 4(3) v 4(1) [OF v] 4(2) [OF v refl refl] show ?thesis
      by (auto simp: r_bind_Inr_iff Let_def intro: e_last e_more split: if_splits)
  qed (use 4(3) v in \<open>simp add: Let_def del: dropWhile_eq_Nil_conv\<close>)
next
  case (6 h n s)
  from 6(3) obtain s' k q p v o' where s: "s = CHR 0x22 # s'" and k: "scanstring s' = Inr (k, q)"
      and p: "skip_ws q = CHR '':'' # p" and v: "parse_value h n (skip_ws p) = Inr (v, o')"
    by (auto simp: r_bind_Inr_iff Let_def elim!: startsE split: if_splits)
  have at: "value_at h (skip_ws p) v o'"
    using 6(1) [of "(k, q)" k q "skip_ws q" v o'] s k p v by simp
  have more: "members_at h (skip_ws p') kvs r"
    if "skip_ws o' = CHR '','' # p'" "parse_members h n (skip_ws p') = Inr (kvs, r)" for p' kvs r
    using 6(2) [of "(k, q)" k q "skip_ws q" "(v, o')" v o' "skip_ws o'" kvs r] s k p v that by simp
  show ?case
  proof (cases "skip_ws o'")
    case (Cons c p')
    with 6(3) s k p v at more show ?thesis
      by (auto simp: r_bind_Inr_iff Let_def intro: m_last m_more split: if_splits)
  qed (use 6(3) s k p v in \<open>simp add: Let_def del: dropWhile_eq_Nil_conv\<close>)
qed simp_all

section \<open>The bound on the recursion is enough\<close>

lemma skip_ws_drop: "skip_ws s = c # r \<Longrightarrow> length r < length s"
  using skip_ws_length [of s] by simp

lemma grammar_length:
  "value_at h s v r \<Longrightarrow> length r < length s"
  "elements_at h s vs r \<Longrightarrow> length r < length s"
  "members_at h s kvs r \<Longrightarrow> length r < length s"
proof (induction rule: value_elements_members_induct)
  case (v_object s kvs r v)
  then show ?case using skip_ws_length [of s] by simp
next
  case (v_array s vs r)
  then show ?case using skip_ws_length [of s] by simp
next
  case (e_more s v q p vs r)
  then show ?case using skip_ws_length [of p] skip_ws_drop [of q] by fastforce
next
  case (m_last s k q p v o' r)
  then show ?case
    using skip_ws_length [of p] skip_ws_drop [of q] skip_ws_drop [of o'] scanstring_length [of s] by fastforce
next
  case (m_more s k q p v o' p' kvs r)
  then show ?case
    using skip_ws_length [of p] skip_ws_length [of p'] skip_ws_drop [of q] skip_ws_drop [of o']
      scanstring_length [of s] by fastforce
qed (auto dest!: scanstring_length skip_ws_drop parse_number_length)

definition total_hooks :: "json_hooks \<Rightarrow> bool" where
  "total_hooks h \<longleftrightarrow>
     (\<forall>s. parse_int h s \<noteq> Inl OutOfFuel) \<and> (\<forall>s. parse_float h s \<noteq> Inl OutOfFuel) \<and>
     (\<forall>s. parse_constant h s \<noteq> Inl OutOfFuel) \<and> (\<forall>kvs. object_pairs_hook h kvs \<noteq> Inl OutOfFuel)"

lemma scanstring_fuel: "scanstring s \<noteq> Inl OutOfFuel"
  by (induction s rule: scanstring.induct)
    (auto split: list.splits option.splits simp: prepend_Inl_iff)

lemma r_bind_Inl_iff: "r_bind x f = Inl e \<longleftrightarrow> x = Inl e \<or> (\<exists>y. x = Inr y \<and> f y = Inl e)"
  by (cases x) auto

lemma parse_number_fuel: "total_hooks h \<Longrightarrow> parse_number h s \<noteq> Inl OutOfFuel"
  by (auto simp: parse_number_def with_rest_Inl_iff total_hooks_def split: option.splits prod.splits)

lemma parse_fuel:
  "total_hooks h \<Longrightarrow> 2 * length s < n \<Longrightarrow> parse_value h n s \<noteq> Inl OutOfFuel"
  "total_hooks h \<Longrightarrow> 2 * length s + 1 < n \<Longrightarrow> parse_elements h n s \<noteq> Inl OutOfFuel"
  "total_hooks h \<Longrightarrow> 2 * length s + 1 < n \<Longrightarrow> parse_members h n s \<noteq> Inl OutOfFuel"
proof (induction n arbitrary: s)
  case (Suc n)
  {
    case 1
    have "parse_members h n (skip_ws (tl s)) \<noteq> Inl OutOfFuel"
      "parse_elements h n (skip_ws (tl s)) \<noteq> Inl OutOfFuel" if "starts c s" for c
      using Suc.IH(2,3) [OF 1(1), of "skip_ws (tl s)"] 1(2) skip_ws_tl_length [OF that] by auto
    then show ?case
      using 1(1) by (auto simp: r_bind_Inl_iff with_rest_Inl_iff Let_def scanstring_fuel parse_number_fuel total_hooks_def)
  next
    case 2
    have "parse_elements h n (skip_ws (tl r)) \<noteq> Inl OutOfFuel"
      if "parse_value h n s = Inr (v, q)" "r = skip_ws q" "starts c r" for v q r c
      using Suc.IH(2) [OF 2(1), of "skip_ws (tl r)"] 2(2) grammar_length(1) [OF parse_sound(1) [OF that(1)]]
        skip_ws_tl_length [OF that(3)] skip_ws_length [of q] that(2) by auto
    with 2 Suc.IH(1) [OF 2(1), of s] show ?case
      by (auto simp: r_bind_Inl_iff Let_def)
  next
    case 3
    have val: "parse_value h n (skip_ws (tl r)) \<noteq> Inl OutOfFuel"
      if "scanstring (tl s) = Inr (k, q)" "r = skip_ws q" "starts c r" for k q r c
      using Suc.IH(1) [OF 3(1), of "skip_ws (tl r)"] 3(2) scanstring_length [OF that(1)]
        skip_ws_tl_length [OF that(3)] skip_ws_length [of q] that(2) by auto
    have more: "parse_members h n (skip_ws (tl r')) \<noteq> Inl OutOfFuel"
      if "scanstring (tl s) = Inr (k, q)" "parse_value h n (skip_ws (tl (skip_ws q))) = Inr (v, q')" "r' = skip_ws q'"
        "starts c r'" for k q v q' r' c
    proof (rule Suc.IH(3) [OF 3(1)])
      have "length q < length s" using scanstring_length [OF that(1)] by simp
      moreover have "length q' < length q"
        using grammar_length(1) [OF parse_sound(1) [OF that(2)]] skip_ws_length [of "tl (skip_ws q)"]
          skip_ws_length [of q] by simp
      moreover have "length (skip_ws (tl r')) < length q'"
        using skip_ws_tl_length [OF that(4)] skip_ws_length [of q'] that(3) by simp
      ultimately show "2 * length (skip_ws (tl r')) + 1 < n" using 3(2) by simp
    qed
    show ?case
      using val more by (auto simp: r_bind_Inl_iff Let_def scanstring_fuel)
  }
qed simp_all

lemma loads_fuel: "total_hooks h \<Longrightarrow> loads h s \<noteq> Inl OutOfFuel"
  using parse_fuel(1) [of h "skip_ws s" "2 * length s + 1"] skip_ws_length [of s]
  by (auto simp: loads_def r_bind_Inl_iff simp del: parse_value.simps)

text \<open>The exceptions of the decoder are its own and those of the hooks.\<close>

definition hook_error :: "json_hooks \<Rightarrow> py_error \<Rightarrow> bool" where
  "hook_error h e \<longleftrightarrow> (\<exists>s. parse_int h s = Inl e) \<or> (\<exists>s. parse_float h s = Inl e)
     \<or> (\<exists>s. parse_constant h s = Inl e) \<or> (\<exists>kvs. object_pairs_hook h kvs = Inl e)"

lemma scanstring_error: "scanstring s = Inl e \<Longrightarrow> e = JSONDecodeError"
  by (induction s rule: scanstring.induct)
    (auto split: if_splits list.splits option.splits simp: prepend_Inl_iff)

lemma parse_error:
  "parse_value h n s = Inl e \<Longrightarrow> e = JSONDecodeError \<or> e = OutOfFuel \<or> hook_error h e"
  "parse_elements h n s = Inl e \<Longrightarrow> e = JSONDecodeError \<or> e = OutOfFuel \<or> hook_error h e"
  "parse_members h n s = Inl e \<Longrightarrow> e = JSONDecodeError \<or> e = OutOfFuel \<or> hook_error h e"
proof (induction n arbitrary: s)
  case (Suc n)
  {
    case 1
    with Suc.IH(2,3) scanstring_error show ?case
      by (auto simp: r_bind_Inl_iff with_rest_Inl_iff Let_def parse_number_def hook_error_def
          split: if_splits option.splits prod.splits)
  next
    case 2
    with Suc.IH(1,2) show ?case by (auto simp: r_bind_Inl_iff Let_def split: if_splits)
  next
    case 3
    with Suc.IH(1,3) scanstring_error show ?case by (auto simp: r_bind_Inl_iff Let_def split: if_splits)
  }
qed simp_all

lemma loads_error: "total_hooks h \<Longrightarrow> loads h s = Inl e \<Longrightarrow> e = JSONDecodeError \<or> hook_error h e"
  using loads_fuel [of h s] parse_error(1) [of h "2 * length s + 1" "skip_ws s" e]
  by (auto simp: loads_def r_bind_Inl_iff split: if_splits simp del: parse_value.simps)

section \<open>Reading what \<open>dumps\<close> wrote\<close>

lemma of_char_hex_digit: "n < 16 \<Longrightarrow> hex_value (hex_digit n) = Some n"
  by (auto simp: hex_value_def in_range_def hex_digit_code)

lemma hex4_zero_digits:
  assumes "m < 16" and "n < 16"
  shows "hex4 [CHR ''0'', CHR ''0'', hex_digit m, hex_digit n] = Some (16 * m + n)"
proof -
  have "hex_value CHR ''0'' = Some 0" by (simp add: hex_value_def in_range_def)
  with assms show ?thesis by (simp add: hex4_def of_char_hex_digit)
qed

lemma scanstring_escape: "scanstring (json_escape c @ u) = prepend [c] (scanstring u)"
proof (cases "of_char c < (32 :: nat) \<and> c \<notin> {CHR 0x0A, CHR 0x0D, CHR 0x09, CHR 0x0C, CHR 0x08}")
  case True
  let ?m = "of_char c div 16 :: nat" and ?n = "of_char c mod 16 :: nat"
  have other: "c \<noteq> CHR 0x22" "c \<noteq> CHR 0x5C"
    using conjunct1 [OF True] by (rule contrapos_pn, simp)+
  have esc: "json_escape c = [CHR 0x5C, CHR ''u'', CHR ''0'', CHR ''0'', hex_digit ?m, hex_digit ?n]"
    using True other unfolding json_escape_def by simp
  have "hex4 [CHR ''0'', CHR ''0'', hex_digit ?m, hex_digit ?n] = Some (16 * ?m + ?n)"
    by (rule hex4_zero_digits) simp_all
  then have "hex4 [CHR ''0'', CHR ''0'', hex_digit ?m, hex_digit ?n] = Some (of_char c)"
    by (simp only: mult_div_mod_eq)
  then have "unicode_escape ([CHR ''0'', CHR ''0'', hex_digit ?m, hex_digit ?n] @ u) = Some (of_char c, u)"
    using True by (simp add: unicode_escape_def high_surrogate_def)
  moreover have "utf8_bytes (of_char c) = [c]" using True by (simp add: utf8_bytes_def)
  ultimately show ?thesis by (simp add: esc)
next
  case False
  then show ?thesis
    by (auto simp: json_escape_def simple_escape_def)
qed

lemma scanstring_quoted: "scanstring (concat (map json_escape s) @ CHR 0x22 # r) = Inr (s, r)"
proof (induction s)
  case (Cons c s)
  then show ?case by (simp only: list.map concat.simps append_assoc scanstring_escape) (simp add: prepend_def)
qed simp

text \<open>The hooks return the integers and the dictionaries of the value as they are.\<close>

fun keeps :: "json_hooks \<Rightarrow> json \<Rightarrow> bool" where
  "keeps h (JInt i) \<longleftrightarrow> parse_int h (int_text i) = Inr (JInt i)"
| "keeps h (JArr xs) \<longleftrightarrow> (\<forall>x \<in> set xs. keeps h x)"
| "keeps h (JObj kvs) \<longleftrightarrow> object_pairs_hook h kvs = Inr (JObj kvs) \<and> (\<forall>(k, v) \<in> set kvs. keeps h v)"
| "keeps h _ \<longleftrightarrow> True"

text \<open>What may follow a value in a compact document.\<close>

definition val_stop :: "string \<Rightarrow> bool" where
  "val_stop r = (r = [] \<or> hd r \<in> {CHR '','', CHR '']'', CHR ''}''})"

lemma val_stop_simps [simp]:
  "val_stop []" "val_stop (CHR '','' # r)" "val_stop (CHR '']'' # r)" "val_stop (CHR ''}'' # r)"
  by (simp_all add: val_stop_def)

lemma val_stop_num: "val_stop r \<Longrightarrow> num_stop r"
  by (auto simp: val_stop_def num_stop_def)

lemma val_stop_no_fraction: "val_stop r \<Longrightarrow> scan_frac r = ([], r) \<and> scan_exp r = ([], r)"
  by (cases r) (auto simp: val_stop_def scan_frac_def scan_exp_def)

lemma scan_int_decimal:
  assumes "num_stop r"
  shows "scan_int (decimal n @ r) = Some (decimal n, r)" and "scan_int (CHR ''-'' # decimal n @ r) = Some (CHR ''-'' # decimal n, r)"
proof -
  obtain c cs where d: "decimal n = c # cs" by (cases "decimal n") simp_all
  then have c: "is_digit c" using decimal_digits [of c n] by simp
  then have minus: "c \<noteq> CHR ''-''" by auto
  have zero: "cs = []" if "c = CHR ''0''" using decimal_head [of n] d that by simp
  have "takeWhile is_digit (decimal n @ r) = decimal n" "dropWhile is_digit (decimal n @ r) = r"
    by (rule take_digits drop_digits, erule decimal_digits, rule assms)+
  with d c minus zero show "scan_int (decimal n @ r) = Some (decimal n, r)"
    "scan_int (CHR ''-'' # decimal n @ r) = Some (CHR ''-'' # decimal n, r)"
    by (auto simp: scan_int_def Let_def)
qed

lemma scan_int_text: "num_stop r \<Longrightarrow> scan_int (int_text i @ r) = Some (int_text i, r)"
  by (simp add: int_text_def scan_int_decimal)

lemma parse_number_text:
  "val_stop r \<Longrightarrow> parse_number h (int_text i @ r) = with_rest r (parse_int h (int_text i))"
  using val_stop_no_fraction [of r] by (simp add: parse_number_def scan_int_text val_stop_num)

lemma int_text_first:
  obtains c cs where "int_text i = c # cs" and "is_digit c \<or> c = CHR ''-'' \<and> cs \<noteq> [] \<and> is_digit (hd cs)"
proof -
  have "\<exists>c cs. decimal n = c # cs \<and> is_digit c" for n
    using decimal_digits [of "hd (decimal n)" n] by (cases "decimal n") auto
  then show ?thesis using that unfolding int_text_def by (metis list.distinct(1) list.sel(1))
qed

lemma parse_int_text:
  assumes "val_stop r"
  shows "parse_value h (Suc n) (int_text i @ r) = with_rest r (parse_int h (int_text i))"
proof -
  obtain c cs where s: "int_text i = c # cs" and c: "is_digit c \<or> c = CHR ''-'' \<and> cs \<noteq> [] \<and> is_digit (hd cs)"
    by (rule int_text_first)
  have digit: "d \<noteq> CHR ''n''" "d \<noteq> CHR ''t''" "d \<noteq> CHR ''f''" "d \<noteq> CHR ''N''" "d \<noteq> CHR ''I''" "d \<noteq> CHR 0x22"
    "d \<noteq> CHR ''{''" "d \<noteq> CHR ''[''" "d \<noteq> CHR ''-''" if "is_digit d" for d
    using that by (rule contrapos_pn, simp add: is_digit_def)+
  from c have "parse_value h (Suc n) (int_text i @ r) = parse_number h (int_text i @ r)"
  proof
    assume "is_digit c"
    from digit [OF this] show ?thesis by (simp add: s)
  next
    assume minus: "c = CHR ''-'' \<and> cs \<noteq> [] \<and> is_digit (hd cs)"
    then obtain d ds where cs: "cs = d # ds" and "is_digit d" by (cases cs) auto
    from digit [OF this(2)] minus show ?thesis by (simp add: s cs)
  qed
  then show ?thesis by (simp only: parse_number_text [OF assms])
qed

lemma dumps_plain_first: "\<exists>c cs. dumps_plain j = c # cs \<and> \<not> is_ws c \<and> c \<notin> {CHR '']'', CHR ''}'', CHR '',''}"
proof (cases j)
  case (JInt i)
  moreover have "\<not> is_digit c" if "is_ws c" for c
    using that by (auto simp: is_ws_def is_digit_def)
  moreover have "\<not> is_ws (CHR ''-'')" by (simp add: is_ws_def)
  ultimately show ?thesis
    by (cases rule: int_text_first [of i]) auto
qed (auto simp: json_quote_def is_ws_def)

lemma skip_ws_dumps [simp]: "skip_ws (dumps_plain j @ r) = dumps_plain j @ r"
  using dumps_plain_first [of j] by auto

lemma not_ws_simps [simp]:
  "\<not> is_ws (CHR '']'')" "\<not> is_ws (CHR ''}'')" "\<not> is_ws (CHR '','')" "\<not> is_ws (CHR '':'')" "\<not> is_ws (CHR 0x22)"
  by (simp_all add: is_ws_def)

lemma json_items_split:
  "json_items close (x # xs) @ r = x @ (if xs = [] then close # r else CHR '','' # json_items close xs @ r)"
  by (cases xs) simp_all

lemma parse_elements_dumps:
  assumes "\<And>x r n. x \<in> set xs \<Longrightarrow> val_stop r \<Longrightarrow> 2 * length (dumps_plain x @ r) < n \<Longrightarrow>
      parse_value h n (dumps_plain x @ r) = Inr (x, r)"
    and "xs \<noteq> []" and "2 * length (json_items (CHR '']'') (map dumps_plain xs) @ r) + 1 < n"
  shows "parse_elements h n (json_items (CHR '']'') (map dumps_plain xs) @ r) = Inr (xs, r)"
  using assms
proof (induction xs arbitrary: n)
  case (Cons x xs)
  obtain m where n: "n = Suc m" using Cons.prems(3) by (cases n) simp_all
  let ?q = "if xs = [] then CHR '']'' # r else CHR '','' # json_items (CHR '']'') (map dumps_plain xs) @ r"
  have doc: "json_items (CHR '']'') (map dumps_plain (x # xs)) @ r = dumps_plain x @ ?q"
    unfolding list.map json_items_split by simp
  have v: "parse_value h m (dumps_plain x @ ?q) = Inr (x, ?q)"
    using Cons.prems(1) [of x ?q m] Cons.prems(3) unfolding doc n by simp
  have rest: "parse_elements h m (json_items (CHR '']'') (map dumps_plain xs) @ r) = Inr (xs, r)" if "xs \<noteq> []"
    by (rule Cons.IH) (use Cons.prems that in \<open>auto simp: doc n simp del: list.map json_items.simps\<close>)
  have skip: "skip_ws (json_items (CHR '']'') (map dumps_plain xs) @ r) = json_items (CHR '']'') (map dumps_plain xs) @ r"
    if "xs \<noteq> []"
    using that by (cases xs) (simp_all add: json_items_split del: json_items.simps)
  show ?case
    unfolding doc n using v rest skip by (cases "xs = []") simp_all
qed simp

abbreviation member_text :: "string \<times> json \<Rightarrow> string" where
  "member_text \<equiv> \<lambda>(k, v). json_quote k @ CHR '':'' # dumps_plain v"

lemma parse_members_dumps:
  assumes "\<And>k v r n. (k, v) \<in> set kvs \<Longrightarrow> val_stop r \<Longrightarrow> 2 * length (dumps_plain v @ r) < n \<Longrightarrow>
      parse_value h n (dumps_plain v @ r) = Inr (v, r)"
    and "kvs \<noteq> []" and "2 * length (json_items (CHR ''}'') (map member_text kvs) @ r) + 1 < n"
  shows "parse_members h n (json_items (CHR ''}'') (map member_text kvs) @ r) = Inr (kvs, r)"
  using assms
proof (induction kvs arbitrary: n)
  case (Cons kv kvs)
  obtain k v where kv: "kv = (k, v)" by (cases kv)
  obtain m where n: "n = Suc m" using Cons.prems(3) by (cases n) simp_all
  let ?rest = "json_items (CHR ''}'') (map member_text kvs) @ r"
  let ?q = "if kvs = [] then CHR ''}'' # r else CHR '','' # ?rest"
  have doc: "json_items (CHR ''}'') (map member_text (kv # kvs)) @ r
      = CHR 0x22 # concat (map json_escape k) @ CHR 0x22 # CHR '':'' # dumps_plain v @ ?q"
    unfolding list.map json_items_split by (simp add: kv json_quote_def)
  have v: "parse_value h m (dumps_plain v @ ?q) = Inr (v, ?q)"
    using Cons.prems(1) [of k v ?q m] Cons.prems(3) unfolding doc n by (simp add: kv)
  have rest: "parse_members h m ?rest = Inr (kvs, r)" if "kvs \<noteq> []"
    by (rule Cons.IH) (use Cons.prems that in \<open>auto simp: doc n simp del: list.map json_items.simps\<close>)
  have skip: "skip_ws ?rest = ?rest" if "kvs \<noteq> []"
    using that by (cases kvs) (auto simp add: json_items_split json_quote_def simp del: json_items.simps)
  show ?case
    unfolding doc n using v rest skip by (cases "kvs = []") (simp_all add: kv scanstring_quoted)
qed simp

lemma parse_dumps_plain:
  "keeps h j \<Longrightarrow> val_stop r \<Longrightarrow> 2 * length (dumps_plain j @ r) < n \<Longrightarrow>
     parse_value h n (dumps_plain j @ r) = Inr (j, r)"
proof (induction j arbitrary: r n rule: dumps_plain.induct)
  case 1
  then obtain m where "n = Suc m" by (cases n) simp_all
  then show ?case by simp
next
  case (2 b)
  then obtain m where "n = Suc m" by (cases n) simp_all
  then show ?case by (cases b) simp_all
next
  case (3 i)
  then obtain m where "n = Suc m" by (cases n) simp_all
  with 3 show ?case by (simp add: parse_int_text with_rest_def del: parse_value.simps)
next
  case (4 s)
  then obtain m where "n = Suc m" by (cases n) simp_all
  then show ?case by (simp add: json_quote_def scanstring_quoted)
next
  case (5 xs)
  then obtain m where n: "n = Suc m" by (cases n) simp_all
  show ?case
  proof (cases "xs = []")
    case False
    have "parse_elements h m (json_items (CHR '']'') (map dumps_plain xs) @ r) = Inr (xs, r)"
      by (rule parse_elements_dumps [OF _ False]) (use 5 n in auto)
    moreover have "skip_ws (json_items (CHR '']'') (map dumps_plain xs) @ r) = json_items (CHR '']'') (map dumps_plain xs) @ r"
      "\<not> starts CHR '']'' (json_items (CHR '']'') (map dumps_plain xs) @ r)"
      using False dumps_plain_first [of "hd xs"]
      by (cases xs; auto simp: json_items_split simp del: json_items.simps)+
    ultimately show ?thesis by (simp add: n)
  qed (simp add: n)
next
  case (6 kvs)
  then obtain m where n: "n = Suc m" by (cases n) simp_all
  show ?case
  proof (cases "kvs = []")
    case False
    have "parse_members h m (json_items (CHR ''}'') (map member_text kvs) @ r) = Inr (kvs, r)"
      by (rule parse_members_dumps [OF _ False]) (use 6 n in auto)
    moreover have "skip_ws (json_items (CHR ''}'') (map member_text kvs) @ r) = json_items (CHR ''}'') (map member_text kvs) @ r"
      "\<not> starts CHR ''}'' (json_items (CHR ''}'') (map member_text kvs) @ r)"
      using False by (cases kvs; auto simp: json_items_split json_quote_def simp del: json_items.simps)+
    ultimately show ?thesis using 6(2) by (simp add: n with_rest_def)
  qed (use 6 n in \<open>simp add: with_rest_def\<close>)
qed

lemma loads_dumps: "keeps h (sort_keys j) \<Longrightarrow> loads h (dumps j) = Inr (sort_keys j)"
  using parse_dumps_plain [of h "sort_keys j" "[]"] skip_ws_dumps [of "sort_keys j" "[]"]
  by (simp add: loads_def dumps_sort_keys del: parse_value.simps skip_ws_dumps)

section \<open>UTF-8\<close>

lemma utf8_valid_append: "utf8_valid a \<Longrightarrow> utf8_valid (a @ b) \<longleftrightarrow> utf8_valid b"
  by (induction a rule: utf8_valid.induct) (auto split: option.splits)

lemma utf8_valid_ascii: "(\<And>c. c \<in> set s \<Longrightarrow> of_char c < (128 :: nat)) \<Longrightarrow> utf8_valid s"
proof (induction s)
  case (Cons c s)
  then have "of_char c < (128 :: nat)" by simp
  then have "utf8_tail c = Some 0" by (simp add: utf8_tail_def in_range_def)
  with Cons show ?case by simp
qed simp

lemma utf8_rest_cont: "utf8_rest a s \<Longrightarrow> list_all cont_byte s"
  by (cases s) (auto simp: utf8_second_def in_range_def split: if_splits)

lemma no_surrogate_head: "\<not> in_range 0xED 0xED c \<Longrightarrow> has_surrogate (c # s) \<longleftrightarrow> has_surrogate s"
  by (cases s) auto

lemma no_surrogate_cont: "list_all cont_byte s \<Longrightarrow> has_surrogate (s @ r) \<longleftrightarrow> has_surrogate r"
proof (induction s)
  case (Cons c s)
  then have "\<not> in_range 0xED 0xED c" by (auto simp: in_range_def)
  with Cons show ?case by (simp add: no_surrogate_head)
qed simp

lemma utf8_valid_no_surrogate: "utf8_valid s \<Longrightarrow> \<not> has_surrogate s"
proof (induction s rule: utf8_valid.induct)
  case (2 a s)
  then obtain k where k: "utf8_tail a = Some k" "k \<le> length s" "utf8_rest a (take k s)" "utf8_valid (drop k s)"
    by (auto split: option.splits)
  have s: "\<not> has_surrogate s"
    using no_surrogate_cont [OF utf8_rest_cont [OF k(3)], of "drop k s"] 2(1) [OF k(1,4)] by simp
  show ?case
  proof (cases "in_range 0xED 0xED a")
    case True
    then have "k = 2" using k(1) by (auto simp: utf8_tail_def in_range_def split: if_splits)
    then obtain b r where b: "s = b # r" using k(2) by (cases s) auto
    have "in_range 0x80 0x9F b"
      using k(3) True \<open>k = 2\<close> by (auto simp: b utf8_second_def in_range_def)
    with s show ?thesis by (auto simp: b in_range_def)
  qed (use s in \<open>simp add: no_surrogate_head\<close>)
qed simp

lemma high_escape:
  assumes "128 \<le> (of_char c :: nat)"
  shows "json_escape c = [c]"
proof -
  have "c \<noteq> d" if "of_char d < (128 :: nat)" for d using assms that by auto
  then have "c \<noteq> CHR 0x22" "c \<noteq> CHR 0x5C" "c \<noteq> CHR 0x0A" "c \<noteq> CHR 0x0D" "c \<noteq> CHR 0x09" "c \<noteq> CHR 0x0C" "c \<noteq> CHR 0x08"
    by simp_all
  with assms show ?thesis by (simp add: json_escape_def)
qed

lemma low_escape:
  assumes "of_char c < (128 :: nat)"
  shows "utf8_valid (json_escape c)"
proof (rule utf8_valid_ascii)
  have hex: "of_char (hex_digit n) < (128 :: nat)" if "n < 16" for n
    using that by (auto simp: hex_digit_code)
  show "of_char d < (128 :: nat)" if "d \<in> set (json_escape c)" for d
    using that assms hex by (auto simp: json_escape_def split: if_splits)
qed

lemma cont_escape: "list_all cont_byte s \<Longrightarrow> concat (map json_escape s) = s"
  by (induction s) (auto simp: high_escape in_range_def)

lemma utf8_valid_escape: "utf8_valid s \<Longrightarrow> utf8_valid (concat (map json_escape s))"
proof (induction s rule: utf8_valid.induct)
  case (2 a s)
  then obtain k where k: "utf8_tail a = Some k" "k \<le> length s" "utf8_rest a (take k s)" "utf8_valid (drop k s)"
    by (auto split: option.splits)
  have rest: "utf8_valid (concat (map json_escape (drop k s)))" by (rule 2(1) [OF k(1,4)])
  have "concat (map json_escape s) = concat (map json_escape (take k s)) @ concat (map json_escape (drop k s))"
    by (metis append_take_drop_id concat_append map_append)
  then have s: "concat (map json_escape s) = take k s @ concat (map json_escape (drop k s))"
    using cont_escape [OF utf8_rest_cont [OF k(3)]] by simp
  show ?case
  proof (cases "k = 0")
    case True
    then have "of_char a < (128 :: nat)" using k(1) by (auto simp: utf8_tail_def in_range_def split: if_splits)
    with rest True show ?thesis by (simp add: utf8_valid_append low_escape)
  next
    case False
    then have "128 \<le> (of_char a :: nat)" using k(1) by (auto simp: utf8_tail_def in_range_def split: if_splits)
    with k rest show ?thesis by (simp add: high_escape s)
  qed
qed simp

lemma utf8_valid_quote: "utf8_valid s \<Longrightarrow> utf8_valid (json_quote s)"
proof -
  have "utf8_valid [CHR 0x22]" by (simp add: utf8_tail_def in_range_def)
  moreover assume "utf8_valid s"
  ultimately show ?thesis
    using utf8_valid_append [of "[CHR 0x22]"] utf8_valid_append [OF utf8_valid_escape]
    by (simp add: json_quote_def del: utf8_valid.simps)
qed

end
