(* ===== verification/Bound_Json.thy ===== *)
theory Bound_Json
  imports Json_Parse
begin

text \<open>
  The bounded JSON codec of \<open>analysis/ifds/bound_rules.py\<close>: the lexical preflight, the strict
  decoder with its hooks, the check of every decoded string, and the canonical encoder.

  Values of the declared types only: \<open>data\<close> is \<open>bytes\<close> and the limits are natural numbers. The
  \<open>RecursionError\<close> branch is not modelled; the preflight bounds the nesting before the parser runs.
\<close>

definition b_check :: "string \<Rightarrow> bool \<Rightarrow> unit res" where
  "b_check code b = (if b then Inr () else Inl (BoundRuleError code))"

lemma b_check_ok [simp]: "b_check code b = Inr u \<longleftrightarrow> b"
  by (simp add: b_check_def)

section \<open>Strings\<close>

definition checked_text :: "nat \<Rightarrow> string \<Rightarrow> string res" where
  "checked_text maximum s =
     (if maximum < text_len s then Inl (BoundRuleError ''string-limit'')
      else if CHR 0x00 \<in> set s then Inl (BoundRuleError ''invalid-string'')
      else if has_surrogate s then Inl (BoundRuleError ''invalid-string'')
      else if maximum < length s then Inl (BoundRuleError ''string-limit'')
      else Inr s)"

definition checked_string :: "nat \<Rightarrow> json \<Rightarrow> string res" where
  "checked_string maximum v =
     (case v of JStr s \<Rightarrow> checked_text maximum s | _ \<Rightarrow> Inl (BoundRuleError ''invalid-string''))"

section \<open>Hooks of the decoder\<close>

fun unique_object :: "(string \<times> json) list \<Rightarrow> (string \<times> json) list \<Rightarrow> json res" where
  "unique_object result [] = Inr (JObj result)"
| "unique_object result ((key, v) # pairs) =
     (if key \<in> set (map fst result) then Inl (BoundRuleError ''duplicate-key'')
      else unique_object (result @ [(key, v)]) pairs)"

definition integer_hook :: "string \<Rightarrow> json res" where
  "integer_hook s =
     (if 20 < length s then Inl (BoundRuleError ''invalid-number'')
      else let result = int_value s in
           if - (2 ^ 63) \<le> result \<and> result < 2 ^ 63 then Inr (JInt result)
           else Inl (BoundRuleError ''invalid-number''))"

definition invalid_number :: "string \<Rightarrow> json res" where
  "invalid_number s = Inl (BoundRuleError ''invalid-number'')"

definition bound_hooks :: json_hooks where
  "bound_hooks = \<lparr>parse_int = integer_hook, parse_float = invalid_number,
     parse_constant = invalid_number, object_pairs_hook = unique_object []\<rparr>"

section \<open>Preflight\<close>

record preflight =
  pf_depth :: int
  pf_count :: nat
  pf_extent :: nat
  pf_quoted :: bool
  pf_escaped :: bool
  pf_atom :: bool

record json_bounds =
  jb_depth :: nat
  jb_values :: nat
  jb_string :: nat

definition check_count :: "json_bounds \<Rightarrow> preflight \<Rightarrow> preflight res" where
  "check_count l st =
     (if jb_values l < pf_count st then Inl (BoundRuleError ''json-value-limit'') else Inr st)"

text \<open>The body of the loop over the bytes.\<close>

definition preflight_byte :: "json_bounds \<Rightarrow> char \<Rightarrow> preflight \<Rightarrow> preflight res" where
  "preflight_byte l c st =
     (if pf_quoted st then
        (let st = st\<lparr>pf_extent := pf_extent st + 1\<rparr> in
         if jb_string l * 6 + 1 < pf_extent st then Inl (BoundRuleError ''string-limit'')
         else if pf_escaped st then Inr (st\<lparr>pf_escaped := False\<rparr>)
         else if c = CHR 0x5C then Inr (st\<lparr>pf_escaped := True\<rparr>)
         else if c = CHR 0x22 then Inr (st\<lparr>pf_quoted := False\<rparr>)
         else Inr st)
      else if is_ws c \<or> c = CHR '','' \<or> c = CHR '':'' then Inr (st\<lparr>pf_atom := False\<rparr>)
      else if c = CHR 0x22 then
        check_count l (st\<lparr>pf_quoted := True, pf_extent := 0, pf_count := pf_count st + 1, pf_atom := False\<rparr>)
      else if c = CHR ''['' \<or> c = CHR ''{'' then
        (let st = st\<lparr>pf_depth := pf_depth st + 1, pf_count := pf_count st + 1, pf_atom := False\<rparr> in
         if int (jb_depth l) < pf_depth st then Inl (BoundRuleError ''json-depth-limit'')
         else check_count l st)
      else if c = CHR '']'' \<or> c = CHR ''}'' then
        (let st = st\<lparr>pf_depth := pf_depth st - 1, pf_atom := False\<rparr> in
         if pf_depth st < 0 then Inl (BoundRuleError ''invalid-json'') else check_count l st)
      else if \<not> pf_atom st then
        check_count l (st\<lparr>pf_count := pf_count st + 1, pf_atom := True\<rparr>)
      else check_count l st)"

fun preflight_run :: "json_bounds \<Rightarrow> bytes \<Rightarrow> preflight \<Rightarrow> preflight res" where
  "preflight_run l [] st = Inr st"
| "preflight_run l (c # s) st = r_bind (preflight_byte l c st) (preflight_run l s)"

definition preflight_json :: "json_bounds \<Rightarrow> bytes \<Rightarrow> unit res" where
  "preflight_json l data = r_bind (preflight_run l data
     \<lparr>pf_depth = 0, pf_count = 0, pf_extent = 0, pf_quoted = False, pf_escaped = False, pf_atom = False\<rparr>)
     (\<lambda>_. Inr ())"

section \<open>Decoder and encoder\<close>

fun json_nodes :: "json \<Rightarrow> nat" where
  "json_nodes (JArr xs) = Suc (sum_list (map json_nodes xs))"
| "json_nodes (JObj kvs) = Suc (sum_list (map (\<lambda>(k, v). json_nodes v) kvs))"
| "json_nodes _ = 1"

lemma json_nodes_pos [simp]: "0 < json_nodes j"
  by (cases j) simp_all

lemma json_nodes_map_snd: "map (\<lambda>(k, v). json_nodes v) kvs = map json_nodes (map snd kvs)"
  by (simp add: case_prod_beta)

text \<open>
  The loop that checks the decoded strings. The head of the list is the end of \<open>pending\<close>, where
  the code pops; \<open>extend\<close> and \<open>append\<close> leave the last item on top.
\<close>

function check_strings :: "nat \<Rightarrow> json list \<Rightarrow> unit res" where
  "check_strings m [] = Inr ()"
| "check_strings m (v # pending) =
     (case v of
        JStr s \<Rightarrow> r_bind (checked_text m s) (\<lambda>_. check_strings m pending)
      | JArr xs \<Rightarrow> check_strings m (rev xs @ pending)
      | JObj kvs \<Rightarrow> r_then (r_each (\<lambda>(k, _). r_bind (checked_text m k) (\<lambda>_. Inr ())) kvs)
          (check_strings m (rev (map snd kvs) @ pending))
      | _ \<Rightarrow> check_strings m pending)"
  by pat_completeness auto

termination
  by (relation "measure (\<lambda>(m, pending). sum_list (map json_nodes pending))")
    (auto simp: json_nodes_map_snd rev_map [symmetric] sum_list_rev)

text \<open>
  The \<open>except\<close> clause: the failure of the parser is invalid JSON; the \<open>BoundRuleError\<close> of a hook, the
  only other exception, passes.
\<close>

definition as_bound_error :: "json res \<Rightarrow> json res" where
  "as_bound_error x =
     (case x of
        Inr v \<Rightarrow> Inr v
      | Inl e \<Rightarrow> Inl (if e = JSONDecodeError then BoundRuleError ''invalid-json'' else e))"

lemma as_bound_error_Inr [simp]: "as_bound_error x = Inr v \<longleftrightarrow> x = Inr v"
  by (cases x) (auto simp: as_bound_error_def)

definition decode_bounded_json :: "nat \<Rightarrow> json_bounds \<Rightarrow> bytes \<Rightarrow> json res" where
  "decode_bounded_json max_bytes l data =
     r_then (b_check ''json-byte-limit'' (length data \<le> max_bytes))
     (r_then (preflight_json l data)
     (r_bind
       (if utf8_valid data
        then as_bound_error (loads bound_hooks data)
        else Inl (BoundRuleError ''invalid-json''))
       (\<lambda>result. r_then (check_strings (jb_string l) [result]) (Inr result))))"

text \<open>\<open>json.dumps(...).encode("utf-8")\<close>: the encoding step refuses surrogates.\<close>

definition canonical_json :: "json \<Rightarrow> bytes res" where
  "canonical_json v = (if has_surrogate (dumps v) then Inl (BoundRuleError ''invalid-json'') else Inr (dumps v))"

section \<open>Sizes of a value\<close>

text \<open>Nesting of containers, and the number of containers, scalars and keys.\<close>

fun jdepth :: "json \<Rightarrow> nat" where
  "jdepth (JArr xs) = Suc (foldr max (map jdepth xs) 0)"
| "jdepth (JObj kvs) = Suc (foldr max (map (\<lambda>(k, v). jdepth v) kvs) 0)"
| "jdepth _ = 0"

fun jtokens :: "json \<Rightarrow> nat" where
  "jtokens (JArr xs) = Suc (sum_list (map jtokens xs))"
| "jtokens (JObj kvs) = Suc (sum_list (map (\<lambda>(k, v). Suc (jtokens v)) kvs))"
| "jtokens _ = 1"

text \<open>A string that the code accepts: bounded, without NUL, encodable as UTF-8.\<close>

definition text_ok :: "nat \<Rightarrow> string \<Rightarrow> bool" where
  "text_ok m s \<longleftrightarrow> text_len s \<le> m \<and> length s \<le> m \<and> CHR 0x00 \<notin> set s \<and> \<not> has_surrogate s"

text \<open>
  What the decoder returns: 64-bit integers and dictionaries without repeated keys
  (\<open>json_shape\<close>), with accepted strings throughout (\<open>json_strings\<close>).
\<close>

fun json_shape :: "json \<Rightarrow> bool" where
  "json_shape (JInt i) \<longleftrightarrow> - (2 ^ 63) \<le> i \<and> i < 2 ^ 63"
| "json_shape (JArr xs) \<longleftrightarrow> (\<forall>x \<in> set xs. json_shape x)"
| "json_shape (JObj kvs) \<longleftrightarrow> distinct (map fst kvs) \<and> (\<forall>(k, v) \<in> set kvs. json_shape v)"
| "json_shape _ \<longleftrightarrow> True"

lemma checked_text_Inr: "checked_text m s = Inr t \<longleftrightarrow> text_ok m s \<and> t = s"
  by (auto simp: checked_text_def text_ok_def)

lemma checked_string_Inr: "checked_string m v = Inr t \<longleftrightarrow> v = JStr t \<and> text_ok m t"
  by (cases v) (auto simp: checked_string_def checked_text_Inr)

lemma unique_object_eq:
  "unique_object acc kvs =
     (if distinct (map fst kvs) \<and> set (map fst acc) \<inter> set (map fst kvs) = {}
      then Inr (JObj (acc @ kvs)) else Inl (BoundRuleError ''duplicate-key''))"
  by (induction acc kvs rule: unique_object.induct) auto

lemma unique_object_Inr: "unique_object [] kvs = Inr v \<longleftrightarrow> distinct (map fst kvs) \<and> v = JObj kvs"
  by (auto simp: unique_object_eq)

section \<open>The preflight follows the parser\<close>

text \<open>
  On any text that the parser accepts, the preflight keeps count of exactly the containers,
  scalars and keys of the value, and the nesting it saw is the nesting of the value.
\<close>

definition outside :: "preflight \<Rightarrow> bool" where
  "outside st \<longleftrightarrow> \<not> pf_quoted st \<and> \<not> pf_escaped st"

definition fresh :: "preflight \<Rightarrow> bool" where
  "fresh st \<longleftrightarrow> outside st \<and> \<not> pf_atom st"

definition token_counted :: "nat \<Rightarrow> preflight \<Rightarrow> preflight \<Rightarrow> bool" where
  "token_counted n st st' \<longleftrightarrow> outside st' \<and> pf_depth st' = pf_depth st \<and> pf_count st' = pf_count st + n"

lemma check_count_Inr: "check_count l st = Inr st' \<longleftrightarrow> st' = st \<and> pf_count st \<le> jb_values l"
  by (auto simp: check_count_def)

lemma preflight_skip_ws:
  assumes "preflight_run l s st = Inr st2" and "outside st"
  obtains st' where "preflight_run l (skip_ws s) st' = Inr st2" and "token_counted 0 st st'"
    and "fresh st \<Longrightarrow> fresh st'"
  using assms
proof (induction s arbitrary: st thesis)
  case Nil
  then show ?case by (auto simp: token_counted_def)
next
  case (Cons c s)
  show ?case
  proof (cases "is_ws c")
    case True
    then have "preflight_run l s (st\<lparr>pf_atom := False\<rparr>) = Inr st2"
      using Cons.prems(2,3) by (simp add: preflight_byte_def outside_def)
    then obtain st' where "preflight_run l (skip_ws s) st' = Inr st2" "token_counted 0 (st\<lparr>pf_atom := False\<rparr>) st'"
      "fresh (st\<lparr>pf_atom := False\<rparr>) \<Longrightarrow> fresh st'"
      using Cons.IH [of "st\<lparr>pf_atom := False\<rparr>"] Cons.prems(3) by (auto simp: outside_def)
    with True show ?thesis
      by (intro Cons.prems(1) [of st']) (auto simp: token_counted_def fresh_def outside_def)
  next
    case False
    with Cons.prems show ?thesis by (simp add: token_counted_def)
  qed
qed

definition inside_text :: "preflight \<Rightarrow> bool" where
  "inside_text st \<longleftrightarrow> pf_quoted st \<and> \<not> pf_escaped st"

definition same_counts :: "preflight \<Rightarrow> preflight \<Rightarrow> bool" where
  "same_counts st st' \<longleftrightarrow> pf_depth st' = pf_depth st \<and> pf_count st' = pf_count st"

text \<open>Bytes of a string other than the quote and the backslash leave the state inside_text the string.\<close>

lemma preflight_string_bytes:
  assumes "preflight_run l (u @ s) st = Inr st2" and "inside_text st"
    and "\<And>c. c \<in> set u \<Longrightarrow> c \<noteq> CHR 0x22 \<and> c \<noteq> CHR 0x5C"
  shows "\<exists>st'. preflight_run l s st' = Inr st2 \<and> inside_text st' \<and> same_counts st st'"
  using assms
proof (induction u arbitrary: st)
  case Nil
  then show ?case by (auto simp: same_counts_def)
next
  case (Cons c u)
  let ?st = "st\<lparr>pf_extent := pf_extent st + 1\<rparr>"
  have "preflight_run l (u @ s) ?st = Inr st2" "inside_text ?st"
    using Cons.prems by (auto simp: preflight_byte_def inside_text_def Let_def split: if_splits)
  from Cons.IH [OF this] Cons.prems(3) show ?case by (auto simp: same_counts_def)
qed

lemma preflight_escape:
  assumes "preflight_run l (CHR 0x5C # e # s) st = Inr st2" and "inside_text st"
  shows "\<exists>st'. preflight_run l s st' = Inr st2 \<and> inside_text st' \<and> same_counts st st'"
  using assms
  by (intro exI [of _ "st\<lparr>pf_extent := pf_extent st + 2, pf_escaped := False\<rparr>"])
    (auto simp: preflight_byte_def inside_text_def same_counts_def Let_def split: if_splits)

lemma hex4_chars: "hex4 u = Some n \<Longrightarrow> c \<in> set u \<Longrightarrow> c \<noteq> CHR 0x22 \<and> c \<noteq> CHR 0x5C"
  by (auto simp: hex4_def hex_value_def in_range_def split: if_splits)

lemma same_counts_trans: "same_counts a b \<Longrightarrow> same_counts b c \<Longrightarrow> same_counts a c"
  by (simp add: same_counts_def)

lemma preflight_hex4:
  assumes "preflight_run l s st = Inr st2" and "inside_text st" and "hex4 (take 4 s) = Some n"
  shows "\<exists>st'. preflight_run l (drop 4 s) st' = Inr st2 \<and> inside_text st' \<and> same_counts st st'"
  using preflight_string_bytes [of l "take 4 s" "drop 4 s" st st2] assms hex4_chars [OF assms(3)] by simp

lemma preflight_unicode_escape:
  assumes "preflight_run l s st = Inr st2" and "inside_text st" and "unicode_escape s = Some (u, r)"
  shows "\<exists>st'. preflight_run l r st' = Inr st2 \<and> inside_text st' \<and> same_counts st st'"
proof -
  obtain n where n: "hex4 (take 4 s) = Some n"
    using assms(3) by (auto simp: unicode_escape_def split: option.splits)
  obtain st1 where st1: "preflight_run l (drop 4 s) st1 = Inr st2" "inside_text st1" "same_counts st st1"
    using preflight_hex4 [OF assms(1,2) n] by blast
  show ?thesis
  proof (cases "r = drop 4 s")
    case True
    with st1 show ?thesis by blast
  next
    case False
    with assms(3) n obtain w where pair: "take 2 (drop 4 s) = [CHR 0x5C, CHR ''u'']"
      and w: "hex4 (take 4 (drop 2 (drop 4 s))) = Some w" and r: "r = drop 6 (drop 4 s)"
      by (auto simp: unicode_escape_def Let_def split: option.splits if_splits)
    define q where "q = drop 2 (drop 4 s)"
    have "drop 4 s = CHR 0x5C # CHR ''u'' # q" using take_eq_append [OF pair] by (simp add: q_def)
    with st1(1) have "preflight_run l (CHR 0x5C # CHR ''u'' # q) st1 = Inr st2" by simp
    from preflight_escape [OF this st1(2)]
    obtain st3 where st3: "preflight_run l q st3 = Inr st2" "inside_text st3" "same_counts st1 st3" by blast
    have "hex4 (take 4 q) = Some w" "r = drop 4 q" using w r by (simp_all add: q_def)
    with preflight_hex4 [OF st3(1,2)] st1(3) st3(3) show ?thesis by (blast intro: same_counts_trans)
  qed
qed

lemma preflight_string:
  assumes "scanstring s = Inr (t, r)" and "preflight_run l s st = Inr st2" and "inside_text st"
  shows "\<exists>st'. preflight_run l r st' = Inr st2 \<and> outside st' \<and> same_counts st st'"
  using assms
proof (induction s arbitrary: t r st rule: scanstring.induct)
  case (2 c s)
  have step: "\<exists>st'. preflight_run l r st' = Inr st2 \<and> outside st' \<and> same_counts st st'"
    if "\<exists>st'. preflight_run l u st' = Inr st2 \<and> inside_text st' \<and> same_counts st st'"
      and "\<And>st'. preflight_run l u st' = Inr st2 \<Longrightarrow> inside_text st' \<Longrightarrow>
        \<exists>st''. preflight_run l r st'' = Inr st2 \<and> outside st'' \<and> same_counts st' st''" for u
    using that same_counts_trans by blast
  consider "c = CHR 0x22" | "c = CHR 0x5C" | "c \<noteq> CHR 0x22" "c \<noteq> CHR 0x5C" by blast
  then show ?case
  proof cases
    case 1
    with "2.prems" show ?thesis
      by (intro exI [of _ "st\<lparr>pf_extent := pf_extent st + 1, pf_quoted := False\<rparr>"])
        (auto simp: preflight_byte_def inside_text_def outside_def same_counts_def Let_def split: if_splits)
  next
    case esc: 2
    from "2.prems"(1) esc obtain e s' where s: "s = e # s'" by (cases s) auto
    have run: "\<exists>st'. preflight_run l s' st' = Inr st2 \<and> inside_text st' \<and> same_counts st st'"
      using "2.prems"(2,3) preflight_escape unfolding s esc by blast
    show ?thesis
    proof (cases "e = CHR ''u''")
      case True
      with "2.prems"(1) s esc obtain u r' t' where u: "unicode_escape s' = Some (u, r')"
        and r': "scanstring r' = Inr (t', r)"
        by (auto split: option.splits simp: prepend_Inr_iff)
      have "\<exists>st'. preflight_run l r' st' = Inr st2 \<and> inside_text st' \<and> same_counts st st'"
        using run preflight_unicode_escape [OF _ _ u] same_counts_trans by blast
      then show ?thesis
        by (rule step) (rule "2.IH"(1) [OF _ esc s True u refl r'], use esc in simp)
    next
      case False
      with "2.prems"(1) s esc obtain d t' where d: "simple_escape e = Some d" and r': "scanstring s' = Inr (t', r)"
        by (auto split: option.splits simp: prepend_Inr_iff)
      from run show ?thesis
        by (rule step) (rule "2.IH"(2) [OF _ esc s False d r'], use esc in simp)
    qed
  next
    case 3
    with "2.prems"(1) obtain t' where low: "\<not> of_char c < (32 :: nat)" and r': "scanstring s = Inr (t', r)"
      by (auto simp: prepend_Inr_iff split: if_splits)
    have "\<exists>st'. preflight_run l s st' = Inr st2 \<and> inside_text st' \<and> same_counts st st'"
      using preflight_string_bytes [of l "[c]" s st st2] "2.prems"(2,3) 3 by simp
    then show ?thesis
      by (rule step) (rule "2.IH"(3) [OF 3 low r'])
  qed
qed simp

text \<open>Scalars: bytes that are neither separators nor quotes nor brackets.\<close>

definition atom_char :: "char \<Rightarrow> bool" where
  "atom_char c \<longleftrightarrow> \<not> is_ws c \<and> c \<notin> {CHR '','', CHR '':'', CHR 0x22, CHR ''['', CHR ''{'', CHR '']'', CHR ''}''}"

lemma preflight_atom_more:
  assumes "preflight_run l (u @ s) st = Inr st2" and "outside st" and "pf_atom st" and "list_all atom_char u"
  shows "preflight_run l s st = Inr st2"
  using assms
proof (induction u)
  case (Cons c u)
  then have "preflight_run l (u @ s) st = Inr st2"
    by (auto simp: preflight_byte_def atom_char_def outside_def check_count_Inr r_bind_Inr_iff)
  with Cons show ?case by simp
qed simp

lemma preflight_atom:
  assumes "preflight_run l (u @ s) st = Inr st2" and "fresh st" and "u \<noteq> []" and "list_all atom_char u"
  shows "\<exists>st'. preflight_run l s st' = Inr st2 \<and> token_counted 1 st st'"
proof -
  obtain c v where u: "u = c # v" using assms(3) by (cases u) auto
  let ?st = "st\<lparr>pf_count := pf_count st + 1, pf_atom := True\<rparr>"
  have "preflight_run l (v @ s) ?st = Inr st2"
    using assms by (auto simp: u preflight_byte_def atom_char_def fresh_def outside_def check_count_Inr r_bind_Inr_iff)
  then have "preflight_run l s ?st = Inr st2"
    by (rule preflight_atom_more) (use assms u in \<open>auto simp: fresh_def outside_def\<close>)
  then show ?thesis
    using assms(2) by (intro exI [of _ ?st]) (auto simp: token_counted_def fresh_def outside_def)
qed

lemma digit_atom: "is_digit c \<Longrightarrow> atom_char c"
  by (auto simp: atom_char_def is_digit_def is_ws_def)

lemma scan_int_atom:
  assumes "scan_int s = Some (i, r)"
  shows "s = i @ r" and "i \<noteq> []" and "list_all atom_char i"
proof -
  have d: "list_all atom_char (takeWhile is_digit u)" for u
    by (auto simp: list_all_iff dest: set_takeWhileD intro: digit_atom)
  have ne: "takeWhile is_digit u \<noteq> []" if "u \<noteq> []" "is_digit (hd u)" for u
    using that by (cases u) auto
  have c: "atom_char (CHR ''-'')" "atom_char (CHR ''0'')"
    by (simp_all add: atom_char_def is_ws_def)
  show "s = i @ r" "i \<noteq> []" "list_all atom_char i"
    using assms c d ne by (auto simp: scan_int_def Let_def elim!: startsE split: if_splits)
qed

lemma bound_number:
  assumes "parse_number bound_hooks s = Inr (v, r)"
  obtains i u where "s = u @ r" and "u \<noteq> []" and "list_all atom_char u" and "v = JInt i"
    and "- (2 ^ 63) \<le> i \<and> i < 2 ^ 63"
proof -
  obtain u r1 where u: "scan_int s = Some (u, r1)" and r: "r = r1" and v: "integer_hook u = Inr v"
    using assms
    by (auto simp: parse_number_def bound_hooks_def with_rest_Inr_iff invalid_number_def scan_frac_def scan_exp_def
        Let_def split: option.splits prod.splits if_splits)
  show ?thesis
    by (rule that [of u "int_value u"])
      (use scan_int_atom [OF u] r v in \<open>auto simp: integer_hook_def Let_def split: if_splits\<close>)
qed

text \<open>The bytes of the grammar outside strings and scalars.\<close>

lemma preflight_separator:
  assumes "preflight_run l (c # s) st = Inr st2" and "outside st" and "c = CHR '','' \<or> c = CHR '':''"
  shows "\<exists>st'. preflight_run l s st' = Inr st2 \<and> fresh st' \<and> token_counted 0 st st'"
  using assms
  by (intro exI [of _ "st\<lparr>pf_atom := False\<rparr>"])
    (auto simp: preflight_byte_def token_counted_def fresh_def outside_def)

lemma preflight_open:
  assumes "preflight_run l (c # s) st = Inr st2" and "outside st" and "c = CHR ''['' \<or> c = CHR ''{''"
  shows "\<exists>st'. preflight_run l s st' = Inr st2 \<and> fresh st' \<and> pf_depth st' = pf_depth st + 1
     \<and> pf_count st' = pf_count st + 1 \<and> pf_depth st' \<le> int (jb_depth l)"
  using assms
  by (intro exI [of _ "st\<lparr>pf_depth := pf_depth st + 1, pf_count := pf_count st + 1, pf_atom := False\<rparr>"])
    (auto simp: preflight_byte_def fresh_def outside_def is_ws_def check_count_Inr r_bind_Inr_iff Let_def split: if_splits)

lemma preflight_close:
  assumes "preflight_run l (c # s) st = Inr st2" and "outside st" and "c = CHR '']'' \<or> c = CHR ''}''"
  shows "\<exists>st'. preflight_run l s st' = Inr st2 \<and> outside st' \<and> pf_depth st' = pf_depth st - 1
     \<and> pf_count st' = pf_count st"
  using assms
  by (intro exI [of _ "st\<lparr>pf_depth := pf_depth st - 1, pf_atom := False\<rparr>"])
    (auto simp: preflight_byte_def outside_def is_ws_def check_count_Inr r_bind_Inr_iff Let_def split: if_splits)

lemma preflight_quoted:
  assumes "preflight_run l (CHR 0x22 # s) st = Inr st2" and "outside st" and "scanstring s = Inr (t, r)"
  shows "\<exists>st'. preflight_run l r st' = Inr st2 \<and> token_counted 1 st st'"
proof -
  let ?st = "st\<lparr>pf_quoted := True, pf_extent := 0, pf_count := pf_count st + 1, pf_atom := False\<rparr>"
  have "preflight_run l s ?st = Inr st2" "inside_text ?st"
    using assms(1,2)
    by (auto simp: preflight_byte_def inside_text_def outside_def is_ws_def check_count_Inr r_bind_Inr_iff)
  from preflight_string [OF assms(3) this] show ?thesis
    by (auto simp: token_counted_def same_counts_def)
qed

definition closed_off :: "nat \<Rightarrow> preflight \<Rightarrow> preflight \<Rightarrow> bool" where
  "closed_off n st st' \<longleftrightarrow> outside st' \<and> pf_depth st' = pf_depth st - 1 \<and> pf_count st' = pf_count st + n"

text \<open>White space and a byte of the grammar after a value.\<close>

lemma preflight_ws_separator:
  assumes "preflight_run l q st = Inr st2" and "outside st" and "skip_ws q = c # p" and "c = CHR '','' \<or> c = CHR '':''"
  shows "\<exists>st'. preflight_run l (skip_ws p) st' = Inr st2 \<and> fresh st' \<and> token_counted 0 st st'"
proof -
  obtain st1 where st1: "preflight_run l (c # p) st1 = Inr st2" "token_counted 0 st st1"
    using assms(1-3) by (metis preflight_skip_ws)
  obtain st3 where st3: "preflight_run l p st3 = Inr st2" "fresh st3" "token_counted 0 st1 st3"
    using preflight_separator [OF st1(1) _ assms(4)] st1(2) by (auto simp: token_counted_def)
  obtain st4 where "preflight_run l (skip_ws p) st4 = Inr st2" "token_counted 0 st3 st4" "fresh st4"
    using st3 by (metis preflight_skip_ws fresh_def)
  with st1 st3 show ?thesis by (auto simp: token_counted_def)
qed

lemma preflight_ws_close:
  assumes "preflight_run l q st = Inr st2" and "outside st" and "skip_ws q = c # r" and "c = CHR '']'' \<or> c = CHR ''}''"
  shows "\<exists>st'. preflight_run l r st' = Inr st2 \<and> closed_off 0 st st'"
proof -
  obtain st1 where st1: "preflight_run l (c # r) st1 = Inr st2" "token_counted 0 st st1"
    using assms(1-3) by (metis preflight_skip_ws)
  with preflight_close [OF st1(1) _ assms(4)] show ?thesis by (auto simp: token_counted_def closed_off_def)
qed

lemma preflight_ws_open:
  assumes "preflight_run l (c # s) st = Inr st2" and "outside st" and "c = CHR ''['' \<or> c = CHR ''{''"
  shows "\<exists>st'. preflight_run l (skip_ws s) st' = Inr st2 \<and> fresh st' \<and> pf_depth st' = pf_depth st + 1
     \<and> pf_count st' = pf_count st + 1 \<and> pf_depth st' \<le> int (jb_depth l)"
proof -
  obtain st1 where st1: "preflight_run l s st1 = Inr st2" "fresh st1" "pf_depth st1 = pf_depth st + 1"
     "pf_count st1 = pf_count st + 1" "pf_depth st1 \<le> int (jb_depth l)"
    using preflight_open [OF assms] by blast
  obtain st4 where "preflight_run l (skip_ws s) st4 = Inr st2" "token_counted 0 st1 st4" "fresh st4"
    using st1 by (metis preflight_skip_ws fresh_def)
  with st1 show ?thesis by (auto simp: token_counted_def)
qed

lemma preflight_close_now:
  assumes "preflight_run l s st = Inr st2" and "outside st" and "s = c # r" and "c = CHR '']'' \<or> c = CHR ''}''"
  shows "\<exists>st'. preflight_run l r st' = Inr st2 \<and> closed_off 0 st st'"
  using preflight_close [of l c r st st2] assms by (auto simp: closed_off_def)

lemma literal_atoms: "list_all atom_char ''null''" "list_all atom_char ''true''" "list_all atom_char ''false''"
  by (simp_all add: atom_char_def is_ws_def)

lemma preflight_follows:
  "value_at bound_hooks s v r \<Longrightarrow> (\<And>st. preflight_run l s st = Inr st2 \<Longrightarrow> fresh st \<Longrightarrow>
     pf_depth st \<le> int (jb_depth l) \<Longrightarrow>
     \<exists>st'. preflight_run l r st' = Inr st2 \<and> token_counted (jtokens v) st st' \<and> pf_depth st + int (jdepth v) \<le> int (jb_depth l))"
  "elements_at bound_hooks s vs r \<Longrightarrow> (\<And>st. preflight_run l s st = Inr st2 \<Longrightarrow> fresh st \<Longrightarrow>
     pf_depth st \<le> int (jb_depth l) \<Longrightarrow>
     \<exists>st'. preflight_run l r st' = Inr st2 \<and> closed_off (sum_list (map jtokens vs)) st st'
       \<and> pf_depth st + int (foldr max (map jdepth vs) 0) \<le> int (jb_depth l))"
  "members_at bound_hooks s kvs r \<Longrightarrow> (\<And>st. preflight_run l s st = Inr st2 \<Longrightarrow> fresh st \<Longrightarrow>
     pf_depth st \<le> int (jb_depth l) \<Longrightarrow>
     \<exists>st'. preflight_run l r st' = Inr st2 \<and> closed_off (sum_list (map (\<lambda>(k, v). Suc (jtokens v)) kvs)) st st'
       \<and> pf_depth st + int (foldr max (map (\<lambda>(k, v). jdepth v) kvs) 0) \<le> int (jb_depth l))"
proof (induction rule: value_elements_members_induct)
  case (v_str s t r)
  then show ?case using preflight_quoted [of l s st st2 t r] by (simp add: fresh_def)
next
  case (v_empty_object s r v)
  obtain st1 where st1: "preflight_run l (skip_ws s) st1 = Inr st2" "fresh st1" "pf_depth st1 = pf_depth st + 1"
     "pf_count st1 = pf_count st + 1" "pf_depth st1 \<le> int (jb_depth l)"
    using preflight_ws_open [OF v_empty_object(3)] v_empty_object(4) by (auto simp: fresh_def)
  moreover have "v = JObj []" using v_empty_object(2) by (simp add: bound_hooks_def)
  ultimately show ?case
    using preflight_close_now [OF st1(1) _ v_empty_object(1)] by (auto simp: fresh_def token_counted_def closed_off_def)
next
  case (v_object s kvs r v)
  obtain st1 where st1: "preflight_run l (skip_ws s) st1 = Inr st2" "fresh st1" "pf_depth st1 = pf_depth st + 1"
     "pf_count st1 = pf_count st + 1" "pf_depth st1 \<le> int (jb_depth l)"
    using preflight_ws_open [OF v_object(4)] v_object(5) by (auto simp: fresh_def)
  moreover have "v = JObj kvs" using v_object(3) by (simp add: bound_hooks_def unique_object_Inr)
  ultimately show ?case using v_object(2) [OF st1(1,2,5)] by (auto simp: token_counted_def closed_off_def)
next
  case (v_empty_array s r)
  obtain st1 where st1: "preflight_run l (skip_ws s) st1 = Inr st2" "fresh st1" "pf_depth st1 = pf_depth st + 1"
     "pf_count st1 = pf_count st + 1" "pf_depth st1 \<le> int (jb_depth l)"
    using preflight_ws_open [OF v_empty_array(2)] v_empty_array(3) by (auto simp: fresh_def)
  then show ?case
    using preflight_close_now [OF st1(1) _ v_empty_array(1)] by (auto simp: fresh_def token_counted_def closed_off_def)
next
  case (v_array s vs r)
  obtain st1 where st1: "preflight_run l (skip_ws s) st1 = Inr st2" "fresh st1" "pf_depth st1 = pf_depth st + 1"
     "pf_count st1 = pf_count st + 1" "pf_depth st1 \<le> int (jb_depth l)"
    using preflight_ws_open [OF v_array(3)] v_array(4) by (auto simp: fresh_def)
  then show ?case using v_array(2) [OF st1(1,2,5)] by (auto simp: token_counted_def closed_off_def)
next
  case (v_null r)
  then show ?case using preflight_atom [OF v_null(1,2)] literal_atoms by simp
next
  case (v_true r)
  then show ?case using preflight_atom [OF v_true(1,2)] literal_atoms by simp
next
  case (v_false r)
  then show ?case using preflight_atom [OF v_false(1,2)] literal_atoms by simp
next
  case (v_constant t v r)
  then show ?case by (simp add: bound_hooks_def invalid_number_def)
next
  case (v_number s v r)
  from v_number(1) obtain i u where u: "s = u @ r" "u \<noteq> []" "list_all atom_char u" "v = JInt i" by (rule bound_number)
  then show ?case using preflight_atom [OF v_number(2) [unfolded u(1)] v_number(3)] v_number(4) by simp
next
  case (e_last s v q r)
  obtain st1 where st1: "preflight_run l q st1 = Inr st2" "token_counted (jtokens v) st st1"
      "pf_depth st + int (jdepth v) \<le> int (jb_depth l)"
    using e_last(2) [OF e_last(4-6)] by blast
  with preflight_ws_close [OF st1(1) _ e_last(3)] show ?case by (auto simp: token_counted_def closed_off_def)
next
  case (e_more s v q p vs r)
  obtain st1 where st1: "preflight_run l q st1 = Inr st2" "token_counted (jtokens v) st st1"
      "pf_depth st + int (jdepth v) \<le> int (jb_depth l)"
    using e_more(2) [OF e_more(6-8)] by blast
  obtain st3 where st3: "preflight_run l (skip_ws p) st3 = Inr st2" "fresh st3" "token_counted 0 st1 st3"
    using preflight_ws_separator [OF st1(1) _ e_more(5)] st1(2) by (auto simp: token_counted_def)
  from st1 st3 e_more(8) have "pf_depth st3 \<le> int (jb_depth l)" by (simp add: token_counted_def)
  from e_more(4) [OF st3(1,2) this] st1 st3 show ?case by (auto simp: token_counted_def closed_off_def)
next
  case (m_last s k q p v o' r)
  obtain st1 where st1: "preflight_run l q st1 = Inr st2" "token_counted 1 st st1"
    using preflight_quoted [OF m_last(6) _ m_last.hyps(1)] m_last(7) by (auto simp: fresh_def)
  obtain st3 where st3: "preflight_run l (skip_ws p) st3 = Inr st2" "fresh st3" "token_counted 0 st1 st3"
    using preflight_ws_separator [OF st1(1) _ m_last.hyps(2)] st1(2) by (auto simp: token_counted_def)
  from st1 st3 m_last(8) have "pf_depth st3 \<le> int (jb_depth l)" by (simp add: token_counted_def)
  from m_last.IH(2) [OF st3(1,2) this] obtain st4 where st4: "preflight_run l o' st4 = Inr st2"
    "token_counted (jtokens v) st3 st4" "pf_depth st3 + int (jdepth v) \<le> int (jb_depth l)" by blast
  with preflight_ws_close [OF st4(1) _ m_last(3)] st1 st3 show ?case by (auto simp: token_counted_def closed_off_def)
next
  case (m_more s k q p v o' p' kvs r)
  obtain st1 where st1: "preflight_run l q st1 = Inr st2" "token_counted 1 st st1"
    using preflight_quoted [OF m_more(8) _ m_more.hyps(1)] m_more(9) by (auto simp: fresh_def)
  obtain st3 where st3: "preflight_run l (skip_ws p) st3 = Inr st2" "fresh st3" "token_counted 0 st1 st3"
    using preflight_ws_separator [OF st1(1) _ m_more.hyps(2)] st1(2) by (auto simp: token_counted_def)
  from st1 st3 m_more(10) have "pf_depth st3 \<le> int (jb_depth l)" by (simp add: token_counted_def)
  from m_more.IH(2) [OF st3(1,2) this] obtain st4 where st4: "preflight_run l o' st4 = Inr st2"
    "token_counted (jtokens v) st3 st4" "pf_depth st3 + int (jdepth v) \<le> int (jb_depth l)" by blast
  obtain st5 where st5: "preflight_run l (skip_ws p') st5 = Inr st2" "fresh st5" "token_counted 0 st4 st5"
    using preflight_ws_separator [OF st4(1) _ m_more.hyps(3)] st4(2) by (auto simp: token_counted_def)
  from st1 st3 st4 st5 m_more(10) have "pf_depth st5 \<le> int (jb_depth l)" by (simp add: token_counted_def)
  from m_more.IH(4) [OF st5(1,2) this] st1 st3 st4 st5 show ?case by (auto simp: token_counted_def closed_off_def)
qed

section \<open>What the decoder returns\<close>

lemma value_at_shape:
  "value_at bound_hooks s v r \<Longrightarrow> json_shape v"
  "elements_at bound_hooks s vs r \<Longrightarrow> \<forall>v \<in> set vs. json_shape v"
  "members_at bound_hooks s kvs r \<Longrightarrow> \<forall>(k, v) \<in> set kvs. json_shape v"
proof (induction rule: value_elements_members_induct)
  case (v_number s v r)
  then show ?case by (auto elim: bound_number)
qed (auto simp: bound_hooks_def unique_object_Inr invalid_number_def)

lemma check_strings_Inr: "check_strings m pending = Inr u \<longleftrightarrow> (\<forall>v \<in> set pending. json_strings (text_ok m) v)"
proof (induction m pending rule: check_strings.induct)
  case (2 m v pending)
  then show ?case
    by (cases v) (force simp: r_bind_Inr_iff checked_text_Inr case_prod_beta)+
qed simp

lemma preflight_byte_count:
  "preflight_byte l c st = Inr st' \<Longrightarrow> pf_count st \<le> pf_count st' \<and> (pf_count st \<le> jb_values l \<longrightarrow> pf_count st' \<le> jb_values l)"
  by (auto simp: preflight_byte_def check_count_Inr Let_def split: if_splits)

lemma preflight_run_count:
  "preflight_run l s st = Inr st' \<Longrightarrow> pf_count st \<le> pf_count st' \<and> (pf_count st \<le> jb_values l \<longrightarrow> pf_count st' \<le> jb_values l)"
proof (induction s arbitrary: st)
  case (Cons c s)
  from Cons.prems obtain st1 where st1: "preflight_byte l c st = Inr st1" "preflight_run l s st1 = Inr st'"
    by (auto simp: r_bind_Inr_iff)
  from preflight_byte_count [OF st1(1)] Cons.IH [OF st1(2)] show ?case by auto
qed simp

lemma loads_at: "loads h s = Inr v \<Longrightarrow> \<exists>r. value_at h (skip_ws s) v r \<and> skip_ws r = []"
  by (auto simp: loads_def r_bind_Inr_iff dest: parse_sound(1) split: if_splits simp del: parse_value.simps)

lemma decode_bounded_json_Inr:
  "decode_bounded_json max_bytes l data = Inr v \<longleftrightarrow>
     length data \<le> max_bytes \<and> preflight_json l data = Inr () \<and> utf8_valid data \<and>
     loads bound_hooks data = Inr v \<and> json_strings (text_ok (jb_string l)) v"
  by (auto simp: decode_bounded_json_def r_bind_Inr_iff check_strings_Inr simp del: check_strings.simps)

lemma decoded_sizes:
  assumes "decode_bounded_json max_bytes l data = Inr v"
  shows "jdepth v \<le> jb_depth l \<and> jtokens v \<le> jb_values l"
proof -
  let ?st = "\<lparr>pf_depth = 0, pf_count = 0, pf_extent = 0, pf_quoted = False, pf_escaped = False, pf_atom = False\<rparr>"
  obtain st2 where run: "preflight_run l data ?st = Inr st2" and v: "loads bound_hooks data = Inr v"
    using assms by (auto simp: decode_bounded_json_Inr preflight_json_def r_bind_Inr_iff)
  have st: "fresh ?st" "outside ?st" by (simp_all add: fresh_def outside_def)
  obtain st1 where st1: "preflight_run l (skip_ws data) st1 = Inr st2" "token_counted 0 ?st st1" "fresh st1"
    using run st by (metis preflight_skip_ws)
  obtain r where "value_at bound_hooks (skip_ws data) v r" using loads_at [OF v] by blast
  from preflight_follows(1) [OF this st1(1,3)] st1(2) obtain st' where "preflight_run l r st' = Inr st2"
    "pf_count st' = jtokens v" "jdepth v \<le> jb_depth l"
    by (auto simp: token_counted_def)
  with preflight_run_count [OF this(1)] preflight_run_count [OF run] show ?thesis by simp
qed

section \<open>Canonical documents pass\<close>

lemma preflight_run_append: "preflight_run l (s @ r) st = r_bind (preflight_run l s st) (preflight_run l r)"
proof (induction s arbitrary: st)
  case (Cons c s)
  then show ?case by (cases "preflight_byte l c st") simp_all
qed simp

lemma max_list_le: "foldr max xs 0 \<le> (n :: nat) \<longleftrightarrow> (\<forall>x \<in> set xs. x \<le> n)"
  by (induction xs) auto

text \<open>An escape takes at most six bytes and ends outside an escape.\<close>

lemma json_escape_length: "length (json_escape c) \<le> 6"
  by (simp add: json_escape_def)

lemma preflight_escaped_char:
  assumes "inside_text st" and "pf_extent st + 6 \<le> jb_string l * 6"
  shows "preflight_run l (json_escape c) st = Inr (st\<lparr>pf_extent := pf_extent st + length (json_escape c), pf_escaped := False\<rparr>)"
proof -
  have hex: "hex_digit n \<noteq> CHR 0x22" "hex_digit n \<noteq> CHR 0x5C" if "n < 16" for n
    using is_hex_digit [OF that] by (auto simp: is_hex_def)
  have "of_char c mod 16 < (16 :: nat)" by simp
  from hex [OF this] hex [OF nibble_less] show ?thesis
    using assms by (simp add: json_escape_def preflight_byte_def inside_text_def Let_def)
qed

lemma preflight_escaped:
  assumes "inside_text st" and "pf_extent st + 6 * length s \<le> jb_string l * 6"
  shows "\<exists>st'. preflight_run l (concat (map json_escape s)) st = Inr st' \<and> inside_text st' \<and> same_counts st st'
     \<and> pf_extent st' \<le> jb_string l * 6"
  using assms
proof (induction s arbitrary: st)
  case Nil
  then show ?case by (simp add: same_counts_def)
next
  case (Cons c s)
  let ?st = "st\<lparr>pf_extent := pf_extent st + length (json_escape c), pf_escaped := False\<rparr>"
  have run: "preflight_run l (json_escape c) st = Inr ?st"
    by (rule preflight_escaped_char) (use Cons.prems in auto)
  have "inside_text ?st" "pf_extent ?st + 6 * length s \<le> jb_string l * 6"
    using Cons.prems json_escape_length [of c] by (simp_all add: inside_text_def)
  from Cons.IH [OF this] run show ?case by (simp add: preflight_run_append same_counts_def)
qed

lemma preflight_quote:
  assumes "outside st" and "pf_count st < jb_values l" and "length s \<le> jb_string l"
  shows "\<exists>st'. preflight_run l (json_quote s) st = Inr st' \<and> token_counted 1 st st'"
proof -
  let ?st = "st\<lparr>pf_quoted := True, pf_extent := 0, pf_count := pf_count st + 1, pf_atom := False\<rparr>"
  have open_quote: "preflight_byte l (CHR 0x22) st = Inr ?st"
    using assms by (simp add: preflight_byte_def outside_def check_count_def)
  have "inside_text ?st" using assms(1) by (simp add: inside_text_def outside_def)
  then obtain st' where st': "preflight_run l (concat (map json_escape s)) ?st = Inr st'" "inside_text st'"
    "same_counts ?st st'" "pf_extent st' \<le> jb_string l * 6"
    using preflight_escaped [of ?st s l] assms(3) by auto
  then have "preflight_byte l (CHR 0x22) st' = Inr (st'\<lparr>pf_extent := pf_extent st' + 1, pf_quoted := False\<rparr>)"
    by (simp add: preflight_byte_def inside_text_def)
  with st' open_quote show ?thesis
    by (auto simp: json_quote_def preflight_run_append token_counted_def same_counts_def outside_def inside_text_def)
qed

lemma preflight_atoms_run:
  assumes "outside st" and "pf_atom st" and "list_all atom_char u" and "pf_count st \<le> jb_values l"
  shows "preflight_run l u st = Inr st"
  using assms by (induction u) (auto simp: preflight_byte_def atom_char_def outside_def check_count_def)

lemma preflight_scalar:
  assumes "fresh st" and "u \<noteq> []" and "list_all atom_char u" and "pf_count st < jb_values l"
  shows "\<exists>st'. preflight_run l u st = Inr st' \<and> token_counted 1 st st'"
proof -
  obtain c v where u: "u = c # v" using assms(2) by (cases u) auto
  let ?st = "st\<lparr>pf_count := pf_count st + 1, pf_atom := True\<rparr>"
  have "preflight_byte l c st = Inr ?st"
    using assms by (auto simp: u preflight_byte_def atom_char_def fresh_def outside_def check_count_def)
  moreover have "preflight_run l v ?st = Inr ?st"
    by (rule preflight_atoms_run) (use assms u in \<open>auto simp: fresh_def outside_def\<close>)
  ultimately show ?thesis using assms(1) by (simp add: u token_counted_def fresh_def outside_def)
qed

lemma preflight_comma: "outside st \<Longrightarrow> c = CHR '','' \<or> c = CHR '':'' \<Longrightarrow> preflight_byte l c st = Inr (st\<lparr>pf_atom := False\<rparr>)"
  by (auto simp: preflight_byte_def outside_def)

lemma preflight_bracket:
  assumes "outside st" and "close = CHR '']'' \<or> close = CHR ''}''" and "0 < pf_depth st" and "pf_count st \<le> jb_values l"
  shows "preflight_byte l close st = Inr (st\<lparr>pf_depth := pf_depth st - 1, pf_atom := False\<rparr>)"
  using assms by (auto simp: preflight_byte_def outside_def check_count_def)

lemma preflight_items:
  assumes "\<And>x st. x \<in> set xs \<Longrightarrow> fresh st \<Longrightarrow> pf_depth st = d \<Longrightarrow> pf_count st + g x \<le> jb_values l \<Longrightarrow>
      \<exists>st'. preflight_run l (f x) st = Inr st' \<and> token_counted (g x) st st'"
    and "fresh st" and "pf_depth st = d" and "0 < d" and "pf_count st + sum_list (map g xs) \<le> jb_values l"
    and "close = CHR '']'' \<or> close = CHR ''}''"
  shows "\<exists>st'. preflight_run l (json_items close (map f xs)) st = Inr st' \<and> closed_off (sum_list (map g xs)) st st'"
  using assms(1,2,3,5)
proof (induction xs arbitrary: st)
  case Nil
  have "preflight_byte l close st = Inr (st\<lparr>pf_depth := pf_depth st - 1, pf_atom := False\<rparr>)"
    by (rule preflight_bracket) (use Nil assms(4,6) in \<open>auto simp: fresh_def\<close>)
  with Nil show ?case by (simp add: closed_off_def fresh_def outside_def)
next
  case (Cons x xs)
  obtain st1 where st1: "preflight_run l (f x) st = Inr st1" "token_counted (g x) st st1"
    using Cons.prems(1) [of x st] Cons.prems(2-4) by auto
  show ?case
  proof (cases xs)
    case Nil
    have "preflight_byte l close st1 = Inr (st1\<lparr>pf_depth := pf_depth st1 - 1, pf_atom := False\<rparr>)"
      by (rule preflight_bracket) (use Cons.prems st1 assms(4,6) Nil in \<open>auto simp: token_counted_def\<close>)
    with Nil st1 show ?thesis by (simp add: preflight_run_append closed_off_def token_counted_def outside_def)
  next
    case (Cons y ys)
    let ?st = "st1\<lparr>pf_atom := False\<rparr>"
    have comma: "preflight_byte l (CHR '','') st1 = Inr ?st"
      using st1(2) by (simp add: preflight_comma token_counted_def)
    have "fresh ?st" "pf_depth ?st = d" "pf_count ?st + sum_list (map g xs) \<le> jb_values l"
      using st1(2) Cons.prems(3,4) by (auto simp: token_counted_def fresh_def outside_def)
    with Cons.IH [of ?st] Cons.prems(1)
    obtain st' where "preflight_run l (json_items close (map f xs)) ?st = Inr st'" "closed_off (sum_list (map g xs)) ?st st'"
      by auto
    with st1 comma Cons show ?thesis
      by (auto simp: preflight_run_append closed_off_def token_counted_def)
  qed
qed

lemma int_text_atoms: "int_text i \<noteq> []" "list_all atom_char (int_text i)"
proof -
  have d: "list_all atom_char (decimal n)" for n
    unfolding list_all_iff using decimal_digits digit_atom by blast
  have "atom_char (CHR ''-'')" by (simp add: atom_char_def is_ws_def)
  with d show "int_text i \<noteq> []" "list_all atom_char (int_text i)" by (simp_all add: int_text_def)
qed

lemma preflight_bracket_open:
  assumes "outside st" and "c = CHR ''['' \<or> c = CHR ''{''" and "pf_depth st + 1 \<le> int (jb_depth l)" and "pf_count st < jb_values l"
  shows "preflight_byte l c st = Inr (st\<lparr>pf_depth := pf_depth st + 1, pf_count := pf_count st + 1, pf_atom := False\<rparr>)"
  using assms by (auto simp: preflight_byte_def outside_def check_count_def is_ws_def)

lemma preflight_dumps:
  assumes "fresh st" and "0 \<le> pf_depth st" and "pf_depth st + int (jdepth j) \<le> int (jb_depth l)"
    and "pf_count st + jtokens j \<le> jb_values l" and "json_strings (\<lambda>s. length s \<le> jb_string l) j"
  shows "\<exists>st'. preflight_run l (dumps_plain j) st = Inr st' \<and> token_counted (jtokens j) st st'"
  using assms
proof (induction j arbitrary: st rule: dumps_plain.induct)
  case 1
  then show ?case using preflight_scalar [of st "''null''" l] literal_atoms by simp
next
  case (2 b)
  then show ?case
    using preflight_scalar [of st "''true''" l] preflight_scalar [of st "''false''" l] literal_atoms by (cases b) simp_all
next
  case (3 i)
  then show ?case using preflight_scalar [of st "int_text i" l] int_text_atoms by simp
next
  case (4 s)
  then show ?case using preflight_quote [of st l s] by (simp add: fresh_def)
next
  case (5 xs)
  let ?st = "st\<lparr>pf_depth := pf_depth st + 1, pf_count := pf_count st + 1, pf_atom := False\<rparr>"
  have op: "preflight_byte l (CHR ''['') st = Inr ?st"
    by (rule preflight_bracket_open) (use 5 in \<open>auto simp: fresh_def\<close>)
  have depth: "foldr max (map jdepth xs) 0 \<le> nat (int (jb_depth l) - pf_depth st - 1)"
    using 5(4) by simp
  have "\<exists>st'. preflight_run l (json_items (CHR '']'') (map dumps_plain xs)) ?st = Inr st'
      \<and> closed_off (sum_list (map jtokens xs)) ?st st'"
  proof (rule preflight_items [where d = "pf_depth st + 1"])
    fix x st1 assume x: "x \<in> set xs" and st1: "fresh st1" "pf_depth st1 = pf_depth st + 1"
      "pf_count st1 + jtokens x \<le> jb_values l"
    have "jdepth x \<le> nat (int (jb_depth l) - pf_depth st - 1)" using depth x by (auto simp: max_list_le)
    with 5(1) [OF x st1(1)] st1 5(3,4,6) x
    show "\<exists>st'. preflight_run l (dumps_plain x) st1 = Inr st' \<and> token_counted (jtokens x) st1 st'" by simp
  qed (use 5 in \<open>auto simp: fresh_def outside_def\<close>)
  with op show ?case by (auto simp: closed_off_def token_counted_def)
next
  case (6 kvs)
  let ?st = "st\<lparr>pf_depth := pf_depth st + 1, pf_count := pf_count st + 1, pf_atom := False\<rparr>"
  have op: "preflight_byte l (CHR ''{'') st = Inr ?st"
    by (rule preflight_bracket_open) (use 6 in \<open>auto simp: fresh_def\<close>)
  have depth: "foldr max (map (\<lambda>(k, v). jdepth v) kvs) 0 \<le> nat (int (jb_depth l) - pf_depth st - 1)"
    using 6(4) by simp
  have "\<exists>st'. preflight_run l (json_items (CHR ''}'') (map member_text kvs)) ?st = Inr st'
      \<and> closed_off (sum_list (map (\<lambda>(k, v). Suc (jtokens v)) kvs)) ?st st'"
  proof (rule preflight_items [where d = "pf_depth st + 1"])
    fix x st1 assume x: "x \<in> set kvs" and st1: "fresh st1" "pf_depth st1 = pf_depth st + 1"
      "pf_count st1 + (case x of (k, v) \<Rightarrow> Suc (jtokens v)) \<le> jb_values l"
    obtain k v where kv: "x = (k, v)" by (cases x)
    have dv: "jdepth v \<le> nat (int (jb_depth l) - pf_depth st - 1)" using depth x by (auto simp: max_list_le kv)
    have sv: "length k \<le> jb_string l" "json_strings (\<lambda>s. length s \<le> jb_string l) v" using 6(6) x by (auto simp: kv)
    obtain st2 where st2: "preflight_run l (json_quote k) st1 = Inr st2" "token_counted 1 st1 st2"
      using preflight_quote [of st1 l k] st1 sv by (auto simp: fresh_def kv)
    let ?st2 = "st2\<lparr>pf_atom := False\<rparr>"
    have colon: "preflight_byte l (CHR '':'') st2 = Inr ?st2" using st2(2) by (simp add: preflight_comma token_counted_def)
    have "\<exists>st'. preflight_run l (dumps_plain v) ?st2 = Inr st' \<and> token_counted (jtokens v) ?st2 st'"
      by (rule 6(1) [OF x [unfolded kv] refl]) (use st1 st2 dv sv 6(3,4) in \<open>auto simp: token_counted_def fresh_def outside_def kv\<close>)
    with st2 colon show "\<exists>st'. preflight_run l (member_text x) st1 = Inr st' \<and>
        token_counted (case x of (k, v) \<Rightarrow> Suc (jtokens v)) st1 st'"
      by (auto simp: kv preflight_run_append token_counted_def)
  qed (use 6 in \<open>auto simp: fresh_def outside_def\<close>)
  with op show ?case by (auto simp: closed_off_def token_counted_def)
qed

end
