(* ===== verification/Bound_Json_Contract.thy ===== *)
theory Bound_Json_Contract
  imports Bound_Json
begin

text \<open>
  What the bounded JSON codec promises: the size and type of everything it returns, the closed
  set of its failures, and that it reads back every canonical document within its limits.
\<close>

section \<open>Canonical documents are read back\<close>

lemma integer_hook_text:
  assumes "- (2 ^ 63) \<le> i" and "i < 2 ^ 63"
  shows "integer_hook (int_text i) = Inr (JInt i)"
proof -
  have "length (decimal (nat (- i))) \<le> Suc 18" "length (decimal (nat i)) \<le> Suc 18"
    by (rule decimal_length, use assms in simp)+
  then have "length (int_text i) \<le> 20" by (simp add: int_text_def)
  with assms show ?thesis by (simp add: integer_hook_def)
qed

lemma shape_keeps: "json_shape j \<Longrightarrow> keeps bound_hooks j"
  by (induction j rule: json_shape.induct) (auto simp: bound_hooks_def integer_hook_text unique_object_Inr)

declare utf8_valid.simps(2) [simp del]

lemma utf8_ascii_head [simp]: "of_char c < (128 :: nat) \<Longrightarrow> utf8_valid (c # s) \<longleftrightarrow> utf8_valid s"
  by (simp add: utf8_valid.simps(2) utf8_tail_def in_range_def)

lemma utf8_valid_items:
  assumes "\<And>x. x \<in> set xs \<Longrightarrow> utf8_valid x" and "utf8_valid [close]"
  shows "utf8_valid (json_items close xs)"
  using assms
proof (induction close xs rule: json_items.induct)
  case (3 close x y ys)
  then show ?case by (simp add: utf8_valid_append)
qed (simp_all add: utf8_valid_append)

lemma utf8_valid_int: "utf8_valid (int_text i)"
proof (rule utf8_valid_ascii)
  fix c assume "c \<in> set (int_text i)"
  then have "c = CHR ''-'' \<or> is_digit c" by (auto simp: int_text_def decimal_digits split: if_splits)
  then show "of_char c < (128 :: nat)" by (auto simp: is_digit_def Let_def)
qed

lemma utf8_valid_dumps: "json_strings utf8_valid j \<Longrightarrow> utf8_valid (dumps_plain j)"
proof (induction j rule: dumps_plain.induct)
  case (5 xs)
  then have "utf8_valid (json_items (CHR '']'') (map dumps_plain xs))"
    by (intro utf8_valid_items) auto
  then show ?case by (simp add:)
next
  case (6 kvs)
  have "utf8_valid (json_items (CHR ''}'') (map member_text kvs))"
  proof (rule utf8_valid_items)
    fix x assume "x \<in> set (map member_text kvs)"
    then obtain k v where kv: "(k, v) \<in> set kvs" and x: "x = json_quote k @ CHR '':'' # dumps_plain v" by auto
    from kv 6(2) have "utf8_valid k" "utf8_valid (dumps_plain v)" using 6(1) [OF kv refl] by auto
    then show "utf8_valid x"
      by (simp add: x utf8_valid_append utf8_valid_quote)
  qed simp
  then show ?case by (simp add:)
qed (auto simp: utf8_valid_quote utf8_valid_int)

text \<open>Sorting the entries of a dictionary changes none of the measures.\<close>

lemma sort_keys_obj_set: "set (sort_key fst (map (\<lambda>(k, v). (k, f v)) kvs)) = (\<lambda>(k, v). (k, f v)) ` set kvs"
  by simp

lemma sort_keys_shape: "json_shape j \<Longrightarrow> json_shape (sort_keys j)"
proof (induction j rule: sort_keys.induct)
  case (2 kvs)
  have "mset (map fst (sort_key fst (map (\<lambda>(k, v). (k, sort_keys v)) kvs))) = mset (map fst kvs)"
    by (simp add: case_prod_beta multiset.map_comp comp_def)
  from mset_eq_imp_distinct_iff [OF this] 2 show ?case by (auto simp: case_prod_beta)
qed auto

lemma sort_keys_tokens: "jtokens (sort_keys j) = jtokens j"
proof (induction j rule: sort_keys.induct)
  case (1 xs)
  then show ?case by (simp add: comp_def cong: map_cong)
next
  case (2 kvs)
  let ?g = "\<lambda>(k, v). Suc (jtokens v)"
  have "sum_list (map ?g (sort_key fst (map (\<lambda>(k, v). (k, sort_keys v)) kvs)))
      = sum_list (map ?g (map (\<lambda>(k, v). (k, sort_keys v)) kvs))"
    unfolding sum_mset_sum_list [symmetric] mset_map mset_sort ..
  also have "\<dots> = sum_list (map ?g kvs)"
    unfolding map_map by (rule arg_cong [where f = sum_list], rule map_cong) (use 2 in auto)
  finally show ?case by simp
qed simp_all

lemma sort_keys_depth: "jdepth (sort_keys j) \<le> jdepth j"
proof (induction j rule: sort_keys.induct)
  case (1 xs)
  have "jdepth x \<le> foldr max (map jdepth xs) 0" if "x \<in> set xs" for x
    using that max_list_le [of "map jdepth xs"] by auto
  with 1 show ?case by (auto simp: max_list_le intro: order_trans)
next
  case (2 kvs)
  let ?m = "foldr max (map (\<lambda>(k, v). jdepth v) kvs) 0"
  have "jdepth v \<le> ?m" if "(k, v) \<in> set kvs" for k v
    using that max_list_le [of "map (\<lambda>(k, v). jdepth v) kvs" ?m] by force
  with 2 [OF _ refl] have "jdepth (sort_keys v) \<le> ?m" if "(k, v) \<in> set kvs" for k v
    using that by (meson order_trans)
  then show ?case by (auto simp: max_list_le)
qed simp_all

lemma canonical_preflight:
  assumes "json_strings (\<lambda>s. length s \<le> jb_string l) v" and "jdepth v \<le> jb_depth l" and "jtokens v \<le> jb_values l"
  shows "preflight_json l (dumps v) = Inr ()"
proof -
  let ?st = "\<lparr>pf_depth = 0, pf_count = 0, pf_extent = 0, pf_quoted = False, pf_escaped = False, pf_atom = False\<rparr>"
  have "\<exists>st'. preflight_run l (dumps_plain (sort_keys v)) ?st = Inr st' \<and> token_counted (jtokens (sort_keys v)) ?st st'"
    by (rule preflight_dumps)
      (use assms sort_keys_depth [of v] in \<open>auto simp: fresh_def outside_def sort_keys_strings sort_keys_tokens\<close>)
  then show ?thesis by (auto simp: preflight_json_def dumps_sort_keys)
qed

definition wire_text :: "nat \<Rightarrow> string \<Rightarrow> bool" where
  "wire_text m s \<longleftrightarrow> utf8_valid s \<and> CHR 0x00 \<notin> set s \<and> length s \<le> m"

lemma wire_text_ok: "wire_text m s \<Longrightarrow> text_ok m s"
  unfolding wire_text_def text_ok_def text_len_def
  using length_filter_le order_trans utf8_valid_no_surrogate by blast

lemma json_strings_mono: "(\<And>s. P s \<Longrightarrow> Q s) \<Longrightarrow> json_strings P v \<Longrightarrow> json_strings Q v"
  by (induction P v rule: json_strings.induct) auto

lemma canonical_read_back:
  assumes "json_shape v" and "json_strings (wire_text (jb_string l)) v" and "jdepth v \<le> jb_depth l"
    and "jtokens v \<le> jb_values l" and "length (dumps v) \<le> max_bytes"
  shows "canonical_json v = Inr (dumps v)" and "decode_bounded_json max_bytes l (dumps v) = Inr (sort_keys v)"
proof -
  have utf8: "utf8_valid (dumps v)"
    unfolding dumps_sort_keys
    by (rule utf8_valid_dumps) (use assms(2) in \<open>auto simp: sort_keys_strings wire_text_def elim: json_strings_mono [rotated]\<close>)
  then show "canonical_json v = Inr (dumps v)"
    by (simp add: canonical_json_def utf8_valid_no_surrogate)
  have "preflight_json l (dumps v) = Inr ()"
    by (rule canonical_preflight) (use assms in \<open>auto simp: wire_text_def elim: json_strings_mono [rotated]\<close>)
  moreover have "loads bound_hooks (dumps v) = Inr (sort_keys v)"
    by (rule loads_dumps, rule shape_keeps, rule sort_keys_shape, rule assms)
  moreover have "json_strings (text_ok (jb_string l)) (sort_keys v)"
    unfolding sort_keys_strings using assms(2) wire_text_ok by (rule json_strings_mono [rotated])
  ultimately show "decode_bounded_json max_bytes l (dumps v) = Inr (sort_keys v)"
    using assms(5) utf8 by (simp add: decode_bounded_json_Inr)
qed

section \<open>Failures\<close>

definition codec_codes :: "string list" where
  "codec_codes = [''json-byte-limit'', ''string-limit'', ''json-depth-limit'', ''json-value-limit'',
     ''invalid-json'', ''duplicate-key'', ''invalid-number'', ''invalid-string'']"

lemma codec_code_simps [simp]:
  "''json-byte-limit'' \<in> set codec_codes" "''invalid-json'' \<in> set codec_codes"
  by (simp_all add: codec_codes_def)

abbreviation coded :: "'a res \<Rightarrow> bool" where
  "coded \<equiv> raises_only (\<lambda>e. \<exists>c \<in> set codec_codes. e = BoundRuleError c)"

lemma coded_check: "code \<in> set codec_codes \<Longrightarrow> coded (b_check code b)"
  by (simp add: b_check_def)

lemma coded_text: "coded (checked_text m s)"
  by (simp add: checked_text_def codec_codes_def)

lemma coded_check_strings: "coded (check_strings m pending)"
proof (induction m pending rule: check_strings.induct)
  case (2 m v pending)
  then show ?case
    by (cases v) (auto intro!: raises_intro coded_text split: prod.splits)
qed simp

lemma coded_preflight: "coded (preflight_run l s st)"
proof (induction s arbitrary: st)
  case (Cons c s)
  have "coded (preflight_byte l c st)"
    by (simp add: preflight_byte_def check_count_def codec_codes_def Let_def)
  with Cons show ?case by (auto intro: raises_intro)
qed simp

lemma total_bound_hooks: "total_hooks bound_hooks"
  by (auto simp: total_hooks_def bound_hooks_def integer_hook_def invalid_number_def unique_object_eq Let_def)

lemma loads_bound_error:
  assumes "loads bound_hooks s = Inl e"
  shows "e = JSONDecodeError \<or> e = BoundRuleError ''duplicate-key'' \<or> e = BoundRuleError ''invalid-number''"
  using loads_error [OF total_bound_hooks assms]
  by (auto simp: hook_error_def bound_hooks_def integer_hook_def invalid_number_def unique_object_eq Let_def
      split: if_splits)

lemma coded_loads: "coded (as_bound_error (loads bound_hooks data))"
proof (cases "loads bound_hooks data")
  case (Inl e)
  from loads_bound_error [OF this] Inl show ?thesis by (auto simp: codec_codes_def as_bound_error_def)
qed (simp add: as_bound_error_def)

lemma coded_decode: "coded (decode_bounded_json max_bytes l data)"
  unfolding decode_bounded_json_def preflight_json_def
  by (intro raises_intro coded_check coded_preflight coded_check_strings)
    (simp_all add: coded_loads codec_code_simps)

section \<open>Contract\<close>

text \<open>
  C14. Everything the bounded decoder returns is small: its containers nest at most \<open>max_depth\<close>
  deep, its containers, scalars and keys together number at most \<open>max_values\<close>, and every string and
  every key has at most \<open>max_string_bytes\<close> bytes (a string is its UTF-8 bytes). The input has at most \<open>max_bytes\<close> bytes. The
  lexical preflight, which runs before the parser allocates anything, enforces depth and count; the
  strings are measured after they are decoded.
\<close>

theorem decoded_json_bounded:
  assumes "decode_bounded_json max_bytes l data = Inr v"
  shows "jdepth v \<le> jb_depth l \<and> jtokens v \<le> jb_values l \<and> length data \<le> max_bytes \<and>
     json_strings (\<lambda>s. length s \<le> jb_string l) v"
  using decoded_sizes [OF assms] assms
  by (auto simp: decode_bounded_json_Inr text_ok_def elim: json_strings_mono [rotated])

theorem decoded_json_bounded_witness:
  "jdepth (JArr [JInt 1, JArr [JStr ''ab'']]) \<le> 2 \<and> jtokens (JArr [JInt 1, JArr [JStr ''ab'']]) \<le> 4 \<and>
   json_strings (\<lambda>s. length s \<le> 2) (JArr [JInt 1, JArr [JStr ''ab'']])"
proof -
  have "decode_bounded_json 16 \<lparr>jb_depth = 2, jb_values = 4, jb_string = 2\<rparr>
      (''[1,['' @ [CHR 0x22] @ ''ab'' @ [CHR 0x22] @ '']]'') = Inr (JArr [JInt 1, JArr [JStr ''ab'']])"
    by code_simp
  from decoded_json_bounded [OF this] show ?thesis by simp
qed

text \<open>
  C15. The type of what the bounded decoder returns: integers fit in 64 bits, no dictionary repeats
  a key, and every string and key is free of NUL, encodable as UTF-8 and at most
  \<open>max_string_bytes\<close> long.
\<close>

theorem decoded_json_typed:
  assumes "decode_bounded_json max_bytes l data = Inr v"
  shows "json_shape v \<and> json_strings (text_ok (jb_string l)) v"
  using assms loads_at [of bound_hooks data v] value_at_shape(1) by (auto simp: decode_bounded_json_Inr)

theorem decoded_json_typed_witness:
  "json_shape (JObj [(''a'', JInt (- 7))]) \<and> json_strings (text_ok 1) (JObj [(''a'', JInt (- 7))])"
proof -
  have "decode_bounded_json 16 \<lparr>jb_depth = 1, jb_values = 3, jb_string = 1\<rparr>
      [CHR ''{'', CHR 0x22, CHR ''a'', CHR 0x22, CHR '':'', CHR ''-'', CHR ''7'', CHR ''}''] = Inr (JObj [(''a'', JInt (- 7))])"
    by code_simp
  from decoded_json_typed [OF this] show ?thesis by simp
qed

text \<open>
  Every failure of the bounded decoder is a \<open>BoundRuleError\<close> with one of eight codes, whatever
  the bytes are: no other exception of the parser surfaces, and the parser always returns.
\<close>

theorem decode_failures_coded:
  "decode_bounded_json max_bytes l data = Inl e \<longrightarrow> (\<exists>c \<in> set codec_codes. e = BoundRuleError c)"
  using coded_decode by (auto simp: raises_only_def)

theorem decode_failures_coded_witness:
  "decode_bounded_json 16 \<lparr>jb_depth = 1, jb_values = 4, jb_string = 1\<rparr> ''[[1]]'' = Inl (BoundRuleError ''json-depth-limit'')
   \<and> ''json-depth-limit'' \<in> set codec_codes"
proof -
  have "decode_bounded_json 16 \<lparr>jb_depth = 1, jb_values = 4, jb_string = 1\<rparr> ''[[1]]'' = Inl (BoundRuleError ''json-depth-limit'')"
    by code_simp
  with decode_failures_coded [of 16 "\<lparr>jb_depth = 1, jb_values = 4, jb_string = 1\<rparr>" "''[[1]]''" "BoundRuleError ''json-depth-limit''"]
  show ?thesis by simp
qed

text \<open>
  C16. Canonical documents are read back: a value with 64-bit integers, distinct keys and valid
  strings has a canonical spelling, and when the value is within the limits the decoder accepts
  that spelling and returns the value with its keys in sorted order. In particular the raw extent
  limit of the preflight, six bytes per byte of a string, never refuses an acceptable string.
\<close>

theorem canonical_json_round_trip:
  assumes "json_shape v" and "json_strings (wire_text (jb_string l)) v" and "jdepth v \<le> jb_depth l"
    and "jtokens v \<le> jb_values l" and "length (dumps v) \<le> max_bytes"
  shows "r_bind (canonical_json v) (decode_bounded_json max_bytes l) = Inr (sort_keys v)"
  using canonical_read_back [OF assms] by simp

theorem canonical_json_round_trip_witness:
  "r_bind (canonical_json (JObj [(''b'', JInt 1), (''a'', JStr [CHR 0xC3, CHR 0xA9])]))
     (decode_bounded_json 64 \<lparr>jb_depth = 1, jb_values = 5, jb_string = 2\<rparr>)
   = Inr (JObj [(''a'', JStr [CHR 0xC3, CHR 0xA9]), (''b'', JInt 1)])"
proof -
  let ?v = "JObj [(''b'', JInt 1), (''a'', JStr [CHR 0xC3, CHR 0xA9])]"
  let ?l = "\<lparr>jb_depth = 1, jb_values = 5, jb_string = 2\<rparr>"
  have "json_shape ?v" "json_strings (wire_text (jb_string ?l)) ?v" "jdepth ?v \<le> jb_depth ?l"
    "jtokens ?v \<le> jb_values ?l" "length (dumps ?v) \<le> 64"
    by code_simp+
  from canonical_json_round_trip [OF this] show ?thesis by simp
qed

end
