(* ===== verification/Rule_Key.thy ===== *)
theory Rule_Key
  imports Bound_Json_Contract
begin

text \<open>
  \<open>ScalarLimits\<close>, \<open>QualifiedRuleKey\<close> and its codec in \<open>analysis/ifds/bound_rules.py\<close>: the checks of
  identifiers, versions, digests and UUIDs, the constructor's validation, and the encoder and
  decoder of the canonical wire form.

  The fields of a key and of the limits have their declared types; the dynamic type tests of the
  constructor are the types of the record.
\<close>

section \<open>Limits\<close>

record scalar_limits =
  max_files :: int
  max_file_bytes :: int
  max_source_bytes :: int
  max_path_bytes :: int
  max_path_components :: int
  max_rule_bytes :: int
  max_model_bytes :: int
  max_accepted_bytes :: int
  max_clauses :: int
  max_models :: int
  max_rule_json_depth :: int
  max_rule_json_values :: int
  max_rule_string_bytes :: int
  max_cpg_artifact_bytes :: int
  max_raw_export_bytes :: int
  max_native_nodes :: int
  max_native_edges :: int
  max_ast_nodes :: int
  max_ast_depth :: int
  max_syntax_bytes :: int
  max_procedures :: int
  max_calls :: int
  max_call_depth :: int
  max_operations :: int
  max_values :: int
  max_relations :: int
  max_origins :: int
  max_facts :: int
  max_path_states :: int
  max_incoming :: int
  max_summaries :: int
  max_solver_work :: int
  max_occurrences :: int
  max_witness_steps :: int
  max_total_witness_steps :: int
  max_result_bytes :: int
  max_associations :: int
  max_evidence_references :: int

text \<open>\<open>fields(self)\<close> with their values, in declaration order, and the declared defaults.\<close>

definition limit_values :: "scalar_limits \<Rightarrow> int list" where
  "limit_values s =
     [max_files s, max_file_bytes s, max_source_bytes s, max_path_bytes s, max_path_components s,
      max_rule_bytes s, max_model_bytes s, max_accepted_bytes s, max_clauses s, max_models s,
      max_rule_json_depth s, max_rule_json_values s, max_rule_string_bytes s, max_cpg_artifact_bytes s,
      max_raw_export_bytes s, max_native_nodes s, max_native_edges s, max_ast_nodes s, max_ast_depth s,
      max_syntax_bytes s, max_procedures s, max_calls s, max_call_depth s, max_operations s, max_values s,
      max_relations s, max_origins s, max_facts s, max_path_states s, max_incoming s, max_summaries s,
      max_solver_work s, max_occurrences s, max_witness_steps s, max_total_witness_steps s,
      max_result_bytes s, max_associations s, max_evidence_references s]"

definition limit_defaults :: "int list" where
  "limit_defaults =
     [16, 262144, 1048576, 1024, 32, 262144, 524288, 1048576, 256, 128, 24, 50000, 16384,
      32 * 1024 * 1024, 16 * 1024 * 1024, 10000, 100000, 20000, 128, 8 * 1024 * 1024, 128, 2048, 32, 10000,
      16384, 50000, 64, 131072, 100000, 20000, 50000, 2000000, 4096, 4096, 65536, 8 * 1024 * 1024,
      100000, 100000]"

definition checked_limits :: "scalar_limits \<Rightarrow> scalar_limits res" where
  "checked_limits s =
     r_then (r_each (\<lambda>(v, d). b_check ''invalid-limit'' (0 < v \<and> v \<le> d)) (zip (limit_values s) limit_defaults))
       (Inr s)"

section \<open>Checked text\<close>

definition is_alpha :: "char \<Rightarrow> bool" where
  "is_alpha c \<longleftrightarrow> in_range 65 90 c \<or> in_range 97 122 c"

text \<open>The patterns \<open>_IDENTIFIER\<close>, \<open>_NAME\<close> and \<open>_DIGEST\<close>.\<close>

definition identifier_match :: "string \<Rightarrow> bool" where
  "identifier_match s \<longleftrightarrow> s \<noteq> [] \<and> is_alpha (hd s) \<and> length s \<le> 128 \<and>
     (\<forall>c \<in> set (tl s). is_alpha c \<or> is_digit c \<or> c \<in> set ''_.:/-'')"

definition name_match :: "string \<Rightarrow> bool" where
  "name_match s \<longleftrightarrow> s \<noteq> [] \<and> (is_alpha (hd s) \<or> hd s = CHR ''_'') \<and> length s \<le> 128 \<and>
     (\<forall>c \<in> set (tl s). is_alpha c \<or> is_digit c \<or> c = CHR ''_'')"

definition digest_match :: "string \<Rightarrow> bool" where
  "digest_match s \<longleftrightarrow> length s = 64 \<and> (\<forall>c \<in> set s. is_hex c)"

text \<open>\<open>s.split(sep)\<close> with a one-character separator.\<close>

fun split_on :: "char \<Rightarrow> string \<Rightarrow> string list" where
  "split_on sep [] = [[]]"
| "split_on sep (c # s) =
     (if c = sep then [] # split_on sep s
      else case split_on sep s of [] \<Rightarrow> [[c]] | p # ps \<Rightarrow> (c # p) # ps)"

text \<open>The pattern \<open>_VERSION\<close>, with the bound on each of its groups.\<close>

definition version_part :: "string \<Rightarrow> bool" where
  "version_part p \<longleftrightarrow>
     (p = ''0'' \<or> p \<noteq> [] \<and> hd p \<noteq> CHR ''0'' \<and> length p \<le> 10 \<and> (\<forall>c \<in> set p. is_digit c))"

definition version_match :: "string \<Rightarrow> bool" where
  "version_match s \<longleftrightarrow>
     (let ps = split_on CHR ''.'' s in
      length ps = 3 \<and> (\<forall>p \<in> set ps. version_part p) \<and> (\<forall>p \<in> set ps. digits_value p \<le> 2147483647))"

text \<open>
  \<open>str(UUID(value)) == value\<close>. The text of a UUID is always five groups of 8, 4, 4, 4 and 12
  lower-case hexadecimal digits joined by hyphens, and \<open>UUID\<close> reads such a text back to itself.
\<close>

definition uuid_match :: "string \<Rightarrow> bool" where
  "uuid_match s \<longleftrightarrow>
     (let ps = split_on CHR ''-'' s in map length ps = [8, 4, 4, 4, 12] \<and> (\<forall>p \<in> set ps. \<forall>c \<in> set p. is_hex c))"

definition matched :: "nat \<Rightarrow> (string \<Rightarrow> bool) \<Rightarrow> string \<Rightarrow> json \<Rightarrow> string res" where
  "matched maximum match code v =
     r_bind (checked_string maximum v) (\<lambda>s. if match s then Inr s else Inl (BoundRuleError code))"

definition identifier_of :: "json \<Rightarrow> string res" where
  "identifier_of = matched 128 identifier_match ''invalid-id''"

definition digest_of :: "json \<Rightarrow> string res" where
  "digest_of = matched 64 digest_match ''invalid-digest''"

definition version_of :: "json \<Rightarrow> string res" where
  "version_of = matched 32 version_match ''invalid-version''"

definition uuid_of :: "json \<Rightarrow> string res" where
  "uuid_of = matched 36 uuid_match ''invalid-uuid''"

section \<open>Keys\<close>

definition QUALIFIED_RULE_SCHEMA :: string where
  "QUALIFIED_RULE_SCHEMA = ''scanipy-qualified-rule/1''"

record qualified_rule_key =
  registry_id :: string
  bundle_id :: string
  scope :: string
  org_id :: "string option"
  S_version :: string
  accepted_content_digest :: string
  detector_id :: string
  detector_version :: string
  detector_raw_sha256 :: string
  rule_id :: string
  rule_artifact_id :: string
  rule_artifact_version :: string
  rule_raw_sha256 :: string
  model_artifact_id :: string
  model_artifact_version :: string
  model_raw_sha256 :: string
  semantic_descriptor_digest :: string
  key_schema :: string

definition forget :: "'a res \<Rightarrow> unit res" where
  "forget x = r_bind x (\<lambda>_. Inr ())"

definition opt_json :: "string option \<Rightarrow> json" where
  "opt_json x = (case x of None \<Rightarrow> JNull | Some s \<Rightarrow> JStr s)"

definition key_post_init :: "qualified_rule_key \<Rightarrow> unit res" where
  "key_post_init k =
     r_then (b_check ''unknown-key-schema'' (key_schema k = QUALIFIED_RULE_SCHEMA))
     (r_then (forget (uuid_of (JStr (registry_id k))))
     (r_then (forget (uuid_of (JStr (bundle_id k))))
     (r_then (b_check ''invalid-scope'' (scope k \<in> set [''global'', ''customer'']))
     (r_then (if scope k = ''global'' then b_check ''invalid-scope'' (org_id k = None)
              else forget (uuid_of (opt_json (org_id k))))
     (r_then (r_each (\<lambda>s. forget (version_of (JStr s)))
                [S_version k, detector_version k, rule_artifact_version k, model_artifact_version k])
     (r_then (r_each (\<lambda>s. forget (digest_of (JStr s)))
                [accepted_content_digest k, detector_raw_sha256 k, rule_raw_sha256 k, model_raw_sha256 k,
                 semantic_descriptor_digest k])
     (r_each (\<lambda>s. forget (identifier_of (JStr s)))
        [detector_id k, rule_id k, rule_artifact_id k, model_artifact_id k])))))))"

text \<open>\<open>asdict(key)\<close>\<close>

definition key_asdict :: "qualified_rule_key \<Rightarrow> (string \<times> json) list" where
  "key_asdict k =
     [(''registry_id'', JStr (registry_id k)), (''bundle_id'', JStr (bundle_id k)), (''scope'', JStr (scope k)),
      (''org_id'', opt_json (org_id k)), (''S_version'', JStr (S_version k)),
      (''accepted_content_digest'', JStr (accepted_content_digest k)), (''detector_id'', JStr (detector_id k)),
      (''detector_version'', JStr (detector_version k)), (''detector_raw_sha256'', JStr (detector_raw_sha256 k)),
      (''rule_id'', JStr (rule_id k)), (''rule_artifact_id'', JStr (rule_artifact_id k)),
      (''rule_artifact_version'', JStr (rule_artifact_version k)), (''rule_raw_sha256'', JStr (rule_raw_sha256 k)),
      (''model_artifact_id'', JStr (model_artifact_id k)),
      (''model_artifact_version'', JStr (model_artifact_version k)),
      (''model_raw_sha256'', JStr (model_raw_sha256 k)),
      (''semantic_descriptor_digest'', JStr (semantic_descriptor_digest k)), (''schema'', JStr (key_schema k))]"

definition key_fields :: "string list" where
  "key_fields =
     [''registry_id'', ''bundle_id'', ''scope'', ''org_id'', ''S_version'', ''accepted_content_digest'',
      ''detector_id'', ''detector_version'', ''detector_raw_sha256'', ''rule_id'', ''rule_artifact_id'',
      ''rule_artifact_version'', ''rule_raw_sha256'', ''model_artifact_id'', ''model_artifact_version'',
      ''model_raw_sha256'', ''semantic_descriptor_digest'', ''schema'']"

text \<open>\<open>_closed\<close>: a dictionary with exactly the given keys.\<close>

definition closed_object :: "json \<Rightarrow> string list \<Rightarrow> (string \<times> json) list res" where
  "closed_object v names =
     (case v of
        JObj row \<Rightarrow> if set (map fst row) = set names then Inr row else Inl (BoundRuleError ''invalid-fields'')
      | _ \<Rightarrow> Inl (BoundRuleError ''invalid-fields''))"

text \<open>\<open>row[name]\<close> after the fields were checked; \<open>clause.get(name)\<close>.\<close>

definition jfield :: "(string \<times> json) list \<Rightarrow> string \<Rightarrow> json" where
  "jfield row name = (case map_of row name of None \<Rightarrow> JNull | Some v \<Rightarrow> v)"

definition encode_qualified_rule_key :: "qualified_rule_key \<Rightarrow> bytes res" where
  "encode_qualified_rule_key k =
     r_then (key_post_init k)
     (r_bind (canonical_json (JObj (key_asdict k))) (\<lambda>encoded.
       if 16384 < length encoded then Inl (BoundRuleError ''json-byte-limit'') else Inr encoded))"

definition text_field :: "(string \<times> json) list \<Rightarrow> string \<Rightarrow> string res" where
  "text_field row name = checked_string 16384 (jfield row name)"

definition read_key :: "(string \<times> json) list \<Rightarrow> qualified_rule_key res" where
  "read_key row =
     r_bind (text_field row ''registry_id'') (\<lambda>registry. r_bind (text_field row ''bundle_id'') (\<lambda>bundle.
     r_bind (text_field row ''scope'') (\<lambda>sc.
     r_bind (if jfield row ''org_id'' = JNull then Inr None
             else r_bind (text_field row ''org_id'') (\<lambda>s. Inr (Some s))) (\<lambda>org.
     r_bind (text_field row ''S_version'') (\<lambda>s_version.
     r_bind (text_field row ''accepted_content_digest'') (\<lambda>content.
     r_bind (text_field row ''detector_id'') (\<lambda>det. r_bind (text_field row ''detector_version'') (\<lambda>det_version.
     r_bind (text_field row ''detector_raw_sha256'') (\<lambda>det_sha. r_bind (text_field row ''rule_id'') (\<lambda>rule.
     r_bind (text_field row ''rule_artifact_id'') (\<lambda>art. r_bind (text_field row ''rule_artifact_version'') (\<lambda>art_version.
     r_bind (text_field row ''rule_raw_sha256'') (\<lambda>rule_sha. r_bind (text_field row ''model_artifact_id'') (\<lambda>mod_id.
     r_bind (text_field row ''model_artifact_version'') (\<lambda>mod_version.
     r_bind (text_field row ''model_raw_sha256'') (\<lambda>mod_sha.
     r_bind (text_field row ''semantic_descriptor_digest'') (\<lambda>sem.
     r_bind (text_field row ''schema'') (\<lambda>sch.
     Inr \<lparr>registry_id = registry, bundle_id = bundle, scope = sc, org_id = org, S_version = s_version,
       accepted_content_digest = content, detector_id = det, detector_version = det_version,
       detector_raw_sha256 = det_sha, rule_id = rule, rule_artifact_id = art, rule_artifact_version = art_version,
       rule_raw_sha256 = rule_sha, model_artifact_id = mod_id, model_artifact_version = mod_version,
       model_raw_sha256 = mod_sha, semantic_descriptor_digest = sem, key_schema = sch\<rparr>))))))))))))))))))"

definition key_bounds :: json_bounds where
  "key_bounds = \<lparr>jb_depth = 4, jb_values = 64, jb_string = 16384\<rparr>"

definition decode_qualified_rule_key :: "bytes \<Rightarrow> qualified_rule_key res" where
  "decode_qualified_rule_key data =
     r_bind (decode_bounded_json 16384 key_bounds data) (\<lambda>v.
     r_bind (closed_object v key_fields) (\<lambda>row.
     r_bind (canonical_json (JObj row)) (\<lambda>spelling.
     if spelling \<noteq> data then Inl (BoundRuleError ''noncanonical-key'')
     else r_bind (read_key row) (\<lambda>key. r_then (key_post_init key) (Inr key)))))"

end
