(* ===== verification/Rule_Key_Contract.thy ===== *)
theory Rule_Key_Contract
  imports Rule_Key
begin

text \<open>
  The key codec is a bijection between the valid keys and the canonical documents it accepts.
\<close>

section \<open>Accepted text is plain ASCII\<close>

definition ascii_char :: "char \<Rightarrow> bool" where
  "ascii_char c \<longleftrightarrow> of_char c \<in> {1 ..< 128 :: nat}"

abbreviation plain_ascii :: "string \<Rightarrow> bool" where
  "plain_ascii s \<equiv> \<forall>c \<in> set s. ascii_char c"

lemma plain_wire: "plain_ascii s \<Longrightarrow> length s \<le> m \<Longrightarrow> wire_text m s"
  by (auto simp: ascii_char_def wire_text_def intro: utf8_valid_ascii)

lemma ascii_chars:
  "is_alpha c \<Longrightarrow> ascii_char c" "is_digit c \<Longrightarrow> ascii_char c" "is_hex c \<Longrightarrow> ascii_char c"
  "c \<in> set ''_.:/-'' \<Longrightarrow> ascii_char c"
  by (auto simp: ascii_char_def is_alpha_def is_digit_def is_hex_def in_range_def Let_def)

lemma split_on_chars: "c \<in> set s \<Longrightarrow> c = sep \<or> (\<exists>p \<in> set (split_on sep s). c \<in> set p)"
  by (induction s) (auto split: list.splits)

lemma plain_identifier: "identifier_match s \<Longrightarrow> plain_ascii s"
  by (cases s) (use ascii_chars in \<open>auto simp: identifier_match_def\<close>)

lemma plain_digest: "digest_match s \<Longrightarrow> plain_ascii s"
  using ascii_chars by (auto simp: digest_match_def)

lemma plain_version: "version_match s \<Longrightarrow> plain_ascii s"
proof
  fix c assume s: "version_match s" and "c \<in> set s"
  from split_on_chars [OF this(2), of "CHR ''.''"] s have "c = CHR ''.'' \<or> is_digit c"
    by (auto simp: version_match_def version_part_def Let_def is_digit_def)
  then show "ascii_char c" using ascii_chars by auto
qed

lemma plain_uuid: "uuid_match s \<Longrightarrow> plain_ascii s"
proof
  fix c assume s: "uuid_match s" and "c \<in> set s"
  from split_on_chars [OF this(2), of "CHR ''-''"] s have "c = CHR ''-'' \<or> is_hex c"
    by (auto simp: uuid_match_def Let_def)
  then show "ascii_char c" using ascii_chars by auto
qed

section \<open>Valid keys\<close>

lemma matched_Inr: "matched m P code v = Inr s \<longleftrightarrow> v = JStr s \<and> text_ok m s \<and> P s"
  by (auto simp: matched_def r_bind_Inr_iff checked_string_Inr)

lemma forget_Inr: "forget x = Inr u \<longleftrightarrow> (\<exists>y. x = Inr y)"
  by (auto simp: forget_def r_bind_Inr_iff)

lemma opt_json_str: "opt_json x = JStr s \<longleftrightarrow> x = Some s"
  by (auto simp: opt_json_def split: option.splits)

definition key_valid :: "qualified_rule_key \<Rightarrow> bool" where
  "key_valid k \<longleftrightarrow> key_schema k = QUALIFIED_RULE_SCHEMA \<and> uuid_match (registry_id k) \<and> uuid_match (bundle_id k) \<and>
     (scope k = ''global'' \<and> org_id k = None \<or> scope k = ''customer'' \<and> (\<exists>s. org_id k = Some s \<and> uuid_match s)) \<and>
     (\<forall>s \<in> {S_version k, detector_version k, rule_artifact_version k, model_artifact_version k}. version_match s) \<and>
     (\<forall>s \<in> {accepted_content_digest k, detector_raw_sha256 k, rule_raw_sha256 k, model_raw_sha256 k,
              semantic_descriptor_digest k}. digest_match s) \<and>
     (\<forall>s \<in> {detector_id k, rule_id k, rule_artifact_id k, model_artifact_id k}. identifier_match s)"

text \<open>The length limits of the checks follow from the patterns.\<close>

lemma split_on_length: "length s = sum_list (map length (split_on sep s)) + length (split_on sep s) - 1 \<and> split_on sep s \<noteq> []"
  by (induction s) (auto split: list.splits)

lemma match_length:
  "identifier_match s \<Longrightarrow> length s \<le> 128" "digest_match s \<Longrightarrow> length s \<le> 64"
  "version_match s \<Longrightarrow> length s \<le> 32" "uuid_match s \<Longrightarrow> length s \<le> 36"
proof -
  show "length s \<le> 32" if "version_match s"
  proof -
    have len: "length p \<le> 10" if "p \<in> set (split_on CHR ''.'' s)" for p
      using \<open>version_match s\<close> that by (auto simp: version_match_def version_part_def Let_def)
    have "length (split_on CHR ''.'' s) = 3" using that by (simp add: version_match_def Let_def)
    moreover have "sum_list (map length (split_on CHR ''.'' s)) \<le> sum_list (map (\<lambda>_. 10) (split_on CHR ''.'' s))"
      by (rule sum_list_mono) (rule len)
    ultimately show ?thesis using split_on_length [of s "CHR ''.''"] by (simp add: sum_list_triv)
  qed
  show "length s \<le> 36" if "uuid_match s"
  proof -
    have ls: "map length (split_on CHR ''-'' s) = [8, 4, 4, 4, 12]" using that by (simp add: uuid_match_def Let_def)
    have "length (split_on CHR ''-'' s) = length (map length (split_on CHR ''-'' s))" by simp
    also have "\<dots> = 5" unfolding ls by simp
    finally have "length (split_on CHR ''-'' s) = 5" .
    with ls split_on_length [of s "CHR ''-''"] show ?thesis by simp
  qed
qed (auto simp: identifier_match_def digest_match_def)

lemma matched_ok:
  assumes "\<And>s. P s \<Longrightarrow> plain_ascii s" and "\<And>s. P s \<Longrightarrow> length s \<le> m"
  shows "(\<exists>y. matched m P code v = Inr y) \<longleftrightarrow> (\<exists>s. v = JStr s \<and> P s)"
  using assms plain_wire wire_text_ok by (auto simp: matched_Inr)

lemma key_post_init_ok: "key_post_init k = Inr () \<longleftrightarrow> key_valid k"
  unfolding key_post_init_def key_valid_def
  by (auto simp: forget_Inr uuid_of_def version_of_def digest_of_def identifier_of_def opt_json_str
      matched_ok [OF plain_uuid match_length(4)] matched_ok [OF plain_version match_length(3)]
      matched_ok [OF plain_digest match_length(2)] matched_ok [OF plain_identifier match_length(1)])

lemma key_wire:
  assumes "key_valid k"
  shows "json_strings (wire_text 16384) (JObj (key_asdict k))"
proof -
  have wire: "wire_text 16384 s" if "uuid_match s \<or> version_match s \<or> digest_match s \<or> identifier_match s" for s
    using that plain_uuid plain_version plain_digest plain_identifier
    by (intro plain_wire) (auto dest: match_length)
  have names: "list_all (\<lambda>(n, _). wire_text 16384 n) (key_asdict k)"
    by (simp add: key_asdict_def wire_text_def utf8_ascii_head)
  have known: "wire_text 16384 QUALIFIED_RULE_SCHEMA" "wire_text 16384 ''global''" "wire_text 16384 ''customer''"
    by (simp_all add: wire_text_def QUALIFIED_RULE_SCHEMA_def)
  have vals: "list_all (\<lambda>(_, v). json_strings (wire_text 16384) v) (key_asdict k)"
    using assms wire known unfolding key_valid_def key_asdict_def by (auto simp: opt_json_def)
  show ?thesis using names vals by (auto simp: list_all_iff)
qed

section \<open>Rows and keys\<close>

lemma sort_key_same_set:
  assumes "distinct (map fst xs)" and "distinct (map fst ys)" and "set xs = set ys"
  shows "sort_key fst xs = sort_key fst ys"
proof (rule map_sorted_distinct_set_unique [of fst])
  show "inj_on fst (set (sort_key fst xs) \<union> set (sort_key fst ys))"
    using assms by (simp add: distinct_map)
  show "distinct (map fst (sort_key fst xs))" "distinct (map fst (sort_key fst ys))"
    using assms by (metis distinct_map distinct_sort set_sort)+
qed (use assms in simp_all)

lemma map_of_same_set:
  assumes "distinct (map fst xs)" and "distinct (map fst ys)" and "set xs = set ys"
  shows "map_of xs = map_of ys"
  using assms by (metis map_of_inject_set)

text \<open>A row whose values are strings or null is determined, up to order, by its fields.\<close>

definition flat_row :: "(string \<times> json) list \<Rightarrow> bool" where
  "flat_row row \<longleftrightarrow> distinct (map fst row) \<and> (\<forall>(k, v) \<in> set row. sort_keys v = v)"

lemma flat_row_sort: "flat_row row \<Longrightarrow> sort_keys (JObj row) = JObj (sort_key fst row)"
proof -
  assume "flat_row row"
  then have "map (\<lambda>(k, v). (k, sort_keys v)) row = row"
    by (intro map_idI) (auto simp: flat_row_def)
  then show ?thesis by simp
qed

lemma flat_rows_equal:
  assumes "flat_row xs" and "flat_row ys" and "map_of xs = map_of ys"
  shows "dumps (JObj xs) = dumps (JObj ys)"
proof -
  have "set xs = set ys"
    using assms by (metis flat_row_def map_of_inject_set)
  with assms have "sort_key fst xs = sort_key fst ys" by (intro sort_key_same_set) (auto simp: flat_row_def)
  with assms show ?thesis by (simp only: dumps_sort_keys flat_row_sort)
qed

lemma key_asdict_keys: "map fst (key_asdict k) = key_fields"
  by (simp add: key_asdict_def key_fields_def)

lemma key_fields_distinct: "distinct key_fields"
  by code_simp

lemma key_asdict_flat: "flat_row (key_asdict k)"
  unfolding flat_row_def key_asdict_keys using key_fields_distinct
  by (auto simp: key_asdict_def opt_json_def split: option.splits)

text \<open>The row is read into the key whose dictionary has the same entries.\<close>

lemma text_field_Inr: "text_field row n = Inr s \<longleftrightarrow> map_of row n = Some (JStr s) \<and> text_ok 16384 s"
  by (auto simp: text_field_def jfield_def checked_string_Inr split: option.splits)

lemma read_key_Inr:
  assumes "''org_id'' \<in> fst ` set row"
  shows "read_key row = Inr k \<longleftrightarrow>
     list_all (\<lambda>(n, v). map_of row n = Some v \<and> json_strings (text_ok 16384) v) (key_asdict k)"
proof -
  have org: "(if jfield row ''org_id'' = JNull then Inr None
      else r_bind (text_field row ''org_id'') (\<lambda>s. Inr (Some s))) = Inr x \<longleftrightarrow>
      map_of row ''org_id'' = Some (opt_json x) \<and> json_strings (text_ok 16384) (opt_json x)" for x
  proof -
    obtain v where v: "map_of row ''org_id'' = Some v" using assms by (metis map_of_eq_None_iff not_None_eq)
    show ?thesis
      by (cases v) (auto simp: v jfield_def r_bind_Inr_iff text_field_Inr opt_json_def split: option.splits)
  qed
  show ?thesis
    unfolding read_key_def key_asdict_def r_bind_Inr_iff text_field_Inr org by (cases k) auto
qed

lemma entries_determine_row:
  assumes "set (map fst row) = set key_fields"
    and "list_all (\<lambda>(n, v). map_of row n = Some v) (key_asdict k)"
  shows "map_of row = map_of (key_asdict k)"
proof
  fix n
  have d: "distinct (map fst (key_asdict k))" unfolding key_asdict_keys by (rule key_fields_distinct)
  show "map_of row n = map_of (key_asdict k) n"
  proof (cases "map_of (key_asdict k) n")
    case None
    then have "n \<notin> set (map fst row)" using assms(1) key_asdict_keys [of k] by (metis list.set_map map_of_eq_None_iff)
    then have "map_of row n = None" by (simp add: map_of_eq_None_iff)
    with None show ?thesis by simp
  next
    case (Some v)
    from map_of_SomeD [OF this] assms(2) Some show ?thesis by (auto simp: list_all_iff)
  qed
qed

lemma key_canonical:
  assumes "key_valid k"
  shows "canonical_json (JObj (key_asdict k)) = Inr (dumps (JObj (key_asdict k)))"
proof -
  have "utf8_valid (dumps (JObj (key_asdict k)))"
    unfolding dumps_sort_keys
    by (rule utf8_valid_dumps, unfold sort_keys_strings, rule json_strings_mono [OF _ key_wire [OF assms]])
      (simp add: wire_text_def)
  then show ?thesis by (simp add: canonical_json_def utf8_valid_no_surrogate del: dumps.simps)
qed

lemma encode_key_Inr:
  "encode_qualified_rule_key k = Inr d \<longleftrightarrow> key_valid k \<and> d = dumps (JObj (key_asdict k)) \<and> length d \<le> 16384"
  by (auto simp: encode_qualified_rule_key_def key_post_init_ok key_canonical r_bind_Inr_iff not_less
      split: if_splits simp del: dumps.simps)

lemma decode_key_Inr:
  "decode_qualified_rule_key d = Inr k \<longleftrightarrow>
     (\<exists>row. decode_bounded_json 16384 key_bounds d = Inr (JObj row) \<and> set (map fst row) = set key_fields \<and>
        canonical_json (JObj row) = Inr d \<and> read_key row = Inr k \<and> key_valid k)"
proof -
  have closed: "closed_object v key_fields = Inr row \<longleftrightarrow> v = JObj row \<and> set (map fst row) = set key_fields" for v row
    by (cases v) (auto simp: closed_object_def)
  show ?thesis
    by (auto simp: decode_qualified_rule_key_def r_bind_Inr_iff closed key_post_init_ok split: if_splits)
qed

lemma decoded_key_encodes:
  assumes "decode_qualified_rule_key d = Inr k"
  shows "encode_qualified_rule_key k = Inr d"
proof -
  obtain row where row: "decode_bounded_json 16384 key_bounds d = Inr (JObj row)"
      "set (map fst row) = set key_fields" "canonical_json (JObj row) = Inr d" "read_key row = Inr k" "key_valid k"
    using assms by (auto simp: decode_key_Inr)
  have "''org_id'' \<in> fst ` set row" using row(2) by (simp add: key_fields_def)
  from row(4) [unfolded read_key_Inr [OF this]]
  have fields: "list_all (\<lambda>(n, v). map_of row n = Some v) (key_asdict k)" by (auto simp: list_all_iff)
  have same: "map_of row = map_of (key_asdict k)" by (rule entries_determine_row [OF row(2) fields])
  have d: "distinct (map fst row)"
    using row(1) loads_at [of bound_hooks d "JObj row"] value_at_shape(1) by (fastforce simp: decode_bounded_json_Inr)
  have "flat_row row"
  proof -
    have "set row = set (key_asdict k)"
      using same d key_asdict_flat [of k] by (simp add: flat_row_def map_of_inject_set)
    with d key_asdict_flat [of k] show ?thesis by (simp add: flat_row_def)
  qed
  from flat_rows_equal [OF this key_asdict_flat same] row(3) have "d = dumps (JObj (key_asdict k))"
    by (auto simp: canonical_json_def split: if_splits simp del: dumps.simps)
  moreover have "length d \<le> 16384" using row(1) by (simp add: decode_bounded_json_Inr)
  ultimately show ?thesis using row(5) by (simp add: encode_key_Inr)
qed

lemma key_asdict_sizes: "jdepth (JObj (key_asdict k)) \<le> 4" "jtokens (JObj (key_asdict k)) \<le> 64"
  by (simp_all add: key_asdict_def opt_json_def split: option.splits)

lemma encoded_key_decodes:
  assumes "encode_qualified_rule_key k = Inr d"
  shows "decode_qualified_rule_key d = Inr k"
proof -
  have k: "key_valid k" and d: "d = dumps (JObj (key_asdict k))" and len: "length d \<le> 16384"
    using assms by (auto simp: encode_key_Inr)
  let ?row = "sort_key fst (key_asdict k)"
  have sorted: "sort_keys (JObj (key_asdict k)) = JObj ?row" by (rule flat_row_sort [OF key_asdict_flat])
  have shape: "json_shape (JObj (key_asdict k))"
    using key_fields_distinct key_asdict_keys [of k] by (auto simp: key_asdict_def opt_json_def split: option.splits)
  have "decode_bounded_json 16384 key_bounds d = Inr (JObj ?row)"
    unfolding d sorted [symmetric]
    by (rule canonical_read_back(2)) (use shape key_wire [OF k] key_asdict_sizes [of k] len d in \<open>simp_all add: key_bounds_def del: jdepth.simps jtokens.simps dumps.simps json_strings.simps\<close>)
  moreover have names: "set (map fst ?row) = set key_fields" using key_asdict_keys [of k] by (metis list.set_map set_sort)
  moreover have same: "map_of ?row = map_of (key_asdict k)"
    using key_asdict_flat [of k] by (intro map_of_same_set) (auto simp: flat_row_def distinct_map)
  moreover have "canonical_json (JObj ?row) = Inr d"
  proof -
    have "flat_row ?row" using key_asdict_flat [of k] by (auto simp: flat_row_def distinct_map)
    from flat_rows_equal [OF this key_asdict_flat same] have "dumps (JObj ?row) = d" by (simp add: d del: dumps.simps)
    with key_canonical [OF k] d show ?thesis by (simp add: canonical_json_def split: if_splits del: dumps.simps)
  qed
  moreover have "read_key ?row = Inr k"
  proof -
    have org: "''org_id'' \<in> fst ` set ?row" using names by (simp add: key_fields_def)
    have "map_of (key_asdict k) n = Some v" if "(n, v) \<in> set (key_asdict k)" for n v
      using that key_asdict_flat [of k] by (simp add: flat_row_def)
    moreover have "json_strings (text_ok 16384) v" if "(n, v) \<in> set (key_asdict k)" for n v
      using key_wire [OF k] that by (auto elim!: json_strings_mono [rotated] dest: wire_text_ok)
    ultimately show ?thesis unfolding read_key_Inr [OF org] same by (auto simp: list_all_iff)
  qed
  ultimately show ?thesis using k unfolding decode_key_Inr by blast
qed

text \<open>
  C11. The key codec is exact in both directions: bytes decode to a key if and only if the key is
  valid and encodes to precisely those bytes. So every valid key survives the round trip, and a
  key has one wire form: reordered, re-spaced or differently escaped documents are refused.
\<close>

theorem key_codec_exact:
  "decode_qualified_rule_key d = Inr k \<longleftrightarrow> encode_qualified_rule_key k = Inr d"
  using decoded_key_encodes encoded_key_decodes by blast

end
