(* ===== verification/Frozen.thy ===== *)
theory Frozen
  imports Bound_Json_Contract
begin

text \<open>
  Immutable JSON values of \<open>analysis/cpg_ingest/typed_observed.py\<close>: \<open>FrozenArray\<close>, \<open>FrozenObject\<close>,
  \<open>freeze_value\<close> and \<open>thaw_value\<close>. An \<open>ObservedGraphInputError\<close> and its subclasses are
  \<open>ObservedGraphError\<close> with the stable code; the code determines the subclass.
\<close>

datatype frozen =
    FNull
  | FBool bool
  | FInt int
  | FStr string
  | FArray "frozen list"
  | FObject "(string \<times> frozen) list"

definition validate_frozen :: "frozen \<Rightarrow> unit res" where
  "validate_frozen v =
     (case v of
        FStr s \<Rightarrow> if has_surrogate s then Inl (ObservedGraphError ''invalid-utf8'') else Inr ()
      | _ \<Rightarrow> Inr ())"

text \<open>The constructors: the elements are validated, and the keys of an object are strictly sorted.\<close>

definition frozen_array :: "frozen list \<Rightarrow> frozen res" where
  "frozen_array values = r_then (r_each validate_frozen values) (Inr (FArray values))"

fun frozen_entries :: "string option \<Rightarrow> (string \<times> frozen) list \<Rightarrow> unit res" where
  "frozen_entries previous [] = Inr ()"
| "frozen_entries previous ((key, v) # entries) =
     (if (case previous of None \<Rightarrow> False | Some p \<Rightarrow> key \<le> p) then Inl (ObservedGraphError ''object-order'')
      else r_then (validate_frozen (FStr key)) (r_then (validate_frozen v) (frozen_entries (Some key) entries)))"

definition frozen_object :: "(string \<times> frozen) list \<Rightarrow> frozen res" where
  "frozen_object entries = r_then (frozen_entries None entries) (Inr (FObject entries))"

text \<open>\<open>FrozenObject.get\<close>; an absent key raises.\<close>

definition frozen_get :: "(string \<times> frozen) list \<Rightarrow> string \<Rightarrow> frozen option" where
  "frozen_get entries key = map_of entries key"

definition checked_scalar :: "frozen \<Rightarrow> frozen res" where
  "checked_scalar v = r_then (validate_frozen v) (Inr v)"

fun freeze_value :: "json \<Rightarrow> frozen res" where
  "freeze_value (JObj kvs) =
     r_bind (r_map (\<lambda>(k, v). r_bind (freeze_value v) (\<lambda>f. Inr (k, f))) (sort_key fst kvs)) frozen_object"
| "freeze_value (JArr xs) = r_bind (r_map freeze_value xs) frozen_array"
| "freeze_value (JStr s) = checked_scalar (FStr s)"
| "freeze_value (JInt i) = checked_scalar (FInt i)"
| "freeze_value (JBool b) = checked_scalar (FBool b)"
| "freeze_value JNull = checked_scalar FNull"

fun thaw_value :: "frozen \<Rightarrow> json" where
  "thaw_value (FObject entries) = JObj (map (\<lambda>(k, v). (k, thaw_value v)) entries)"
| "thaw_value (FArray values) = JArr (map thaw_value values)"
| "thaw_value (FStr s) = JStr s"
| "thaw_value (FInt i) = JInt i"
| "thaw_value (FBool b) = JBool b"
| "thaw_value FNull = JNull"

section \<open>Freezing and thawing\<close>

text \<open>The invariant that the constructors establish.\<close>

fun frozen_ok :: "frozen \<Rightarrow> bool" where
  "frozen_ok (FStr s) \<longleftrightarrow> \<not> has_surrogate s"
| "frozen_ok (FArray vs) \<longleftrightarrow> (\<forall>v \<in> set vs. frozen_ok v)"
| "frozen_ok (FObject es) \<longleftrightarrow> sorted_wrt (<) (map fst es) \<and> (\<forall>(k, v) \<in> set es. \<not> has_surrogate k \<and> frozen_ok v)"
| "frozen_ok _ \<longleftrightarrow> True"

lemma validate_frozen_ok: "frozen_ok v \<Longrightarrow> validate_frozen v = Inr ()"
  by (cases v) (auto simp: validate_frozen_def)

lemma frozen_entries_ok:
  "frozen_entries p es = Inr () \<longleftrightarrow> sorted_wrt (<) (map fst es) \<and> opt_all (\<lambda>q. \<forall>k \<in> set (map fst es). q < k) p \<and>
     (\<forall>(k, v) \<in> set es. \<not> has_surrogate k \<and> validate_frozen v = Inr ())"
proof (induction p es rule: frozen_entries.induct)
  case (2 p key v es)
  then show ?case by (cases p) (auto simp: validate_frozen_def not_le)
next
  case (1 p)
  then show ?case by (cases p) simp_all
qed

lemma list_all2_source: "list_all2 R xs ys \<Longrightarrow> y \<in> set ys \<Longrightarrow> \<exists>x \<in> set xs. R x y"
  by (induction rule: list_all2_induct) auto

lemma freeze_entry:
  "(case x of (k, v) \<Rightarrow> r_bind (freeze_value v) (\<lambda>f. Inr (k, f))) = Inr y \<longleftrightarrow>
     fst y = fst x \<and> freeze_value (snd x) = Inr (snd y)"
  by (cases x; cases y) (auto simp: r_bind_Inr_iff)

lemma freeze_ok: "freeze_value j = Inr f \<Longrightarrow> frozen_ok f \<and> thaw_value f = sort_keys j"
proof (induction j arbitrary: f rule: freeze_value.induct)
  case (1 kvs)
  obtain es where es: "list_all2 (\<lambda>x y. (case x of (k, v) \<Rightarrow> r_bind (freeze_value v) (\<lambda>f. Inr (k, f))) = Inr y) (sort_key fst kvs) es"
    and f: "f = FObject es" and ok: "frozen_entries None es = Inr ()"
    using 1(2) by (auto simp: r_bind_Inr_iff r_map_Inr_iff frozen_object_def)
  have step: "fst y = fst x \<and> freeze_value (snd x) = Inr (snd y)" if "(x, y) \<in> set (zip (sort_key fst kvs) es)" for x y
    using es that unfolding freeze_entry by (auto simp: list_all2_iff)
  have val: "frozen_ok (snd y) \<and> thaw_value (snd y) = sort_keys (snd x)" if "(x, y) \<in> set (zip (sort_key fst kvs) es)" for x y
  proof (rule 1(1))
    show "x \<in> set (sort_key fst kvs)" using that by (rule set_zip_leftD)
    show "(fst x, snd x) = x" by simp
    show "freeze_value (snd x) = Inr (snd y)" using step [OF that] ..
  qed
  have len: "length es = length (sort_key fst kvs)" using es by (simp add: list_all2_iff)
  have pair: "(sort_key fst kvs ! i, es ! i) \<in> set (zip (sort_key fst kvs) es)" if "i < length es" for i
    using that len by (auto simp: set_zip)
  have "frozen_ok v" if "(k, v) \<in> set es" for k v
    using that val pair by (metis in_set_conv_nth snd_conv)
  moreover have "map (\<lambda>(k, v). (k, thaw_value v)) es = map (\<lambda>(k, v). (k, sort_keys v)) (sort_key fst kvs)"
    by (rule nth_equalityI) (use len step val pair in \<open>auto simp: case_prod_beta\<close>)
  ultimately show ?case
    using ok by (auto simp: f frozen_entries_ok sort_key_map_pair)
next
  case (2 xs)
  then obtain fs where fs: "list_all2 (\<lambda>x y. freeze_value x = Inr y) xs fs" and f: "f = FArray fs"
    by (auto simp: r_bind_Inr_iff r_map_Inr_iff frozen_array_def)
  have "list_all2 (\<lambda>x y. frozen_ok y \<and> thaw_value y = sort_keys x) xs fs"
    by (rule list.rel_mono_strong [OF fs]) (rule 2(1))
  then show ?case
    by (auto simp: f list_all2_conv_all_nth in_set_conv_nth intro!: nth_equalityI)
qed (auto simp: checked_scalar_def validate_frozen_def)

fun keys_distinct :: "json \<Rightarrow> bool" where
  "keys_distinct (JArr xs) \<longleftrightarrow> (\<forall>x \<in> set xs. keys_distinct x)"
| "keys_distinct (JObj kvs) \<longleftrightarrow> distinct (map fst kvs) \<and> (\<forall>(k, v) \<in> set kvs. keys_distinct v)"
| "keys_distinct _ \<longleftrightarrow> True"

lemma shape_keys_distinct: "json_shape j \<Longrightarrow> keys_distinct j"
  by (induction j rule: keys_distinct.induct) auto

lemma freeze_total:
  "keys_distinct j \<Longrightarrow> json_strings (\<lambda>s. \<not> has_surrogate s) j \<Longrightarrow> \<exists>f. freeze_value j = Inr f"
proof (induction j rule: freeze_value.induct)
  case (1 kvs)
  let ?step = "\<lambda>(k, v). r_bind (freeze_value v) (\<lambda>f. Inr (k, f))"
  have "\<exists>y. ?step x = Inr y" if x: "x \<in> set (sort_key fst kvs)" for x
  proof -
    have "\<exists>f. freeze_value (snd x) = Inr f"
      by (rule 1(1) [OF x, of "fst x" "snd x"]) (use 1(2,3) x in auto)
    then show ?thesis by (auto simp: case_prod_beta)
  qed
  then obtain es where es: "r_map ?step (sort_key fst kvs) = Inr es" using r_map_exists by blast
  then have all: "list_all2 (\<lambda>x y. ?step x = Inr y) (sort_key fst kvs) es" by (simp add: r_map_Inr_iff)
  have fsts: "map fst es = map fst (sort_key fst kvs)"
    using all unfolding freeze_entry by (intro nth_equalityI) (simp_all add: list_all2_conv_all_nth)
  have "distinct (map fst (sort_key fst kvs))"
    using 1(2) by (simp add: distinct_map)
  then have sorted: "sorted_wrt (<) (map fst es)"
    unfolding fsts using sorted_sort_key [of fst kvs] by (simp add: strict_sorted_iff)
  have ok: "\<not> has_surrogate k \<and> validate_frozen v = Inr ()" if kv: "(k, v) \<in> set es" for k v
  proof -
    from all kv obtain x where x: "x \<in> set kvs" "?step x = Inr (k, v)"
      using list_all2_source [OF all kv] by auto
    then have "freeze_value (snd x) = Inr v" "fst x = k" by (simp_all add: freeze_entry)
    from freeze_ok [OF this(1)] this(2) x(1) 1(3) show ?thesis by (cases x) (auto simp: validate_frozen_ok)
  qed
  from sorted ok es show ?case by (auto simp: frozen_object_def frozen_entries_ok)
next
  case (2 xs)
  then have "\<exists>fs. r_map freeze_value xs = Inr fs" by (intro r_map_exists) auto
  then obtain fs where fs: "r_map freeze_value xs = Inr fs" by blast
  then have "list_all2 (\<lambda>x y. freeze_value x = Inr y) xs fs" by (simp add: r_map_Inr_iff)
  then have "validate_frozen f = Inr ()" if "f \<in> set fs" for f
    using list_all2_source [of _ xs fs f] that freeze_ok validate_frozen_ok by blast
  with fs show ?case by (simp add: frozen_array_def)
qed (auto simp: checked_scalar_def validate_frozen_def)

end
