(* ===== verification/Bound_Rule.thy ===== *)
theory Bound_Rule
  imports Rule_Key_Contract Frozen Dsl_Spec
begin

text \<open>
  Rule sets and operation models in \<open>analysis/ifds/bound_rules.py\<close>: the four capability rows that
  the code knows, the checks of a model document and of a rule document against them, and the
  construction of a \<open>BoundRule\<close> from raw bytes under a qualified key. \<open>sha256\<close> (raw digest of
  bytes) is a parameter. Documents are frozen by \<open>freeze_value\<close> of
  \<open>analysis/cpg_ingest/typed_observed.py\<close>.
\<close>

section \<open>Python values in documents\<close>

text \<open>
  \<open>==\<close> on decoded documents: dictionaries compare without order, and a boolean equals the integer
  0 or 1.
\<close>

fun py_norm :: "json \<Rightarrow> json" where
  "py_norm (JBool b) = JInt (if b then 1 else 0)"
| "py_norm (JArr xs) = JArr (map py_norm xs)"
| "py_norm (JObj kvs) = JObj (sort_key fst (map (\<lambda>(k, v). (k, py_norm v)) kvs))"
| "py_norm j = j"

definition py_eq :: "json \<Rightarrow> json \<Rightarrow> bool" where
  "py_eq a b \<longleftrightarrow> py_norm a = py_norm b"

definition PYTHON_TARGET :: string where
  "PYTHON_TARGET = ''scanipy-target-cpython311-posix/1''"

definition JAVA_TARGET :: string where
  "JAVA_TARGET = ''scanipy-target-java21-jdbc/1''"

definition TYPE_IDS :: "string list" where
  "TYPE_IDS = [''python.exact-str'', ''python.int'', ''java.lang.String'', ''java.sql.Statement'', ''java.sql.ResultSet'']"

definition array_of :: "json \<Rightarrow> nat \<Rightarrow> nat \<Rightarrow> json list res" where
  "array_of v minimum maximum =
     (case v of
        JArr xs \<Rightarrow> if minimum \<le> length xs \<and> length xs \<le> maximum then Inr xs else Inl (BoundRuleError ''invalid-array'')
      | _ \<Rightarrow> Inl (BoundRuleError ''invalid-array''))"

definition enum_of :: "json \<Rightarrow> string list \<Rightarrow> string res" where
  "enum_of v choices =
     (case v of
        JStr s \<Rightarrow> if s \<in> set choices then Inr s else Inl (BoundRuleError ''invalid-enum'')
      | _ \<Rightarrow> Inl (BoundRuleError ''invalid-enum''))"

definition position_of :: "json \<Rightarrow> bool \<Rightarrow> json res" where
  "position_of v result =
     r_bind (closed_object v [''kind'', ''index'']) (\<lambda>row.
     r_then (b_check ''invalid-position'' (jfield row ''kind'' = JStr (if result then ''result'' else ''argument'')))
     (r_then (b_check ''invalid-position''
        (case jfield row ''index'' of JInt i \<Rightarrow> 0 \<le> i \<and> i \<le> (if result then 0 else 255) | _ \<Rightarrow> False))
     (Inr (JObj row))))"

section \<open>Operation models\<close>

definition argument :: "int \<Rightarrow> json" where
  "argument index = JObj [(''kind'', JStr ''argument''), (''index'', JInt index)]"

definition starts_with :: "string \<Rightarrow> string \<Rightarrow> bool" where
  "starts_with p s \<longleftrightarrow> take (length p) s = p"

definition ends_with :: "string \<Rightarrow> string \<Rightarrow> bool" where
  "ends_with p s \<longleftrightarrow> length p \<le> length s \<and> drop (length s - length p) s = p"

definition model_ids :: "string list" where
  "model_ids = [''python.string-concat/1'', ''python.os-system/1'', ''java.string-concat/1'', ''java.jdbc-execute-query/1'']"

definition model_checks :: "bool \<Rightarrow> bool \<Rightarrow> (string \<times> string) list" where
  "model_checks python string_concat =
     (if string_concat then
        (if python then [(''python-exact-str-operands/1'', ''checked'')]
         else [(''java-standard-string-semantics/1'', ''assumed''), (''java-string-operands/1'', ''checked'')])
      else if python then
        [(''python-direct-os-import/1'', ''checked''), (''python-exact-str-argument/1'', ''checked''),
         (''python-no-external-binding-mutation/1'', ''assumed''), (''python-no-local-binding-mutation/1'', ''checked''),
         (''python-standard-os-implementation/1'', ''assumed''), (''terminal-selected-entry-call/1'', ''checked'')]
      else
        [(''java-declared-statement-receiver/1'', ''checked''), (''java-string-argument/1'', ''checked''),
         (''java21-jdbc-contract/1'', ''assumed''), (''terminal-selected-entry-call/1'', ''checked'')])"

definition initial_model :: "string \<Rightarrow> json res" where
  "initial_model model_id =
     (if model_id \<notin> set model_ids then Inl (BoundRuleError ''unsupported-model'')
      else
        let python = starts_with ''python.'' model_id;
            string_concat = ends_with ''string-concat/1'' model_id;
            string_type = JStr (if python then ''python.exact-str'' else ''java.lang.String'');
            symbol = (if string_concat then JNull
              else JObj [(''owner'', JStr (if python then ''os'' else ''java.sql.Statement'')),
                         (''member'', JStr (if python then ''system'' else ''executeQuery''))]);
            result = JObj [(''kind'', JStr ''result''), (''index'', JInt 0)]
        in Inr (JObj
          [(''model_id'', JStr model_id),
           (''language'', JStr (if python then ''python'' else ''java'')),
           (''kind'', JStr (if string_concat then ''builtin-operator'' else ''external-call'')),
           (''target_platform_profile'', JStr (if python then PYTHON_TARGET else JAVA_TARGET)),
           (''operation'', JStr (if string_concat then ''string-concat'' else ''external-api'')),
           (''symbol'', symbol),
           (''signature'', JObj
              [(''receiver'', if string_concat \<or> python then JNull else JStr ''java.sql.Statement''),
               (''parameters'', JArr (replicate (if string_concat then 2 else 1) string_type)),
               (''result'', if string_concat then string_type
                  else JStr (if python then ''python.int'' else ''java.sql.ResultSet''))]),
           (''preconditions'', JArr (map (\<lambda>(name, kind). JObj [(''id'', JStr name), (''evidence_kind'', JStr kind)])
              (model_checks python string_concat))),
           (''normal'', JObj
              [(''result'', JStr ''defined''),
               (''effects'', JArr (if string_concat then [JStr ''allocation'']
                  else [JStr ''external-io'', JStr (if python then ''external-process'' else ''unknown-external-effect'')]))]),
           (''exceptional'', JObj
              [(''result'', JStr ''absent''), (''continuation'', JStr ''exit-unknown-exception''),
               (''effects'', JArr [JStr (if string_concat then ''resource-failure'' else ''unknown-external-effect'')])]),
           (''transfer_authorization'', JObj
              [(''sink_inputs'', JArr (if string_concat then []
                  else [JObj [(''position'', argument 0), (''class_id'', JStr ''injection''),
                              (''context_id'', JStr (if python then ''posix-shell-command'' else ''sql-query-text''))]])),
               (''propagation'', JArr (if string_concat
                  then map (\<lambda>index. JObj [(''from'', argument index), (''to'', result)]) [0, 1] else [])),
               (''sanitization'', JArr [])])]))"

definition MODEL_SCHEMA :: string where
  "MODEL_SCHEMA = ''scanipy-operation-models/1''"

text \<open>\<open>models: dict[str, row]\<close> in insertion order; \<open>used_profiles\<close> and \<open>previous\<close> of the loop.\<close>

type_synonym model_table = "(string \<times> json) list"

fun read_models :: "json list \<Rightarrow> model_table \<Rightarrow> string list \<Rightarrow> string option \<Rightarrow> (model_table \<times> string list) res" where
  "read_models [] models used previous = Inr (models, used)"
| "read_models (v # vs) models used previous =
     (case v of
        JObj row \<Rightarrow>
          if ''model_id'' \<notin> set (map fst row) then Inl (BoundRuleError ''invalid-model'')
          else r_bind (identifier_of (jfield row ''model_id'')) (\<lambda>model_id.
            if (case previous of None \<Rightarrow> False | Some p \<Rightarrow> model_id \<le> p) then Inl (BoundRuleError ''invalid-model-order'')
            else r_bind (initial_model model_id) (\<lambda>known.
              if \<not> py_eq (JObj row) known then Inl (BoundRuleError ''unsupported-model'')
              else read_models vs (models @ [(model_id, JObj row)])
                     (case jfield row ''target_platform_profile'' of JStr p \<Rightarrow> p # used | _ \<Rightarrow> used) (Some model_id)))
      | _ \<Rightarrow> Inl (BoundRuleError ''invalid-model''))"

definition read_model_document :: "scalar_limits \<Rightarrow> json \<Rightarrow> (json \<times> model_table) res" where
  "read_model_document limits v =
     r_bind (closed_object v [''schema'', ''target_platform_profiles'', ''models'']) (\<lambda>root.
     r_then (b_check ''unknown-model-schema'' (jfield root ''schema'' = JStr MODEL_SCHEMA))
     (r_bind (array_of (jfield root ''target_platform_profiles'') 1 2) (\<lambda>items.
      r_bind (r_map (\<lambda>profile. enum_of profile [PYTHON_TARGET, JAVA_TARGET]) items) (\<lambda>profiles.
      r_then (b_check ''invalid-profile-order'' (profiles = sort (remdups profiles)))
      (r_bind (array_of (jfield root ''models'') 1 (nat (max_models limits))) (\<lambda>rows.
       r_bind (read_models rows [] [] None) (\<lambda>(models, used).
       r_then (b_check ''unbound-target-profile'' (set profiles = set used))
       (Inr (JObj root, models)))))))))"

section \<open>Rules\<close>

text \<open>\<open>unicodedata.category(c) == "Cc"\<close> for a character of the text.\<close>

fun has_control :: "string \<Rightarrow> bool" where
  "has_control [] = False"
| "has_control (a # s) \<longleftrightarrow> of_char a < (0x20 :: nat) \<or> a = CHR 0x7F
     \<or> in_range 0xC2 0xC2 a \<and> s \<noteq> [] \<and> in_range 0x80 0x9F (hd s) \<or> has_control s"

definition path_ok :: "scalar_limits \<Rightarrow> string \<Rightarrow> bool" where
  "path_ok limits path \<longleftrightarrow>
     (let components = split_on CHR ''/'' path in
      int (length components) \<le> max_path_components limits \<and>
      (\<forall>part \<in> set components. part \<notin> set ['''', ''.'', ''..'']) \<and>
      CHR 0x5C \<notin> set path \<and> \<not> has_control path)"

definition source_selector :: "scalar_limits \<Rightarrow> string list \<Rightarrow> json \<Rightarrow> string res" where
  "source_selector limits languages v =
     r_bind (closed_object v [''kind'', ''language'', ''source_file'', ''declaration'', ''formal_index'', ''parameter_types'']) (\<lambda>row.
     r_then (b_check ''unsupported-selector'' (jfield row ''kind'' = JStr ''entry_parameter''))
     (r_bind (enum_of (jfield row ''language'') [''python'', ''java'']) (\<lambda>language.
      r_then (b_check ''selector-language'' (language \<in> set languages))
      (r_bind (checked_string (nat (max_path_bytes limits)) (jfield row ''source_file'')) (\<lambda>path.
       r_then (b_check ''invalid-source-path'' (path_ok limits path))
       (r_bind (array_of (jfield row ''declaration'') 1 32) (\<lambda>names.
        r_then (r_each (\<lambda>name. r_bind (checked_string 128 name) (\<lambda>s. b_check ''invalid-name'' (name_match s))) names)
        (r_then (b_check ''invalid-formal-index''
           (case jfield row ''formal_index'' of JInt i \<Rightarrow> 0 \<le> i \<and> i \<le> 255 | _ \<Rightarrow> False))
        (r_then
          (if language = ''python''
           then b_check ''unsupported-entry-selector''
                  (length names = 1 \<and> jfield row ''parameter_types'' = JNull \<and> ends_with ''.py'' path)
           else r_bind (array_of (jfield row ''parameter_types'') 0 256) (\<lambda>parameters.
                  r_each (\<lambda>parameter. forget (enum_of parameter TYPE_IDS)) parameters))
          (Inr language))))))))))"

definition CONTEXTS :: "string list" where
  "CONTEXTS = [''posix-shell-command'', ''sql-query-text'']"

text \<open>The transfer that a clause asks for, and the rows of the model that it is looked up in.\<close>

definition clause_request :: "string \<Rightarrow> string \<Rightarrow> (string \<times> json) list \<Rightarrow> (string \<times> json) list \<Rightarrow> (json \<times> json list \<times> string option) res" where
  "clause_request class_id primitive clause authorization =
     (if primitive = ''propagate'' then
        r_bind (position_of (jfield clause ''from'') False) (\<lambda>src.
        r_bind (position_of (jfield clause ''to'') True) (\<lambda>dst.
        r_bind (array_of (jfield authorization ''propagation'') 0 256) (\<lambda>allowed.
        Inr (JObj [(''from'', src), (''to'', dst)], allowed, None))))
      else
        r_bind (enum_of (jfield clause ''context_id'') CONTEXTS) (\<lambda>ctx.
        r_bind (position_of (jfield clause ''position'') (primitive = ''sanitize'')) (\<lambda>position.
        r_bind (array_of (jfield authorization (if primitive = ''sink'' then ''sink_inputs'' else ''sanitization'')) 0 256) (\<lambda>allowed.
        Inr (JObj [(''position'', position), (''class_id'', JStr class_id), (''context_id'', JStr ctx)], allowed, Some ctx)))))"

record rule_counts =
  source_count :: nat
  sink_count :: nat
  contexts :: "string list"

text \<open>\<open>models[model_id]\<close> and the \<open>transfer_authorization\<close> of a row.\<close>

definition model_entry :: "model_table \<Rightarrow> string \<Rightarrow> (string \<times> json) list res" where
  "model_entry models model_id =
     (case map_of models model_id of
        None \<Rightarrow> Inl (BoundRuleError ''missing-model'')
      | Some v \<Rightarrow> (case v of JObj model \<Rightarrow> Inr model | _ \<Rightarrow> Inl TypeError))"

definition authorization_of :: "(string \<times> json) list \<Rightarrow> (string \<times> json) list res" where
  "authorization_of model =
     (case jfield model ''transfer_authorization'' of JObj authorization \<Rightarrow> Inr authorization | _ \<Rightarrow> Inl TypeError)"

definition count_transfer :: "string \<Rightarrow> string option \<Rightarrow> rule_counts \<Rightarrow> rule_counts" where
  "count_transfer primitive ctx n =
     n\<lparr>contexts := (case ctx of None \<Rightarrow> contexts n | Some c \<Rightarrow> List.insert c (contexts n)),
       sink_count := sink_count n + (if primitive = ''sink'' then 1 else 0)\<rparr>"

text \<open>A clause that is not a source: it selects a model and asks for one of its transfers.\<close>

definition transfer_clause :: "model_table \<Rightarrow> string \<Rightarrow> string \<Rightarrow> string list \<Rightarrow> string \<Rightarrow> (string \<times> json) list \<Rightarrow> rule_counts \<Rightarrow> rule_counts res" where
  "transfer_clause models language class_id languages primitive clause n =
     r_bind (closed_object (JObj clause) ([''primitive'', ''selector''] @
       (if primitive = ''propagate'' then [''from'', ''to''] else [''position'', ''context_id'']))) (\<lambda>_.
     r_bind (closed_object (jfield clause ''selector'') [''kind'', ''language'', ''model_id'']) (\<lambda>selector.
     r_then (b_check ''unsupported-selector'' (jfield selector ''kind'' = JStr ''model''))
     (r_bind (enum_of (jfield selector ''language'') [''python'', ''java'']) (\<lambda>selected_language.
      r_bind (identifier_of (jfield selector ''model_id'')) (\<lambda>model_id.
      r_bind (model_entry models model_id) (\<lambda>model.
      r_then (b_check ''selector-language''
        (selected_language \<in> set languages \<and> JStr selected_language = jfield model ''language''))
      (r_bind (authorization_of model) (\<lambda>authorization.
       r_bind (clause_request class_id primitive clause authorization) (\<lambda>(requested, allowed, ctx).
       r_then (b_check ''unauthorized-transfer'' (list_ex (py_eq requested) allowed))
       (Inr (if selected_language = language then count_transfer primitive ctx n else n)))))))))))"

text \<open>The body of the loop over the clauses.\<close>

definition rule_clause :: "scalar_limits \<Rightarrow> model_table \<Rightarrow> string \<Rightarrow> string \<Rightarrow> string list \<Rightarrow> json \<Rightarrow> rule_counts \<Rightarrow> rule_counts res" where
  "rule_clause limits models language class_id languages v n =
     (case v of
        JObj clause \<Rightarrow>
          r_bind (enum_of (jfield clause ''primitive'') [''source'', ''sink'', ''propagate'', ''sanitize'']) (\<lambda>primitive.
          if primitive = ''source'' then
            r_bind (closed_object v [''primitive'', ''selector'']) (\<lambda>_.
            r_bind (source_selector limits languages (jfield clause ''selector'')) (\<lambda>l.
            Inr (n\<lparr>source_count := source_count n + (if l = language then 1 else 0)\<rparr>)))
          else transfer_clause models language class_id languages primitive clause n)
      | _ \<Rightarrow> Inl (BoundRuleError ''invalid-clause''))"

definition RULE_SCHEMA :: string where
  "RULE_SCHEMA = ''scanipy-bound-rule-set/1''"

definition SCALAR_SEMANTICS :: string where
  "SCALAR_SEMANTICS = ''scanipy-scalar-ifds/1''"

definition PROJECTION_PROFILE :: string where
  "PROJECTION_PROFILE = ''scanipy-java-python-scalar-flow/1''"

definition rule_document :: "scalar_limits \<Rightarrow> model_table \<Rightarrow> qualified_rule_key \<Rightarrow> string \<Rightarrow> json \<Rightarrow> json res" where
  "rule_document limits models key language v =
     r_bind (closed_object v [''schema'', ''semantics'', ''spec_id'', ''class_id'', ''engine'', ''languages'',
       ''projection_profile'', ''model_artifact_digest'', ''clauses'']) (\<lambda>root.
     r_then (b_check ''unknown-rule-semantics''
       (jfield root ''schema'' = JStr RULE_SCHEMA \<and> jfield root ''semantics'' = JStr SCALAR_SEMANTICS))
     (r_then (b_check ''unsupported-profile''
       (jfield root ''engine'' = JStr ''ifds'' \<and> jfield root ''projection_profile'' = JStr PROJECTION_PROFILE))
     (r_bind (identifier_of (jfield root ''spec_id'')) (\<lambda>spec_id.
      r_then (b_check ''rule-content-binding'' (spec_id = rule_id key))
      (r_bind (digest_of (jfield root ''model_artifact_digest'')) (\<lambda>digest.
      r_then (b_check ''rule-content-binding'' (digest = model_raw_sha256 key))
      (r_bind (enum_of (jfield root ''class_id'') CLASS_NAMES) (\<lambda>class_id.
      r_bind (array_of (jfield root ''languages'') 1 2) (\<lambda>items.
      r_bind (r_map (\<lambda>item. enum_of item [''python'', ''java'']) items) (\<lambda>languages.
      r_then (b_check ''invalid-languages'' (distinct languages \<and> language \<in> set languages))
      (r_bind (array_of (jfield root ''clauses'') 1 (nat (max_clauses limits))) (\<lambda>clauses.
      r_bind (r_fold (rule_clause limits models language class_id languages) clauses
                \<lparr>source_count = 0, sink_count = 0, contexts = []\<rparr>) (\<lambda>n.
      r_then (b_check ''incomplete-rule''
        (source_count n \<noteq> 0 \<and> sink_count n \<noteq> 0 \<and> card (set (contexts n)) = 1))
      (let expected = (if language = ''python'' then ''posix-shell-command'' else ''sql-query-text'')
       in r_then (b_check ''unsupported-class-context'' (class_id = ''injection'' \<and> set (contexts n) = {expected}))
       (Inr (JObj root))))))))))))))))"

section \<open>Bound rules\<close>

text \<open>The loop that refuses booleans; the head of the list is the end of \<open>pending\<close>.\<close>

function refuse_booleans :: "json list \<Rightarrow> unit res" where
  "refuse_booleans [] = Inr ()"
| "refuse_booleans (v # pending) =
     (case v of
        JBool b \<Rightarrow> Inl (BoundRuleError ''unsupported-boolean'')
      | JObj kvs \<Rightarrow> refuse_booleans (rev (map snd kvs) @ pending)
      | JArr xs \<Rightarrow> refuse_booleans (rev xs @ pending)
      | _ \<Rightarrow> refuse_booleans pending)"
  by pat_completeness auto

termination
  by (relation "measure (\<lambda>pending. sum_list (map json_nodes pending))")
    (auto simp: json_nodes_map_snd rev_map [symmetric] sum_list_rev)

definition rule_bounds :: "scalar_limits \<Rightarrow> json_bounds" where
  "rule_bounds limits = \<lparr>jb_depth = nat (max_rule_json_depth limits),
     jb_values = nat (max_rule_json_values limits), jb_string = nat (max_rule_string_bytes limits)\<rparr>"

definition rule_json :: "scalar_limits \<Rightarrow> int \<Rightarrow> bytes \<Rightarrow> json res" where
  "rule_json limits maximum data =
     r_bind (decode_bounded_json (nat maximum) (rule_bounds limits) data) (\<lambda>v.
     r_then (refuse_booleans [v]) (Inr v))"

record bound_rule =
  br_key :: qualified_rule_key
  br_rule_bytes :: bytes
  br_model_bytes :: bytes
  br_language :: string
  br_rule_document :: frozen
  br_model_document :: frozen

text \<open>\<open>BoundRule.__post_init__\<close> and the fields it sets; \<open>decode_bound_rule\<close> calls the constructor.\<close>

definition decode_bound_rule :: "(bytes \<Rightarrow> bytes) \<Rightarrow> bytes \<Rightarrow> bytes \<Rightarrow> qualified_rule_key \<Rightarrow> string \<Rightarrow> scalar_limits \<Rightarrow> bound_rule res" where
  "decode_bound_rule sha256 rule_bytes model_bytes key language limits =
     r_bind (checked_limits limits) (\<lambda>checked.
     r_then (key_post_init key)
     (r_then (forget (enum_of (JStr language) [''python'', ''java'']))
     (r_then (b_check ''json-byte-limit''
        (int (length rule_bytes) \<le> max_rule_bytes checked \<and> int (length model_bytes) \<le> max_model_bytes checked \<and>
         int (length rule_bytes + length model_bytes) \<le> max_accepted_bytes checked))
     (r_then (b_check ''raw-content-binding''
        (hex (sha256 rule_bytes) = rule_raw_sha256 key \<and> hex (sha256 model_bytes) = model_raw_sha256 key))
     (r_bind (rule_json checked (max_model_bytes checked) model_bytes) (\<lambda>model_value.
      r_bind (read_model_document checked model_value) (\<lambda>(model_doc, models).
      r_bind (rule_json checked (max_rule_bytes checked) rule_bytes) (\<lambda>rule_value.
      r_bind (rule_document checked models key language rule_value) (\<lambda>rule_doc.
      r_bind (freeze_value rule_doc) (\<lambda>frozen_rule.
      r_bind (freeze_value model_doc) (\<lambda>frozen_model.
      Inr \<lparr>br_key = key, br_rule_bytes = rule_bytes, br_model_bytes = model_bytes, br_language = language,
           br_rule_document = frozen_rule, br_model_document = frozen_model\<rparr>)))))))))))"

end
