(* ===== verification/Bound_Rule_Contract.thy ===== *)
theory Bound_Rule_Contract
  imports Bound_Rule
begin

text \<open>
  What an accepted bound rule is: documents read from exactly the digested bytes, whose clauses
  ask only for the transfers that the four known models authorise.
\<close>

section \<open>Readers\<close>

lemma closed_object_Inr: "closed_object v names = Inr row \<longleftrightarrow> v = JObj row \<and> set (map fst row) = set names"
  by (cases v) (auto simp: closed_object_def)

lemma array_of_Inr: "array_of v a b = Inr xs \<longleftrightarrow> v = JArr xs \<and> a \<le> length xs \<and> length xs \<le> b"
  by (cases v) (auto simp: array_of_def)

lemma enum_of_Inr: "enum_of v cs = Inr s \<longleftrightarrow> v = JStr s \<and> s \<in> set cs"
  by (cases v) (auto simp: enum_of_def)

lemma identifier_of_Inr: "identifier_of v = Inr s \<longleftrightarrow> v = JStr s \<and> text_ok 128 s \<and> identifier_match s"
  by (simp add: identifier_of_def matched_Inr)

lemmas reader_Inr = r_bind_Inr_iff closed_object_Inr array_of_Inr enum_of_Inr identifier_of_Inr checked_string_Inr

section \<open>Equality of documents\<close>

lemma py_norm_simps [simp]:
  "py_norm v = JStr s \<longleftrightarrow> v = JStr s" "py_norm v = JNull \<longleftrightarrow> v = JNull"
  by (cases v; auto)+

lemma py_norm_arr: "py_norm v = JArr ys \<Longrightarrow> \<exists>xs. v = JArr xs \<and> map py_norm xs = ys"
  by (cases v) auto

lemma py_norm_obj: "py_norm v = JObj ys \<Longrightarrow> \<exists>xs. v = JObj xs"
  by (cases v) auto

text \<open>Equal dictionaries, one of which has distinct keys, have equal fields.\<close>

lemma py_eq_fields:
  assumes "py_norm (JObj a) = py_norm (JObj b)" and "distinct (map fst b)"
  shows "distinct (map fst a)" and "py_norm (jfield a n) = py_norm (jfield b n)"
proof -
  let ?f = "map (\<lambda>(k, v). (k, py_norm v))"
  have "sort_key fst (?f a) = sort_key fst (?f b)" using assms(1) by simp
  then have eq: "mset (?f a) = mset (?f b)" by (metis mset_sort)
  have fsts: "map fst (?f xs) = map fst xs" for xs by (simp add: case_prod_beta)
  have "mset (map fst (?f a)) = mset (map fst (?f b))"
    using arg_cong [OF eq, of "image_mset fst"] by (simp only: mset_map)
  then have "mset (map fst a) = mset (map fst b)" by (simp only: fsts)
  with assms(2) show d: "distinct (map fst a)" by (metis mset_eq_imp_distinct_iff)
  have "map_of (?f a) = map_of (?f b)"
    by (rule map_of_same_set) (simp_all only: fsts d assms(2) mset_eq_setD [OF eq])
  moreover have "map_of (?f xs) n = map_option py_norm (map_of xs n)" for xs
    by (induction xs) auto
  ultimately have "map_option py_norm (map_of a n) = map_option py_norm (map_of b n)" by metis
  then show "py_norm (jfield a n) = py_norm (jfield b n)"
    by (auto simp: jfield_def split: option.splits)
qed

section \<open>The four models\<close>

definition model_language :: "string \<Rightarrow> string" where
  "model_language model_id = (if starts_with ''python.'' model_id then ''python'' else ''java'')"

definition result_position :: json where
  "result_position = JObj [(''kind'', JStr ''result''), (''index'', JInt 0)]"

definition authorised_propagation :: "string \<Rightarrow> json list" where
  "authorised_propagation model_id =
     (if model_id \<in> {''python.string-concat/1'', ''java.string-concat/1''}
      then map (\<lambda>i. JObj [(''from'', argument i), (''to'', result_position)]) [0, 1] else [])"

definition sink_row :: "string \<Rightarrow> json" where
  "sink_row ctx = JObj [(''position'', argument 0), (''class_id'', JStr ''injection''), (''context_id'', JStr ctx)]"

definition authorised_sinks :: "string \<Rightarrow> json list" where
  "authorised_sinks model_id =
     (if model_id = ''python.os-system/1'' then [sink_row ''posix-shell-command'']
      else if model_id = ''java.jdbc-execute-query/1'' then [sink_row ''sql-query-text''] else [])"

definition model_row :: "string \<Rightarrow> (string \<times> json) list \<Rightarrow> (string \<times> json) list \<Rightarrow> bool" where
  "model_row model_id m auth \<longleftrightarrow> distinct (map fst m) \<and>
     jfield m ''language'' = JStr (model_language model_id) \<and> jfield m ''transfer_authorization'' = JObj auth \<and>
     distinct (map fst auth) \<and> jfield auth ''propagation'' = JArr (authorised_propagation model_id) \<and>
     jfield auth ''sink_inputs'' = JArr (authorised_sinks model_id) \<and> jfield auth ''sanitization'' = JArr []"

lemma model_rows:
  "list_all (\<lambda>model_id. case initial_model model_id of
       Inr (JObj m) \<Rightarrow> (case jfield m ''transfer_authorization'' of JObj auth \<Rightarrow> model_row model_id m auth | _ \<Rightarrow> False)
     | _ \<Rightarrow> False) model_ids"
  by code_simp

lemma initial_model_row:
  assumes "initial_model model_id = Inr known"
  obtains m auth where "known = JObj m" and "model_row model_id m auth"
proof -
  have "model_id \<in> set model_ids" using assms by (simp add: initial_model_def split: if_splits)
  from bspec [OF model_rows [unfolded list_all_iff] this] assms that show ?thesis
    by (auto split: json.splits)
qed

definition known_model :: "string \<Rightarrow> json \<Rightarrow> bool" where
  "known_model model_id v \<longleftrightarrow> (\<exists>known. initial_model model_id = Inr known \<and> py_eq v known)"

text \<open>A row equal to a known model authorises what that model authorises.\<close>

lemma known_model_row:
  assumes "known_model model_id v"
  obtains m auth where "v = JObj m" and "jfield m ''language'' = JStr (model_language model_id)"
    and "jfield m ''transfer_authorization'' = JObj auth"
    and "py_norm (jfield auth ''propagation'') = py_norm (JArr (authorised_propagation model_id))"
    and "py_norm (jfield auth ''sink_inputs'') = py_norm (JArr (authorised_sinks model_id))"
    and "py_norm (jfield auth ''sanitization'') = JArr []"
proof -
  obtain known where known: "initial_model model_id = Inr known" "py_norm v = py_norm known"
    using assms by (auto simp: known_model_def py_eq_def)
  from known(1) obtain m' auth' where known': "known = JObj m'" and row: "model_row model_id m' auth'"
    by (rule initial_model_row)
  note m' = known' row [unfolded model_row_def, THEN conjunct1] row [unfolded model_row_def]
  obtain m where m: "v = JObj m" using known(2) m'(1) py_norm_obj by (metis py_norm.simps(3))
  have eq: "py_norm (JObj m) = py_norm (JObj m')" using known(2) m m'(1) by simp
  have f: "py_norm (jfield m n) = py_norm (jfield m' n)" for n by (rule py_eq_fields(2) [OF eq m'(2)])
  obtain auth where auth: "jfield m ''transfer_authorization'' = JObj auth"
    using f [of "''transfer_authorization''"] m'(3) py_norm_obj by (metis py_norm.simps(3))
  have g: "py_norm (jfield auth n) = py_norm (jfield auth' n)" for n
    by (rule py_eq_fields(2)) (use f [of "''transfer_authorization''"] auth m'(3) in simp_all)
  show ?thesis
  proof (rule that [OF m _ auth])
    show "jfield m ''language'' = JStr (model_language model_id)"
      using f [of "''language''"] m'(3) by simp
    show "py_norm (jfield auth ''propagation'') = py_norm (JArr (authorised_propagation model_id))" using g m'(3) by metis
    show "py_norm (jfield auth ''sink_inputs'') = py_norm (JArr (authorised_sinks model_id))" using g m'(3) by metis
    show "py_norm (jfield auth ''sanitization'') = JArr []" using g [of "''sanitization''"] m'(3) by simp
  qed
qed

section \<open>Model documents\<close>

lemma initial_model_not_type_error: "initial_model m = Inl e \<Longrightarrow> e = BoundRuleError ''unsupported-model''"
  by (auto simp: initial_model_def Let_def split: if_splits)

lemma read_models_known:
  assumes "read_models vs models used previous = Inr (table, profiles)" and "\<forall>(i, v) \<in> set models. known_model i v"
  shows "\<forall>(i, v) \<in> set table. known_model i v"
  using assms
proof (induction vs models used previous rule: read_models.induct)
  case (2 v vs models used previous)
  then show ?case
    by (cases v) (fastforce simp: r_bind_Inr_iff known_model_def split: if_splits)+
qed simp

lemma model_document_known:
  "read_model_document limits v = Inr (root, table) \<Longrightarrow> \<forall>(i, v) \<in> set table. known_model i v"
  by (auto simp: read_model_document_def r_bind_Inr_iff dest: read_models_known)

section \<open>Clauses\<close>

text \<open>A clause that asks for nothing but an entry parameter or a transfer of a known model.\<close>

definition clause_authorised :: "json \<Rightarrow> bool" where
  "clause_authorised v = (case v of
     JObj clause \<Rightarrow>
       jfield clause ''primitive'' = JStr ''source'' \<or>
       (case jfield clause ''selector'' of
          JObj selector \<Rightarrow>
            jfield clause ''primitive'' = JStr ''propagate'' \<and>
              jfield selector ''model_id'' \<in> {JStr ''python.string-concat/1'', JStr ''java.string-concat/1''} \<and>
              (py_eq (jfield clause ''from'') (argument 0) \<or> py_eq (jfield clause ''from'') (argument 1)) \<and>
              py_eq (jfield clause ''to'') result_position \<or>
            jfield clause ''primitive'' = JStr ''sink'' \<and> py_eq (jfield clause ''position'') (argument 0) \<and>
              (jfield selector ''model_id'', jfield clause ''context_id'') \<in>
                {(JStr ''python.os-system/1'', JStr ''posix-shell-command''),
                 (JStr ''java.jdbc-execute-query/1'', JStr ''sql-query-text'')}
        | _ \<Rightarrow> False)
   | _ \<Rightarrow> False)"

lemma position_of_Inr: "position_of v result = Inr p \<Longrightarrow> p = v"
  by (auto simp: position_of_def r_bind_Inr_iff closed_object_Inr)

lemma allowed_in_model:
  assumes "list_ex (py_eq requested) allowed" and "py_norm (JArr allowed) = py_norm (JArr known)"
  shows "\<exists>row \<in> set known. py_norm requested = py_norm row"
proof -
  obtain row where "row \<in> set allowed" "py_norm requested = py_norm row"
    using assms(1) by (auto simp: list_ex_iff py_eq_def)
  then have "py_norm requested \<in> set (map py_norm allowed)" by auto
  moreover have "map py_norm allowed = map py_norm known" using assms(2) by simp
  ultimately have "py_norm requested \<in> set (map py_norm known)" by (simp only:)
  then show ?thesis by auto
qed

lemma sort_two: "py_norm (JObj [(a, v), (b, w)]) = py_norm (JObj [(a, x), (b, y)]) \<Longrightarrow> a \<noteq> b \<Longrightarrow> py_norm v = py_norm x \<and> py_norm w = py_norm y"
  using py_eq_fields(2) [of "[(a, v), (b, w)]" "[(a, x), (b, y)]" a] py_eq_fields(2) [of "[(a, v), (b, w)]" "[(a, x), (b, y)]" b]
  by (simp add: jfield_def split: if_splits)

text \<open>A request that the model allows is one of the transfers of the known model.\<close>

lemma propagation_authorised:
  assumes "clause_request class_id ''propagate'' clause auth = Inr (requested, allowed, ctx)"
    and "list_ex (py_eq requested) allowed"
    and "py_norm (jfield auth ''propagation'') = py_norm (JArr (authorised_propagation model_id))"
  shows "model_id \<in> {''python.string-concat/1'', ''java.string-concat/1''} \<and>
     (py_eq (jfield clause ''from'') (argument 0) \<or> py_eq (jfield clause ''from'') (argument 1)) \<and>
     py_eq (jfield clause ''to'') result_position"
proof -
  have req: "requested = JObj [(''from'', jfield clause ''from''), (''to'', jfield clause ''to'')]"
    and allowed: "jfield auth ''propagation'' = JArr allowed"
    using assms(1) by (auto simp: clause_request_def r_bind_Inr_iff array_of_Inr dest!: position_of_Inr)
  obtain row where row: "row \<in> set (authorised_propagation model_id)" "py_norm requested = py_norm row"
    using allowed_in_model [OF assms(2)] assms(3) allowed by metis
  then obtain i where i: "i \<in> {0, 1}" "row = JObj [(''from'', argument i), (''to'', result_position)]"
    and m: "model_id \<in> {''python.string-concat/1'', ''java.string-concat/1''}"
    by (auto simp: authorised_propagation_def split: if_splits)
  from sort_two [OF row(2) [unfolded req i(2)]] i(1) m show ?thesis by (auto simp: py_eq_def)
qed

lemma sink_authorised:
  assumes "clause_request class_id ''sink'' clause auth = Inr (requested, allowed, ctx)"
    and "list_ex (py_eq requested) allowed"
    and "py_norm (jfield auth ''sink_inputs'') = py_norm (JArr (authorised_sinks model_id))"
  shows "py_eq (jfield clause ''position'') (argument 0) \<and>
     (JStr model_id, jfield clause ''context_id'') \<in>
       {(JStr ''python.os-system/1'', JStr ''posix-shell-command''), (JStr ''java.jdbc-execute-query/1'', JStr ''sql-query-text'')}"
proof -
  obtain c where req: "requested = JObj [(''position'', jfield clause ''position''), (''class_id'', JStr class_id), (''context_id'', JStr c)]"
    and c: "jfield clause ''context_id'' = JStr c" and allowed: "jfield auth ''sink_inputs'' = JArr allowed"
    using assms(1) by (auto simp: clause_request_def r_bind_Inr_iff array_of_Inr enum_of_Inr dest!: position_of_Inr)
  obtain row where row: "row \<in> set (authorised_sinks model_id)" "py_norm requested = py_norm row"
    using allowed_in_model [OF assms(2)] assms(3) allowed by metis
  then obtain c' where c': "row = sink_row c'"
      "(model_id, c') \<in> {(''python.os-system/1'', ''posix-shell-command''), (''java.jdbc-execute-query/1'', ''sql-query-text'')}"
    by (auto simp: authorised_sinks_def split: if_splits)
  have d: "distinct (map fst [(''position'', argument 0), (''class_id'', JStr ''injection''), (''context_id'', JStr c')])" by simp
  note eq = row(2) [unfolded req c'(1) sink_row_def]
  have "py_norm (jfield clause ''position'') = py_norm (argument 0)" "c = c'"
    using py_eq_fields(2) [OF eq d, of "''position''"] py_eq_fields(2) [OF eq d, of "''context_id''"]
    by (simp_all add: jfield_def)
  with c c'(2) show ?thesis by (auto simp: py_eq_def)
qed

lemma sanitize_refused:
  assumes "clause_request class_id ''sanitize'' clause auth = Inr (requested, allowed, ctx)"
    and "py_norm (jfield auth ''sanitization'') = JArr []"
  shows "\<not> list_ex (py_eq requested) allowed"
proof -
  have "jfield auth ''sanitization'' = JArr allowed"
    using assms(1) by (auto simp: clause_request_def r_bind_Inr_iff array_of_Inr)
  with assms(2) show ?thesis by simp
qed

lemma model_entry_Inr: "model_entry table i = Inr m \<longleftrightarrow> map_of table i = Some (JObj m)"
  by (auto simp: model_entry_def split: option.splits json.splits)

lemma authorization_of_Inr: "authorization_of m = Inr a \<longleftrightarrow> jfield m ''transfer_authorization'' = JObj a"
  by (auto simp: authorization_of_def split: json.splits)

lemma rule_clause_authorised:
  assumes "rule_clause limits table language class_id languages v n = Inr n'"
    and "\<forall>(i, v) \<in> set table. known_model i v"
  shows "clause_authorised v"
proof -
  obtain clause where v: "v = JObj clause" using assms(1) by (cases v) (auto simp: rule_clause_def)
  obtain primitive where p: "jfield clause ''primitive'' = JStr primitive"
      "primitive \<in> set [''source'', ''sink'', ''propagate'', ''sanitize'']"
    using assms(1) by (auto simp: v rule_clause_def r_bind_Inr_iff enum_of_Inr)
  show ?thesis
  proof (cases "primitive = ''source''")
    case True
    with p v show ?thesis by (simp add: clause_authorised_def)
  next
    case False
    have "transfer_clause table language class_id languages primitive clause n = Inr n'"
      using assms(1) p(1) False by (simp add: v rule_clause_def r_bind_Inr_iff enum_of_Inr)
    then obtain selector model_id m auth requested allowed ctx where
      sel: "jfield clause ''selector'' = JObj selector" "jfield selector ''model_id'' = JStr model_id"
      and m: "map_of table model_id = Some (JObj m)" "jfield m ''transfer_authorization'' = JObj auth"
      and req: "clause_request class_id primitive clause auth = Inr (requested, allowed, ctx)"
      and ok: "list_ex (py_eq requested) allowed"
      by (auto simp: transfer_clause_def reader_Inr model_entry_Inr authorization_of_Inr)
    have "known_model model_id (JObj m)" using assms(2) m(1) by (auto dest: map_of_SomeD)
    then obtain auth' where auth': "jfield m ''transfer_authorization'' = JObj auth'"
      "py_norm (jfield auth' ''propagation'') = py_norm (JArr (authorised_propagation model_id))"
      "py_norm (jfield auth' ''sink_inputs'') = py_norm (JArr (authorised_sinks model_id))"
      "py_norm (jfield auth' ''sanitization'') = JArr []"
      by (auto elim: known_model_row)
    then have auth: "auth' = auth" using m(2) by simp
    consider "primitive = ''sink''" | "primitive = ''propagate''" | "primitive = ''sanitize''" using p(2) False by auto
    then show ?thesis
    proof cases
      case 1
      from sink_authorised [OF req [unfolded 1] ok auth'(3) [unfolded auth]] p(1) 1 sel v show ?thesis
        by (auto simp: clause_authorised_def)
    next
      case 2
      from propagation_authorised [OF req [unfolded 2] ok auth'(2) [unfolded auth]] p(1) 2 sel v show ?thesis
        by (auto simp: clause_authorised_def)
    next
      case 3
      from sanitize_refused [OF req [unfolded 3] auth'(4) [unfolded auth]] ok show ?thesis by simp
    qed
  qed
qed

definition primitive_of :: "json \<Rightarrow> json" where
  "primitive_of v = (case v of JObj clause \<Rightarrow> jfield clause ''primitive'' | _ \<Rightarrow> JNull)"

definition clause_language :: "json \<Rightarrow> json" where
  "clause_language v = (case v of
     JObj clause \<Rightarrow> (case jfield clause ''selector'' of JObj selector \<Rightarrow> jfield selector ''language'' | _ \<Rightarrow> JNull)
   | _ \<Rightarrow> JNull)"

definition clause_context :: "json \<Rightarrow> json" where
  "clause_context v = (case v of JObj clause \<Rightarrow> jfield clause ''context_id'' | _ \<Rightarrow> JNull)"

text \<open>The context in which a sink of a language reads its argument.\<close>

definition language_context :: "string \<Rightarrow> string" where
  "language_context language = (if language = ''python'' then ''posix-shell-command'' else ''sql-query-text'')"

definition source_for :: "string \<Rightarrow> json \<Rightarrow> bool" where
  "source_for language c \<longleftrightarrow> primitive_of c = JStr ''source'' \<and> clause_language c = JStr language"

definition sink_for :: "string \<Rightarrow> json \<Rightarrow> bool" where
  "sink_for language c \<longleftrightarrow> primitive_of c = JStr ''sink'' \<and> clause_language c = JStr language"

text \<open>
  The counters count the clauses of their primitive in the language of the key, and the context of
  every counted sink is collected.
\<close>

lemma source_selector_language:
  assumes "source_selector limits languages s = Inr l"
  shows "\<exists>row. s = JObj row \<and> jfield row ''language'' = JStr l"
  using assms by (auto simp: source_selector_def reader_Inr)

lemma enum_of_JStr: "enum_of v xs = Inr x \<Longrightarrow> v = JStr x"
  by (simp add: enum_of_Inr)

lemma r_bind_InrE: "r_bind r f = Inr y \<Longrightarrow> (\<And>x. r = Inr x \<Longrightarrow> f x = Inr y \<Longrightarrow> P) \<Longrightarrow> P"
  by (auto simp: r_bind_Inr_iff)

lemma transfer_clause_parts:
  assumes "transfer_clause table language class_id languages p clause n = Inr n'"
  obtains selector selected auth x where "jfield clause ''selector'' = JObj selector"
    and "jfield selector ''language'' = JStr selected" and "clause_request class_id p clause auth = Inr x"
    and "n' = (if selected = language then count_transfer p (snd (snd x)) n else n)"
proof -
  from assms show thesis
    unfolding transfer_clause_def r_then_def split_beta
  proof (elim r_bind_InrE)
    fix selector selected auth x
    assume "closed_object (jfield clause ''selector'') [''kind'', ''language'', ''model_id''] = Inr selector"
      and "enum_of (jfield selector ''language'') [''python'', ''java''] = Inr selected"
      and "clause_request class_id p clause auth = Inr x"
      and "Inr (if selected = language then count_transfer p (snd (snd x)) n else n) = Inr n'"
    then show thesis by (intro that [of selector selected auth x]) (simp_all only: closed_object_Inr enum_of_JStr sum.inject)
  qed
qed

lemma transfer_clause_counts:
  assumes "transfer_clause table language class_id languages p clause n = Inr n'"
  shows "source_count n' = source_count n \<and> set (contexts n) \<subseteq> set (contexts n') \<and>
     (sink_count n' = sink_count n \<or> p = ''sink'' \<and> clause_language (JObj clause) = JStr language) \<and>
     (p = ''sink'' \<and> clause_language (JObj clause) = JStr language \<longrightarrow>
        clause_context (JObj clause) \<in> JStr ` set (contexts n'))"
proof -
  obtain selector selected auth x where
    sel: "jfield clause ''selector'' = JObj selector" "jfield selector ''language'' = JStr selected"
    and req: "clause_request class_id p clause auth = Inr x"
    and n': "n' = (if selected = language then count_transfer p (snd (snd x)) n else n)"
    using assms by (rule transfer_clause_parts)
  have lang: "clause_language (JObj clause) = JStr selected" by (simp add: clause_language_def sel)
  have ctx: "\<exists>c. snd (snd x) = Some c \<and> jfield clause ''context_id'' = JStr c" if "p = ''sink''"
    using req that by (auto simp: clause_request_def r_bind_Inr_iff enum_of_Inr)
  show ?thesis
    unfolding lang n' using ctx
    by (auto simp: count_transfer_def clause_context_def split: option.splits)
qed

lemma rule_clause_counts:
  assumes "rule_clause limits table language class_id languages v n = Inr n'"
  shows "(source_count n' = source_count n \<or> source_for language v) \<and> (sink_count n' = sink_count n \<or> sink_for language v) \<and>
     set (contexts n) \<subseteq> set (contexts n') \<and> (sink_for language v \<longrightarrow> clause_context v \<in> JStr ` set (contexts n'))"
proof -
  obtain clause where v: "v = JObj clause" using assms by (cases v) (auto simp: rule_clause_def)
  obtain p where p: "jfield clause ''primitive'' = JStr p" using assms by (auto simp: v rule_clause_def r_bind_Inr_iff enum_of_Inr)
  have prim: "primitive_of v = JStr p" by (simp add: v p primitive_of_def)
  show ?thesis
  proof (cases "p = ''source''")
    case True
    then obtain l where l: "source_selector limits languages (jfield clause ''selector'') = Inr l"
      and n': "n' = n\<lparr>source_count := source_count n + (if l = language then 1 else 0)\<rparr>"
      using assms p by (auto simp: v rule_clause_def r_bind_Inr_iff enum_of_Inr)
    have "clause_language v = JStr l" using source_selector_language [OF l] by (auto simp: v clause_language_def)
    then show ?thesis by (simp add: n' True prim source_for_def sink_for_def)
  next
    case False
    then have "transfer_clause table language class_id languages p clause n = Inr n'"
      using assms p by (simp add: v rule_clause_def r_bind_Inr_iff enum_of_Inr)
    from transfer_clause_counts [OF this] show ?thesis by (simp add: v [symmetric] prim sink_for_def)
  qed
qed

lemma r_fold_counts:
  assumes "r_fold (rule_clause limits table language class_id languages) vs n = Inr n'"
  shows "(source_count n' = source_count n \<or> (\<exists>v \<in> set vs. source_for language v)) \<and>
     (sink_count n' = sink_count n \<or> (\<exists>v \<in> set vs. sink_for language v)) \<and> set (contexts n) \<subseteq> set (contexts n') \<and>
     (\<forall>v \<in> set vs. sink_for language v \<longrightarrow> clause_context v \<in> JStr ` set (contexts n'))"
  using assms
proof (induction vs arbitrary: n)
  case (Cons v vs)
  then obtain n1 where "rule_clause limits table language class_id languages v n = Inr n1"
    "r_fold (rule_clause limits table language class_id languages) vs n1 = Inr n'"
    by (auto simp: r_bind_Inr_iff)
  from rule_clause_counts [OF this(1)] Cons.IH [OF this(2)] show ?case by auto
qed simp

definition rule_clauses :: "json \<Rightarrow> json list" where
  "rule_clauses v = (case v of JObj root \<Rightarrow> (case jfield root ''clauses'' of JArr cs \<Rightarrow> cs | _ \<Rightarrow> []) | _ \<Rightarrow> [])"

lemma rule_document_authorised:
  assumes "rule_document limits table key language v = Inr doc" and "\<forall>(i, v) \<in> set table. known_model i v"
  shows "doc = v \<and> (\<forall>c \<in> set (rule_clauses v). clause_authorised c) \<and>
     (\<exists>c \<in> set (rule_clauses v). source_for language c) \<and> (\<exists>c \<in> set (rule_clauses v). sink_for language c) \<and>
     (\<forall>c \<in> set (rule_clauses v). sink_for language c \<longrightarrow> clause_context c = JStr (language_context language))"
proof -
  obtain root clauses class_id languages n where v: "v = JObj root" and doc: "doc = v"
    and cs: "jfield root ''clauses'' = JArr clauses"
    and fold: "r_fold (rule_clause limits table language class_id languages) clauses
      \<lparr>source_count = 0, sink_count = 0, contexts = []\<rparr> = Inr n"
    and counts: "source_count n \<noteq> 0" "sink_count n \<noteq> 0"
    and ctx: "set (contexts n) = {language_context language}"
    using assms(1) by (auto simp: rule_document_def reader_Inr Let_def language_context_def)
  have authorised: "clause_authorised c" if "c \<in> set clauses" for c
    using r_fold_Inr_each [OF fold that] rule_clause_authorised [OF _ assms(2)] by blast
  have "rule_clauses v = clauses" by (simp add: v cs rule_clauses_def)
  with r_fold_counts [OF fold] counts ctx doc authorised show ?thesis by simp
qed

section \<open>Failures\<close>

text \<open>A computation whose only exception is \<open>BoundRuleError\<close>.\<close>

abbreviation bound_only :: "'a res \<Rightarrow> bool" where
  "bound_only \<equiv> raises_only (\<lambda>e. \<exists>code. e = BoundRuleError code)"

named_theorems bound_intro

declare raises_intro [bound_intro]

lemma bound_only_check [bound_intro]: "bound_only (b_check code b)"
  by (simp add: b_check_def)

lemma bound_only_decode [bound_intro]: "bound_only (decode_bounded_json m l d)"
  using coded_decode [of m l d] by (auto simp: raises_only_def)

lemma bound_only_checked [bound_intro]: "bound_only (checked_string m v)"
  by (cases v) (simp_all add: checked_string_def checked_text_def)

lemma bound_only_matched [bound_intro]: "bound_only (matched m P code v)"
  unfolding matched_def by (intro bound_intro) simp

lemma bound_only_forget [bound_intro]: "bound_only x \<Longrightarrow> bound_only (forget x)"
  unfolding forget_def by (intro bound_intro) simp_all

lemma bound_only_identifier [bound_intro]:
  "bound_only (identifier_of v)" "bound_only (digest_of v)" "bound_only (version_of v)" "bound_only (uuid_of v)"
  by (simp_all only: identifier_of_def digest_of_def version_of_def uuid_of_def bound_only_matched)

lemma bound_only_readers [bound_intro]:
  "bound_only (closed_object v names)" "bound_only (array_of v a b)" "bound_only (enum_of v cs)"
  unfolding closed_object_def array_of_def enum_of_def by (simp_all split: json.split)

lemma bound_only_position [bound_intro]: "bound_only (position_of v result)"
  unfolding position_of_def by (intro bound_intro) simp

lemma bound_only_key [bound_intro]: "bound_only (key_post_init k)"
  unfolding key_post_init_def by (intro bound_intro) (auto intro: bound_intro)

lemma bound_only_models: "bound_only (read_models vs models used previous)"
proof (induction vs arbitrary: models used previous)
  case (Cons v vs)
  have "bound_only (initial_model m)" for m by (simp add: initial_model_def Let_def)
  with Cons show ?case by (cases v) (auto intro!: bound_intro)
qed simp

lemma bound_only_model_document [bound_intro]: "bound_only (read_model_document limits v)"
  unfolding read_model_document_def
  by (intro bound_intro) (auto intro: bound_only_models bound_intro)

lemma bound_only_source [bound_intro]: "bound_only (source_selector limits languages v)"
  unfolding source_selector_def by (intro bound_intro) (auto intro!: bound_intro)

lemma bound_only_request [bound_intro]: "bound_only (clause_request class_id primitive clause auth)"
  unfolding clause_request_def by (auto intro!: bound_intro)

lemma known_table_entry:
  assumes "\<forall>(i, v) \<in> set table. known_model i v"
  shows "bound_only (model_entry table i)" and "model_entry table i = Inr m \<Longrightarrow> bound_only (authorization_of m)"
proof -
  have known: "known_model i v" if "map_of table i = Some v" for v
    using assms that by (auto dest: map_of_SomeD)
  then show "bound_only (model_entry table i)"
    by (auto simp: model_entry_def split: option.splits json.splits elim!: known_model_row)
  show "bound_only (authorization_of m)" if "model_entry table i = Inr m"
    using known that by (fastforce simp: model_entry_Inr authorization_of_def elim!: known_model_row)
qed

lemma bound_only_transfer:
  assumes "\<forall>(i, v) \<in> set table. known_model i v"
  shows "bound_only (transfer_clause table language class_id languages primitive clause n)"
  unfolding transfer_clause_def
  by (intro bound_intro known_table_entry [OF assms]) (auto intro!: bound_intro dest: known_table_entry(2) [OF assms])

lemma bound_only_clause:
  assumes "\<forall>(i, v) \<in> set table. known_model i v"
  shows "bound_only (rule_clause limits table language class_id languages v n)"
  by (cases v) (auto simp: rule_clause_def intro!: bound_intro bound_only_transfer [OF assms])

lemma bound_only_rule:
  assumes "\<forall>(i, v) \<in> set table. known_model i v"
  shows "bound_only (rule_document limits table key language v)"
  unfolding rule_document_def Let_def by (intro bound_intro bound_only_clause [OF assms]) simp

section \<open>Accepted rules\<close>

fun no_boolean :: "json \<Rightarrow> bool" where
  "no_boolean (JBool b) \<longleftrightarrow> False"
| "no_boolean (JArr xs) \<longleftrightarrow> (\<forall>x \<in> set xs. no_boolean x)"
| "no_boolean (JObj kvs) \<longleftrightarrow> (\<forall>(k, v) \<in> set kvs. no_boolean v)"
| "no_boolean _ \<longleftrightarrow> True"

lemma refuse_booleans_Inr: "refuse_booleans pending = Inr u \<longleftrightarrow> (\<forall>v \<in> set pending. no_boolean v)"
proof (induction pending rule: refuse_booleans.induct)
  case (2 v pending)
  then show ?case by (cases v) (force simp: case_prod_beta)+
qed simp

lemma bound_only_booleans [bound_intro]: "bound_only (refuse_booleans pending)"
proof (induction pending rule: refuse_booleans.induct)
  case (2 v pending)
  then show ?case by (cases v) simp_all
qed simp

lemma rule_json_Inr:
  "rule_json limits maximum data = Inr v \<longleftrightarrow>
     decode_bounded_json (nat maximum) (rule_bounds limits) data = Inr v \<and> no_boolean v"
  by (auto simp: rule_json_def r_bind_Inr_iff refuse_booleans_Inr simp del: refuse_booleans.simps)

lemma rule_json_freezes:
  assumes "rule_json limits maximum data = Inr v"
  shows "\<exists>f. freeze_value v = Inr f"
proof (rule freeze_total)
  have d: "decode_bounded_json (nat maximum) (rule_bounds limits) data = Inr v" using assms by (simp add: rule_json_Inr)
  then show "keys_distinct v"
    using loads_at [of bound_hooks data v] value_at_shape(1) by (auto simp: decode_bounded_json_Inr intro: shape_keys_distinct)
  show "json_strings (\<lambda>s. \<not> has_surrogate s) v"
    using d by (auto simp: decode_bounded_json_Inr text_ok_def elim: json_strings_mono [rotated])
qed

lemma checked_limits_Inr: "checked_limits limits = Inr l \<Longrightarrow> l = limits"
  by (auto simp: checked_limits_def)

lemma model_document_same: "read_model_document limits v = Inr (doc, table) \<Longrightarrow> doc = v"
  by (auto simp: read_model_document_def r_bind_Inr_iff closed_object_Inr)

lemma decode_bound_rule_parts:
  assumes "decode_bound_rule sha256 rule_bytes model_bytes key language limits = Inr b"
  obtains rv mv table where "key_valid key" and "br_key b = key"
    and "hex (sha256 rule_bytes) = rule_raw_sha256 key" and "hex (sha256 model_bytes) = model_raw_sha256 key"
    and "rule_json limits (max_rule_bytes limits) rule_bytes = Inr rv"
    and "rule_json limits (max_model_bytes limits) model_bytes = Inr mv"
    and "\<forall>(i, v) \<in> set table. known_model i v" and "rule_document limits table key language rv = Inr rv"
    and "freeze_value rv = Inr (br_rule_document b)" and "freeze_value mv = Inr (br_model_document b)"
proof -
  obtain l mv mdoc table rv rdoc where parts: "checked_limits limits = Inr l" "key_post_init key = Inr ()"
    "hex (sha256 rule_bytes) = rule_raw_sha256 key" "hex (sha256 model_bytes) = model_raw_sha256 key"
    "rule_json l (max_model_bytes l) model_bytes = Inr mv" "read_model_document l mv = Inr (mdoc, table)"
    "rule_json l (max_rule_bytes l) rule_bytes = Inr rv" "rule_document l table key language rv = Inr rdoc"
    "freeze_value rdoc = Inr (br_rule_document b)" "freeze_value mdoc = Inr (br_model_document b)" "br_key b = key"
    using assms by (auto simp: decode_bound_rule_def r_bind_Inr_iff)
  have known: "\<forall>(i, v) \<in> set table. known_model i v" by (rule model_document_known [OF parts(6)])
  from checked_limits_Inr [OF parts(1)] model_document_same [OF parts(6)]
    rule_document_authorised [OF parts(8) known] parts known that [of rv mv table]
  show ?thesis by (simp add: key_post_init_ok)
qed

lemma decode_bound_rule_bound_only: "bound_only (decode_bound_rule sha256 rule_bytes model_bytes key language limits)"
proof -
  have limits: "bound_only (checked_limits limits)"
    unfolding checked_limits_def by (intro bound_intro) (auto intro: bound_intro)
  have json: "bound_only (rule_json l m d)" for l m d
    unfolding rule_json_def by (intro bound_intro) simp
  have freeze: "bound_only (freeze_value v)" if "rule_json l m d = Inr v" for l m d v
    using rule_json_freezes [OF that] by auto
  have tail: "bound_only (r_bind (rule_json l m rule_bytes) (\<lambda>rv. r_bind (rule_document l table key language rv) (\<lambda>rd.
      r_bind (freeze_value rd) (\<lambda>fr. r_bind (freeze_value mdoc) (\<lambda>fm. Inr (g fr fm))))))"
    if mdoc: "read_model_document l mv = Inr (mdoc, table)" and mv: "rule_json l m' model_bytes = Inr mv"
    for l m m' table mdoc mv and g :: "frozen \<Rightarrow> frozen \<Rightarrow> bound_rule"
  proof (intro raises_only_bind json bound_only_rule [OF model_document_known [OF mdoc]])
    fix rv rd assume rv: "rule_json l m rule_bytes = Inr rv" and rd: "rule_document l table key language rv = Inr rd"
    have "rd = rv" using rule_document_authorised [OF rd model_document_known [OF mdoc]] by simp
    then show "bound_only (freeze_value rd)" using freeze rv by simp
  next
    show "bound_only (freeze_value mdoc)" using freeze mv model_document_same [OF mdoc] by simp
  qed simp
  show ?thesis
    unfolding decode_bound_rule_def
    by (intro bound_intro limits json) (auto intro!: bound_intro json tail)
qed

section \<open>A concrete rule\<close>

definition sample_limits :: scalar_limits where
  "sample_limits = \<lparr>max_files = 16, max_file_bytes = 262144, max_source_bytes = 1048576, max_path_bytes = 64, max_path_components = 32,
     max_rule_bytes = 2000, max_model_bytes = 2000, max_accepted_bytes = 4000, max_clauses = 4, max_models = 2,
     max_rule_json_depth = 8, max_rule_json_values = 150, max_rule_string_bytes = 70,
     max_cpg_artifact_bytes = 1, max_raw_export_bytes = 1, max_native_nodes = 1, max_native_edges = 1, max_ast_nodes = 1,
     max_ast_depth = 1, max_syntax_bytes = 1, max_procedures = 1, max_calls = 1, max_call_depth = 1, max_operations = 1,
     max_values = 1, max_relations = 1, max_origins = 1, max_facts = 1, max_path_states = 1, max_incoming = 1,
     max_summaries = 1, max_solver_work = 1, max_occurrences = 1, max_witness_steps = 1, max_total_witness_steps = 1,
     max_result_bytes = 1, max_associations = 1, max_evidence_references = 1\<rparr>"

definition zero_digest :: string where
  "zero_digest = replicate 64 (CHR ''0'')"

definition sample_uuid :: string where
  "sample_uuid = ''00000000-0000-4000-8000-000000000000''"

definition sample_key :: qualified_rule_key where
  "sample_key = \<lparr>registry_id = sample_uuid, bundle_id = sample_uuid, scope = ''global'', org_id = None, S_version = ''1.0.0'',
     accepted_content_digest = zero_digest, detector_id = ''d'', detector_version = ''1.0.0'',
     detector_raw_sha256 = zero_digest, rule_id = ''r'', rule_artifact_id = ''a'', rule_artifact_version = ''1.2.3'',
     rule_raw_sha256 = zero_digest, model_artifact_id = ''m'', model_artifact_version = ''0.0.1'',
     model_raw_sha256 = zero_digest, semantic_descriptor_digest = zero_digest, key_schema = QUALIFIED_RULE_SCHEMA\<rparr>"

definition sample_models :: json where
  "sample_models = JObj [(''schema'', JStr MODEL_SCHEMA), (''target_platform_profiles'', JArr [JStr PYTHON_TARGET]),
     (''models'', JArr (case initial_model ''python.os-system/1'' of Inr m \<Rightarrow> [m] | _ \<Rightarrow> []))]"

definition sample_clauses :: "json list" where
  "sample_clauses =
     [JObj [(''primitive'', JStr ''source''), (''selector'', JObj
        [(''declaration'', JArr [JStr ''f'']), (''formal_index'', JInt 0), (''kind'', JStr ''entry_parameter''),
         (''language'', JStr ''python''), (''parameter_types'', JNull), (''source_file'', JStr ''a.py'')])],
      JObj [(''context_id'', JStr ''posix-shell-command''),
        (''position'', JObj [(''index'', JInt 0), (''kind'', JStr ''argument'')]), (''primitive'', JStr ''sink''),
        (''selector'', JObj [(''kind'', JStr ''model''), (''language'', JStr ''python''), (''model_id'', JStr ''python.os-system/1'')])]]"

definition sample_rule :: json where
  "sample_rule = JObj [(''class_id'', JStr ''injection''), (''clauses'', JArr sample_clauses), (''engine'', JStr ''ifds''),
     (''languages'', JArr [JStr ''python'']), (''model_artifact_digest'', JStr zero_digest),
     (''projection_profile'', JStr PROJECTION_PROFILE), (''schema'', JStr RULE_SCHEMA),
     (''semantics'', JStr SCALAR_SEMANTICS), (''spec_id'', JStr ''r'')]"

definition sample_table :: model_table where
  "sample_table = [(''python.os-system/1'', case initial_model ''python.os-system/1'' of Inr m \<Rightarrow> sort_keys m | _ \<Rightarrow> JNull)]"

lemma sample_rule_sorted: "sort_keys sample_rule = sample_rule" by (simp add: sample_rule_def sample_clauses_def)

lemma sample_clauses_counted: "r_fold (rule_clause sample_limits sample_table ''python'' ''injection'' [''python'']) sample_clauses
   \<lparr>source_count = 0, sink_count = 0, contexts = []\<rparr> = Inr \<lparr>source_count = 1, sink_count = 1, contexts = [''posix-shell-command'']\<rparr>"
  by code_simp

lemma sample_rule_sizes: "jdepth sample_rule \<le> 8 \<and> jtokens sample_rule \<le> 150 \<and> json_shape sample_rule \<and> no_boolean sample_rule" by code_simp

lemma sample_rule_wire: "json_strings (wire_text 70) sample_rule" by code_simp

lemma sample_rule_length: "length (dumps sample_rule) \<le> 2000" by code_simp

lemma sample_models_sizes: "jdepth sample_models \<le> 8 \<and> jtokens sample_models \<le> 150" by code_simp

lemma zero_digest_match: "digest_match zero_digest" by (simp add: digest_match_def zero_digest_def is_hex_def)

lemma sample_uuid_match: "uuid_match sample_uuid" by code_simp

lemma sample_version_match: "version_match ''1.0.0'' \<and> version_match ''1.2.3'' \<and> version_match ''0.0.1''"
  by (simp add: version_match_def version_part_def is_digit_def digits_value_def)

lemma sample_identifier_match: "list_all identifier_match [''a'', ''d'', ''r'', ''m'']" by code_simp

lemma sample_key_valid: "key_valid sample_key" using zero_digest_match sample_uuid_match sample_version_match sample_identifier_match by (simp add: key_valid_def sample_key_def)

lemma sample_limits_in_range: "list_all (\<lambda>(v, d). 0 < v \<and> v \<le> d) (zip (limit_values sample_limits) limit_defaults)" by code_simp

lemma sample_limits_checked: "checked_limits sample_limits = Inr sample_limits" using sample_limits_in_range by (auto simp: checked_limits_def list_all_iff)

lemma sample_model_document: "read_model_document sample_limits (sort_keys sample_models) =
  Inr (sort_keys sample_models, [(''python.os-system/1'', case initial_model ''python.os-system/1'' of Inr m \<Rightarrow> sort_keys m | _ \<Rightarrow> JNull)])" by code_simp

lemma sample_rule_document: "rule_document sample_limits sample_table sample_key ''python'' sample_rule = Inr sample_rule"
proof -
  have d: "digest_of (JStr zero_digest) = Inr zero_digest"
    using zero_digest_match wire_text_ok [OF plain_wire [OF plain_digest [OF zero_digest_match], of 64]] by (simp add: digest_of_def matched_Inr digest_match_def)
  have i: "identifier_of (JStr ''r'') = Inr ''r''" by code_simp
  have c: "array_of (JArr sample_clauses) 1 (nat (max_clauses sample_limits)) = Inr sample_clauses" by code_simp
  show ?thesis
    by (simp add: rule_document_def sample_rule_def closed_object_def jfield_def b_check_def r_then_def d i c sample_clauses_counted enum_of_def
      array_of_def CLASS_NAMES_def sample_key_def) (auto simp: sample_clauses_def sample_limits_def)
qed

definition zero_sha :: "bytes \<Rightarrow> bytes" where
  "zero_sha b = replicate 32 (CHR 0x00)"

lemma hex_zero_sha: "hex (zero_sha b) = zero_digest"
proof -
  have zero: "hex_digit 0 = CHR ''0''" by code_simp
  have "hex (replicate n (CHR 0x00)) = replicate (2 * n) (CHR ''0'')" for n
    using zero by (induction n) (simp_all add: hex_def)
  from this [of 32] show ?thesis by (simp add: zero_sha_def zero_digest_def)
qed

lemma sample_bounds: "rule_bounds sample_limits = \<lparr>jb_depth = 8, jb_values = 150, jb_string = 70\<rparr>"
  by (simp add: rule_bounds_def sample_limits_def)

lemma sample_models_json: "rule_json sample_limits (max_model_bytes sample_limits) (dumps sample_models) = Inr (sort_keys sample_models)"
proof -
  have "json_shape sample_models" "json_strings (wire_text 70) sample_models" "length (dumps sample_models) \<le> 2000"
    "no_boolean (sort_keys sample_models)"
    by code_simp+
  with sample_models_sizes show ?thesis
    unfolding rule_json_Inr sample_bounds by (auto intro!: canonical_read_back(2) simp: sample_limits_def)
qed

lemma sample_rule_json: "rule_json sample_limits (max_rule_bytes sample_limits) (dumps sample_rule) = Inr sample_rule"
  using sample_rule_sizes sample_rule_wire sample_rule_length canonical_read_back(2) [of sample_rule "\<lparr>jb_depth = 8, jb_values = 150, jb_string = 70\<rparr>" 2000]
  unfolding rule_json_Inr sample_bounds sample_rule_sorted by (simp add: sample_limits_def)

lemma sample_accepted:
  "\<exists>b. decode_bound_rule zero_sha (dumps sample_rule) (dumps sample_models) sample_key ''python'' sample_limits = Inr b"
proof -
  obtain fr fm where f: "freeze_value sample_rule = Inr fr" "freeze_value (sort_keys sample_models) = Inr fm"
    using rule_json_freezes [OF sample_rule_json] rule_json_freezes [OF sample_models_json] by blast
  have len: "length (dumps sample_rule) \<le> 2000" "length (dumps sample_models) \<le> 2000" using sample_rule_length by code_simp+
  have "enum_of (JStr ''python'') [''python'', ''java''] = Inr ''python''" by code_simp
  moreover have "rule_raw_sha256 sample_key = zero_digest" "model_raw_sha256 sample_key = zero_digest" by (simp_all add: sample_key_def)
  moreover have "key_post_init sample_key = Inr ()" using sample_key_valid by (simp add: key_post_init_ok)
  moreover have "max_rule_bytes sample_limits = 2000" "max_model_bytes sample_limits = 2000" "max_accepted_bytes sample_limits = 4000"
    by (simp_all add: sample_limits_def)
  ultimately show ?thesis
    using f len sample_limits_checked sample_model_document sample_rule_document sample_rule_json sample_models_json
    by (simp add: decode_bound_rule_def forget_def hex_zero_sha sample_table_def b_check_def r_then_def)
qed

section \<open>Contract\<close>

text \<open>
  An accepted rule is bound to its bytes: the key is valid, the digests of the rule bytes and
  of the model bytes are the digests in the key, and the frozen documents of the rule are what
  these bytes decode to within the limits, with sorted keys and without booleans. The rule
  document names the rule and the model digest of the key.
\<close>

theorem bound_rule_bound_to_bytes:
  assumes "decode_bound_rule sha256 rule_bytes model_bytes key language limits = Inr b"
  shows "br_key b = key \<and> key_valid key \<and>
     hex (sha256 rule_bytes) = rule_raw_sha256 key \<and> hex (sha256 model_bytes) = model_raw_sha256 key \<and>
     (\<exists>root mv. decode_bounded_json (nat (max_rule_bytes limits)) (rule_bounds limits) rule_bytes = Inr (JObj root) \<and>
        decode_bounded_json (nat (max_model_bytes limits)) (rule_bounds limits) model_bytes = Inr mv \<and>
        no_boolean (JObj root) \<and> no_boolean mv \<and>
        thaw_value (br_rule_document b) = sort_keys (JObj root) \<and> thaw_value (br_model_document b) = sort_keys mv \<and>
        jfield root ''spec_id'' = JStr (rule_id key) \<and> jfield root ''model_artifact_digest'' = JStr (model_raw_sha256 key))"
proof -
  from assms obtain rv mv table where parts: "key_valid key" "br_key b = key"
    "hex (sha256 rule_bytes) = rule_raw_sha256 key" "hex (sha256 model_bytes) = model_raw_sha256 key"
    "rule_json limits (max_rule_bytes limits) rule_bytes = Inr rv"
    "rule_json limits (max_model_bytes limits) model_bytes = Inr mv"
    "rule_document limits table key language rv = Inr rv"
    "freeze_value rv = Inr (br_rule_document b)" "freeze_value mv = Inr (br_model_document b)"
    by (rule decode_bound_rule_parts)
  obtain root where root: "rv = JObj root" "jfield root ''spec_id'' = JStr (rule_id key)"
      "jfield root ''model_artifact_digest'' = JStr (model_raw_sha256 key)"
    using parts(7) by (auto simp: rule_document_def reader_Inr digest_of_def matched_Inr)
  from parts root freeze_ok [OF parts(8)] freeze_ok [OF parts(9)] show ?thesis
    unfolding rule_json_Inr by blast
qed

theorem bound_rule_bound_to_bytes_witness:
  "\<exists>b :: bound_rule. br_key b = sample_key \<and> thaw_value (br_rule_document b) = sample_rule"
proof -
  obtain b where b: "decode_bound_rule zero_sha (dumps sample_rule) (dumps sample_models) sample_key ''python'' sample_limits = Inr b"
    using sample_accepted by blast
  have "decode_bounded_json (nat (max_rule_bytes sample_limits)) (rule_bounds sample_limits) (dumps sample_rule) = Inr sample_rule"
    using sample_rule_json by (simp add: rule_json_Inr)
  with bound_rule_bound_to_bytes [OF b] sample_rule_sorted
  have "br_key b = sample_key \<and> thaw_value (br_rule_document b) = sample_rule"
    by (auto simp del: sort_keys.simps)
  then show ?thesis ..
qed



text \<open>
  Decoding a bound rule fails only with \<open>BoundRuleError\<close>: no input, however malformed, makes the
  checks run into a type error or the freezing of a document fail.
\<close>

theorem bound_rule_failures:
  "decode_bound_rule sha256 rule_bytes model_bytes key language limits = Inl e \<longrightarrow> (\<exists>code. e = BoundRuleError code)"
  using decode_bound_rule_bound_only by (auto simp: raises_only_def)

theorem bound_rule_failures_witness:
  "\<exists>code. decode_bound_rule zero_sha [] [] (sample_key\<lparr>scope := ''team''\<rparr>) ''python'' sample_limits = Inl (BoundRuleError code)"
proof -
  have "\<not> key_valid (sample_key\<lparr>scope := ''team''\<rparr>)" by (simp add: key_valid_def)
  then have "key_post_init (sample_key\<lparr>scope := ''team''\<rparr>) \<noteq> Inr ()" by (simp add: key_post_init_ok)
  then obtain e where "decode_bound_rule zero_sha [] [] (sample_key\<lparr>scope := ''team''\<rparr>) ''python'' sample_limits = Inl e"
    by (cases "key_post_init (sample_key\<lparr>scope := ''team''\<rparr>)")
      (auto simp: decode_bound_rule_def r_then_def sample_limits_checked)
  with bound_rule_failures show ?thesis by blast
qed

end
