(* ===== verification/Raw_Schema.thy ===== *)
theory Raw_Schema
  imports Frozen
begin

text \<open>
  The pinned catalogue of \<open>analysis/cpg_ingest/joern_schema_v2.py\<close>: the properties of each node kind
  with their native type and cardinality, and the property of each edge kind.
\<close>

datatype native_type = StrType | IntType | BoolType

datatype cardinality = One | Optional | Many

type_synonym node_schema = "(string \<times> native_type \<times> cardinality) list"

definition NODE_PROPERTIES :: "(string \<times> node_schema) list" where
  "NODE_PROPERTIES = [
    (''ANNOTATION'',
      [(''ARGUMENT_INDEX'', IntType, One), (''ARGUMENT_LABEL'', StrType, Optional),
       (''ARGUMENT_NAME'', StrType, Optional), (''CODE'', StrType, One), (''COLUMN_NUMBER'', IntType, Optional),
       (''FULL_NAME'', StrType, One), (''LINE_NUMBER'', IntType, Optional), (''NAME'', StrType, One),
       (''OFFSET'', IntType, Optional), (''OFFSET_END'', IntType, Optional), (''ORDER'', IntType, One)]),
    (''ANNOTATION_LITERAL'',
      [(''ARGUMENT_INDEX'', IntType, One), (''ARGUMENT_LABEL'', StrType, Optional),
       (''ARGUMENT_NAME'', StrType, Optional), (''CODE'', StrType, One), (''COLUMN_NUMBER'', IntType, Optional),
       (''LINE_NUMBER'', IntType, Optional), (''NAME'', StrType, One), (''OFFSET'', IntType, Optional),
       (''OFFSET_END'', IntType, Optional), (''ORDER'', IntType, One)]),
    (''ANNOTATION_PARAMETER'',
      [(''CODE'', StrType, One), (''COLUMN_NUMBER'', IntType, Optional), (''LINE_NUMBER'', IntType, Optional),
       (''OFFSET'', IntType, Optional), (''OFFSET_END'', IntType, Optional), (''ORDER'', IntType, One)]),
    (''ANNOTATION_PARAMETER_ASSIGN'',
      [(''CODE'', StrType, One), (''COLUMN_NUMBER'', IntType, Optional), (''LINE_NUMBER'', IntType, Optional),
       (''OFFSET'', IntType, Optional), (''OFFSET_END'', IntType, Optional), (''ORDER'', IntType, One)]),
    (''ARRAY_INITIALIZER'',
      [(''ARGUMENT_INDEX'', IntType, One), (''ARGUMENT_LABEL'', StrType, Optional),
       (''ARGUMENT_NAME'', StrType, Optional), (''CODE'', StrType, One), (''COLUMN_NUMBER'', IntType, Optional),
       (''LINE_NUMBER'', IntType, Optional), (''OFFSET'', IntType, Optional), (''OFFSET_END'', IntType, Optional),
       (''ORDER'', IntType, One)]),
    (''BINDING'',
      [(''METHOD_FULL_NAME'', StrType, One), (''NAME'', StrType, One), (''SIGNATURE'', StrType, One)]),
    (''BLOCK'',
      [(''ARGUMENT_INDEX'', IntType, One), (''ARGUMENT_LABEL'', StrType, Optional),
       (''ARGUMENT_NAME'', StrType, Optional), (''CODE'', StrType, One), (''COLUMN_NUMBER'', IntType, Optional),
       (''DYNAMIC_TYPE_HINT_FULL_NAME'', StrType, Many), (''LINE_NUMBER'', IntType, Optional),
       (''OFFSET'', IntType, Optional), (''OFFSET_END'', IntType, Optional), (''ORDER'', IntType, One),
       (''POSSIBLE_TYPES'', StrType, Many), (''TYPE_FULL_NAME'', StrType, One)]),
    (''CALL'',
      [(''ARGUMENT_INDEX'', IntType, One), (''ARGUMENT_LABEL'', StrType, Optional),
       (''ARGUMENT_NAME'', StrType, Optional), (''CODE'', StrType, One), (''COLUMN_NUMBER'', IntType, Optional),
       (''DISPATCH_TYPE'', StrType, One), (''DYNAMIC_TYPE_HINT_FULL_NAME'', StrType, Many),
       (''LINE_NUMBER'', IntType, Optional), (''METHOD_FULL_NAME'', StrType, One), (''NAME'', StrType, One),
       (''OFFSET'', IntType, Optional), (''OFFSET_END'', IntType, Optional), (''ORDER'', IntType, One),
       (''POSSIBLE_TYPES'', StrType, Many), (''SIGNATURE'', StrType, One),
       (''STATIC_RECEIVER'', StrType, Optional), (''TYPE_FULL_NAME'', StrType, One)]),
    (''CLOSURE_BINDING'',
      [(''CLOSURE_BINDING_ID'', StrType, Optional), (''EVALUATION_STRATEGY'', StrType, One)]),
    (''COMMENT'',
      [(''CODE'', StrType, One), (''COLUMN_NUMBER'', IntType, Optional), (''FILENAME'', StrType, One),
       (''LINE_NUMBER'', IntType, Optional), (''OFFSET'', IntType, Optional), (''OFFSET_END'', IntType, Optional),
       (''ORDER'', IntType, One)]),
    (''CONFIG_FILE'',
      [(''CONTENT'', StrType, One), (''NAME'', StrType, One)]),
    (''CONTROL_STRUCTURE'',
      [(''ARGUMENT_INDEX'', IntType, One), (''ARGUMENT_LABEL'', StrType, Optional),
       (''ARGUMENT_NAME'', StrType, Optional), (''CODE'', StrType, One), (''COLUMN_NUMBER'', IntType, Optional),
       (''CONTROL_STRUCTURE_TYPE'', StrType, One), (''LINE_NUMBER'', IntType, Optional),
       (''OFFSET'', IntType, Optional), (''OFFSET_END'', IntType, Optional), (''ORDER'', IntType, One),
       (''PARSER_TYPE_NAME'', StrType, One)]),
    (''DEPENDENCY'',
      [(''DEPENDENCY_GROUP_ID'', StrType, Optional), (''NAME'', StrType, One), (''VERSION'', StrType, One)]),
    (''FIELD_IDENTIFIER'',
      [(''ARGUMENT_INDEX'', IntType, One), (''ARGUMENT_LABEL'', StrType, Optional),
       (''ARGUMENT_NAME'', StrType, Optional), (''CANONICAL_NAME'', StrType, One), (''CODE'', StrType, One),
       (''COLUMN_NUMBER'', IntType, Optional), (''LINE_NUMBER'', IntType, Optional),
       (''OFFSET'', IntType, Optional), (''OFFSET_END'', IntType, Optional), (''ORDER'', IntType, One)]),
    (''FILE'',
      [(''CODE'', StrType, One), (''COLUMN_NUMBER'', IntType, Optional), (''CONTENT'', StrType, One),
       (''HASH'', StrType, Optional), (''LINE_NUMBER'', IntType, Optional), (''NAME'', StrType, One),
       (''OFFSET'', IntType, Optional), (''OFFSET_END'', IntType, Optional), (''ORDER'', IntType, One)]),
    (''FINDING'',
      [(''EVIDENCE_DESCRIPTION'', StrType, Many)]),
    (''IDENTIFIER'',
      [(''ARGUMENT_INDEX'', IntType, One), (''ARGUMENT_LABEL'', StrType, Optional),
       (''ARGUMENT_NAME'', StrType, Optional), (''CODE'', StrType, One), (''COLUMN_NUMBER'', IntType, Optional),
       (''DYNAMIC_TYPE_HINT_FULL_NAME'', StrType, Many), (''LINE_NUMBER'', IntType, Optional),
       (''NAME'', StrType, One), (''OFFSET'', IntType, Optional), (''OFFSET_END'', IntType, Optional),
       (''ORDER'', IntType, One), (''POSSIBLE_TYPES'', StrType, Many), (''TYPE_FULL_NAME'', StrType, One)]),
    (''IMPORT'',
      [(''CODE'', StrType, One), (''COLUMN_NUMBER'', IntType, Optional), (''EXPLICIT_AS'', BoolType, Optional),
       (''IMPORTED_AS'', StrType, Optional), (''IMPORTED_ENTITY'', StrType, Optional),
       (''IS_EXPLICIT'', BoolType, Optional), (''IS_MODULE_IMPORT'', BoolType, Optional),
       (''IS_WILDCARD'', BoolType, Optional), (''LINE_NUMBER'', IntType, Optional),
       (''OFFSET'', IntType, Optional), (''OFFSET_END'', IntType, Optional), (''ORDER'', IntType, One)]),
    (''JUMP_LABEL'',
      [(''CODE'', StrType, One), (''COLUMN_NUMBER'', IntType, Optional), (''LINE_NUMBER'', IntType, Optional),
       (''NAME'', StrType, One), (''OFFSET'', IntType, Optional), (''OFFSET_END'', IntType, Optional),
       (''ORDER'', IntType, One), (''PARSER_TYPE_NAME'', StrType, One)]),
    (''JUMP_TARGET'',
      [(''ARGUMENT_INDEX'', IntType, One), (''CODE'', StrType, One), (''COLUMN_NUMBER'', IntType, Optional),
       (''LINE_NUMBER'', IntType, Optional), (''NAME'', StrType, One), (''OFFSET'', IntType, Optional),
       (''OFFSET_END'', IntType, Optional), (''ORDER'', IntType, One), (''PARSER_TYPE_NAME'', StrType, One)]),
    (''KEY_VALUE_PAIR'',
      [(''KEY'', StrType, One), (''VALUE'', StrType, One)]),
    (''LITERAL'',
      [(''ARGUMENT_INDEX'', IntType, One), (''ARGUMENT_LABEL'', StrType, Optional),
       (''ARGUMENT_NAME'', StrType, Optional), (''CODE'', StrType, One), (''COLUMN_NUMBER'', IntType, Optional),
       (''DYNAMIC_TYPE_HINT_FULL_NAME'', StrType, Many), (''LINE_NUMBER'', IntType, Optional),
       (''OFFSET'', IntType, Optional), (''OFFSET_END'', IntType, Optional), (''ORDER'', IntType, One),
       (''POSSIBLE_TYPES'', StrType, Many), (''TYPE_FULL_NAME'', StrType, One)]),
    (''LOCAL'',
      [(''CLOSURE_BINDING_ID'', StrType, Optional), (''CODE'', StrType, One),
       (''COLUMN_NUMBER'', IntType, Optional), (''DYNAMIC_TYPE_HINT_FULL_NAME'', StrType, Many),
       (''GENERIC_SIGNATURE'', StrType, One), (''LINE_NUMBER'', IntType, Optional), (''NAME'', StrType, One),
       (''OFFSET'', IntType, Optional), (''OFFSET_END'', IntType, Optional), (''ORDER'', IntType, One),
       (''POSSIBLE_TYPES'', StrType, Many), (''TYPE_FULL_NAME'', StrType, One)]),
    (''MEMBER'',
      [(''AST_PARENT_FULL_NAME'', StrType, One), (''AST_PARENT_TYPE'', StrType, One), (''CODE'', StrType, One),
       (''COLUMN_NUMBER'', IntType, Optional), (''DYNAMIC_TYPE_HINT_FULL_NAME'', StrType, Many),
       (''GENERIC_SIGNATURE'', StrType, One), (''LINE_NUMBER'', IntType, Optional), (''NAME'', StrType, One),
       (''OFFSET'', IntType, Optional), (''OFFSET_END'', IntType, Optional), (''ORDER'', IntType, One),
       (''POSSIBLE_TYPES'', StrType, Many), (''TYPE_FULL_NAME'', StrType, One)]),
    (''META_DATA'',
      [(''HASH'', StrType, Optional), (''LANGUAGE'', StrType, One), (''OVERLAYS'', StrType, Many),
       (''ROOT'', StrType, One), (''VERSION'', StrType, One)]),
    (''METHOD'',
      [(''AST_PARENT_FULL_NAME'', StrType, One), (''AST_PARENT_TYPE'', StrType, One), (''CODE'', StrType, One),
       (''COLUMN_NUMBER'', IntType, Optional), (''COLUMN_NUMBER_END'', IntType, Optional),
       (''FILENAME'', StrType, One), (''FULL_NAME'', StrType, One), (''GENERIC_SIGNATURE'', StrType, One),
       (''HASH'', StrType, Optional), (''IS_EXTERNAL'', BoolType, One), (''LINE_NUMBER'', IntType, Optional),
       (''LINE_NUMBER_END'', IntType, Optional), (''NAME'', StrType, One), (''OFFSET'', IntType, Optional),
       (''OFFSET_END'', IntType, Optional), (''ORDER'', IntType, One), (''SIGNATURE'', StrType, One)]),
    (''METHOD_PARAMETER_IN'',
      [(''CLOSURE_BINDING_ID'', StrType, Optional), (''CODE'', StrType, One),
       (''COLUMN_NUMBER'', IntType, Optional), (''DYNAMIC_TYPE_HINT_FULL_NAME'', StrType, Many),
       (''EVALUATION_STRATEGY'', StrType, One), (''INDEX'', IntType, One), (''IS_VARIADIC'', BoolType, One),
       (''LINE_NUMBER'', IntType, Optional), (''NAME'', StrType, One), (''OFFSET'', IntType, Optional),
       (''OFFSET_END'', IntType, Optional), (''ORDER'', IntType, One), (''POSSIBLE_TYPES'', StrType, Many),
       (''TYPE_FULL_NAME'', StrType, One)]),
    (''METHOD_PARAMETER_OUT'',
      [(''CODE'', StrType, One), (''COLUMN_NUMBER'', IntType, Optional), (''EVALUATION_STRATEGY'', StrType, One),
       (''INDEX'', IntType, One), (''IS_VARIADIC'', BoolType, One), (''LINE_NUMBER'', IntType, Optional),
       (''NAME'', StrType, One), (''OFFSET'', IntType, Optional), (''OFFSET_END'', IntType, Optional),
       (''ORDER'', IntType, One), (''TYPE_FULL_NAME'', StrType, One)]),
    (''METHOD_REF'',
      [(''ARGUMENT_INDEX'', IntType, One), (''ARGUMENT_LABEL'', StrType, Optional),
       (''ARGUMENT_NAME'', StrType, Optional), (''CODE'', StrType, One), (''COLUMN_NUMBER'', IntType, Optional),
       (''DYNAMIC_TYPE_HINT_FULL_NAME'', StrType, Many), (''LINE_NUMBER'', IntType, Optional),
       (''METHOD_FULL_NAME'', StrType, One), (''OFFSET'', IntType, Optional), (''OFFSET_END'', IntType, Optional),
       (''ORDER'', IntType, One), (''POSSIBLE_TYPES'', StrType, Many), (''TYPE_FULL_NAME'', StrType, One)]),
    (''METHOD_RETURN'',
      [(''CODE'', StrType, One), (''COLUMN_NUMBER'', IntType, Optional),
       (''DYNAMIC_TYPE_HINT_FULL_NAME'', StrType, Many), (''EVALUATION_STRATEGY'', StrType, One),
       (''LINE_NUMBER'', IntType, Optional), (''OFFSET'', IntType, Optional), (''OFFSET_END'', IntType, Optional),
       (''ORDER'', IntType, One), (''POSSIBLE_TYPES'', StrType, Many), (''TYPE_FULL_NAME'', StrType, One)]),
    (''MODIFIER'',
      [(''CODE'', StrType, One), (''COLUMN_NUMBER'', IntType, Optional), (''LINE_NUMBER'', IntType, Optional),
       (''MODIFIER_TYPE'', StrType, One), (''OFFSET'', IntType, Optional), (''OFFSET_END'', IntType, Optional),
       (''ORDER'', IntType, One)]),
    (''NAMESPACE'',
      [(''CODE'', StrType, One), (''COLUMN_NUMBER'', IntType, Optional), (''LINE_NUMBER'', IntType, Optional),
       (''NAME'', StrType, One), (''OFFSET'', IntType, Optional), (''OFFSET_END'', IntType, Optional),
       (''ORDER'', IntType, One)]),
    (''NAMESPACE_BLOCK'',
      [(''CODE'', StrType, One), (''COLUMN_NUMBER'', IntType, Optional), (''FILENAME'', StrType, One),
       (''FULL_NAME'', StrType, One), (''LINE_NUMBER'', IntType, Optional), (''NAME'', StrType, One),
       (''OFFSET'', IntType, Optional), (''OFFSET_END'', IntType, Optional), (''ORDER'', IntType, One)]),
    (''RETURN'',
      [(''ARGUMENT_INDEX'', IntType, One), (''ARGUMENT_LABEL'', StrType, Optional),
       (''ARGUMENT_NAME'', StrType, Optional), (''CODE'', StrType, One), (''COLUMN_NUMBER'', IntType, Optional),
       (''LINE_NUMBER'', IntType, Optional), (''OFFSET'', IntType, Optional), (''OFFSET_END'', IntType, Optional),
       (''ORDER'', IntType, One)]),
    (''TAG'',
      [(''NAME'', StrType, One), (''VALUE'', StrType, One)]),
    (''TAG_NODE_PAIR'',
      []),
    (''TEMPLATE_DOM'',
      [(''ARGUMENT_INDEX'', IntType, One), (''ARGUMENT_LABEL'', StrType, Optional),
       (''ARGUMENT_NAME'', StrType, Optional), (''CODE'', StrType, One), (''COLUMN_NUMBER'', IntType, Optional),
       (''LINE_NUMBER'', IntType, Optional), (''NAME'', StrType, One), (''OFFSET'', IntType, Optional),
       (''OFFSET_END'', IntType, Optional), (''ORDER'', IntType, One)]),
    (''TYPE'',
      [(''FULL_NAME'', StrType, One), (''NAME'', StrType, One), (''TYPE_DECL_FULL_NAME'', StrType, One)]),
    (''TYPE_ARGUMENT'',
      [(''CODE'', StrType, One), (''COLUMN_NUMBER'', IntType, Optional), (''LINE_NUMBER'', IntType, Optional),
       (''OFFSET'', IntType, Optional), (''OFFSET_END'', IntType, Optional), (''ORDER'', IntType, One)]),
    (''TYPE_DECL'',
      [(''ALIAS_TYPE_FULL_NAME'', StrType, Optional), (''AST_PARENT_FULL_NAME'', StrType, One),
       (''AST_PARENT_TYPE'', StrType, One), (''CODE'', StrType, One), (''COLUMN_NUMBER'', IntType, Optional),
       (''FILENAME'', StrType, One), (''FULL_NAME'', StrType, One), (''GENERIC_SIGNATURE'', StrType, One),
       (''INHERITS_FROM_TYPE_FULL_NAME'', StrType, Many), (''IS_EXTERNAL'', BoolType, One),
       (''LINE_NUMBER'', IntType, Optional), (''NAME'', StrType, One), (''OFFSET'', IntType, Optional),
       (''OFFSET_END'', IntType, Optional), (''ORDER'', IntType, One)]),
    (''TYPE_PARAMETER'',
      [(''CODE'', StrType, One), (''COLUMN_NUMBER'', IntType, Optional), (''LINE_NUMBER'', IntType, Optional),
       (''NAME'', StrType, One), (''OFFSET'', IntType, Optional), (''OFFSET_END'', IntType, Optional),
       (''ORDER'', IntType, One)]),
    (''TYPE_REF'',
      [(''ARGUMENT_INDEX'', IntType, One), (''ARGUMENT_LABEL'', StrType, Optional),
       (''ARGUMENT_NAME'', StrType, Optional), (''CODE'', StrType, One), (''COLUMN_NUMBER'', IntType, Optional),
       (''DYNAMIC_TYPE_HINT_FULL_NAME'', StrType, Many), (''LINE_NUMBER'', IntType, Optional),
       (''OFFSET'', IntType, Optional), (''OFFSET_END'', IntType, Optional), (''ORDER'', IntType, One),
       (''POSSIBLE_TYPES'', StrType, Many), (''TYPE_FULL_NAME'', StrType, One)]),
    (''UNKNOWN'',
      [(''ARGUMENT_INDEX'', IntType, One), (''ARGUMENT_LABEL'', StrType, Optional),
       (''ARGUMENT_NAME'', StrType, Optional), (''CODE'', StrType, One), (''COLUMN_NUMBER'', IntType, Optional),
       (''CONTAINED_REF'', StrType, One), (''DYNAMIC_TYPE_HINT_FULL_NAME'', StrType, Many),
       (''LINE_NUMBER'', IntType, Optional), (''OFFSET'', IntType, Optional), (''OFFSET_END'', IntType, Optional),
       (''ORDER'', IntType, One), (''PARSER_TYPE_NAME'', StrType, One), (''POSSIBLE_TYPES'', StrType, Many),
       (''TYPE_FULL_NAME'', StrType, One)])]"

definition EDGE_PROPERTIES :: "(string \<times> string option) list" where
  "EDGE_PROPERTIES =
    [(''ALIAS_OF'', None), (''ARGUMENT'', None), (''AST'', None), (''BINDS'', None), (''BINDS_TO'', None),
     (''CALL'', None), (''CAPTURE'', None), (''CAPTURED_BY'', None), (''CATCH_BODY'', None), (''CDG'', None),
     (''CFG'', None), (''CONDITION'', None), (''CONTAINS'', None), (''DOMINATE'', None), (''DO_BODY'', None),
     (''EVAL_TYPE'', None), (''FALSE_BODY'', None), (''FINALLY_BODY'', None), (''FOR_BODY'', None),
     (''FOR_INIT'', None), (''FOR_UPDATE'', None), (''IMPORTS'', None), (''INHERITS_FROM'', None),
     (''IS_CALL_FOR_IMPORT'', None), (''JUMP_ARGUMENT'', None), (''PARAMETER_LINK'', None),
     (''POST_DOMINATE'', None), (''REACHING_DEF'', Some ''VARIABLE''), (''RECEIVER'', None), (''REF'', None),
     (''SOURCE_FILE'', None), (''TAGGED_BY'', None), (''TRUE_BODY'', None), (''TRY_BODY'', None)]"

end
