(* ===== verification/Raw_Export.thy ===== *)
theory Raw_Export
  imports Raw_Schema Rule_Key
begin

text \<open>
  \<open>analysis/cpg_ingest/raw_v2.py\<close>: the strict validation of a raw Joern export. A
  \<open>RawExportError\<close> carries its message, since the caller classifies failures by it. The raw
  SHA-256 digest of bytes is a parameter.

  \<open>parse_raw_export\<close> itself is not modelled: it decodes with floating-point numbers. The callers
  decode with \<open>decode_json_bytes\<close> and call \<open>validate_raw_export\<close>.
\<close>

definition raw_check :: "string \<Rightarrow> bool \<Rightarrow> unit res" where
  "raw_check msg b = (if b then Inr () else Inl (RawExportError msg))"

lemma raw_check_ok [simp]: "raw_check msg b = Inr u \<longleftrightarrow> b"
  by (simp add: raw_check_def)

type_synonym row = "(string \<times> json) list"

section \<open>Readers\<close>

definition raw_object :: "json \<Rightarrow> string \<Rightarrow> row res" where
  "raw_object v label =
     (case v of JObj row \<Rightarrow> Inr row | _ \<Rightarrow> Inl (RawExportError (label @ '' must be an object with string keys'')))"

definition raw_shape :: "json \<Rightarrow> string list \<Rightarrow> string \<Rightarrow> row res" where
  "raw_shape v keys label =
     r_bind (raw_object v label) (\<lambda>row.
     r_then (raw_check (label @ '' has missing or unknown fields'') (set (map fst row) = set keys)) (Inr row))"

definition raw_string :: "bool \<Rightarrow> json \<Rightarrow> string \<Rightarrow> string res" where
  "raw_string nonempty v label =
     (let msg = label @ '' must be a '' @ (if nonempty then ''nonempty '' else []) @ ''string'' in
      case v of
        JStr s \<Rightarrow>
          r_then (raw_check msg (nonempty \<longrightarrow> s \<noteq> []))
          (r_then (raw_check (label @ '' must be valid UTF-8'') (\<not> has_surrogate s)) (Inr s))
      | _ \<Rightarrow> Inl (RawExportError msg))"

definition raw_digest :: "json \<Rightarrow> string \<Rightarrow> string res" where
  "raw_digest v label =
     r_bind (raw_string True v label) (\<lambda>s.
     r_then (raw_check (label @ '' must be lowercase SHA256 hex'') (digest_match s)) (Inr s))"

definition raw_array :: "json \<Rightarrow> string \<Rightarrow> json list res" where
  "raw_array v label =
     (case v of JArr xs \<Rightarrow> Inr xs | _ \<Rightarrow> Inl (RawExportError (label @ '' must be an array'')))"

definition raw_artifact :: "json \<Rightarrow> string \<Rightarrow> bool \<Rightarrow> row res" where
  "raw_artifact v label tool =
     r_bind (raw_shape v ([''path'', ''sha256''] @ (if tool then [''role'', ''version''] else [])) label) (\<lambda>row.
     r_bind (raw_string True (jfield row ''path'') (label @ ''.path'')) (\<lambda>path.
     r_then (raw_check (label @ ''.path must be an absolute locator'') (starts CHR ''/'' path \<and> CHR 0x00 \<notin> set path))
     (r_bind (raw_digest (jfield row ''sha256'') (label @ ''.sha256'')) (\<lambda>_. Inr row))))"

section \<open>Source manifest\<close>

text \<open>\<open>bytes.fromhex\<close> on an even number of hexadecimal digits.\<close>

fun from_hex :: "string \<Rightarrow> bytes" where
  "from_hex (a # b # s) = char_of (16 * the (hex_value a) + the (hex_value b)) # from_hex s"
| "from_hex _ = []"

definition manifest_path :: "string \<Rightarrow> bool" where
  "manifest_path path \<longleftrightarrow> \<not> starts CHR ''/'' path \<and>
     (\<forall>p \<in> set (split_on CHR ''/'' path). p \<notin> set ['''', ''.'', ''..'']) \<and> CHR 0x00 \<notin> set path"

text \<open>The loop over the manifest returns what is fed to the digest; \<open>previous\<close> is the path before.\<close>

fun manifest_bytes :: "string option \<Rightarrow> json list \<Rightarrow> bytes res" where
  "manifest_bytes previous [] = Inr []"
| "manifest_bytes previous (v # vs) =
     r_bind (raw_shape v [''path'', ''size'', ''sha256''] ''source file'') (\<lambda>entry.
     r_bind (raw_string True (jfield entry ''path'') ''source file.path'') (\<lambda>path.
     r_then (raw_check ''source file.path must be a normalized relative POSIX path'' (manifest_path path))
     (r_then (raw_check ''source file paths must be unique and UTF-8-byte sorted''
        (case previous of None \<Rightarrow> True | Some p \<Rightarrow> p < path))
     (r_bind (case jfield entry ''size'' of
                JInt n \<Rightarrow> if 0 \<le> n \<and> n \<le> 2 ^ 53 - 1 then Inr (nat n)
                  else Inl (RawExportError ''source file.size must be an exact nonnegative JSON integer'')
              | _ \<Rightarrow> Inl (RawExportError ''source file.size must be an exact nonnegative JSON integer'')) (\<lambda>size.
      r_bind (raw_digest (jfield entry ''sha256'') ''source file.sha256'') (\<lambda>digest.
      r_bind (manifest_bytes (Some path) vs) (\<lambda>rest.
      Inr (be8 (length path) @ path @ be8 size @ from_hex digest @ rest))))))))"

definition source_tree_digest :: "(bytes \<Rightarrow> bytes) \<Rightarrow> json \<Rightarrow> string res" where
  "source_tree_digest sha256 files =
     r_bind (raw_array files ''source.files'') (\<lambda>vs.
     r_bind (manifest_bytes None vs) (\<lambda>data. Inr (hex (sha256 (''scanipy-source-tree/1'' @ [CHR 0x00] @ data)))))"

section \<open>Producer\<close>

definition TOOL_VERSIONS :: "(string \<times> string) list" where
  "TOOL_VERSIONS = [(''joern-console'', ''4.0.554''), (''frontend'', ''4.0.554''), (''cpg-domain'', ''1.7.65''),
     (''flatgraph-core'', ''0.1.31'')]"

fun producer_tools :: "json list \<Rightarrow> string list \<Rightarrow> string list res" where
  "producer_tools [] roles = Inr roles"
| "producer_tools (v # vs) roles =
     r_bind (raw_artifact v ''producer tool'' True) (\<lambda>tool.
     r_bind (raw_string True (jfield tool ''role'') ''tool.role'') (\<lambda>role.
     case map_of TOOL_VERSIONS role of
       None \<Rightarrow> Inl (RawExportError ''unknown or duplicate producer tool role'')
     | Some version \<Rightarrow>
         r_then (raw_check ''unknown or duplicate producer tool role'' (role \<notin> set roles))
         (r_then (raw_check (''unsupported runtime version for '' @ role) (jfield tool ''version'' = JStr version))
         (producer_tools vs (role # roles)))))"

definition producer_image :: "json \<Rightarrow> unit res" where
  "producer_image v =
     r_bind (raw_shape v [''kind'', ''reference'', ''observation''] ''producer.image'') (\<lambda>image.
     r_then (raw_check ''unsupported image identity/observation contract''
       (jfield image ''kind'' = JStr ''docker-image-id'' \<and> jfield image ''observation'' = JStr ''caller-observed''))
     (r_bind (raw_string True (jfield image ''reference'') ''image.reference'') (\<lambda>reference.
      r_then (raw_check ''image reference must be a SHA256 Docker image ID'' (take 7 reference = ''sha256:''))
      (forget (raw_digest (JStr (drop 7 reference)) ''image.reference'')))))"

definition producer_source :: "(bytes \<Rightarrow> bytes) \<Rightarrow> json \<Rightarrow> unit res" where
  "producer_source sha256 v =
     r_bind (raw_shape v [''root'', ''tree_namespace'', ''tree_sha256'', ''files''] ''producer.source'') (\<lambda>source.
     r_bind (raw_string True (jfield source ''root'') ''source.root'') (\<lambda>root.
     r_then (raw_check ''source root must be an absolute locator'' (starts CHR ''/'' root \<and> CHR 0x00 \<notin> set root))
     (r_then (raw_check ''unsupported source-tree namespace''
        (jfield source ''tree_namespace'' = JStr ''scanipy-source-tree/1''))
     (r_bind (raw_digest (jfield source ''tree_sha256'') ''source.tree_sha256'') (\<lambda>declared.
      r_bind (source_tree_digest sha256 (jfield source ''files'')) (\<lambda>computed.
      raw_check ''source tree digest does not bind the manifest'' (declared = computed)))))))"

definition raw_producer :: "(bytes \<Rightarrow> bytes) \<Rightarrow> json \<Rightarrow> string res" where
  "raw_producer sha256 v =
     r_bind (raw_shape v [''schema_version'', ''image'', ''tools'', ''script'', ''input_cpg'', ''source'', ''frontend'',
       ''import_mode'', ''java_runtime_version'', ''java_tool_options''] ''producer'') (\<lambda>producer.
     r_then (raw_check ''unsupported producer schema version'' (jfield producer ''schema_version'' = JInt 1))
     (r_then (producer_image (jfield producer ''image''))
     (r_bind (raw_array (jfield producer ''tools'') ''producer.tools'') (\<lambda>tools.
      r_bind (producer_tools tools []) (\<lambda>roles.
      r_then (raw_check ''missing producer tool identity'' (set roles = set (map fst TOOL_VERSIONS)))
      (r_then (forget (raw_artifact (jfield producer ''script'') ''producer.script'' False))
      (r_then (forget (raw_artifact (jfield producer ''input_cpg'') ''producer.input_cpg'' False))
      (r_then (producer_source sha256 (jfield producer ''source''))
      (r_bind (raw_string True (jfield producer ''frontend'') ''producer.frontend'') (\<lambda>frontend.
       r_then (raw_check ''unsupported raw-v2 frontend'' (frontend \<in> set [''javasrc'', ''pythonsrc'']))
       (r_then (raw_check ''unsupported import mode'' (jfield producer ''import_mode'' = JStr ''importCpg-default-overlays''))
       (r_then (forget (raw_string True (jfield producer ''java_runtime_version'') ''producer.java_runtime_version''))
       (r_then (forget (raw_string False (jfield producer ''java_tool_options'') ''producer.java_tool_options''))
       (Inr frontend))))))))))))))"

section \<open>Nodes\<close>

type_synonym node_table = "(string \<times> row) list"

text \<open>The pattern \<open>_ID\<close>; \<open>int\<close> refuses texts of more than 4300 digits with a \<open>ValueError\<close>.\<close>

definition id_match :: "string \<Rightarrow> bool" where
  "id_match s \<longleftrightarrow> s = ''0'' \<or> s \<noteq> [] \<and> hd s \<noteq> CHR ''0'' \<and> (\<forall>c \<in> set s. is_digit c)"

definition check_node_id :: "node_table \<Rightarrow> string \<Rightarrow> unit res" where
  "check_node_id by_id node_id =
     r_then (raw_check ''invalid or duplicate node ID'' (id_match node_id))
     (r_then (r_check ''Exceeds the limit (4300 digits) for integer string conversion'' (int (length node_id) \<le> 4300))
     (raw_check ''invalid or duplicate node ID''
        (int (digits_value node_id) \<le> 2 ^ 63 - 1 \<and> node_id \<notin> set (map fst by_id))))"

definition raw_property :: "json \<Rightarrow> native_type \<Rightarrow> cardinality \<Rightarrow> string \<Rightarrow> unit res" where
  "raw_property v kind quantity label =
     r_bind (if quantity = Many then raw_array v label else Inr [v]) (\<lambda>items.
     r_each (\<lambda>item.
       case (kind, item) of
         (StrType, JStr s) \<Rightarrow> forget (raw_string False item label)
       | (IntType, JInt i) \<Rightarrow> raw_check (label @ '' exceeds pinned IntType range'') (- (2 ^ 31) \<le> i \<and> i < 2 ^ 31)
       | (BoolType, JBool b) \<Rightarrow> Inr ()
       | _ \<Rightarrow> Inl (RawExportError (label @ '' has incorrect native property type''))) items)"

definition required_missing :: "node_schema \<Rightarrow> row \<Rightarrow> string list" where
  "required_missing allowed properties =
     sort (filter (\<lambda>key. key \<notin> set (map fst properties)) (map fst (filter (\<lambda>(_, _, quantity). quantity = One) allowed)))"

definition pinned_node_schema :: "string \<Rightarrow> node_schema res" where
  "pinned_node_schema kind =
     (case map_of NODE_PROPERTIES kind of
        None \<Rightarrow> Inl (RawExportError (''unsupported pinned node kind: '' @ kind)) | Some allowed \<Rightarrow> Inr allowed)"

definition check_properties :: "string \<Rightarrow> node_schema \<Rightarrow> row \<Rightarrow> unit res" where
  "check_properties kind allowed properties =
     r_each (\<lambda>(key, v). case map_of allowed key of
         None \<Rightarrow> Inl (KeyError key)
       | Some (native, quantity) \<Rightarrow> raw_property v native quantity (kind @ ''.'' @ key)) properties"

definition raw_node :: "node_table \<Rightarrow> json \<Rightarrow> (string \<times> row \<times> string \<times> row) res" where
  "raw_node by_id v =
     r_bind (raw_shape v [''id'', ''kind'', ''properties'', ''missing_properties''] ''node'') (\<lambda>node.
     r_bind (raw_string True (jfield node ''id'') ''node.id'') (\<lambda>node_id.
     r_then (check_node_id by_id node_id)
     (r_bind (raw_string True (jfield node ''kind'') ''node.kind'') (\<lambda>kind.
      r_bind (pinned_node_schema kind) (\<lambda>allowed.
      r_bind (raw_object (jfield node ''properties'') ''node.properties'') (\<lambda>properties.
      r_then (raw_check (''unknown property for '' @ kind) (set (map fst properties) \<subseteq> set (map fst allowed)))
      (r_then (check_properties kind allowed properties)
      (r_bind (raw_array (jfield node ''missing_properties'') ''node.missing_properties'') (\<lambda>missing.
       r_then (raw_check (''missing pinned properties must be explicit for '' @ kind)
         (missing = map JStr (required_missing allowed properties)))
       (Inr (node_id, node, kind, properties)))))))))))"

fun read_nodes :: "json list \<Rightarrow> node_table \<Rightarrow> row list \<Rightarrow> (node_table \<times> row list) res" where
  "read_nodes [] by_id metadata = Inr (by_id, metadata)"
| "read_nodes (v # vs) by_id metadata =
     r_bind (raw_node by_id v) (\<lambda>(node_id, node, kind, properties).
     read_nodes vs (by_id @ [(node_id, node)]) (if kind = ''META_DATA'' then metadata @ [properties] else metadata))"

definition upper :: "string \<Rightarrow> string" where
  "upper s = map (\<lambda>c. if in_range 97 122 c then char_of (of_char c - 32 :: nat) else c) s"

definition raw_nodes :: "json \<Rightarrow> string \<Rightarrow> node_table res" where
  "raw_nodes v frontend =
     r_bind (raw_array v ''nodes'') (\<lambda>vs.
     r_bind (read_nodes vs [] []) (\<lambda>(by_id, metadata).
     r_then (raw_check ''expected one metadata node matching the declared frontend''
       (case metadata of [properties] \<Rightarrow> jfield properties ''LANGUAGE'' = JStr (upper frontend) | _ \<Rightarrow> False))
     (Inr by_id)))"

section \<open>Edges\<close>

definition expression_kinds :: "string list" where
  "expression_kinds = map fst (filter (\<lambda>(_, props). ''ARGUMENT_INDEX'' \<in> set (map fst props)) NODE_PROPERTIES)"

definition node_kind :: "node_table \<Rightarrow> string \<Rightarrow> string" where
  "node_kind nodes node_id =
     (case map_of nodes node_id of
        None \<Rightarrow> [] | Some node \<Rightarrow> (case jfield node ''kind'' of JStr kind \<Rightarrow> kind | _ \<Rightarrow> []))"

record edge_facts =
  ast_parents :: "(string \<times> string) list"
  parameter_links :: "(string \<times> string) list"

text \<open>The kinds that an edge may connect.\<close>

definition check_endpoint_kinds :: "string \<Rightarrow> string \<Rightarrow> string \<Rightarrow> unit res" where
  "check_endpoint_kinds kind source_kind target_kind =
     r_then (raw_check ''CALL must connect a call to a method''
       (kind = ''CALL'' \<longrightarrow> source_kind = ''CALL'' \<and> target_kind = ''METHOD''))
     (r_then (raw_check ''PARAMETER_LINK must connect formal input to formal output''
       (kind = ''PARAMETER_LINK'' \<longrightarrow> source_kind = ''METHOD_PARAMETER_IN'' \<and> target_kind = ''METHOD_PARAMETER_OUT''))
     (r_then (raw_check ''RECEIVER must connect a call to its callee expression''
       (kind = ''RECEIVER'' \<longrightarrow> source_kind = ''CALL'' \<and> target_kind \<in> set expression_kinds))
     (r_then (raw_check ''ARGUMENT must connect a call/return to an expression''
       (kind = ''ARGUMENT'' \<longrightarrow> source_kind \<in> set [''CALL'', ''RETURN''] \<and> target_kind \<in> set expression_kinds))
     (raw_check ''identifier REF must target a declaration''
       (kind = ''REF'' \<and> source_kind = ''IDENTIFIER'' \<longrightarrow>
          target_kind \<in> set [''LOCAL'', ''METHOD_PARAMETER_IN'', ''MEMBER'', ''TYPE_DECL'', ''METHOD''])))))"

definition pinned_edge_key :: "string \<Rightarrow> string option res" where
  "pinned_edge_key kind =
     (case map_of EDGE_PROPERTIES kind of
        None \<Rightarrow> Inl (RawExportError (''unsupported pinned edge kind: '' @ kind)) | Some key \<Rightarrow> Inr key)"

text \<open>What the loop records of an accepted edge.\<close>

definition record_edge :: "string \<Rightarrow> string \<Rightarrow> string \<Rightarrow> edge_facts \<Rightarrow> edge_facts" where
  "record_edge kind src dst facts =
     (if kind = ''AST'' \<and> map_of (ast_parents facts) dst = None
      then facts\<lparr>ast_parents := ast_parents facts @ [(dst, src)]\<rparr>
      else if kind = ''PARAMETER_LINK''
      then facts\<lparr>parameter_links := parameter_links facts @ [(src, dst)]\<rparr> else facts)"

definition raw_edge :: "node_table \<Rightarrow> json \<Rightarrow> edge_facts \<Rightarrow> edge_facts res" where
  "raw_edge nodes v facts =
     r_bind (raw_shape v [''src'', ''dst'', ''kind'', ''properties''] ''edge'') (\<lambda>edge.
     r_bind (raw_string True (jfield edge ''src'') ''edge.src'') (\<lambda>src.
     r_bind (raw_string True (jfield edge ''dst'') ''edge.dst'') (\<lambda>dst.
     r_then (raw_check ''dangling edge endpoint'' (src \<in> set (map fst nodes) \<and> dst \<in> set (map fst nodes)))
     (r_bind (raw_string True (jfield edge ''kind'') ''edge.kind'') (\<lambda>kind.
      r_bind (pinned_edge_key kind) (\<lambda>allowed_key.
      r_bind (raw_object (jfield edge ''properties'') ''edge.properties'') (\<lambda>properties.
      r_then (raw_check (''unknown property for '' @ kind) (\<forall>key \<in> set (map fst properties). allowed_key = Some key))
      (r_then (r_each (\<lambda>(_, item). forget (raw_string False item (kind @ '' property''))) properties)
      (r_then (raw_check ''AST node cannot have multiple owners''
         (kind = ''AST'' \<longrightarrow> (case map_of (ast_parents facts) dst of None \<Rightarrow> True | Some p \<Rightarrow> p = src)))
      (r_then (check_endpoint_kinds kind (node_kind nodes src) (node_kind nodes dst))
      (Inr (record_edge kind src dst facts))))))))))))"

text \<open>
  \<open>while cursor in ast_parents and cursor not in checked\<close>: the walk up from one node; it raises at the
  first node met twice and otherwise returns its trail.
\<close>

function ast_walk :: "(string \<times> string) list \<Rightarrow> string list \<Rightarrow> string list \<Rightarrow> string \<Rightarrow> string list res" where
  "ast_walk parents checked trail cursor =
     (case map_of parents cursor of
        None \<Rightarrow> Inr trail
      | Some parent \<Rightarrow>
          if cursor \<in> set checked then Inr trail
          else if cursor \<in> set trail then Inl (RawExportError ''cyclic AST ownership'')
          else ast_walk parents checked (cursor # trail) parent)"
  by pat_completeness auto

termination
proof (relation "measure (\<lambda>(parents, checked, trail, cursor). card (set (map fst parents) - set trail))")
  fix parents :: "(string \<times> string) list" and checked trail :: "string list" and cursor parent :: string
  assume "map_of parents cursor = Some parent" and "\<not> cursor \<in> set trail"
  then have "cursor \<in> set (map fst parents) - set trail" by (force dest: map_of_SomeD)
  moreover have "set (map fst parents) - set (cursor # trail) = (set (map fst parents) - set trail) - {cursor}" by auto
  ultimately have "card (set (map fst parents) - set (cursor # trail)) < card (set (map fst parents) - set trail)"
    by (simp only: card_Diff1_less finite_Diff finite_set)
  then show "((parents, checked, cursor # trail, parent), parents, checked, trail, cursor)
      \<in> measure (\<lambda>(parents, checked, trail, cursor). card (set (map fst parents) - set trail))"
    by simp
qed simp

declare ast_walk.simps [simp del]

fun check_forest :: "(string \<times> string) list \<Rightarrow> string list \<Rightarrow> string list \<Rightarrow> unit res" where
  "check_forest parents [] checked = Inr ()"
| "check_forest parents (node_id # ids) checked =
     r_bind (ast_walk parents checked [] node_id) (\<lambda>trail. check_forest parents ids (trail @ checked))"

definition raw_ownership :: "node_table \<Rightarrow> edge_facts \<Rightarrow> unit res" where
  "raw_ownership nodes facts =
     r_then (check_forest (ast_parents facts) (map fst (ast_parents facts)) [])
     (r_then (r_each (\<lambda>(node_id, _).
        if node_kind nodes node_id \<in> set [''METHOD_PARAMETER_IN'', ''METHOD_PARAMETER_OUT'', ''METHOD_RETURN'']
        then raw_check ''formal/return node must have a direct METHOD AST owner''
               (case map_of (ast_parents facts) node_id of None \<Rightarrow> False | Some owner \<Rightarrow> node_kind nodes owner = ''METHOD'')
        else Inr ()) nodes)
     (r_each (\<lambda>(src, dst).
        case (map_of (ast_parents facts) src, map_of (ast_parents facts) dst) of
          (Some a, Some b) \<Rightarrow> raw_check ''PARAMETER_LINK endpoints must belong to the same method'' (a = b)
        | (None, _) \<Rightarrow> Inl (KeyError src)
        | _ \<Rightarrow> Inl (KeyError dst)) (parameter_links facts)))"

fun read_edges :: "node_table \<Rightarrow> json list \<Rightarrow> edge_facts \<Rightarrow> edge_facts res" where
  "read_edges nodes [] facts = Inr facts"
| "read_edges nodes (v # vs) facts = r_bind (raw_edge nodes v facts) (read_edges nodes vs)"

definition raw_edges :: "json \<Rightarrow> node_table \<Rightarrow> edge_facts res" where
  "raw_edges v nodes =
     r_bind (raw_array v ''edges'') (\<lambda>vs.
     r_bind (read_edges nodes vs \<lparr>ast_parents = [], parameter_links = []\<rparr>) (\<lambda>facts.
     r_then (raw_ownership nodes facts) (Inr facts)))"

section \<open>Documents\<close>

definition RAW_CAPS :: "string list" where
  "RAW_CAPS = [''raw_nodes'', ''raw_edges'', ''typed_properties'']"

definition DERIVED_CAPS :: "string list" where
  "DERIVED_CAPS = [''call_target_completeness'', ''actual_formal_binding'', ''return_result_binding'',
     ''effect_analysis'', ''purity_certification'']"

definition raw_capability :: "string \<Rightarrow> string \<times> json \<Rightarrow> unit res" where
  "raw_capability status entry =
     (case entry of (name, v) \<Rightarrow>
        r_bind (raw_shape v [''status'', ''reason''] (''capability '' @ name)) (\<lambda>capability.
        r_then (raw_check (''invalid certainty for capability '' @ name)
          (jfield capability ''status'' = JStr (if name \<in> set RAW_CAPS then status else ''unsupported'')))
        (forget (raw_string True (jfield capability ''reason'') (''capability '' @ name @ ''.reason'')))))"

definition raw_failure :: "row \<Rightarrow> bool \<Rightarrow> unit res" where
  "raw_failure document require_completed =
     r_then (raw_check ''failed export cannot publish partially complete arrays''
       (jfield document ''nodes'' = JNull \<and> jfield document ''edges'' = JNull))
     (r_bind (raw_shape (jfield document ''error'') [''code'', ''message''] ''error'') (\<lambda>error.
      r_then (raw_check ''unknown export error code'' (jfield error ''code'' = JStr ''raw-export-failed''))
      (r_then (forget (raw_string True (jfield error ''message'') ''error.message''))
      (if require_completed then Inl (RawExportFailedError ''raw export failed; no completed graph is available'') else Inr ()))))"

definition validate_raw_export :: "(bytes \<Rightarrow> bytes) \<Rightarrow> bool \<Rightarrow> json \<Rightarrow> unit res" where
  "validate_raw_export sha256 require_completed v =
     r_bind (raw_shape v [''format'', ''format_version'', ''status'', ''producer'', ''capabilities'', ''nodes'', ''edges'',
       ''error''] ''raw export'') (\<lambda>document.
     r_then (raw_check ''unsupported export format'' (jfield document ''format'' = JStr ''scanipy-joern-export''))
     (r_then (raw_check ''unsupported raw export version'' (jfield document ''format_version'' = JInt 2))
     (r_bind (raw_producer sha256 (jfield document ''producer'')) (\<lambda>frontend.
      r_bind (raw_string True (jfield document ''status'') ''status'') (\<lambda>status.
      r_then (raw_check ''unsupported export status'' (status \<in> set [''completed'', ''failed'']))
      (r_bind (raw_shape (jfield document ''capabilities'') (RAW_CAPS @ DERIVED_CAPS) ''capabilities'') (\<lambda>capabilities.
       r_then (r_each (raw_capability status) capabilities)
       (if status = ''failed'' then raw_failure document require_completed
        else r_then (raw_check ''completed export cannot contain an error'' (jfield document ''error'' = JNull))
          (r_bind (raw_nodes (jfield document ''nodes'') frontend) (\<lambda>nodes.
           forget (raw_edges (jfield document ''edges'') nodes)))))))))))"

end
