(* ===== verification/Observed_Graph.thy ===== *)
theory Observed_Graph
  imports Raw_Export "HOL-Library.AList"
begin

text \<open>
  \<open>analysis/cpg_ingest/typed_observed.py\<close>: the bounded decoding of a raw export, the count of its
  values and strings, the observed nodes and edges, and the structural views over them (parents,
  owning methods, calls, formals, returns, relations, names).

  The exception classes of the module are \<open>ObservedGraphError\<close> with the stable code.
\<close>

section \<open>Limits\<close>

record observed_limits =
  ol_max_raw_bytes :: int
  ol_max_artifact_bytes :: int
  ol_max_json_bytes :: int
  ol_max_tar_bytes :: int
  ol_max_nodes :: int
  ol_max_edges :: int
  ol_max_source_files :: int
  ol_max_string_bytes :: int
  ol_max_total_string_bytes :: int
  ol_max_json_depth :: int
  ol_max_json_values :: int

definition observed_defaults :: observed_limits where
  "observed_defaults = \<lparr>ol_max_raw_bytes = 16 * 1024 * 1024, ol_max_artifact_bytes = 32 * 1024 * 1024,
     ol_max_json_bytes = 64 * 1024 * 1024, ol_max_tar_bytes = 64 * 1024 * 1024 + 10240, ol_max_nodes = 10000,
     ol_max_edges = 100000, ol_max_source_files = 10000, ol_max_string_bytes = 1024 * 1024,
     ol_max_total_string_bytes = 8 * 1024 * 1024, ol_max_json_depth = 32, ol_max_json_values = 500000\<rparr>"

definition observed_values :: "observed_limits \<Rightarrow> int list" where
  "observed_values l = [ol_max_raw_bytes l, ol_max_artifact_bytes l, ol_max_json_bytes l, ol_max_tar_bytes l,
     ol_max_nodes l, ol_max_edges l, ol_max_source_files l, ol_max_string_bytes l, ol_max_total_string_bytes l,
     ol_max_json_depth l, ol_max_json_values l]"

definition og_check :: "string \<Rightarrow> bool \<Rightarrow> unit res" where
  "og_check code b = (if b then Inr () else Inl (ObservedGraphError code))"

lemma og_check_ok [simp]: "og_check code b = Inr u \<longleftrightarrow> b"
  by (simp add: og_check_def)

definition observed_checked_limits :: "observed_limits \<Rightarrow> observed_limits res" where
  "observed_checked_limits l =
     r_then (r_each (\<lambda>(v, d). og_check ''invalid-limit'' (0 < v \<and> v \<le> d))
       (zip (observed_values l) (observed_values observed_defaults))) (Inr l)"

section \<open>Decoding\<close>

fun observed_unique_object :: "row \<Rightarrow> row \<Rightarrow> json res" where
  "observed_unique_object result [] = Inr (JObj result)"
| "observed_unique_object result ((key, v) # pairs) =
     (if key \<in> set (map fst result) then Inl (ObservedGraphError ''duplicate-key'')
      else observed_unique_object (result @ [(key, v)]) pairs)"

definition reject_number :: "string \<Rightarrow> json res" where
  "reject_number s = Inl (ObservedGraphError ''invalid-number'')"

text \<open>The default \<open>parse_int\<close>: \<open>int\<close>, which refuses more than 4300 digits.\<close>

definition default_int :: "string \<Rightarrow> json res" where
  "default_int s =
     (if 4300 < int (length (dropWhile (\<lambda>c. c = CHR ''-'') s))
      then Inl (ValueError ''Exceeds the limit (4300 digits) for integer string conversion'')
      else Inr (JInt (int_value s)))"

definition observed_hooks :: json_hooks where
  "observed_hooks = \<lparr>parse_int = default_int, parse_float = reject_number, parse_constant = reject_number,
     object_pairs_hook = observed_unique_object []\<rparr>"

text \<open>The scan of the container depth: the depth, and whether a string or an escape is open.\<close>

fun depth_scan :: "int \<Rightarrow> bytes \<Rightarrow> int \<Rightarrow> bool \<Rightarrow> bool \<Rightarrow> unit res" where
  "depth_scan max_depth [] depth quoted escaped = Inr ()"
| "depth_scan max_depth (c # s) depth quoted escaped =
     (if quoted then
        (if escaped then depth_scan max_depth s depth True False
         else if c = CHR 0x5C then depth_scan max_depth s depth True True
         else depth_scan max_depth s depth (c \<noteq> CHR 0x22) False)
      else if c = CHR 0x22 then depth_scan max_depth s depth True escaped
      else if c = CHR ''['' \<or> c = CHR ''{'' then
        (if max_depth < depth + 1 then Inl (ObservedGraphError ''depth-limit'')
         else depth_scan max_depth s (depth + 1) False escaped)
      else if c = CHR '']'' \<or> c = CHR ''}'' then depth_scan max_depth s (depth - 1) False escaped
      else depth_scan max_depth s depth False escaped)"

text \<open>The \<open>except\<close> clause: the parser's failure and the \<open>ValueError\<close> of \<open>int\<close> are invalid JSON.\<close>

definition as_observed_error :: "json res \<Rightarrow> json res" where
  "as_observed_error x =
     (case x of
        Inr v \<Rightarrow> Inr v
      | Inl e \<Rightarrow> Inl (case e of
          JSONDecodeError \<Rightarrow> ObservedGraphError ''invalid-json''
        | ValueError _ \<Rightarrow> ObservedGraphError ''invalid-json''
        | _ \<Rightarrow> e))"

lemma as_observed_error_Inr [simp]: "as_observed_error x = Inr v \<longleftrightarrow> x = Inr v"
  by (cases x) (auto simp: as_observed_error_def)

definition decode_json_bytes :: "bytes \<Rightarrow> int \<Rightarrow> int \<Rightarrow> json res" where
  "decode_json_bytes data max_bytes max_depth =
     r_then (og_check ''byte-limit'' (int (length data) \<le> max_bytes))
     (r_then (depth_scan max_depth data 0 False False)
     (if utf8_valid data then as_observed_error (loads observed_hooks data)
      else Inl (ObservedGraphError ''invalid-json'')))"

section \<open>Bounds of the whole document\<close>

text \<open>The texts of one value; a dictionary's keys, a string itself.\<close>

definition own_texts :: "json \<Rightarrow> string list" where
  "own_texts v = (case v of JObj kvs \<Rightarrow> map fst kvs | JStr s \<Rightarrow> [s] | _ \<Rightarrow> [])"

definition own_children :: "json \<Rightarrow> json list" where
  "own_children v = (case v of JObj kvs \<Rightarrow> map snd kvs | JArr xs \<Rightarrow> xs | _ \<Rightarrow> [])"

fun count_texts :: "observed_limits \<Rightarrow> string list \<Rightarrow> nat \<Rightarrow> nat res" where
  "count_texts l [] strings = Inr strings"
| "count_texts l (s # ss) strings =
     r_then (og_check ''invalid-utf8'' (\<not> has_surrogate s))
     (r_then (og_check ''string-limit''
        (int (length s) \<le> ol_max_string_bytes l \<and> int (strings + length s) \<le> ol_max_total_string_bytes l))
     (count_texts l ss (strings + length s)))"

lemma own_children_smaller: "sum_list (map json_nodes (own_children v)) < json_nodes v"
  by (cases v) (simp_all add: own_children_def json_nodes_map_snd)

text \<open>The loop over \<open>pending\<close>; the head of the list is the end of \<open>pending\<close>.\<close>

function count_values :: "observed_limits \<Rightarrow> json list \<Rightarrow> nat \<Rightarrow> nat \<Rightarrow> unit res" where
  "count_values l [] values strings = Inr ()"
| "count_values l (v # pending) values strings =
     r_then (og_check ''value-limit'' (int (values + 1) \<le> ol_max_json_values l))
     (r_bind (count_texts l (own_texts v) strings) (\<lambda>strings'.
       count_values l (rev (own_children v) @ pending) (values + 1) strings'))"
  by pat_completeness auto

termination
proof (relation "measure (\<lambda>(l, pending, values, strings). sum_list (map json_nodes pending))")
  fix l v pending n strings x
  show "((l, rev (own_children v) @ pending, n + 1, x), l, v # pending, n, strings)
      \<in> measure (\<lambda>(l, pending, values, strings). sum_list (map json_nodes pending))"
    using own_children_smaller [of v] by (simp add: rev_map [symmetric] sum_list_rev)
qed simp

definition array_within :: "string \<Rightarrow> json \<Rightarrow> int \<Rightarrow> unit res" where
  "array_within code v maximum = (case v of JArr xs \<Rightarrow> og_check code (int (length xs) \<le> maximum) | _ \<Rightarrow> Inr ())"

definition bound_document :: "observed_limits \<Rightarrow> json \<Rightarrow> unit res" where
  "bound_document l v =
     r_then (count_values l [v] 0 0)
     (case v of
        JObj document \<Rightarrow>
          r_then (array_within ''graph-count-limit'' (jfield document ''nodes'') (ol_max_nodes l))
          (r_then (array_within ''graph-count-limit'' (jfield document ''edges'') (ol_max_edges l))
          (case jfield document ''producer'' of
             JObj producer \<Rightarrow>
               (case jfield producer ''source'' of
                  JObj source \<Rightarrow> array_within ''source-count-limit'' (jfield source ''files'') (ol_max_source_files l)
                | _ \<Rightarrow> Inr ())
           | _ \<Rightarrow> Inr ()))
      | _ \<Rightarrow> Inr ())"

text \<open>\<open>part in text\<close>\<close>

fun occurs_in :: "string \<Rightarrow> string \<Rightarrow> bool" where
  "occurs_in part [] \<longleftrightarrow> part = []"
| "occurs_in part (c # s) \<longleftrightarrow> take (length part) (c # s) = part \<or> occurs_in part s"

text \<open>The translation of the validator's exceptions.\<close>

definition classify_raw_error :: "py_error \<Rightarrow> py_error" where
  "classify_raw_error e =
     (case e of
        RawExportFailedError m \<Rightarrow> ObservedGraphError ''raw-incomplete''
      | RawExportError m \<Rightarrow>
          if occurs_in ''unsupported'' m \<or> occurs_in ''unknown property'' m
          then ObservedGraphError ''raw-unsupported'' else ObservedGraphError ''raw-schema''
      | ValueError m \<Rightarrow> ObservedGraphError ''raw-value''
      | _ \<Rightarrow> e)"

definition validate_document :: "(bytes \<Rightarrow> bytes) \<Rightarrow> observed_limits \<Rightarrow> json \<Rightarrow> json res" where
  "validate_document sha256 l v =
     r_then (bound_document l v)
     (case validate_raw_export sha256 True v of Inr _ \<Rightarrow> Inr v | Inl e \<Rightarrow> Inl (classify_raw_error e))"

section \<open>Observed nodes and edges\<close>

record property_observation =
  po_name :: string
  po_native_type :: native_type
  po_cardinality :: cardinality
  po_presence :: string
  po_value :: frozen

record observed_node =
  on_node_id :: string
  on_kind :: string
  on_properties :: "property_observation list"
  on_missing_properties :: "string list"

record observed_edge =
  oe_ordinal :: nat
  oe_src :: string
  oe_dst :: string
  oe_kind :: string
  oe_properties :: frozen

definition json_text :: "json \<Rightarrow> string" where
  "json_text v = (case v of JStr s \<Rightarrow> s | _ \<Rightarrow> [])"

definition json_items_of :: "json \<Rightarrow> json list" where
  "json_items_of v = (case v of JArr xs \<Rightarrow> xs | _ \<Rightarrow> [])"

definition json_row :: "json \<Rightarrow> row" where
  "json_row v = (case v of JObj kvs \<Rightarrow> kvs | _ \<Rightarrow> [])"

definition absent_presence :: "cardinality \<Rightarrow> string" where
  "absent_presence quantity =
     (case quantity of One \<Rightarrow> ''missing_required'' | Optional \<Rightarrow> ''absent_optional'' | Many \<Rightarrow> ''absent_many'')"

definition observe_property :: "row \<Rightarrow> string \<times> native_type \<times> cardinality \<Rightarrow> property_observation res" where
  "observe_property properties entry =
     (case entry of (name, native, quantity) \<Rightarrow>
        (case map_of properties name of
           Some v \<Rightarrow> r_bind (freeze_value v) (\<lambda>f. Inr \<lparr>po_name = name, po_native_type = native,
             po_cardinality = quantity, po_presence = ''present'', po_value = f\<rparr>)
         | None \<Rightarrow> Inr \<lparr>po_name = name, po_native_type = native, po_cardinality = quantity,
             po_presence = absent_presence quantity, po_value = FNull\<rparr>))"

definition observe_node :: "json \<Rightarrow> observed_node res" where
  "observe_node v =
     (let node = json_row v; kind = json_text (jfield node ''kind''); properties = json_row (jfield node ''properties'') in
      case map_of NODE_PROPERTIES kind of
        None \<Rightarrow> Inl (KeyError kind)
      | Some schema \<Rightarrow>
          r_bind (r_map (observe_property properties) (sort_key fst schema)) (\<lambda>observations.
          Inr \<lparr>on_node_id = json_text (jfield node ''id''), on_kind = kind, on_properties = observations,
               on_missing_properties = map json_text (json_items_of (jfield node ''missing_properties''))\<rparr>))"

definition observe_nodes :: "row \<Rightarrow> observed_node list res" where
  "observe_nodes document = r_map observe_node (json_items_of (jfield document ''nodes''))"

definition observe_edge :: "nat \<times> json \<Rightarrow> observed_edge res" where
  "observe_edge entry =
     (case entry of (index, v) \<Rightarrow>
        r_bind (freeze_value (jfield (json_row v) ''properties'')) (\<lambda>properties.
        Inr \<lparr>oe_ordinal = index, oe_src = json_text (jfield (json_row v) ''src''),
             oe_dst = json_text (jfield (json_row v) ''dst''), oe_kind = json_text (jfield (json_row v) ''kind''),
             oe_properties = properties\<rparr>))"

definition observe_edges :: "row \<Rightarrow> observed_edge list res" where
  "observe_edges document = r_map observe_edge (List.enumerate 0 (json_items_of (jfield document ''edges'')))"

text \<open>\<open>ObservedNode.property\<close>\<close>

definition node_property :: "observed_node \<Rightarrow> string \<Rightarrow> property_observation res" where
  "node_property n name =
     (case List.find (\<lambda>p. po_name p = name) (on_properties n) of None \<Rightarrow> Inl (KeyError name) | Some p \<Rightarrow> Inr p)"

section \<open>Indexes of the edges\<close>

text \<open>\<open>d.setdefault(k, []).append(x)\<close> and \<open>d.get(k, ())\<close>\<close>

fun append_at :: "'k \<Rightarrow> 'v \<Rightarrow> ('k \<times> 'v list) list \<Rightarrow> ('k \<times> 'v list) list" where
  "append_at k x [] = [(k, [x])]"
| "append_at k x ((j, ys) # d) = (if j = k then (j, ys @ [x]) # d else (j, ys) # append_at k x d)"

definition get_list :: "('k \<times> 'v list) list \<Rightarrow> 'k \<Rightarrow> 'v list" where
  "get_list d k = (case map_of d k of None \<Rightarrow> [] | Some xs \<Rightarrow> xs)"

record edge_index =
  ix_outgoing :: "((string \<times> string) \<times> nat list) list"
  ix_incoming_links :: "(string \<times> nat list) list"
  ix_parents :: "(string \<times> string) list"
  ix_parent_edges :: "(string \<times> nat list) list"

definition index_observed_edge :: "observed_edge \<Rightarrow> edge_index \<Rightarrow> edge_index" where
  "index_observed_edge e ix =
     (let ix = ix\<lparr>ix_outgoing := append_at (oe_src e, oe_kind e) (oe_ordinal e) (ix_outgoing ix)\<rparr> in
      if oe_kind e = ''AST''
      then ix\<lparr>ix_parents := AList.update (oe_dst e) (oe_src e) (ix_parents ix),
              ix_parent_edges := append_at (oe_dst e) (oe_ordinal e) (ix_parent_edges ix)\<rparr>
      else if oe_kind e = ''PARAMETER_LINK''
      then ix\<lparr>ix_incoming_links := append_at (oe_dst e) (oe_ordinal e) (ix_incoming_links ix)\<rparr>
      else ix)"

definition index_edges :: "observed_edge list \<Rightarrow> edge_index" where
  "index_edges es = fold index_observed_edge es
     \<lparr>ix_outgoing = [], ix_incoming_links = [], ix_parents = [], ix_parent_edges = []\<rparr>"

section \<open>Owning methods\<close>

type_synonym owners = "(string \<times> string option) list"

text \<open>
  \<open>while cursor not in owners\<close>: the walk up to the nearest method, an already owned node or a root. It
  returns the owners, the trail and the node it stopped at. The first argument bounds the walk.
\<close>

fun owner_walk :: "nat \<Rightarrow> (string \<times> string) list \<Rightarrow> (string \<times> string) list \<Rightarrow> owners \<Rightarrow> string list \<Rightarrow> string
    \<Rightarrow> (owners \<times> string list \<times> string) res" where
  "owner_walk fuel kinds parents owned trail cursor =
     (if cursor \<in> set (map fst owned) then Inr (owned, trail, cursor)
      else case fuel of
        0 \<Rightarrow> Inl OutOfFuel
      | Suc fuel' \<Rightarrow>
          (case map_of kinds cursor of
             None \<Rightarrow> Inl (KeyError cursor)
           | Some kind \<Rightarrow>
               if kind = ''METHOD'' then Inr ((cursor, Some cursor) # owned, trail, cursor)
               else (case map_of parents cursor of
                       None \<Rightarrow> Inr ((cursor, None) # owned, trail @ [cursor], cursor)
                     | Some parent \<Rightarrow> owner_walk fuel' kinds parents owned (trail @ [cursor]) parent)))"

declare owner_walk.simps [simp del]

fun find_owners :: "(string \<times> string) list \<Rightarrow> (string \<times> string) list \<Rightarrow> string list \<Rightarrow> owners \<Rightarrow> owners res" where
  "find_owners kinds parents [] owned = Inr owned"
| "find_owners kinds parents (node_id # ids) owned =
     r_bind (owner_walk (Suc (length parents)) kinds parents owned [] node_id) (\<lambda>(owned', trail, cursor).
     find_owners kinds parents ids
       (fold (\<lambda>descendant o'. AList.update descendant (dget owned' cursor) o') trail owned'))"

section \<open>Views\<close>

record ast_parent =
  ap_node_id :: string
  ap_parent_id :: string
  ap_edge_ordinals :: "nat list"

record method_ownership =
  mo_node_id :: string
  mo_method_id :: "string option"
  mo_status :: string

record method_view =
  mv_node_id :: string
  mv_outer_method_id :: "string option"
  mv_formal_input_edges :: "nat list"
  mv_formal_output_edges :: "nat list"
  mv_method_return_edges :: "nat list"
  mv_modifier_edges :: "nat list"

record call_view =
  cv_node_id :: string
  cv_target_edges :: "nat list"
  cv_receiver_edges :: "nat list"
  cv_actual_edges :: "nat list"
  cv_binding_status :: string

record formal_view =
  fv_node_id :: string
  fv_method_id :: string
  fv_direction :: string
  fv_parameter_link_edges :: "nat list"

record return_view =
  rv_node_id :: string
  rv_expression_edges :: "nat list"
  rv_exit_edges :: "nat list"

record node_relations =
  nr_node_id :: string
  nr_ast_children :: "nat list"
  nr_declaration_references :: "nat list"
  nr_evaluation_types :: "nat list"
  nr_captures :: "nat list"
  nr_bindings :: "nat list"
  nr_inherits_from :: "nat list"
  nr_cfg :: "nat list"
  nr_cdg :: "nat list"
  nr_reaching_definitions :: "nat list"

record structural_views =
  sv_ast_parents :: "ast_parent list"
  sv_ownership :: "method_ownership list"
  sv_methods :: "method_view list"
  sv_calls :: "call_view list"
  sv_formals :: "formal_view list"
  sv_returns :: "return_view list"
  sv_relations :: "node_relations list"
  sv_full_names :: "(string \<times> string list) list"

record view_input =
  vi_edges :: "observed_edge list"
  vi_kinds :: "(string \<times> string) list"
  vi_index :: edge_index
  vi_owners :: owners

definition edge_refs :: "view_input \<Rightarrow> string \<Rightarrow> string \<Rightarrow> nat list" where
  "edge_refs vi node_id kind = get_list (ix_outgoing (vi_index vi)) (node_id, kind)"

text \<open>\<open>by_id[edges[ordinal].dst].kind\<close>\<close>

definition target_kind :: "view_input \<Rightarrow> nat \<Rightarrow> string" where
  "target_kind vi ordinal = dget (vi_kinds vi) (oe_dst (vi_edges vi ! ordinal))"

definition child_edges :: "view_input \<Rightarrow> string \<Rightarrow> (string \<times> nat list) list" where
  "child_edges vi node_id =
     fold (\<lambda>ordinal children. append_at (target_kind vi ordinal) ordinal children) (edge_refs vi node_id ''AST'') []"

definition make_method_view :: "view_input \<Rightarrow> string \<Rightarrow> method_view" where
  "make_method_view vi node_id =
     (let children = child_edges vi node_id;
          parent = (case map_of (ix_parents (vi_index vi)) node_id of None \<Rightarrow> [] | Some p \<Rightarrow> p) in
      \<lparr>mv_node_id = node_id,
       mv_outer_method_id = (case map_of (vi_owners vi) parent of None \<Rightarrow> None | Some owner \<Rightarrow> owner),
       mv_formal_input_edges = get_list children ''METHOD_PARAMETER_IN'',
       mv_formal_output_edges = get_list children ''METHOD_PARAMETER_OUT'',
       mv_method_return_edges = get_list children ''METHOD_RETURN'',
       mv_modifier_edges = get_list children ''MODIFIER''\<rparr>)"

definition make_call_view :: "view_input \<Rightarrow> string \<Rightarrow> call_view" where
  "make_call_view vi node_id =
     \<lparr>cv_node_id = node_id, cv_target_edges = edge_refs vi node_id ''CALL'',
      cv_receiver_edges = edge_refs vi node_id ''RECEIVER'', cv_actual_edges = edge_refs vi node_id ''ARGUMENT'',
      cv_binding_status = ''unsupported''\<rparr>"

definition make_formal_view :: "view_input \<Rightarrow> string \<Rightarrow> string \<Rightarrow> formal_view res" where
  "make_formal_view vi kind node_id =
     (case map_of (ix_parents (vi_index vi)) node_id of
        None \<Rightarrow> Inl (KeyError node_id)
      | Some p \<Rightarrow> Inr \<lparr>fv_node_id = node_id, fv_method_id = p, fv_direction = kind,
          fv_parameter_link_edges = edge_refs vi node_id ''PARAMETER_LINK'' @ get_list (ix_incoming_links (vi_index vi)) node_id\<rparr>)"

definition make_return_view :: "view_input \<Rightarrow> string \<Rightarrow> return_view" where
  "make_return_view vi node_id =
     \<lparr>rv_node_id = node_id, rv_expression_edges = edge_refs vi node_id ''ARGUMENT'',
      rv_exit_edges = filter (\<lambda>ordinal. target_kind vi ordinal = ''METHOD_RETURN'') (edge_refs vi node_id ''CFG'')\<rparr>"

definition make_relations :: "view_input \<Rightarrow> string \<Rightarrow> node_relations" where
  "make_relations vi node_id =
     \<lparr>nr_node_id = node_id, nr_ast_children = edge_refs vi node_id ''AST'',
      nr_declaration_references = edge_refs vi node_id ''REF'', nr_evaluation_types = edge_refs vi node_id ''EVAL_TYPE'',
      nr_captures = edge_refs vi node_id ''CAPTURE'', nr_bindings = edge_refs vi node_id ''BINDS'',
      nr_inherits_from = edge_refs vi node_id ''INHERITS_FROM'', nr_cfg = edge_refs vi node_id ''CFG'',
      nr_cdg = edge_refs vi node_id ''CDG'', nr_reaching_definitions = edge_refs vi node_id ''REACHING_DEF''\<rparr>"

text \<open>\<open>names.setdefault(full_name.value, []).append(node_id)\<close> for the methods that have a full name.\<close>

definition add_full_name :: "observed_node \<Rightarrow> (string \<times> string list) list \<Rightarrow> (string \<times> string list) list res" where
  "add_full_name n names =
     r_bind (node_property n ''FULL_NAME'') (\<lambda>p.
     Inr (case po_value p of
            FStr name \<Rightarrow> if po_presence p = ''present'' then append_at name (on_node_id n) names else names
          | _ \<Rightarrow> names))"

fun read_names :: "observed_node list \<Rightarrow> (string \<times> string list) list \<Rightarrow> (string \<times> string list) list res" where
  "read_names [] names = Inr names"
| "read_names (n # ns) names =
     r_bind (if on_kind n = ''METHOD'' then add_full_name n names else Inr names) (read_names ns)"

definition nodes_of_kinds :: "observed_node list \<Rightarrow> string list \<Rightarrow> observed_node list" where
  "nodes_of_kinds ns kinds = filter (\<lambda>n. on_kind n \<in> set kinds) ns"

definition make_ast_parents :: "view_input \<Rightarrow> observed_node list \<Rightarrow> ast_parent list" where
  "make_ast_parents vi ns =
     concat (map (\<lambda>n. case map_of (ix_parents (vi_index vi)) (on_node_id n) of
        None \<Rightarrow> []
      | Some p \<Rightarrow> [\<lparr>ap_node_id = on_node_id n, ap_parent_id = p,
          ap_edge_ordinals = get_list (ix_parent_edges (vi_index vi)) (on_node_id n)\<rparr>]) ns)"

definition make_ownership :: "owners \<Rightarrow> observed_node list \<Rightarrow> method_ownership list" where
  "make_ownership owned ns =
     map (\<lambda>n. let owner = dget owned (on_node_id n) in
       \<lparr>mo_node_id = on_node_id n, mo_method_id = owner,
        mo_status = (if owner \<noteq> None then ''observed'' else ''no_method_ancestor'')\<rparr>) ns"

definition derive_views :: "observed_node list \<Rightarrow> observed_edge list \<Rightarrow> structural_views res" where
  "derive_views ns es =
     (let ix = index_edges es; kinds = map (\<lambda>n. (on_node_id n, on_kind n)) ns in
      r_bind (find_owners kinds (ix_parents ix) (map on_node_id ns) []) (\<lambda>owned.
      let vi = \<lparr>vi_edges = es, vi_kinds = kinds, vi_index = ix, vi_owners = owned\<rparr> in
      r_bind (r_map (\<lambda>n. make_formal_view vi (on_kind n) (on_node_id n))
        (nodes_of_kinds ns [''METHOD_PARAMETER_IN'', ''METHOD_PARAMETER_OUT''])) (\<lambda>formals.
      r_bind (read_names ns []) (\<lambda>names.
      Inr \<lparr>sv_ast_parents = make_ast_parents vi ns, sv_ownership = make_ownership owned ns,
           sv_methods = map (make_method_view vi \<circ> on_node_id) (nodes_of_kinds ns [''METHOD'']),
           sv_calls = map (make_call_view vi \<circ> on_node_id) (nodes_of_kinds ns [''CALL'']),
           sv_formals = formals,
           sv_returns = map (make_return_view vi \<circ> on_node_id) (nodes_of_kinds ns [''RETURN'']),
           sv_relations = map (make_relations vi \<circ> on_node_id) ns,
           sv_full_names = sort_key fst names\<rparr>))))"

section \<open>The graph\<close>

record observed_graph =
  og_bytes :: bytes
  og_limits :: observed_limits
  og_raw_export_sha256 :: string
  og_producer :: frozen
  og_capabilities :: frozen
  og_nodes :: "observed_node list"
  og_edges :: "observed_edge list"
  og_views :: structural_views
  og_document :: frozen

text \<open>\<open>frozen.get(key)\<close> on the frozen document.\<close>

definition frozen_field :: "frozen \<Rightarrow> string \<Rightarrow> frozen res" where
  "frozen_field f key =
     (case f of
        FObject entries \<Rightarrow> (case frozen_get entries key of None \<Rightarrow> Inl (KeyError key) | Some v \<Rightarrow> Inr v)
      | _ \<Rightarrow> Inl TypeError)"

definition parse_observed_graph :: "(bytes \<Rightarrow> bytes) \<Rightarrow> bytes \<Rightarrow> observed_limits \<Rightarrow> observed_graph res" where
  "parse_observed_graph sha256 data limits =
     r_bind (observed_checked_limits limits) (\<lambda>l.
     r_bind (decode_json_bytes data (ol_max_raw_bytes l) (ol_max_json_depth l)) (\<lambda>v.
     r_bind (validate_document sha256 l v) (\<lambda>document.
     r_bind (freeze_value document) (\<lambda>frozen.
     r_bind (observe_nodes (json_row document)) (\<lambda>ns.
     r_bind (observe_edges (json_row document)) (\<lambda>es.
     r_bind (frozen_field frozen ''producer'') (\<lambda>producer.
     r_bind (frozen_field frozen ''capabilities'') (\<lambda>capabilities.
     r_bind (derive_views ns es) (\<lambda>views.
     Inr \<lparr>og_bytes = data, og_limits = limits, og_raw_export_sha256 = ''sha256:'' @ hex (sha256 data),
          og_producer = producer, og_capabilities = capabilities, og_nodes = ns, og_edges = es, og_views = views,
          og_document = frozen\<rparr>)))))))))"

definition validate_observed_graph :: "(bytes \<Rightarrow> bytes) \<Rightarrow> observed_graph \<Rightarrow> unit res" where
  "validate_observed_graph sha256 g =
     r_bind (observed_checked_limits (og_limits g)) (\<lambda>l.
     r_bind (parse_observed_graph sha256 (og_bytes g) l) (\<lambda>expected.
     og_check ''inconsistent-graph'' (g = expected)))"

definition to_raw_document :: "(bytes \<Rightarrow> bytes) \<Rightarrow> observed_graph \<Rightarrow> json res" where
  "to_raw_document sha256 g = r_then (validate_observed_graph sha256 g) (Inr (thaw_value (og_document g)))"

text \<open>Lookups.\<close>

definition observed_node_at :: "observed_graph \<Rightarrow> string \<Rightarrow> observed_node res" where
  "observed_node_at g node_id =
     (case List.find (\<lambda>n. on_node_id n = node_id) (og_nodes g) of None \<Rightarrow> Inl (KeyError node_id) | Some n \<Rightarrow> Inr n)"

definition observed_owner :: "observed_graph \<Rightarrow> string \<Rightarrow> method_ownership res" where
  "observed_owner g node_id =
     (case List.find (\<lambda>o'. mo_node_id o' = node_id) (sv_ownership (og_views g)) of
        None \<Rightarrow> Inl (KeyError node_id) | Some o' \<Rightarrow> Inr o')"

definition methods_by_full_name :: "observed_graph \<Rightarrow> string \<Rightarrow> string list" where
  "methods_by_full_name g full_name = get_list (sv_full_names (og_views g)) full_name"

text \<open>The property is present with exactly the given value.\<close>

definition has_property :: "observed_node \<Rightarrow> string \<Rightarrow> frozen \<Rightarrow> bool" where
  "has_property n name v =
     (case node_property n name of Inr p \<Rightarrow> po_presence p = ''present'' \<and> po_value p = v | Inl _ \<Rightarrow> False)"

definition methods_at_source :: "observed_graph \<Rightarrow> string \<Rightarrow> int \<Rightarrow> string list" where
  "methods_at_source g filename line =
     map on_node_id (filter (\<lambda>n. on_kind n = ''METHOD'' \<and> has_property n ''FILENAME'' (FStr filename) \<and>
       has_property n ''LINE_NUMBER'' (FInt line)) (og_nodes g))"

end
