(* ===== verification/Observed_Contract.thy ===== *)
theory Observed_Contract
  imports Observed_Graph
begin

text \<open>
  What an accepted raw export guarantees, and what the views over it say: the AST is a forest, and
  the owner of a node is the nearest method at or above it.
\<close>

section \<open>The AST is a forest\<close>

definition parent_rel :: "(string \<times> string) list \<Rightarrow> (string \<times> string) set" where
  "parent_rel parents = {(c, p). map_of parents c = Some p}"

lemma parent_rel_finite: "finite (parent_rel parents)"
proof (rule finite_subset)
  show "parent_rel parents \<subseteq> set parents" by (auto simp: parent_rel_def dest: map_of_SomeD)
qed simp

text \<open>The walk up from a node ends at a node without a parent.\<close>

inductive grounded :: "(string \<times> string) list \<Rightarrow> string \<Rightarrow> bool" for parents where
  root: "map_of parents c = None \<Longrightarrow> grounded parents c"
| child: "map_of parents c = Some p \<Longrightarrow> grounded parents p \<Longrightarrow> grounded parents c"

lemma grounded_no_cycle: "grounded parents c \<Longrightarrow> (c, c) \<notin> (parent_rel parents)\<^sup>+"
proof (induction rule: grounded.induct)
  case (root c)
  then show ?case by (auto simp: parent_rel_def dest: tranclD)
next
  case (child c p)
  show ?case
  proof
    assume "(c, c) \<in> (parent_rel parents)\<^sup>+"
    then obtain q where "(c, q) \<in> parent_rel parents" "(q, c) \<in> (parent_rel parents)\<^sup>*" by (auto dest: tranclD)
    with child(1) have "(p, c) \<in> (parent_rel parents)\<^sup>*" "(c, p) \<in> parent_rel parents" by (auto simp: parent_rel_def)
    then have "(p, p) \<in> (parent_rel parents)\<^sup>+" by (rule rtrancl_into_trancl1)
    with child.IH show False ..
  qed
qed

lemma acyclic_grounded: "acyclic (parent_rel parents) \<longleftrightarrow> (\<forall>c. grounded parents c)"
proof
  assume "acyclic (parent_rel parents)"
  then have wf: "wf ((parent_rel parents)\<inverse>)"
    using parent_rel_finite by (simp add: finite_acyclic_wf_converse)
  show "\<forall>c. grounded parents c"
  proof
    fix c show "grounded parents c"
      using wf
    proof (induction c rule: wf_induct_rule)
      case (less c)
      then show ?case by (cases "map_of parents c") (auto simp: parent_rel_def intro: grounded.intros)
    qed
  qed
qed (auto simp: acyclic_def dest: grounded_no_cycle)

text \<open>The walk of the validator, with the nodes it already checked.\<close>

lemma ast_walk_grounds:
  assumes "ast_walk parents checked trail c = Inr t" and "\<forall>x \<in> set checked. grounded parents x"
  shows "grounded parents c \<and> (\<forall>x \<in> set t - set trail. grounded parents x) \<and> (map_of parents c = None \<or> c \<in> set checked \<or> c \<in> set t)
     \<and> set trail \<subseteq> set t"
  using assms
proof (induction parents checked trail c arbitrary: t rule: ast_walk.induct)
  case (1 parents checked trail c)
  show ?case
  proof (cases "map_of parents c")
    case None
    with 1(2) show ?thesis by (auto simp: ast_walk.simps intro: root)
  next
    case (Some p)
    show ?thesis
    proof (cases "c \<in> set checked")
      case True
      with 1(2,3) Some show ?thesis by (auto simp: ast_walk.simps)
    next
      case False
      with 1(2) Some have "c \<notin> set trail" and w: "ast_walk parents checked (c # trail) p = Inr t"
        by (auto simp: ast_walk.simps [of parents checked trail c] split: if_splits)
      from 1(1) [OF Some False this(1) w 1(3)] Some show ?thesis by (auto intro: child)
    qed
  qed
qed

lemma ast_walk_accepts:
  assumes "acyclic (parent_rel parents)" and "\<forall>x \<in> set trail. (x, c) \<in> (parent_rel parents)\<^sup>+"
  shows "\<exists>t. ast_walk parents checked trail c = Inr t"
  using assms
proof (induction parents checked trail c rule: ast_walk.induct)
  case (1 parents checked trail c)
  show ?case
  proof (cases "map_of parents c = None \<or> c \<in> set checked")
    case True
    then show ?thesis by (auto simp: ast_walk.simps [of parents checked trail c] split: option.splits)
  next
    case False
    then obtain p where p: "map_of parents c = Some p" "c \<notin> set checked" by auto
    have trail: "c \<notin> set trail" using 1(2,3) by (auto simp: acyclic_def)
    have "(c, p) \<in> parent_rel parents" using p by (simp add: parent_rel_def)
    then have "\<forall>x \<in> set (c # trail). (x, p) \<in> (parent_rel parents)\<^sup>+"
      using 1(3) by (auto intro: trancl_into_trancl)
    from 1(1) [OF p trail 1(2) this] p trail show ?thesis
      by (simp add: ast_walk.simps [of parents checked trail c])
  qed
qed

lemma check_forest_grounds:
  assumes "check_forest parents ids checked = Inr ()" and "\<forall>x \<in> set checked. grounded parents x"
  shows "\<forall>x \<in> set ids. grounded parents x"
  using assms
proof (induction ids arbitrary: checked)
  case (Cons c ids)
  obtain t where t: "ast_walk parents checked [] c = Inr t" "check_forest parents ids (t @ checked) = Inr ()"
    using Cons.prems(1) by (auto simp: r_bind_Inr_iff)
  from ast_walk_grounds [OF t(1) Cons.prems(2)] have "grounded parents c" "\<forall>x \<in> set (t @ checked). grounded parents x"
    using Cons.prems(2) by auto
  with Cons.IH [OF t(2)] show ?case by simp
qed simp

lemma check_forest_accepts: "acyclic (parent_rel parents) \<Longrightarrow> check_forest parents ids checked = Inr ()"
proof (induction ids arbitrary: checked)
  case (Cons c ids)
  obtain t where "ast_walk parents checked [] c = Inr t"
    using ast_walk_accepts [OF Cons.prems, of "[]" c checked] by auto
  with Cons show ?case by simp
qed simp

lemma check_forest_iff: "check_forest parents (map fst parents) [] = Inr () \<longleftrightarrow> acyclic (parent_rel parents)"
proof
  assume "check_forest parents (map fst parents) [] = Inr ()"
  from check_forest_grounds [OF this] have "grounded parents c" if "c \<in> fst ` set parents" for c using that by auto
  moreover have "grounded parents c" if "c \<notin> fst ` set parents" for c
    using that by (auto intro: root simp: map_of_eq_None_iff)
  ultimately show "acyclic (parent_rel parents)" unfolding acyclic_grounded by blast
qed (rule check_forest_accepts)

section \<open>The nearest method\<close>

text \<open>The reference: the nearest method at or above a node on its chain of parents.\<close>

inductive nearest_method :: "(string \<times> string) list \<Rightarrow> (string \<times> string) list \<Rightarrow> string \<Rightarrow> string option \<Rightarrow> bool"
  for kinds parents where
  is_method: "map_of kinds c = Some ''METHOD'' \<Longrightarrow> nearest_method kinds parents c (Some c)"
| no_parent: "map_of kinds c \<noteq> Some ''METHOD'' \<Longrightarrow> map_of parents c = None \<Longrightarrow> nearest_method kinds parents c None"
| above: "map_of kinds c \<noteq> Some ''METHOD'' \<Longrightarrow> map_of parents c = Some p \<Longrightarrow> nearest_method kinds parents p m
     \<Longrightarrow> nearest_method kinds parents c m"

inductive_cases nearest_methodE: "nearest_method kinds parents c m"

lemma nearest_method_unique:
  "nearest_method kinds parents c m \<Longrightarrow> nearest_method kinds parents c n \<Longrightarrow> m = n"
proof (induction arbitrary: n rule: nearest_method.induct)
  case (above c p m)
  from above(5) have "nearest_method kinds parents p n"
    by (rule nearest_methodE) (simp_all add: above(1,2))
  then show ?case by (rule above(4))
qed (auto elim: nearest_methodE)

definition owners_ok :: "(string \<times> string) list \<Rightarrow> (string \<times> string) list \<Rightarrow> owners \<Rightarrow> bool" where
  "owners_ok kinds parents owned \<longleftrightarrow> (\<forall>c m. map_of owned c = Some m \<longrightarrow> nearest_method kinds parents c m)"

definition owns :: "owners \<Rightarrow> string \<Rightarrow> bool" where
  "owns owned c \<longleftrightarrow> c \<in> set (map fst owned)"

lemma owns_map_of: "owns owned c \<longleftrightarrow> (\<exists>m. map_of owned c = Some m)"
  using map_of_eq_None_iff [of owned c] by (cases "map_of owned c") (auto simp: owns_def)

definition climb_ok :: "(string \<times> string) list \<Rightarrow> (string \<times> string) list \<Rightarrow> string list \<Rightarrow> string \<Rightarrow> bool" where
  "climb_ok kinds parents trail c \<longleftrightarrow> distinct trail \<and> set trail \<subseteq> fst ` set parents \<and>
     (\<forall>x \<in> set trail. (x, c) \<in> (parent_rel parents)\<^sup>+) \<and>
     (\<forall>x \<in> set trail. \<forall>m. nearest_method kinds parents c m \<longrightarrow> nearest_method kinds parents x m)"

definition walked :: "(string \<times> string) list \<Rightarrow> (string \<times> string) list \<Rightarrow> owners \<Rightarrow> string list \<Rightarrow> string
    \<Rightarrow> owners \<Rightarrow> string list \<Rightarrow> string \<Rightarrow> bool" where
  "walked kinds parents owned trail c owned' trail' c' \<longleftrightarrow> owners_ok kinds parents owned' \<and> owns owned' c' \<and>
     (\<forall>x. owns owned x \<longrightarrow> owns owned' x) \<and> set trail \<subseteq> set trail' \<and> (c = c' \<or> c \<in> set trail') \<and>
     (\<forall>x \<in> set trail'. \<forall>m. nearest_method kinds parents c' m \<longrightarrow> nearest_method kinds parents x m)"

lemma climb_step:
  assumes "acyclic (parent_rel parents)" and "map_of parents c = Some p" and "map_of kinds c \<noteq> Some ''METHOD''"
    and "climb_ok kinds parents trail c"
  shows "climb_ok kinds parents (trail @ [c]) p"
proof -
  have edge: "(c, p) \<in> parent_rel parents" using assms(2) by (simp add: parent_rel_def)
  have "c \<notin> set trail" using assms(1,4) by (auto simp: climb_ok_def acyclic_def)
  moreover have "c \<in> fst ` set parents" using assms(2) by (force dest: map_of_SomeD)
  moreover have "(x, p) \<in> (parent_rel parents)\<^sup>+" if "x \<in> set (trail @ [c])" for x
    using that edge assms(4) by (auto simp: climb_ok_def intro: trancl_into_trancl)
  moreover have "nearest_method kinds parents c m" if "nearest_method kinds parents p m" for m
    using that assms(2,3) by (auto intro: above)
  ultimately show ?thesis using assms(4) by (auto simp: climb_ok_def)
qed

lemma owner_walk_finds:
  assumes "acyclic (parent_rel parents)" and "owners_ok kinds parents owned"
    and "\<And>x p. x \<in> fst ` set kinds \<Longrightarrow> map_of parents x = Some p \<Longrightarrow> p \<in> fst ` set kinds"
    and "c \<in> fst ` set kinds" and "climb_ok kinds parents trail c" and "length trail + fuel = Suc (length parents)"
  shows "\<exists>owned' trail' c'. owner_walk fuel kinds parents owned trail c = Inr (owned', trail', c')
     \<and> walked kinds parents owned trail c owned' trail' c'"
  using assms(4-6)
proof (induction fuel arbitrary: trail c)
  case 0
  have "card (set trail) \<le> card (fst ` set parents)"
    using 0(2) by (intro card_mono) (auto simp: climb_ok_def)
  also have "\<dots> \<le> length parents" using card_length [of "map fst parents"] by simp
  finally show ?case using 0(2,3) by (simp add: climb_ok_def distinct_card)
next
  case (Suc fuel)
  show ?case
  proof (cases "owns owned c")
    case True
    then have "owner_walk (Suc fuel) kinds parents owned trail c = Inr (owned, trail, c)"
      by (simp add: owner_walk.simps owns_def)
    moreover have "walked kinds parents owned trail c owned trail c"
      using True Suc.prems(2) assms(2) by (simp add: walked_def climb_ok_def)
    ultimately show ?thesis by blast
  next
    case new: False
    obtain kind where kind: "map_of kinds c = Some kind" using Suc.prems(1) map_of_eq_None_iff [of kinds c] by (cases "map_of kinds c") auto
    show ?thesis
    proof (cases "kind = ''METHOD''")
      case True
      then have "owner_walk (Suc fuel) kinds parents owned trail c = Inr ((c, Some c) # owned, trail, c)"
        using new kind by (simp add: owner_walk.simps owns_def)
      moreover have "walked kinds parents owned trail c ((c, Some c) # owned) trail c"
        using True kind Suc.prems(2) assms(2) by (auto simp: walked_def climb_ok_def owners_ok_def owns_def intro: is_method)
      ultimately show ?thesis by blast
    next
      case other: False
      show ?thesis
      proof (cases "map_of parents c")
        case None
        then have "owner_walk (Suc fuel) kinds parents owned trail c = Inr ((c, None) # owned, trail @ [c], c)"
          using new kind other by (simp add: owner_walk.simps owns_def)
        moreover have "walked kinds parents owned trail c ((c, None) # owned) (trail @ [c]) c"
          using None other kind Suc.prems(2) assms(2)
          by (auto simp: walked_def climb_ok_def owners_ok_def owns_def intro: no_parent)
        ultimately show ?thesis by blast
      next
        case (Some p)
        have "climb_ok kinds parents (trail @ [c]) p"
          using climb_step [OF assms(1) Some _ Suc.prems(2)] other kind by simp
        with Suc.IH [of p "trail @ [c]"] Suc.prems(1,3) Some assms(3)
        obtain owned' trail' c' where ih: "owner_walk fuel kinds parents owned (trail @ [c]) p = Inr (owned', trail', c')"
          "walked kinds parents owned (trail @ [c]) p owned' trail' c'" by fastforce
        from ih(2) have "walked kinds parents owned trail c owned' trail' c'" by (auto simp: walked_def)
        moreover have "owner_walk (Suc fuel) kinds parents owned trail c = Inr (owned', trail', c')"
          using ih(1) new kind other Some by (simp add: owner_walk.simps [of "Suc fuel"] owns_def)
        ultimately show ?thesis by blast
      qed
    qed
  qed
qed

lemma fold_update_map_of:
  "map_of (fold (\<lambda>d. AList.update d v) ds owned) x = (if x \<in> set ds then Some v else map_of owned x)"
  by (induction ds arbitrary: owned) (auto simp: AList.update_conv')

lemma find_owners_finds:
  assumes "acyclic (parent_rel parents)"
    and "\<And>x p. x \<in> fst ` set kinds \<Longrightarrow> map_of parents x = Some p \<Longrightarrow> p \<in> fst ` set kinds"
    and "set ids \<subseteq> fst ` set kinds" and "owners_ok kinds parents owned"
  shows "\<exists>owned'. find_owners kinds parents ids owned = Inr owned' \<and> owners_ok kinds parents owned' \<and>
     (\<forall>x. x \<in> set ids \<or> owns owned x \<longrightarrow> owns owned' x)"
  using assms(3,4)
proof (induction ids arbitrary: owned)
  case (Cons c ids)
  have "climb_ok kinds parents [] c" by (simp add: climb_ok_def)
  then have "\<exists>owned' trail' c'. owner_walk (Suc (length parents)) kinds parents owned [] c = Inr (owned', trail', c')
      \<and> walked kinds parents owned [] c owned' trail' c'"
    by (intro owner_walk_finds [OF assms(1) Cons.prems(2)]) (erule (1) assms(2), use Cons.prems(1) in auto)
  then obtain owned1 trail d where w: "owner_walk (Suc (length parents)) kinds parents owned [] c = Inr (owned1, trail, d)"
    "walked kinds parents owned [] c owned1 trail d" by blast
  let ?owned = "fold (\<lambda>x o'. AList.update x (dget owned1 d) o') trail owned1"
  obtain m where m: "map_of owned1 d = Some m" "nearest_method kinds parents d m"
    using w(2) by (auto simp: walked_def owns_map_of owners_ok_def)
  have "owners_ok kinds parents ?owned"
    using w(2) m by (auto simp: owners_ok_def fold_update_map_of walked_def dget_def)
  moreover have keep: "owns ?owned x" if "owns owned x \<or> x = c" for x
    using w(2) m that by (auto simp: walked_def owns_map_of fold_update_map_of)
  ultimately obtain owned' where "find_owners kinds parents ids ?owned = Inr owned'" "owners_ok kinds parents owned'"
    "\<And>x. x \<in> set ids \<or> owns ?owned x \<Longrightarrow> owns owned' x"
    using Cons.IH [of ?owned] Cons.prems(1) by auto
  with w(1) keep show ?case by auto
qed simp

section \<open>Readers\<close>

lemma raw_object_Inr: "raw_object v label = Inr row \<longleftrightarrow> v = JObj row"
  by (cases v) (auto simp: raw_object_def)

lemma raw_shape_Inr: "raw_shape v keys label = Inr row \<longleftrightarrow> v = JObj row \<and> set (map fst row) = set keys"
  by (auto simp: raw_shape_def r_bind_Inr_iff raw_object_Inr)

lemma raw_string_Inr: "raw_string ne v label = Inr s \<longleftrightarrow> v = JStr s \<and> (ne \<longrightarrow> s \<noteq> []) \<and> \<not> has_surrogate s"
  by (cases v) (auto simp: raw_string_def Let_def)

lemma raw_array_Inr: "raw_array v label = Inr xs \<longleftrightarrow> v = JArr xs"
  by (cases v) (auto simp: raw_array_def)

lemma pinned_node_schema_Inr: "pinned_node_schema kind = Inr s \<longleftrightarrow> map_of NODE_PROPERTIES kind = Some s"
  by (auto simp: pinned_node_schema_def split: option.splits)

lemmas raw_Inr = r_bind_Inr_iff pinned_node_schema_Inr raw_object_Inr raw_shape_Inr raw_string_Inr raw_array_Inr

section \<open>Accepted nodes and edges\<close>

definition node_text :: "json \<Rightarrow> string \<Rightarrow> string" where
  "node_text v name = json_text (jfield (json_row v) name)"

lemma raw_node_Inr:
  assumes "raw_node by_id v = Inr (i, node, kind, properties)"
  shows "v = JObj node \<and> jfield node ''id'' = JStr i \<and> jfield node ''kind'' = JStr kind \<and> i \<notin> fst ` set by_id \<and>
     jfield node ''properties'' = JObj properties \<and> (\<exists>schema. map_of NODE_PROPERTIES kind = Some schema)"
  using assms by (auto simp: raw_node_def raw_Inr check_node_id_def)

lemma read_nodes_Inr:
  assumes "read_nodes vs by_id metadata = Inr (by_id', metadata')" and "distinct (map fst by_id)"
  shows "by_id' = by_id @ map (\<lambda>v. (node_text v ''id'', json_row v)) vs \<and> distinct (map fst by_id') \<and>
     (\<forall>v \<in> set vs. v = JObj (json_row v) \<and> (\<exists>schema. map_of NODE_PROPERTIES (node_text v ''kind'') = Some schema))"
  using assms
proof (induction vs arbitrary: by_id metadata)
  case (Cons v vs)
  obtain i node kind properties m where n: "raw_node by_id v = Inr (i, node, kind, properties)"
    and rest: "read_nodes vs (by_id @ [(i, node)]) m = Inr (by_id', metadata')"
    using Cons.prems(1) by (auto simp: r_bind_Inr_iff)
  note inv = raw_node_Inr [OF n]
  have "distinct (map fst (by_id @ [(i, node)]))" using inv Cons.prems(2) by auto
  note ih = Cons.IH [OF rest this]
  have v: "node_text v ''id'' = i" "node_text v ''kind'' = kind" "json_row v = node" "v = JObj (json_row v)"
    using inv by (auto simp: node_text_def json_text_def json_row_def)
  have "by_id' = by_id @ map (\<lambda>v. (node_text v ''id'', json_row v)) (v # vs)" using ih v(1,3) by simp
  with ih inv v(2,4) show ?case by (metis set_ConsD)
qed simp

lemma raw_nodes_Inr:
  assumes "raw_nodes v frontend = Inr nodes"
  shows "nodes = map (\<lambda>v. (node_text v ''id'', json_row v)) (json_items_of v) \<and> distinct (map fst nodes) \<and> v = JArr (json_items_of v) \<and>
     (\<forall>v \<in> set (json_items_of v). v = JObj (json_row v) \<and> (\<exists>schema. map_of NODE_PROPERTIES (node_text v ''kind'') = Some schema))"
proof -
  obtain vs by_id metadata where v: "v = JArr vs" and r: "read_nodes vs [] [] = Inr (by_id, metadata)" and n: "nodes = by_id"
    using assms by (auto simp: raw_nodes_def raw_Inr)
  have "distinct (map fst ([] :: node_table))" by simp
  from read_nodes_Inr [OF r this] show ?thesis
    unfolding v n json_items_of_def json.case append_Nil by blast
qed

lemma node_kind_eq:
  assumes "distinct (map fst nodes)" and "(i, node) \<in> set nodes"
  shows "node_kind nodes i = json_text (jfield node ''kind'')"
  using assms by (auto simp: node_kind_def json_text_def split: option.splits json.splits)

lemma raw_edge_Inr:
  assumes "raw_edge nodes v facts = Inr facts'"
  shows "node_text v ''src'' \<in> fst ` set nodes \<and> node_text v ''dst'' \<in> fst ` set nodes \<and>
     (\<exists>properties. v = JObj (json_row v) \<and> jfield (json_row v) ''properties'' = JObj properties) \<and>
     (node_text v ''kind'' = ''AST'' \<longrightarrow>
        map_of (ast_parents facts') = (map_of (ast_parents facts))(node_text v ''dst'' \<mapsto> node_text v ''src'')) \<and>
     (node_text v ''kind'' \<noteq> ''AST'' \<longrightarrow> ast_parents facts' = ast_parents facts)"
proof -
  obtain edge src dst kind allowed properties where
    v: "v = JObj edge" "jfield edge ''src'' = JStr src" "jfield edge ''dst'' = JStr dst" "jfield edge ''kind'' = JStr kind"
    and ends: "src \<in> set (map fst nodes)" "dst \<in> set (map fst nodes)"
    and props: "jfield edge ''properties'' = JObj properties"
    and once: "kind = ''AST'' \<longrightarrow> (case map_of (ast_parents facts) dst of None \<Rightarrow> True | Some p \<Rightarrow> p = src)"
    and facts': "facts' = record_edge kind src dst facts"
    using assms unfolding raw_edge_def raw_Inr r_then_ok raw_check_ok sum.inject by blast
  have "map_of (ast_parents facts') = (map_of (ast_parents facts))(dst \<mapsto> src)" if "kind = ''AST''"
    using once that by (cases "map_of (ast_parents facts) dst") (auto simp: facts' record_edge_def fun_eq_iff map_add_def split: option.splits)
  moreover have "ast_parents facts' = ast_parents facts" if "kind \<noteq> ''AST''" using that by (simp add: facts' record_edge_def)
  ultimately show ?thesis using v ends props by (simp add: node_text_def json_row_def json_text_def)
qed

definition same_edge :: "json \<Rightarrow> observed_edge \<Rightarrow> bool" where
  "same_edge v e \<longleftrightarrow> oe_src e = node_text v ''src'' \<and> oe_dst e = node_text v ''dst'' \<and> oe_kind e = node_text v ''kind''"

lemma observe_edge_Inr: "observe_edge (i, v) = Inr e \<Longrightarrow> same_edge v e \<and> oe_ordinal e = i"
  by (auto simp: observe_edge_def r_bind_Inr_iff same_edge_def node_text_def)

lemma observe_edges_Inr:
  assumes "observe_edges document = Inr es"
  shows "list_all2 same_edge (json_items_of (jfield document ''edges'')) es"
  using assms observe_edge_Inr
  by (fastforce simp: observe_edges_def r_map_Inr_iff list_all2_conv_all_nth nth_enumerate_eq)

text \<open>The index of the views and the facts of the validator have the same parents.\<close>

lemma read_edges_index:
  assumes "read_edges nodes vs facts = Inr facts'" and "list_all2 same_edge vs es"
    and "map_of (ix_parents ix) = map_of (ast_parents facts)"
  shows "map_of (ix_parents (fold index_observed_edge es ix)) = map_of (ast_parents facts')"
  using assms
proof (induction vs arbitrary: es facts ix)
  case (Cons v vs)
  obtain e es' where es: "es = e # es'" "same_edge v e" "list_all2 same_edge vs es'"
    using Cons.prems(2) by (auto simp: list_all2_Cons1)
  obtain f1 where f1: "raw_edge nodes v facts = Inr f1" "read_edges nodes vs f1 = Inr facts'"
    using Cons.prems(1) by (auto simp: r_bind_Inr_iff)
  have "map_of (ix_parents (index_observed_edge e ix)) = map_of (ast_parents f1)"
    using raw_edge_Inr [OF f1(1)] es(2) Cons.prems(3)
    by (cases "oe_kind e = ''AST''") (auto simp: index_observed_edge_def Let_def same_edge_def AList.update_conv')
  from Cons.IH [OF f1(2) es(3) this] show ?case by (simp add: es(1))
qed simp

lemma read_edges_endpoints:
  assumes "read_edges nodes vs facts = Inr facts'" and "\<forall>c p. map_of (ast_parents facts) c = Some p \<longrightarrow> p \<in> fst ` set nodes"
  shows "(\<forall>c p. map_of (ast_parents facts') c = Some p \<longrightarrow> p \<in> fst ` set nodes) \<and>
     (\<forall>v \<in> set vs. \<exists>properties. v = JObj (json_row v) \<and> jfield (json_row v) ''properties'' = JObj properties)"
  using assms
proof (induction vs arbitrary: facts)
  case (Cons v vs)
  obtain f1 where f1: "raw_edge nodes v facts = Inr f1" "read_edges nodes vs f1 = Inr facts'"
    using Cons.prems(1) by (auto simp: r_bind_Inr_iff)
  note inv = raw_edge_Inr [OF f1(1)]
  have "\<forall>c p. map_of (ast_parents f1) c = Some p \<longrightarrow> p \<in> fst ` set nodes"
    using inv Cons.prems(2) by (cases "node_text v ''kind'' = ''AST''") (auto split: if_splits)
  from Cons.IH [OF f1(2) this] inv show ?case by auto
qed simp

definition accepted_parts :: "row \<Rightarrow> node_table \<Rightarrow> edge_facts \<Rightarrow> bool" where
  "accepted_parts document nodes facts \<longleftrightarrow>
     (\<exists>frontend. raw_nodes (jfield document ''nodes'') frontend = Inr nodes) \<and> raw_edges (jfield document ''edges'') nodes = Inr facts"

lemma validate_raw_export_parts:
  assumes "validate_raw_export sha256 True v = Inr u"
  shows "\<exists>document nodes facts. v = JObj document \<and> accepted_parts document nodes facts"
proof -
  obtain document frontend status where v: "v = JObj document" and body:
     "(if status = ''failed'' then raw_failure document True
        else r_then (raw_check ''completed export cannot contain an error'' (jfield document ''error'' = JNull))
          (r_bind (raw_nodes (jfield document ''nodes'') frontend) (\<lambda>nodes.
           forget (raw_edges (jfield document ''edges'') nodes)))) = Inr u"
    using assms unfolding validate_raw_export_def raw_Inr r_then_ok raw_check_ok by blast
  have "raw_failure document True \<noteq> Inr u" by (simp add: raw_failure_def r_bind_Inr_iff)
  with body have "\<exists>nodes. raw_nodes (jfield document ''nodes'') frontend = Inr nodes
      \<and> forget (raw_edges (jfield document ''edges'') nodes) = Inr u"
    by (auto simp: r_bind_Inr_iff split: if_splits)
  then show ?thesis using v unfolding accepted_parts_def forget_def r_bind_Inr_iff by blast
qed

lemma raw_edges_parts:
  assumes "raw_edges v nodes = Inr facts"
  shows "v = JArr (json_items_of v) \<and> read_edges nodes (json_items_of v) \<lparr>ast_parents = [], parameter_links = []\<rparr> = Inr facts
     \<and> raw_ownership nodes facts = Inr ()"
proof -
  obtain vs where "v = JArr vs" using assms by (auto simp: raw_edges_def raw_Inr)
  with assms show ?thesis by (auto simp: raw_edges_def raw_Inr json_items_of_def)
qed

lemma accepted_forest:
  assumes "accepted_parts document nodes facts"
  shows "acyclic (parent_rel (ast_parents facts))"
  using assms raw_edges_parts by (auto simp: accepted_parts_def raw_ownership_def check_forest_iff)

section \<open>Observed nodes\<close>

lemma observe_property_name: "observe_property properties entry = Inr p \<Longrightarrow> po_name p = fst entry"
  by (auto simp: observe_property_def r_bind_Inr_iff split: prod.splits option.splits)

lemma observe_node_Inr:
  assumes "observe_node v = Inr n"
  shows "on_node_id n = node_text v ''id'' \<and> on_kind n = node_text v ''kind'' \<and>
     (\<exists>schema. map_of NODE_PROPERTIES (on_kind n) = Some schema \<and> map po_name (on_properties n) = map fst (sort_key fst schema))"
proof -
  obtain schema obs where s: "map_of NODE_PROPERTIES (node_text v ''kind'') = Some schema"
    and obs: "r_map (observe_property (json_row (jfield (json_row v) ''properties''))) (sort_key fst schema) = Inr obs"
    and n: "on_node_id n = node_text v ''id''" "on_kind n = node_text v ''kind''" "on_properties n = obs"
    using assms by (auto simp: observe_node_def Let_def r_bind_Inr_iff node_text_def split: option.splits)
  have "map po_name obs = map fst (sort_key fst schema)"
    using obs by (auto simp: r_map_Inr_iff list_all2_conv_all_nth observe_property_name intro!: nth_equalityI)
  with s n show ?thesis by simp
qed

lemma observe_nodes_Inr:
  assumes "observe_nodes document = Inr ns"
  shows "list_all2 (\<lambda>v n. observe_node v = Inr n) (json_items_of (jfield document ''nodes'')) ns"
  using assms by (simp add: observe_nodes_def r_map_Inr_iff)

abbreviation kinds_of :: "observed_node list \<Rightarrow> (string \<times> string) list" where
  "kinds_of \<equiv> map (\<lambda>n. (on_node_id n, on_kind n))"

lemma accepted_nodes:
  assumes "accepted_parts document nodes facts" and "observe_nodes document = Inr ns"
  shows "map fst nodes = map on_node_id ns" and "distinct (map on_node_id ns)"
    and "n \<in> set ns \<Longrightarrow> node_kind nodes (on_node_id n) = on_kind n"
proof -
  let ?vs = "json_items_of (jfield document ''nodes'')"
  from assms(1) obtain frontend where "raw_nodes (jfield document ''nodes'') frontend = Inr nodes"
    by (auto simp: accepted_parts_def)
  from raw_nodes_Inr [OF this]
  have nodes: "nodes = map (\<lambda>v. (node_text v ''id'', json_row v)) ?vs" and d: "distinct (map fst nodes)" by blast+
  note all = observe_nodes_Inr [OF assms(2)]
  have "map (\<lambda>v. node_text v ''id'') ?vs = map on_node_id ns"
    using all by (auto simp: list_all2_conv_all_nth observe_node_Inr intro!: nth_equalityI)
  then show ids: "map fst nodes = map on_node_id ns" by (simp add: nodes comp_def)
  show "distinct (map on_node_id ns)" using d by (simp only: ids)
  assume "n \<in> set ns"
  then obtain v where v: "v \<in> set ?vs" "observe_node v = Inr n" using list_all2_source [OF all] by blast
  have "(node_text v ''id'', json_row v) \<in> set nodes" using v(1) nodes by auto
  from node_kind_eq [OF d this] show "node_kind nodes (on_node_id n) = on_kind n"
    using observe_node_Inr [OF v(2)] by (simp add: node_text_def)
qed

section \<open>Views of accepted documents\<close>

lemma parent_rel_cong: "map_of a = map_of b \<Longrightarrow> parent_rel a = parent_rel b"
  by (simp add: parent_rel_def)

lemma accepted_index:
  assumes "accepted_parts document nodes facts" and "observe_edges document = Inr es"
  shows "map_of (ix_parents (index_edges es)) = map_of (ast_parents facts)"
proof -
  have "read_edges nodes (json_items_of (jfield document ''edges'')) \<lparr>ast_parents = [], parameter_links = []\<rparr> = Inr facts"
    using assms(1) raw_edges_parts by (auto simp: accepted_parts_def)
  from read_edges_index [OF this observe_edges_Inr [OF assms(2)]] show ?thesis by (simp add: index_edges_def)
qed

lemma accepted_owners:
  assumes "accepted_parts document nodes facts" and "observe_nodes document = Inr ns" and "observe_edges document = Inr es"
  shows "\<exists>owned. find_owners (kinds_of ns) (ix_parents (index_edges es)) (map on_node_id ns) [] = Inr owned \<and>
     owners_ok (kinds_of ns) (ix_parents (index_edges es)) owned \<and> (\<forall>n \<in> set ns. owns owned (on_node_id n))"
proof -
  note ix = accepted_index [OF assms(1,3)] and ids = accepted_nodes(1) [OF assms(1,2)]
  have keys: "fst ` set (kinds_of ns) = fst ` set nodes"
    using arg_cong [OF ids, of set] by force
  have "acyclic (parent_rel (ix_parents (index_edges es)))"
    using accepted_forest [OF assms(1)] parent_rel_cong [OF ix] by simp
  moreover have "p \<in> fst ` set (kinds_of ns)" if "map_of (ix_parents (index_edges es)) x = Some p" for x p
    using read_edges_endpoints [of nodes _ "\<lparr>ast_parents = [], parameter_links = []\<rparr>" facts] assms(1) raw_edges_parts that
    unfolding keys ix by (fastforce simp: accepted_parts_def)
  moreover have "set (map on_node_id ns) \<subseteq> fst ` set (kinds_of ns)" by force
  moreover have "owners_ok (kinds_of ns) (ix_parents (index_edges es)) []" by (simp add: owners_ok_def)
  ultimately obtain owned where "find_owners (kinds_of ns) (ix_parents (index_edges es)) (map on_node_id ns) [] = Inr owned"
    "owners_ok (kinds_of ns) (ix_parents (index_edges es)) owned" "\<forall>x. x \<in> set (map on_node_id ns) \<or> owns [] x \<longrightarrow> owns owned x"
    using find_owners_finds by blast
  then show ?thesis by auto
qed

lemma accepted_formals:
  assumes "accepted_parts document nodes facts" and "observe_nodes document = Inr ns" and "observe_edges document = Inr es"
    and "n \<in> set ns" and "on_kind n \<in> {''METHOD_PARAMETER_IN'', ''METHOD_PARAMETER_OUT'', ''METHOD_RETURN''}"
  shows "\<exists>m. map_of (ix_parents (index_edges es)) (on_node_id n) = Some m \<and> node_kind nodes m = ''METHOD''"
proof -
  have own: "raw_ownership nodes facts = Inr ()" using assms(1) raw_edges_parts by (auto simp: accepted_parts_def)
  have "on_node_id n \<in> fst ` set nodes"
    using assms(4) arg_cong [OF accepted_nodes(1) [OF assms(1,2)], of set] by auto
  then obtain row where "(on_node_id n, row) \<in> set nodes" by auto
  with own accepted_nodes(3) [OF assms(1,2,4)] assms(5) show ?thesis
    unfolding accepted_index [OF assms(1,3)]
    by (fastforce simp: raw_ownership_def split: option.splits)
qed

lemma method_full_name: "case map_of NODE_PROPERTIES ''METHOD'' of Some s \<Rightarrow> ''FULL_NAME'' \<in> set (map fst s) | None \<Rightarrow> False"
  by code_simp

lemma observed_full_name:
  assumes "observe_node v = Inr n" and "on_kind n = ''METHOD''"
  shows "\<exists>p. node_property n ''FULL_NAME'' = Inr p"
proof -
  from observe_node_Inr [OF assms(1)] assms(2) obtain schema where s: "map_of NODE_PROPERTIES ''METHOD'' = Some schema"
    "map po_name (on_properties n) = map fst (sort_key fst schema)" by auto
  have "''FULL_NAME'' \<in> set (map po_name (on_properties n))" using method_full_name s by simp
  then show ?thesis by (auto simp: node_property_def find_None_iff split: option.splits)
qed

lemma read_names_total:
  "(\<forall>n \<in> set ns. \<exists>v. observe_node v = Inr n) \<Longrightarrow> \<exists>names'. read_names ns names = Inr names'"
proof (induction ns arbitrary: names)
  case (Cons n ns)
  then obtain v where "observe_node v = Inr n" by auto
  then have "\<exists>names1. (if on_kind n = ''METHOD'' then add_full_name n names else Inr names) = Inr names1"
    using observed_full_name [of v n] by (cases "on_kind n = ''METHOD''") (auto simp: add_full_name_def)
  with Cons show ?case by auto
qed simp

lemma accepted_views:
  assumes "accepted_parts document nodes facts" and "observe_nodes document = Inr ns" and "observe_edges document = Inr es"
  shows "\<exists>views. derive_views ns es = Inr views"
proof -
  obtain owned where owned: "find_owners (kinds_of ns) (ix_parents (index_edges es)) (map on_node_id ns) [] = Inr owned"
    using accepted_owners [OF assms] by blast
  define vi where "vi = \<lparr>vi_edges = es, vi_kinds = kinds_of ns, vi_index = index_edges es, vi_owners = owned\<rparr>"
  have "\<exists>fs. r_map (\<lambda>n. make_formal_view vi (on_kind n) (on_node_id n))
      (nodes_of_kinds ns [''METHOD_PARAMETER_IN'', ''METHOD_PARAMETER_OUT'']) = Inr fs"
    by (rule r_map_exists)
      (use accepted_formals [OF assms] in \<open>fastforce simp: nodes_of_kinds_def make_formal_view_def vi_def\<close>)
  moreover have "\<exists>names. read_names ns [] = Inr names"
    by (rule read_names_total) (use list_all2_source [OF observe_nodes_Inr [OF assms(2)]] in blast)
  ultimately show ?thesis using owned by (auto simp: derive_views_def Let_def vi_def)
qed

end
