(* ===== verification/Observed_Total.thy ===== *)
theory Observed_Total
  imports Observed_Contract
begin

text \<open>
  What the ingestion of a raw export promises. The validator fails only with its own exceptions, a
  document it accepts is frozen and observed without a failure, and the observed graph has the
  document's forest, the nearest enclosing methods and the document itself.
\<close>

section \<open>Failures of the validator\<close>

text \<open>The exceptions that \<open>validate_document\<close> translates.\<close>

definition raw_failure_class :: "py_error \<Rightarrow> bool" where
  "raw_failure_class e \<longleftrightarrow> (\<exists>m. e = RawExportError m \<or> e = RawExportFailedError m \<or> e = ValueError m)"

abbreviation raw_only :: "'a res \<Rightarrow> bool" where
  "raw_only \<equiv> raises_only raw_failure_class"

named_theorems raw_intro

declare raises_intro [raw_intro]

lemma raw_failure_classes [simp]:
  "raw_failure_class (RawExportError m)" "raw_failure_class (RawExportFailedError m)" "raw_failure_class (ValueError m)"
  by (simp_all add: raw_failure_class_def)

lemma raw_only_check [raw_intro]: "raw_only (raw_check msg b)" "raw_only (r_check msg b)"
  by (simp_all add: raw_check_def r_check_def)

lemma raw_only_readers [raw_intro]:
  "raw_only (raw_object v label)" "raw_only (raw_array v label)" "raw_only (pinned_node_schema kind)" "raw_only (pinned_edge_key kind)"
  by (simp_all add: raw_object_def raw_array_def pinned_node_schema_def pinned_edge_key_def split: json.split option.split)

lemma raw_only_shape [raw_intro]: "raw_only (raw_shape v keys label)"
  unfolding raw_shape_def by (intro raw_intro) simp

lemma raw_only_string [raw_intro]: "raw_only (raw_string ne v label)"
  unfolding raw_string_def Let_def by (auto intro!: raw_intro split: json.split)

lemma raw_only_digest [raw_intro]: "raw_only (raw_digest v label)"
  unfolding raw_digest_def by (intro raw_intro) simp

lemma raw_only_forget [raw_intro]: "raw_only x \<Longrightarrow> raw_only (forget x)"
  unfolding forget_def by (intro raw_intro) simp_all

lemma raw_only_artifact [raw_intro]: "raw_only (raw_artifact v label tool)"
  unfolding raw_artifact_def by (intro raw_intro) simp

lemma raw_only_manifest: "raw_only (manifest_bytes previous vs)"
proof (induction vs arbitrary: previous)
  case (Cons v vs)
  then show ?case by (auto intro!: raw_intro split: json.split option.split)
qed simp

lemma raw_only_tree [raw_intro]: "raw_only (source_tree_digest sha256 files)"
  unfolding source_tree_digest_def by (intro raw_intro raw_only_manifest) simp

lemma raw_only_tools: "raw_only (producer_tools vs roles)"
proof (induction vs arbitrary: roles)
  case (Cons v vs)
  then show ?case by (auto intro!: raw_intro split: option.split)
qed simp

lemma raw_only_producer [raw_intro]: "raw_only (raw_producer sha256 v)"
  unfolding raw_producer_def producer_image_def producer_source_def
  by (intro raw_intro raw_only_tools) simp

lemma raw_only_property [raw_intro]: "raw_only (raw_property v kind quantity label)"
  unfolding raw_property_def
  by (intro raw_intro) (auto intro!: raw_intro split: native_type.split json.split)

lemma raw_only_properties:
  assumes "set (map fst properties) \<subseteq> set (map fst allowed)"
  shows "raw_only (check_properties kind allowed properties)"
  unfolding check_properties_def
proof (intro raw_intro)
  fix x assume "x \<in> set properties"
  then have "fst x \<in> set (map fst allowed)" using assms by auto
  then obtain s where "map_of allowed (fst x) = Some s"
    using map_of_eq_None_iff [of allowed "fst x"] by (cases "map_of allowed (fst x)") auto
  then show "raw_only (case x of (key, v) \<Rightarrow> case map_of allowed key of None \<Rightarrow> Inl (KeyError key)
       | Some (native, quantity) \<Rightarrow> raw_property v native quantity (kind @ ''.'' @ key))"
    by (cases x; cases s) (auto intro: raw_intro)
qed

lemma raw_only_node [raw_intro]: "raw_only (raw_node by_id v)"
  unfolding raw_node_def check_node_id_def
  by (intro raw_intro raises_only_then_ok raw_only_properties) auto

lemma raw_only_read_nodes: "raw_only (read_nodes vs by_id metadata)"
proof (induction vs arbitrary: by_id metadata)
  case (Cons v vs)
  then show ?case by (auto intro!: raw_intro)
qed simp

lemma raw_only_nodes [raw_intro]: "raw_only (raw_nodes v frontend)"
  unfolding raw_nodes_def by (intro raw_intro raw_only_read_nodes) (auto intro: raw_intro)

lemma raw_only_edge [raw_intro]: "raw_only (raw_edge nodes v facts)"
  unfolding raw_edge_def check_endpoint_kinds_def by (intro raw_intro) (auto intro: raw_intro)

lemma raw_only_read_edges: "raw_only (read_edges nodes vs facts)"
proof (induction vs arbitrary: facts)
  case (Cons v vs)
  then show ?case by (auto intro!: raw_intro)
qed simp


section \<open>Ownership\<close>

definition formal_links :: "node_table \<Rightarrow> (string \<times> string) set" where
  "formal_links nodes = {(src, dst). src \<in> fst ` set nodes \<and> dst \<in> fst ` set nodes \<and>
     node_kind nodes src = ''METHOD_PARAMETER_IN'' \<and> node_kind nodes dst = ''METHOD_PARAMETER_OUT''}"

lemma raw_edge_links:
  assumes "raw_edge nodes v facts = Inr facts'" and "set (parameter_links facts) \<subseteq> formal_links nodes"
  shows "set (parameter_links facts') \<subseteq> formal_links nodes"
proof -
  obtain src dst kind where ends: "src \<in> set (map fst nodes)" "dst \<in> set (map fst nodes)"
    and kinds: "kind = ''PARAMETER_LINK'' \<longrightarrow> node_kind nodes src = ''METHOD_PARAMETER_IN'' \<and> node_kind nodes dst = ''METHOD_PARAMETER_OUT''"
    and facts': "facts' = record_edge kind src dst facts"
    using assms(1) unfolding raw_edge_def check_endpoint_kinds_def raw_Inr r_then_ok raw_check_ok sum.inject by blast
  then show ?thesis using assms(2) by (auto simp: record_edge_def formal_links_def)
qed

lemma read_edges_links:
  assumes "read_edges nodes vs facts = Inr facts'" and "set (parameter_links facts) \<subseteq> formal_links nodes"
  shows "set (parameter_links facts') \<subseteq> formal_links nodes"
  using assms
proof (induction vs arbitrary: facts)
  case (Cons v vs)
  then obtain f1 where "raw_edge nodes v facts = Inr f1" "read_edges nodes vs f1 = Inr facts'"
    by (auto simp: r_bind_Inr_iff)
  with Cons raw_edge_links show ?case by blast
qed simp

lemma raw_only_forest: "raw_only (check_forest parents ids checked)"
proof (induction ids arbitrary: checked)
  case (Cons i ids)
  have "raw_only (ast_walk parents checked trail i)" for trail
    by (induction parents checked trail i rule: ast_walk.induct)
      (subst ast_walk.simps, auto split: option.split)
  with Cons show ?case by (auto intro!: raw_intro)
qed simp

lemma raw_only_ownership:
  assumes "set (parameter_links facts) \<subseteq> formal_links nodes"
  shows "raw_only (raw_ownership nodes facts)"
  unfolding raw_ownership_def
proof (intro raises_only_then_ok raw_only_forest)
  let ?owned = "\<lambda>(node_id, _). if node_kind nodes node_id \<in> set [''METHOD_PARAMETER_IN'', ''METHOD_PARAMETER_OUT'', ''METHOD_RETURN'']
     then raw_check ''formal/return node must have a direct METHOD AST owner''
            (case map_of (ast_parents facts) node_id of None \<Rightarrow> False | Some owner \<Rightarrow> node_kind nodes owner = ''METHOD'')
     else Inr ()"
  show "raw_only (r_each ?owned nodes)" by (intro raw_intro) (auto intro: raw_intro)
  assume ok: "r_each ?owned nodes = Inr ()"
  show "raw_only (r_each (\<lambda>(src, dst).
        case (map_of (ast_parents facts) src, map_of (ast_parents facts) dst) of
          (Some a, Some b) \<Rightarrow> raw_check ''PARAMETER_LINK endpoints must belong to the same method'' (a = b)
        | (None, _) \<Rightarrow> Inl (KeyError src)
        | _ \<Rightarrow> Inl (KeyError dst)) (parameter_links facts))"
  proof (intro raw_intro)
    fix x assume "x \<in> set (parameter_links facts)"
    then obtain src dst a b where x: "x = (src, dst)" "(src, a) \<in> set nodes" "(dst, b) \<in> set nodes"
      "node_kind nodes src = ''METHOD_PARAMETER_IN''" "node_kind nodes dst = ''METHOD_PARAMETER_OUT''"
      using assms by (cases x) (auto simp: formal_links_def)
    have own: "map_of (ast_parents facts) i \<noteq> None"
      if "(i, r) \<in> set nodes" "node_kind nodes i \<in> set [''METHOD_PARAMETER_IN'', ''METHOD_PARAMETER_OUT'', ''METHOD_RETURN'']" for i r
    proof -
      have "?owned (i, r) = Inr ()" using ok that(1) unfolding r_each_ok by blast
      then show ?thesis using that(2) by (auto split: option.splits)
    qed
    from own [OF x(2)] own [OF x(3)] x(4,5) obtain p q where "map_of (ast_parents facts) src = Some p" "map_of (ast_parents facts) dst = Some q"
      by auto
    then show "raw_only (case x of (src, dst) \<Rightarrow> case (map_of (ast_parents facts) src, map_of (ast_parents facts) dst) of
          (Some a, Some b) \<Rightarrow> raw_check ''PARAMETER_LINK endpoints must belong to the same method'' (a = b)
        | (None, _) \<Rightarrow> Inl (KeyError src)
        | _ \<Rightarrow> Inl (KeyError dst))"
      by (simp add: x(1) raw_only_check)
  qed
qed

lemma raw_only_edges [raw_intro]: "raw_only (raw_edges v nodes)"
  unfolding raw_edges_def
  by (intro raw_intro raw_only_read_edges raw_only_ownership) (auto dest: read_edges_links)

lemma raw_only_export: "raw_only (validate_raw_export sha256 completed v)"
  unfolding validate_raw_export_def raw_failure_def raw_capability_def
  by (intro raw_intro) (auto intro!: raw_intro split: prod.split)

section \<open>Decoded documents\<close>

lemma observed_unique_object_Inr:
  "observed_unique_object result pairs = Inr v \<longleftrightarrow> v = JObj (result @ pairs) \<and>
     distinct (map fst pairs) \<and> set (map fst result) \<inter> set (map fst pairs) = {}"
  by (induction result pairs rule: observed_unique_object.induct) auto

lemma observed_grammar_keys:
  "value_at observed_hooks s v r \<Longrightarrow> keys_distinct v"
  "elements_at observed_hooks s vs r \<Longrightarrow> \<forall>v \<in> set vs. keys_distinct v"
  "members_at observed_hooks s kvs r \<Longrightarrow> \<forall>(k, v) \<in> set kvs. keys_distinct v"
proof (induction rule: value_elements_members_induct)
  case (v_number s v r)
  then show ?case
    by (auto simp: parse_number_def with_rest_Inr_iff observed_hooks_def default_int_def reject_number_def
        split: option.splits prod.splits if_splits)
qed (auto simp: observed_hooks_def observed_unique_object_Inr reject_number_def)

lemma decoded_keys_distinct:
  assumes "decode_json_bytes data m d = Inr v"
  shows "keys_distinct v"
proof -
  have "loads observed_hooks data = Inr v" using assms by (auto simp: decode_json_bytes_def split: if_splits)
  then show ?thesis
    by (auto simp: loads_def r_bind_Inr_iff split: if_splits simp del: parse_value.simps dest!: parse_sound(1) observed_grammar_keys(1))
qed

lemma json_strings_own:
  "json_strings P v \<longleftrightarrow> (\<forall>s \<in> set (own_texts v). P s) \<and> (\<forall>c \<in> set (own_children v). json_strings P c)"
  by (cases v) (auto simp: own_texts_def own_children_def)

lemma count_texts_Inr: "count_texts l ss n = Inr m \<Longrightarrow> \<forall>s \<in> set ss. \<not> has_surrogate s"
  by (induction l ss n rule: count_texts.induct) auto

lemma count_values_strings:
  "count_values l pending n m = Inr u \<Longrightarrow> \<forall>v \<in> set pending. json_strings (\<lambda>s. \<not> has_surrogate s) v"
proof (induction l pending n m rule: count_values.induct)
  case (2 l v pending n m)
  then obtain k where "count_texts l (own_texts v) m = Inr k" "count_values l (rev (own_children v) @ pending) (n + 1) k = Inr u"
    by (auto simp: r_bind_Inr_iff)
  with 2 count_texts_Inr show ?case by (auto simp: json_strings_own [of _ v] og_check_def split: if_splits)
qed simp

lemma validated_document:
  assumes "validate_document sha256 l v = Inr w"
  shows "w = v \<and> json_strings (\<lambda>s. \<not> has_surrogate s) v \<and> validate_raw_export sha256 True v = Inr ()"
  using assms count_values_strings [of l "[v]" 0 0]
  by (auto simp: validate_document_def bound_document_def split: sum.splits)

section \<open>Freezing the parts of a document\<close>

definition freezable :: "json \<Rightarrow> bool" where
  "freezable v \<longleftrightarrow> keys_distinct v \<and> json_strings (\<lambda>s. \<not> has_surrogate s) v"

lemma freezable_total: "freezable v \<Longrightarrow> \<exists>f. freeze_value v = Inr f"
  unfolding freezable_def using freeze_total by blast

lemma freezable_child: "freezable v \<Longrightarrow> c \<in> set (own_children v) \<Longrightarrow> freezable c"
  by (cases v) (auto simp: freezable_def own_children_def)

lemma freezable_item: "freezable v \<Longrightarrow> c \<in> set (json_items_of v) \<Longrightarrow> freezable c"
  by (rule freezable_child) (auto simp: json_items_of_def own_children_def split: json.splits)

lemma freezable_value: "freezable v \<Longrightarrow> map_of (json_row v) k = Some c \<Longrightarrow> freezable c"
  by (rule freezable_child) (force simp: json_row_def own_children_def split: json.splits dest: map_of_SomeD)+

lemma freezable_field: "freezable v \<Longrightarrow> freezable (jfield (json_row v) k)"
  by (cases "map_of (json_row v) k") (auto simp: jfield_def freezable_value, simp add: freezable_def)

lemma observe_node_total:
  assumes "freezable v" and "map_of NODE_PROPERTIES (node_text v ''kind'') = Some schema"
  shows "\<exists>n. observe_node v = Inr n"
proof -
  let ?props = "json_row (jfield (json_row v) ''properties'')"
  have "\<exists>p. observe_property ?props entry = Inr p" for entry
    using freezable_total [OF freezable_value [OF freezable_field [OF assms(1)]]]
    by (cases entry) (fastforce simp: observe_property_def split: option.split)
  then have "\<exists>ps. r_map (observe_property ?props) (sort_key fst schema) = Inr ps" by (intro r_map_exists) blast
  with assms(2) show ?thesis by (auto simp: observe_node_def Let_def node_text_def)
qed

lemma frozen_field_total:
  assumes "freeze_value (JObj document) = Inr f" and "k \<in> set (map fst document)"
  shows "\<exists>v. frozen_field f k = Inr v"
proof -
  obtain es where f: "f = FObject es" and th: "map (\<lambda>(k, v). (k, thaw_value v)) es = sort_key fst (map (\<lambda>(k, v). (k, sort_keys v)) document)"
    using freeze_ok [OF assms(1)] by (cases f) auto
  have "fst ` set es = fst ` set (map (\<lambda>(k, v). (k, thaw_value v)) es)" by force
  also have "\<dots> = fst ` set document" unfolding th by force
  finally have "k \<in> fst ` set es" using assms(2) by simp
  then obtain v where "map_of es k = Some v" by (metis map_of_eq_None_iff not_None_eq)
  then show ?thesis by (simp add: f frozen_field_def frozen_get_def)
qed

lemma export_fields:
  assumes "validate_raw_export sha256 completed v = Inr u"
  shows "\<exists>document. v = JObj document \<and> ''producer'' \<in> set (map fst document) \<and> ''capabilities'' \<in> set (map fst document)"
proof -
  obtain document where "v = JObj document" "set (map fst document) = set [''format'', ''format_version'', ''status'', ''producer'',
     ''capabilities'', ''nodes'', ''edges'', ''error'']"
    using assms unfolding validate_raw_export_def raw_Inr r_then_ok raw_check_ok by blast
  then show ?thesis by auto
qed

section \<open>The observed graph of an accepted document\<close>

text \<open>Once a document is decoded and validated nothing else can fail.\<close>

lemma parse_total:
  assumes limits: "observed_checked_limits l = Inr l"
    and decoded: "decode_json_bytes data (ol_max_raw_bytes l) (ol_max_json_depth l) = Inr v"
    and valid: "validate_document sha256 l v = Inr v"
  shows "\<exists>g. parse_observed_graph sha256 data l = Inr g"
proof -
  note ok = validated_document [OF valid]
  have free: "freezable v" using decoded_keys_distinct [OF decoded] ok by (simp add: freezable_def)
  obtain document nodes facts where v: "v = JObj document" and acc: "accepted_parts document nodes facts"
    using validate_raw_export_parts ok by blast
  obtain f where f: "freeze_value v = Inr f" using freezable_total [OF free] by blast
  have "\<exists>ns. observe_nodes document = Inr ns"
    unfolding observe_nodes_def
  proof (rule r_map_exists)
    fix x assume x: "x \<in> set (json_items_of (jfield document ''nodes''))"
    have "freezable x" using freezable_item [OF freezable_field [OF free, of "''nodes''"]] x by (simp add: v json_row_def)
    moreover have "\<exists>schema. map_of NODE_PROPERTIES (node_text x ''kind'') = Some schema"
      using acc raw_nodes_Inr x unfolding accepted_parts_def by blast
    ultimately show "\<exists>n. observe_node x = Inr n" using observe_node_total by blast
  qed
  then obtain ns where ns: "observe_nodes document = Inr ns" by blast
  have "\<exists>es. observe_edges document = Inr es"
    unfolding observe_edges_def
  proof (rule r_map_exists)
    fix x assume "x \<in> set (List.enumerate 0 (json_items_of (jfield document ''edges'')))"
    then have "snd x \<in> set (json_items_of (jfield document ''edges''))" by (simp add: in_set_enumerate_eq) (metis nth_mem)
    then have "freezable (snd x)" using freezable_item [OF freezable_field [OF free, of "''edges''"]] by (simp add: v json_row_def)
    then obtain f where "freeze_value (jfield (json_row (snd x)) ''properties'') = Inr f"
      using freezable_total [OF freezable_field] by blast
    then show "\<exists>e. observe_edge x = Inr e" by (cases x) (simp add: observe_edge_def)
  qed
  then obtain es where es: "observe_edges document = Inr es" by blast
  obtain views where views: "derive_views ns es = Inr views" using accepted_views [OF acc ns es] by blast
  have "''producer'' \<in> set (map fst document)" "''capabilities'' \<in> set (map fst document)" using export_fields ok v by blast+
  then obtain p c where "frozen_field f ''producer'' = Inr p" "frozen_field f ''capabilities'' = Inr c"
    using frozen_field_total f v by blast
  with limits decoded valid f ns es views show ?thesis by (simp add: parse_observed_graph_def v json_row_def)
qed

lemma observed_checked_limits_Inr: "observed_checked_limits l = Inr m \<Longrightarrow> m = l"
  by (auto simp: observed_checked_limits_def)

text \<open>The parts of a returned graph.\<close>

lemma parse_parts:
  assumes "parse_observed_graph sha256 data l = Inr g"
  shows "\<exists>document nodes facts. decode_json_bytes data (ol_max_raw_bytes l) (ol_max_json_depth l) = Inr (JObj document) \<and>
     accepted_parts document nodes facts \<and> observe_nodes document = Inr (og_nodes g) \<and> observe_edges document = Inr (og_edges g) \<and>
     derive_views (og_nodes g) (og_edges g) = Inr (og_views g) \<and> freeze_value (JObj document) = Inr (og_document g) \<and>
     og_bytes g = data \<and> og_limits g = l \<and> observed_checked_limits l = Inr l"
proof -
  obtain m v w f p c ns es views where parts: "observed_checked_limits l = Inr m"
    "decode_json_bytes data (ol_max_raw_bytes m) (ol_max_json_depth m) = Inr v" "validate_document sha256 m v = Inr w"
    "freeze_value w = Inr f" "observe_nodes (json_row w) = Inr ns" "observe_edges (json_row w) = Inr es"
    "derive_views ns es = Inr views"
    "g = \<lparr>og_bytes = data, og_limits = l, og_raw_export_sha256 = ''sha256:'' @ hex (sha256 data),
          og_producer = p, og_capabilities = c, og_nodes = ns, og_edges = es, og_views = views, og_document = f\<rparr>"
    using assms unfolding parse_observed_graph_def r_bind_Inr_iff sum.inject by blast
  have m: "m = l" using observed_checked_limits_Inr [OF parts(1)] .
  have w: "w = v" "validate_raw_export sha256 True v = Inr ()" using validated_document [OF parts(3)] by auto
  obtain document nodes facts where v: "v = JObj document" "accepted_parts document nodes facts"
    using validate_raw_export_parts [OF w(2)] by blast
  have "json_row w = document" by (simp add: w v json_row_def)
  with parts v w m show ?thesis by auto
qed

section \<open>The forest of a graph\<close>

definition ast_edges :: "observed_edge list \<Rightarrow> (string \<times> string) set" where
  "ast_edges es = {(oe_dst e, oe_src e) | e. e \<in> set es \<and> oe_kind e = ''AST''}"

definition row_edges :: "json list \<Rightarrow> (string \<times> string) set" where
  "row_edges vs = {(node_text v ''dst'', node_text v ''src'') | v. v \<in> set vs \<and> node_text v ''kind'' = ''AST''}"

lemma raw_edge_parent:
  assumes "raw_edge nodes v facts = Inr facts'"
  shows "parent_rel (ast_parents facts') = parent_rel (ast_parents facts) \<union> row_edges [v]"
proof -
  obtain edge src dst kind where
    v: "v = JObj edge" "jfield edge ''src'' = JStr src" "jfield edge ''dst'' = JStr dst" "jfield edge ''kind'' = JStr kind"
    and once: "kind = ''AST'' \<longrightarrow> (case map_of (ast_parents facts) dst of None \<Rightarrow> True | Some p \<Rightarrow> p = src)"
    and facts': "facts' = record_edge kind src dst facts"
    using assms unfolding raw_edge_def raw_Inr r_then_ok raw_check_ok sum.inject by blast
  have row: "row_edges [v] = (if kind = ''AST'' then {(dst, src)} else {})"
    by (auto simp: row_edges_def v node_text_def json_row_def json_text_def)
  show ?thesis
  proof (cases "kind = ''AST'' \<and> map_of (ast_parents facts) dst = None")
    case True
    then have "parent_rel (ast_parents facts') = insert (dst, src) (parent_rel (ast_parents facts))"
      by (auto simp: facts' record_edge_def parent_rel_def map_add_def split: option.splits if_splits)
    with True row show ?thesis by simp
  next
    case False
    then have "ast_parents facts' = ast_parents facts" by (auto simp: facts' record_edge_def)
    moreover have "row_edges [v] \<subseteq> parent_rel (ast_parents facts)"
      using once False by (auto simp: row parent_rel_def split: option.splits)
    ultimately show ?thesis by auto
  qed
qed

lemma read_edges_parents:
  "read_edges nodes vs facts = Inr facts' \<Longrightarrow> parent_rel (ast_parents facts') = parent_rel (ast_parents facts) \<union> row_edges vs"
proof (induction vs arbitrary: facts)
  case (Cons v vs)
  then obtain f1 where "raw_edge nodes v facts = Inr f1" "read_edges nodes vs f1 = Inr facts'"
    by (auto simp: r_bind_Inr_iff)
  with Cons.IH raw_edge_parent have "parent_rel (ast_parents facts') = parent_rel (ast_parents facts) \<union> row_edges [v] \<union> row_edges vs" by blast
  moreover have "row_edges (v # vs) = row_edges [v] \<union> row_edges vs" by (auto simp: row_edges_def)
  ultimately show ?case by auto
qed (simp add: row_edges_def)

lemma row_edges_observed:
  assumes "list_all2 same_edge vs es"
  shows "row_edges vs = ast_edges es"
  using assms
proof (induction vs es rule: list_all2_induct)
  case (Cons v vs e es)
  have "row_edges (v # vs) = row_edges [v] \<union> row_edges vs" "ast_edges (e # es) = ast_edges [e] \<union> ast_edges es"
    by (auto simp: row_edges_def ast_edges_def)
  moreover have "row_edges [v] = ast_edges [e]" using Cons(1) by (auto simp: same_edge_def row_edges_def ast_edges_def)
  ultimately show ?case using Cons.IH by simp
qed (simp add: row_edges_def ast_edges_def)

lemma accepted_ast_edges:
  assumes "accepted_parts document nodes facts" and "observe_edges document = Inr es"
  shows "parent_rel (ix_parents (index_edges es)) = ast_edges es"
proof -
  have "read_edges nodes (json_items_of (jfield document ''edges'')) \<lparr>ast_parents = [], parameter_links = []\<rparr> = Inr facts"
    using assms(1) raw_edges_parts by (auto simp: accepted_parts_def)
  from read_edges_parents [OF this] row_edges_observed [OF observe_edges_Inr [OF assms(2)]]
  have "parent_rel (ast_parents facts) = ast_edges es" by (simp add: parent_rel_def)
  with parent_rel_cong [OF accepted_index [OF assms]] show ?thesis by simp
qed

text \<open>The reference for ownership, on the nodes and edges of the graph.\<close>

inductive method_above :: "observed_graph \<Rightarrow> string \<Rightarrow> string option \<Rightarrow> bool" for g where
  itself: "n \<in> set (og_nodes g) \<Longrightarrow> on_kind n = ''METHOD'' \<Longrightarrow> method_above g (on_node_id n) (Some (on_node_id n))"
| top: "n \<in> set (og_nodes g) \<Longrightarrow> on_kind n \<noteq> ''METHOD'' \<Longrightarrow> \<nexists>p. (on_node_id n, p) \<in> ast_edges (og_edges g) \<Longrightarrow>
     method_above g (on_node_id n) None"
| climb: "n \<in> set (og_nodes g) \<Longrightarrow> on_kind n \<noteq> ''METHOD'' \<Longrightarrow> (on_node_id n, p) \<in> ast_edges (og_edges g) \<Longrightarrow>
     method_above g p m \<Longrightarrow> method_above g (on_node_id n) m"

lemma nearest_is_above:
  assumes "nearest_method (kinds_of (og_nodes g)) parents c m" and "parent_rel parents = ast_edges (og_edges g)"
    and "distinct (map on_node_id (og_nodes g))" and "\<forall>x p. (x, p) \<in> ast_edges (og_edges g) \<longrightarrow> p \<in> on_node_id ` set (og_nodes g)"
    and "c \<in> on_node_id ` set (og_nodes g)"
  shows "method_above g c m"
proof -
  have kind: "map_of (kinds_of (og_nodes g)) (on_node_id n) = Some (on_kind n)" if "n \<in> set (og_nodes g)" for n
    using that assms(3) by (intro map_of_is_SomeI) (auto simp: comp_def)
  have step: "map_of parents x = Some p \<longleftrightarrow> (x, p) \<in> ast_edges (og_edges g)" for x p
    using assms(2) by (auto simp: parent_rel_def)
  from assms(1,5) show ?thesis
  proof (induction rule: nearest_method.induct)
    case (is_method c)
    then show ?case using kind by (auto intro: itself)
  next
    case (no_parent c)
    then obtain n where n: "n \<in> set (og_nodes g)" "c = on_node_id n" by blast
    have "\<nexists>p. (c, p) \<in> ast_edges (og_edges g)" using no_parent(2) step by (metis option.distinct(1))
    with n no_parent(1) kind show ?case by (auto intro: top)
  next
    case (above c p m)
    then obtain n where n: "n \<in> set (og_nodes g)" "c = on_node_id n" by blast
    have "(c, p) \<in> ast_edges (og_edges g)" using above(2) step by blast
    with n above kind assms(4) show ?case by (auto intro: climb)
  qed
qed

end
