(* ===== verification/Observed_Sample.thy ===== *)
theory Observed_Sample
  imports Observed_Total
begin

text \<open>
  A rendered document within the limits is decoded to itself, and a small accepted export as the
  concrete case of the contract.
\<close>

section \<open>The depth scan of a rendered document\<close>

text \<open>Outside strings only brackets change the state; inside a string only the closing quote does.\<close>

lemma depth_scan_escape: "depth_scan m (json_escape c @ u) d True False = depth_scan m u d True False"
proof -
  have hex: "hex_digit n \<noteq> CHR 0x22" "hex_digit n \<noteq> CHR 0x5C" if "n < 16" for n
    using is_hex_digit [OF that] by (auto simp: is_hex_def)
  have "of_char c mod 16 < (16 :: nat)" by simp
  from hex [OF this] hex [OF nibble_less] show ?thesis by (simp add: json_escape_def Let_def)
qed

lemma depth_scan_escaped: "depth_scan m (concat (map json_escape s) @ u) d True False = depth_scan m u d True False"
  by (induction s) (simp_all add: depth_scan_escape)

lemma depth_scan_quote: "depth_scan m (json_quote s @ u) d False False = depth_scan m u d False False"
  by (simp add: json_quote_def depth_scan_escaped)

lemma depth_scan_atoms: "list_all atom_char s \<Longrightarrow> depth_scan m (s @ u) d False False = depth_scan m u d False False"
  by (induction s) (auto simp: atom_char_def)

lemma depth_scan_items:
  assumes "\<And>x u. x \<in> set xs \<Longrightarrow> depth_scan m (f x @ u) d False False = depth_scan m u d False False"
    and "close = CHR '']'' \<or> close = CHR ''}''"
  shows "depth_scan m (json_items close (map f xs) @ u) d False False = depth_scan m u (d - 1) False False"
  using assms(1)
proof (induction xs)
  case Nil
  then show ?case using assms(2) by auto
next
  case (Cons x xs)
  have rest: "depth_scan m (json_items close (map f xs) @ u) d False False = depth_scan m u (d - 1) False False"
    by (rule Cons.IH) (rule Cons.prems, simp)
  have first: "depth_scan m (f x @ v) d False False = depth_scan m v d False False" for v
    by (rule Cons.prems) simp
  have "depth_scan m (if map f xs = [] then close # u else CHR '','' # json_items close (map f xs) @ u) d False False
     = depth_scan m u (d - 1) False False"
    using assms(2) rest by (cases "xs = []") auto
  then show ?case by (simp only: list.map json_items_split first)
qed

lemma depth_scan_dumps:
  "d + int (jdepth j) \<le> m \<Longrightarrow> depth_scan m (dumps_plain j @ u) d False False = depth_scan m u d False False"
proof (induction j arbitrary: u d rule: dumps_plain.induct)
  case (5 xs)
  have "depth_scan m (dumps_plain x @ v) (d + 1) False False = depth_scan m v (d + 1) False False" if "x \<in> set xs" for x v
  proof (rule 5(1) [OF that])
    have "jdepth x \<le> foldr max (map jdepth xs) 0"
      using max_list_le [of "map jdepth xs" "foldr max (map jdepth xs) 0"] that by simp
    with 5(2) show "d + 1 + int (jdepth x) \<le> m" by simp
  qed
  from depth_scan_items [of xs m dumps_plain "d + 1", OF this] 5(2) show ?case by simp
next
  case (6 kvs)
  have "depth_scan m (member_text x @ v) (d + 1) False False = depth_scan m v (d + 1) False False" if "x \<in> set kvs" for x v
  proof -
    have "jdepth (snd x) \<le> foldr max (map (\<lambda>(k, v). jdepth v) kvs) 0"
      using max_list_le [of "map (\<lambda>(k, v). jdepth v) kvs" "foldr max (map (\<lambda>(k, v). jdepth v) kvs) 0"] that
      by (simp add: case_prod_beta)
    with 6(2) have "d + 1 + int (jdepth (snd x)) \<le> m" by simp
    from 6(1) [OF that, of "fst x" "snd x", OF _ this] show ?thesis by (simp add: depth_scan_quote case_prod_beta)
  qed
  from depth_scan_items [of kvs m member_text "d + 1", OF this] 6(2) show ?case by simp
qed (simp_all add: depth_scan_quote depth_scan_atoms literal_atoms int_text_atoms)

lemma rendered_document_decoded:
  assumes "keeps observed_hooks (sort_keys v)" and "json_strings utf8_valid v" and "int (jdepth v) \<le> depth"
    and "int (length (dumps v)) \<le> max_bytes"
  shows "decode_json_bytes (dumps v) max_bytes depth = Inr (sort_keys v)"
proof -
  have "depth_scan depth (dumps_plain (sort_keys v) @ []) 0 False False = depth_scan depth [] 0 False False"
    by (rule depth_scan_dumps) (use assms(3) sort_keys_depth [of v] in simp)
  then have "depth_scan depth (dumps v) 0 False False = Inr ()" by (simp add: dumps_sort_keys)
  moreover have "utf8_valid (dumps v)" unfolding dumps_sort_keys
    by (rule utf8_valid_dumps) (use assms(2) in \<open>simp add: sort_keys_strings\<close>)
  ultimately show ?thesis using assms(1,4) by (simp add: decode_json_bytes_def loads_dumps)
qed

section \<open>An accepted export\<close>

definition zeros :: string where
  "zeros = replicate 64 CHR ''0''"

definition sample_hash :: "bytes \<Rightarrow> bytes" where
  "sample_hash data = replicate 32 CHR 0x00"

definition sample_tool :: "string \<Rightarrow> string \<Rightarrow> json" where
  "sample_tool role version = JObj [(''path'', JStr ''/t''), (''role'', JStr role), (''sha256'', JStr zeros), (''version'', JStr version)]"

definition sample_file :: json where
  "sample_file = JObj [(''path'', JStr ''/s''), (''sha256'', JStr zeros)]"

definition sample_producer :: json where
  "sample_producer = JObj [
     (''frontend'', JStr ''pythonsrc''),
     (''image'', JObj [(''kind'', JStr ''docker-image-id''), (''observation'', JStr ''caller-observed''), (''reference'', JStr (''sha256:'' @ zeros))]),
     (''import_mode'', JStr ''importCpg-default-overlays''),
     (''input_cpg'', sample_file),
     (''java_runtime_version'', JStr ''21''),
     (''java_tool_options'', JStr ''''),
     (''schema_version'', JInt 1),
     (''script'', sample_file),
     (''source'', JObj [(''files'', JArr []), (''root'', JStr ''/r''), (''tree_namespace'', JStr ''scanipy-source-tree/1''), (''tree_sha256'', JStr zeros)]),
     (''tools'', JArr (map (\<lambda>(role, version). sample_tool role version) TOOL_VERSIONS))]"

definition sample_capability :: "string \<Rightarrow> string \<Rightarrow> string \<times> json" where
  "sample_capability status name = (name, JObj [(''reason'', JStr ''r''), (''status'', JStr status)])"

definition sample_rows :: "json list" where
  "sample_rows = [
     JObj [(''id'', JStr ''1''), (''kind'', JStr ''META_DATA''), (''missing_properties'', JArr [JStr ''ROOT'', JStr ''VERSION'']),
           (''properties'', JObj [(''LANGUAGE'', JStr ''PYTHONSRC'')])],
     JObj [(''id'', JStr ''2''), (''kind'', JStr ''METHOD''), (''missing_properties'', JArr (map JStr [''AST_PARENT_FULL_NAME'',
             ''AST_PARENT_TYPE'', ''CODE'', ''FILENAME'', ''GENERIC_SIGNATURE'', ''IS_EXTERNAL'', ''NAME'', ''ORDER'', ''SIGNATURE''])),
           (''properties'', JObj [(''FULL_NAME'', JStr ''f'')])],
     JObj [(''id'', JStr ''3''), (''kind'', JStr ''COMMENT''), (''missing_properties'', JArr [JStr ''CODE'', JStr ''FILENAME'']),
           (''properties'', JObj [(''ORDER'', JInt 1)])]]"

definition sample_edge_rows :: "json list" where
  "sample_edge_rows = [JObj [(''dst'', JStr ''3''), (''kind'', JStr ''AST''), (''properties'', JObj []), (''src'', JStr ''2'')]]"

definition sample_export :: row where
  "sample_export = [
     (''capabilities'', JObj (sort_key fst (map (sample_capability ''completed'') RAW_CAPS @ map (sample_capability ''unsupported'') DERIVED_CAPS))),
     (''edges'', JArr sample_edge_rows), (''error'', JNull), (''format'', JStr ''scanipy-joern-export''), (''format_version'', JInt 2),
     (''nodes'', JArr sample_rows), (''producer'', sample_producer), (''status'', JStr ''completed'')]"

lemma sample_nodes_ok: "raw_nodes (JArr sample_rows) ''pythonsrc'' = Inr (map (\<lambda>v. (node_text v ''id'', json_row v)) sample_rows)"
  by code_simp

lemma sample_edges_ok: "raw_edges (JArr sample_edge_rows) (map (\<lambda>v. (node_text v ''id'', json_row v)) sample_rows)
   = Inr \<lparr>ast_parents = [(''3'', ''2'')], parameter_links = []\<rparr>"
  by code_simp

lemma zeros_digest: "digest_match zeros"
  by (simp add: zeros_def digest_match_def is_hex_def)


lemma sample_export_sorted: "sort_keys (JObj sample_export) = JObj sample_export"
  by code_simp

lemma sample_keeps: "keeps observed_hooks (JObj sample_export)"
  by code_simp

lemma sample_strings: "json_strings utf8_valid (JObj sample_export)"
  by code_simp

lemma sample_depth: "jdepth (JObj sample_export) \<le> 10"
  by code_simp

lemma sample_length: "int (length (dumps (JObj sample_export))) \<le> 3000"
  by code_simp

lemma sample_counts: "bound_document observed_defaults (JObj sample_export) = Inr ()"
  by code_simp

lemma sample_producer_ok: "raw_producer sample_hash sample_producer = Inr ''pythonsrc''"
  by code_simp

lemma sample_capabilities_ok:
  "r_each (raw_capability ''completed'') (sort_key fst (map (sample_capability ''completed'') RAW_CAPS @ map (sample_capability ''unsupported'') DERIVED_CAPS)) = Inr ()"
  by code_simp

lemma sample_shape: "set (map fst sample_export) = set [''format'', ''format_version'', ''status'', ''producer'', ''capabilities'', ''nodes'',
    ''edges'', ''error'']"
  "set (map fst (sort_key fst (map (sample_capability ''completed'') RAW_CAPS @ map (sample_capability ''unsupported'') DERIVED_CAPS))) = set (RAW_CAPS @ DERIVED_CAPS)"
  by (auto simp: sample_export_def sample_capability_def RAW_CAPS_def DERIVED_CAPS_def)

lemma sample_export_ok: "validate_raw_export sample_hash True (JObj sample_export) = Inr ()"
proof -
  have fields: "jfield sample_export ''format'' = JStr ''scanipy-joern-export''" "jfield sample_export ''format_version'' = JInt 2"
    "jfield sample_export ''producer'' = sample_producer" "jfield sample_export ''status'' = JStr ''completed''"
    "jfield sample_export ''capabilities'' = JObj (sort_key fst (map (sample_capability ''completed'') RAW_CAPS @ map (sample_capability ''unsupported'') DERIVED_CAPS))"
    "jfield sample_export ''error'' = JNull" "jfield sample_export ''nodes'' = JArr sample_rows" "jfield sample_export ''edges'' = JArr sample_edge_rows"
    by (simp_all add: sample_export_def jfield_def)
  have top: "raw_shape (JObj sample_export) [''format'', ''format_version'', ''status'', ''producer'', ''capabilities'', ''nodes'', ''edges'',
       ''error''] ''raw export'' = Inr sample_export"
    unfolding raw_shape_Inr using sample_shape(1) by blast
  have caps: "raw_shape (jfield sample_export ''capabilities'') (RAW_CAPS @ DERIVED_CAPS) ''capabilities''
     = Inr (sort_key fst (map (sample_capability ''completed'') RAW_CAPS @ map (sample_capability ''unsupported'') DERIVED_CAPS))"
    unfolding raw_shape_Inr fields(5) using sample_shape(2) by blast
  have status: "raw_string True (jfield sample_export ''status'') ''status'' = Inr ''completed''"
    unfolding raw_string_Inr fields by code_simp
  show ?thesis
    unfolding validate_raw_export_def top
    by (simp add: fields sample_producer_ok sample_capabilities_ok sample_nodes_ok sample_edges_ok caps [unfolded fields]
        status [unfolded fields] forget_def raw_check_def r_then_def del: r_each.simps)
qed


lemma sample_decoded:
  "decode_json_bytes (dumps (JObj sample_export)) (ol_max_raw_bytes observed_defaults) (ol_max_json_depth observed_defaults)
     = Inr (JObj sample_export)"
  using rendered_document_decoded [of "JObj sample_export" 32 "16 * 1024 * 1024", unfolded sample_export_sorted, OF sample_keeps sample_strings]
    sample_depth sample_length by (simp add: observed_defaults_def)

lemma sample_parsed: "\<exists>g. parse_observed_graph sample_hash (dumps (JObj sample_export)) observed_defaults = Inr g"
proof (rule parse_total)
  show "observed_checked_limits observed_defaults = Inr observed_defaults" by code_simp
  show "decode_json_bytes (dumps (JObj sample_export)) (ol_max_raw_bytes observed_defaults) (ol_max_json_depth observed_defaults)
      = Inr (JObj sample_export)"
    by (rule sample_decoded)
  show "validate_document sample_hash observed_defaults (JObj sample_export) = Inr (JObj sample_export)"
    by (simp add: validate_document_def sample_counts sample_export_ok)
qed

lemma sample_observed:
  "(case observe_nodes sample_export of Inr ns \<Rightarrow> kinds_of ns = [(''1'', ''META_DATA''), (''2'', ''METHOD''), (''3'', ''COMMENT'')] | Inl _ \<Rightarrow> False)"
  "(case observe_edges sample_export of Inr es \<Rightarrow> map (\<lambda>e. (oe_dst e, oe_src e, oe_kind e)) es = [(''3'', ''2'', ''AST'')] | Inl _ \<Rightarrow> False)"
  by code_simp+

lemma sample_graph:
  assumes "parse_observed_graph sample_hash (dumps (JObj sample_export)) observed_defaults = Inr g"
  shows "kinds_of (og_nodes g) = [(''1'', ''META_DATA''), (''2'', ''METHOD''), (''3'', ''COMMENT'')] \<and> ast_edges (og_edges g) = {(''3'', ''2'')}"
proof -
  obtain document where d: "decode_json_bytes (dumps (JObj sample_export)) (ol_max_raw_bytes observed_defaults)
      (ol_max_json_depth observed_defaults) = Inr (JObj document)"
    and parts: "observe_nodes document = Inr (og_nodes g)" "observe_edges document = Inr (og_edges g)"
    using parse_parts [OF assms] by blast
  have "document = sample_export" using d sample_decoded by simp
  with parts sample_observed have "kinds_of (og_nodes g) = [(''1'', ''META_DATA''), (''2'', ''METHOD''), (''3'', ''COMMENT'')]"
    and es: "map (\<lambda>e. (oe_dst e, oe_src e, oe_kind e)) (og_edges g) = [(''3'', ''2'', ''AST'')]" by simp_all
  moreover have "ast_edges (og_edges g) = {(''3'', ''2'')}" using es by (auto simp: ast_edges_def)
  ultimately show ?thesis by simp
qed

end
