(* ===== verification/Observed_Claims.thy ===== *)
theory Observed_Claims
  imports Observed_Sample
begin

text \<open>
  The contract of the typed observed graph: the forest and the owners that a returned graph shows,
  the exceptions that may surface, and the document it gives back.
\<close>

section \<open>Forest and ownership\<close>

lemma read_edges_ends:
  "read_edges nodes vs facts = Inr facts' \<Longrightarrow> v \<in> set vs \<Longrightarrow> node_text v ''src'' \<in> fst ` set nodes \<and> node_text v ''dst'' \<in> fst ` set nodes"
proof (induction vs arbitrary: facts)
  case (Cons w vs)
  then obtain f1 where "raw_edge nodes w facts = Inr f1" "read_edges nodes vs f1 = Inr facts'"
    by (auto simp: r_bind_Inr_iff)
  with Cons raw_edge_Inr show ?case by (metis set_ConsD)
qed simp

lemma accepted_ends:
  assumes "accepted_parts document nodes facts" and "observe_nodes document = Inr ns" and "observe_edges document = Inr es" and "e \<in> set es"
  shows "oe_src e \<in> on_node_id ` set ns \<and> oe_dst e \<in> on_node_id ` set ns"
proof -
  obtain v where v: "v \<in> set (json_items_of (jfield document ''edges''))" "same_edge v e"
    using list_all2_source [OF observe_edges_Inr [OF assms(3)] assms(4)] by blast
  have "read_edges nodes (json_items_of (jfield document ''edges'')) \<lparr>ast_parents = [], parameter_links = []\<rparr> = Inr facts"
    using assms(1) raw_edges_parts by (auto simp: accepted_parts_def)
  from read_edges_ends [OF this v(1)] v(2) show ?thesis
    using arg_cong [OF accepted_nodes(1) [OF assms(1,2)], of set] by (simp add: same_edge_def)
qed

text \<open>Everything the views rely on, collected for a returned graph.\<close>

lemma graph_structure:
  assumes "parse_observed_graph sha256 data l = Inr g"
  shows "distinct (map on_node_id (og_nodes g))"
    and "e \<in> set (og_edges g) \<Longrightarrow> oe_src e \<in> on_node_id ` set (og_nodes g) \<and> oe_dst e \<in> on_node_id ` set (og_nodes g)"
    and "parent_rel (ix_parents (index_edges (og_edges g))) = ast_edges (og_edges g)"
    and "acyclic (ast_edges (og_edges g))"
proof -
  obtain document nodes facts where acc: "accepted_parts document nodes facts"
    and ns: "observe_nodes document = Inr (og_nodes g)" and es: "observe_edges document = Inr (og_edges g)"
    using parse_parts [OF assms] by blast
  show "distinct (map on_node_id (og_nodes g))" by (rule accepted_nodes(2) [OF acc ns])
  show "e \<in> set (og_edges g) \<Longrightarrow> oe_src e \<in> on_node_id ` set (og_nodes g) \<and> oe_dst e \<in> on_node_id ` set (og_nodes g)"
    by (rule accepted_ends [OF acc ns es])
  show rel: "parent_rel (ix_parents (index_edges (og_edges g))) = ast_edges (og_edges g)" by (rule accepted_ast_edges [OF acc es])
  show "acyclic (ast_edges (og_edges g))"
    using accepted_forest [OF acc] parent_rel_cong [OF accepted_index [OF acc es]] rel by simp
qed

lemma above_is_nearest:
  assumes "method_above g c m" and "parent_rel parents = ast_edges (og_edges g)" and "distinct (map on_node_id (og_nodes g))"
  shows "nearest_method (kinds_of (og_nodes g)) parents c m"
proof -
  have kind: "map_of (kinds_of (og_nodes g)) (on_node_id n) = Some (on_kind n)" if "n \<in> set (og_nodes g)" for n
    using that assms(3) by (intro map_of_is_SomeI) (auto simp: comp_def)
  have step: "map_of parents x = Some p \<longleftrightarrow> (x, p) \<in> ast_edges (og_edges g)" for x p
    using assms(2) by (auto simp: parent_rel_def)
  from assms(1) show ?thesis
  proof (induction rule: method_above.induct)
    case (top n)
    then have "map_of parents (on_node_id n) = None" using step by (metis not_None_eq)
    with top kind show ?case by (auto intro: no_parent)
  next
    case (climb n p m)
    then show ?case using kind step by (auto intro: above)
  qed (use kind in \<open>auto intro: is_method\<close>)
qed

lemma owner_entry:
  assumes "distinct (map on_node_id ns)" and "n \<in> set ns"
  shows "List.find (\<lambda>o'. mo_node_id o' = on_node_id n) (make_ownership owned ns)
     = Some \<lparr>mo_node_id = on_node_id n, mo_method_id = dget owned (on_node_id n),
         mo_status = (if dget owned (on_node_id n) \<noteq> None then ''observed'' else ''no_method_ancestor'')\<rparr>"
  using assms by (induction ns) (auto simp: make_ownership_def Let_def)

lemma derive_views_Inr:
  assumes "derive_views ns es = Inr views"
  shows "\<exists>owned. find_owners (kinds_of ns) (ix_parents (index_edges es)) (map on_node_id ns) [] = Inr owned \<and>
     sv_ownership views = make_ownership owned ns"
  using assms by (auto simp: derive_views_def Let_def r_bind_Inr_iff)

text \<open>
  C9. Ownership. In a returned graph \<open>owner\<close> answers for every node, and the method it names is the
  nearest enclosing one: the node itself when it is a method, otherwise the first method on the walk
  along the AST edges, and none exactly when the walk ends at a root without meeting a method. The
  memoised walk over one shared forest agrees with this definition, which determines the answer.
\<close>

theorem ownership_is_nearest_method:
  assumes "parse_observed_graph sha256 data l = Inr g" and "n \<in> set (og_nodes g)"
  shows "\<exists>m. observed_owner g (on_node_id n) = Inr \<lparr>mo_node_id = on_node_id n, mo_method_id = m,
       mo_status = (if m \<noteq> None then ''observed'' else ''no_method_ancestor'')\<rparr> \<and>
     (\<forall>k. method_above g (on_node_id n) k \<longleftrightarrow> k = m)"
proof -
  note gs = graph_structure [OF assms(1)]
  obtain document nodes facts where acc: "accepted_parts document nodes facts"
    and ns: "observe_nodes document = Inr (og_nodes g)" and es: "observe_edges document = Inr (og_edges g)"
    and views: "derive_views (og_nodes g) (og_edges g) = Inr (og_views g)"
    using parse_parts [OF assms(1)] by blast
  let ?parents = "ix_parents (index_edges (og_edges g))"
  obtain owned where owned: "owners_ok (kinds_of (og_nodes g)) ?parents owned" "owns owned (on_node_id n)"
    and view: "sv_ownership (og_views g) = make_ownership owned (og_nodes g)"
    using accepted_owners [OF acc ns es] derive_views_Inr [OF views] assms(2) by auto
  obtain m where m: "map_of owned (on_node_id n) = Some m"
    using owned(2) map_of_eq_None_iff [of owned "on_node_id n"] by (cases "map_of owned (on_node_id n)") (auto simp: owns_def)
  have near: "nearest_method (kinds_of (og_nodes g)) ?parents (on_node_id n) m" using owned(1) m by (simp add: owners_ok_def)
  have ends: "\<forall>x p. (x, p) \<in> ast_edges (og_edges g) \<longrightarrow> p \<in> on_node_id ` set (og_nodes g)"
    using gs(2) by (auto simp: ast_edges_def)
  have "method_above g (on_node_id n) k \<longleftrightarrow> k = m" for k
    using nearest_is_above [OF near gs(3,1) ends] above_is_nearest [OF _ gs(3,1)] nearest_method_unique [OF near] assms(2) by blast
  moreover have "dget owned (on_node_id n) = m" using m by (simp add: dget_def)
  ultimately show ?thesis
    using owner_entry [OF gs(1) assms(2), of owned] by (auto simp: observed_owner_def view)
qed

theorem ownership_is_nearest_method_witness:
  "\<exists>g. parse_observed_graph sample_hash (dumps (JObj sample_export)) observed_defaults = Inr g \<and>
     observed_owner g ''3'' = Inr \<lparr>mo_node_id = ''3'', mo_method_id = Some ''2'', mo_status = ''observed''\<rparr>"
proof -
  obtain g where g: "parse_observed_graph sample_hash (dumps (JObj sample_export)) observed_defaults = Inr g"
    using sample_parsed by blast
  note sg = sample_graph [OF g]
  then obtain a b c where ns: "og_nodes g = [a, b, c]" and ids: "on_node_id b = ''2''" "on_kind b = ''METHOD''" "on_node_id c = ''3''" "on_kind c = ''COMMENT''"
    by auto
  have "method_above g ''2'' (Some ''2'')" using itself [of b g] ns ids by simp
  then have "method_above g ''3'' (Some ''2'')" using climb [of c g "''2''"] ns ids sg by simp
  with ownership_is_nearest_method [OF g, of c] ns ids g show ?thesis by auto
qed

text \<open>
  C12. The shape of a returned graph. Node ids are unique, both ends of every edge are nodes, a node
  has at most one AST parent however often the edge is repeated, the AST has no cycle, and formal
  parameters and return nodes hang directly under a method of the graph.
\<close>

theorem observed_graph_forest:
  assumes "parse_observed_graph sha256 data l = Inr g"
  shows "distinct (map on_node_id (og_nodes g))
     \<and> (\<forall>e \<in> set (og_edges g). {oe_src e, oe_dst e} \<subseteq> on_node_id ` set (og_nodes g))
     \<and> single_valued (ast_edges (og_edges g)) \<and> acyclic (ast_edges (og_edges g))
     \<and> (\<forall>n \<in> set (og_nodes g). on_kind n \<in> {''METHOD_PARAMETER_IN'', ''METHOD_PARAMETER_OUT'', ''METHOD_RETURN''} \<longrightarrow>
          (\<exists>p \<in> set (og_nodes g). on_kind p = ''METHOD'' \<and> (on_node_id n, on_node_id p) \<in> ast_edges (og_edges g)))"
proof (intro conjI ballI impI)
  note gs = graph_structure [OF assms]
  obtain document nodes facts where acc: "accepted_parts document nodes facts"
    and ns: "observe_nodes document = Inr (og_nodes g)" and es: "observe_edges document = Inr (og_edges g)"
    using parse_parts [OF assms] by blast
  show "distinct (map on_node_id (og_nodes g))" "acyclic (ast_edges (og_edges g))" by (rule gs)+
  show "{oe_src e, oe_dst e} \<subseteq> on_node_id ` set (og_nodes g)" if "e \<in> set (og_edges g)" for e using gs(2) [OF that] by simp
  show "single_valued (ast_edges (og_edges g))" unfolding gs(3) [symmetric] by (auto simp: single_valued_def parent_rel_def)
  fix n assume n: "n \<in> set (og_nodes g)" "on_kind n \<in> {''METHOD_PARAMETER_IN'', ''METHOD_PARAMETER_OUT'', ''METHOD_RETURN''}"
  obtain m where m: "map_of (ix_parents (index_edges (og_edges g))) (on_node_id n) = Some m" "node_kind nodes m = ''METHOD''"
    using accepted_formals [OF acc ns es n] by blast
  then have edge: "(on_node_id n, m) \<in> ast_edges (og_edges g)" unfolding gs(3) [symmetric] by (simp add: parent_rel_def)
  then obtain p where "p \<in> set (og_nodes g)" "m = on_node_id p" using gs(2) by (auto simp: ast_edges_def)
  with edge m(2) accepted_nodes(3) [OF acc ns] show "\<exists>p \<in> set (og_nodes g). on_kind p = ''METHOD'' \<and> (on_node_id n, on_node_id p) \<in> ast_edges (og_edges g)"
    by auto
qed

theorem observed_graph_forest_witness:
  "\<exists>g. parse_observed_graph sample_hash (dumps (JObj sample_export)) observed_defaults = Inr g \<and>
     acyclic (ast_edges (og_edges g)) \<and> ast_edges (og_edges g) = {(''3'', ''2'')}"
  using sample_parsed sample_graph observed_graph_forest [of sample_hash "dumps (JObj sample_export)" observed_defaults] by blast

section \<open>Failures\<close>

definition observed_codes :: "string list" where
  "observed_codes = [''invalid-limit'', ''byte-limit'', ''depth-limit'', ''duplicate-key'', ''invalid-number'', ''invalid-json'',
     ''value-limit'', ''invalid-utf8'', ''string-limit'', ''graph-count-limit'', ''source-count-limit'', ''raw-incomplete'',
     ''raw-unsupported'', ''raw-schema'', ''raw-value'']"

lemma observed_codes_members [simp]:
  "''invalid-limit'' \<in> set observed_codes" "''byte-limit'' \<in> set observed_codes" "''depth-limit'' \<in> set observed_codes"
  "''duplicate-key'' \<in> set observed_codes" "''invalid-number'' \<in> set observed_codes" "''invalid-json'' \<in> set observed_codes"
  "''value-limit'' \<in> set observed_codes" "''invalid-utf8'' \<in> set observed_codes" "''string-limit'' \<in> set observed_codes"
  "''graph-count-limit'' \<in> set observed_codes" "''source-count-limit'' \<in> set observed_codes" "''raw-incomplete'' \<in> set observed_codes"
  "''raw-unsupported'' \<in> set observed_codes" "''raw-schema'' \<in> set observed_codes" "''raw-value'' \<in> set observed_codes"
  by (simp_all add: observed_codes_def)

definition observed_failure :: "py_error \<Rightarrow> bool" where
  "observed_failure e \<longleftrightarrow> (\<exists>c \<in> set observed_codes. e = ObservedGraphError c)"

lemma observed_failure_code [simp]: "observed_failure (ObservedGraphError c) \<longleftrightarrow> c \<in> set observed_codes"
  by (simp add: observed_failure_def)

lemma observed_failure_other [simp]: "\<not> observed_failure OutOfFuel"
  by (simp add: observed_failure_def)

abbreviation observed_only :: "'a res \<Rightarrow> bool" where
  "observed_only \<equiv> raises_only observed_failure"

lemma observed_only_check: "code \<in> set observed_codes \<Longrightarrow> observed_only (og_check code b)"
  by (simp add: og_check_def)

lemma observed_only_scan: "observed_only (depth_scan m s d q e)"
proof (induction s arbitrary: d q e)
  case (Cons c s)
  show ?case unfolding depth_scan.simps by (intro raises_only_if Cons.IH) simp
qed simp

lemma observed_only_object: "observed_only (observed_unique_object result pairs)"
  by (induction result pairs rule: observed_unique_object.induct) auto

lemma observed_only_decode: "observed_only (decode_json_bytes data m d)"
proof -
  have hooks: "total_hooks observed_hooks"
    using observed_only_object [of "[]"] observed_failure_other
    by (fastforce simp: total_hooks_def observed_hooks_def default_int_def reject_number_def raises_only_def)
  have "e = JSONDecodeError \<or> (\<exists>m. e = ValueError m) \<or> observed_failure e"
    if "loads observed_hooks data = Inl e" for e
    using loads_error [OF hooks that] observed_only_object [of "[]"]
    by (auto simp: hook_error_def observed_hooks_def default_int_def reject_number_def raises_only_def split: if_splits)
  then have "observed_only (as_observed_error (loads observed_hooks data))"
    by (cases "loads observed_hooks data") (auto simp: as_observed_error_def split: py_error.split)
  then show ?thesis unfolding decode_json_bytes_def
    by (auto intro!: raises_intro observed_only_check observed_only_scan)
qed

lemma observed_only_counts: "observed_only (count_values l pending n m)"
proof (induction l pending n m rule: count_values.induct)
  case (2 l v pending n m)
  have "observed_only (count_texts l ss k)" for ss k
    by (induction l ss k rule: count_texts.induct) (auto intro!: raises_intro observed_only_check)
  with 2 show ?case by (auto intro!: raises_only_then_ok raises_only_bind observed_only_check simp: og_check_def split: if_splits)
qed simp

lemma observed_only_bound: "observed_only (bound_document l v)"
proof -
  have arr: "observed_only (array_within code j m)" if "code \<in> set observed_codes" for code j m
    using that by (cases j) (simp_all add: array_within_def observed_only_check)
  have files: "observed_only (case j of JObj source \<Rightarrow> array_within ''source-count-limit'' (jfield source ''files'') (ol_max_source_files l)
      | _ \<Rightarrow> Inr ())" for j
    by (cases j) (simp_all add: arr)
  have "observed_only (case j of JObj producer \<Rightarrow> (case jfield producer ''source'' of
        JObj source \<Rightarrow> array_within ''source-count-limit'' (jfield source ''files'') (ol_max_source_files l) | _ \<Rightarrow> Inr ()) | _ \<Rightarrow> Inr ())" for j
    by (cases j) (simp_all add: files)
  then show ?thesis unfolding bound_document_def
    by (cases v) (simp_all add: arr observed_only_counts raises_only_then del: count_values.simps)
qed

lemma observed_only_validate: "observed_only (validate_document sha256 l v)"
proof -
  have "observed_only (case validate_raw_export sha256 True v of Inr _ \<Rightarrow> Inr v | Inl e \<Rightarrow> Inl (classify_raw_error e))"
    using raw_only_export [of sha256 True v]
    by (cases "validate_raw_export sha256 True v") (auto simp: raw_failure_class_def classify_raw_error_def)
  then show ?thesis unfolding validate_document_def by (intro raises_intro observed_only_bound)
qed

lemma observed_only_limits: "observed_only (observed_checked_limits l)"
  unfolding observed_checked_limits_def
  by (auto intro!: raises_intro observed_only_check split: prod.split)

lemma validated_parses:
  assumes limits: "observed_checked_limits l = Inr l"
    and decoded: "decode_json_bytes data (ol_max_raw_bytes l) (ol_max_json_depth l) = Inr v"
    and valid: "validate_document sha256 l v = Inr w"
  shows "\<exists>g. parse_observed_graph sha256 data l = Inr g"
proof -
  have "validate_document sha256 l v = Inr v" using validated_document [OF valid] valid by blast
  then show ?thesis using parse_total [OF limits decoded] by blast
qed

text \<open>
  C13. Failures of the ingestion. For every byte string, every limit and whatever SHA-256 returns, the
  construction of a graph returns or fails with an \<open>ObservedGraphError\<close> that carries one of fifteen
  stable codes. After the document is validated nothing fails: when the limits are accepted, the bytes
  decode and the decoded value passes the validation, a graph is returned. So no \<open>KeyError\<close> of the
  views, no \<open>RawExportError\<close> and no exception of the parser surfaces, and the walks always end.
\<close>

theorem observed_graph_failures:
  "(parse_observed_graph sha256 data l = Inl e \<longrightarrow> (\<exists>c \<in> set observed_codes. e = ObservedGraphError c)) \<and>
   (observed_checked_limits l = Inr l' \<and> decode_json_bytes data (ol_max_raw_bytes l) (ol_max_json_depth l) = Inr v \<and>
      validate_document sha256 l v = Inr w \<longrightarrow> (\<exists>g. parse_observed_graph sha256 data l = Inr g))"
proof (intro conjI impI)
  assume fails: "parse_observed_graph sha256 data l = Inl e"
  consider "observed_checked_limits l = Inl e" | "observed_checked_limits l = Inr l"
    using fails observed_checked_limits_Inr by (cases "observed_checked_limits l") (auto simp: parse_observed_graph_def)
  then show "\<exists>c \<in> set observed_codes. e = ObservedGraphError c"
  proof cases
    case 1
    then show ?thesis using observed_only_limits [of l] by (simp add: raises_only_def observed_failure_def)
  next
    case limits: 2
    show ?thesis
    proof (cases "decode_json_bytes data (ol_max_raw_bytes l) (ol_max_json_depth l)")
      case (Inl f)
      with fails limits observed_only_decode show ?thesis by (auto simp: parse_observed_graph_def raises_only_def observed_failure_def)
    next
      case decoded: (Inr v)
      have "validate_document sha256 l v = Inl e"
      proof (cases "validate_document sha256 l v")
        case (Inr w)
        from validated_parses [OF limits decoded Inr] fails show ?thesis by simp
      qed (use fails limits decoded in \<open>simp add: parse_observed_graph_def\<close>)
      then show ?thesis using observed_only_validate [of sha256 l v] by (simp add: raises_only_def observed_failure_def)
    qed
  qed
next
  assume "observed_checked_limits l = Inr l' \<and> decode_json_bytes data (ol_max_raw_bytes l) (ol_max_json_depth l) = Inr v \<and>
    validate_document sha256 l v = Inr w"
  then show "\<exists>g. parse_observed_graph sha256 data l = Inr g"
    using observed_checked_limits_Inr validated_parses by metis
qed

theorem observed_graph_failures_witness:
  "parse_observed_graph sample_hash ''[1.5]'' observed_defaults = Inl (ObservedGraphError ''invalid-number'') \<and>
   ''invalid-number'' \<in> set observed_codes \<and>
   (\<exists>g. parse_observed_graph sample_hash (dumps (JObj sample_export)) observed_defaults = Inr g)"
proof -
  have fails: "parse_observed_graph sample_hash ''[1.5]'' observed_defaults = Inl (ObservedGraphError ''invalid-number'')" by code_simp
  have limits: "observed_checked_limits observed_defaults = Inr observed_defaults" by code_simp
  have valid: "validate_document sample_hash observed_defaults (JObj sample_export) = Inr (JObj sample_export)"
    by (simp add: validate_document_def sample_counts sample_export_ok)
  from observed_graph_failures [of sample_hash "''[1.5]''" observed_defaults "ObservedGraphError ''invalid-number''"] fails
    observed_graph_failures [of sample_hash "dumps (JObj sample_export)" observed_defaults TypeError observed_defaults "JObj sample_export"
      "JObj sample_export"] limits sample_decoded valid
  show ?thesis by simp
qed

section \<open>The captured document\<close>

text \<open>
  A graph gives its document back. A returned graph passes \<open>validate_observed_graph\<close>, and
  \<open>to_raw_document\<close> returns the value that the bytes decode to with the entries of every object in key
  order: freezing, the views and thawing lose nothing and add nothing. The decoded value has no object
  with a repeated key.
\<close>

theorem raw_document_kept:
  assumes "parse_observed_graph sha256 data l = Inr g"
  shows "validate_observed_graph sha256 g = Inr () \<and>
     (\<exists>v. decode_json_bytes data (ol_max_raw_bytes l) (ol_max_json_depth l) = Inr v \<and> keys_distinct v \<and>
        to_raw_document sha256 g = Inr (sort_keys v))"
proof -
  obtain document where d: "decode_json_bytes data (ol_max_raw_bytes l) (ol_max_json_depth l) = Inr (JObj document)"
    and f: "freeze_value (JObj document) = Inr (og_document g)" and same: "og_bytes g = data" "og_limits g = l" "observed_checked_limits l = Inr l"
    using parse_parts [OF assms] by blast
  have ok: "validate_observed_graph sha256 g = Inr ()"
    unfolding validate_observed_graph_def same using assms same(3) by simp
  then have "to_raw_document sha256 g = Inr (sort_keys (JObj document))"
    using freeze_ok [OF f] by (simp add: to_raw_document_def)
  with ok d decoded_keys_distinct [OF d] show ?thesis by blast
qed

theorem raw_document_kept_witness:
  "\<exists>g. parse_observed_graph sample_hash (dumps (JObj sample_export)) observed_defaults = Inr g \<and>
     to_raw_document sample_hash g = Inr (JObj sample_export)"
proof -
  obtain g where g: "parse_observed_graph sample_hash (dumps (JObj sample_export)) observed_defaults = Inr g"
    using sample_parsed by blast
  from raw_document_kept [OF g] sample_decoded sample_export_sorted g show ?thesis by auto
qed

end
