(* ===== verification/Regex.thy ===== *)
theory Regex
  imports Json_Parse
begin

text \<open>
  Texts as sequences of characters, and the part of Python's \<open>re\<close> and \<open>str\<close> that the parsers and
  detectors use. A \<open>str\<close> is its UTF-8 bytes; a character is the byte string of one code point. What
  the Unicode database says of characters outside ASCII is a parameter.

  A pattern denotes a relation between positions (\<open>rx_sem\<close>); the matcher enumerates the ends of a
  match and is shown equal to it.
\<close>

section \<open>Characters\<close>

type_synonym text_chars = "string list"

function units :: "string \<Rightarrow> text_chars" where
  "units [] = []"
| "units (a # s) =
     (let k = (case utf8_tail a of Some k \<Rightarrow> k | None \<Rightarrow> 0) in (a # take k s) # units (drop k s))"
  by pat_completeness auto

termination
  by (relation "measure length") auto

definition unit_ok :: "string \<Rightarrow> bool" where
  "unit_ok u \<longleftrightarrow> u \<noteq> [] \<and> length u = Suc (case utf8_tail (hd u) of Some k \<Rightarrow> k | None \<Rightarrow> 0)"

definition text_ok_chars :: "string \<Rightarrow> bool" where
  "text_ok_chars s \<longleftrightarrow> list_all unit_ok (units s)"

lemma concat_units [simp]: "concat (units s) = s"
  by (induction s rule: units.induct) (simp_all add: Let_def)

lemma units_concat: "list_all unit_ok us \<Longrightarrow> units (concat us) = us"
proof (induction us)
  case (Cons u us)
  then obtain a t where u: "u = a # t" "length t = (case utf8_tail a of Some k \<Rightarrow> k | None \<Rightarrow> 0)"
    by (cases u) (auto simp: unit_ok_def)
  with Cons show ?case by (simp add: Let_def)
qed simp

text \<open>The Unicode database, consulted for characters outside ASCII only.\<close>

record unicode =
  uc_word :: "string \<Rightarrow> bool"
  uc_digit :: "string \<Rightarrow> bool"
  uc_lower :: "string \<Rightarrow> string"

definition is_ascii :: "string \<Rightarrow> bool" where
  "is_ascii u \<longleftrightarrow> (case u of [c] \<Rightarrow> of_char c < (128 :: nat) | _ \<Rightarrow> False)"

definition ascii_letter :: "string \<Rightarrow> bool" where
  "ascii_letter u \<longleftrightarrow> (case u of [c] \<Rightarrow> in_range 65 90 c \<or> in_range 97 122 c | _ \<Rightarrow> False)"

definition ascii_digit :: "string \<Rightarrow> bool" where
  "ascii_digit u \<longleftrightarrow> (case u of [c] \<Rightarrow> in_range 48 57 c | _ \<Rightarrow> False)"

text \<open>\<open>\w\<close>, \<open>\d\<close> and \<open>\s\<close>; the last agrees with \<open>str.isspace\<close>.\<close>

definition word_char :: "unicode \<Rightarrow> string \<Rightarrow> bool" where
  "word_char uc u \<longleftrightarrow> (if is_ascii u then ascii_letter u \<or> ascii_digit u \<or> u = ''_'' else uc_word uc u)"

definition digit_char :: "unicode \<Rightarrow> string \<Rightarrow> bool" where
  "digit_char uc u \<longleftrightarrow> (if is_ascii u then ascii_digit u else uc_digit uc u)"

definition other_spaces :: "string list" where
  "other_spaces = [[CHR 0xC2, CHR 0x85], [CHR 0xC2, CHR 0xA0], [CHR 0xE1, CHR 0x9A, CHR 0x80],
     [CHR 0xE2, CHR 0x80, CHR 0x80], [CHR 0xE2, CHR 0x80, CHR 0x81], [CHR 0xE2, CHR 0x80, CHR 0x82], [CHR 0xE2, CHR 0x80, CHR 0x83],
     [CHR 0xE2, CHR 0x80, CHR 0x84], [CHR 0xE2, CHR 0x80, CHR 0x85], [CHR 0xE2, CHR 0x80, CHR 0x86], [CHR 0xE2, CHR 0x80, CHR 0x87],
     [CHR 0xE2, CHR 0x80, CHR 0x88], [CHR 0xE2, CHR 0x80, CHR 0x89], [CHR 0xE2, CHR 0x80, CHR 0x8A], [CHR 0xE2, CHR 0x80, CHR 0xA8],
     [CHR 0xE2, CHR 0x80, CHR 0xA9], [CHR 0xE2, CHR 0x80, CHR 0xAF], [CHR 0xE2, CHR 0x81, CHR 0x9F], [CHR 0xE3, CHR 0x80, CHR 0x80]]"

definition space_char :: "string \<Rightarrow> bool" where
  "space_char u \<longleftrightarrow> (case u of [c] \<Rightarrow> in_range 9 13 c \<or> in_range 28 32 c | _ \<Rightarrow> u \<in> set other_spaces)"

text \<open>\<open>str.lower\<close>: ASCII texts letter by letter, other texts by the database.\<close>

definition ascii_lower :: "string \<Rightarrow> string" where
  "ascii_lower s = map (\<lambda>c. if in_range 65 90 c then char_of (of_char c + 32 :: nat) else c) s"

definition lower :: "unicode \<Rightarrow> string \<Rightarrow> string" where
  "lower uc s = (if list_all (\<lambda>c. of_char c < (128 :: nat)) s then ascii_lower s else uc_lower uc s)"

text \<open>\<open>strip()\<close>, \<open>rstrip()\<close> and \<open>strip(chars)\<close>.\<close>

definition rstrip_by :: "(string \<Rightarrow> bool) \<Rightarrow> text_chars \<Rightarrow> text_chars" where
  "rstrip_by P us = rev (dropWhile P (rev us))"

definition strip_by :: "(string \<Rightarrow> bool) \<Rightarrow> text_chars \<Rightarrow> text_chars" where
  "strip_by P us = rstrip_by P (dropWhile P us)"

abbreviation strip :: "text_chars \<Rightarrow> text_chars" where
  "strip \<equiv> strip_by space_char"

lemma set_strip: "set (strip_by P us) \<subseteq> set us"
  by (auto simp: strip_by_def rstrip_by_def dest!: set_dropWhileD)

text \<open>\<open>str.splitlines()\<close>\<close>

definition line_break :: "string \<Rightarrow> bool" where
  "line_break u \<longleftrightarrow> (case u of [c] \<Rightarrow> in_range 10 13 c \<or> in_range 28 30 c
     | _ \<Rightarrow> u \<in> set [[CHR 0xC2, CHR 0x85], [CHR 0xE2, CHR 0x80, CHR 0xA8], [CHR 0xE2, CHR 0x80, CHR 0xA9]])"

fun splitlines_from :: "text_chars \<Rightarrow> text_chars \<Rightarrow> text_chars list" where
  "splitlines_from line [] = (if line = [] then [] else [line])"
| "splitlines_from line (u # us) =
     (if line_break u then
        line # splitlines_from [] (if u = [CHR 0x0D] \<and> us \<noteq> [] \<and> hd us = [CHR 0x0A] then tl us else us)
      else splitlines_from (line @ [u]) us)"

abbreviation splitlines :: "text_chars \<Rightarrow> text_chars list" where
  "splitlines \<equiv> splitlines_from []"

text \<open>\<open>s.split(u)\<close> for one character, and what precedes its first occurrence.\<close>

fun split_at :: "string \<Rightarrow> text_chars \<Rightarrow> text_chars list" where
  "split_at u [] = [[]]"
| "split_at u (v # vs) =
     (if v = u then [] # split_at u vs
      else case split_at u vs of [] \<Rightarrow> [[v]] | p # ps \<Rightarrow> (v # p) # ps)"

section \<open>Patterns\<close>

datatype rx =
    Eps
  | Cls "string \<Rightarrow> bool"
  | Seq rx rx
  | Alt rx rx
  | Star rx
  | Bound
  | NotAhead rx

text \<open>A position: the characters before it, last first, and those after it.\<close>

type_synonym position = "text_chars \<times> text_chars"

definition at_bound :: "unicode \<Rightarrow> position \<Rightarrow> bool" where
  "at_bound uc p \<longleftrightarrow> (fst p \<noteq> [] \<and> word_char uc (hd (fst p))) \<noteq> (snd p \<noteq> [] \<and> word_char uc (hd (snd p)))"

primrec rx_sem :: "unicode \<Rightarrow> rx \<Rightarrow> (position \<times> position) set" where
  "rx_sem uc Eps = Id"
| "rx_sem uc (Cls P) = {((l, u # r), (u # l, r)) | l u r. P u}"
| "rx_sem uc (Seq a b) = rx_sem uc a O rx_sem uc b"
| "rx_sem uc (Alt a b) = rx_sem uc a \<union> rx_sem uc b"
| "rx_sem uc (Star a) = (rx_sem uc a)\<^sup>*"
| "rx_sem uc Bound = {(p, p) | p. at_bound uc p}"
| "rx_sem uc (NotAhead a) = {(p, p) | p. \<nexists>q. (p, q) \<in> rx_sem uc a}"

text \<open>The ends of the matches that start at a position.\<close>

function rx_ends :: "unicode \<Rightarrow> rx \<Rightarrow> position \<Rightarrow> position list" where
  "rx_ends uc Eps p = [p]"
| "rx_ends uc (Cls P) p = (case snd p of [] \<Rightarrow> [] | u # r \<Rightarrow> if P u then [(u # fst p, r)] else [])"
| "rx_ends uc (Seq a b) p = concat (map (rx_ends uc b) (rx_ends uc a p))"
| "rx_ends uc (Alt a b) p = rx_ends uc a p @ rx_ends uc b p"
| "rx_ends uc (Star a) p =
     p # concat (map (\<lambda>q. if length (snd q) < length (snd p) then rx_ends uc (Star a) q else []) (rx_ends uc a p))"
| "rx_ends uc Bound p = (if at_bound uc p then [p] else [])"
| "rx_ends uc (NotAhead a) p = (if rx_ends uc a p = [] then [p] else [])"
  by pat_completeness auto

termination
  by (relation "measures [\<lambda>(uc, r, p). size r, \<lambda>(uc, r, p). length (snd p)]") auto

declare rx_ends.simps(5) [simp del]

lemma rx_sem_moves: "(p, q) \<in> rx_sem uc r \<Longrightarrow> \<exists>xs. snd p = xs @ snd q \<and> fst q = rev xs @ fst p"
proof (induction r arbitrary: p q)
  case (Seq a b)
  then obtain m where "(p, m) \<in> rx_sem uc a" "(m, q) \<in> rx_sem uc b" by auto
  with Seq.IH [of p m] Seq.IH(2) [of m q] show ?case by (metis append.assoc rev_append)
next
  case (Star a)
  from Star.prems have "(p, q) \<in> (rx_sem uc a)\<^sup>*" by simp
  then show ?case
  proof (induction rule: rtrancl_induct)
    case (step m q)
    with Star.IH [of m q] show ?case by (metis append.assoc rev_append)
  qed simp
qed auto

lemma rx_sem_still: "(p, q) \<in> rx_sem uc r \<Longrightarrow> \<not> length (snd q) < length (snd p) \<Longrightarrow> q = p"
  using rx_sem_moves [of p q uc r] by (cases p; cases q) auto

text \<open>The matcher finds exactly the matches that the pattern denotes.\<close>

lemma rx_ends_exact: "set (rx_ends uc r p) = {q. (p, q) \<in> rx_sem uc r}"
proof (induction uc r p rule: rx_ends.induct)
  case (2 uc P p)
  then show ?case by (cases p; cases "snd p") auto
next
  case (5 uc a p)
  have step: "set (rx_ends uc (Star a) q) = {r. (q, r) \<in> (rx_sem uc a)\<^sup>*}"
    if "(p, q) \<in> rx_sem uc a" "length (snd q) < length (snd p)" for q
    using 5(2) [of q] 5(1) that by auto
  have "(p, r) \<in> (rx_sem uc a)\<^sup>* \<longleftrightarrow> r = p \<or> (\<exists>q. (p, q) \<in> rx_sem uc a \<and> length (snd q) < length (snd p) \<and> (q, r) \<in> (rx_sem uc a)\<^sup>*)" for r
  proof
    assume "(p, r) \<in> (rx_sem uc a)\<^sup>*"
    then show "r = p \<or> (\<exists>q. (p, q) \<in> rx_sem uc a \<and> length (snd q) < length (snd p) \<and> (q, r) \<in> (rx_sem uc a)\<^sup>*)"
    proof (induction rule: converse_rtrancl_induct)
      case (step y z)
      then show ?case using rx_sem_still [of y z uc a] by blast
    qed simp
  qed (auto intro: converse_rtrancl_into_rtrancl)
  note star = this
  show ?case
  proof (rule set_eqI)
    fix r
    have "r \<in> set (rx_ends uc (Star a) p) \<longleftrightarrow> r = p \<or> (\<exists>q. (p, q) \<in> rx_sem uc a \<and> length (snd q) < length (snd p) \<and> r \<in> set (rx_ends uc (Star a) q))"
      using 5(1) by (auto simp: rx_ends.simps(5) [of uc a p] split: if_splits)
    also have "\<dots> \<longleftrightarrow> (p, r) \<in> (rx_sem uc a)\<^sup>*" unfolding star [of r] using step by blast
    finally show "r \<in> set (rx_ends uc (Star a) p) \<longleftrightarrow> r \<in> {q. (p, q) \<in> rx_sem uc (Star a)}" by simp
  qed
next
  case (7 uc a p)
  then have "rx_ends uc a p = [] \<longleftrightarrow> (\<nexists>q. (p, q) \<in> rx_sem uc a)"
    by (metis (mono_tags) Collect_empty_eq set_empty)
  then show ?case by auto
qed (auto simp: relcomp_unfold)

text \<open>\<open>re.search\<close> as a test, and \<open>re.match\<close> against a pattern that ends with \<open>$\<close>.\<close>

fun positions :: "text_chars \<Rightarrow> text_chars \<Rightarrow> position list" where
  "positions l [] = [(l, [])]"
| "positions l (u # r) = (l, u # r) # positions (u # l) r"

definition rx_search :: "unicode \<Rightarrow> rx \<Rightarrow> text_chars \<Rightarrow> bool" where
  "rx_search uc r s \<longleftrightarrow> list_ex (\<lambda>p. rx_ends uc r p \<noteq> []) (positions [] s)"

lemma set_positions: "set (positions l r) = {(rev xs @ l, ys) | xs ys. r = xs @ ys}"
proof (induction r arbitrary: l)
  case (Cons u r)
  have "{(rev xs @ l, ys) | xs ys. u # r = xs @ ys} = insert (l, u # r) {(rev xs @ u # l, ys) | xs ys. r = xs @ ys}"
    by (auto simp: Cons_eq_append_conv)
  with Cons show ?case by simp
qed simp

lemma rx_search_iff: "rx_search uc r s \<longleftrightarrow> (\<exists>xs ys q. s = xs @ ys \<and> ((rev xs, ys), q) \<in> rx_sem uc r)"
proof -
  have "rx_ends uc r p \<noteq> [] \<longleftrightarrow> (\<exists>q. (p, q) \<in> rx_sem uc r)" for p
    using rx_ends_exact [of uc r p] by (metis (mono_tags) empty_Collect_eq ex_in_conv mem_Collect_eq set_empty)
  then show ?thesis by (auto simp: rx_search_def list_ex_iff set_positions)
qed

text \<open>\<open>$\<close> holds at the end and before a final line feed.\<close>

definition at_end :: "position \<Rightarrow> bool" where
  "at_end p \<longleftrightarrow> snd p = [] \<or> snd p = [[CHR 0x0A]]"

definition rx_match_end :: "unicode \<Rightarrow> rx \<Rightarrow> text_chars \<Rightarrow> bool" where
  "rx_match_end uc r s \<longleftrightarrow> list_ex at_end (rx_ends uc r ([], s))"

text \<open>Abbreviations for patterns.\<close>

definition Ch :: "char \<Rightarrow> rx" where
  "Ch c = Cls (\<lambda>u. u = [c])"

fun Lit :: "string \<Rightarrow> rx" where
  "Lit [] = Eps"
| "Lit [c] = Ch c"
| "Lit (c # s) = Seq (Ch c) (Lit s)"

fun Alts :: "rx list \<Rightarrow> rx" where
  "Alts [] = Alt (NotAhead Eps) (NotAhead Eps)"
| "Alts [r] = r"
| "Alts (r # rs) = Alt r (Alts rs)"

fun Seqs :: "rx list \<Rightarrow> rx" where
  "Seqs [] = Eps"
| "Seqs [r] = r"
| "Seqs (r # rs) = Seq r (Seqs rs)"

definition Spaces :: rx where
  "Spaces = Star (Cls space_char)"

definition Words :: "unicode \<Rightarrow> rx" where
  "Words uc = Star (Cls (word_char uc))"

definition Opt :: "rx \<Rightarrow> rx" where
  "Opt r = Alt r Eps"

definition Plus :: "rx \<Rightarrow> rx" where
  "Plus r = Seq r (Star r)"

definition name_start :: "string \<Rightarrow> bool" where
  "name_start u \<longleftrightarrow> ascii_letter u \<or> u = ''_''"

text \<open>\<open>[A-Za-z_]\w*\<close>\<close>

definition Name :: "unicode \<Rightarrow> rx" where
  "Name uc = Seq (Cls name_start) (Words uc)"

end
