(* ===== verification/Dsl_Parser.thy ===== *)
theory Dsl_Parser
  imports Regex Dsl_Spec
begin

text \<open>
  \<open>analysis/ifds/dsl/parser.py\<close>: the membership test of the clause language, from the text of a
  specification file to the parsed \<open>spec\<close>, and the re-validation of a specification built by hand.

  A \<open>DSLError\<close> keeps its code, line and column; the message and the suggested fix are texts for the
  reader. The messages of E-DSL-005 and E-DSL-007 name an arbitrary element of a set.
\<close>

section \<open>Keywords and escape hatches\<close>

definition SEQUENCING_KW :: "string list" where
  "SEQUENCING_KW = [''then'', ''seq'', '';'']"

definition CONDITIONAL_KW :: "string list" where
  "CONDITIONAL_KW = [''if'', ''when'', ''guard'', ''else'']"

definition FIXPOINT_KW :: "string list" where
  "FIXPOINT_KW = [''fixpoint'', ''closure'', ''rec'']"

definition RE_RAW_REGEX :: rx where
  "RE_RAW_REGEX = Alts [Seqs [Bound, Lit ''re.compile'', Bound], Seqs [Bound, Lit ''regex'', Spaces, Ch CHR ''(''],
     Seq (Ch CHR ''r'') (Alt (Ch CHR 0x27) (Ch CHR 0x22))]"

definition RE_SEMGREP :: rx where
  "RE_SEMGREP = Seqs [Bound, Lit ''semgrep'', Bound]"

text \<open>\<open>re.IGNORECASE\<close>: no character outside ASCII folds to a letter of these patterns.\<close>

fun LitI :: "string \<Rightarrow> rx" where
  "LitI [] = Eps"
| "LitI (c # s) = Seq (Cls (\<lambda>u. ascii_lower u = [c])) (LitI s)"

definition RE_CPG_QUERY :: rx where
  "RE_CPG_QUERY = Alts [Seq Bound (LitI ''cpg.''), Seqs [Bound, LitI ''cpg-query'', Bound], Seqs [Bound, LitI ''codeql'', Bound]]"

definition RE_LAMBDA :: rx where
  "RE_LAMBDA = Alt (Seqs [Bound, Lit ''lambda'', Bound]) (Seqs [Bound, Lit ''def'', Bound])"

definition PROPAGATE_ARROW :: string where
  "PROPAGATE_ARROW = [CHR 0xE2, CHR 0x86, CHR 0x92]"

definition ARG_REF :: "unicode \<Rightarrow> rx" where
  "ARG_REF uc = Seqs [Lit ''arg['', Alt (Plus (Cls (digit_char uc))) (Name uc), Ch CHR '']'']"

definition FIELD_REF :: "unicode \<Rightarrow> rx" where
  "FIELD_REF uc = Alt (Seqs [Lit ''field['', Name uc, Ch CHR '']'']) (Seq (Lit ''this.'') (Name uc))"

definition RETURN_REF :: string where
  "RETURN_REF = ''ret''"

text \<open>\<open>re.findall(r"[A-Za-z_]\w*|;", text)\<close>, lowercased; the first argument is the open word.\<close>

fun word_tokens_from :: "unicode \<Rightarrow> text_chars \<Rightarrow> text_chars \<Rightarrow> string list" where
  "word_tokens_from uc w [] = (if w = [] then [] else [lower uc (concat w)])"
| "word_tokens_from uc w (u # us) =
     (if w \<noteq> [] \<and> word_char uc u then word_tokens_from uc (w @ [u]) us
      else (if w = [] then [] else [lower uc (concat w)]) @
        (if name_start u then word_tokens_from uc [u] us
         else (if u = '';'' then ['';''] else []) @ word_tokens_from uc [] us))"

definition word_tokens :: "unicode \<Rightarrow> text_chars \<Rightarrow> string list" where
  "word_tokens uc s = word_tokens_from uc [] s"

definition reject :: "string \<Rightarrow> nat \<Rightarrow> nat \<Rightarrow> 'a res" where
  "reject code line col = Inl (DSLError code line col)"

definition check_escape_hatches :: "unicode \<Rightarrow> text_chars \<Rightarrow> nat \<Rightarrow> nat \<Rightarrow> unit res" where
  "check_escape_hatches uc body line base_col =
     (if rx_search uc RE_SEMGREP body then reject ''E-DSL-002'' line base_col
      else if rx_search uc RE_CPG_QUERY body then reject ''E-DSL-003'' line base_col
      else if rx_search uc RE_LAMBDA body then reject ''E-DSL-004'' line base_col
      else if rx_search uc RE_RAW_REGEX body then reject ''E-DSL-001'' line base_col
      else Inr ())"

definition check_composition_keywords :: "unicode \<Rightarrow> text_chars \<Rightarrow> nat \<Rightarrow> unit res" where
  "check_composition_keywords uc raw_line line =
     (let tokens = word_tokens uc raw_line in
      if list_ex (\<lambda>t. t \<in> set CONDITIONAL_KW) tokens then reject ''E-DSL-006'' line 1
      else if list_ex (\<lambda>t. t \<in> set SEQUENCING_KW) tokens then reject ''E-DSL-005'' line 1
      else if list_ex (\<lambda>t. t \<in> set FIXPOINT_KW) tokens then reject ''E-DSL-007'' line 1
      else Inr ())"

section \<open>Clauses\<close>

text \<open>
  \<open>re.match(r"^\s*([A-Za-z_]\w*)\s*\((.*)\)\s*$", raw_line)\<close> on a stripped line, which contains no
  line break: the head, the body and the index of the body. The head ends at the first character
  that is not of a word, so the match is unique.
\<close>

definition match_clause :: "unicode \<Rightarrow> text_chars \<Rightarrow> (text_chars \<times> text_chars \<times> nat) option" where
  "match_clause uc raw_line =
     (let head = takeWhile (word_char uc) raw_line; rest = dropWhile space_char (dropWhile (word_char uc) raw_line) in
      if raw_line \<noteq> [] \<and> name_start (hd raw_line) \<and> rest \<noteq> [] \<and> hd rest = ''('' \<and> tl rest \<noteq> [] \<and> last rest = '')''
      then Some (head, butlast (tl rest), length raw_line - length (tl rest))
      else None)"

text \<open>\<open>body.partition(arrow)\<close>; the caller has seen the arrow.\<close>

definition partition_at :: "string \<Rightarrow> text_chars \<Rightarrow> text_chars \<times> text_chars" where
  "partition_at u s = (takeWhile (\<lambda>v. v \<noteq> u) s, tl (dropWhile (\<lambda>v. v \<noteq> u) s))"

definition arg_ref :: "unicode \<Rightarrow> string \<Rightarrow> bool" where
  "arg_ref uc s \<longleftrightarrow> rx_match_end uc (ARG_REF uc) (units s)"

definition field_ref :: "unicode \<Rightarrow> string \<Rightarrow> bool" where
  "field_ref uc s \<longleftrightarrow> rx_match_end uc (FIELD_REF uc) (units s)"

definition parse_propagate :: "unicode \<Rightarrow> text_chars \<Rightarrow> nat \<Rightarrow> clause res" where
  "parse_propagate uc body line =
     (if PROPAGATE_ARROW \<notin> set body then reject ''E-DSL-008'' line 1
      else
        let (left, right) = partition_at PROPAGATE_ARROW body; src = concat (strip left); tgt = concat (strip right) in
        if \<not> (arg_ref uc src \<or> field_ref uc src) \<or> \<not> (tgt = RETURN_REF \<or> field_ref uc tgt) then reject ''E-DSL-008'' line 1
        else if tgt = RETURN_REF then Inr (Propagate src ''ret'') else Inr (Propagate src tgt))"

definition parse_clause :: "unicode \<Rightarrow> text_chars \<Rightarrow> nat \<Rightarrow> clause res" where
  "parse_clause uc raw_line line =
     r_then (check_composition_keywords uc raw_line line)
     (case match_clause uc raw_line of
        None \<Rightarrow> reject ''E-DSL-008'' line 1
      | Some (name, inner, start) \<Rightarrow>
          let head = lower uc (concat name); body = strip inner in
          if head \<notin> set PRIMITIVE_HEADS then reject ''E-DSL-008'' line 1
          else r_then (check_escape_hatches uc body line (start + 1))
            (if head = ''propagate'' then parse_propagate uc body line
             else if head = ''source'' then Inr (Source (concat body))
             else if head = ''sink'' then Inr (Sink (concat body))
             else Inr (Sanitize (concat body))))"

section \<open>Re-validation\<close>

definition revalidate_clause :: "unicode \<Rightarrow> clause \<Rightarrow> unit res" where
  "revalidate_clause uc c =
     (case c of
        Propagate src tgt \<Rightarrow>
          if \<not> (arg_ref uc src \<or> field_ref uc src) \<or> \<not> (tgt = RETURN_REF \<or> field_ref uc tgt)
          then reject ''E-DSL-008'' 0 1 else Inr ()
      | Source p \<Rightarrow> check_escape_hatches uc (units p) 0 1
      | Sink p \<Rightarrow> check_escape_hatches uc (units p) 0 1
      | Sanitize p \<Rightarrow> check_escape_hatches uc (units p) 0 1)"

definition revalidate_spec :: "unicode \<Rightarrow> spec \<Rightarrow> unit res" where
  "revalidate_spec uc s = r_each (revalidate_clause uc) (clauses s)"

section \<open>Header and file\<close>

type_synonym header = "(string \<times> text_chars) list"

definition HEADER_KEYS :: "string list" where
  "HEADER_KEYS = [''id'', ''class'', ''languages'', ''engine'']"

text \<open>
  \<open>re.match(r"^\s*(id|class|languages|engine)\s*:\s*(.*)$", stripped)\<close>: no key is a prefix of another,
  so at most one alternative reaches the colon.
\<close>

definition match_key :: "text_chars \<Rightarrow> string \<Rightarrow> (string \<times> text_chars) option" where
  "match_key s key =
     (let us = units key; rest = dropWhile space_char (drop (length us) s) in
      if take (length us) s = us \<and> rest \<noteq> [] \<and> hd rest = '':'' then Some (key, dropWhile space_char (tl rest)) else None)"

definition match_header :: "text_chars \<Rightarrow> (string \<times> text_chars) option" where
  "match_header s =
     (case List.map_filter (match_key (dropWhile space_char s)) HEADER_KEYS of [] \<Rightarrow> None | m # _ \<Rightarrow> Some m)"

definition header_get :: "header \<Rightarrow> string \<Rightarrow> text_chars" where
  "header_get h key = (case map_of h key of None \<Rightarrow> [] | Some v \<Rightarrow> v)"

definition unquote :: "text_chars \<Rightarrow> string" where
  "unquote s = concat (strip_by (\<lambda>u. u = [CHR 0x22]) (strip s))"

definition parse_header :: "header \<Rightarrow> (string \<times> string \<times> string list \<times> string) res" where
  "parse_header h =
     (let spec_id = unquote (header_get h ''id''); class_raw = unquote (header_get h ''class'');
          engine_raw = unquote (header_get h ''engine''); langs_raw = strip (header_get h ''languages'');
          langs = map unquote (filter (\<lambda>x. strip x \<noteq> []) (split_at '','' (strip_by (\<lambda>u. u = ''['' \<or> u = '']'') langs_raw))) in
      if engine_raw \<notin> set DSL_ENGINES then reject ''E-DSL-009'' 1 1
      else if class_raw \<notin> set CLASS_NAMES then reject ''E-DSL-008'' 1 1
      else if list_ex (\<lambda>x. x \<notin> set LANGUAGES) langs \<or> langs = [] then reject ''E-DSL-008'' 1 1
      else Inr (spec_id, class_raw, langs, engine_raw))"

text \<open>The loop over the lines.\<close>

fun parse_lines :: "unicode \<Rightarrow> nat \<Rightarrow> text_chars list \<Rightarrow> header \<Rightarrow> clause list \<Rightarrow> (header \<times> clause list) res" where
  "parse_lines uc idx [] h cs = Inr (h, cs)"
| "parse_lines uc idx (raw # lines) h cs =
     (let stripped = rstrip_by space_char (takeWhile (\<lambda>u. u \<noteq> ''#'') raw) in
      if strip stripped = [] then parse_lines uc (idx + 1) lines h cs
      else case match_header stripped of
        Some (key, v) \<Rightarrow> parse_lines uc (idx + 1) lines ((key, strip v) # h) cs
      | None \<Rightarrow> r_bind (parse_clause uc (strip stripped) idx) (\<lambda>c. parse_lines uc (idx + 1) lines h (cs @ [c])))"

definition parse_spec :: "unicode \<Rightarrow> string \<Rightarrow> spec res" where
  "parse_spec uc source_text =
     r_bind (parse_lines uc 1 (splitlines (units source_text)) [] []) (\<lambda>(h, cs).
     r_bind (parse_header h) (\<lambda>(spec_id, class_raw, langs, engine_raw).
     if cs = [] then reject ''E-DSL-008'' 1 1
     else Inr \<lparr>spec_id = spec_id, spec_class = class_raw, spec_languages = langs, engine = engine_raw, clauses = cs\<rparr>))"

end
