(* ===== verification/Dsl_Parser_Contract.thy ===== *)
theory Dsl_Parser_Contract
  imports Dsl_Parser
begin

text \<open>
  What the parser of the clause language promises: an accepted specification is in the grammar and
  passes the re-validation, a rejection carries one of nine codes, and every specification of the
  grammar has a text that is accepted.
\<close>

section \<open>Characters of a line\<close>

lemma units_strip: "list_all unit_ok s \<Longrightarrow> list_all unit_ok (strip_by P s)"
  using set_strip [of P s] by (auto simp: list_all_iff)

lemma splitlines_units:
  "list_all unit_ok line \<Longrightarrow> list_all unit_ok s \<Longrightarrow> x \<in> set (splitlines_from line s) \<Longrightarrow> list_all unit_ok x"
proof (induction line s rule: splitlines_from.induct)
  case (2 line u us)
  have "list_all unit_ok (tl us)" if "us \<noteq> []" using 2(4) that by (cases us) auto
  with 2 show ?case by (auto split: if_splits)
qed (auto split: if_splits)

lemma match_clause_units:
  assumes "match_clause uc s = Some (name, inner, n)" and "list_all unit_ok s"
  shows "list_all unit_ok name \<and> list_all unit_ok inner"
proof -
  have "set inner \<subseteq> set s"
    using assms(1) by (auto simp: match_clause_def Let_def split: if_splits dest!: in_set_butlastD list.set_sel(2) [rotated] set_dropWhileD)
  moreover have "set name \<subseteq> set s"
    using assms(1) by (auto simp: match_clause_def Let_def split: if_splits dest: set_takeWhileD)
  ultimately show ?thesis using assms(2) by (auto simp: list_all_iff)
qed

section \<open>Accepted specifications\<close>

lemma parse_propagate_ok: "parse_propagate uc body line = Inr c \<Longrightarrow> revalidate_clause uc c = Inr ()"
  by (auto simp: parse_propagate_def reject_def revalidate_clause_def RETURN_REF_def Let_def split: if_splits prod.splits)

lemma parse_clause_ok:
  assumes "parse_clause uc s line = Inr c" and "list_all unit_ok s"
  shows "revalidate_clause uc c = Inr ()"
proof -
  obtain name inner n where m: "match_clause uc s = Some (name, inner, n)"
    using assms(1) by (auto simp: parse_clause_def reject_def split: option.splits)
  have ok: "check_escape_hatches uc (strip inner) line (n + 1) = Inr ()"
    and c: "(if lower uc (concat name) = ''propagate'' then parse_propagate uc (strip inner) line
             else if lower uc (concat name) = ''source'' then Inr (Source (concat (strip inner)))
             else if lower uc (concat name) = ''sink'' then Inr (Sink (concat (strip inner)))
             else Inr (Sanitize (concat (strip inner)))) = Inr c"
    using assms(1) by (auto simp: parse_clause_def m reject_def Let_def split: if_splits)
  have "list_all unit_ok (strip inner)" using match_clause_units [OF m assms(2)] by (intro units_strip) simp
  then have same: "units (concat (strip inner)) = strip inner" by (rule units_concat)
  have "check_escape_hatches uc (strip inner) 0 1 = Inr ()"
    using ok by (auto simp: check_escape_hatches_def reject_def split: if_splits)
  with c same parse_propagate_ok show ?thesis by (auto simp: revalidate_clause_def split: if_splits)
qed

lemma parse_lines_ok:
  assumes "parse_lines uc idx lines h cs = Inr (h', cs')" and "\<forall>x \<in> set lines. list_all unit_ok x"
    and "\<forall>c \<in> set cs. revalidate_clause uc c = Inr ()"
  shows "\<forall>c \<in> set cs'. revalidate_clause uc c = Inr ()"
  using assms
proof (induction lines arbitrary: idx h cs)
  case (Cons raw lines)
  let ?s = "rstrip_by space_char (takeWhile (\<lambda>u. u \<noteq> ''#'') raw)"
  show ?case
  proof (cases "strip ?s = [] \<or> match_header ?s \<noteq> None")
    case True
    then obtain h1 where "parse_lines uc (idx + 1) lines h1 cs = Inr (h', cs')"
      using Cons.prems(1) by (auto simp: Let_def split: if_splits)
    with Cons.IH Cons.prems(2,3) show ?thesis by simp
  next
    case False
    then obtain c where c: "parse_clause uc (strip ?s) idx = Inr c" "parse_lines uc (idx + 1) lines h (cs @ [c]) = Inr (h', cs')"
      using Cons.prems(1) by (auto simp: Let_def r_bind_Inr_iff split: option.splits)
    have "set ?s \<subseteq> set raw" by (auto simp: rstrip_by_def dest!: set_dropWhileD set_takeWhileD)
    then have "list_all unit_ok ?s" using Cons.prems(2) by (auto simp: list_all_iff)
    then have "revalidate_clause uc c = Inr ()" using parse_clause_ok [OF c(1)] units_strip by blast
    then have "\<forall>x \<in> set (cs @ [c]). revalidate_clause uc x = Inr ()" using Cons.prems(3) by auto
    with Cons.IH [OF c(2)] Cons.prems(2) show ?thesis by simp
  qed
qed simp

lemma parse_header_ok:
  "parse_header h = Inr (i, c, langs, e) \<Longrightarrow> e \<in> set DSL_ENGINES \<and> c \<in> set CLASS_NAMES \<and> langs \<noteq> [] \<and> set langs \<subseteq> set LANGUAGES"
  by (auto simp: parse_header_def reject_def Let_def list_ex_iff split: if_splits)

text \<open>
  C17. Accepted specifications are in the grammar. When \<open>parse_spec\<close> returns, the engine, the class and
  the languages are pinned ones, there is at least one language and one clause, and re-validating the
  result is a no-op: no pattern holds an embedded oracle pattern, query, callable or regular
  expression, and every propagation goes from an argument or a field to the result or a field.
\<close>

theorem parsed_spec_in_grammar:
  assumes "parse_spec uc source_text = Inr s" and "text_ok_chars source_text"
  shows "engine s \<in> set DSL_ENGINES \<and> spec_class s \<in> set CLASS_NAMES \<and> spec_languages s \<noteq> [] \<and>
     set (spec_languages s) \<subseteq> set LANGUAGES \<and> clauses s \<noteq> [] \<and> revalidate_spec uc s = Inr ()"
proof -
  obtain h cs i c langs e where l: "parse_lines uc 1 (splitlines (units source_text)) [] [] = Inr (h, cs)"
    and p: "parse_header h = Inr (i, c, langs, e)" and s: "cs \<noteq> []"
    "s = \<lparr>spec_id = i, spec_class = c, spec_languages = langs, engine = e, clauses = cs\<rparr>"
    using assms(1) by (auto simp: parse_spec_def r_bind_Inr_iff reject_def split: if_splits)
  have "\<forall>x \<in> set (splitlines (units source_text)). list_all unit_ok x"
    using splitlines_units [of "[]" "units source_text"] assms(2) by (auto simp: text_ok_chars_def)
  from parse_lines_ok [OF l this] have "\<forall>c \<in> set cs. revalidate_clause uc c = Inr ()" by simp
  with s parse_header_ok [OF p] show ?thesis by (simp add: revalidate_spec_def)
qed

section \<open>Rejections\<close>

definition DSL_CODES :: "string list" where
  "DSL_CODES = [''E-DSL-001'', ''E-DSL-002'', ''E-DSL-003'', ''E-DSL-004'', ''E-DSL-005'', ''E-DSL-006'', ''E-DSL-007'', ''E-DSL-008'',
     ''E-DSL-009'']"

text \<open>A rejection at a line.\<close>

definition rejection :: "(nat \<Rightarrow> bool) \<Rightarrow> py_error \<Rightarrow> bool" where
  "rejection P e \<longleftrightarrow> (\<exists>code \<in> set DSL_CODES. \<exists>line col. P line \<and> e = DSLError code line col)"

lemma reject_only: "code \<in> set DSL_CODES \<Longrightarrow> P line \<Longrightarrow> raises_only (rejection P) (reject code line col)"
  by (auto simp: reject_def rejection_def)

lemma hatches_only: "P line \<Longrightarrow> raises_only (rejection P) (check_escape_hatches uc body line col)"
  unfolding check_escape_hatches_def by (intro raises_only_if reject_only) (simp_all add: DSL_CODES_def)

lemma keywords_only: "P line \<Longrightarrow> raises_only (rejection P) (check_composition_keywords uc s line)"
  unfolding check_composition_keywords_def Let_def by (intro raises_only_if reject_only) (simp_all add: DSL_CODES_def)

lemma propagate_only: "P line \<Longrightarrow> raises_only (rejection P) (parse_propagate uc body line)"
  unfolding parse_propagate_def Let_def case_prod_beta
  by (intro raises_only_if reject_only) (simp_all add: DSL_CODES_def)

lemma clause_only: "P line \<Longrightarrow> raises_only (rejection P) (parse_clause uc s line)"
  unfolding parse_clause_def Let_def
  by (rule raises_only_then [OF keywords_only])
    (auto intro!: raises_only_if raises_only_then hatches_only propagate_only reject_only simp: DSL_CODES_def split: option.split)

lemma lines_only:
  "(\<And>i. idx \<le> i \<Longrightarrow> i < idx + length lines \<Longrightarrow> P i) \<Longrightarrow> raises_only (rejection P) (parse_lines uc idx lines h cs)"
proof (induction uc idx lines h cs rule: parse_lines.induct)
  case (2 uc idx raw lines h cs)
  then have "P idx" and "\<And>i. Suc idx \<le> i \<Longrightarrow> i < Suc idx + length lines \<Longrightarrow> P i" by auto
  with 2 clause_only [of P idx] show ?case
    by (auto simp: Let_def intro!: raises_only_bind split: option.split)
qed simp

text \<open>
  C19. Rejection is total and located. For every text and whatever the Unicode database says, the parser
  returns a specification or raises a \<open>DSLError\<close> with one of the codes E-DSL-001 to E-DSL-009, and the
  line it names is a line of the text, or line 1 for a rejected header or an empty clause list.
\<close>

theorem parse_spec_failures:
  "parse_spec uc source_text = Inl e \<longrightarrow>
     rejection (\<lambda>line. line = 1 \<or> 1 \<le> line \<and> line \<le> length (splitlines (units source_text))) e"
proof -
  let ?P = "\<lambda>line. line = 1 \<or> 1 \<le> line \<and> line \<le> length (splitlines (units source_text))"
  have header: "raises_only (rejection ?P) (parse_header h)" for h
    unfolding parse_header_def Let_def by (intro raises_only_if reject_only) (simp_all add: DSL_CODES_def)
  have "raises_only (rejection ?P) (parse_spec uc source_text)"
    unfolding parse_spec_def case_prod_beta
    by (intro raises_only_bind raises_only_if reject_only header lines_only) (auto simp: DSL_CODES_def)
  then show ?thesis by (simp add: raises_only_def)
qed

section \<open>Every specification of the grammar has an accepted text\<close>

text \<open>A reference rendering of a specification, line by line.\<close>

definition ascii_units :: "string \<Rightarrow> text_chars" where
  "ascii_units s = map (\<lambda>c. [c]) s"

definition clause_head :: "clause \<Rightarrow> string" where
  "clause_head c = (case c of Source _ \<Rightarrow> ''source'' | Sink _ \<Rightarrow> ''sink'' | Sanitize _ \<Rightarrow> ''sanitize'' | Propagate _ _ \<Rightarrow> ''propagate'')"

definition clause_body :: "clause \<Rightarrow> text_chars" where
  "clause_body c = (case c of Propagate src tgt \<Rightarrow> units src @ [PROPAGATE_ARROW] @ units tgt
     | Source p \<Rightarrow> units p | Sink p \<Rightarrow> units p | Sanitize p \<Rightarrow> units p)"

definition clause_line :: "clause \<Rightarrow> text_chars" where
  "clause_line c = ascii_units (clause_head c) @ [''(''] @ clause_body c @ ['')'']"

definition header_line :: "string \<Rightarrow> text_chars \<Rightarrow> text_chars" where
  "header_line key v = ascii_units key @ ['':'', '' ''] @ v"

fun join_units :: "string \<Rightarrow> text_chars list \<Rightarrow> text_chars" where
  "join_units u [] = []"
| "join_units u [x] = x"
| "join_units u (x # xs) = x @ [u] @ join_units u xs"

definition languages_value :: "string list \<Rightarrow> text_chars" where
  "languages_value ls = [''[''] @ join_units '','' (map ascii_units ls) @ ['']'']"

definition spec_lines :: "spec \<Rightarrow> text_chars list" where
  "spec_lines s = [header_line ''id'' (units (spec_id s)), header_line ''class'' (ascii_units (spec_class s)),
     header_line ''languages'' (languages_value (spec_languages s)),
     header_line ''engine'' (ascii_units (engine s))] @ map clause_line (clauses s)"

definition render_spec :: "spec \<Rightarrow> string" where
  "render_spec s = concat (concat (map (\<lambda>line. line @ [[CHR 0x0A]]) (spec_lines s)))"

text \<open>Texts that a line can hold as they are.\<close>

definition plain :: "text_chars \<Rightarrow> bool" where
  "plain us \<longleftrightarrow> us \<noteq> [] \<and> list_all unit_ok us \<and> list_all (\<lambda>u. \<not> line_break u \<and> u \<noteq> ''#'') us \<and>
     \<not> space_char (hd us) \<and> \<not> space_char (last us)"

definition plain_clause :: "unicode \<Rightarrow> clause \<Rightarrow> bool" where
  "plain_clause uc c \<longleftrightarrow> plain (clause_body c) \<and> check_composition_keywords uc (clause_line c) 0 = Inr () \<and>
     check_escape_hatches uc (clause_body c) 0 1 = Inr () \<and> revalidate_clause uc c = Inr () \<and>
     (case c of Propagate src tgt \<Rightarrow> plain (units src) \<and> plain (units tgt) \<and> PROPAGATE_ARROW \<notin> set (units src) | _ \<Rightarrow> True)"

definition plain_spec :: "unicode \<Rightarrow> spec \<Rightarrow> bool" where
  "plain_spec uc s \<longleftrightarrow> plain (units (spec_id s)) \<and> hd (units (spec_id s)) \<noteq> [CHR 0x22] \<and> last (units (spec_id s)) \<noteq> [CHR 0x22] \<and>
     engine s \<in> set DSL_ENGINES \<and> spec_class s \<in> set CLASS_NAMES \<and> spec_languages s \<noteq> [] \<and>
     set (spec_languages s) \<subseteq> set LANGUAGES \<and> clauses s \<noteq> [] \<and> (\<forall>c \<in> set (clauses s). plain_clause uc c)"

lemma rstrip_by_id: "us = [] \<or> \<not> P (last us) \<Longrightarrow> rstrip_by P us = us"
  by (cases us rule: rev_cases) (auto simp: rstrip_by_def)

lemma strip_by_id: "us = [] \<or> \<not> P (hd us) \<and> \<not> P (last us) \<Longrightarrow> strip_by P us = us"
  by (cases us) (auto simp: strip_by_def rstrip_by_id)

lemma takeWhile_plain: "list_all (\<lambda>u. \<not> line_break u \<and> u \<noteq> ''#'') us \<Longrightarrow> takeWhile (\<lambda>u. u \<noteq> ''#'') us = us"
  by (induction us) auto

lemma splitlines_step:
  "list_all (\<lambda>u. \<not> line_break u) us \<Longrightarrow> splitlines_from line (us @ [[CHR 0x0A]] @ rest) = (line @ us) # splitlines rest"
  by (induction us arbitrary: line) (auto simp: line_break_def in_range_def)

lemma splitlines_lines:
  "(\<And>l. l \<in> set ls \<Longrightarrow> list_all (\<lambda>u. \<not> line_break u) l) \<Longrightarrow> splitlines (concat (map (\<lambda>l. l @ [[CHR 0x0A]]) ls)) = ls"
proof (induction ls)
  case (Cons l ls)
  then show ?case using splitlines_step [of l "[]" "concat (map (\<lambda>l. l @ [[CHR 0x0A]]) ls)"] by simp
qed simp

lemma split_at_append: "u \<notin> set x \<Longrightarrow> split_at u (x @ [u] @ ys) = x # split_at u ys"
  by (induction x) auto

lemma split_at_none: "u \<notin> set x \<Longrightarrow> split_at u x = [x]"
  by (induction x) auto

lemma split_at_join: "xs \<noteq> [] \<Longrightarrow> (\<And>x. x \<in> set xs \<Longrightarrow> u \<notin> set x) \<Longrightarrow> split_at u (join_units u xs) = xs"
proof (induction u xs rule: join_units.induct)
  case (3 u x y ys)
  then show ?case using split_at_append [of u x "join_units u (y # ys)"] by simp
qed (auto simp: split_at_none)

lemma ascii_unit_ok: "of_char c < (128 :: nat) \<Longrightarrow> unit_ok [c]"
  by (simp add: unit_ok_def utf8_tail_def in_range_def)

lemma ascii_units_ok: "list_all (\<lambda>c. of_char c < (128 :: nat)) s \<Longrightarrow> list_all unit_ok (ascii_units s)"
  by (induction s) (auto simp: ascii_units_def ascii_unit_ok)

lemma concat_ascii_units [simp]: "concat (ascii_units s) = s"
  by (induction s) (auto simp: ascii_units_def)

lemma units_ascii: "list_all (\<lambda>c. of_char c < (128 :: nat)) s \<Longrightarrow> units s = ascii_units s"
  using units_concat [OF ascii_units_ok, of s] by simp

text \<open>The tests that decide a line, on the characters that occur.\<close>

lemmas char_tests = word_char_def is_ascii_def ascii_letter_def ascii_digit_def space_char_def line_break_def in_range_def name_start_def

lemma head_match:
  assumes "plain (clause_body c)"
  shows "match_clause uc (clause_line c) = Some (ascii_units (clause_head c), clause_body c, length (clause_head c) + 1)"
  by (cases c) (simp_all add: match_clause_def clause_line_def clause_head_def ascii_units_def Let_def char_tests)

lemma head_lower: "lower uc (clause_head c) = clause_head c" "clause_head c \<in> set PRIMITIVE_HEADS"
  by (cases c; simp add: clause_head_def lower_def ascii_lower_def in_range_def PRIMITIVE_HEADS_def)+

lemma clause_line_plain:
  assumes "plain (clause_body c)"
  shows "plain (clause_line c)"
proof -
  have "list_all unit_ok (ascii_units (clause_head c))" by (rule ascii_units_ok) (cases c; simp add: clause_head_def)
  moreover have "list_all (\<lambda>u. \<not> line_break u \<and> u \<noteq> ''#'') (ascii_units (clause_head c))" "ascii_units (clause_head c) \<noteq> []"
      "\<not> space_char (hd (ascii_units (clause_head c)))"
    by (cases c; simp add: clause_head_def ascii_units_def char_tests)+
  ultimately show ?thesis using assms
    by (simp add: plain_def clause_line_def ascii_unit_ok char_tests)
qed

lemma partition_at_arrow: "u \<notin> set xs \<Longrightarrow> partition_at u (xs @ [u] @ ys) = (xs, ys)"
  by (induction xs) (auto simp: partition_at_def)

lemma plain_strip: "plain us \<Longrightarrow> strip us = us" "plain us \<Longrightarrow> rstrip_by space_char (takeWhile (\<lambda>u. u \<noteq> ''#'') us) = us"
  by (simp_all add: plain_def strip_by_id takeWhile_plain rstrip_by_id)

lemma check_anywhere:
  "check_composition_keywords uc s l = Inr () \<Longrightarrow> check_composition_keywords uc s m = Inr ()"
  "check_escape_hatches uc b l n = Inr () \<Longrightarrow> check_escape_hatches uc b m k = Inr ()"
  by (auto simp: check_composition_keywords_def check_escape_hatches_def reject_def Let_def split: if_splits)

lemma propagate_accepted:
  assumes "plain_clause uc (Propagate src tgt)"
  shows "parse_propagate uc (clause_body (Propagate src tgt)) line = Inr (Propagate src tgt)"
proof -
  have "partition_at PROPAGATE_ARROW (clause_body (Propagate src tgt)) = (units src, units tgt)"
    using assms partition_at_arrow [of PROPAGATE_ARROW "units src" "units tgt"] by (simp add: plain_clause_def clause_body_def)
  then show ?thesis
    using assms by (auto simp: parse_propagate_def plain_clause_def revalidate_clause_def reject_def plain_strip RETURN_REF_def
        clause_body_def split: if_splits)
qed

lemma clause_accepted:
  assumes "plain_clause uc c"
  shows "parse_clause uc (clause_line c) line = Inr c"
proof -
  have p: "plain (clause_body c)" using assms by (simp add: plain_clause_def)
  note ok = check_anywhere(1) [of uc "clause_line c" 0 line] check_anywhere(2) [of uc "clause_body c" 0 1 line]
  have "(if clause_head c = ''propagate'' then parse_propagate uc (clause_body c) line
         else if clause_head c = ''source'' then Inr (Source (concat (clause_body c)))
         else if clause_head c = ''sink'' then Inr (Sink (concat (clause_body c)))
         else Inr (Sanitize (concat (clause_body c)))) = Inr c"
    using assms propagate_accepted by (cases c) (simp_all add: clause_head_def clause_body_def)
  then show ?thesis
    using assms ok head_lower(1) [of uc c] head_lower(2) [of c] by (simp add: parse_clause_def head_match [OF p] plain_strip(1) [OF p] plain_clause_def)
qed

lemma clause_no_header: "match_header (clause_line c) = None"
  by (cases c) (simp_all add: match_header_def HEADER_KEYS_def match_key_def clause_line_def clause_head_def ascii_units_def Let_def
      char_tests units_ascii List.map_filter_simps)

lemma header_keys_ascii: "key \<in> set HEADER_KEYS \<Longrightarrow> units key = ascii_units key"
  by (rule units_ascii) (auto simp: HEADER_KEYS_def)

lemma match_key_own:
  assumes "key \<in> set HEADER_KEYS" and "plain v"
  shows "match_key (header_line key v) key = Some (key, v)"
proof -
  have "dropWhile space_char v = v" using assms(2) by (cases v) (auto simp: plain_def)
  moreover have "\<not> space_char '':''" "space_char '' ''" by (simp_all add: char_tests)
  ultimately show ?thesis by (simp add: match_key_def header_line_def Let_def header_keys_ascii [OF assms(1)])
qed

lemma match_key_other:
  assumes "key \<in> set HEADER_KEYS" and "other \<in> set HEADER_KEYS" and "other \<noteq> key"
  shows "match_key (header_line key v) other = None"
proof -
  have "take (length (ascii_units other)) (header_line key v) \<noteq> ascii_units other"
    using assms by (auto simp: HEADER_KEYS_def header_line_def ascii_units_def)
  then show ?thesis by (simp add: match_key_def Let_def header_keys_ascii [OF assms(2)])
qed

lemma map_filter_one:
  "k \<in> set ks \<Longrightarrow> f k = Some y \<Longrightarrow> (\<And>j. j \<in> set ks \<Longrightarrow> j \<noteq> k \<Longrightarrow> f j = None) \<Longrightarrow> distinct ks \<Longrightarrow> List.map_filter f ks = [y]"
proof (induction ks)
  case (Cons j ks)
  have none: "List.map_filter f xs = []" if "\<And>x. x \<in> set xs \<Longrightarrow> f x = None" for xs
    using that by (induction xs) (simp_all add: List.map_filter_simps)
  show ?case
  proof (cases "j = k")
    case True
    then have "List.map_filter f ks = []" using Cons.prems by (intro none) auto
    with True Cons.prems(2) show ?thesis by (simp add: List.map_filter_simps)
  next
    case False
    then show ?thesis using Cons by (simp add: List.map_filter_simps)
  qed
qed simp

lemma header_matched:
  assumes "key \<in> set HEADER_KEYS" and "plain v"
  shows "match_header (header_line key v) = Some (key, v)"
proof -
  have "\<not> space_char (hd (header_line key v))" "header_line key v \<noteq> []"
    using assms(1) by (auto simp: HEADER_KEYS_def header_line_def ascii_units_def char_tests)
  then have "dropWhile space_char (header_line key v) = header_line key v" by (cases "header_line key v") auto
  moreover have "List.map_filter (match_key (header_line key v)) HEADER_KEYS = [(key, v)]"
    by (rule map_filter_one [where k = key]) (auto simp: match_key_own match_key_other assms, simp add: HEADER_KEYS_def)
  ultimately show ?thesis by (simp add: match_header_def)
qed

lemma header_line_plain:
  assumes "key \<in> set HEADER_KEYS" and "plain v"
  shows "plain (header_line key v)"
proof -
  have "list_all unit_ok (ascii_units key)" by (rule ascii_units_ok) (use assms(1) in \<open>auto simp: HEADER_KEYS_def\<close>)
  moreover have "list_all (\<lambda>u. \<not> line_break u \<and> u \<noteq> ''#'') (ascii_units key)" "ascii_units key \<noteq> []" "\<not> space_char (hd (ascii_units key))"
    using assms(1) by (auto simp: HEADER_KEYS_def ascii_units_def char_tests)
  ultimately show ?thesis using assms(2)
    by (simp add: plain_def header_line_def ascii_unit_ok char_tests)
qed

lemma parse_header_step:
  assumes "key \<in> set HEADER_KEYS" and "plain v"
  shows "parse_lines uc idx (header_line key v # lines) h cs = parse_lines uc (idx + 1) lines ((key, v) # h) cs"
proof -
  note p = header_line_plain [OF assms]
  have "header_line key v \<noteq> []" by (simp add: header_line_def)
  then show ?thesis
    using plain_strip [OF p] plain_strip(1) [OF assms(2)] header_matched [OF assms] by simp
qed

lemma parse_clauses_steps:
  "(\<And>c. c \<in> set ds \<Longrightarrow> plain_clause uc c) \<Longrightarrow> parse_lines uc idx (map clause_line ds) h cs = Inr (h, cs @ ds)"
proof (induction ds arbitrary: idx cs)
  case (Cons c ds)
  have c: "plain_clause uc c" using Cons.prems by simp
  have p: "plain (clause_line c)" by (rule clause_line_plain) (use c in \<open>simp add: plain_clause_def\<close>)
  have "clause_line c \<noteq> []" by (simp add: clause_line_def)
  then have "parse_lines uc idx (clause_line c # map clause_line ds) h cs = parse_lines uc (idx + 1) (map clause_line ds) h (cs @ [c])"
    using plain_strip [OF p] clause_no_header [of c] clause_accepted [OF c, of idx] by simp
  with Cons.IH [of "idx + 1" "cs @ [c]"] Cons.prems show ?case by simp
qed simp

text \<open>The pinned names are plain and neither quoted nor bracketed.\<close>

definition bare :: "string \<Rightarrow> bool" where
  "bare s \<longleftrightarrow> s \<noteq> [] \<and> list_all (\<lambda>c. of_char c < (128 :: nat) \<and> (in_range 97 122 c \<or> c = CHR ''-'')) s"

lemma bare_names: "s \<in> set CLASS_NAMES \<union> set LANGUAGES \<union> set DSL_ENGINES \<Longrightarrow> bare s"
  by (auto simp: bare_def CLASS_NAMES_def LANGUAGES_def DSL_ENGINES_def in_range_def)

lemma bare_unit:
  "bare s \<Longrightarrow> u \<in> set (ascii_units s) \<Longrightarrow> unit_ok u \<and> \<not> line_break u \<and> u \<noteq> ''#'' \<and> \<not> space_char u \<and> u \<noteq> '','' \<and> u \<noteq> [CHR 0x22] \<and> u \<noteq> ''['' \<and> u \<noteq> '']''"
  by (auto simp: bare_def ascii_units_def list_all_iff ascii_unit_ok char_tests)

lemma bare_ends: "bare s \<Longrightarrow> ascii_units s \<noteq> [] \<and> hd (ascii_units s) \<in> set (ascii_units s) \<and> last (ascii_units s) \<in> set (ascii_units s)"
proof -
  assume "bare s"
  then have "ascii_units s \<noteq> []" by (simp add: bare_def ascii_units_def)
  then show ?thesis by simp
qed

lemma bare_plain: "bare s \<Longrightarrow> plain (ascii_units s)"
  using bare_unit [of s] bare_ends [of s] by (auto simp: plain_def list_all_iff)

lemma bare_unquote: "bare s \<Longrightarrow> unquote (ascii_units s) = s"
  using bare_unit [of s] bare_ends [of s] strip_by_id [of "ascii_units s" "\<lambda>u. u = [CHR 0x22]"] plain_strip(1) [OF bare_plain, of s]
  by (auto simp: unquote_def)

lemma join_ends:
  assumes "xs \<noteq> []" and "\<And>x. x \<in> set xs \<Longrightarrow> x \<noteq> []"
  shows "join_units u xs \<noteq> [] \<and> hd (join_units u xs) = hd (hd xs) \<and> last (join_units u xs) = last (last xs)"
  using assms
proof (induction u xs rule: join_units.induct)
  case (3 u x y ys)
  then have "join_units u (y # ys) \<noteq> []" "last (join_units u (y # ys)) = last (last (y # ys))" "x \<noteq> []" by auto
  then show ?case by simp
qed auto

lemma set_join: "set (join_units u xs) \<subseteq> \<Union> (set ` set xs) \<union> {u}"
  by (induction u xs rule: join_units.induct) auto

lemma languages_read:
  assumes "ls \<noteq> []" and "\<And>l. l \<in> set ls \<Longrightarrow> bare l"
  shows "plain (languages_value ls)"
    and "map unquote (filter (\<lambda>x. strip x \<noteq> []) (split_at '','' (strip_by (\<lambda>u. u = ''['' \<or> u = '']'')
       (languages_value ls)))) = ls"
proof -
  let ?j = "join_units '','' (map ascii_units ls)" and ?P = "\<lambda>u. u = ''['' \<or> u = '']''"
  have ne: "x \<noteq> []" if "x \<in> set (map ascii_units ls)" for x using that assms(2) bare_ends by auto
  note ends = join_ends [of "map ascii_units ls" "'',''", OF _ ne]
  have "u \<in> set (ascii_units l) \<Longrightarrow> l \<in> set ls \<Longrightarrow> unit_ok u \<and> \<not> line_break u \<and> u \<noteq> ''#''" for u l
    using bare_unit [OF assms(2)] by blast
  moreover have "unit_ok '','' \<and> \<not> line_break '','' \<and> '','' \<noteq> ''#''" by (simp add: ascii_unit_ok char_tests)
  ultimately have mem: "unit_ok u \<and> \<not> line_break u \<and> u \<noteq> ''#''" if "u \<in> set ?j" for u
    using that set_join [of "'',''" "map ascii_units ls"] by fastforce
  then show "plain (languages_value ls)"
    by (auto simp: languages_value_def plain_def list_all_iff ascii_unit_ok char_tests)
  have hl: "hd ls \<in> set ls" "last ls \<in> set ls" using assms(1) by simp_all
  have "hd ?j = hd (ascii_units (hd ls))" "last ?j = last (ascii_units (last ls))" "?j \<noteq> []"
    using ends assms(1) by (simp_all add: hd_map last_map)
  then have "\<not> ?P (hd ?j)" "\<not> ?P (last ?j)" "?j \<noteq> []"
    using bare_unit [OF assms(2)] bare_ends [OF assms(2)] hl by metis+
  then have "strip_by ?P ?j = ?j" by (simp add: strip_by_id)
  moreover have "dropWhile ?P (?j @ ['']'']) = ?j @ ['']'']" using \<open>\<not> ?P (hd ?j)\<close> \<open>?j \<noteq> []\<close> by (cases ?j) auto
  ultimately have strip: "strip_by ?P (languages_value ls) = ?j"
    using \<open>\<not> ?P (last ?j)\<close> \<open>?j \<noteq> []\<close> rstrip_by_id [of ?j ?P] by (simp add: languages_value_def strip_by_def rstrip_by_def)
  have comma: "'','' \<notin> set x" if x: "x \<in> set (map ascii_units ls)" for x
  proof -
    obtain l where "l \<in> set ls" "x = ascii_units l" using x by auto
    then show ?thesis using bare_unit [OF assms(2), of l "'',''"] by auto
  qed
  have "split_at '','' ?j = map ascii_units ls" by (rule split_at_join) (use assms(1) comma in auto)
  moreover have "filter (\<lambda>x. strip x \<noteq> []) (map ascii_units ls) = map ascii_units ls"
    using plain_strip(1) [OF bare_plain [OF assms(2)]] ne by (auto simp: filter_id_conv)
  moreover have "map (unquote \<circ> ascii_units) ls = ls" by (rule map_idI) (simp add: assms(2) bare_unquote)
  ultimately show "map unquote (filter (\<lambda>x. strip x \<noteq> []) (split_at '','' (strip_by ?P (languages_value ls)))) = ls"
    unfolding strip by simp
qed

lemma spec_lines_plain:
  assumes "plain_spec uc s" and "line \<in> set (spec_lines s)"
  shows "plain line"
proof -
  have keys: "''id'' \<in> set HEADER_KEYS" "''class'' \<in> set HEADER_KEYS" "''languages'' \<in> set HEADER_KEYS" "''engine'' \<in> set HEADER_KEYS"
    by (simp_all add: HEADER_KEYS_def)
  have b: "bare (spec_class s)" "bare (engine s)" "\<And>l. l \<in> set (spec_languages s) \<Longrightarrow> bare l"
    using assms(1) by (auto simp: plain_spec_def intro!: bare_names)
  have lang: "plain (languages_value (spec_languages s))"
    by (rule languages_read(1)) (use assms(1) b(3) in \<open>auto simp: plain_spec_def\<close>)
  have "plain (clause_line c)" if "c \<in> set (clauses s)" for c
    using assms(1) that by (intro clause_line_plain) (auto simp: plain_spec_def plain_clause_def)
  with assms header_line_plain [OF keys(1)] header_line_plain [OF keys(2) bare_plain [OF b(1)]]
    header_line_plain [OF keys(3) lang] header_line_plain [OF keys(4) bare_plain [OF b(2)]]
  show ?thesis unfolding spec_lines_def by (auto simp: plain_spec_def)
qed

lemma rendered_header:
  assumes "plain_spec uc s"
  shows "parse_header [(''engine'', ascii_units (engine s)),
     (''languages'', languages_value (spec_languages s)),
     (''class'', ascii_units (spec_class s)), (''id'', units (spec_id s))] = Inr (spec_id s, spec_class s, spec_languages s, engine s)"
proof -
  have b: "bare (spec_class s)" "bare (engine s)" "\<And>l. l \<in> set (spec_languages s) \<Longrightarrow> bare l" "spec_languages s \<noteq> []"
    using assms by (auto simp: plain_spec_def intro!: bare_names)
  let ?v = "languages_value (spec_languages s)"
  have v: "strip ?v = ?v" by (rule plain_strip(1) [OF languages_read(1) [OF b(4,3)]])
  have i: "unquote (units (spec_id s)) = spec_id s"
    using assms plain_strip(1) [of "units (spec_id s)"] strip_by_id [of "units (spec_id s)" "\<lambda>u. u = [CHR 0x22]"]
    by (simp add: unquote_def plain_spec_def)
  have "\<not> list_ex (\<lambda>x. x \<notin> set LANGUAGES) (spec_languages s)" using assms by (auto simp: plain_spec_def list_ex_iff)
  with assms b show ?thesis
    unfolding parse_header_def header_get_def Let_def
    by (simp add: v languages_read(2) [OF b(4,3)] i bare_unquote plain_spec_def)
qed

lemma rendered_accepted:
  assumes "plain_spec uc s"
  shows "parse_spec uc (render_spec s) = Inr s"
proof -
  have "list_all unit_ok line" "list_all (\<lambda>u. \<not> line_break u) line" if "line \<in> set (spec_lines s)" for line
    using spec_lines_plain [OF assms that] by (auto simp: plain_def list_all_iff)
  then have "units (render_spec s) = concat (map (\<lambda>line. line @ [[CHR 0x0A]]) (spec_lines s))"
    and "splitlines (concat (map (\<lambda>line. line @ [[CHR 0x0A]]) (spec_lines s))) = spec_lines s"
    unfolding render_spec_def by (auto intro!: units_concat splitlines_lines simp: list_all_iff ascii_unit_ok)
  then have lines: "splitlines (units (render_spec s)) = spec_lines s" by simp
  have keys: "''id'' \<in> set HEADER_KEYS" "''class'' \<in> set HEADER_KEYS" "''languages'' \<in> set HEADER_KEYS" "''engine'' \<in> set HEADER_KEYS"
    by (simp_all add: HEADER_KEYS_def)
  have b: "bare (spec_class s)" "bare (engine s)" "\<And>l. l \<in> set (spec_languages s) \<Longrightarrow> bare l" "spec_languages s \<noteq> []"
    using assms by (auto simp: plain_spec_def intro!: bare_names)
  have i: "plain (units (spec_id s))" using assms by (simp add: plain_spec_def)
  have lang: "plain (languages_value (spec_languages s))" by (rule languages_read(1)) (use b in auto)
  have steps: "parse_lines uc 1 (spec_lines s) [] [] = Inr ([(''engine'', ascii_units (engine s)),
     (''languages'', languages_value (spec_languages s)),
     (''class'', ascii_units (spec_class s)), (''id'', units (spec_id s))], clauses s)"
    unfolding spec_lines_def append_Cons append_Nil parse_header_step [OF keys(1) i] parse_header_step [OF keys(2) bare_plain [OF b(1)]]
      parse_header_step [OF keys(3) lang] parse_header_step [OF keys(4) bare_plain [OF b(2)]]
    using parse_clauses_steps [of "clauses s" uc] assms by (simp add: plain_spec_def)
  have "clauses s \<noteq> []" using assms by (simp add: plain_spec_def)
  then show ?thesis using steps rendered_header [OF assms] by (simp add: parse_spec_def lines)
qed

text \<open>
  C18. The parser accepts the whole grammar. A specification whose names are the pinned ones and whose
  patterns fit on a line, carry no composition keyword and no escape hatch and go between sanctioned
  endpoints has a text that \<open>parse_spec\<close> reads back as exactly this specification, clause by clause in
  order. Nothing else is refused.
\<close>

theorem grammar_spec_accepted:
  assumes "plain_spec uc s"
  shows "parse_spec uc (render_spec s) = Inr s"
  using assms by (rule rendered_accepted)

section \<open>A concrete specification\<close>

definition no_unicode :: unicode where
  "no_unicode = \<lparr>uc_word = (\<lambda>_. True), uc_digit = (\<lambda>_. False), uc_lower = (\<lambda>s. s)\<rparr>"

definition sample_spec :: spec where
  "sample_spec = \<lparr>spec_id = ''sqli'', spec_class = ''injection'', spec_languages = [''java'', ''python''], engine = ''ifds'',
     clauses = [Source ''p'', Sink ''q'']\<rparr>"

theorem grammar_spec_accepted_witness:
  "plain_spec no_unicode sample_spec \<and> parse_spec no_unicode (render_spec sample_spec) = Inr sample_spec"
proof -
  have "plain_spec no_unicode sample_spec" by code_simp
  with grammar_spec_accepted [OF this] show ?thesis by simp
qed

theorem parsed_spec_in_grammar_witness:
  "parse_spec no_unicode (render_spec sample_spec) = Inr sample_spec \<and> revalidate_spec no_unicode sample_spec = Inr ()"
proof -
  have p: "plain_spec no_unicode sample_spec" by code_simp
  have "text_ok_chars (render_spec sample_spec)" by code_simp
  with parsed_spec_in_grammar [of no_unicode "render_spec sample_spec" sample_spec] rendered_accepted [OF p] show ?thesis by simp
qed

theorem parse_spec_failures_witness:
  "\<exists>e. parse_spec no_unicode ''lambda'' = Inl e \<and> rejection (\<lambda>line. line = 1 \<or> 1 \<le> line \<and> line \<le> length (splitlines (units ''lambda''))) e"
proof -
  have "parse_spec no_unicode ''lambda'' = Inl (DSLError ''E-DSL-008'' 1 1)" by code_simp
  with parse_spec_failures [of no_unicode "''lambda''" "DSLError ''E-DSL-008'' 1 1"] show ?thesis by blast
qed

end
