(* ===== verification/Cw_Detect.thy ===== *)
theory Cw_Detect
  imports Regex Complex_Main
begin

text \<open>
  \<open>services/snapshot/cw_detect.py\<close>: the closed-world detector. Every file of a source tree is either
  of a scanned language, and then searched line by line for reflection patterns, or of an inert kind,
  or a structural uncertainty; any site and any uncertainty degrades the verdict.

  The file system is a parameter: what is found at the root. The clock is the reading it returns.
  Paths are POSIX paths.
\<close>

section \<open>Paths and the file system\<close>

text \<open>\<open>pathlib\<close>: the root and the parts of a path, its text, its name and its suffix.\<close>

definition path_root :: "string \<Rightarrow> string" where
  "path_root s =
     (let n = length (takeWhile (\<lambda>c. c = CHR ''/'') s) in if n = 0 then '''' else if n = 2 then ''//'' else ''/'')"

fun split_slash :: "string \<Rightarrow> string \<Rightarrow> string list" where
  "split_slash part [] = [part]"
| "split_slash part (c # s) = (if c = CHR ''/'' then part # split_slash [] s else split_slash (part @ [c]) s)"

definition path_parts :: "string \<Rightarrow> string list" where
  "path_parts s = filter (\<lambda>p. p \<noteq> '''' \<and> p \<noteq> ''.'') (split_slash [] s)"

fun join_slash :: "string list \<Rightarrow> string" where
  "join_slash [] = ''''"
| "join_slash [p] = p"
| "join_slash (p # ps) = p @ ''/'' @ join_slash ps"

definition path_str :: "string \<Rightarrow> string" where
  "path_str s = (let t = path_root s @ join_slash (path_parts s) in if t = '''' then ''.'' else t)"

definition path_name :: "string list \<Rightarrow> string" where
  "path_name parts = (if parts = [] then '''' else last parts)"

definition path_suffix :: "string \<Rightarrow> string" where
  "path_suffix name =
     (let ext = takeWhile (\<lambda>c. c \<noteq> CHR ''.'') (rev name); i = length name - Suc (length ext) in
      if length ext < length name \<and> 0 < i \<and> ext \<noteq> [] then drop i name else '''')"

text \<open>
  What a path names: a regular file with its bytes (\<open>None\<close>: reading fails), a directory with its
  entries (\<open>None\<close>: listing is not permitted), or anything else, such as a link to a directory.
\<close>

datatype fs_node = FFile "bytes option" | FDir "(string \<times> fs_node) list option" | FOther

type_synonym source_file = "string list \<times> bytes option"

text \<open>\<open>rglob("*")\<close> restricted to files; it passes over directories that it may not list.\<close>

fun files_under :: "string list \<Rightarrow> fs_node \<Rightarrow> source_file list" where
  "files_under path (FFile data) = [(path, data)]"
| "files_under path (FDir None) = []"
| "files_under path (FDir (Some entries)) = concat (map (\<lambda>(name, node). files_under (path @ [name]) node) entries)"
| "files_under path FOther = []"

text \<open>\<open>read_text(encoding="utf-8", errors="strict")\<close> with universal newlines.\<close>

fun universal_newlines :: "string \<Rightarrow> string" where
  "universal_newlines [] = []"
| "universal_newlines (c # s) =
     (if c = CHR 0x0D then CHR 0x0A # universal_newlines (if s \<noteq> [] \<and> hd s = CHR 0x0A then tl s else s)
      else c # universal_newlines s)"

definition read_text :: "bytes option \<Rightarrow> string option" where
  "read_text data =
     (case data of None \<Rightarrow> None | Some b \<Rightarrow> if utf8_valid b then Some (universal_newlines b) else None)"

section \<open>Data\<close>

definition CW_DETECT_VERSION :: string where
  "CW_DETECT_VERSION = ''0.1.1''"

definition LANG_EXTENSIONS :: "(string \<times> string list) list" where
  "LANG_EXTENSIONS =
     [(''java'', [''.java'']), (''python'', [''.py'', ''.pyi'']), (''ruby'', [''.rb'']),
      (''php'', [''.php'', ''.phtml'']), (''js'', [''.js'', ''.jsx'', ''.mjs'', ''.cjs'']),
      (''ts'', [''.ts'', ''.tsx'']), (''go'', [''.go''])]"

definition SUPPORTED_LANGUAGES :: "string list" where
  "SUPPORTED_LANGUAGES = map fst LANG_EXTENSIONS"

definition EXT_TO_LANG :: "(string \<times> string) list" where
  "EXT_TO_LANG = concat (map (\<lambda>(lang, exts). map (\<lambda>ext. (ext, lang)) exts) LANG_EXTENSIONS)"

definition INERT_EXTENSIONS :: "string list" where
  "INERT_EXTENSIONS =
     [''.md'', ''.markdown'', ''.rst'', ''.txt'', ''.adoc'', ''.png'', ''.jpg'', ''.jpeg'', ''.gif'', ''.svg'', ''.ico'',
      ''.webp'', ''.bmp'', ''.pdf'', ''.csv'', ''.tsv'', ''.lock'', ''.gitignore'', ''.gitattributes'', ''.editorconfig'',
      ''.dockerignore'']"

record reflection_site =
  site_file :: string
  site_line :: nat
  site_kind :: string
  site_snippet :: string

record parent_view =
  cached_reflection_sites :: "reflection_site list"

record cw_detect_request =
  source_tree_root :: string
  language_mix :: "string list"
  parent_snapshot :: "parent_view option"

record cw_detect_verdict =
  verdict :: string
  cw_detect_version :: string
  reflection_sites :: "reflection_site list"
  decided_at :: string
  confidence :: string

section \<open>Patterns\<close>

definition Lits :: "string list \<Rightarrow> rx" where
  "Lits names = Alts (map Lit names)"

text \<open>\<open>name\s*(\<close>\<close>

definition Call :: "rx \<Rightarrow> rx" where
  "Call r = Seqs [r, Spaces, Ch CHR ''('']"

definition JAVA_PATTERNS :: "(string \<times> rx) list" where
  "JAVA_PATTERNS =
     [(''java-class-forname'', Seq Bound (Call (Lit ''forName''))),
      (''java-method-invoke'', Seq Bound (Call (Lits [''invoke'', ''getMethod'', ''getDeclaredMethod'', ''getDeclaredMethods'',
         ''getMethods'', ''newInstance'', ''getConstructor'', ''getDeclaredConstructor'', ''getField'', ''getDeclaredField'', ''setAccessible'']))),
      (''java-proxy-newproxy'', Seq Bound (Call (Lit ''newProxyInstance''))),
      (''java-spring-dynamic-proxy'', Seqs [Bound, Lits [''ProxyFactory'', ''ProxyFactoryBean'', ''getProxy'', ''createAopProxy'',
         ''AopProxy'', ''ScopedProxyMode'', ''@EnableAspectJAutoProxy''], Bound])]"

definition PYTHON_PATTERNS :: "(string \<times> rx) list" where
  "PYTHON_PATTERNS =
     [(''python-import-dunder'', Alt (Seq Bound (Call (Lit ''__import__''))) (Seq Bound (Call (Lit ''importlib.import_module'')))),
      (''python-getattr'', Seq Bound (Call (Lits [''getattr'', ''setattr'', ''delattr'', ''hasattr'', ''vars'', ''globals'', ''locals'']))),
      (''python-eval-exec'', Seq Bound (Call (Lits [''eval'', ''exec'', ''compile''])))]"

definition RUBY_PATTERNS :: "(string \<times> rx) list" where
  "RUBY_PATTERNS =
     [(''ruby-send'', Alt (Seqs [Ch CHR ''.'', Lits [''public_send'', ''__send__'', ''send''], Bound]) (Seq Bound (Call (Lit ''send'')))),
      (''ruby-method-missing'', Seqs [Bound, Lits [''method_missing'', ''respond_to_missing?''], Bound]),
      (''ruby-define-method'', Seqs [Bound, Lits [''define_method'', ''instance_eval'', ''class_eval'', ''module_eval'',
         ''const_get'', ''instance_variable_get'', ''instance_variable_set''], Bound])]"

definition PHP_PATTERNS :: "unicode \<Rightarrow> (string \<times> rx) list" where
  "PHP_PATTERNS uc =
     [(''php-variable-function'',
        Alt (Seq (Ch CHR ''$'') (Call (Name uc))) (Seqs [Lit ''->'', Spaces, Ch CHR ''$'', Call (Name uc)])),
      (''php-call-user-func'',
        Alt (Seq Bound (Call (Alts [Seq (Lit ''call_user_func'') (Opt (Lit ''_array'')), Lit ''ReflectionClass'', Lit ''ReflectionMethod'',
               Seq (Lit ''forward_static_call'') (Opt (Lit ''_array'')), Lit ''eval''])))
            (Seqs [Bound, Lit ''new'', Plus (Cls space_char), Lit ''Reflection'']))]"

text \<open>A string literal in the given quotes that a closing parenthesis follows.\<close>

definition Quoted :: "char \<Rightarrow> rx" where
  "Quoted q = Seqs [Ch q, Star (Cls (\<lambda>u. u \<noteq> [q] \<and> u \<noteq> [CHR 0x0A])), Ch q]"

definition JS_PATTERNS :: "(string \<times> rx) list" where
  "JS_PATTERNS =
     [(''js-require-dynamic'', Seqs [Bound, Call (Lit ''require''), Spaces,
         NotAhead (Seqs [Alt (Quoted CHR 0x27) (Quoted CHR 0x22), Spaces, Ch CHR '')''])]),
      (''js-function-constructor'', Seqs [Bound, Lit ''new'', Plus (Cls space_char), Call (Lit ''Function'')]),
      (''js-eval'', Alt (Seq Bound (Call (Lit ''eval''))) (Seq Bound (Call (Lit ''Function''))))]"

definition GO_PATTERNS :: "(string \<times> rx) list" where
  "GO_PATTERNS =
     [(''go-reflect-call'', Seqs [Bound, Lit ''reflect'', Spaces, Ch CHR ''.'', Spaces,
         Lits [''ValueOf'', ''TypeOf'', ''New'', ''Call'', ''MakeFunc'', ''Indirect'', ''NewAt''], Bound])]"

definition LANG_PATTERNS :: "unicode \<Rightarrow> (string \<times> (string \<times> rx) list) list" where
  "LANG_PATTERNS uc =
     [(''java'', JAVA_PATTERNS), (''python'', PYTHON_PATTERNS), (''ruby'', RUBY_PATTERNS), (''php'', PHP_PATTERNS uc),
      (''js'', JS_PATTERNS), (''ts'', JS_PATTERNS), (''go'', GO_PATTERNS)]"

section \<open>Scanning\<close>

definition detect_language :: "unicode \<Rightarrow> string \<Rightarrow> string option" where
  "detect_language uc name = map_of EXT_TO_LANG (lower uc (path_suffix name))"

definition patterns_of :: "unicode \<Rightarrow> string \<Rightarrow> (string \<times> rx) list" where
  "patterns_of uc lang = (case map_of (LANG_PATTERNS uc) lang of None \<Rightarrow> [] | Some ps \<Rightarrow> ps)"

definition make_site :: "string \<Rightarrow> nat \<Rightarrow> string \<Rightarrow> text_chars \<Rightarrow> reflection_site" where
  "make_site rel_path lineno kind raw_line =
     \<lparr>site_file = rel_path, site_line = lineno, site_kind = kind, site_snippet = concat (take 200 (strip raw_line))\<rparr>"

definition line_sites :: "unicode \<Rightarrow> string \<Rightarrow> (string \<times> rx) list \<Rightarrow> nat \<Rightarrow> text_chars \<Rightarrow> reflection_site list" where
  "line_sites uc rel_path patterns lineno raw_line =
     map (\<lambda>(kind, pattern). make_site rel_path lineno kind raw_line) (filter (\<lambda>(kind, pattern). rx_search uc pattern raw_line) patterns)"

definition scan_text :: "unicode \<Rightarrow> string \<Rightarrow> string \<Rightarrow> string \<Rightarrow> reflection_site list" where
  "scan_text uc rel_path lang content =
     concat (map (\<lambda>(lineno, raw_line). line_sites uc rel_path (patterns_of uc lang) lineno raw_line) (enumerate 1 (splitlines (units content))))"

record scan_state =
  sites :: "reflection_site list"
  scan_confidence :: string

definition add_uncertainty :: "string \<Rightarrow> scan_state \<Rightarrow> scan_state" where
  "add_uncertainty rel_path s =
     s\<lparr>sites := sites s @ [\<lparr>site_file = rel_path, site_line = 0, site_kind = ''structural-uncertainty'', site_snippet = ''''\<rparr>],
       scan_confidence := ''uncertain''\<rparr>"

definition iter_source_files :: "string \<Rightarrow> fs_node option \<Rightarrow> (string \<times> source_file) list" where
  "iter_source_files tree_root found =
     (case found of
        None \<Rightarrow> []
      | Some (FFile data) \<Rightarrow> [(path_str tree_root, (path_parts tree_root, data))]
      | Some node \<Rightarrow> map (\<lambda>f. (join_slash (fst f), f)) (sort_key fst (files_under [] node)))"

definition check_language :: "string \<Rightarrow> scan_state \<Rightarrow> scan_state" where
  "check_language lang s = (if lang \<in> set SUPPORTED_LANGUAGES then s else add_uncertainty (''<language:'' @ lang @ ''>'') s)"

definition check_file :: "unicode \<Rightarrow> string \<times> source_file \<Rightarrow> scan_state \<Rightarrow> scan_state" where
  "check_file uc entry s =
     (case entry of (rel_path, (path, data)) \<Rightarrow>
       case detect_language uc (path_name path) of
         None \<Rightarrow> if lower uc (path_suffix (path_name path)) \<in> set INERT_EXTENSIONS then s else add_uncertainty rel_path s
       | Some lang \<Rightarrow>
           (case read_text data of
              None \<Rightarrow> add_uncertainty rel_path s
            | Some content \<Rightarrow> s\<lparr>sites := sites s @ scan_text uc rel_path lang content\<rparr>))"

definition detect :: "unicode \<Rightarrow> cw_detect_request \<Rightarrow> fs_node option \<Rightarrow> string \<Rightarrow> cw_detect_verdict" where
  "detect uc req found now =
     (let s0 = fold check_language (language_mix req) \<lparr>sites = [], scan_confidence = ''high''\<rparr>;
          s1 = (if found = None then add_uncertainty (source_tree_root req) s0 else s0);
          s2 = fold (check_file uc) (iter_source_files (source_tree_root req) found) s1;
          s3 = (case parent_snapshot req of None \<Rightarrow> s2 | Some p \<Rightarrow> s2\<lparr>sites := sites s2 @ cached_reflection_sites p\<rparr>)
      in if sites s3 \<noteq> [] then
           \<lparr>verdict = ''degraded'', cw_detect_version = CW_DETECT_VERSION, reflection_sites = sites s3,
            decided_at = now, confidence = scan_confidence s3\<rparr>
         else if scan_confidence s3 = ''uncertain'' then
           \<lparr>verdict = ''degraded'', cw_detect_version = CW_DETECT_VERSION,
            reflection_sites = [\<lparr>site_file = '''', site_line = 0, site_kind = ''structural-uncertainty'', site_snippet = ''''\<rparr>],
            decided_at = now, confidence = ''uncertain''\<rparr>
         else
           \<lparr>verdict = ''closed-world'', cw_detect_version = CW_DETECT_VERSION, reflection_sites = [],
            decided_at = now, confidence = ''high''\<rparr>)"

section \<open>Routing rate\<close>

record routing_rate_report =
  total :: nat
  routed_not_closed_world :: nat
  combined_tp_fp_rate :: real

definition measure_routing_rate :: "unicode \<Rightarrow> (cw_detect_request \<times> fs_node option \<times> string) list \<Rightarrow> routing_rate_report" where
  "measure_routing_rate uc requests =
     (let (total, routed) = fold (\<lambda>(req, found, now) (total, routed).
            (total + 1, if verdict (detect uc req found now) \<noteq> ''closed-world'' then routed + 1 else routed)) requests (0, 0)
      in \<lparr>total = total, routed_not_closed_world = routed, combined_tp_fp_rate = (if total = 0 then 0 else real routed / real total)\<rparr>)"

end
