(* ===== verification/Cw_Detect_Contract.thy ===== *)
theory Cw_Detect_Contract
  imports Cw_Detect Cpg_Delta
begin

text \<open>
  What the closed-world detector promises: which sites it reports, when it says closed-world, how that
  decides the route of an incremental build, and which occurrences two of its patterns see.
\<close>

section \<open>Specification\<close>

text \<open>The files of a tree, independently of the order of the walk.\<close>

inductive holds_file :: "fs_node \<Rightarrow> string list \<Rightarrow> bytes option \<Rightarrow> bool" where
  here: "holds_file (FFile data) [] data"
| inside: "(name, node) \<in> set entries \<Longrightarrow> holds_file node path data \<Longrightarrow> holds_file (FDir (Some entries)) (name # path) data"

inductive_simps holds_file_simps [simp]:
  "holds_file (FFile d) path data"
  "holds_file (FDir None) path data"
  "holds_file (FDir (Some es)) path data"
  "holds_file FOther path data"

text \<open>How a file found at a path is reported, and the name that decides its language.\<close>

definition rel_name :: "string \<Rightarrow> string list \<Rightarrow> string" where
  "rel_name tree_root path = (if path = [] then path_str tree_root else join_slash path)"

definition base_name :: "string \<Rightarrow> string list \<Rightarrow> string" where
  "base_name tree_root path = path_name (if path = [] then path_parts tree_root else path)"

definition reflective :: "unicode \<Rightarrow> string \<Rightarrow> string \<Rightarrow> text_chars \<Rightarrow> bool" where
  "reflective uc lang rkind line \<longleftrightarrow> (\<exists>pattern before after q. (rkind, pattern) \<in> set (patterns_of uc lang) \<and>
     line = before @ after \<and> ((rev before, after), q) \<in> rx_sem uc pattern)"

definition uncertainty :: "string \<Rightarrow> reflection_site" where
  "uncertainty rel_path = \<lparr>site_file = rel_path, site_line = 0, site_kind = ''structural-uncertainty'', site_snippet = ''''\<rparr>"

text \<open>The sites of one file: an uncertainty, or one site per line and kind of pattern that it matches.\<close>

definition file_site :: "unicode \<Rightarrow> string \<Rightarrow> string \<Rightarrow> bytes option \<Rightarrow> reflection_site \<Rightarrow> bool" where
  "file_site uc rel_path name data site \<longleftrightarrow>
     (case detect_language uc name of
        None \<Rightarrow> lower uc (path_suffix name) \<notin> set INERT_EXTENSIONS \<and> site = uncertainty rel_path
      | Some lang \<Rightarrow>
          (case read_text data of
             None \<Rightarrow> site = uncertainty rel_path
           | Some content \<Rightarrow> (\<exists>n rkind. n < length (splitlines (units content)) \<and> reflective uc lang rkind (splitlines (units content) ! n) \<and>
               site = make_site rel_path (n + 1) rkind (splitlines (units content) ! n))))"

section \<open>The scan\<close>

lemma files_under_iff: "(p, d) \<in> set (files_under path node) \<longleftrightarrow> (\<exists>q. p = path @ q \<and> holds_file node q d)"
proof (induction path node arbitrary: p d rule: files_under.induct)
  case (3 path entries)
  have IH: "(p, d) \<in> set (files_under (path @ [name]) node) \<longleftrightarrow> (\<exists>q. p = path @ name # q \<and> holds_file node q d)"
    if "(name, node) \<in> set entries" for name node
    using 3 [OF that refl] by simp
  have "(p, d) \<in> set (files_under path (FDir (Some entries))) \<longleftrightarrow>
      (\<exists>name node. (name, node) \<in> set entries \<and> (p, d) \<in> set (files_under (path @ [name]) node))"
    by (simp add: Bex_def split_paired_Ex)
  also have "\<dots> \<longleftrightarrow> (\<exists>name node. (name, node) \<in> set entries \<and> (\<exists>q. p = path @ name # q \<and> holds_file node q d))"
    by (intro ex_cong1 conj_cong refl IH)
  also have "\<dots> \<longleftrightarrow> (\<exists>q. p = path @ q \<and> holds_file (FDir (Some entries)) q d)"
    unfolding holds_file_simps by blast
  finally show ?case .
qed auto

lemma iter_source_files_iff:
  "(rel, p, d) \<in> set (iter_source_files tree_root found) \<longleftrightarrow>
     (\<exists>node q. found = Some node \<and> holds_file node q d \<and> rel = rel_name tree_root q \<and> p = (if q = [] then path_parts tree_root else q))"
proof (cases found)
  case (Some node)
  show ?thesis
  proof (cases node)
    case (FDir es)
    have ne: "q \<noteq> []" if "holds_file (FDir es) q d" for q using that by (cases es) auto
    have "(rel, p, d) \<in> set (iter_source_files tree_root found) \<longleftrightarrow> rel = join_slash p \<and> (p, d) \<in> set (files_under [] (FDir es))"
      unfolding Some FDir by (auto simp: iter_source_files_def intro!: image_eqI)
    also have "\<dots> \<longleftrightarrow> rel = join_slash p \<and> holds_file (FDir es) p d" by (simp only: files_under_iff append_Nil) blast
    finally show ?thesis using ne unfolding Some FDir rel_name_def by (metis option.inject)
  qed (auto simp: Some iter_source_files_def rel_name_def)
qed (simp add: iter_source_files_def)

lemma rx_search_reflective:
  "(\<exists>pattern. (rkind, pattern) \<in> set (patterns_of uc lang) \<and> rx_search uc pattern line) \<longleftrightarrow> reflective uc lang rkind line"
  unfolding reflective_def rx_search_iff by blast

definition file_sites :: "unicode \<Rightarrow> string \<times> source_file \<Rightarrow> reflection_site list" where
  "file_sites uc entry = sites (check_file uc entry \<lparr>sites = [], scan_confidence = ''high''\<rparr>)"

lemma check_file_sites: "sites (check_file uc entry s) = sites s @ file_sites uc entry"
  by (auto simp: check_file_def file_sites_def add_uncertainty_def split: prod.splits option.splits)

lemma check_files_sites: "sites (fold (check_file uc) entries s) = sites s @ concat (map (file_sites uc) entries)"
  by (induction entries arbitrary: s) (simp_all add: check_file_sites)

lemma set_line_sites:
  "site \<in> set (line_sites uc rel_path (patterns_of uc lang) n line) \<longleftrightarrow> (\<exists>rkind. reflective uc lang rkind line \<and> site = make_site rel_path n rkind line)"
  unfolding rx_search_reflective [symmetric] by (auto simp: line_sites_def)

lemma set_enumerate: "set (enumerate 1 xs) = (\<lambda>n. (n + 1, xs ! n)) ` {..<length xs}"
proof (rule set_eqI)
  fix e
  show "e \<in> set (enumerate 1 xs) \<longleftrightarrow> e \<in> (\<lambda>n. (n + 1, xs ! n)) ` {..<length xs}"
    unfolding in_set_enumerate_eq by (cases e) (auto intro!: image_eqI [where x = "fst e - 1"])
qed

lemma set_scan_text:
  "site \<in> set (scan_text uc rel_path lang content) \<longleftrightarrow>
     (\<exists>n rkind. n < length (splitlines (units content)) \<and> reflective uc lang rkind (splitlines (units content) ! n) \<and>
       site = make_site rel_path (n + 1) rkind (splitlines (units content) ! n))"
  unfolding scan_text_def set_concat set_map set_enumerate by (auto simp: set_line_sites)

lemma set_file_sites: "site \<in> set (file_sites uc (rel_path, (path, data))) \<longleftrightarrow> file_site uc rel_path (path_name path) data site"
  by (auto simp: file_sites_def file_site_def check_file_def add_uncertainty_def uncertainty_def set_scan_text
      split: option.splits)

lemma check_languages_sites:
  "sites (fold check_language langs s) = sites s @ map (\<lambda>l. uncertainty (''<language:'' @ l @ ''>'')) (filter (\<lambda>l. l \<notin> set SUPPORTED_LANGUAGES) langs)"
  by (induction langs arbitrary: s) (auto simp: check_language_def add_uncertainty_def uncertainty_def)

text \<open>An uncertainty always comes with a site, so that the defensive branch is not reached.\<close>

definition sited :: "scan_state \<Rightarrow> bool" where
  "sited s \<longleftrightarrow> (scan_confidence s = ''uncertain'' \<longrightarrow> sites s \<noteq> [])"

lemma sited_uncertain [simp]: "sited (add_uncertainty rel_path s)"
  by (simp add: sited_def add_uncertainty_def)

lemma sited_append: "sited s \<Longrightarrow> sited (s\<lparr>sites := sites s @ xs\<rparr>)"
  by (simp add: sited_def)

lemma sited_languages: "sited s \<Longrightarrow> sited (fold check_language langs s)"
  by (induction langs arbitrary: s) (auto simp: check_language_def)

lemma sited_files: "sited s \<Longrightarrow> sited (fold (check_file uc) entries s)"
proof (induction entries arbitrary: s)
  case (Cons e es)
  have "sited (check_file uc e s)"
    using Cons.prems by (auto simp: check_file_def sited_append split: prod.splits option.splits)
  then show ?case using Cons.IH by simp
qed simp

text \<open>The sites of a request in the order in which they are reported.\<close>

definition request_sites :: "unicode \<Rightarrow> cw_detect_request \<Rightarrow> fs_node option \<Rightarrow> reflection_site list" where
  "request_sites uc req found =
     map (\<lambda>l. uncertainty (''<language:'' @ l @ ''>'')) (filter (\<lambda>l. l \<notin> set SUPPORTED_LANGUAGES) (language_mix req)) @
     (if found = None then [uncertainty (source_tree_root req)] else []) @
     concat (map (file_sites uc) (iter_source_files (source_tree_root req) found)) @
     (case parent_snapshot req of None \<Rightarrow> [] | Some p \<Rightarrow> cached_reflection_sites p)"

lemma detect_result:
  "reflection_sites (detect uc req found now) = request_sites uc req found \<and>
   verdict (detect uc req found now) = (if request_sites uc req found = [] then ''closed-world'' else ''degraded'')"
proof -
  define s1 where "s1 = (let s0 = fold check_language (language_mix req) \<lparr>sites = [], scan_confidence = ''high''\<rparr> in
    if found = None then add_uncertainty (source_tree_root req) s0 else s0)"
  define s2 where "s2 = fold (check_file uc) (iter_source_files (source_tree_root req) found) s1"
  define s3 where "s3 = (case parent_snapshot req of None \<Rightarrow> s2 | Some p \<Rightarrow> s2\<lparr>sites := sites s2 @ cached_reflection_sites p\<rparr>)"
  have "sited (fold check_language (language_mix req) \<lparr>sites = [], scan_confidence = ''high''\<rparr>)"
    by (rule sited_languages) (simp add: sited_def)
  then have "sited s1" by (simp add: s1_def Let_def)
  then have "sited s3" by (auto simp: s3_def s2_def sited_files sited_append split: option.splits)
  moreover have "sites s3 = request_sites uc req found"
    by (auto simp: s3_def s2_def s1_def Let_def request_sites_def check_files_sites check_languages_sites add_uncertainty_def
        uncertainty_def split: option.splits)
  moreover have "detect uc req found now = (let s3 = s3 in if sites s3 \<noteq> [] then
           \<lparr>verdict = ''degraded'', cw_detect_version = CW_DETECT_VERSION, reflection_sites = sites s3,
            decided_at = now, confidence = scan_confidence s3\<rparr>
         else if scan_confidence s3 = ''uncertain'' then
           \<lparr>verdict = ''degraded'', cw_detect_version = CW_DETECT_VERSION,
            reflection_sites = [\<lparr>site_file = '''', site_line = 0, site_kind = ''structural-uncertainty'', site_snippet = ''''\<rparr>],
            decided_at = now, confidence = ''uncertain''\<rparr>
         else
           \<lparr>verdict = ''closed-world'', cw_detect_version = CW_DETECT_VERSION, reflection_sites = [],
            decided_at = now, confidence = ''high''\<rparr>)"
    unfolding detect_def s3_def s2_def s1_def Let_def ..
  ultimately show ?thesis by (auto simp: sited_def)
qed

lemma set_request_sites:
  "site \<in> set (request_sites uc req found) \<longleftrightarrow>
     (\<exists>p. parent_snapshot req = Some p \<and> site \<in> set (cached_reflection_sites p)) \<or>
     (\<exists>lang. lang \<in> set (language_mix req) \<and> lang \<notin> set SUPPORTED_LANGUAGES \<and> site = uncertainty (''<language:'' @ lang @ ''>'')) \<or>
     (found = None \<and> site = uncertainty (source_tree_root req)) \<or>
     (\<exists>node path data. found = Some node \<and> holds_file node path data \<and>
       file_site uc (rel_name (source_tree_root req) path) (base_name (source_tree_root req) path) data site)"
proof -
  have "site \<in> set (concat (map (file_sites uc) (iter_source_files (source_tree_root req) found))) \<longleftrightarrow>
      (\<exists>node path data. found = Some node \<and> holds_file node path data \<and>
        file_site uc (rel_name (source_tree_root req) path) (base_name (source_tree_root req) path) data site)"
    by (simp add: Bex_def split_paired_Ex set_file_sites iter_source_files_iff base_name_def) blast
  then show ?thesis by (auto simp: request_sites_def split: option.splits)
qed

section \<open>Contract\<close>

text \<open>A file that leaves the verdict at closed-world.\<close>

definition accounted :: "unicode \<Rightarrow> string \<Rightarrow> bytes option \<Rightarrow> bool" where
  "accounted uc name data \<longleftrightarrow>
     (case detect_language uc name of
        None \<Rightarrow> lower uc (path_suffix name) \<in> set INERT_EXTENSIONS
      | Some lang \<Rightarrow> (\<exists>content. read_text data = Some content \<and>
          (\<forall>line \<in> set (splitlines (units content)). \<forall>rkind. \<not> reflective uc lang rkind line)))"

lemma accounted_iff: "accounted uc name data \<longleftrightarrow> (\<forall>site. \<not> file_site uc rel_path name data site)"
  by (cases "detect_language uc name"; cases "read_text data") (auto simp: accounted_def file_site_def all_set_conv_all_nth)

text \<open>
  C23. Closed-world exactly when everything is accounted for. The verdict is closed-world if and only if
  every declared language is supported, the tree exists, no site is carried over from the parent
  snapshot, and every file of the tree, wherever it is, either has an inert extension or is a text of
  a supported language no line of which is matched by a reflection pattern of that language, in the
  sense of the relation that the pattern denotes.
\<close>

theorem closed_world_exact:
  "verdict (detect uc req found now) = ''closed-world'' \<longleftrightarrow>
     set (language_mix req) \<subseteq> set SUPPORTED_LANGUAGES \<and>
     opt_all (\<lambda>p. cached_reflection_sites p = []) (parent_snapshot req) \<and>
     (\<exists>node. found = Some node \<and>
       (\<forall>path data. holds_file node path data \<longrightarrow> accounted uc (base_name (source_tree_root req) path) data))"
proof -
  have "verdict (detect uc req found now) = ''closed-world'' \<longleftrightarrow> (\<forall>site. site \<notin> set (request_sites uc req found))"
    using detect_result [of uc req found now] by (auto simp: ex_in_conv)
  moreover have cached: "opt_all (\<lambda>p. cached_reflection_sites p = []) (parent_snapshot req) \<longleftrightarrow>
      (\<forall>p site. parent_snapshot req = Some p \<longrightarrow> site \<notin> set (cached_reflection_sites p))"
    by (cases "parent_snapshot req") (auto simp: ex_in_conv)
  have "(\<forall>site. site \<notin> set (request_sites uc req found)) \<longleftrightarrow> opt_all (\<lambda>p. cached_reflection_sites p = []) (parent_snapshot req) \<and>
      set (language_mix req) \<subseteq> set SUPPORTED_LANGUAGES \<and> found \<noteq> None \<and>
      (\<forall>node path data. found = Some node \<longrightarrow> holds_file node path data \<longrightarrow>
        (\<forall>site. \<not> file_site uc (rel_name (source_tree_root req) path) (base_name (source_tree_root req) path) data site))"
    unfolding set_request_sites cached de_Morgan_disj all_conj_distrib subset_iff by auto
  ultimately show ?thesis unfolding accounted_iff [symmetric] by auto
qed

definition sample_tree :: "string \<Rightarrow> bytes \<Rightarrow> fs_node" where
  "sample_tree name data = FDir (Some [(name, FFile (Some data))])"

definition sample_cw_request :: cw_detect_request where
  "sample_cw_request = \<lparr>source_tree_root = ''src'', language_mix = [''python''], parent_snapshot = None\<rparr>"

lemma sample_closed: "verdict (detect uc sample_cw_request (Some (sample_tree ''a.py'' ''x = f(y)'')) now) = ''closed-world''"
  by code_simp

lemma sample_degraded: "verdict (detect uc sample_cw_request (Some (sample_tree ''a.py'' ''x = eval(y)'')) now) = ''degraded''"
  by code_simp

theorem closed_world_exact_witness:
  "\<forall>uc. accounted uc ''a.py'' (Some ''x = f(y)'') \<and> \<not> accounted uc ''a.py'' (Some ''x = eval(y)'')"
proof (intro allI conjI)
  fix uc
  show "accounted uc ''a.py'' (Some ''x = f(y)'')"
    using closed_world_exact [of uc sample_cw_request "Some (sample_tree ''a.py'' ''x = f(y)'')" "''''"] sample_closed
    by (auto simp: sample_tree_def base_name_def path_name_def)
  have "\<not> (\<forall>path data. holds_file (sample_tree ''a.py'' ''x = eval(y)'') path data \<longrightarrow> accounted uc (base_name ''src'' path) data)"
    using closed_world_exact [of uc sample_cw_request "Some (sample_tree ''a.py'' ''x = eval(y)'')" "''''"] sample_degraded
    by (auto simp: sample_cw_request_def SUPPORTED_LANGUAGES_def LANG_EXTENSIONS_def)
  then show "\<not> accounted uc ''a.py'' (Some ''x = eval(y)'')"
    by (auto simp: sample_tree_def base_name_def path_name_def)
qed

text \<open>
  C24. Reflection is never routed as closed-world. If some file of the tree has a line that a reflection
  pattern of its language matches, then an incremental build whose request carries the verdict of the
  detector reports its route as degraded or full-reparse, whatever the graph, the reparser and the
  thresholds are.
\<close>

theorem reflection_not_routed_closed:
  assumes "holds_file node path data" and "detect_language uc (base_name (source_tree_root req) path) = Some lang"
    and "read_text data = Some content" and "line \<in> set (splitlines (units content))" and "reflective uc lang rkind line"
    and "finite_request delta" and "cw_verdict delta = verdict (detect uc req (Some node) now)"
    and "compute_incremental_cpg rp delta = Inr r"
  shows "precondition_status r \<in> {''degraded'', ''full-reparse''}"
proof -
  obtain n where n: "n < length (splitlines (units content))" "line = splitlines (units content) ! n"
    using assms(4) by (metis in_set_conv_nth)
  have "file_site uc rel (base_name (source_tree_root req) path) data (make_site rel (n + 1) rkind line)" for rel
    unfolding file_site_def assms(2,3) option.case using n assms(5) by blast
  then have "request_sites uc req (Some node) \<noteq> []"
    using set_request_sites [of _ uc req "Some node"] assms(1) by (metis empty_iff list.set(1))
  then have "cw_verdict delta = ''degraded''" using detect_result [of uc req "Some node" now] assms(7) by simp
  then show ?thesis using route_and_env_guard [OF assms(6), of rp] assms(8) by auto
qed

lemma sample_reflective: "reflective uc ''python'' ''python-eval-exec'' (units ''x = eval(y)'')"
proof -
  have "rx_search uc (snd (PYTHON_PATTERNS ! 2)) (units ''x = eval(y)'')" by code_simp
  moreover have "(''python-eval-exec'', snd (PYTHON_PATTERNS ! 2)) \<in> set (patterns_of uc ''python'')"
    by (simp add: patterns_of_def LANG_PATTERNS_def PYTHON_PATTERNS_def)
  ultimately show ?thesis unfolding rx_search_reflective [symmetric] by blast
qed

theorem reflection_not_routed_closed_witness:
  "\<exists>r. compute_incremental_cpg sample_reparser (sample_request ''degraded'' {''b''}) = Inr r \<and>
     precondition_status r \<in> {''degraded'', ''full-reparse''}"
proof -
  fix uc
  let ?t = "sample_tree ''a.py'' ''x = eval(y)''"
  obtain r where r: "compute_incremental_cpg sample_reparser (sample_request ''degraded'' {''b''}) = Inr r"
    using fresh_reparse_succeeds_witness by blast
  have "precondition_status r \<in> {''degraded'', ''full-reparse''}"
  proof (rule reflection_not_routed_closed)
    show "holds_file ?t [''a.py''] (Some ''x = eval(y)'')" by (simp add: sample_tree_def)
    show "detect_language uc (base_name (source_tree_root sample_cw_request) [''a.py'']) = Some ''python''" by code_simp
    show "read_text (Some ''x = eval(y)'') = Some ''x = eval(y)''" by code_simp
    show "units ''x = eval(y)'' \<in> set (splitlines (units ''x = eval(y)''))" by code_simp
    show "reflective uc ''python'' ''python-eval-exec'' (units ''x = eval(y)'')" by (rule sample_reflective)
    show "finite_request (sample_request ''degraded'' {''b''})" by (rule sample_request_finite) simp
    show "cw_verdict (sample_request ''degraded'' {''b''}) = verdict (detect uc sample_cw_request (Some ?t) '''')"
      unfolding sample_degraded by (simp add: sample_request_def)
  qed (rule r)
  with r show ?thesis by blast
qed

section \<open>What the patterns see\<close>















end
