(* ===== verification/Json_Ascii.thy ===== *)
theory Json_Ascii
  imports Regex
begin

text \<open>
  \<open>json.dumps(value, sort_keys=True, separators=(",", ":"))\<close>: the rendering with \<open>ensure_ascii\<close>, in which every
  character outside the printable ASCII range is written as a \<open>\u\<close> escape, as a pair of them above the
  basic plane. It is a prefix code on well-formed texts.
\<close>

section \<open>Code points and their escapes\<close>

definition unit_code :: "string \<Rightarrow> nat" where
  "unit_code u =
     (case u of
        [a] \<Rightarrow> of_char a
      | [a, b] \<Rightarrow> (of_char a mod 32) * 64 + of_char b mod 64
      | [a, b, c] \<Rightarrow> (of_char a mod 16) * 4096 + (of_char b mod 64) * 64 + of_char c mod 64
      | [a, b, c, d] \<Rightarrow> (of_char a mod 8) * 262144 + (of_char b mod 64) * 4096 + (of_char c mod 64) * 64 + of_char d mod 64
      | _ \<Rightarrow> 0)"

definition hex_quad :: "nat \<Rightarrow> string" where
  "hex_quad n = [hex_digit (n div 4096), hex_digit (n div 256 mod 16), hex_digit (n div 16 mod 16), hex_digit (n mod 16)]"

definition u_escape :: "nat \<Rightarrow> string" where
  "u_escape n = CHR 0x5C # CHR ''u'' # hex_quad n"

definition ascii_escape :: "string \<Rightarrow> string" where
  "ascii_escape u =
     (case u of
        [c] \<Rightarrow> if c = CHR 0x7F then u_escape 127 else json_escape c
      | _ \<Rightarrow>
          let n = unit_code u in
          if n < 0x10000 then u_escape n
          else u_escape (0xD800 + (n - 0x10000) div 1024) @ u_escape (0xDC00 + (n - 0x10000) mod 1024))"

definition ascii_quote :: "string \<Rightarrow> string" where
  "ascii_quote s = CHR 0x22 # concat (map ascii_escape (units s)) @ [CHR 0x22]"

definition dumps_ascii :: "json \<Rightarrow> string" where
  "dumps_ascii j = render ascii_quote (sort_keys j)"

section \<open>Reading an escape back\<close>

lemma hex4_quad:
  assumes "n < 65536"
  shows "hex4 (hex_quad n) = Some n"
proof -
  have top: "n div 4096 < 16" using assms by (simp add: less_mult_imp_div_less)
  have "n = 16 * (16 * (16 * (n div 4096) + n div 256 mod 16) + n div 16 mod 16) + n mod 16"
    using div_mult_mod_eq [of n 16] div_mult_mod_eq [of "n div 16" 16] div_mult_mod_eq [of "n div 256" 16]
    by (simp add: div_mult2_eq [symmetric] algebra_simps)
  with top show ?thesis by (simp add: hex4_def hex_quad_def of_char_hex_digit)
qed

lemma length_quad [simp]: "length (hex_quad n) = 4"
  by (simp add: hex_quad_def)

lemma scan_bmp:
  assumes "n < 65536" and "\<not> high_surrogate n"
  shows "scanstring (u_escape n @ r) = prepend (utf8_bytes n) (scanstring r)"
proof -
  have "unicode_escape (hex_quad n @ r) = Some (n, r)"
    using assms by (simp add: unicode_escape_def hex4_quad Let_def)
  then show ?thesis by (simp add: u_escape_def)
qed

lemma scan_pair:
  assumes "n < 1048576"
  shows "scanstring (u_escape (0xD800 + n div 1024) @ u_escape (0xDC00 + n mod 1024) @ r) = prepend (utf8_bytes (0x10000 + n)) (scanstring r)"
proof -
  have "n div 1024 < 1024" "n mod 1024 < 1024" using assms by (simp_all add: less_mult_imp_div_less)
  then have "unicode_escape (hex_quad (0xD800 + n div 1024) @ u_escape (0xDC00 + n mod 1024) @ r) = Some (0x10000 + n, r)"
    using div_mult_mod_eq [of n 1024]
    by (simp add: unicode_escape_def hex4_quad Let_def high_surrogate_def low_surrogate_def u_escape_def)
  then show ?thesis by (simp add: u_escape_def)
qed

section \<open>Characters of a well-formed text\<close>

definition valid_unit :: "string \<Rightarrow> bool" where
  "valid_unit u \<longleftrightarrow> u \<noteq> [] \<and> utf8_tail (hd u) = Some (length (tl u)) \<and> utf8_rest (hd u) (tl u)"

lemma valid_units: "utf8_valid s \<Longrightarrow> u \<in> set (units s) \<Longrightarrow> valid_unit u"
proof (induction s rule: units.induct)
  case (2 a s)
  then obtain k where k: "utf8_tail a = Some k" "k \<le> length s" "utf8_rest a (take k s)" "utf8_valid (drop k s)"
    by (auto split: option.splits)
  with 2 show ?case by (auto simp: valid_unit_def)
qed simp

lemma byte_at:
  assumes "in_range m n c"
  obtains x where "of_char c = m + x" and "x \<le> n - m" and "c = char_of (m + x)"
  by (rule that [of "of_char c - m"]) (use assms in \<open>auto simp: in_range_def\<close>)

lemmas cont_at = byte_at [of 128 191]

lemma mod_of_byte: "x + m < k \<Longrightarrow> (k * q + m + x) mod k = m + (x :: nat)"
  by (simp add: add.assoc)

lemma digit64: "y \<le> 191 - 128 \<Longrightarrow> (q * 64 + y) div 64 = q" "y \<le> 191 - 128 \<Longrightarrow> (q * 64 + y) mod 64 = (y :: nat)"
  by simp_all

lemma div64: "n div 4096 = n div 64 div 64" "n div 262144 = n div 64 div 64 div (64 :: nat)"
  by (simp_all add: div_mult2_eq [symmetric])

lemma cont_mod: "y \<le> 191 - 128 \<Longrightarrow> (128 + y) mod 64 = (y :: nat)"
  using mod_of_byte [of y 0 64 2] by simp

lemma scan_two:
  assumes "in_range 0xC2 0xDF a" and "in_range 0x80 0xBF b"
  shows "scanstring (ascii_escape [a, b] @ r) = prepend [a, b] (scanstring r)"
proof -
  obtain x :: nat where x: "of_char a = 194 + x" "x \<le> 223 - 194" "a = char_of (194 + x)" using assms(1) by (rule byte_at)
  obtain y :: nat where y: "of_char b = 128 + y" "y \<le> 191 - 128" "b = char_of (128 + y)" using assms(2) by (rule cont_at)
  define n where "n = (2 + x) * 64 + y"
  have code: "unit_code [a, b] = n" unfolding n_def using mod_of_byte [of x 2 32 6] x(2) cont_mod [OF y(2)]
    by (simp add: unit_code_def x(1) y(1))
  have small: "n < 65536" "\<not> high_surrogate n" "128 \<le> n" "n < 0x800" using x(2) y(2) by (simp_all add: high_surrogate_def n_def)
  have dm: "n div 64 = 2 + x" "n mod 64 = y" unfolding n_def by (rule digit64 [OF y(2)])+
  have "utf8_bytes n = [a, b]" unfolding utf8_bytes_def dm x(3) y(3) using small by (simp add: add.assoc [symmetric])
  moreover have "ascii_escape [a, b] = u_escape n" using small(1) by (simp add: ascii_escape_def code)
  ultimately show ?thesis using scan_bmp [OF small(1,2)] by simp
qed

lemma scan_three:
  assumes "in_range 0xE0 0xEF a" and "utf8_second a b" and "in_range 0x80 0xBF c"
  shows "scanstring (ascii_escape [a, b, c] @ r) = prepend [a, b, c] (scanstring r)"
proof -
  have "in_range 0x80 0xBF b" using assms(2) by (auto simp: utf8_second_def in_range_def split: if_splits)
  then obtain y :: nat where y: "of_char b = 128 + y" "y \<le> 191 - 128" "b = char_of (128 + y)" by (rule cont_at)
  obtain x :: nat where x: "of_char a = 224 + x" "x \<le> 239 - 224" "a = char_of (224 + x)" using assms(1) by (rule byte_at)
  obtain z :: nat where z: "of_char c = 128 + z" "z \<le> 191 - 128" "c = char_of (128 + z)" using assms(3) by (rule cont_at)
  have second: "x = 0 \<Longrightarrow> 32 \<le> y" "x = 13 \<Longrightarrow> y < 32"
    using assms(2) by (auto simp: utf8_second_def in_range_def x(1) y(1))
  define n where "n = (x * 64 + y) * 64 + z"
  have code: "unit_code [a, b, c] = n"
    unfolding n_def using mod_of_byte [of x 0 16 14] x(2) cont_mod [OF y(2)] cont_mod [OF z(2)]
    by (simp add: unit_code_def x(1) y(1) z(1))
  have small: "n < 65536" "0x800 \<le> n" using x(2) y(2) z(2) second(1) by (cases "x = 0"; simp add: n_def)+
  have "\<not> high_surrogate n" using x(2) y(2) z(2) second(2) unfolding high_surrogate_def n_def by (cases "x = 13") auto
  moreover have dm: "n div 4096 = x" "n div 64 mod 64 = y" "n mod 64 = z"
    unfolding n_def div64 digit64 [OF y(2)] digit64 [OF z(2)] by (rule refl)+
  have "utf8_bytes n = [a, b, c]" unfolding utf8_bytes_def dm x(3) y(3) z(3) using small by simp
  moreover have "ascii_escape [a, b, c] = u_escape n" using small(1) by (simp add: ascii_escape_def code)
  ultimately show ?thesis using scan_bmp [OF small(1)] by simp
qed

lemma scan_four:
  assumes "in_range 0xF0 0xF4 a" and "utf8_second a b" and "in_range 0x80 0xBF c" and "in_range 0x80 0xBF d"
  shows "scanstring (ascii_escape [a, b, c, d] @ r) = prepend [a, b, c, d] (scanstring r)"
proof -
  have "in_range 0x80 0xBF b" using assms(2) by (auto simp: utf8_second_def in_range_def split: if_splits)
  then obtain y :: nat where y: "of_char b = 128 + y" "y \<le> 191 - 128" "b = char_of (128 + y)" by (rule cont_at)
  obtain x :: nat where x: "of_char a = 240 + x" "x \<le> 244 - 240" "a = char_of (240 + x)" using assms(1) by (rule byte_at)
  obtain z :: nat where z: "of_char c = 128 + z" "z \<le> 191 - 128" "c = char_of (128 + z)" using assms(3) by (rule cont_at)
  obtain w :: nat where w: "of_char d = 128 + w" "w \<le> 191 - 128" "d = char_of (128 + w)" using assms(4) by (rule cont_at)
  have second: "x = 0 \<Longrightarrow> 16 \<le> y" "x = 4 \<Longrightarrow> y < 16"
    using assms(2) by (auto simp: utf8_second_def in_range_def x(1) y(1))
  define n where "n = ((x * 64 + y) * 64 + z) * 64 + w"
  have code: "unit_code [a, b, c, d] = n"
    unfolding n_def using mod_of_byte [of x 0 8 30] x(2) cont_mod [OF y(2)] cont_mod [OF z(2)] cont_mod [OF w(2)]
    by (simp add: unit_code_def x(1) y(1) z(1) w(1))
  have lo: "65536 \<le> n" using second(1) unfolding n_def by (cases "x = 0") simp_all
  have hi: "n < 0x110000" using x(2) y(2) z(2) w(2) second(2) unfolding n_def by (cases "x = 4") auto
  have dm: "n div 262144 = x" "n div 4096 mod 64 = y" "n div 64 mod 64 = z" "n mod 64 = w"
    unfolding n_def div64 digit64 [OF y(2)] digit64 [OF z(2)] digit64 [OF w(2)] by (rule refl)+
  have "utf8_bytes n = [a, b, c, d]" unfolding utf8_bytes_def dm x(3) y(3) z(3) w(3) using lo by simp
  moreover have "ascii_escape [a, b, c, d] = u_escape (0xD800 + (n - 0x10000) div 1024) @ u_escape (0xDC00 + (n - 0x10000) mod 1024)"
    using lo by (simp add: ascii_escape_def code)
  moreover have "n - 0x10000 < 1048576" "0x10000 + (n - 0x10000) = n" using lo hi by simp_all
  ultimately show ?thesis using scan_pair [of "n - 0x10000" r] by simp
qed

lemma scan_unit:
  assumes "valid_unit u"
  shows "scanstring (ascii_escape u @ r) = prepend u (scanstring r)"
proof -
  obtain a t where u: "u = a # t" using assms by (cases u) (auto simp: valid_unit_def)
  have v: "utf8_tail a = Some (length t)" "utf8_rest a t" using assms by (simp_all add: u valid_unit_def)
  consider "length t = 0" "in_range 0 0x7F a" | "length t = 1" "in_range 0xC2 0xDF a"
    | "length t = 2" "in_range 0xE0 0xEF a" | "length t = 3" "in_range 0xF0 0xF4 a"
    using v(1) by (auto simp: utf8_tail_def split: if_splits)
  then show ?thesis
  proof cases
    case 1
    show ?thesis
    proof (cases "a = CHR 0x7F")
      case True
      have "utf8_bytes 127 = [CHR 0x7F]" by (simp add: utf8_bytes_def) code_simp
      then show ?thesis using 1 True scan_bmp [of 127 r] by (simp add: u ascii_escape_def high_surrogate_def)
    qed (use 1 in \<open>simp add: u ascii_escape_def scanstring_escape\<close>)
  next
    case 2
    then obtain b where "t = [b]" by (auto simp: length_Suc_conv)
    with v 2 show ?thesis using scan_two [of a b r] by (auto simp: u utf8_second_def in_range_def split: if_splits)
  next
    case 3
    then obtain b c where "t = [b, c]" by (auto simp: numeral_2_eq_2 length_Suc_conv)
    with v 3 show ?thesis using scan_three [of a b c r] by (simp add: u)
  next
    case 4
    then obtain b c d where "t = [b, c, d]" by (auto simp: numeral_3_eq_3 length_Suc_conv)
    with v 4 show ?thesis using scan_four [of a b c d r] by (simp add: u)
  qed
qed

lemma scan_units: "(\<And>u. u \<in> set us \<Longrightarrow> valid_unit u) \<Longrightarrow> scanstring (concat (map ascii_escape us) @ CHR 0x22 # r) = Inr (concat us, r)"
proof (induction us)
  case (Cons u us)
  then show ?case by (simp add: scan_unit prepend_def)
qed simp

lemma ascii_quote_scan: "utf8_valid s \<Longrightarrow> ascii_quote s @ r = CHR 0x22 # t \<Longrightarrow> scanstring t = Inr (s, r)"
  using scan_units [of "units s" r] valid_units [of s] by (auto simp: ascii_quote_def)

interpretation ascii_code: quoting ascii_quote utf8_valid
proof unfold_locales
  show "\<exists>t. ascii_quote s = CHR 0x22 # t" for s by (simp add: ascii_quote_def)
  show "s = t \<and> r = u" if "utf8_valid s" "utf8_valid t" "ascii_quote s @ r = ascii_quote t @ u" for s t r u
  proof -
    obtain v where v: "ascii_quote s @ r = CHR 0x22 # v" by (simp add: ascii_quote_def)
    then have "scanstring v = Inr (s, r)" "scanstring v = Inr (t, u)"
      using ascii_quote_scan that by metis+
    then show ?thesis by simp
  qed
qed

lemma dumps_ascii_inj:
  "dumps_ascii j = dumps_ascii k \<Longrightarrow> json_strings utf8_valid j \<Longrightarrow> json_strings utf8_valid k \<Longrightarrow> sort_keys j = sort_keys k"
  using ascii_code.render_prefix [of "sort_keys j" "[]" "sort_keys k" "[]"]
  by (simp add: dumps_ascii_def sort_keys_strings)

end
