(* ===== verification/Provenance.thy ===== *)
theory Provenance
  imports Artifact_Identity Ordering Json_Ascii
begin

text \<open>
  \<open>services/scan/provenance/__init__.py\<close>: the signed audit record of a finding, its canonical bytes, signing,
  verification of a chain of records, the export for auditors and the re-partition event.

  The key service, the signature check of the \<open>cryptography\<close> package, SHA-256, the artifact store and
  the record store are parameters; the operations of a record store are the fields of \<open>pstore\<close>. A UUID
  is its canonical text.
\<close>

type_synonym uuid = string

record provenance_record =
  pr_id :: uuid
  pr_parent_record_id :: "uuid option"
  pr_record_type :: string
  pr_scan_id :: uuid
  pr_finding_id :: "uuid option"
  pr_org_id :: uuid
  pr_codebase_id :: uuid
  pr_commit_sha :: string
  pr_scm_provider :: string
  pr_snapshot_id :: uuid
  pr_snapshot_digest :: string
  pr_precondition_status :: "string option"
  pr_S_version :: string
  pr_env_digest :: string
  pr_cpg_order_hash :: "bytes option"
  pr_cpg_order_hash_annotation :: string
  pr_fingerprint_class :: "string option"
  pr_witness_blob_uri :: "string option"
  pr_slice_fingerprint :: "bytes option"
  pr_rule_id :: "string option"
  pr_spec_id :: "string option"
  pr_detector_id :: "string option"
  pr_detector_engine :: "string option"
  pr_sarif_hash :: "bytes option"
  pr_origin :: "string option"
  pr_determinism_partition :: "string option"
  pr_repartition_reason :: "string option"
  pr_repartition_oracle_id :: "uuid option"
  pr_claim_label :: string
  pr_record_schema_version :: int
  pr_artifact_identity :: pyval

definition DEFAULT_SIGNATURE_ALG :: string where
  "DEFAULT_SIGNATURE_ALG = ''RSASSA_PSS_SHA_256''"

record signed_record =
  sr_record :: provenance_record
  sr_canonical_bytes :: bytes
  sr_kms_key_arn :: string
  sr_kms_key_version :: string
  sr_signature :: bytes
  sr_signature_alg :: string

section \<open>Canonical bytes\<close>

definition opt_hex :: "bytes option \<Rightarrow> string option" where
  "opt_hex v = map_option hex v"

text \<open>What \<open>json.dumps\<close> makes of a value; bytes are refused.\<close>

fun pyval_json :: "pyval \<Rightarrow> json res" where
  "pyval_json PNone = Inr JNull"
| "pyval_json (PBool b) = Inr (JBool b)"
| "pyval_json (PInt i) = Inr (JInt i)"
| "pyval_json (PStr s) = Inr (JStr s)"
| "pyval_json (PBytes b) = Inl TypeError"
| "pyval_json (PList xs) = r_bind (r_map pyval_json xs) (\<lambda>js. Inr (JArr js))"
| "pyval_json (PDict d) = r_bind (r_map (\<lambda>(k, v). r_bind (pyval_json v) (\<lambda>j. Inr (k, j))) d) (\<lambda>js. Inr (JObj js))"

text \<open>The fields of a record in the order of the class, without the two of the second version.\<close>

definition record_fields :: "provenance_record \<Rightarrow> (string \<times> json) list" where
  "record_fields r =
     [(''id'', JStr (pr_id r)), (''parent_record_id'', jopt (pr_parent_record_id r)), (''record_type'', JStr (pr_record_type r)),
      (''scan_id'', JStr (pr_scan_id r)), (''finding_id'', jopt (pr_finding_id r)), (''org_id'', JStr (pr_org_id r)),
      (''codebase_id'', JStr (pr_codebase_id r)), (''commit_sha'', JStr (pr_commit_sha r)), (''scm_provider'', JStr (pr_scm_provider r)),
      (''snapshot_id'', JStr (pr_snapshot_id r)), (''snapshot_digest'', JStr (pr_snapshot_digest r)),
      (''precondition_status'', jopt (pr_precondition_status r)), (''S_version'', JStr (pr_S_version r)), (''env_digest'', JStr (pr_env_digest r)),
      (''cpg_order_hash'', jopt (opt_hex (pr_cpg_order_hash r))), (''cpg_order_hash_annotation'', JStr (pr_cpg_order_hash_annotation r)),
      (''fingerprint_class'', jopt (pr_fingerprint_class r)), (''witness_blob_uri'', jopt (pr_witness_blob_uri r)),
      (''slice_fingerprint'', jopt (opt_hex (pr_slice_fingerprint r))), (''rule_id'', jopt (pr_rule_id r)), (''spec_id'', jopt (pr_spec_id r)),
      (''detector_id'', jopt (pr_detector_id r)), (''detector_engine'', jopt (pr_detector_engine r)),
      (''sarif_hash'', jopt (opt_hex (pr_sarif_hash r))), (''origin'', jopt (pr_origin r)),
      (''determinism_partition'', jopt (pr_determinism_partition r)), (''repartition_reason'', jopt (pr_repartition_reason r)),
      (''repartition_oracle_id'', jopt (pr_repartition_oracle_id r)), (''claim_label'', JStr (pr_claim_label r))]"

definition record_payload :: "provenance_record \<Rightarrow> json res" where
  "record_payload r =
     (if pr_record_schema_version r = 2
      then r_bind (pyval_json (pr_artifact_identity r)) (\<lambda>meta.
        Inr (JObj (record_fields r @ [(''record_schema_version'', JInt 2), (''artifact_identity'', meta)])))
      else Inr (JObj (record_fields r)))"

definition check_v2 :: "provenance_record \<Rightarrow> unit res" where
  "check_v2 r =
     (if pr_fingerprint_class r \<noteq> None then Inl (ValueError ''v2 records must not assert an ambiguous shared class'')
      else r_bind (validate_identity_metadata (pr_artifact_identity r)) (\<lambda>(graph, sliced).
        if pr_origin r = Some ''deterministic-core'' \<and>
           (ai_status graph \<noteq> ''completed'' \<or> ai_status sliced \<noteq> ''completed'' \<or> pr_precondition_status r = None)
        then Inl (ValueError ''core records require computed graph, slice, and precondition evidence'')
        else if ai_digest graph \<noteq> opt_hex (pr_cpg_order_hash r) \<or> ai_digest sliced \<noteq> opt_hex (pr_slice_fingerprint r)
        then Inl (ValueError ''signed artifact metadata does not match record digests'')
        else Inr ()))"

definition canonical_record_bytes :: "provenance_record \<Rightarrow> bytes res" where
  "canonical_record_bytes r =
     (if pr_record_schema_version r \<notin> {1, 2} then Inl (ValueError ''unsupported provenance record schema version'')
      else if pr_record_schema_version r = 1 \<and> pr_artifact_identity r \<noteq> PNone
      then Inl (ValueError ''v1 signed records cannot carry unsigned artifact metadata'')
      else r_then (if pr_record_schema_version r = 2 then check_v2 r else Inr ())
        (r_bind (record_payload r) (\<lambda>payload. Inr (dumps_ascii payload))))"

section \<open>Signing\<close>

text \<open>The answer of the key service: the signature when it is bytes, and the key id when there is one.\<close>

record sign_response =
  resp_signature :: "bytes option"
  resp_key_id :: "string option"

record kms_signer =
  kms_sign :: "string \<Rightarrow> bytes \<Rightarrow> string \<Rightarrow> sign_response"
  kms_public_key :: "string \<Rightarrow> string \<Rightarrow> bytes option"

record 's pstore =
  store_append :: "signed_record \<Rightarrow> 's \<Rightarrow> 's res"
  store_get :: "'s \<Rightarrow> uuid \<Rightarrow> signed_record option"
  store_children :: "'s \<Rightarrow> uuid \<Rightarrow> signed_record list"
  store_core_chain :: "'s \<Rightarrow> uuid \<Rightarrow> signed_record list"

definition expect_bytes :: "sign_response \<Rightarrow> bytes res" where
  "expect_bytes resp =
     (case resp_signature resp of None \<Rightarrow> Inl (ProvenanceError ''KMS response missing/invalid Signature'') | Some b \<Rightarrow> Inr b)"

text \<open>\<open>key_id.split(":")[-1]\<close>\<close>

definition key_version :: "string \<Rightarrow> string" where
  "key_version key_id = rev (takeWhile (\<lambda>c. c \<noteq> CHR '':'') (rev key_id))"

definition sign_record :: "provenance_record \<Rightarrow> kms_signer \<Rightarrow> string \<Rightarrow> string \<Rightarrow> signed_record res" where
  "sign_record r signer kms_key_arn signature_alg =
     (if pr_cpg_order_hash_annotation r \<noteq> CPG_ORDER_HASH_ANNOTATION then Inl (InvariantViolation ''invariant_inv5_violation'')
      else if pr_record_type r \<in> {''chain'', ''repartition''} \<and> pr_origin r = None then Inl (InvariantViolation ''invariant_inv1_violation'')
      else r_bind (canonical_record_bytes r) (\<lambda>canonical.
        let resp = kms_sign signer kms_key_arn canonical signature_alg in
        r_bind (expect_bytes resp) (\<lambda>signature.
          let key_id = (case resp_key_id resp of None \<Rightarrow> kms_key_arn | Some k \<Rightarrow> k) in
          Inr \<lparr>sr_record = r, sr_canonical_bytes = canonical, sr_kms_key_arn = kms_key_arn, sr_kms_key_version = key_version key_id,
               sr_signature = signature, sr_signature_alg = signature_alg\<rparr>)))"

text \<open>A call without a store appends nowhere: \<open>no_store\<close>.\<close>

definition no_store :: "signed_record \<Rightarrow> 's \<Rightarrow> 's res" where
  "no_store signed st = Inr st"

definition sign_provenance ::
    "(signed_record \<Rightarrow> 's \<Rightarrow> 's res) \<Rightarrow> provenance_record \<Rightarrow> kms_signer \<Rightarrow> string \<Rightarrow> string \<Rightarrow> 's \<Rightarrow> (signed_record \<times> 's) res" where
  "sign_provenance put r signer kms_key_arn signature_alg st =
     r_bind (sign_record r signer kms_key_arn signature_alg) (\<lambda>signed.
     r_bind (put signed st) (\<lambda>st'. Inr (signed, st')))"

section \<open>Verification\<close>

definition sarif_uri :: "provenance_record \<Rightarrow> string" where
  "sarif_uri r = ''orgs/'' @ pr_org_id r @ ''/codebases/'' @ pr_codebase_id r @ ''/sarif/'' @ pr_scan_id r @ ''.sarif.json''"

definition verify_artifacts :: "(bytes \<Rightarrow> bytes) \<Rightarrow> provenance_record \<Rightarrow> (string \<Rightarrow> bytes option) \<Rightarrow> string" where
  "verify_artifacts H r fetch =
     (case pr_sarif_hash r of
        None \<Rightarrow> ''VERIFIED''
      | Some digest \<Rightarrow>
          (case fetch (sarif_uri r) of
             None \<Rightarrow> ''ARTIFACT_MISSING''
           | Some blob \<Rightarrow> if H blob \<noteq> digest then ''TAMPERED'' else ''VERIFIED''))"

text \<open>
  \<open>verify_chain\<close> calls itself for the parent of a re-partition record. The first argument bounds the
  depth; running out of it stands for the recursion error of the interpreter. The arguments are the
  hash, the signature check, the key service, the artifact store and the record store.
\<close>

record 's verifier =
  v_hash :: "bytes \<Rightarrow> bytes"
  v_signature :: "bytes \<Rightarrow> bytes \<Rightarrow> bytes \<Rightarrow> string \<Rightarrow> bool"
  v_signer :: kms_signer
  v_artifacts :: "(string \<Rightarrow> bytes option) option"
  v_store :: "('s pstore \<times> 's) option"

fun verify_chain :: "nat \<Rightarrow> 's verifier \<Rightarrow> signed_record \<Rightarrow> string res" where
  "verify_chain 0 V signed = Inl OutOfFuel"
| "verify_chain (Suc n) V signed =
     (case canonical_record_bytes (sr_record signed) of
        Inl (ValueError _) \<Rightarrow> Inr ''TAMPERED''
      | Inl TypeError \<Rightarrow> Inr ''TAMPERED''
      | Inl e \<Rightarrow> Inl e
      | Inr canonical \<Rightarrow>
          (case kms_public_key (v_signer V) (sr_kms_key_arn signed) (sr_kms_key_version signed) of
             None \<Rightarrow> Inr ''KEY_NOT_FOUND''
           | Some public_key \<Rightarrow>
               if \<not> v_signature V public_key canonical (sr_signature signed) (sr_signature_alg signed) then Inr ''TAMPERED''
               else
                 let artifact_verdict = (case v_artifacts V of None \<Rightarrow> ''VERIFIED'' | Some fetch \<Rightarrow> verify_artifacts (v_hash V) (sr_record signed) fetch) in
                 if artifact_verdict \<noteq> ''VERIFIED'' then Inr artifact_verdict
                 else
                   (case v_store V of
                      None \<Rightarrow> Inr ''VERIFIED''
                    | Some (ops, st) \<Rightarrow>
                        if pr_record_type (sr_record signed) \<noteq> ''repartition'' then Inr ''VERIFIED''
                        else
                          (case pr_parent_record_id (sr_record signed) of
                             None \<Rightarrow> Inr ''TAMPERED''
                           | Some parent_id \<Rightarrow>
                               (case store_get ops st parent_id of
                                  None \<Rightarrow> Inr ''ARTIFACT_MISSING''
                                | Some parent \<Rightarrow> verify_chain n V parent)))))"

section \<open>Export and re-partition\<close>

definition history_entry :: "signed_record \<Rightarrow> pyval" where
  "history_entry child =
     PDict [(''id'', PStr (pr_id (sr_record child))), (''repartition_reason'', popt (pr_repartition_reason (sr_record child))),
            (''repartition_oracle_id'', popt (pr_repartition_oracle_id (sr_record child))), (''new_origin'', popt (pr_origin (sr_record child)))]"

definition export_auditor_record :: "'s pstore \<Rightarrow> 's \<Rightarrow> uuid \<Rightarrow> (string \<times> pyval) list res" where
  "export_auditor_record ops st record_id =
     (case store_get ops st record_id of
        None \<Rightarrow> Inl (ProvenanceError (''no provenance record '' @ record_id))
      | Some signed \<Rightarrow>
          let r = sr_record signed;
              export = [(''id'', PStr (pr_id r)), (''parent_record_id'', popt (pr_parent_record_id r)), (''record_type'', PStr (pr_record_type r)),
                (''commit_sha'', PStr (pr_commit_sha r)), (''scm_provider'', PStr (pr_scm_provider r)),
                (''snapshot_digest'', PStr (pr_snapshot_digest r)), (''precondition_status'', popt (pr_precondition_status r)),
                (''S_version'', PStr (pr_S_version r)), (''env_digest'', PStr (pr_env_digest r)),
                (''cpg_order_hash'', popt (opt_hex (pr_cpg_order_hash r))), (''cpg_order_hash_annotation'', PStr (pr_cpg_order_hash_annotation r)),
                (''fingerprint_class'', popt (pr_fingerprint_class r)), (''witness_blob_uri'', popt (pr_witness_blob_uri r)),
                (''slice_fingerprint'', popt (opt_hex (pr_slice_fingerprint r))), (''rule_id'', popt (pr_rule_id r)), (''spec_id'', popt (pr_spec_id r)),
                (''detector_id'', popt (pr_detector_id r)), (''detector_engine'', popt (pr_detector_engine r)),
                (''sarif_hash'', popt (opt_hex (pr_sarif_hash r))), (''origin'', popt (pr_origin r)),
                (''determinism_partition'', popt (pr_determinism_partition r)), (''claim_label'', PStr (pr_claim_label r)),
                (''kms_key_arn'', PStr (sr_kms_key_arn signed)), (''kms_key_version'', PStr (sr_kms_key_version signed)),
                (''signature'', PStr (hex (sr_signature signed))), (''signature_alg'', PStr (sr_signature_alg signed)),
                (''repartition_history'', PList (map history_entry (store_children ops st record_id)))]
          in Inr (if pr_record_schema_version r = 2
             then filter (\<lambda>(k, v). k \<notin> {''fingerprint_class'', ''cpg_order_hash_annotation''}) export @
               [(''record_schema_version'', PInt 2), (''artifact_identity'', pr_artifact_identity r)]
             else export))"

definition repartition_record :: "provenance_record \<Rightarrow> uuid \<Rightarrow> uuid \<Rightarrow> uuid \<Rightarrow> string \<Rightarrow> provenance_record" where
  "repartition_record base new_id parent_record_id oracle_id reason =
     base\<lparr>pr_id := new_id, pr_parent_record_id := Some parent_record_id, pr_record_type := ''repartition'',
       pr_cpg_order_hash := None, pr_cpg_order_hash_annotation := CPG_ORDER_HASH_ANNOTATION, pr_fingerprint_class := None,
       pr_origin := Some ''oracle-passthrough'', pr_determinism_partition := Some ''oracle-passthrough'',
       pr_repartition_reason := Some reason, pr_repartition_oracle_id := Some oracle_id, pr_claim_label := ''EMPIRICAL'',
       pr_record_schema_version := 1, pr_artifact_identity := PNone\<rparr>"

definition append_repartition_event ::
    "'s pstore \<Rightarrow> uuid \<Rightarrow> uuid \<Rightarrow> uuid \<Rightarrow> string \<Rightarrow> kms_signer \<Rightarrow> string \<Rightarrow> 's \<Rightarrow> (signed_record \<times> 's) res" where
  "append_repartition_event ops new_id parent_record_id oracle_id reason signer signature_alg st =
     (case store_get ops st parent_record_id of
        None \<Rightarrow> Inl (RepartitionWithoutParent (''cannot append re-partition: no parent record '' @ parent_record_id))
      | Some parent \<Rightarrow>
          sign_provenance (store_append ops) (repartition_record (sr_record parent) new_id parent_record_id oracle_id reason) signer
            (sr_kms_key_arn parent) signature_alg st)"

end
