(* ===== verification/Repartition.thy ===== *)
theory Repartition
  imports Provenance
begin

text \<open>
  \<open>services/snapshot/diff_oracle.py\<close>: the oracle runs that check a closed-world verdict, and the
  re-partition of the findings of a snapshot whose verdict was wrong. What the n-th call of the key
  service answers and the n-th new UUID are parameters, since both differ from call to call.
\<close>

section \<open>Oracle runs\<close>

definition CORE_ENGINES :: "string list" where
  "CORE_ENGINES = [''ifds'', ''ide'']"

record oracle_reflection_site =
  ors_rel_path :: string
  ors_line :: int
  ors_detail :: string

record oracle_run_record =
  or_run_id :: uuid
  or_snapshot_id :: uuid
  or_oracle_version :: string
  or_cw_detect_version :: string
  or_oracle_verdict :: string
  or_agreed :: bool
  or_reflection_sites :: "oracle_reflection_site list"
  or_started_at :: string
  or_completed_at :: string
  or_reason :: "string option"

text \<open>The in-memory store of runs, a dictionary in insertion order.\<close>

type_synonym run_store = "(uuid \<times> oracle_run_record) list"

definition run_append :: "oracle_run_record \<Rightarrow> run_store \<Rightarrow> run_store res" where
  "run_append r runs = (if or_run_id r \<in> set (map fst runs) then Inl AssertionError else Inr (runs @ [(or_run_id r, r)]))"

definition run_get :: "run_store \<Rightarrow> uuid \<Rightarrow> oracle_run_record option" where
  "run_get runs run_id = map_of runs run_id"

definition all_runs :: "run_store \<Rightarrow> oracle_run_record list" where
  "all_runs runs = map snd runs"

record run_request =
  rq_snapshot_id :: uuid
  rq_oracle_verdict :: string
  rq_oracle_version :: string
  rq_cw_detect_version :: string
  rq_started_at :: string
  rq_completed_at :: string
  rq_reflection_sites :: "oracle_reflection_site list"
  rq_reason :: "string option"
  rq_run_id :: "uuid option"
  rq_language :: string

text \<open>The result is the record, the store and the counters that were incremented.\<close>

definition record_oracle_run :: "uuid \<Rightarrow> run_request \<Rightarrow> run_store \<Rightarrow> (oracle_run_record \<times> run_store \<times> (string \<times> string) list) res" where
  "record_oracle_run fresh q runs =
     (let agreed = (rq_oracle_verdict q = ''closed-world'') in
      if agreed \<and> rq_reflection_sites q \<noteq> []
      then Inl (ValueError ''a 'closed-world' oracle verdict must carry zero reflection_sites'')
      else
        let r = \<lparr>or_run_id = (case rq_run_id q of None \<Rightarrow> fresh | Some i \<Rightarrow> i), or_snapshot_id = rq_snapshot_id q,
                 or_oracle_version = rq_oracle_version q, or_cw_detect_version = rq_cw_detect_version q,
                 or_oracle_verdict = rq_oracle_verdict q, or_agreed = agreed, or_reflection_sites = rq_reflection_sites q,
                 or_started_at = rq_started_at q, or_completed_at = rq_completed_at q, or_reason = rq_reason q\<rparr> in
        r_bind (run_append r runs) (\<lambda>runs'.
          Inr (r, runs', if agreed then [] else [(''cw_detect.oracle_disagreement_count'', rq_language q)])))"

definition record_safe_default_agreement ::
    "uuid \<Rightarrow> run_request \<Rightarrow> run_store \<Rightarrow> (oracle_run_record \<times> run_store \<times> (string \<times> string) list) res" where
  "record_safe_default_agreement fresh q runs =
     record_oracle_run fresh (q\<lparr>rq_oracle_verdict := ''closed-world'', rq_reflection_sites := [], rq_language := ''unknown''\<rparr>) runs"

section \<open>Re-partition\<close>

definition is_core_at_risk :: "signed_record \<Rightarrow> bool" where
  "is_core_at_risk s \<longleftrightarrow> pr_record_type (sr_record s) = ''chain'' \<and> pr_origin (sr_record s) = Some ''deterministic-core'' \<and>
     (\<exists>engine \<in> set CORE_ENGINES. pr_detector_engine (sr_record s) = Some engine)"

definition already_repartitioned :: "'s pstore \<Rightarrow> 's \<Rightarrow> uuid \<Rightarrow> bool" where
  "already_repartitioned ops st chain_record_id \<longleftrightarrow>
     list_ex (\<lambda>child. pr_record_type (sr_record child) = ''repartition'') (store_children ops st chain_record_id)"

definition effective_origin :: "'s pstore \<Rightarrow> 's \<Rightarrow> signed_record \<Rightarrow> string" where
  "effective_origin ops st chain_record =
     (if already_repartitioned ops st (pr_id (sr_record chain_record)) then ''oracle-passthrough''
      else case pr_origin (sr_record chain_record) of None \<Rightarrow> ''oracle-passthrough'' | Some v \<Rightarrow> v)"

record repartition_result =
  affected_finding_count :: nat
  new_repartition_record_ids :: "uuid list"
  notified_customers :: "uuid list"
  already_repartitioned_count :: nat

text \<open>The environment of the n-th append: the new record id and the key service.\<close>

type_synonym call_env = "nat \<Rightarrow> uuid \<times> kms_signer"

text \<open>The loop over the candidates; a raise keeps what was appended before it.\<close>

fun repartition_loop ::
    "'s pstore \<Rightarrow> call_env \<Rightarrow> uuid \<Rightarrow> string \<Rightarrow> string \<Rightarrow> signed_record list \<Rightarrow> repartition_result \<Rightarrow> 's \<Rightarrow> repartition_result res \<times> 's" where
  "repartition_loop ops env oracle_id reason alg [] acc st = (Inr acc, st)"
| "repartition_loop ops env oracle_id reason alg (chain # rest) acc st =
     (if \<not> is_core_at_risk chain then repartition_loop ops env oracle_id reason alg rest acc st
      else if already_repartitioned ops st (pr_id (sr_record chain))
      then repartition_loop ops env oracle_id reason alg rest
        (acc\<lparr>already_repartitioned_count := already_repartitioned_count acc + 1\<rparr>) st
      else
        let (new_id, signer) = env (affected_finding_count acc) in
        (case append_repartition_event ops new_id (pr_id (sr_record chain)) oracle_id reason signer alg st of
           Inl e \<Rightarrow> (Inl e, st)
         | Inr (signed, st') \<Rightarrow>
             repartition_loop ops env oracle_id reason alg rest
               (acc\<lparr>affected_finding_count := affected_finding_count acc + 1,
                 new_repartition_record_ids := new_repartition_record_ids acc @ [pr_id (sr_record signed)],
                 notified_customers := notified_customers acc @ [pr_org_id (sr_record chain)]\<rparr>) st'))"

definition repartition_snapshot ::
    "'s pstore \<Rightarrow> call_env \<Rightarrow> uuid \<Rightarrow> uuid \<Rightarrow> string \<Rightarrow> string \<Rightarrow> 's \<Rightarrow> repartition_result res \<times> 's" where
  "repartition_snapshot ops env snapshot_id oracle_run_id reason alg st =
     (let (result, st') = repartition_loop ops env oracle_run_id reason alg (store_core_chain ops st snapshot_id)
            \<lparr>affected_finding_count = 0, new_repartition_record_ids = [], notified_customers = [], already_repartitioned_count = 0\<rparr> st
      in (r_bind result (\<lambda>acc. Inr (acc\<lparr>notified_customers := sort (remdups (notified_customers acc))\<rparr>)), st'))"

section \<open>The in-memory record store\<close>

text \<open>
  \<open>DemoProvenanceStore\<close> of \<open>tools/provenance_demo.py\<close>: a dictionary keyed by record id, in insertion order. It has no
  query by snapshot; the one that the protocol \<open>RepartitionProvenanceStore\<close> asks for is that of its only
  implementation in the repository, the subclass in \<open>tests/snap04_fakes.py\<close>: the rows in order that are at risk.
\<close>

definition demo_append :: "signed_record \<Rightarrow> signed_record list \<Rightarrow> signed_record list res" where
  "demo_append signed rows =
     (if pr_id (sr_record signed) \<in> set (map (\<lambda>s. pr_id (sr_record s)) rows)
      then Inl (ValueError (''append-only store: duplicate provenance record id '' @ pr_id (sr_record signed)))
      else Inr (rows @ [signed]))"

definition demo_get :: "signed_record list \<Rightarrow> uuid \<Rightarrow> signed_record option" where
  "demo_get rows record_id = List.find (\<lambda>s. pr_id (sr_record s) = record_id) rows"

definition demo_children :: "signed_record list \<Rightarrow> uuid \<Rightarrow> signed_record list" where
  "demo_children rows parent_record_id = filter (\<lambda>s. pr_parent_record_id (sr_record s) = Some parent_record_id) rows"

definition demo_core_chain :: "signed_record list \<Rightarrow> uuid \<Rightarrow> signed_record list" where
  "demo_core_chain rows snapshot_id = filter (\<lambda>s. pr_snapshot_id (sr_record s) = snapshot_id \<and> is_core_at_risk s) rows"

definition demo_store :: "signed_record list pstore" where
  "demo_store = \<lparr>store_append = demo_append, store_get = demo_get, store_children = demo_children, store_core_chain = demo_core_chain\<rparr>"

end
