(* ===== verification/Provenance_Contract.thy ===== *)
theory Provenance_Contract
  imports Repartition
begin

text \<open>
  What the signed records promise: the canonical bytes bind every field, a chain is verified exactly
  when each of its records passes the checks, verification ends on every store that the operations build,
  and a verified record is one that was signed.
\<close>

section \<open>The canonical bytes bind the record\<close>

lemma opt_hex_inj [simp]: "opt_hex a = opt_hex b \<longleftrightarrow> a = b"
  by (cases a; cases b) (auto simp: opt_hex_def dest: hex_inj)

lemma sort_keys_jopt [simp]: "sort_keys (jopt a) = jopt a"
  by (cases a) (simp_all add: jopt_def)

text \<open>The texts of a record are well-formed, as those of every Python string without lone surrogates.\<close>

definition record_texts :: "provenance_record \<Rightarrow> bool" where
  "record_texts r \<longleftrightarrow> (\<forall>j. record_payload r = Inr j \<longrightarrow> json_strings utf8_valid j)"

text \<open>Equal records, up to the order of the entries of the metadata.\<close>

definition same_record :: "provenance_record \<Rightarrow> provenance_record \<Rightarrow> bool" where
  "same_record r r' \<longleftrightarrow> r' = r\<lparr>pr_artifact_identity := pr_artifact_identity r'\<rparr> \<and>
     map_sum id sort_keys (pyval_json (pr_artifact_identity r)) = map_sum id sort_keys (pyval_json (pr_artifact_identity r'))"

lemma record_fields_keys: "map fst (record_fields r) = map fst (record_fields r')" "distinct (map fst (record_fields r))"
  by (simp_all add: record_fields_def)

lemma record_fields_inj:
  "map (sort_keys \<circ> snd) (record_fields r) = map (sort_keys \<circ> snd) (record_fields r') \<Longrightarrow>
   pr_record_schema_version r = pr_record_schema_version r' \<Longrightarrow> r' = r\<lparr>pr_artifact_identity := pr_artifact_identity r'\<rparr>"
  by (cases r; cases r') (simp add: record_fields_def)

lemma canonical_bytes_payload:
  assumes "canonical_record_bytes r = Inr b"
  obtains j where "record_payload r = Inr j" and "b = dumps_ascii j"
    and "pr_record_schema_version r = 1 \<and> pr_artifact_identity r = PNone \<or> pr_record_schema_version r = 2"
proof -
  have "pr_record_schema_version r \<in> {1, 2}" and "pr_record_schema_version r = 1 \<longrightarrow> pr_artifact_identity r = PNone"
    using assms by (auto simp: canonical_record_bytes_def split: if_split_asm)
  moreover from this have "r_bind (record_payload r) (\<lambda>payload. Inr (dumps_ascii payload)) = Inr b"
    using assms by (auto simp: canonical_record_bytes_def)
  then obtain j where "record_payload r = Inr j" "b = dumps_ascii j" by (cases "record_payload r") auto
  ultimately show ?thesis using that by blast
qed

lemma sort_keys_length: "sort_keys (JObj kvs) = sort_keys (JObj lws) \<Longrightarrow> length kvs = length lws"
  by (drule arg_cong [of _ _ "\<lambda>j. case j of JObj es \<Rightarrow> length es | _ \<Rightarrow> 0"]) simp

lemma canonical_bytes_inj:
  assumes "canonical_record_bytes r = Inr b" and "canonical_record_bytes r' = Inr b" and "record_texts r" and "record_texts r'"
  shows "same_record r r'"
proof -
  obtain j where j: "record_payload r = Inr j" "b = dumps_ascii j"
      "pr_record_schema_version r = 1 \<and> pr_artifact_identity r = PNone \<or> pr_record_schema_version r = 2"
    using assms(1) by (rule canonical_bytes_payload)
  obtain k where k: "record_payload r' = Inr k" "b = dumps_ascii k"
      "pr_record_schema_version r' = 1 \<and> pr_artifact_identity r' = PNone \<or> pr_record_schema_version r' = 2"
    using assms(2) by (rule canonical_bytes_payload)
  have eq: "sort_keys j = sort_keys k"
    using dumps_ascii_inj [of j k] j(1,2) k(1,2) assms(3,4) by (simp add: record_texts_def)
  have len: "length (record_fields r) = length (record_fields r')" by (metis record_fields_keys(1) length_map)
  show ?thesis
  proof (cases "pr_record_schema_version r = 2")
    case True
    then obtain m where m: "pyval_json (pr_artifact_identity r) = Inr m"
        "j = JObj (record_fields r @ [(''record_schema_version'', JInt 2), (''artifact_identity'', m)])"
      using j(1) by (auto simp: record_payload_def r_bind_Inr_iff)
    have v: "pr_record_schema_version r' = 2"
    proof (rule ccontr)
      assume "pr_record_schema_version r' \<noteq> 2"
      then have "k = JObj (record_fields r')" using k(1) by (simp add: record_payload_def)
      from sort_keys_length [OF eq [unfolded m(2) this]] len show False by simp
    qed
    then obtain m' where m': "pyval_json (pr_artifact_identity r') = Inr m'"
        "k = JObj (record_fields r' @ [(''record_schema_version'', JInt 2), (''artifact_identity'', m')])"
      using k(1) by (auto simp: record_payload_def r_bind_Inr_iff)
    have "map (sort_keys \<circ> snd) (record_fields r @ [(''record_schema_version'', JInt 2), (''artifact_identity'', m)]) =
        map (sort_keys \<circ> snd) (record_fields r' @ [(''record_schema_version'', JInt 2), (''artifact_identity'', m')])"
      by (rule iffD1 [OF sort_keys_obj eq [unfolded m(2) m'(2)]]) (simp_all add: record_fields_def)
    then have "map (sort_keys \<circ> snd) (record_fields r) = map (sort_keys \<circ> snd) (record_fields r')" "sort_keys m = sort_keys m'"
      using len by simp_all
    then show ?thesis using record_fields_inj [of r r'] True v m(1) m'(1) by (simp add: same_record_def)
  next
    case False
    then have r: "pr_record_schema_version r = 1" "pr_artifact_identity r = PNone" "j = JObj (record_fields r)"
      using j by (auto simp: record_payload_def)
    have v: "pr_record_schema_version r' = 1"
    proof (rule ccontr)
      assume "pr_record_schema_version r' \<noteq> 1"
      then have "pr_record_schema_version r' = 2" using k(3) by simp
      then obtain m where "k = JObj (record_fields r' @ [(''record_schema_version'', JInt 2), (''artifact_identity'', m)])"
        using k(1) by (auto simp: record_payload_def r_bind_Inr_iff)
      from sort_keys_length [OF eq [unfolded r(3) this]] len show False by simp
    qed
    then have r': "pr_artifact_identity r' = PNone" "k = JObj (record_fields r')" using k by (auto simp: record_payload_def)
    have "map (sort_keys \<circ> snd) (record_fields r) = map (sort_keys \<circ> snd) (record_fields r')"
      by (rule iffD1 [OF sort_keys_obj eq [unfolded r(3) r'(2)]]) (rule record_fields_keys)+
    then show ?thesis using record_fields_inj [of r r'] r v r' by (simp add: same_record_def)
  qed
qed

section \<open>Errors\<close>

definition refusal :: "py_error \<Rightarrow> bool" where
  "refusal e \<longleftrightarrow> (\<exists>m. e = ValueError m) \<or> e = TypeError"

lemma refusal_simps [simp]: "refusal (ValueError m)" "refusal TypeError"
  by (simp_all add: refusal_def)

lemma refusal_raise: "raises_only refusal (Inl (ValueError m))"
  by simp

lemma refusal_check [simp]: "raises_only refusal (r_check m b)"
  by (simp add: r_check_def)

lemma refusal_in_set [simp]: "raises_only refusal (in_str_set v xs)"
  by (simp add: in_str_set_def)

lemmas refusal_intros = raises_only_if raises_only_then raises_only_bind raises_only_each refusal_raise refusal_check refusal_in_set raises_only_simps(1)

lemma mk_artifact_refusal: "raises_only refusal (mk_artifact s d c n)"
  unfolding mk_artifact_def check_completed_def by (intro refusal_intros)

lemma from_dict_refusal: "raises_only refusal (from_dict v)"
  unfolding from_dict_def str_or_null_def
  by (cases v; simp only: pyval.case) (intro refusal_intros mk_artifact_refusal)+

lemma validate_refusal: "raises_only refusal (validate_identity_metadata v)"
  unfolding validate_identity_metadata_def
  by (cases v; simp only: pyval.case) (intro refusal_intros from_dict_refusal)+

lemma check_v2_refusal: "raises_only refusal (check_v2 r)"
  unfolding check_v2_def case_prod_beta by (intro refusal_intros validate_refusal)

lemma pyval_json_refusal: "raises_only refusal (pyval_json v)"
  by (induction v rule: pyval_json.induct) (auto intro!: raises_only_bind raises_only_map)

lemma canonical_refusal: "raises_only refusal (canonical_record_bytes r)"
  unfolding canonical_record_bytes_def record_payload_def
  by (intro refusal_intros check_v2_refusal pyval_json_refusal)

section \<open>Verification\<close>

text \<open>What is checked of one record.\<close>

definition attested :: "'s verifier \<Rightarrow> signed_record \<Rightarrow> bool" where
  "attested V s \<longleftrightarrow>
     (\<exists>canonical key. canonical_record_bytes (sr_record s) = Inr canonical \<and>
       kms_public_key (v_signer V) (sr_kms_key_arn s) (sr_kms_key_version s) = Some key \<and>
       v_signature V key canonical (sr_signature s) (sr_signature_alg s)) \<and>
     (\<forall>fetch digest. v_artifacts V = Some fetch \<longrightarrow> pr_sarif_hash (sr_record s) = Some digest \<longrightarrow>
       (\<exists>blob. fetch (sarif_uri (sr_record s)) = Some blob \<and> v_hash V blob = digest))"

text \<open>
  A chain is checked when each record on it is attested, down to one that has no parent to check. The
  predicate lists what the code of \<open>verify_chain\<close> checks and no more: neither the snapshot digest of a
  record nor the oracle run of a re-partition record is compared with a stored artifact.
\<close>

inductive checked_chain :: "'s verifier \<Rightarrow> signed_record \<Rightarrow> bool" for V where
  root: "attested V s \<Longrightarrow> v_store V = None \<or> pr_record_type (sr_record s) \<noteq> ''repartition'' \<Longrightarrow> checked_chain V s"
| link: "attested V s \<Longrightarrow> v_store V = Some (ops, st) \<Longrightarrow> pr_record_type (sr_record s) = ''repartition'' \<Longrightarrow>
     pr_parent_record_id (sr_record s) = Some p \<Longrightarrow> store_get ops st p = Some parent \<Longrightarrow> checked_chain V parent \<Longrightarrow> checked_chain V s"

definition next_record :: "'s verifier \<Rightarrow> signed_record \<Rightarrow> signed_record option" where
  "next_record V s =
     (case v_store V of
        Some (ops, st) \<Rightarrow>
          if attested V s \<and> pr_record_type (sr_record s) = ''repartition''
          then Option.bind (pr_parent_record_id (sr_record s)) (store_get ops st) else None
      | None \<Rightarrow> None)"

definition VERDICTS :: "string set" where
  "VERDICTS = {''VERIFIED'', ''TAMPERED'', ''KEY_NOT_FOUND'', ''ARTIFACT_MISSING''}"

lemma canonical_cases:
  obtains b where "canonical_record_bytes r = Inr b" | m where "canonical_record_bytes r = Inl (ValueError m)"
  | "canonical_record_bytes r = Inl TypeError"
  using canonical_refusal [of r] by (cases "canonical_record_bytes r") (auto simp: refusal_def)

lemma verify_not_attested: "\<not> attested V s \<Longrightarrow> \<exists>v \<in> VERDICTS - {''VERIFIED''}. \<forall>n. verify_chain (Suc n) V s = Inr v"
  by (cases rule: canonical_cases [of "sr_record s"])
    (auto simp: attested_def VERDICTS_def verify_artifacts_def split: option.splits if_splits)

lemma verify_attested:
  assumes "attested V s"
  shows "verify_chain (Suc n) V s =
    (case v_store V of
       None \<Rightarrow> Inr ''VERIFIED''
     | Some (ops, st) \<Rightarrow>
         if pr_record_type (sr_record s) \<noteq> ''repartition'' then Inr ''VERIFIED''
         else case pr_parent_record_id (sr_record s) of
             None \<Rightarrow> Inr ''TAMPERED''
           | Some p \<Rightarrow> (case store_get ops st p of None \<Rightarrow> Inr ''ARTIFACT_MISSING'' | Some parent \<Rightarrow> verify_chain n V parent))"
  using assms by (auto simp: attested_def verify_artifacts_def Let_def split: option.splits)

lemma verify_next: "next_record V s = Some parent \<Longrightarrow> verify_chain (Suc n) V s = verify_chain n V parent"
  by (cases "attested V s") (auto simp: next_record_def verify_attested bind_eq_Some_conv simp del: verify_chain.simps split: option.splits if_splits)

lemma verify_last: "next_record V s = None \<Longrightarrow> \<exists>v \<in> VERDICTS. \<forall>n. verify_chain (Suc n) V s = Inr v"
proof (cases "attested V s")
  case True
  assume "next_record V s = None"
  with True show ?thesis
    by (auto simp: next_record_def verify_attested VERDICTS_def simp del: verify_chain.simps split: option.splits if_splits)
qed (use verify_not_attested in \<open>blast dest: verify_not_attested\<close>)

lemma verify_more: "verify_chain n V s = Inr v \<Longrightarrow> n \<le> m \<Longrightarrow> verify_chain m V s = Inr v"
proof (induction n arbitrary: s m)
  case (Suc n)
  then obtain k where m: "m = Suc k" "n \<le> k" by (cases m) auto
  show ?case
  proof (cases "next_record V s")
    case None
    then show ?thesis using verify_last [OF None] Suc.prems(1) unfolding m by metis
  next
    case (Some parent)
    then show ?thesis using Suc m by (simp add: verify_next del: verify_chain.simps)
  qed
qed simp

lemma verified_checked: "verify_chain n V s = Inr ''VERIFIED'' \<Longrightarrow> checked_chain V s"
proof (induction n arbitrary: s)
  case (Suc n)
  have at: "attested V s"
  proof (rule ccontr)
    assume "\<not> attested V s"
    from verify_not_attested [OF this] Suc.prems show False by (auto simp del: verify_chain.simps)
  qed
  from Suc.prems show ?case unfolding verify_attested [OF at]
    by (auto split: option.splits prod.splits if_splits intro: at Suc.IH checked_chain.intros)
qed simp

lemma checked_verified: "checked_chain V s \<Longrightarrow> \<exists>n. verify_chain n V s = Inr ''VERIFIED''"
proof (induction rule: checked_chain.induct)
  case (root s)
  then show ?case
    by (intro exI [of _ "Suc 0"]) (auto simp: verify_attested simp del: verify_chain.simps split: option.splits)
next
  case (link s ops st p parent)
  then obtain n where "verify_chain n V parent = Inr ''VERIFIED''" by blast
  with link show ?case by (intro exI [of _ "Suc n"]) (simp add: verify_attested del: verify_chain.simps)
qed

text \<open>Of the artifact store only the SARIF logs are read.\<close>

lemma verify_artifacts_sarif_only:
  "fetch' (sarif_uri r) = fetch (sarif_uri r) \<Longrightarrow> verify_artifacts H r fetch' = verify_artifacts H r fetch"
  unfolding verify_artifacts_def by presburger

lemma verify_chain_sarif_only:
  assumes "v_artifacts V = Some fetch" and "\<And>r. fetch' (sarif_uri r) = fetch (sarif_uri r)"
  shows "verify_chain n (V\<lparr>v_artifacts := Some fetch'\<rparr>) s = verify_chain n V s"
proof (induction n arbitrary: s)
  case (Suc n)
  have "verify_artifacts H r fetch' = verify_artifacts H r fetch" for H r
    by (rule verify_artifacts_sarif_only [of fetch' r fetch]) (rule assms(2))
  moreover have "verify_chain n (V\<lparr>v_artifacts := Some fetch'\<rparr>) = verify_chain n V" using Suc by blast
  ultimately show ?case using assms(1)
    by (cases rule: canonical_cases [of "sr_record s"]) (simp_all add: Let_def split: option.split)
qed simp

section \<open>Record stores\<close>

abbreviation rec_id :: "signed_record \<Rightarrow> uuid" where
  "rec_id s \<equiv> pr_id (sr_record s)"

abbreviation parent_of :: "signed_record \<Rightarrow> uuid option" where
  "parent_of s \<equiv> pr_parent_record_id (sr_record s)"

abbreviation is_repartition :: "signed_record \<Rightarrow> bool" where
  "is_repartition s \<equiv> pr_record_type (sr_record s) = ''repartition''"

text \<open>A re-partition record for the record with the given id is among the rows.\<close>

definition flipped :: "signed_record list \<Rightarrow> uuid \<Rightarrow> bool" where
  "flipped xs i \<longleftrightarrow> (\<exists>x \<in> set xs. is_repartition x \<and> parent_of x = Some i)"

lemma flipped_append [simp]: "flipped (xs @ ys) i \<longleftrightarrow> flipped xs i \<or> flipped ys i"
  by (auto simp: flipped_def)

text \<open>Record ids are unique, and the parent of a re-partition record is stored before it.\<close>

definition well_linked :: "signed_record list \<Rightarrow> bool" where
  "well_linked xs \<longleftrightarrow> distinct (map rec_id xs) \<and>
     (\<forall>i < length xs. is_repartition (xs ! i) \<longrightarrow> (\<exists>j < i. parent_of (xs ! i) = Some (rec_id (xs ! j))))"

lemma well_linked_snoc:
  "well_linked xs \<Longrightarrow> rec_id x \<notin> rec_id ` set xs \<Longrightarrow> (is_repartition x \<Longrightarrow> \<exists>y \<in> set xs. parent_of x = Some (rec_id y)) \<Longrightarrow> well_linked (xs @ [x])"
  unfolding well_linked_def by (auto simp: nth_append less_Suc_eq in_set_conv_nth) (metis less_trans)+

text \<open>
  What a client may rely on: appending adds one row with a new id and fails only for a known id, and the
  queries answer from the rows.
\<close>

locale record_store =
  fixes ops :: "'s pstore" and rows :: "'s \<Rightarrow> signed_record list"
  assumes append_row: "store_append ops x st = Inr st' \<Longrightarrow> rows st' = rows st @ [x] \<and> rec_id x \<notin> rec_id ` set (rows st)"
    and append_new: "rec_id x \<notin> rec_id ` set (rows st) \<Longrightarrow> \<exists>st'. store_append ops x st = Inr st'"
    and get_row: "store_get ops st i = Some x \<Longrightarrow> x \<in> set (rows st) \<and> rec_id x = i"
    and get_known: "x \<in> set (rows st) \<Longrightarrow> store_get ops st (rec_id x) \<noteq> None"
    and children_rows: "set (store_children ops st i) = {x \<in> set (rows st). parent_of x = Some i}"
    and core_rows: "set (store_core_chain ops st sn) = {x \<in> set (rows st). pr_snapshot_id (sr_record x) = sn \<and> is_core_at_risk x}"
begin

lemma sign_row:
  "sign_provenance (store_append ops) r signer arn alg st = Inr (s, st') \<Longrightarrow>
     rows st' = rows st @ [s] \<and> rec_id s \<notin> rec_id ` set (rows st) \<and> sr_record s = r"
  by (auto simp: sign_provenance_def sign_record_def Let_def r_bind_Inr_iff dest!: append_row split: if_split_asm)

lemma event_row:
  assumes "append_repartition_event ops new_id p oracle_id reason signer alg st = Inr (s, st')"
  obtains parent where "rows st' = rows st @ [s]" and "rec_id s \<notin> rec_id ` set (rows st)" and "parent \<in> set (rows st)" and "rec_id parent = p"
    and "sr_record s = repartition_record (sr_record parent) new_id p oracle_id reason"
proof -
  obtain parent where g: "store_get ops st p = Some parent"
    using assms by (auto simp: append_repartition_event_def split: option.splits)
  with assms have "sign_provenance (store_append ops) (repartition_record (sr_record parent) new_id p oracle_id reason) signer
      (sr_kms_key_arn parent) alg st = Inr (s, st')"
    by (simp add: append_repartition_event_def)
  from sign_row [OF this] get_row [OF g] show ?thesis by (intro that [of parent]) auto
qed

lemma already_iff: "already_repartitioned ops st i \<longleftrightarrow> flipped (rows st) i"
  unfolding already_repartitioned_def list_ex_iff children_rows flipped_def by auto

text \<open>Verification of a stored record ends within as many steps as there are records before it.\<close>

lemma next_record_row:
  assumes "well_linked (rows st)" and "v_store V = Some (ops, st)" and "i < length (rows st)" and "next_record V (rows st ! i) = Some parent"
  shows "\<exists>j < i. parent = rows st ! j"
proof -
  obtain p where p: "parent_of (rows st ! i) = Some p" "store_get ops st p = Some parent" "is_repartition (rows st ! i)"
    using assms(2,4) by (auto simp: next_record_def bind_eq_Some_conv split: if_splits)
  obtain j where j: "j < i" "p = rec_id (rows st ! j)"
    using assms(1,3) p(1,3) by (auto simp: well_linked_def)
  have "parent = rows st ! j"
  proof (rule inj_onD)
    show "inj_on rec_id (set (rows st))" using assms(1) by (simp add: well_linked_def distinct_map)
  qed (use get_row [OF p(2)] j assms(3) in auto)
  with j show ?thesis by blast
qed

lemma verify_stored:
  assumes "well_linked (rows st)" and "v_store V = Some (ops, st)"
  shows "i < length (rows st) \<Longrightarrow> \<exists>v \<in> VERDICTS. verify_chain (Suc i) V (rows st ! i) = Inr v"
proof (induction i rule: less_induct)
  case (less i)
  show ?case
  proof (cases "next_record V (rows st ! i)")
    case None
    then show ?thesis using verify_last [OF None] by blast
  next
    case (Some parent)
    from next_record_row [OF assms less.prems Some] obtain j where j: "j < i" "parent = rows st ! j" by blast
    obtain v where v: "v \<in> VERDICTS" "verify_chain (Suc j) V (rows st ! j) = Inr v" using less.IH [of j] j(1) less.prems by auto
    have "verify_chain i V (rows st ! j) = Inr v" using verify_more [OF v(2)] j(1) by simp
    then show ?thesis using v(1) verify_next [OF Some] j(2) by metis
  qed
qed

lemma verify_returns:
  assumes "well_linked (rows st)" and "v_store V = Some (ops, st)"
  shows "\<exists>v \<in> VERDICTS. verify_chain (Suc (length (rows st))) V s = Inr v"
proof (cases "next_record V s")
  case None
  then show ?thesis using verify_last [OF None] by blast
next
  case (Some parent)
  then have "parent \<in> set (rows st)" using assms(2) get_row by (auto simp: next_record_def bind_eq_Some_conv split: if_splits)
  then obtain i where i: "i < length (rows st)" "parent = rows st ! i" by (metis in_set_conv_nth)
  obtain v where v: "v \<in> VERDICTS" "verify_chain (Suc i) V (rows st ! i) = Inr v" using verify_stored [OF assms i(1)] by blast
  have "verify_chain (length (rows st)) V (rows st ! i) = Inr v" using verify_more [OF v(2)] i(1) by simp
  then show ?thesis using v(1) verify_next [OF Some] i(2) by metis
qed

end

text \<open>The writes of the program: any record that is not a re-partition, and the re-partition event.\<close>

inductive store_step :: "'s pstore \<Rightarrow> 's \<Rightarrow> 's \<Rightarrow> bool" for ops where
  sign: "pr_record_type r \<noteq> ''repartition'' \<Longrightarrow> sign_provenance (store_append ops) r signer arn alg st = Inr (s, st') \<Longrightarrow> store_step ops st st'"
| event: "append_repartition_event ops new_id p oracle_id reason signer alg st = Inr (s, st') \<Longrightarrow> store_step ops st st'"

context record_store
begin

lemma step_linked: "store_step ops st st' \<Longrightarrow> well_linked (rows st) \<Longrightarrow> well_linked (rows st')"
proof (induction rule: store_step.induct)
  case (sign r signer arn alg st s st')
  then show ?case using sign_row [OF sign(2)] by (auto intro: well_linked_snoc)
next
  case (event new_id p oracle_id reason signer alg st s st')
  obtain parent where e: "rows st' = rows st @ [s]" "rec_id s \<notin> rec_id ` set (rows st)" "parent \<in> set (rows st)" "rec_id parent = p"
      "sr_record s = repartition_record (sr_record parent) new_id p oracle_id reason"
    using event(1) by (rule event_row)
  have "parent_of s = Some (rec_id parent)" using e(4,5) by (simp add: repartition_record_def)
  with e(1-3) event(2) show ?case by (auto intro!: well_linked_snoc)
qed

lemma steps_linked: "(store_step ops)\<^sup>*\<^sup>* st st' \<Longrightarrow> well_linked (rows st) \<Longrightarrow> well_linked (rows st')"
  by (induction rule: rtranclp_induct) (auto dest: step_linked)

end

lemma find_id: "List.find P xs = Some x \<Longrightarrow> x \<in> set xs \<and> P x"
  by (auto simp: find_Some_iff)

interpretation demo: record_store demo_store "\<lambda>xs. xs"
proof unfold_locales
  show "x \<in> set st \<and> rec_id x = i" if "store_get demo_store st i = Some x" for st i x
    using find_id [of "\<lambda>s. rec_id s = i" st x] that by (simp add: demo_store_def demo_get_def)
qed (auto simp: demo_store_def demo_append_def demo_get_def demo_children_def demo_core_chain_def find_None_iff split: if_splits)

section \<open>Re-partition\<close>

lemma flipped_one: "flipped [s] i \<longleftrightarrow> is_repartition s \<and> parent_of s = Some i"
  by (simp add: flipped_def)

lemma repartition_signs:
  "resp_signature (kms_sign signer arn (dumps_ascii (JObj (record_fields (repartition_record base i p oid reason)))) alg) \<noteq> None \<Longrightarrow>
   \<exists>s. sign_record (repartition_record base i p oid reason) signer arn alg = Inr s \<and> sr_record s = repartition_record base i p oid reason"
  by (auto simp: sign_record_def canonical_record_bytes_def record_payload_def expect_bytes_def Let_def r_then_def repartition_record_def)

text \<open>What one appended row is: the re-partition by the given oracle run of a record at risk.\<close>

definition flips :: "signed_record set \<Rightarrow> signed_record list \<Rightarrow> uuid \<Rightarrow> string \<Rightarrow> signed_record \<Rightarrow> bool" where
  "flips cands xs oracle_id reason s \<longleftrightarrow> (\<exists>c \<in> cands. is_core_at_risk c \<and> \<not> flipped xs (rec_id c) \<and>
     (\<exists>new_id. sr_record s = repartition_record (sr_record c) new_id (rec_id c) oracle_id reason))"

lemma repartition_row:
  "sr_record s = repartition_record base new_id p oracle_id reason \<Longrightarrow>
   parent_of s = Some p \<and> is_repartition s \<and> rec_id s = new_id \<and> pr_origin (sr_record s) = Some ''oracle-passthrough''"
  by (simp add: repartition_record_def)

lemma flips_parent: "flips cands xs oracle_id reason s \<Longrightarrow> \<exists>i. parent_of s = Some i \<and> is_repartition s \<and> \<not> flipped xs i"
  unfolding flips_def by (blast dest: repartition_row)

lemma flips_mono: "flips cands (xs @ ys) oracle_id reason s \<Longrightarrow> cands \<subseteq> cands' \<Longrightarrow> flips cands' xs oracle_id reason s"
  by (auto simp: flips_def)

text \<open>The effect of the loop on the rows, whether it ends or raises.\<close>

definition loop_effect ::
    "signed_record set \<Rightarrow> uuid \<Rightarrow> string \<Rightarrow> signed_record list \<Rightarrow> repartition_result \<Rightarrow> repartition_result res \<Rightarrow> signed_record list \<Rightarrow> bool" where
  "loop_effect cands oracle_id reason xs acc result new \<longleftrightarrow>
     distinct (map rec_id (xs @ new)) \<and> distinct (map parent_of new) \<and> (\<forall>s \<in> set new. flips cands xs oracle_id reason s) \<and>
     (\<forall>r. result = Inr r \<longrightarrow> affected_finding_count r = affected_finding_count acc + length new \<and>
       new_repartition_record_ids r = new_repartition_record_ids acc @ map rec_id new \<and>
       (\<forall>c \<in> cands. is_core_at_risk c \<longrightarrow> flipped (xs @ new) (rec_id c)))"

lemma loop_effect_skip:
  "loop_effect cands oracle_id reason xs (acc\<lparr>already_repartitioned_count := k\<rparr>) result new \<Longrightarrow> (is_core_at_risk c \<Longrightarrow> flipped xs (rec_id c)) \<Longrightarrow>
   loop_effect (insert c cands) oracle_id reason xs acc result new"
proof -
  assume A: "loop_effect cands oracle_id reason xs (acc\<lparr>already_repartitioned_count := k\<rparr>) result new"
    and B: "is_core_at_risk c \<Longrightarrow> flipped xs (rec_id c)"
  have "\<forall>s \<in> set new. flips (insert c cands) xs oracle_id reason s"
    using A unfolding loop_effect_def flips_def by blast
  moreover have "flipped (xs @ new) (rec_id d)" if "d \<in> insert c cands" "is_core_at_risk d" "result = Inr r" for d r
    using that A B unfolding loop_effect_def flipped_append by blast
  moreover have "affected_finding_count r = affected_finding_count acc + length new"
      "new_repartition_record_ids r = new_repartition_record_ids acc @ map rec_id new" if "result = Inr r" for r
    using A that unfolding loop_effect_def by simp_all
  ultimately show ?thesis using A unfolding loop_effect_def by blast
qed

lemma loop_effect_step:
  assumes "loop_effect cands oracle_id reason (xs @ [s]) acc' result new" and "flips {c} xs oracle_id reason s" and "parent_of s = Some (rec_id c)"
    and "acc' = acc\<lparr>affected_finding_count := affected_finding_count acc + 1,
       new_repartition_record_ids := new_repartition_record_ids acc @ [rec_id s], notified_customers := w\<rparr>"
  shows "loop_effect (insert c cands) oracle_id reason xs acc result (s # new)"
proof -
  have rep: "is_repartition s" using flips_parent [OF assms(2)] by blast
  have fresh: "parent_of s \<notin> parent_of ` set new"
  proof
    assume "parent_of s \<in> parent_of ` set new"
    then obtain x where x: "x \<in> set new" "parent_of x = Some (rec_id c)" using assms(3) by auto
    with assms(1) have "flips cands (xs @ [s]) oracle_id reason x" by (simp add: loop_effect_def)
    from flips_parent [OF this] x(2) show False using rep assms(3) by (auto simp: flipped_one)
  qed
  have "flips (insert c cands) xs oracle_id reason x" if "x \<in> set new" for x
    using assms(1) that by (auto simp: loop_effect_def intro: flips_mono [where ys = "[s]"])
  moreover have "flips (insert c cands) xs oracle_id reason s" using assms(2) by (auto simp: flips_def)
  moreover have "flipped (xs @ s # new) (rec_id c)" using rep assms(3) by (auto simp: flipped_def)
  moreover have "distinct (map rec_id (xs @ s # new))" using assms(1) by (simp add: loop_effect_def)
  moreover have "affected_finding_count r = affected_finding_count acc + length (s # new)"
      "new_repartition_record_ids r = new_repartition_record_ids acc @ map rec_id (s # new)"
      "\<forall>d \<in> cands. is_core_at_risk d \<longrightarrow> flipped (xs @ s # new) (rec_id d)" if "result = Inr r" for r
    using assms(1) that unfolding loop_effect_def assms(4) by simp_all
  moreover have "distinct (map parent_of (s # new))" using assms(1) fresh by (simp add: loop_effect_def)
  ultimately show ?thesis unfolding loop_effect_def by (simp only: list.set ball_simps) blast
qed

context record_store
begin

lemma loop_rows:
  assumes "distinct (map rec_id (rows st))" and "set cands \<subseteq> set (rows st)"
    and "repartition_loop ops env oracle_id reason alg cands acc st = (result, st')"
  shows "\<exists>new. rows st' = rows st @ new \<and> loop_effect (set cands) oracle_id reason (rows st) acc result new"
  using assms
proof (induction cands arbitrary: acc st)
  case Nil
  then show ?case by (intro exI [of _ "[]"]) (auto simp: loop_effect_def)
next
  case (Cons c cands)
  consider (out) "\<not> is_core_at_risk c" | (known) "is_core_at_risk c" "flipped (rows st) (rec_id c)"
    | (flip) "is_core_at_risk c" "\<not> flipped (rows st) (rec_id c)" by blast
  then show ?case
  proof cases
    case out
    then show ?thesis
      using Cons.IH [of st acc] Cons.prems loop_effect_skip [where acc = acc and k = "already_repartitioned_count acc" and c = c] by auto
  next
    case known
    then show ?thesis
      using Cons.IH [of st "acc\<lparr>already_repartitioned_count := already_repartitioned_count acc + 1\<rparr>"] Cons.prems
        loop_effect_skip [where acc = acc and k = "already_repartitioned_count acc + 1" and c = c]
      by (auto simp: already_iff)
  next
    case flip
    obtain new_id signer where e: "env (affected_finding_count acc) = (new_id, signer)" by (cases "env (affected_finding_count acc)")
    show ?thesis
    proof (cases "append_repartition_event ops new_id (rec_id c) oracle_id reason signer alg st")
      case (Inl x)
      with flip e Cons.prems have "result = Inl x" "st' = st" by (simp_all add: already_iff)
      then show ?thesis using Cons.prems(1) by (intro exI [of _ "[]"]) (auto simp: loop_effect_def)
    next
      case (Inr ev)
      obtain s st1 where ev: "ev = (s, st1)" by (cases ev)
      obtain parent where p: "rows st1 = rows st @ [s]" "rec_id s \<notin> rec_id ` set (rows st)" "parent \<in> set (rows st)"
          "rec_id parent = rec_id c" "sr_record s = repartition_record (sr_record parent) new_id (rec_id c) oracle_id reason"
        using Inr [unfolded ev] by (rule event_row)
      have "parent = c" using p(3,4) Cons.prems(1,2) by (auto simp: distinct_map dest: inj_onD)
      then have fl: "flips {c} (rows st) oracle_id reason s" and par: "parent_of s = Some (rec_id c)"
        using flip p(5) repartition_row [OF p(5)] by (auto simp: flips_def)
      have "distinct (map rec_id (rows st1))" "set cands \<subseteq> set (rows st1)" using Cons.prems(1,2) p(1,2) by auto
      with Cons.prems(3) flip e Inr ev have "\<exists>new. rows st' = rows st1 @ new \<and> loop_effect (set cands) oracle_id reason (rows st1)
          (acc\<lparr>affected_finding_count := affected_finding_count acc + 1, new_repartition_record_ids := new_repartition_record_ids acc @ [rec_id s],
            notified_customers := notified_customers acc @ [pr_org_id (sr_record c)]\<rparr>) result new"
        by (intro Cons.IH) (simp_all add: already_iff)
      then obtain new where n: "rows st' = rows st @ s # new" and "loop_effect (set cands) oracle_id reason (rows st @ [s])
          (acc\<lparr>affected_finding_count := affected_finding_count acc + 1, new_repartition_record_ids := new_repartition_record_ids acc @ [rec_id s],
            notified_customers := notified_customers acc @ [pr_org_id (sr_record c)]\<rparr>) result new"
        unfolding p(1) by auto
      from loop_effect_step [OF this(2) fl par refl] n show ?thesis by auto
    qed
  qed
qed

text \<open>With signatures and new ids the loop ends.\<close>

lemma loop_returns:
  assumes "set cands \<subseteq> set (rows st)" and "\<And>k. affected_finding_count acc \<le> k \<Longrightarrow> fst (env k) \<notin> rec_id ` set (rows st)"
    and "inj (fst \<circ> env)" and "\<And>k arn m. resp_signature (kms_sign (snd (env k)) arn m alg) \<noteq> None"
  shows "\<exists>r st'. repartition_loop ops env oracle_id reason alg cands acc st = (Inr r, st')"
  using assms(1,2)
proof (induction cands arbitrary: acc st)
  case (Cons c cands)
  show ?case
  proof (cases "is_core_at_risk c \<and> \<not> already_repartitioned ops st (rec_id c)")
    case True
    obtain new_id signer where e: "env (affected_finding_count acc) = (new_id, signer)" by (cases "env (affected_finding_count acc)")
    obtain parent where g: "store_get ops st (rec_id c) = Some parent" using get_known [of c st] Cons.prems(1) by auto
    obtain s where s: "sign_record (repartition_record (sr_record parent) new_id (rec_id c) oracle_id reason) signer (sr_kms_key_arn parent) alg = Inr s"
        "rec_id s = new_id"
    proof -
      have "resp_signature (kms_sign signer (sr_kms_key_arn parent)
          (dumps_ascii (JObj (record_fields (repartition_record (sr_record parent) new_id (rec_id c) oracle_id reason)))) alg) \<noteq> None"
        using assms(4) [of "affected_finding_count acc"] e by simp
      from repartition_signs [OF this] repartition_row show ?thesis using that by blast
    qed
    have "rec_id s \<notin> rec_id ` set (rows st)" using Cons.prems(2) [of "affected_finding_count acc"] e s(2) by simp
    then obtain st1 where st1: "store_append ops s st = Inr st1" using append_new by blast
    have ev: "append_repartition_event ops new_id (rec_id c) oracle_id reason signer alg st = Inr (s, st1)"
      by (simp add: append_repartition_event_def g sign_provenance_def s(1) st1)
    have rows1: "rows st1 = rows st @ [s]" using append_row [OF st1] by simp
    have other: "fst (env k) \<noteq> new_id" if "Suc (affected_finding_count acc) \<le> k" for k
      using injD [OF assms(3), of k "affected_finding_count acc"] that e by auto
    have "\<exists>r st'. repartition_loop ops env oracle_id reason alg cands
        (acc\<lparr>affected_finding_count := affected_finding_count acc + 1, new_repartition_record_ids := new_repartition_record_ids acc @ [rec_id s],
          notified_customers := notified_customers acc @ [pr_org_id (sr_record c)]\<rparr>) st1 = (Inr r, st')"
      by (rule Cons.IH) (use Cons.prems other s(2) in \<open>auto simp: rows1\<close>)
    then show ?thesis using True e ev by simp
  next
    case False
    have "\<exists>r st'. repartition_loop ops env oracle_id reason alg cands (acc\<lparr>already_repartitioned_count := k\<rparr>) st = (Inr r, st')" for k
      by (rule Cons.IH) (use Cons.prems in auto)
    from this [of "already_repartitioned_count acc"] this [of "already_repartitioned_count acc + 1"] False show ?thesis
      by (cases "is_core_at_risk c") auto
  qed
qed simp

end

context record_store
begin

lemma loop_idle:
  "\<forall>c \<in> set cands. is_core_at_risk c \<longrightarrow> flipped (rows st) (rec_id c) \<Longrightarrow>
   \<exists>k. repartition_loop ops env oracle_id reason alg cands acc st = (Inr (acc\<lparr>already_repartitioned_count := k\<rparr>), st)"
proof (induction cands arbitrary: acc)
  case Nil
  show ?case by (rule exI [of _ "already_repartitioned_count acc"]) simp
next
  case (Cons c cands)
  show ?case
  proof (cases "is_core_at_risk c")
    case True
    then show ?thesis using Cons.IH [of "acc\<lparr>already_repartitioned_count := already_repartitioned_count acc + 1\<rparr>"] Cons.prems
      by (simp add: already_iff)
  qed (use Cons in simp)
qed

lemma origin_iff:
  "effective_origin ops st c = (if flipped (rows st) (rec_id c) then ''oracle-passthrough''
     else case pr_origin (sr_record c) of None \<Rightarrow> ''oracle-passthrough'' | Some v \<Rightarrow> v)"
  by (simp add: effective_origin_def already_iff)

lemma core_cands: "set (store_core_chain ops st sn) \<subseteq> set (rows st)"
  by (auto simp: core_rows)

lemma snapshot_rows:
  assumes "distinct (map rec_id (rows st))" and "repartition_snapshot ops env sn oracle_id reason alg st = (result, st')"
  obtains new acc where "rows st' = rows st @ new"
    and "loop_effect (set (store_core_chain ops st sn)) oracle_id reason (rows st)
      \<lparr>affected_finding_count = 0, new_repartition_record_ids = [], notified_customers = [], already_repartitioned_count = 0\<rparr> acc new"
    and "result = r_bind acc (\<lambda>a. Inr (a\<lparr>notified_customers := sort (remdups (notified_customers a))\<rparr>))"
proof -
  obtain acc st1 where l: "repartition_loop ops env oracle_id reason alg (store_core_chain ops st sn)
      \<lparr>affected_finding_count = 0, new_repartition_record_ids = [], notified_customers = [], already_repartitioned_count = 0\<rparr> st = (acc, st1)"
    by fastforce
  then have "result = r_bind acc (\<lambda>a. Inr (a\<lparr>notified_customers := sort (remdups (notified_customers a))\<rparr>))" "st1 = st'"
    using assms(2) by (simp_all add: repartition_snapshot_def)
  with loop_rows [OF assms(1) core_cands l] show ?thesis using that by blast
qed

lemma snapshot_idle:
  assumes "\<forall>c \<in> set (store_core_chain ops st sn). flipped (rows st) (rec_id c)"
  shows "\<exists>r. repartition_snapshot ops env sn oracle_id reason alg st = (Inr r, st) \<and> affected_finding_count r = 0"
  using loop_idle [of "store_core_chain ops st sn" st env oracle_id reason alg
      "\<lparr>affected_finding_count = 0, new_repartition_record_ids = [], notified_customers = [], already_repartitioned_count = 0\<rparr>"] assms
  by (auto simp: repartition_snapshot_def)

lemma snapshot_returns:
  assumes "\<And>k. fst (env k) \<notin> rec_id ` set (rows st)" and "inj (fst \<circ> env)"
    and "\<And>k arn m. resp_signature (kms_sign (snd (env k)) arn m alg) \<noteq> None"
  shows "\<exists>r st'. repartition_snapshot ops env sn oracle_id reason alg st = (Inr r, st')"
proof -
  have "\<exists>r st'. repartition_loop ops env oracle_id reason alg (store_core_chain ops st sn)
      \<lparr>affected_finding_count = 0, new_repartition_record_ids = [], notified_customers = [], already_repartitioned_count = 0\<rparr> st = (Inr r, st')"
    by (rule loop_returns) (use core_cands assms in auto)
  then show ?thesis by (auto simp: repartition_snapshot_def)
qed

text \<open>The whole effect of one call.\<close>

lemma snapshot_effect:
  assumes "distinct (map rec_id (rows st))" and "repartition_snapshot ops env sn oracle_id reason alg st = (result, st')"
  obtains new where "rows st' = rows st @ new" and "distinct (map rec_id (rows st @ new))" and "distinct (map parent_of new)"
    and "\<And>s. s \<in> set new \<Longrightarrow> flips {c \<in> set (rows st). pr_snapshot_id (sr_record c) = sn} (rows st) oracle_id reason s"
    and "\<And>r. result = Inr r \<Longrightarrow> affected_finding_count r = length new \<and> new_repartition_record_ids r = map rec_id new \<and>
      (\<forall>c \<in> set (rows st). pr_snapshot_id (sr_record c) = sn \<and> is_core_at_risk c \<longrightarrow> flipped (rows st') (rec_id c))"
proof -
  obtain new acc where n: "rows st' = rows st @ new"
    and e: "loop_effect (set (store_core_chain ops st sn)) oracle_id reason (rows st)
      \<lparr>affected_finding_count = 0, new_repartition_record_ids = [], notified_customers = [], already_repartitioned_count = 0\<rparr> acc new"
    and r: "result = r_bind acc (\<lambda>a. Inr (a\<lparr>notified_customers := sort (remdups (notified_customers a))\<rparr>))"
    using assms by (rule snapshot_rows)
  show ?thesis
  proof (rule that [OF n])
    show "distinct (map rec_id (rows st @ new))" "distinct (map parent_of new)" using e by (simp_all add: loop_effect_def)
    show "flips {c \<in> set (rows st). pr_snapshot_id (sr_record c) = sn} (rows st) oracle_id reason s" if "s \<in> set new" for s
      using e that unfolding loop_effect_def core_rows by (blast intro: flips_mono [where ys = "[]", unfolded append_Nil2])
    show "affected_finding_count q = length new \<and> new_repartition_record_ids q = map rec_id new \<and>
      (\<forall>c \<in> set (rows st). pr_snapshot_id (sr_record c) = sn \<and> is_core_at_risk c \<longrightarrow> flipped (rows st') (rec_id c))" if res: "result = Inr q" for q
    proof -
      obtain a where a: "acc = Inr a" "q = a\<lparr>notified_customers := sort (remdups (notified_customers a))\<rparr>"
        using r res by (cases acc) auto
      have "affected_finding_count a = length new \<and> new_repartition_record_ids a = map rec_id new"
        and "\<forall>c \<in> set (store_core_chain ops st sn). is_core_at_risk c \<longrightarrow> flipped (rows st @ new) (rec_id c)"
        using e a(1) unfolding loop_effect_def by simp_all
      then show ?thesis unfolding core_rows n a(2) by simp
    qed
  qed
qed

end

lemma well_linked_extend:
  assumes "well_linked xs" and "distinct (map rec_id (xs @ new))"
    and "\<And>s. s \<in> set new \<Longrightarrow> \<exists>c \<in> set xs. parent_of s = Some (rec_id c)"
  shows "well_linked (xs @ new)"
proof -
  have "\<exists>j < i. parent_of ((xs @ new) ! i) = Some (rec_id ((xs @ new) ! j))" if "i < length (xs @ new)" "is_repartition ((xs @ new) ! i)" for i
  proof (cases "i < length xs")
    case True
    with assms(1) that(2) obtain j where "j < i" "parent_of (xs ! i) = Some (rec_id (xs ! j))"
      unfolding well_linked_def by (auto simp: nth_append)
    then show ?thesis using True by (intro exI [of _ j]) (simp add: nth_append)
  next
    case False
    then have "(xs @ new) ! i \<in> set new" using that(1) by (simp add: nth_append)
    from assms(3) [OF this] obtain j where "j < length xs" "parent_of ((xs @ new) ! i) = Some (rec_id (xs ! j))"
      by (metis in_set_conv_nth)
    then show ?thesis using False by (intro exI [of _ j]) (auto simp: nth_append)
  qed
  with assms(2) show ?thesis by (simp add: well_linked_def)
qed

end
