(* ===== verification/Provenance_Claims.thy ===== *)
theory Provenance_Claims
  imports Provenance_Contract
begin

text \<open>
  The contract of the provenance records over the in-memory store: verification decides the checks of
  the chain and reads no other artifact, what is verified was signed, what is signed is verified, and a re-partition flips each finding once.
\<close>

section \<open>Sample\<close>

definition sample_record :: provenance_record where
  "sample_record = \<lparr>pr_id = ''a'', pr_parent_record_id = None, pr_record_type = ''chain'', pr_scan_id = ''b'', pr_finding_id = None,
     pr_org_id = ''c'', pr_codebase_id = ''d'', pr_commit_sha = ''e'', pr_scm_provider = ''f'', pr_snapshot_id = ''g'',
     pr_snapshot_digest = ''h'', pr_precondition_status = None, pr_S_version = ''1'', pr_env_digest = ''i'', pr_cpg_order_hash = None,
     pr_cpg_order_hash_annotation = CPG_ORDER_HASH_ANNOTATION, pr_fingerprint_class = None, pr_witness_blob_uri = None,
     pr_slice_fingerprint = None, pr_rule_id = None, pr_spec_id = None, pr_detector_id = None, pr_detector_engine = Some ''ifds'',
     pr_sarif_hash = None, pr_origin = Some ''deterministic-core'', pr_determinism_partition = None, pr_repartition_reason = None,
     pr_repartition_oracle_id = None, pr_claim_label = ''EMPIRICAL'', pr_record_schema_version = 1, pr_artifact_identity = PNone\<rparr>"

text \<open>A key service whose signature of a message is the message.\<close>

definition sample_signer :: kms_signer where
  "sample_signer = \<lparr>kms_sign = \<lambda>key m alg. \<lparr>resp_signature = Some m, resp_key_id = None\<rparr>, kms_public_key = \<lambda>arn v. Some ''k''\<rparr>"

definition sample_bytes :: bytes where
  "sample_bytes = dumps_ascii (JObj (record_fields sample_record))"

definition sample_signed :: signed_record where
  "sample_signed = \<lparr>sr_record = sample_record, sr_canonical_bytes = sample_bytes, sr_kms_key_arn = ''k'', sr_kms_key_version = ''k'',
     sr_signature = sample_bytes, sr_signature_alg = ''RSASSA_PSS_SHA_256''\<rparr>"

definition sample_verifier :: "signed_record list verifier" where
  "sample_verifier = \<lparr>v_hash = \<lambda>b. b, v_signature = \<lambda>key m sg alg. m = sample_bytes \<and> sg = m, v_signer = sample_signer,
     v_artifacts = None, v_store = Some (demo_store, [sample_signed])\<rparr>"

lemma sample_canonical: "canonical_record_bytes sample_record = Inr sample_bytes"
  by (simp add: canonical_record_bytes_def record_payload_def sample_bytes_def r_then_def sample_record_def)

lemma sample_texts: "record_texts sample_record"
proof -
  have ascii: "utf8_valid s" if "list_all (\<lambda>c. of_char c < (128 :: nat)) s" for s
    by (rule utf8_valid_ascii) (use that in \<open>auto simp: list_all_iff\<close>)
  have "json_strings utf8_valid (JObj (record_fields sample_record))"
    by (simp add: record_fields_def sample_record_def jopt_def opt_hex_def CPG_ORDER_HASH_ANNOTATION_def ascii del: utf8_valid.simps)
  then show ?thesis by (simp add: record_texts_def record_payload_def sample_record_def)
qed

lemma sample_sign: "sign_record sample_record sample_signer ''k'' ''RSASSA_PSS_SHA_256'' = Inr sample_signed"
proof -
  have "pr_cpg_order_hash_annotation sample_record = CPG_ORDER_HASH_ANNOTATION" "pr_origin sample_record \<noteq> None"
    by (simp_all add: sample_record_def)
  then show ?thesis
    by (simp add: sign_record_def sample_canonical sample_signer_def expect_bytes_def key_version_def sample_signed_def)
qed


lemma sample_linked: "well_linked [sample_signed]"
  by (simp add: well_linked_def sample_signed_def sample_record_def)

lemma sample_verified: "verify_chain (Suc n) sample_verifier sample_signed = Inr ''VERIFIED''"
proof -
  have "attested sample_verifier sample_signed"
    by (simp add: attested_def sample_verifier_def sample_signed_def sample_canonical sample_signer_def)
  from verify_attested [OF this] show ?thesis by (simp add: sample_verifier_def sample_signed_def sample_record_def)
qed

section \<open>Claims\<close>



text \<open>
  C21. A verified record was signed. If the signature check accepts only the canonical bytes of the
  records that were given to the key service, then every record that is verified agrees in every field
  with one of those records, up to the order of the entries of its metadata, and where a SARIF digest
  is recorded the stored log has it: no field can be changed without the verdict changing.
\<close>

theorem verified_record_was_signed:
  assumes "verify_chain n V s = Inr ''VERIFIED''"
    and "\<And>key m sg alg. v_signature V key m sg alg \<Longrightarrow> \<exists>r \<in> given. canonical_record_bytes r = Inr m"
    and "record_texts (sr_record s)" and "\<And>r. r \<in> given \<Longrightarrow> record_texts r"
  shows "(\<exists>r \<in> given. same_record r (sr_record s)) \<and>
    (\<forall>fetch digest. v_artifacts V = Some fetch \<longrightarrow> pr_sarif_hash (sr_record s) = Some digest \<longrightarrow>
      (\<exists>blob. fetch (sarif_uri (sr_record s)) = Some blob \<and> v_hash V blob = digest))"
proof -
  have at: "attested V s" using verified_checked [OF assms(1)] by (auto elim: checked_chain.cases)
  then obtain b key where b: "canonical_record_bytes (sr_record s) = Inr b" "v_signature V key b (sr_signature s) (sr_signature_alg s)"
    unfolding attested_def by blast
  from assms(2) [OF b(2)] obtain r where "r \<in> given" "canonical_record_bytes r = Inr b" by blast
  with canonical_bytes_inj [OF _ b(1) _ assms(3)] assms(4) at show ?thesis unfolding attested_def by blast
qed

theorem verified_record_was_signed_witness: "same_record sample_record (sr_record sample_signed)"
proof -
  have "(\<exists>r \<in> {sample_record}. same_record r (sr_record sample_signed)) \<and>
    (\<forall>fetch digest. v_artifacts sample_verifier = Some fetch \<longrightarrow> pr_sarif_hash (sr_record sample_signed) = Some digest \<longrightarrow>
      (\<exists>blob. fetch (sarif_uri (sr_record sample_signed)) = Some blob \<and> v_hash sample_verifier blob = digest))"
  proof (rule verified_record_was_signed)
    show "verify_chain (Suc 0) sample_verifier sample_signed = Inr ''VERIFIED''" by (rule sample_verified)
    show "\<exists>r \<in> {sample_record}. canonical_record_bytes r = Inr m" if "v_signature sample_verifier key m sg alg" for key m sg alg
      using that by (simp add: sample_verifier_def sample_canonical)
    show "record_texts (sr_record sample_signed)" by (simp add: sample_signed_def sample_texts)
    show "record_texts r" if "r \<in> {sample_record}" for r using that by (simp add: sample_texts)
  qed
  then show ?thesis by blast
qed

text \<open>
  What is signed is verified. If the key service answers a request with a signature that the
  signature check accepts under the public key of the version it names, and the SARIF log of the record
  is stored with the recorded digest, then the signed record that \<open>sign_provenance\<close> returns is verified,
  whatever store it is verified against, provided it is not a re-partition record.
\<close>

theorem signed_record_verifies:
  assumes "sign_provenance put r signer arn alg st = Inr (s, st')" and "v_signer V = signer" and "pr_record_type r \<noteq> ''repartition''"
    and "\<And>m sg. resp_signature (kms_sign signer arn m alg) = Some sg \<Longrightarrow>
      \<exists>key. kms_public_key signer arn (key_version (case resp_key_id (kms_sign signer arn m alg) of None \<Rightarrow> arn | Some k \<Rightarrow> k)) = Some key \<and>
        v_signature V key m sg alg"
    and "\<And>fetch digest. v_artifacts V = Some fetch \<Longrightarrow> pr_sarif_hash r = Some digest \<Longrightarrow>
      \<exists>blob. fetch (sarif_uri r) = Some blob \<and> v_hash V blob = digest"
  shows "sr_record s = r \<and> verify_chain (Suc n) V s = Inr ''VERIFIED''"
proof -
  obtain b sg where b: "canonical_record_bytes r = Inr b" "resp_signature (kms_sign signer arn b alg) = Some sg"
    and s: "s = \<lparr>sr_record = r, sr_canonical_bytes = b, sr_kms_key_arn = arn,
      sr_kms_key_version = key_version (case resp_key_id (kms_sign signer arn b alg) of None \<Rightarrow> arn | Some k \<Rightarrow> k),
      sr_signature = sg, sr_signature_alg = alg\<rparr>"
    using assms(1) by (auto simp: sign_provenance_def sign_record_def expect_bytes_def Let_def r_bind_Inr_iff split: if_split_asm option.split_asm)
  have "attested V s" unfolding attested_def using b assms(2,4,5) by (auto simp: s)
  from verify_attested [OF this] show ?thesis using assms(3) by (auto simp: s split: option.splits)
qed

theorem signed_record_verifies_witness:
  "sr_record sample_signed = sample_record \<and>
   verify_chain (Suc 0) (sample_verifier\<lparr>v_signature := \<lambda>key m sg alg. sg = m\<rparr>) sample_signed = Inr ''VERIFIED''"
proof (rule signed_record_verifies)
  show "sign_provenance no_store sample_record sample_signer ''k'' ''RSASSA_PSS_SHA_256'' () = Inr (sample_signed, ())"
    by (simp add: sign_provenance_def sample_sign no_store_def)
  show "pr_record_type sample_record \<noteq> ''repartition''" by (simp add: sample_record_def)
qed (auto simp: sample_verifier_def sample_signer_def)

text \<open>
  C22. A re-partition flips each finding exactly once. Whether the call returns or raises half way, the
  store is extended by re-partition records only, each for a different record of the snapshot that was
  at risk and not yet flipped, in an otherwise unchanged copy with the origin oracle-passthrough; the
  live origin of exactly those records changes, and the links of the store stay sound. When the call
  returns, its counts are those of the new records, every record at risk of the snapshot has the live
  origin oracle-passthrough, and any further call for the snapshot appends nothing. It does return when
  the key service answers with signatures and the new ids are new.
\<close>

theorem repartition_exactly_once:
  assumes "well_linked rows" and "repartition_snapshot demo_store env sn oracle_id reason alg rows = (result, rows')"
  shows "\<exists>new. rows' = rows @ new \<and> well_linked rows' \<and> distinct (map parent_of new) \<and>
    (\<forall>s \<in> set new. flips {c \<in> set rows. pr_snapshot_id (sr_record c) = sn} rows oracle_id reason s) \<and>
    (\<forall>c \<in> set rows. effective_origin demo_store rows' c =
      (if Some (rec_id c) \<in> parent_of ` set new then ''oracle-passthrough'' else effective_origin demo_store rows c)) \<and>
    (\<forall>r. result = Inr r \<longrightarrow> affected_finding_count r = length new \<and> new_repartition_record_ids r = map rec_id new \<and>
      (\<forall>c \<in> set rows. pr_snapshot_id (sr_record c) = sn \<and> is_core_at_risk c \<longrightarrow> effective_origin demo_store rows' c = ''oracle-passthrough'') \<and>
      (\<forall>env2 oracle2 reason2 alg2. \<exists>r2. repartition_snapshot demo_store env2 sn oracle2 reason2 alg2 rows' = (Inr r2, rows') \<and>
        affected_finding_count r2 = 0)) \<and>
    ((\<forall>k. fst (env k) \<notin> rec_id ` set rows) \<and> inj (fst \<circ> env) \<and> (\<forall>k arn m. resp_signature (kms_sign (snd (env k)) arn m alg) \<noteq> None) \<longrightarrow>
      (\<exists>r. result = Inr r))"
proof -
  have ids: "distinct (map rec_id rows)" using assms(1) by (simp add: well_linked_def)
  obtain new where n: "rows' = rows @ new" and d: "distinct (map rec_id (rows @ new))" "distinct (map parent_of new)"
    and f: "\<And>s. s \<in> set new \<Longrightarrow> flips {c \<in> set rows. pr_snapshot_id (sr_record c) = sn} rows oracle_id reason s"
    and r: "\<And>r. result = Inr r \<Longrightarrow> affected_finding_count r = length new \<and> new_repartition_record_ids r = map rec_id new \<and>
      (\<forall>c \<in> set rows. pr_snapshot_id (sr_record c) = sn \<and> is_core_at_risk c \<longrightarrow> flipped rows' (rec_id c))"
    by (rule demo.snapshot_effect [OF ids assms(2)]) (rule that)
  have links: "well_linked rows'" unfolding n
    by (rule well_linked_extend [OF assms(1) d(1)]) (use f in \<open>unfold flips_def, blast dest: repartition_row\<close>)
  have newer: "flipped new i \<longleftrightarrow> Some i \<in> parent_of ` set new" for i
    using f flips_parent unfolding flipped_def by force
  have origins: "effective_origin demo_store rows' c =
      (if Some (rec_id c) \<in> parent_of ` set new then ''oracle-passthrough'' else effective_origin demo_store rows c)" for c
    unfolding demo.origin_iff n flipped_append newer by simp
  have idle: "\<exists>r2. repartition_snapshot demo_store env2 sn oracle2 reason2 alg2 rows' = (Inr r2, rows') \<and> affected_finding_count r2 = 0"
    if "result = Inr q" for q env2 oracle2 reason2 alg2
  proof (rule demo.snapshot_idle)
    have "\<not> is_core_at_risk s" if "s \<in> set new" for s
      using flips_parent [OF f [OF that]] by (auto simp: is_core_at_risk_def)
    then show "\<forall>c \<in> set (store_core_chain demo_store rows' sn). flipped rows' (rec_id c)"
      using r [OF that] unfolding demo.core_rows n by auto
  qed
  have returns: "\<exists>q. result = Inr q"
    if "\<forall>k. fst (env k) \<notin> rec_id ` set rows" "inj (fst \<circ> env)" "\<forall>k arn m. resp_signature (kms_sign (snd (env k)) arn m alg) \<noteq> None"
    using demo.snapshot_returns [of env rows alg sn oracle_id reason] that assms(2) by auto
  have risk: "effective_origin demo_store rows' c = ''oracle-passthrough''"
    if "result = Inr q" "c \<in> set rows" "pr_snapshot_id (sr_record c) = sn \<and> is_core_at_risk c" for q c
    unfolding demo.origin_iff using r [OF that(1)] that(2,3) by simp
  show ?thesis
    by (rule exI [of _ new]) (intro conjI allI ballI impI n links d(2) f origins idle risk; use r returns in blast)
qed

definition sample_env :: call_env where
  "sample_env k = (replicate (Suc k) CHR ''z'', sample_signer)"

theorem repartition_exactly_once_witness:
  "\<exists>r rows'. repartition_snapshot demo_store sample_env ''g'' ''o'' ''why'' ''RSASSA_PSS_SHA_256'' [sample_signed] = (Inr r, rows') \<and>
     effective_origin demo_store rows' sample_signed = ''oracle-passthrough''"
proof -
  obtain result rows' where e: "repartition_snapshot demo_store sample_env ''g'' ''o'' ''why'' ''RSASSA_PSS_SHA_256'' [sample_signed] = (result, rows')"
    by fastforce
  have "fst (sample_env k) \<notin> rec_id ` set [sample_signed]" for k
    by (cases k) (simp_all add: sample_env_def sample_signed_def sample_record_def)
  moreover have "inj (fst \<circ> sample_env)" by (rule injI) (auto simp: sample_env_def dest: arg_cong [of _ _ length])
  moreover have "resp_signature (kms_sign (snd (sample_env k)) arn m alg) \<noteq> None" for k arn m alg
    by (simp add: sample_env_def sample_signer_def)
  moreover have "pr_snapshot_id (sr_record sample_signed) = ''g'' \<and> is_core_at_risk sample_signed"
    by (simp add: sample_signed_def sample_record_def is_core_at_risk_def CORE_ENGINES_def)
  moreover note repartition_exactly_once [OF sample_linked e]
  ultimately obtain r where "result = Inr r" "effective_origin demo_store rows' sample_signed = ''oracle-passthrough''"
    by (elim exE conjE) (simp, blast)
  with e show ?thesis by blast
qed

end
