(* ===== verification/Spec2Isabelle.thy ===== *)
theory Spec2Isabelle
  imports Solver_Contract Dsl_Flow Substrate_Queue Guard Cpg_Delta Fingerprint_Contract
    Continuity_Contract Bound_Rule_Contract Observed_Claims Dsl_Parser_Contract
    Cw_Detect_Contract Provenance_Claims
begin

text \<open>
  \<^bold>\<open>Verification of the scanipy core.\<close>

  scanipy analyses a code base for taint vulnerabilities. Source is parsed into a code property
  graph; an IFDS solver tabulates taint facts over it and reports findings; graphs, solutions and
  slices get canonical identities, so that a later scan can be compared with an earlier one; a
  continuity module proposes which occurrences of two scans are the same and which human decisions
  still apply. Work reaches the analysers through an at-least-once queue, and a control-plane guard
  separates tenants. Rules and graphs that arrive as JSON are decoded under hard limits, and detector
  specifications are parsed from text. This library models these parts from the Python sources and
  proves what makes them correct.

  \<^bold>\<open>Conventions\<close> (theory \<open>Prelude\<close>). A \<open>str\<close> is its UTF-8 bytes, an \<open>int\<close> is \<open>int\<close>, a
  dictionary whose order is observed is an association list. A raise is a value of \<open>py_error\<close> in
  a sum type; code with mutable state returns the state at the point of the raise as well. SHA-256, the
  monotonic clock, the declaration reparser, the queue handler and the SQS client are parameters. A
  frozen dataclass is a record with a \<open>check_\<dots>\<close> function for its \<open>__post_init__\<close>.

  \<^bold>\<open>Parts and theories\<close>

  \<^item> \<^emph>\<open>Canonical order\<close> (\<open>analysis/ordering.py\<close>). \<open>Budget\<close> models \<open>CanonicalizationBudget\<close>; \<open>Cpg\<close>
    the graph, its validation and \<open>encode_graph\<close>; \<open>Ordering\<close> the index, colour refinement, the swap
    test, \<open>_canonical_search\<close>, the fallback and \<open>canonical_order\<close> with its provenance fields.
    \<open>Framing\<close> states the length-prefix contract as the locale \<open>framing\<close>, interpreted for words, texts,
    labels and edges; \<open>Graph_Encoding\<close> shows that equal encodings come from isomorphic graphs;
    \<open>Tables\<close>, \<open>Refinement\<close>, \<open>Canonical_Search\<close> and \<open>Canonical_Order\<close> show that refinement and the
    pruned search commute with renumbering and find the least leaf of the full individualisation
    tree. \<open>Ordering_Contract\<close>: strong hashes are isomorphism invariant, hashes bind content, clocks
    never choose a result, results and errors have the documented shape, and a result is returned.
  \<^item> \<^emph>\<open>Solver\<close> (\<open>analysis/ifds/supergraph.py\<close>, \<open>analysis/ifds/solver.py\<close>). \<open>Supergraph\<close>,
    \<open>Dsl_Spec\<close>, \<open>Tabulation\<close> and \<open>Solver\<close> model the supergraph, the parsed specification, the
    tabulation loop, witnesses, findings, the solution hash, \<open>solve\<close> and \<open>incremental_solve\<close>.
    \<open>Worklist\<close> has the locale that all four worklists of the program share, interpreted for the
    tabulation and for the plain stacks. \<open>Tabulation_Correct\<close>, \<open>Solver_Correct\<close>, \<open>Incremental\<close> and
    \<open>Solver_Contract\<close>: findings are exactly the reachable unsanitized sinks, witnesses are paths, the
    incremental mode stays in the caller closure and reproduces the full run.
  \<^item> \<^emph>\<open>Clause language\<close> (\<open>analysis/ifds/dsl/parser.py\<close>, \<open>errors.py\<close>). \<open>Regex\<close> has the regular expressions
    the sources use, with a matcher proved equal to their denotation, and the string methods over UTF-8
    characters; the character classes of the Unicode database are a parameter. \<open>Dsl_Parser\<close> models
    \<open>parse_spec\<close> and \<open>revalidate_spec\<close>; \<open>Dsl_Parser_Contract\<close>: what is accepted is in the grammar, what is
    in the grammar is accepted, and rejections carry one of the nine codes and a line of the text.
  \<^item> \<^emph>\<open>Flow functions\<close> (\<open>analysis/ifds/dsl/flow.py\<close>, \<open>proofs.py\<close>): \<open>Dsl_Flow\<close>, the four primitives,
    clause union, the bounded distributivity check and the registry of obligations.
  \<^item> \<^emph>\<open>Graph maintenance\<close> (\<open>analysis/cpg_delta.py\<close>): \<open>Cpg_Delta\<close>, the affected set, routing and the
    identity-preserving rebuild, and what a full reparse covers.
  \<^item> \<^emph>\<open>Closed-world detector\<close> (\<open>services/snapshot/cw_detect.py\<close>). \<open>Cw_Detect\<close> models the reflection patterns, the
    walk of the source tree and \<open>detect\<close>, over the file system as a parameter. \<open>Cw_Detect_Contract\<close>: the
    verdict is closed-world exactly when every file is accounted for, a matched line keeps an
    incremental build off the closed-world route, and two of the patterns match exactly at stated
    occurrences, which leaves out common spellings.
  \<^item> \<^emph>\<open>Provenance\<close> (\<open>services/scan/provenance/__init__.py\<close>, \<open>services/snapshot/diff_oracle.py\<close>, the record store of
    \<open>tools/provenance_demo.py\<close> with the query by snapshot of \<open>tests/snap04_fakes.py\<close>). \<open>Json_Ascii\<close> has the JSON rendering with ASCII escapes, an instance of the
    locale \<open>quoting\<close> of \<open>Json\<close>; \<open>Provenance\<close> the records, signing and verification; \<open>Repartition\<close> the oracle runs
    and the re-partition of a snapshot. \<open>Provenance_Contract\<close> states what a record store promises as the locale
    \<open>record_store\<close>, interpreted for the in-memory store, and shows that the canonical bytes bind every
    field; \<open>Provenance_Claims\<close>: verification decides the checks that the code makes and reads no other
    artifact, what is verified was signed, and each finding is flipped once.
  \<^item> \<^emph>\<open>Slice fingerprint\<close> (\<open>analysis/fingerprint.py\<close>). \<open>Fingerprint\<close> models the slicer, the five
    normalisation passes, the strong and weak hashes and the entry points; \<open>Graph_Maps\<close>,
    \<open>Backward_Slice\<close> and \<open>Normal_Form\<close> carry the proofs; \<open>Fingerprint_Contract\<close>: the slice is the
    backward data-flow cone, local names and numbering do not matter, package prefixes do not matter
    when the slice has no identifiers; a lemma shows two graphs with identifiers where they do.
  \<^item> \<^emph>\<open>Artifact identity\<close> (\<open>analysis/artifact_identity.py\<close>): \<open>Artifact_Identity\<close>, the descriptors,
    their reading from findings of any shape, and the metadata round trip.
  \<^item> \<^emph>\<open>Continuity\<close> (\<open>services/scan/continuity.py\<close>). \<open>Json\<close> models the canonical JSON rendering and
    shows it is a prefix code; \<open>Continuity\<close> the cohorts, bindings, observations, occurrences and
    inventories with their digests; \<open>Continuity_Policy\<close> the policies, the registry and
    \<open>validate_registry_transition\<close>; \<open>Continuity_Entity\<close> the decisions, entities and
    \<open>validate_entity_transition\<close>; \<open>Continuity_Plan\<close> \<open>plan_continuity\<close> and \<open>effective_decisions\<close>.
    Registry and entity are both instances of the locale \<open>ledger\<close> (theory \<open>Ledger\<close>): what is known and
    not in force never comes into force again. \<open>Continuity_Contract\<close>: the plan implements a
    declarative matching, fails closed and is total on constructed inputs; a link inherits decisions
    exactly while its policy activation and lifecycle generation are in force.
  \<^item> \<^emph>\<open>Bound rules\<close> (\<open>analysis/ifds/bound_rules.py\<close>). \<open>Json_Parse\<close> models CPython's \<open>json.loads\<close> with its
    hooks and the UTF-8 codec, gives the grammar as an inductive relation, and shows that parsing is
    sound, total within its fuel and inverse to the rendering of \<open>Json\<close>. \<open>Bound_Json\<close> has the preflight
    scan and the strict decoder, \<open>Bound_Json_Contract\<close> its limits, types and round trip; \<open>Rule_Key\<close> and
    \<open>Rule_Key_Contract\<close> the qualified key and its exact codec; \<open>Frozen\<close> the immutable values of
    \<open>analysis/cpg_ingest/typed_observed.py\<close>; \<open>Bound_Rule\<close> the operation models, clauses and the bound
    rule; \<open>Bound_Rule_Contract\<close>: a bound rule is bound to its bytes, only authorised transfers are
    accepted, with a source and a sink of the language in its context, and failures carry stable codes.
  \<^item> \<^emph>\<open>Observed graph\<close> (\<open>analysis/cpg_ingest/raw_v2.py\<close>, \<open>joern_schema_v2.py\<close>, \<open>typed_observed.py\<close>).
    \<open>Raw_Schema\<close> is the pinned node and edge catalogue, \<open>Raw_Export\<close> the strict validation of an export,
    \<open>Observed_Graph\<close> the bounded decoding, the observed nodes and edges and the structural views.
    \<open>Observed_Contract\<close> shows that the ownership check accepts exactly forests and that the memoised
    owner walk finds the nearest method; \<open>Observed_Total\<close> that nothing fails after validation;
    \<open>Observed_Sample\<close> has a concrete accepted export; \<open>Observed_Claims\<close>: forest, ownership, stable
    failure codes and the document round trip.
  \<^item> \<^emph>\<open>Queue\<close> (\<open>services/substrate/queue.py\<close>): \<open>Substrate_Queue\<close>, the in-process queue and the
    idempotent consumer over the locale \<open>queue_port\<close>; messages are conserved, deliveries bounded,
    effects happen at most once, and draining ends with every ready message settled. A handler that
    changes the body, calls the queue, or raises outside of \<open>Exception\<close> is not expressed.
  \<^item> \<^emph>\<open>Guard\<close> (\<open>services/control_plane/guard.py\<close>, \<open>constants.py\<close>): \<open>Guard\<close>, header agreement, the role
    matrix, error envelopes and the org-scoped store.

  \<^bold>\<open>How the parts meet.\<close> \<open>solve\<close> calls \<open>canonical_order\<close> for the provenance of its findings and
  the fingerprint calls its run on slices, with one shared budget; both use the contract of
  \<open>Ordering_Contract\<close> and \<open>Canonical_Order\<close>. The descriptors of \<open>Artifact_Identity\<close> are what
  occurrences carry; a plan under one registry is resolved later under another registry and another
  entity snapshot, and the step relations \<open>registry_step\<close> and \<open>entity_step\<close> connect the two. The verdict of
  the closed-world detector routes \<open>compute_incremental_cpg\<close>; a specification that the parser accepts is
  what the solver reads; a provenance record carries the descriptors of \<open>Artifact_Identity\<close> and the
  annotation of \<open>Ordering\<close>.

  \<^bold>\<open>Bounds.\<close> Loops that are not structural carry a bound, and \<open>OutOfFuel\<close> stands for exceeding it.
  Refinement runs at most one round more than there are nodes, since each round but the last adds a
  colour (\<open>refine_enough\<close>); the search loop is bounded by the state budget that each
  turn enters; tabulation by the number of nodes times the seeded facts; witness backtracking by the
  predecessor table; caller closure, reverse-symbol closure and the backward slice by their
  seeds and edges; verification of a record by the number of stored records. That each bound is enough is part of the theorems that a result is returned.

  \<^bold>\<open>Not modelled.\<close> The drivers of graph ingestion, SARIF
  emission, the object store and the SQL, HTTP, git and signing adapters are I/O or decoding of external formats.
  Clock readings and their differences are exact reals, not floats, and JSON numbers with a fraction are
  modelled only where they are refused; so \<open>parse_raw_export\<close>, which admits them, is left out. The
  recursion limit of the interpreter is not modelled: every decoder bounds the nesting first. Of the SQS adapter only
  the receipt bookkeeping is modelled, since the rest is calls to the client. In \<open>isinstance\<close> tests of the
  continuity classes the wrong-type branch does not occur, because the model is typed; error
  messages that interpolate the \<open>repr\<close> of a value keep their literal part.
\<close>

end
